(* ===== verification/Vole_Prelude.thy ===== *)
theory Vole_Prelude
  imports Main "HOL-Library.Finite_Map" "HOL-Library.Word" "HOL-Library.List_Lexorder"
    "HOL-Library.Char_ord" "HOL-Library.Product_Lexorder" "HOL-Library.Multiset"
begin

text \<open>
  Shared vocabulary of the development: the Go values the other theories compute with (clock
  readings, 64-bit integers, decimal strings, binary search, maps) and the lemmas about them.

  Conventions. A Go \<open>string\<close> is a \<^typ>\<open>string\<close>, that is a list of bytes; Go's \<open><\<close> on strings is
  the lexicographic order of bytes, which is the order of \<^verbatim>\<open>List_Lexorder\<close> over
  \<^verbatim>\<open>Char_ord\<close>.  A Go map with string keys is a finite map.  A \<open>time.Time\<close> is the number of
  nanoseconds since the Unix epoch, with the zero time (year 1) as the value \<open>zeroTime\<close>.  An
  \<open>int\<close> or \<open>int64\<close> is an \<^typ>\<open>int\<close>, with the wrap-around written out (\<open>wrap64\<close>) wherever the
  code can overflow.  A call that may fail returns \<open>go_error + 'a\<close>; \<open>Panic\<close> stands for a run-time
  panic.
\<close>

section \<open>Types\<close>

type_synonym key = string
type_synonym gotime = int
type_synonym duration = int
type_synonym 'v gomap = "(string, 'v) fmap"

datatype go_error =
    Err string
  | Panic string

type_synonym 'a res = "go_error + 'a"

abbreviation WrongType :: go_error where
  "WrongType \<equiv> Err ''wrong type''"

text \<open>Rewrite rules a component exports to the theories above it.\<close>

named_theorems go_simps "equations of the Go run-time model"
named_theorems store_frame "fields an operation leaves alone"
named_theorems inv_intros "operations that keep an invariant"

section \<open>Maps\<close>

abbreviation has :: "('k, 'v) fmap \<Rightarrow> 'k \<Rightarrow> bool" where
  "has m k \<equiv> fmlookup m k \<noteq> None"

definition map_len :: "('k, 'v) fmap \<Rightarrow> nat" where
  "map_len m = fcard (fmdom m)"

text \<open>The keys of a map in ascending order: what \<open>sort.Strings\<close> makes of any iteration order.\<close>

definition sorted_keys :: "('k::linorder, 'v) fmap \<Rightarrow> 'k list" where
  "sorted_keys m = sorted_list_of_fset (fmdom m)"

lemma map_len_empty [simp]: "map_len fmempty = 0"
  by (simp add: map_len_def)

lemma map_len_upd: "map_len (fmupd k v m) = (if has m k then map_len m else Suc (map_len m))"
  by (auto simp: map_len_def fcard_finsert_if fmlookup_dom_iff)

lemma map_len_0 [simp]: "map_len m = 0 \<longleftrightarrow> m = fmempty"
proof
  assume "map_len m = 0"
  then have "fmdom m = {||}" by (simp add: map_len_def)
  then show "m = fmempty" by (intro fmap_ext) (auto dest: fmdom_notD)
qed simp

lemma map_len_drop: "map_len (fmdrop k m) = (if has m k then map_len m - 1 else map_len m)"
proof (cases "has m k")
  case True
  then have "k |\<in>| fmdom m" by (auto simp: fmlookup_dom_iff)
  then show ?thesis using True by (simp add: map_len_def fcard_fminus_fsingleton)
next
  case False
  then show ?thesis by (simp add: fmdrop_idle fmlookup_dom_iff)
qed

lemma set_sorted_keys [simp]: "set (sorted_keys m) = fmdom' m"
  by (simp add: sorted_keys_def fmdom'_alt_def)

lemma sorted_sorted_keys [simp]: "sorted (sorted_keys m)"
  by (simp add: sorted_keys_def sorted_list_of_fset.rep_eq)

lemma distinct_sorted_keys [simp]: "distinct (sorted_keys m)"
  by (simp add: sorted_keys_def sorted_list_of_fset.rep_eq)

lemma length_sorted_keys [simp]: "length (sorted_keys m) = map_len m"
  by (simp add: sorted_keys_def sorted_list_of_fset.rep_eq map_len_def fcard.rep_eq)

lemma has_fmdom': "has m k \<longleftrightarrow> k \<in> fmdom' m"
  by (auto simp: fmlookup_dom'_iff)

lemma fmdrop_absent [simp]: "fmlookup m k = None \<Longrightarrow> fmdrop k m = m"
  by (simp add: fmdrop_idle fmlookup_dom_iff)

lemma fmupd_present: "fmlookup m k = Some v \<Longrightarrow> fmupd k v m = m"
  by (intro fmap_ext) auto

section \<open>Filling a slice\<close>

text \<open>\<open>for i := 0; i < c; i++ { b[i] = f(i) }\<close> overwrites a prefix.\<close>

lemma sorted_keys_small [simp]: "sorted_keys fmempty = []" "sorted_keys (fmupd k v fmempty) = [k]"
  by (simp_all add: sorted_keys_def sorted_list_of_fset.rep_eq)

lemma fmdom'_empty: "fmdom' (m :: 'v gomap) = {} \<longleftrightarrow> m = fmempty"
  using length_sorted_keys [of m] set_sorted_keys [of m] map_len_0 [of m] by (metis length_0_conv set_empty)

lemma fmdrop_upd [simp]: "fmdrop k (fmupd k v (fmdrop k m)) = fmdrop k m"
  by (rule fmap_ext) simp

lemma map_len_pos: "has m k \<Longrightarrow> 0 < map_len m"
  by (metis fmempty_lookup map_len_0 not_gr_zero)

lemma fold_fill:
  "c \<le> length b \<Longrightarrow> fold (\<lambda>i b. b[i := f i]) [0..<c] b = map f [0..<c] @ drop c b"
proof (induction c)
  case (Suc c)
  then have "drop c b = b ! c # drop (Suc c) b" by (simp add: Cons_nth_drop_Suc)
  with Suc show ?case by (simp add: list_update_append)
qed simp

section \<open>Integers\<close>

definition wrap64 :: "int \<Rightarrow> int" where
  "wrap64 x = (x + 2 ^ 63) mod 2 ^ 64 - 2 ^ 63"

definition int64 :: "int \<Rightarrow> bool" where
  "int64 x \<longleftrightarrow> - (2 ^ 63) \<le> x \<and> x < 2 ^ 63"

definition maxInt64 :: int where
  "maxInt64 = 2 ^ 63 - 1"

lemma wrap64_id: "int64 x \<Longrightarrow> wrap64 x = x"
  by (simp add: wrap64_def int64_def)

lemma wrap64_add: "wrap64 (wrap64 a + b) = wrap64 (a + b)"
  by (simp add: wrap64_def mod_simps algebra_simps)

lemma int64_wrap64 [simp]: "int64 (wrap64 x)"
proof -
  have "0 \<le> (x + 2 ^ 63) mod (2 ^ 64)" and "(x + 2 ^ 63) mod (2 ^ 64) < (2 ^ 64 :: int)"
    by simp_all
  then show ?thesis by (simp add: wrap64_def int64_def)
qed

text \<open>Go's integer division truncates towards zero.\<close>

definition go_div :: "int \<Rightarrow> int \<Rightarrow> int" where
  "go_div a b = (if (a < 0) = (b < 0) then \<bar>a\<bar> div \<bar>b\<bar> else - (\<bar>a\<bar> div \<bar>b\<bar>))"

lemma go_div_nonneg [simp]: "0 \<le> a \<Longrightarrow> 0 < b \<Longrightarrow> go_div a b = a div b"
  by (simp add: go_div_def)

section \<open>Clock readings\<close>

definition zeroTime :: gotime where
  "zeroTime = - 62135596800000000000"

definition IsZero :: "gotime \<Rightarrow> bool" where
  "IsZero t \<longleftrightarrow> t = zeroTime"

definition minDuration :: duration where
  "minDuration = - (2 ^ 63)"

definition maxDuration :: duration where
  "maxDuration = 2 ^ 63 - 1"

text \<open>\<open>t.Sub(u)\<close> saturates at the bounds of a 64-bit duration.\<close>

definition time_Sub :: "gotime \<Rightarrow> gotime \<Rightarrow> duration" where
  "time_Sub t u = max minDuration (min maxDuration (t - u))"

definition Milliseconds :: "duration \<Rightarrow> int" where
  "Milliseconds d = go_div d 1000000"

text \<open>\<open>t.Unix()\<close> and \<open>t.UnixMilli()\<close> count whole seconds and milliseconds, rounding down.\<close>

definition Unix :: "gotime \<Rightarrow> int" where
  "Unix t = t div 1000000000"

definition UnixMilli :: "gotime \<Rightarrow> int" where
  "UnixMilli t = t div 1000000"

definition Second :: duration where
  "Second = 1000000000"

section \<open>sort.Search\<close>

text \<open>
  The binary search of Go's \<open>sort\<close> package: the loop over \<open>[i, j)\<close> that keeps \<open>f (i - 1)\<close> false
  and \<open>f j\<close> true.
\<close>

function search_loop :: "(nat \<Rightarrow> bool) \<Rightarrow> nat \<Rightarrow> nat \<Rightarrow> nat" where
  "search_loop f i j =
     (if i < j then
        (let h = (i + j) div 2 in
         if \<not> f h then search_loop f (h + 1) j else search_loop f i h)
      else i)"
  by pat_completeness auto
termination
  by (relation "measure (\<lambda>(f, i, j). j - i)") auto

declare search_loop.simps [simp del]

definition sort_Search :: "nat \<Rightarrow> (nat \<Rightarrow> bool) \<Rightarrow> nat" where
  "sort_Search n f = search_loop f 0 n"

definition up_closed :: "nat \<Rightarrow> (nat \<Rightarrow> bool) \<Rightarrow> bool" where
  "up_closed n f \<longleftrightarrow> (\<forall>a b. a \<le> b \<longrightarrow> b < n \<longrightarrow> f a \<longrightarrow> f b)"

definition splits_at :: "nat \<Rightarrow> (nat \<Rightarrow> bool) \<Rightarrow> nat \<Rightarrow> bool" where
  "splits_at n f r \<longleftrightarrow> r \<le> n \<and> (\<forall>a < r. \<not> f a) \<and> (\<forall>a. r \<le> a \<longrightarrow> a < n \<longrightarrow> f a)"

lemma splits_at_unique: "splits_at n f r \<Longrightarrow> splits_at n f q \<Longrightarrow> r = q"
  unfolding splits_at_def by (meson linorder_neqE_nat order_less_le_trans order_refl)

lemma search_loop_spec:
  assumes "up_closed n f" "i \<le> j" "j \<le> n"
    and "\<forall>a < i. \<not> f a" "\<forall>a. j \<le> a \<longrightarrow> a < n \<longrightarrow> f a"
  shows "splits_at n f (search_loop f i j)"
  using assms
proof (induction f i j rule: search_loop.induct)
  case (1 f i j)
  define h where "h = (i + j) div 2"
  show ?case
  proof (cases "i < j")
    case False
    then have "search_loop f i j = i" by (simp add: search_loop.simps [of f i j])
    with False "1.prems" show ?thesis by (simp add: splits_at_def)
  next
    case True
    then have h: "i \<le> h" "h < j" "h < n" using "1.prems" by (auto simp: h_def)
    show ?thesis
    proof (cases "f h")
      case f: True
      then have "\<forall>a. h \<le> a \<longrightarrow> a < n \<longrightarrow> f a" using "1.prems"(1) by (simp add: up_closed_def)
      with "1.IH"(2) [OF True h_def] f h "1.prems" have "splits_at n f (search_loop f i h)"
        by simp
      then show ?thesis using True f by (simp add: search_loop.simps [of f i j] h_def)
    next
      case f: False
      have "\<forall>a < h + 1. \<not> f a"
      proof (intro allI impI notI)
        fix a assume "a < h + 1" and fa: "f a"
        then have "a \<le> h" by simp
        with fa "1.prems"(1) h(3) have "f h" unfolding up_closed_def by blast
        with f show False by simp
      qed
      with "1.IH"(1) [OF True h_def] f h "1.prems" have "splits_at n f (search_loop f (h + 1) j)"
        by simp
      then show ?thesis using True f by (simp add: search_loop.simps [of f i j] h_def)
    qed
  qed
qed

text \<open>On a monotone predicate the search returns the least index that satisfies it.\<close>

lemma sort_Search_spec: "up_closed n f \<Longrightarrow> splits_at n f (sort_Search n f)"
  unfolding sort_Search_def by (rule search_loop_spec) simp_all

lemma search_loop_cong: "j \<le> n \<Longrightarrow> (\<And>i. i < n \<Longrightarrow> f i = g i) \<Longrightarrow> search_loop f i j = search_loop g i j"
proof (induction f i j rule: search_loop.induct)
  case (1 f i j)
  show ?case
  proof (cases "i < j")
    case True
    then have "f ((i + j) div 2) = g ((i + j) div 2)" using 1(3,4) by simp
    then show ?thesis
      using True 1 by (simp add: search_loop.simps [of f i j] search_loop.simps [of g i j] Let_def)
  qed (simp add: search_loop.simps [of f i j] search_loop.simps [of g i j])
qed

lemma sort_Search_cong: "(\<And>i. i < n \<Longrightarrow> f i = g i) \<Longrightarrow> sort_Search n f = sort_Search n g"
  unfolding sort_Search_def by (rule search_loop_cong [OF order_refl])

text \<open>Hence on a list split by the predicate it returns the length of the first part.\<close>

lemma sort_Search_split:
  assumes "xs = ys @ zs" "\<forall>y \<in> set ys. \<not> P y" "\<forall>z \<in> set zs. P z"
  shows "sort_Search (length xs) (\<lambda>i. P (xs ! i)) = length ys"
proof -
  let ?f = "\<lambda>i. P (xs ! i)"
  have at: "splits_at (length xs) ?f (length ys)"
    using assms by (simp add: splits_at_def nth_append)
  then have "up_closed (length xs) ?f"
    unfolding splits_at_def up_closed_def by (meson leI order_trans)
  from splits_at_unique [OF sort_Search_spec [OF this] at] show ?thesis .
qed


text \<open>Every strictly ascending list splits at a key into the entries below it and the rest.\<close>

lemma sorted_split:
  fixes f :: "'a \<Rightarrow> 'b::linorder"
  assumes "sorted_wrt (<) (map f xs)"
  shows "\<exists>ys zs. xs = ys @ zs \<and> (\<forall>y \<in> set ys. f y < k) \<and> (\<forall>z \<in> set zs. k \<le> f z)"
  using assms
proof (induction xs)
  case (Cons x xs)
  show ?case
  proof (cases "f x < k")
    case True
    with Cons obtain ys zs where "xs = ys @ zs" "\<forall>y \<in> set ys. f y < k" "\<forall>z \<in> set zs. k \<le> f z"
      by auto
    with True have "x # xs = (x # ys) @ zs \<and> (\<forall>y \<in> set (x # ys). f y < k) \<and> (\<forall>z \<in> set zs. k \<le> f z)"
      by simp
    then show ?thesis by blast
  next
    case False
    with Cons.prems have "x # xs = [] @ (x # xs) \<and> (\<forall>y \<in> set []. f y < k) \<and> (\<forall>z \<in> set (x # xs). k \<le> f z)"
      by auto
    then show ?thesis by blast
  qed
qed simp


section \<open>Cutting sorted slices\<close>

text \<open>Loops that stop early, skip a prefix or keep a bounded number of entries.\<close>

definition limit :: "int \<Rightarrow> int \<Rightarrow> 'a list \<Rightarrow> 'a list" where
  "limit off cnt xs = (if 0 < cnt then take (nat cnt) (drop (nat off) xs) else drop (nat off) xs)"

lemma limit_all [simp]: "off \<le> 0 \<Longrightarrow> cnt \<le> 0 \<Longrightarrow> limit off cnt xs = xs"
  by (simp add: limit_def)

text \<open>On a slice sorted by \<open>f\<close>, cutting at a bound is filtering by the bound.\<close>

lemma takeWhile_sorted_filter:
  fixes f :: "'a \<Rightarrow> 'b::linorder"
  shows "sorted (map f xs) \<Longrightarrow> takeWhile (\<lambda>x. f x \<le> h) xs = filter (\<lambda>x. f x \<le> h) xs"
proof (induction xs)
  case (Cons a xs)
  show ?case
  proof (cases "f a \<le> h")
    case False
    have "\<not> f x \<le> h" if "x \<in> set xs" for x
    proof -
      have "f a \<le> f x" using Cons.prems that by simp
      with False show ?thesis by (metis order_trans)
    qed
    with False show ?thesis by (simp add: filter_empty_conv)
  qed (use Cons in simp)
qed simp

lemma drop_search_sorted_filter:
  fixes f :: "'a \<Rightarrow> 'b::linorder"
  shows "sorted (map f xs) \<Longrightarrow>
    drop (sort_Search (length xs) (\<lambda>i. l \<le> f (xs ! i))) xs = filter (\<lambda>x. l \<le> f x) xs"
proof -
  assume s: "sorted (map f xs)"
  define ys zs where "ys = takeWhile (\<lambda>x. f x < l) xs" and "zs = dropWhile (\<lambda>x. f x < l) xs"
  have split: "xs = ys @ zs" by (simp add: ys_def zs_def)
  have lo: "\<forall>y \<in> set ys. \<not> l \<le> f y" by (auto simp: ys_def dest: set_takeWhileD)
  have hi: "\<forall>z \<in> set zs. l \<le> f z"
  proof (cases zs)
    case (Cons z ws)
    then have "\<not> f z < l" by (metis hd_dropWhile list.distinct(1) list.sel(1) zs_def)
    moreover have "sorted (map f zs)" using s split by (simp add: sorted_append)
    ultimately show ?thesis using Cons by auto
  qed simp
  have "sort_Search (length xs) (\<lambda>i. l \<le> f (xs ! i)) = length ys"
    by (rule sort_Search_split [OF split lo hi])
  moreover have "filter (\<lambda>x. l \<le> f x) ys = []" "filter (\<lambda>x. l \<le> f x) zs = zs"
    using lo hi by (simp_all add: filter_empty_conv)
  ultimately show ?thesis using split by simp
qed


lemma set_drop_distinct: "distinct xs \<Longrightarrow> set (drop n xs) = set xs - set (take n xs)"
  and set_take_distinct: "distinct xs \<Longrightarrow> set (take n xs) = set xs - set (drop n xs)"
proof -
  assume "distinct xs"
  then have "set (take n xs) \<inter> set (drop n xs) = {}" by (simp add: set_take_disj_set_drop_if_distinct)
  moreover have "set xs = set (take n xs) \<union> set (drop n xs)" by (metis append_take_drop_id set_append)
  ultimately show "set (drop n xs) = set xs - set (take n xs)" "set (take n xs) = set xs - set (drop n xs)"
    by auto
qed


section \<open>Runs of operations and their refinement\<close>

text \<open>
  A component with state \<open>'s\<close> answers each operation with an output and a new state.  A component
  refines another one when, from related states, every operation gives the same output and related
  states; then every sequence of operations gives the same outputs.
\<close>

fun run_ops :: "('op \<Rightarrow> 's \<Rightarrow> 'o \<times> 's) \<Rightarrow> 'op list \<Rightarrow> 's \<Rightarrow> 'o list \<times> 's" where
  "run_ops step [] s = ([], s)"
| "run_ops step (opn # opns) s =
     (case step opn s of (out, s) \<Rightarrow> (case run_ops step opns s of (outs, s) \<Rightarrow> (out # outs, s)))"

lemma run_ops_append:
  "run_ops step (xs @ ys) s =
     (case run_ops step xs s of (os, s) \<Rightarrow> (case run_ops step ys s of (ps, s) \<Rightarrow> (os @ ps, s)))"
  by (induction xs arbitrary: s) (simp_all split: prod.splits)

locale guarded_simulation =
  fixes step :: "'op \<Rightarrow> 's \<Rightarrow> 'o \<times> 's"
    and spec :: "'op \<Rightarrow> 't \<Rightarrow> 'o \<times> 't"
    and related :: "'s \<Rightarrow> 't \<Rightarrow> bool"
    and allowed :: "'op \<Rightarrow> bool"
  assumes guarded_out: "related s t \<Longrightarrow> allowed opn \<Longrightarrow> fst (step opn s) = fst (spec opn t)"
    and guarded_rel: "related s t \<Longrightarrow> allowed opn \<Longrightarrow> related (snd (step opn s)) (snd (spec opn t))"
begin

lemma guarded_run:
  "related s t \<Longrightarrow> \<forall>opn \<in> set opns. allowed opn \<Longrightarrow> fst (run_ops step opns s) = fst (run_ops spec opns t)"
  and guarded_run_rel:
  "related s t \<Longrightarrow> \<forall>opn \<in> set opns. allowed opn \<Longrightarrow> related (snd (run_ops step opns s)) (snd (run_ops spec opns t))"
proof (induction opns arbitrary: s t)
  case (Cons opn opns)
  { case 1
    then show ?case using Cons.IH(1) [OF guarded_rel [of s t opn]] guarded_out [of s t opn] by (auto split: prod.splits)
  next
    case 2
    then show ?case using Cons.IH(2) [OF guarded_rel [of s t opn]] by (auto split: prod.splits) }
qed simp_all

end

text \<open>The case in which every operation is allowed.\<close>

locale simulation =
  fixes step :: "'op \<Rightarrow> 's \<Rightarrow> 'o \<times> 's"
    and spec :: "'op \<Rightarrow> 't \<Rightarrow> 'o \<times> 't"
    and related :: "'s \<Rightarrow> 't \<Rightarrow> bool"
  assumes sim_out: "related s t \<Longrightarrow> fst (step opn s) = fst (spec opn t)"
    and sim_rel: "related s t \<Longrightarrow> related (snd (step opn s)) (snd (spec opn t))"

sublocale simulation \<subseteq> all: guarded_simulation step spec related "\<lambda>_. True"
  by unfold_locales (simp_all add: sim_out sim_rel)

context simulation
begin

lemma sim_run: "related s t \<Longrightarrow> fst (run_ops step opns s) = fst (run_ops spec opns t)"
  and sim_run_rel: "related s t \<Longrightarrow> related (snd (run_ops step opns s)) (snd (run_ops spec opns t))"
  by (simp_all add: all.guarded_run all.guarded_run_rel)

end

end
