(* ===== verification/Vole_Float.thy ===== *)
theory Vole_Float
  imports Vole_Prelude
begin

text \<open>
  Go's \<open>float64\<close>: NaN, the infinities and the finite values as exact rationals, with addition
  rounded to the nearest binary64 value (ties to even).  Comparisons with NaN are false and \<open>!=\<close>
  with NaN is true, as in Go.  The two zeros are one value here: every comparison of the source
  identifies them.
\<close>

datatype float64 = NaN | NInf | Fin rat | PInf

section \<open>A linear order for the library\<close>

text \<open>
  The instance puts NaN below everything, so that sorting lemmas apply; on numbers it is Go's order
  (lemmas \<open>f64_lt_less\<close> and \<open>f64_le_less_eq\<close>).
\<close>

instantiation float64 :: linorder
begin

fun less_eq_float64 :: "float64 \<Rightarrow> float64 \<Rightarrow> bool" where
  "less_eq_float64 NaN y = True"
| "less_eq_float64 NInf y = (y \<noteq> NaN)"
| "less_eq_float64 (Fin a) NaN = False"
| "less_eq_float64 (Fin a) NInf = False"
| "less_eq_float64 (Fin a) (Fin b) = (a \<le> b)"
| "less_eq_float64 (Fin a) PInf = True"
| "less_eq_float64 PInf y = (y = PInf)"

definition less_float64 :: "float64 \<Rightarrow> float64 \<Rightarrow> bool" where
  "less_float64 x y \<longleftrightarrow> x \<le> y \<and> \<not> y \<le> x"

instance
proof
  fix x y z :: float64
  show "x \<le> x" by (cases x) simp_all
  show "x < y \<longleftrightarrow> x \<le> y \<and> \<not> y \<le> x" by (rule less_float64_def)
  show "x \<le> y \<Longrightarrow> y \<le> z \<Longrightarrow> x \<le> z" by (cases x; cases y; cases z) simp_all
  show "x \<le> y \<Longrightarrow> y \<le> x \<Longrightarrow> x = y" by (cases x; cases y) simp_all
  show "x \<le> y \<or> y \<le> x" by (cases x; cases y) auto
qed

end

section \<open>Comparison\<close>

definition f64_eq :: "float64 \<Rightarrow> float64 \<Rightarrow> bool" where
  "f64_eq x y \<longleftrightarrow> x \<noteq> NaN \<and> x = y"

definition f64_lt :: "float64 \<Rightarrow> float64 \<Rightarrow> bool" where
  "f64_lt x y \<longleftrightarrow> x \<noteq> NaN \<and> y \<noteq> NaN \<and> x < y"

definition f64_le :: "float64 \<Rightarrow> float64 \<Rightarrow> bool" where
  "f64_le x y \<longleftrightarrow> x \<noteq> NaN \<and> y \<noteq> NaN \<and> x \<le> y"

lemma f64_eq_iff: "x \<noteq> NaN \<Longrightarrow> f64_eq x y \<longleftrightarrow> x = y"
  and f64_lt_less: "x \<noteq> NaN \<Longrightarrow> y \<noteq> NaN \<Longrightarrow> f64_lt x y \<longleftrightarrow> x < y"
  and f64_le_less_eq: "x \<noteq> NaN \<Longrightarrow> y \<noteq> NaN \<Longrightarrow> f64_le x y \<longleftrightarrow> x \<le> y"
  by (simp_all add: f64_eq_def f64_lt_def f64_le_def)

lemma f64_Fin [simp]:
  "f64_eq (Fin a) (Fin b) \<longleftrightarrow> a = b" "f64_lt (Fin a) (Fin b) \<longleftrightarrow> a < b" "f64_le (Fin a) (Fin b) \<longleftrightarrow> a \<le> b"
  by (auto simp: f64_eq_def f64_lt_def f64_le_def less_float64_def)

section \<open>Rounded addition\<close>

fun ilog2 :: "nat \<Rightarrow> nat" where
  "ilog2 n = (if n < 2 then 0 else Suc (ilog2 (n div 2)))"

declare ilog2.simps [simp del]

definition pow2 :: "int \<Rightarrow> rat" where
  "pow2 e = (if 0 \<le> e then 2 ^ nat e else 1 / 2 ^ nat (- e))"

text \<open>The exponent \<open>e\<close> with \<open>2\<^sup>e \<le> r < 2\<^sup>e\<^sup>+\<^sup>1\<close> of a positive rational.\<close>

definition rat_exp :: "rat \<Rightarrow> int" where
  "rat_exp r =
     (let (p, q) = quotient_of r;
          e = int (ilog2 (nat p)) - int (ilog2 (nat q))
      in if pow2 e \<le> r then e else e - 1)"

definition round_half_even :: "rat \<Rightarrow> int" where
  "round_half_even t =
     (let f = \<lfloor>t\<rfloor>; d = t - of_int f
      in if d < 1 / 2 then f else if 1 / 2 < d then f + 1 else if even f then f else f + 1)"

definition round64 :: "rat \<Rightarrow> float64" where
  "round64 r =
     (if r = 0 then Fin 0
      else
        let u = pow2 (max (rat_exp \<bar>r\<bar> - 52) (- 1074));
            v = of_int (round_half_even (\<bar>r\<bar> / u)) * u
        in if pow2 1024 \<le> v then (if r < 0 then NInf else PInf)
           else Fin (if r < 0 then - v else v))"

fun f64_add :: "float64 \<Rightarrow> float64 \<Rightarrow> float64" where
  "f64_add NaN y = NaN"
| "f64_add x NaN = NaN"
| "f64_add PInf NInf = NaN"
| "f64_add NInf PInf = NaN"
| "f64_add PInf y = PInf"
| "f64_add NInf y = NInf"
| "f64_add (Fin a) PInf = PInf"
| "f64_add (Fin a) NInf = NInf"
| "f64_add (Fin a) (Fin b) = round64 (a + b)"

text \<open>Division by the number of elements of a non-empty slice.\<close>

fun f64_div_nat :: "float64 \<Rightarrow> nat \<Rightarrow> float64" where
  "f64_div_nat NaN n = NaN"
| "f64_div_nat NInf n = NInf"
| "f64_div_nat PInf n = PInf"
| "f64_div_nat (Fin a) n = (case round64 (of_nat n) of Fin d \<Rightarrow> round64 (a / d) | _ \<Rightarrow> Fin 0)"

section \<open>Integers up to \<open>2\<^sup>5\<^sup>3\<close> add exactly\<close>

lemma pow2_pos [simp]: "0 < pow2 e"
  by (simp add: pow2_def)

lemma ilog2_le: "0 < n \<Longrightarrow> 2 ^ ilog2 n \<le> n"
proof (induction n rule: ilog2.induct)
  case (1 n)
  show ?case
  proof (cases "n < 2")
    case True
    with 1 show ?thesis by (simp add: ilog2.simps [of n])
  next
    case False
    then have "2 ^ ilog2 (n div 2) \<le> n div 2" using 1 by simp
    with False show ?thesis by (simp add: ilog2.simps [of n])
  qed
qed

lemma round_half_even_int [simp]: "round_half_even (of_int k) = k"
  by (simp add: round_half_even_def)

lemma rat_exp_int:
  assumes "0 < k"
  shows "pow2 (rat_exp (of_int k)) \<le> of_int k" and "0 \<le> rat_exp (of_int k)"
proof -
  have "(2::rat) ^ ilog2 (nat k) \<le> of_int k"
  proof -
    have "2 ^ ilog2 (nat k) \<le> nat k" by (rule ilog2_le) (use assms in simp)
    then have "int (2 ^ ilog2 (nat k)) \<le> int (nat k)" by (rule of_nat_mono)
    then have "(2::int) ^ ilog2 (nat k) \<le> k" using assms by simp
    then have "(of_int (2 ^ ilog2 (nat k)) :: rat) \<le> of_int k" by (rule of_int_le_iff [THEN iffD2])
    then show ?thesis by simp
  qed
  moreover have "ilog2 (Suc 0) = 0" by (subst ilog2.simps) simp
  ultimately show "pow2 (rat_exp (of_int k)) \<le> of_int k" "0 \<le> rat_exp (of_int k)"
    by (simp_all add: rat_exp_def pow2_def)
qed

lemma rat_exp_small:
  assumes "0 < k" "k < 2 ^ 53"
  shows "rat_exp (of_int k) \<le> 52"
proof (rule ccontr)
  assume "\<not> ?thesis"
  then have e: "53 \<le> nat (rat_exp (of_int k))" by simp
  have "(2::rat) ^ 53 \<le> 2 ^ nat (rat_exp (of_int k))" using e by (rule power_increasing) simp
  also have "\<dots> \<le> of_int k" using rat_exp_int [OF assms(1)] by (simp add: pow2_def)
  finally have "of_int (2 ^ 53) \<le> (of_int k :: rat)" by simp
  then have "2 ^ 53 \<le> k" by (simp only: of_int_le_iff)
  with assms(2) show False by simp
qed

lemma round64_int:
  assumes "\<bar>k\<bar> < 2 ^ 53"
  shows "round64 (of_int k) = Fin (of_int k)"
proof (cases "k = 0")
  case True
  then show ?thesis by (simp add: round64_def)
next
  case False
  define a where "a = \<bar>k\<bar>"
  define e where "e = rat_exp (of_int a)"
  have a: "0 < a" "a < 2 ^ 53" using False assms by (auto simp: a_def)
  have e: "0 \<le> e" "e \<le> 52" using rat_exp_int [OF a(1)] rat_exp_small [OF a] by (simp_all add: e_def)
  then have u: "pow2 (max (e - 52) (- 1074)) = 1 / 2 ^ nat (52 - e)"
    by (cases "e = 52") (simp_all add: pow2_def)
  have quot: "(of_int a :: rat) / (1 / 2 ^ nat (52 - e)) = of_int (a * 2 ^ nat (52 - e))"
    by simp
  have v: "of_int (round_half_even (of_int a / pow2 (max (e - 52) (- 1074)))) *
      pow2 (max (e - 52) (- 1074)) = (of_int a :: rat)"
    unfolding u quot round_half_even_int by simp
  have "(of_int a :: rat) < of_int (2 ^ 53)" using a(2) by (simp only: of_int_less_iff)
  moreover have "(of_int (2 ^ 53) :: rat) \<le> pow2 1024" by (simp add: pow2_def)
  ultimately have small: "\<not> pow2 1024 \<le> (of_int a :: rat)" by linarith
  have ab: "\<bar>of_int k\<bar> = (of_int a :: rat)" by (simp add: a_def)
  show ?thesis
    using False small unfolding round64_def Let_def ab e_def [symmetric] v by (auto simp: a_def)
qed

lemma f64_add_int:
  "\<bar>a + b\<bar> < 2 ^ 53 \<Longrightarrow> f64_add (Fin (of_int a)) (Fin (of_int b)) = Fin (of_int (a + b))"
  using round64_int [of "a + b"] by simp

end
