(* ===== verification/Vole_Deque.thy ===== *)
theory Vole_Deque
  imports Vole_Prelude
begin

text \<open>
  The ring buffer of \<^verbatim>\<open>internal/store/deque.go\<close> that holds the lists of the store.  The state is
  the Go struct (buffer, index of the first element, number of elements); every operation is
  translated index by index, growth and the two shifting loops of \<open>Insert\<close> included.  The locale
  \<open>deque_spec\<close> is the contract the store relies on: the buffer behaves as the list that \<open>ToSlice\<close>
  returns.
\<close>

section \<open>State and operations\<close>

record deque =
  dbuf :: "string list"
  dhead :: nat
  dcount :: nat

definition dequeMinCap :: nat where
  "dequeMinCap = 8"

definition Deque_empty :: deque where
  "Deque_empty = \<lparr>dbuf = [], dhead = 0, dcount = 0\<rparr>"

definition Deque_Len :: "deque \<Rightarrow> nat" where
  "Deque_Len d = dcount d"

text \<open>\<open>at\<close>: the element at a logical index; the caller keeps the index below the count.\<close>

definition Deque_at :: "deque \<Rightarrow> nat \<Rightarrow> string" where
  "Deque_at d i = dbuf d ! ((dhead d + i) mod length (dbuf d))"

definition Deque_grow :: "deque \<Rightarrow> deque" where
  "Deque_grow d =
     (let newCap = (if length (dbuf d) * 2 < dequeMinCap then dequeMinCap else length (dbuf d) * 2);
          newBuf = fold (\<lambda>i b. b[i := dbuf d ! ((dhead d + i) mod length (dbuf d))])
                     [0..<dcount d] (replicate newCap [])
      in d\<lparr>dbuf := newBuf, dhead := 0\<rparr>)"

text \<open>\<open>if d.count == len(d.buf) { d.grow() }\<close>, the guard in front of every insertion.\<close>

definition make_room :: "deque \<Rightarrow> deque" where
  "make_room d = (if dcount d = length (dbuf d) then Deque_grow d else d)"

text \<open>One turn of the \<open>PushFront\<close> loop: make room, step the head back modulo the size, store.\<close>

definition push_front1 :: "string \<Rightarrow> deque \<Rightarrow> deque" where
  "push_front1 v d =
     (let d = make_room d;
          h = (dhead d + length (dbuf d) - 1) mod length (dbuf d)
      in d\<lparr>dbuf := (dbuf d)[h := v], dhead := h, dcount := dcount d + 1\<rparr>)"

definition Deque_PushFront :: "string list \<Rightarrow> deque \<Rightarrow> deque" where
  "Deque_PushFront vals d = fold push_front1 vals d"

definition push_back1 :: "string \<Rightarrow> deque \<Rightarrow> deque" where
  "push_back1 v d =
     (let d = make_room d
      in d\<lparr>dbuf := (dbuf d)[(dhead d + dcount d) mod length (dbuf d) := v],
           dcount := dcount d + 1\<rparr>)"

definition Deque_PushBack :: "string list \<Rightarrow> deque \<Rightarrow> deque" where
  "Deque_PushBack vals d = fold push_back1 vals d"

definition Deque_PopFront :: "deque \<Rightarrow> string option \<times> deque" where
  "Deque_PopFront d =
     (if dcount d = 0 then (None, d)
      else (Some (dbuf d ! dhead d),
            d\<lparr>dbuf := (dbuf d)[dhead d := []],
              dhead := (dhead d + 1) mod length (dbuf d),
              dcount := dcount d - 1\<rparr>))"

definition Deque_PopBack :: "deque \<Rightarrow> string option \<times> deque" where
  "Deque_PopBack d =
     (if dcount d = 0 then (None, d)
      else let idx = (dhead d + dcount d - 1) mod length (dbuf d)
           in (Some (dbuf d ! idx), d\<lparr>dbuf := (dbuf d)[idx := []], dcount := dcount d - 1\<rparr>))"

text \<open>
  \<^verbatim>\<open>normalizeRange\<close> of store.go: negative indices count from the end; \<open>None\<close> is the \<open>false\<close>
  result.
\<close>

definition normalizeRange :: "int \<Rightarrow> int \<Rightarrow> int \<Rightarrow> (int \<times> int) option" where
  "normalizeRange start stop len =
     (let start = (if start < 0 then len + start else start);
          stop = (if stop < 0 then len + stop else stop);
          start = (if start < 0 then 0 else start);
          stop = (if len \<le> stop then len - 1 else stop)
      in if stop < start \<or> len \<le> start \<or> stop < 0 then None else Some (start, stop))"

definition Deque_Range :: "int \<Rightarrow> int \<Rightarrow> deque \<Rightarrow> string list" where
  "Deque_Range start stop d =
     (case normalizeRange start stop (int (dcount d)) of
        None \<Rightarrow> []
      | Some (a, b) \<Rightarrow> map (Deque_at d) [nat a..<nat b + 1])"

definition Deque_Get :: "deque \<Rightarrow> nat \<Rightarrow> string" where
  "Deque_Get d i = dbuf d ! ((dhead d + i) mod length (dbuf d))"

definition Deque_Set :: "nat \<Rightarrow> string \<Rightarrow> deque \<Rightarrow> deque" where
  "Deque_Set i v d = d\<lparr>dbuf := (dbuf d)[(dhead d + i) mod length (dbuf d) := v]\<rparr>"

text \<open>The two shifting loops of \<open>Insert\<close>: \<open>for j := 0; j < i; j++\<close> and \<open>for j := count; j > i; j--\<close>.\<close>

definition shift_left :: "nat \<Rightarrow> nat \<Rightarrow> string list \<Rightarrow> string list" where
  "shift_left h i b =
     fold (\<lambda>j b. b[(h + j) mod length b := b ! ((h + 1 + j) mod length b)]) [0..<i] b"

definition shift_right :: "nat \<Rightarrow> nat \<Rightarrow> nat \<Rightarrow> string list \<Rightarrow> string list" where
  "shift_right h c i b =
     fold (\<lambda>j b. b[(h + j) mod length b := b ! ((h + j - 1) mod length b)]) (rev [i + 1..<c + 1]) b"

definition Deque_Insert :: "nat \<Rightarrow> string \<Rightarrow> deque \<Rightarrow> deque" where
  "Deque_Insert i v d =
     (let d = make_room d;
          n = length (dbuf d);
          d = (if i \<le> dcount d div 2
               then let h = (dhead d + n - 1) mod n
                    in d\<lparr>dhead := h, dbuf := shift_left h i (dbuf d)\<rparr>
               else d\<lparr>dbuf := shift_right (dhead d) (dcount d) i (dbuf d)\<rparr>)
      in d\<lparr>dbuf := (dbuf d)[(dhead d + i) mod n := v], dcount := dcount d + 1\<rparr>)"

definition Deque_ToSlice :: "deque \<Rightarrow> string list" where
  "Deque_ToSlice d = map (Deque_at d) [0..<dcount d]"

section \<open>Invariant\<close>

definition deque_wf :: "deque \<Rightarrow> bool" where
  "deque_wf d \<longleftrightarrow> dcount d \<le> length (dbuf d) \<and>
     (if dbuf d = [] then dhead d = 0 else dhead d < length (dbuf d))"

lemma length_ToSlice [simp]: "length (Deque_ToSlice d) = dcount d"
  by (simp add: Deque_ToSlice_def)

lemma nth_ToSlice: "i < dcount d \<Longrightarrow> Deque_ToSlice d ! i = dbuf d ! ((dhead d + i) mod length (dbuf d))"
  by (simp add: Deque_ToSlice_def Deque_at_def)

lemma ToSlice_eqI:
  assumes "dcount d = length xs"
    and "\<And>i. i < length xs \<Longrightarrow> dbuf d ! ((dhead d + i) mod length (dbuf d)) = xs ! i"
  shows "Deque_ToSlice d = xs"
  using assms by (intro nth_equalityI) (auto simp: nth_ToSlice)

text \<open>Distinct logical indices below the buffer size are distinct buffer slots.\<close>

lemma ring_inj: "i < n \<Longrightarrow> j < n \<Longrightarrow> (h + i) mod n = (h + j) mod n \<longleftrightarrow> i = (j::nat)"
proof
  assume ij: "i < n" "j < n" and eq: "(h + i) mod n = (h + j) mod n"
  have "(int h + int i) mod int n = (int h + int j) mod int n"
    using eq by (metis of_nat_add of_nat_mod)
  then have "int n dvd (int h + int i) - (int h + int j)" by (simp add: mod_eq_dvd_iff)
  then have "int n dvd int i - int j" by simp
  then show "i = j" using ij by (metis mod_eq_dvd_iff mod_less of_nat_eq_iff of_nat_mod)
qed simp

lemma ring_slot: "0 < n \<Longrightarrow> (h + i) mod n < (n::nat)"
  by simp


text \<open>Making room keeps the content and leaves a free slot.\<close>

lemma grow_buf:
  assumes "dcount d \<le> length (dbuf d)"
  shows "take (dcount d) (dbuf (Deque_grow d)) = Deque_ToSlice d"
    and "length (dbuf (Deque_grow d)) = max dequeMinCap (length (dbuf d) * 2)"
  using assms by (auto simp: Deque_grow_def Let_def fold_fill Deque_ToSlice_def Deque_at_def dequeMinCap_def)

lemma make_room:
  assumes "deque_wf d"
  shows "deque_wf (make_room d)" and "Deque_ToSlice (make_room d) = Deque_ToSlice d"
    and "dcount (make_room d) = dcount d" and "dcount d < length (dbuf (make_room d))"
proof -
  have c: "dcount (Deque_grow d) = dcount d" "dhead (Deque_grow d) = 0"
    by (simp_all add: Deque_grow_def Let_def)
  have le: "dcount d \<le> length (dbuf d)" using assms by (simp add: deque_wf_def)
  note g = grow_buf [OF le]
  have sl: "Deque_ToSlice (Deque_grow d) = Deque_ToSlice d"
  proof (rule ToSlice_eqI)
    fix i assume i: "i < length (Deque_ToSlice d)"
    then have "dbuf (Deque_grow d) ! i = Deque_ToSlice d ! i"
      using g(1) by (metis length_ToSlice nth_take)
    then show "dbuf (Deque_grow d) ! ((dhead (Deque_grow d) + i) mod length (dbuf (Deque_grow d))) =
        Deque_ToSlice d ! i"
      using i le g(2) c by simp
  qed (simp add: c)
  show "deque_wf (make_room d)" "Deque_ToSlice (make_room d) = Deque_ToSlice d"
    "dcount (make_room d) = dcount d" "dcount d < length (dbuf (make_room d))"
    using assms sl c g(2) by (auto simp: make_room_def deque_wf_def dequeMinCap_def)
qed

section \<open>Pushing and popping\<close>

text \<open>Writing one slot of the ring changes one logical index.\<close>

lemma nth_ring_update:
  "i < n \<Longrightarrow> j < n \<Longrightarrow> length b = n \<Longrightarrow>
   b[(h + i) mod n := v] ! ((h + j) mod n) = (if i = j then v else b ! ((h + j) mod n))"
proof -
  assume a: "i < n" "j < n" "length b = n"
  then have "(h + i) mod n < length b" by simp
  then show ?thesis using ring_inj [OF a(1,2), of h] by (simp only: nth_list_update split: if_split)
qed

text \<open>Stepping the head back shifts every logical index by one.\<close>

lemma ring_back: "0 < n \<Longrightarrow> (((h + n - 1) mod n) + Suc i) mod n = (h + i) mod (n::nat)"
proof -
  assume "0 < n"
  have "(((h + n - 1) mod n) + Suc i) mod n = ((h + n - 1) + Suc i) mod n"
    by (rule mod_add_left_eq)
  also have "(h + n - 1) + Suc i = (h + i) + n" using \<open>0 < n\<close> by linarith
  finally show ?thesis by simp
qed

lemma push_front1:
  assumes "deque_wf d"
  shows "deque_wf (push_front1 v d)" and "Deque_ToSlice (push_front1 v d) = v # Deque_ToSlice d"
proof -
  define e where "e = make_room d"
  define n where "n = length (dbuf e)"
  define h where "h = (dhead e + n - 1) mod n"
  have e: "deque_wf e" "Deque_ToSlice e = Deque_ToSlice d" "dcount e = dcount d" "dcount d < n"
    using make_room [OF assms] by (simp_all add: e_def n_def)
  have p: "push_front1 v d = e\<lparr>dbuf := (dbuf e)[h := v], dhead := h, dcount := dcount e + 1\<rparr>"
    by (simp add: push_front1_def Let_def e_def h_def n_def)
  have n: "0 < n" "h < n" using e(4) by (auto simp: h_def)
  show "deque_wf (push_front1 v d)"
    using e n by (auto simp: p deque_wf_def n_def)
  show "Deque_ToSlice (push_front1 v d) = v # Deque_ToSlice d"
  proof (rule ToSlice_eqI)
    fix i assume "i < length (v # Deque_ToSlice d)"
    then have i: "i < n" using e(4) by simp
    have "(dbuf e)[(h + 0) mod n := v] ! ((h + i) mod n) = (if 0 = i then v else dbuf e ! ((h + i) mod n))"
      by (rule nth_ring_update [OF n(1) i n_def [symmetric]])
    then have "(dbuf e)[h := v] ! ((h + i) mod n) = (if i = 0 then v else dbuf e ! ((h + i) mod n))"
      using n by simp
    moreover have "dbuf e ! ((h + i) mod n) = Deque_ToSlice d ! (i - 1)" if "i \<noteq> 0"
    proof -
      obtain k where k: "i = Suc k" using \<open>i \<noteq> 0\<close> by (cases i) simp_all
      with \<open>i < length (v # Deque_ToSlice d)\<close> have "k < dcount e" using e by simp
      then have "Deque_ToSlice d ! k = dbuf e ! ((dhead e + k) mod n)"
        using nth_ToSlice [of k e] e(2) by (simp add: n_def)
      moreover have "(h + Suc k) mod n = (dhead e + k) mod n"
        unfolding h_def by (rule ring_back [OF n(1)])
      ultimately show ?thesis by (simp only: k diff_Suc_1)
    qed
    ultimately show "dbuf (push_front1 v d) !
        ((dhead (push_front1 v d) + i) mod length (dbuf (push_front1 v d))) = (v # Deque_ToSlice d) ! i"
      by (simp add: p n_def [symmetric] nth_Cons')
  qed (simp add: p e)
qed

lemma push_back1:
  assumes "deque_wf d"
  shows "deque_wf (push_back1 v d)" and "Deque_ToSlice (push_back1 v d) = Deque_ToSlice d @ [v]"
proof -
  define e where "e = make_room d"
  define n where "n = length (dbuf e)"
  have e: "deque_wf e" "Deque_ToSlice e = Deque_ToSlice d" "dcount e = dcount d" "dcount d < n"
    using make_room [OF assms] by (simp_all add: e_def n_def)
  have p: "push_back1 v d = e\<lparr>dbuf := (dbuf e)[(dhead e + dcount e) mod n := v], dcount := dcount e + 1\<rparr>"
    by (simp add: push_back1_def Let_def e_def n_def)
  show "deque_wf (push_back1 v d)"
    using e by (auto simp: p deque_wf_def n_def)
  show "Deque_ToSlice (push_back1 v d) = Deque_ToSlice d @ [v]"
  proof (rule ToSlice_eqI)
    fix i assume "i < length (Deque_ToSlice d @ [v])"
    then have i: "i < n" "i \<le> dcount e" using e by auto
    have c: "dcount e < n" using e by simp
    have "(dbuf e)[(dhead e + dcount e) mod n := v] ! ((dhead e + i) mod n) =
        (if dcount e = i then v else dbuf e ! ((dhead e + i) mod n))"
      by (rule nth_ring_update [OF c i(1) n_def [symmetric]])
    moreover have "dbuf e ! ((dhead e + i) mod n) = Deque_ToSlice d ! i" if "i < dcount e"
      using nth_ToSlice [OF that] e(2) by (simp add: n_def)
    ultimately show "dbuf (push_back1 v d) !
        ((dhead (push_back1 v d) + i) mod length (dbuf (push_back1 v d))) = (Deque_ToSlice d @ [v]) ! i"
      using i e by (simp add: p n_def [symmetric] nth_append)
  qed (simp add: p e)
qed

lemma Deque_PushFront:
  "deque_wf d \<Longrightarrow> deque_wf (Deque_PushFront vs d) \<and> Deque_ToSlice (Deque_PushFront vs d) = rev vs @ Deque_ToSlice d"
  unfolding Deque_PushFront_def by (induction vs arbitrary: d) (simp_all add: push_front1)

lemma Deque_PushBack:
  "deque_wf d \<Longrightarrow> deque_wf (Deque_PushBack vs d) \<and> Deque_ToSlice (Deque_PushBack vs d) = Deque_ToSlice d @ vs"
  unfolding Deque_PushBack_def by (induction vs arbitrary: d) (simp_all add: push_back1)


lemma Deque_PopFront_empty: "dcount d = 0 \<Longrightarrow> Deque_PopFront d = (None, d)"
  by (simp add: Deque_PopFront_def)

lemma Deque_PopFront:
  assumes wf: "deque_wf d" and ne: "dcount d \<noteq> 0"
  shows "\<exists>d'. Deque_PopFront d = (Some (hd (Deque_ToSlice d)), d') \<and> deque_wf d' \<and>
    Deque_ToSlice d' = tl (Deque_ToSlice d)"
proof -
  define n where "n = length (dbuf d)"
  define d' where "d' = snd (Deque_PopFront d)"
  have n: "dcount d \<le> n" "dhead d < n" "0 < n" using wf ne by (auto simp: deque_wf_def n_def split: if_splits)
  have d': "dbuf d' = (dbuf d)[dhead d := []]" "dhead d' = (dhead d + 1) mod n" "dcount d' = dcount d - 1"
    using ne by (simp_all add: d'_def Deque_PopFront_def n_def)
  have wf': "deque_wf d'" using n d' by (auto simp: deque_wf_def n_def)
  have first: "dbuf d ! dhead d = hd (Deque_ToSlice d)"
    using nth_ToSlice [of 0 d] ne n by (simp add: n_def hd_conv_nth flip: length_greater_0_conv)
  have "Deque_ToSlice d' = tl (Deque_ToSlice d)"
  proof (rule ToSlice_eqI)
    fix i assume "i < length (tl (Deque_ToSlice d))"
    then have i: "Suc i < dcount d" by simp
    have "(dhead d' + i) mod n = (dhead d + Suc i) mod n" by (simp add: d' mod_add_left_eq)
    moreover have "(dbuf d)[(dhead d + 0) mod n := []] ! ((dhead d + Suc i) mod n) =
        (if 0 = Suc i then [] else dbuf d ! ((dhead d + Suc i) mod n))"
      by (rule nth_ring_update) (use i n in \<open>simp_all add: n_def\<close>)
    ultimately show "dbuf d' ! ((dhead d' + i) mod length (dbuf d')) = tl (Deque_ToSlice d) ! i"
      using nth_ToSlice [OF i] n i by (simp add: d' nth_tl n_def [symmetric])
  qed (simp add: d')
  with wf' first ne show ?thesis by (auto simp: Deque_PopFront_def d'_def)
qed

lemma Deque_PopBack_empty: "dcount d = 0 \<Longrightarrow> Deque_PopBack d = (None, d)"
  by (simp add: Deque_PopBack_def)

lemma Deque_PopBack:
  assumes wf: "deque_wf d" and ne: "dcount d \<noteq> 0"
  shows "\<exists>d'. Deque_PopBack d = (Some (last (Deque_ToSlice d)), d') \<and> deque_wf d' \<and>
    Deque_ToSlice d' = butlast (Deque_ToSlice d)"
proof -
  define n where "n = length (dbuf d)"
  obtain c where c: "dcount d = Suc c" using ne by (cases "dcount d") simp_all
  define d' where "d' = snd (Deque_PopBack d)"
  have n: "c < n" "dhead d < n" "0 < n" using wf c by (auto simp: deque_wf_def n_def split: if_splits)
  have d': "dbuf d' = (dbuf d)[(dhead d + c) mod n := []]" "dhead d' = dhead d" "dcount d' = c"
    using c by (simp_all add: d'_def Deque_PopBack_def n_def Let_def)
  have wf': "deque_wf d'" using n d' by (auto simp: deque_wf_def n_def)
  have "Deque_ToSlice d \<noteq> []" using c by (metis length_ToSlice list.size(3) nat.distinct(1))
  then have lst: "dbuf d ! ((dhead d + c) mod n) = last (Deque_ToSlice d)"
    using nth_ToSlice [of c d] c by (simp add: n_def last_conv_nth)
  have "Deque_ToSlice d' = butlast (Deque_ToSlice d)"
  proof (rule ToSlice_eqI)
    fix i assume "i < length (butlast (Deque_ToSlice d))"
    then have i: "i < c" using c by simp
    have "(dbuf d)[(dhead d + c) mod n := []] ! ((dhead d + i) mod n) =
        (if c = i then [] else dbuf d ! ((dhead d + i) mod n))"
      by (rule nth_ring_update) (use i n in \<open>simp_all add: n_def\<close>)
    then show "dbuf d' ! ((dhead d' + i) mod length (dbuf d')) = butlast (Deque_ToSlice d) ! i"
      using nth_ToSlice [of i d] i c by (simp add: d' nth_butlast n_def [symmetric])
  qed (simp add: d' c)
  with wf' lst c show ?thesis by (auto simp: Deque_PopBack_def d'_def Let_def n_def)
qed

section \<open>Indexed access\<close>

lemma Deque_Get: "i < dcount d \<Longrightarrow> Deque_Get d i = Deque_ToSlice d ! i"
  by (simp add: Deque_Get_def nth_ToSlice)

lemma Deque_Set:
  assumes "deque_wf d" "i < dcount d"
  shows "deque_wf (Deque_Set i v d)" and "Deque_ToSlice (Deque_Set i v d) = (Deque_ToSlice d)[i := v]"
proof -
  have n: "dcount d \<le> length (dbuf d)" using assms by (simp add: deque_wf_def)
  show "deque_wf (Deque_Set i v d)" using assms by (auto simp: deque_wf_def Deque_Set_def)
  show "Deque_ToSlice (Deque_Set i v d) = (Deque_ToSlice d)[i := v]"
  proof (rule ToSlice_eqI)
    fix j assume j: "j < length ((Deque_ToSlice d)[i := v])"
    then have "(dbuf d)[(dhead d + i) mod length (dbuf d) := v] ! ((dhead d + j) mod length (dbuf d)) =
        (if i = j then v else dbuf d ! ((dhead d + j) mod length (dbuf d)))"
      using n assms by (intro nth_ring_update) auto
    then show "dbuf (Deque_Set i v d) ! ((dhead (Deque_Set i v d) + j) mod length (dbuf (Deque_Set i v d))) =
        (Deque_ToSlice d)[i := v] ! j"
      using j nth_ToSlice [of j d] by (auto simp: Deque_Set_def nth_list_update)
  qed (simp add: Deque_Set_def)
qed

lemma normalizeRange_bounds:
  "normalizeRange start stop n = Some (a, b) \<Longrightarrow> 0 \<le> a \<and> a \<le> b \<and> b < n"
  by (auto simp: normalizeRange_def Let_def split: if_splits)

lemma Deque_Range:
  "Deque_Range start stop d =
     (case normalizeRange start stop (int (dcount d)) of None \<Rightarrow> []
      | Some (a, b) \<Rightarrow> take (nat (b - a + 1)) (drop (nat a) (Deque_ToSlice d)))"
proof (cases "normalizeRange start stop (int (dcount d))")
  case (Some p)
  then obtain a b where p: "normalizeRange start stop (int (dcount d)) = Some (a, b)" by (cases p) simp
  note bnd = normalizeRange_bounds [OF p]
  have "map (Deque_at d) [nat a..<nat b + 1] = take (nat (b - a + 1)) (drop (nat a) (Deque_ToSlice d))"
  proof -
    have "nat a + nat (b - a + 1) = nat b + 1" "nat a + nat (b - a + 1) \<le> dcount d" using bnd by linarith+
    then have "take (nat (b - a + 1)) [nat a..<dcount d] = [nat a..<nat b + 1]"
      by (metis take_upt)
    then show ?thesis by (simp add: Deque_ToSlice_def take_map drop_map del: upt_Suc)
  qed
  then show ?thesis by (simp add: Deque_Range_def p)
qed (simp add: Deque_Range_def)


section \<open>Insertion in the middle\<close>

text \<open>
  After the first loop the logical index \<open>k\<close> below \<open>i\<close> holds its right neighbour; after the second
  the indices above \<open>i\<close> hold their left neighbours.
\<close>

lemma length_shift_left [simp]: "length (shift_left h i b) = length b"
  by (induction i) (simp_all add: shift_left_def)

lemma shift_left:
  assumes "length b = n" "i < n" "k < n"
  shows "shift_left h i b ! ((h + k) mod n) = b ! ((h + (if k < i then Suc k else k)) mod n)"
  using assms(2,3)
proof (induction i arbitrary: k)
  case 0
  then show ?case by (simp add: shift_left_def)
next
  case (Suc i)
  define b' where "b' = shift_left h i b"
  have b': "length b' = n" by (simp add: b'_def assms)
  have "shift_left h (Suc i) b = b'[(h + i) mod n := b' ! ((h + Suc i) mod n)]"
    using b' by (simp add: shift_left_def b'_def)
  moreover have "b'[(h + i) mod n := b' ! ((h + Suc i) mod n)] ! ((h + k) mod n) =
      (if i = k then b' ! ((h + Suc i) mod n) else b' ! ((h + k) mod n))"
    using Suc.prems b' by (intro nth_ring_update) auto
  moreover have "b' ! ((h + Suc i) mod n) = b ! ((h + Suc i) mod n)"
    using Suc.IH [of "Suc i"] Suc.prems by (simp add: b'_def)
  moreover have "b' ! ((h + k) mod n) = b ! ((h + (if k < i then Suc k else k)) mod n)"
    using Suc.IH [of k] Suc.prems by (simp add: b'_def)
  ultimately show ?case by (simp only: less_Suc_eq split: if_splits) auto
qed

lemma shift_right_step:
  assumes "i < c"
  shows "shift_right h c i b =
    (let b' = shift_right h c (Suc i) b in b'[(h + Suc i) mod length b' := b' ! ((h + i) mod length b')])"
proof -
  have "[i + 1..<c + 1] = (i + 1) # [i + 2..<c + 1]" using assms by (simp add: upt_conv_Cons)
  then show ?thesis by (simp add: shift_right_def Let_def del: upt_Suc)
qed

lemma length_shift_right [simp]: "length (shift_right h c i b) = length b"
proof -
  have "length (fold (\<lambda>j b. b[(h + j) mod length b := b ! ((h + j - 1) mod length b)]) js b) = length b" for js
    by (induction js arbitrary: b) simp_all
  then show ?thesis by (simp add: shift_right_def)
qed

lemma shift_right:
  assumes "length b = n" "c < n" "i \<le> c" "k < n"
  shows "shift_right h c i b ! ((h + k) mod n) = b ! ((h + (if i < k \<and> k \<le> c then k - 1 else k)) mod n)"
  using assms(3,4)
proof (induction i arbitrary: k rule: inc_induct)
  case base
  then show ?case by (auto simp: shift_right_def)
next
  case (step i)
  define b' where "b' = shift_right h c (Suc i) b"
  have b': "length b' = n" by (simp add: b'_def assms)
  have "shift_right h c i b = b'[(h + Suc i) mod n := b' ! ((h + i) mod n)]"
    using shift_right_step [OF step(2)] b' by (simp add: b'_def Let_def assms)
  moreover have "b'[(h + Suc i) mod n := b' ! ((h + i) mod n)] ! ((h + k) mod n) =
      (if Suc i = k then b' ! ((h + i) mod n) else b' ! ((h + k) mod n))"
    using step assms b' by (intro nth_ring_update) auto
  moreover have "b' ! ((h + i) mod n) = b ! ((h + i) mod n)"
    using step.IH [of i] step assms by (simp add: b'_def)
  moreover have "b' ! ((h + k) mod n) = b ! ((h + (if Suc i < k \<and> k \<le> c then k - 1 else k)) mod n)"
    using step.IH [of k] step by (simp add: b'_def)
  ultimately show ?case using step(2) by (cases "Suc i = k") auto
qed


lemma nth_insert_at:
  "i \<le> length xs \<Longrightarrow> k < Suc (length xs) \<Longrightarrow>
   (take i xs @ v # drop i xs) ! k = (if k < i then xs ! k else if k = i then v else xs ! (k - 1))"
  by (auto simp: nth_append nth_Cons')

text \<open>
  Both branches leave a ring in which every logical index but \<open>i\<close> already holds what the longer list
  has there; the final store fills \<open>i\<close>.
\<close>

lemma ring_insert:
  assumes "length b = n" "h < n" "length xs < n" "i \<le> length xs"
    and "\<forall>k < Suc (length xs). k \<noteq> i \<longrightarrow> b ! ((h + k) mod n) = (if k < i then xs ! k else xs ! (k - 1))"
    and d: "d = \<lparr>dbuf = b[(h + i) mod n := v], dhead = h, dcount = Suc (length xs)\<rparr>"
  shows "deque_wf d \<and> Deque_ToSlice d = take i xs @ v # drop i xs"
proof
  show "deque_wf d" using assms by (auto simp: deque_wf_def)
  show "Deque_ToSlice d = take i xs @ v # drop i xs"
  proof (rule ToSlice_eqI)
    fix k assume "k < length (take i xs @ v # drop i xs)"
    then have k: "k < Suc (length xs)" using assms by simp
    have "b[(h + i) mod n := v] ! ((h + k) mod n) = (if i = k then v else b ! ((h + k) mod n))"
      using assms k by (intro nth_ring_update) auto
    with assms(5) k have "b[(h + i) mod n := v] ! ((h + k) mod n) = (take i xs @ v # drop i xs) ! k"
      using nth_insert_at [OF assms(4) k, of v] by auto
    then show "dbuf d ! ((dhead d + k) mod length (dbuf d)) = (take i xs @ v # drop i xs) ! k"
      using assms(1) by (simp add: d)
  qed (use assms in simp)
qed

lemma Deque_Insert:
  assumes "deque_wf d" "i \<le> dcount d"
  shows "deque_wf (Deque_Insert i v d) \<and>
    Deque_ToSlice (Deque_Insert i v d) = take i (Deque_ToSlice d) @ v # drop i (Deque_ToSlice d)"
proof -
  define e where "e = make_room d"
  define n where "n = length (dbuf e)"
  define xs where "xs = Deque_ToSlice d"
  have e: "deque_wf e" "Deque_ToSlice e = xs" "dcount e = length xs" "length xs < n"
    using make_room [OF assms(1)] by (simp_all add: e_def n_def xs_def)
  have i: "i \<le> length xs" using assms(2) by (simp add: xs_def)
  have hn: "dhead e < n" "0 < n" using e by (auto simp: deque_wf_def n_def split: if_splits)
  have el: "dbuf e ! ((dhead e + k) mod n) = xs ! k" if "k < length xs" for k
    using nth_ToSlice [of k e] that e by (simp add: n_def)
  show ?thesis
  proof (cases "i \<le> dcount e div 2")
    case True
    define h where "h = (dhead e + n - 1) mod n"
    have "shift_left h i (dbuf e) ! ((h + k) mod n) = (if k < i then xs ! k else xs ! (k - 1))"
      if k: "k < Suc (length xs)" "k \<noteq> i" for k
    proof -
      have "shift_left h i (dbuf e) ! ((h + k) mod n) =
          dbuf e ! ((h + (if k < i then Suc k else k)) mod n)"
        using k e i by (intro shift_left) (auto simp: n_def)
      also have "\<dots> = dbuf e ! ((h + Suc (if k < i then k else k - 1)) mod n)" using k by simp
      also have "(h + Suc (if k < i then k else k - 1)) mod n =
          (dhead e + (if k < i then k else k - 1)) mod n"
        unfolding h_def by (rule ring_back [OF hn(2)])
      finally show ?thesis using el [of "if k < i then k else k - 1"] k i by (auto split: if_splits)
    qed
    then show ?thesis
      unfolding xs_def [symmetric]
      by (intro ring_insert [where b = "shift_left h i (dbuf e)" and h = h and n = n])
        (use True e i hn in \<open>auto simp: Deque_Insert_def Let_def e_def [symmetric] n_def [symmetric] h_def\<close>)
  next
    case False
    have "shift_right (dhead e) (dcount e) i (dbuf e) ! ((dhead e + k) mod n) =
        (if k < i then xs ! k else xs ! (k - 1))"
      if k: "k < Suc (length xs)" "k \<noteq> i" for k
    proof -
      have "shift_right (dhead e) (dcount e) i (dbuf e) ! ((dhead e + k) mod n) =
          dbuf e ! ((dhead e + (if i < k \<and> k \<le> dcount e then k - 1 else k)) mod n)"
        using k e i by (intro shift_right) (auto simp: n_def)
      also have "(if i < k \<and> k \<le> dcount e then k - 1 else k) = (if k < i then k else k - 1)"
        using k e(3) by auto
      finally show ?thesis using el [of "if k < i then k else k - 1"] k i by (auto split: if_splits)
    qed
    then show ?thesis
      unfolding xs_def [symmetric]
      by (intro ring_insert [where b = "shift_right (dhead e) (dcount e) i (dbuf e)" and h = "dhead e" and n = n])
        (use False e i hn in \<open>auto simp: Deque_Insert_def Let_def e_def [symmetric] n_def [symmetric]\<close>)
  qed
qed

section \<open>The contract\<close>

text \<open>Popping \<open>n\<close> times.\<close>

fun drain :: "('d \<Rightarrow> 'a option \<times> 'd) \<Rightarrow> nat \<Rightarrow> 'd \<Rightarrow> 'a list \<times> 'd" where
  "drain pop 0 d = ([], d)"
| "drain pop (Suc n) d =
     (case pop d of
        (None, d) \<Rightarrow> ([], d)
      | (Some x, d) \<Rightarrow> (case drain pop n d of (xs, d) \<Rightarrow> (x # xs, d)))"

locale deque_spec =
  fixes new :: 'd
    and len :: "'d \<Rightarrow> nat"
    and push_front :: "'a list \<Rightarrow> 'd \<Rightarrow> 'd"
    and push_back :: "'a list \<Rightarrow> 'd \<Rightarrow> 'd"
    and pop_front :: "'d \<Rightarrow> 'a option \<times> 'd"
    and pop_back :: "'d \<Rightarrow> 'a option \<times> 'd"
    and get :: "'d \<Rightarrow> nat \<Rightarrow> 'a"
    and put :: "nat \<Rightarrow> 'a \<Rightarrow> 'd \<Rightarrow> 'd"
    and ins :: "nat \<Rightarrow> 'a \<Rightarrow> 'd \<Rightarrow> 'd"
    and items :: "'d \<Rightarrow> 'a list"
    and invar :: "'d \<Rightarrow> bool"
  assumes items_new [simp]: "items new = []"
    and invar_new [simp]: "invar new"
    and len_items: "len d = length (items d)"
    and push_front: "invar d \<Longrightarrow> invar (push_front vs d) \<and> items (push_front vs d) = rev vs @ items d"
    and push_back: "invar d \<Longrightarrow> invar (push_back vs d) \<and> items (push_back vs d) = items d @ vs"
    and pop_front_none: "items d = [] \<Longrightarrow> pop_front d = (None, d)"
    and pop_front: "invar d \<Longrightarrow> items d = x # xs \<Longrightarrow> \<exists>d'. pop_front d = (Some x, d') \<and> invar d' \<and> items d' = xs"
    and pop_back_none: "items d = [] \<Longrightarrow> pop_back d = (None, d)"
    and pop_back: "invar d \<Longrightarrow> items d = xs @ [x] \<Longrightarrow> \<exists>d'. pop_back d = (Some x, d') \<and> invar d' \<and> items d' = xs"
    and get: "i < length (items d) \<Longrightarrow> get d i = items d ! i"
    and put: "invar d \<Longrightarrow> i < length (items d) \<Longrightarrow> invar (put i v d) \<and> items (put i v d) = (items d)[i := v]"
    and ins: "invar d \<Longrightarrow> i \<le> length (items d) \<Longrightarrow>
      invar (ins i v d) \<and> items (ins i v d) = take i (items d) @ v # drop i (items d)"
begin

lemma invar_push_front [simp]: "invar d \<Longrightarrow> invar (push_front vs d)"
  and items_push_front [simp]: "invar d \<Longrightarrow> items (push_front vs d) = rev vs @ items d"
  and invar_push_back [simp]: "invar d \<Longrightarrow> invar (push_back vs d)"
  and items_push_back [simp]: "invar d \<Longrightarrow> items (push_back vs d) = items d @ vs"
  using push_front push_back by blast+

lemma pop_front_cases:
  assumes "invar d"
  obtains "items d = []" "pop_front d = (None, d)"
  | d' where "items d \<noteq> []" "pop_front d = (Some (hd (items d)), d')" "invar d'" "items d' = tl (items d)"
  using pop_front_none pop_front [OF assms] by (cases "items d") fastforce+

lemma pop_back_cases:
  assumes "invar d"
  obtains "items d = []" "pop_back d = (None, d)"
  | d' where "items d \<noteq> []" "pop_back d = (Some (last (items d)), d')" "invar d'" "items d' = butlast (items d)"
  using pop_back_none pop_back [OF assms] by (cases "items d" rule: rev_cases) fastforce+

lemma drain_front:
  "invar d \<Longrightarrow> items d = xs @ ys \<Longrightarrow>
   \<exists>d'. drain pop_front (length xs) d = (xs, d') \<and> invar d' \<and> items d' = ys"
proof (induction xs arbitrary: d)
  case (Cons x xs)
  then obtain d1 where "pop_front d = (Some x, d1)" "invar d1" "items d1 = xs @ ys"
    using pop_front [of d x "xs @ ys"] by auto
  with Cons.IH [of d1] show ?case by fastforce
qed simp

lemma drain_back:
  "invar d \<Longrightarrow> items d = ys @ rev xs \<Longrightarrow>
   \<exists>d'. drain pop_back (length xs) d = (xs, d') \<and> invar d' \<and> items d' = ys"
proof (induction xs arbitrary: d)
  case (Cons x xs)
  then obtain d1 where "pop_back d = (Some x, d1)" "invar d1" "items d1 = ys @ rev xs"
    using pop_back [of d "ys @ rev xs" x] by auto
  with Cons.IH [of d1] show ?case by fastforce
qed simp

lemma fifo: "\<exists>d'. drain pop_front (length vs) (push_back vs new) = (vs, d') \<and> items d' = []"
  using drain_front [of "push_back vs new" vs "[]"] by auto

lemma lifo: "invar d \<Longrightarrow> \<exists>d'. drain pop_front (length vs) (push_front vs d) = (rev vs, d') \<and> items d' = items d"
  using drain_front [of "push_front vs d" "rev vs" "items d"] by auto

end

interpretation dq: deque_spec Deque_empty Deque_Len Deque_PushFront Deque_PushBack
  Deque_PopFront Deque_PopBack Deque_Get Deque_Set Deque_Insert Deque_ToSlice deque_wf
proof (unfold_locales, goal_cases)
  case 1
  show ?case by (simp add: Deque_ToSlice_def Deque_empty_def)
next
  case 2
  show ?case by (simp add: deque_wf_def Deque_empty_def)
next
  case (3 d)
  show ?case by (simp add: Deque_Len_def)
next
  case (6 d)
  then show ?case by (metis Deque_PopFront_empty length_ToSlice list.size(3))
next
  case (7 d x xs)
  then have "dcount d \<noteq> 0" by (metis length_ToSlice length_Suc_conv nat.distinct(1))
  with Deque_PopFront [OF 7(1)] 7(2) show ?case by simp
next
  case (8 d)
  then show ?case by (metis Deque_PopBack_empty length_ToSlice list.size(3))
next
  case (9 d xs x)
  then have "dcount d \<noteq> 0" by (metis length_ToSlice length_0_conv snoc_eq_iff_butlast)
  with Deque_PopBack [OF 9(1)] 9(2) show ?case by simp
qed (simp_all add: Deque_PushFront Deque_PushBack Deque_Get Deque_Set Deque_Insert)


section \<open>Every run of the ring buffer is a run of a list\<close>

datatype deque_op =
    DPushFront "string list" | DPushBack "string list" | DPopFront | DPopBack
  | DGet nat | DSet nat string | DInsert nat string | DLRange int int | DLen | DToSlice

datatype deque_out = DUnit | DItem "string option" | DItems "string list" | DSize nat

text \<open>\<open>Get\<close>, \<open>Set\<close> and \<open>Insert\<close> leave the bound to the caller, and the callers in the store test it.\<close>

fun deque_step :: "deque_op \<Rightarrow> deque \<Rightarrow> deque_out \<times> deque" where
  "deque_step (DPushFront vs) d = (DUnit, Deque_PushFront vs d)"
| "deque_step (DPushBack vs) d = (DUnit, Deque_PushBack vs d)"
| "deque_step DPopFront d = (case Deque_PopFront d of (v, d) \<Rightarrow> (DItem v, d))"
| "deque_step DPopBack d = (case Deque_PopBack d of (v, d) \<Rightarrow> (DItem v, d))"
| "deque_step (DGet i) d = (if i < Deque_Len d then (DItem (Some (Deque_Get d i)), d) else (DItem None, d))"
| "deque_step (DSet i v) d = (DUnit, if i < Deque_Len d then Deque_Set i v d else d)"
| "deque_step (DInsert i v) d = (DUnit, if i \<le> Deque_Len d then Deque_Insert i v d else d)"
| "deque_step (DLRange a b) d = (DItems (Deque_Range a b d), d)"
| "deque_step DLen d = (DSize (Deque_Len d), d)"
| "deque_step DToSlice d = (DItems (Deque_ToSlice d), d)"

definition list_range :: "int \<Rightarrow> int \<Rightarrow> 'a list \<Rightarrow> 'a list" where
  "list_range start stop xs =
     (case normalizeRange start stop (int (length xs)) of None \<Rightarrow> []
      | Some (a, b) \<Rightarrow> take (nat (b - a + 1)) (drop (nat a) xs))"

fun list_step :: "deque_op \<Rightarrow> string list \<Rightarrow> deque_out \<times> string list" where
  "list_step (DPushFront vs) xs = (DUnit, rev vs @ xs)"
| "list_step (DPushBack vs) xs = (DUnit, xs @ vs)"
| "list_step DPopFront xs = (if xs = [] then (DItem None, xs) else (DItem (Some (hd xs)), tl xs))"
| "list_step DPopBack xs = (if xs = [] then (DItem None, xs) else (DItem (Some (last xs)), butlast xs))"
| "list_step (DGet i) xs = (if i < length xs then (DItem (Some (xs ! i)), xs) else (DItem None, xs))"
| "list_step (DSet i v) xs = (DUnit, xs[i := v])"
| "list_step (DInsert i v) xs = (DUnit, if i \<le> length xs then take i xs @ v # drop i xs else xs)"
| "list_step (DLRange a b) xs = (DItems (list_range a b xs), xs)"
| "list_step DLen xs = (DSize (length xs), xs)"
| "list_step DToSlice xs = (DItems xs, xs)"

lemma Deque_Range_list: "Deque_Range a b d = list_range a b (Deque_ToSlice d)"
  unfolding Deque_Range list_range_def by simp

lemma deque_step_sim:
  assumes "deque_wf d"
  shows "deque_wf (snd (deque_step opn d)) \<and>
    map_prod id Deque_ToSlice (deque_step opn d) = list_step opn (Deque_ToSlice d)"
proof (cases opn)
  case DPopFront
  then show ?thesis by (cases rule: dq.pop_front_cases [OF assms]) (auto simp: assms)
next
  case DPopBack
  then show ?thesis by (cases rule: dq.pop_back_cases [OF assms]) (auto simp: assms)
qed (use assms in \<open>auto simp: Deque_Range_list dq.len_items dq.get dq.put dq.ins list_update_beyond\<close>)

interpretation deque_sim: simulation deque_step list_step "\<lambda>d xs. deque_wf d \<and> Deque_ToSlice d = xs"
proof (unfold_locales, goal_cases)
  case (1 d xs opn)
  then show ?case using deque_step_sim [of d opn] by (metis fst_map_prod id_apply)
next
  case (2 d xs opn)
  then show ?case using deque_step_sim [of d opn] by (metis snd_map_prod)
qed

text \<open>C1: The ring buffer is a list.  Whatever sequence of pushes, pops, reads, writes, insertions and
  range queries is run on an empty deque, its outputs are those of the same sequence on a plain list:
  growth, wrap-around of the head and the two shifting directions of \<open>Insert\<close> are never visible.\<close>

theorem deque_runs_as_list:
  "fst (run_ops deque_step opns Deque_empty) = fst (run_ops list_step opns [])"
  by (rule deque_sim.sim_run) simp

end
