(* ===== verification/Vole_SortedSet.thy ===== *)
theory Vole_SortedSet
  imports Vole_Float Vole_Deque
begin

text \<open>
  The sorted set of \<^verbatim>\<open>internal/store/sortedset.go\<close>: a map from member to score and a slice of the
  same entries ordered by score, then by member.  The invariant \<open>zset_wf\<close> says that the two agree,
  that the slice is strictly ascending and that no score is NaN; every operation keeps it, and under
  it the binary searches return what a scan would.
\<close>

section \<open>State and operations\<close>

record ZMember =
  Member :: string
  Score :: float64

record SortedSet =
  scores :: "float64 gomap"
  ordered :: "ZMember list"

definition NewSortedSet :: SortedSet where
  "NewSortedSet = \<lparr>scores = fmempty, ordered = []\<rparr>"

definition SortedSet_Len :: "SortedSet \<Rightarrow> nat" where
  "SortedSet_Len z = map_len (scores z)"

definition findPos :: "float64 \<Rightarrow> string \<Rightarrow> SortedSet \<Rightarrow> nat" where
  "findPos score member z =
     sort_Search (length (ordered z))
       (\<lambda>i. if \<not> f64_eq (Score (ordered z ! i)) score then f64_lt score (Score (ordered z ! i))
            else member \<le> Member (ordered z ! i))"

text \<open>\<open>append\<close>, then \<open>copy\<close> one place to the right from \<open>pos\<close>, then store at \<open>pos\<close>.\<close>

definition insertOrdered :: "string \<Rightarrow> float64 \<Rightarrow> SortedSet \<Rightarrow> SortedSet" where
  "insertOrdered member score z =
     (let pos = findPos score member z
      in z\<lparr>ordered := take pos (ordered z) @ \<lparr>Member = member, Score = score\<rparr> # drop pos (ordered z)\<rparr>)"

definition removeOrdered :: "string \<Rightarrow> float64 \<Rightarrow> SortedSet \<Rightarrow> SortedSet" where
  "removeOrdered member score z =
     (let pos = findPos score member z
      in if pos < length (ordered z) \<and> Member (ordered z ! pos) = member
         then z\<lparr>ordered := take pos (ordered z) @ drop (pos + 1) (ordered z)\<rparr> else z)"

definition SortedSet_Add :: "string \<Rightarrow> float64 \<Rightarrow> SortedSet \<Rightarrow> bool \<times> SortedSet" where
  "SortedSet_Add member score z =
     (case fmlookup (scores z) member of
        Some oldScore \<Rightarrow>
          if f64_eq oldScore score then (False, z)
          else let z = removeOrdered member oldScore z;
                   z = z\<lparr>scores := fmupd member score (scores z)\<rparr>
               in (False, insertOrdered member score z)
      | None \<Rightarrow> (True, insertOrdered member score (z\<lparr>scores := fmupd member score (scores z)\<rparr>)))"

definition SortedSet_Remove :: "string \<Rightarrow> SortedSet \<Rightarrow> bool \<times> SortedSet" where
  "SortedSet_Remove member z =
     (case fmlookup (scores z) member of
        None \<Rightarrow> (False, z)
      | Some score \<Rightarrow> (True, removeOrdered member score (z\<lparr>scores := fmdrop member (scores z)\<rparr>)))"

definition SortedSet_Score :: "string \<Rightarrow> SortedSet \<Rightarrow> float64 option" where
  "SortedSet_Score member z = fmlookup (scores z) member"

definition SortedSet_Range :: "int \<Rightarrow> int \<Rightarrow> SortedSet \<Rightarrow> ZMember list" where
  "SortedSet_Range start stop z =
     (case normalizeRange start stop (int (length (ordered z))) of
        None \<Rightarrow> []
      | Some (a, b) \<Rightarrow> take (nat (b + 1) - nat a) (drop (nat a) (ordered z)))"

definition SortedSet_Members :: "SortedSet \<Rightarrow> ZMember list" where
  "SortedSet_Members z = ordered z"

text \<open>The loop shared by \<open>RangeByScore\<close> and (with another test) \<open>RangeByLex\<close>, entry by entry.\<close>

fun score_loop :: "float64 \<Rightarrow> int \<Rightarrow> int \<Rightarrow> int \<Rightarrow> ZMember list \<Rightarrow> ZMember list \<Rightarrow> ZMember list" where
  "score_loop hi offset cnt skipped result [] = result"
| "score_loop hi offset cnt skipped result (m # ms) =
     (if f64_lt hi (Score m) then result
      else if 0 < offset \<and> skipped < offset then score_loop hi offset cnt (skipped + 1) result ms
      else let result = result @ [m]
           in if 0 < cnt \<and> cnt \<le> int (length result) then result
              else score_loop hi offset cnt skipped result ms)"

definition score_start :: "float64 \<Rightarrow> SortedSet \<Rightarrow> nat" where
  "score_start lo z = sort_Search (length (ordered z)) (\<lambda>i. f64_le lo (Score (ordered z ! i)))"

definition SortedSet_RangeByScore :: "float64 \<Rightarrow> float64 \<Rightarrow> int \<Rightarrow> int \<Rightarrow> SortedSet \<Rightarrow> ZMember list" where
  "SortedSet_RangeByScore lo hi offset cnt z =
     score_loop hi offset cnt 0 [] (drop (score_start lo z) (ordered z))"

definition SortedSet_RevRange :: "int \<Rightarrow> int \<Rightarrow> SortedSet \<Rightarrow> ZMember list" where
  "SortedSet_RevRange start stop z =
     (let n = length (ordered z) in
      case normalizeRange start stop (int n) of
        None \<Rightarrow> []
      | Some (a, b) \<Rightarrow> map (\<lambda>i. ordered z ! (n - 1 - nat a - i)) [0..<nat (b - a + 1)])"

definition SortedSet_Rank :: "string \<Rightarrow> SortedSet \<Rightarrow> nat option" where
  "SortedSet_Rank member z =
     (case fmlookup (scores z) member of
        None \<Rightarrow> None
      | Some score \<Rightarrow>
          let pos = findPos score member z
          in if pos < length (ordered z) \<and> Member (ordered z ! pos) = member then Some pos else None)"

definition pop_count :: "int \<Rightarrow> nat \<Rightarrow> nat" where
  "pop_count cnt n = (let cnt = (if cnt \<le> 0 then 1 else cnt)
                        in if int n < cnt then n else nat cnt)"

definition drop_scores :: "ZMember list \<Rightarrow> float64 gomap \<Rightarrow> float64 gomap" where
  "drop_scores ms m = fold (\<lambda>x. fmdrop (Member x)) ms m"

definition SortedSet_PopMin :: "int \<Rightarrow> SortedSet \<Rightarrow> ZMember list \<times> SortedSet" where
  "SortedSet_PopMin cnt z =
     (let c = pop_count cnt (length (ordered z)) in
      if c = 0 then ([], z)
      else let result = take c (ordered z)
           in (result, z\<lparr>scores := drop_scores result (scores z), ordered := drop c (ordered z)\<rparr>))"

definition SortedSet_PopMax :: "int \<Rightarrow> SortedSet \<Rightarrow> ZMember list \<times> SortedSet" where
  "SortedSet_PopMax cnt z =
     (let n = length (ordered z); c = pop_count cnt n in
      if c = 0 then ([], z)
      else let result = rev (drop (n - c) (ordered z))
           in (result, z\<lparr>scores := drop_scores result (scores z), ordered := take (n - c) (ordered z)\<rparr>))"

definition lexGTE :: "string \<Rightarrow> string \<Rightarrow> bool" where
  "lexGTE member bound =
     (if bound = ''-'' then True
      else if bound = ''+'' then False
      else if bound \<noteq> [] \<and> hd bound = CHR ''['' then tl bound \<le> member
      else if bound \<noteq> [] \<and> hd bound = CHR ''('' then tl bound < member
      else bound \<le> member)"

definition lexLTE :: "string \<Rightarrow> string \<Rightarrow> bool" where
  "lexLTE member bound =
     (if bound = ''+'' then True
      else if bound = ''-'' then False
      else if bound \<noteq> [] \<and> hd bound = CHR ''['' then member \<le> tl bound
      else if bound \<noteq> [] \<and> hd bound = CHR ''('' then member < tl bound
      else member \<le> bound)"

fun lex_loop :: "string \<Rightarrow> string \<Rightarrow> int \<Rightarrow> int \<Rightarrow> int \<Rightarrow> ZMember list \<Rightarrow> ZMember list \<Rightarrow> ZMember list" where
  "lex_loop lo hi offset cnt skipped result [] = result"
| "lex_loop lo hi offset cnt skipped result (m # ms) =
     (if \<not> lexGTE (Member m) lo then lex_loop lo hi offset cnt skipped result ms
      else if \<not> lexLTE (Member m) hi then result
      else if 0 < offset \<and> skipped < offset then lex_loop lo hi offset cnt (skipped + 1) result ms
      else let result = result @ [m]
           in if 0 < cnt \<and> cnt \<le> int (length result) then result
              else lex_loop lo hi offset cnt skipped result ms)"

definition SortedSet_RangeByLex :: "string \<Rightarrow> string \<Rightarrow> int \<Rightarrow> int \<Rightarrow> SortedSet \<Rightarrow> ZMember list" where
  "SortedSet_RangeByLex lo hi offset cnt z = lex_loop lo hi offset cnt 0 [] (ordered z)"

fun count_loop :: "float64 \<Rightarrow> nat \<Rightarrow> ZMember list \<Rightarrow> nat" where
  "count_loop hi n [] = n"
| "count_loop hi n (m # ms) = (if f64_lt hi (Score m) then n else count_loop hi (n + 1) ms)"

definition SortedSet_CountByScore :: "float64 \<Rightarrow> float64 \<Rightarrow> SortedSet \<Rightarrow> nat" where
  "SortedSet_CountByScore lo hi z = count_loop hi 0 (drop (score_start lo z) (ordered z))"

section \<open>Invariant\<close>

definition zkey :: "ZMember \<Rightarrow> float64 \<times> string" where
  "zkey m = (Score m, Member m)"

definition zset_wf :: "SortedSet \<Rightarrow> bool" where
  "zset_wf z \<longleftrightarrow> sorted_wrt (<) (map zkey (ordered z)) \<and>
     (\<forall>m \<in> set (ordered z). Score m \<noteq> NaN) \<and>
     (\<forall>m s. fmlookup (scores z) m = Some s \<longleftrightarrow> \<lparr>Member = m, Score = s\<rparr> \<in> set (ordered z))"


definition zs_ok :: "ZMember list \<Rightarrow> bool" where
  "zs_ok os \<longleftrightarrow> sorted_wrt (<) (map zkey os) \<and> (\<forall>m \<in> set os. Score m \<noteq> NaN)"

lemma zset_wf_iff:
  "zset_wf z \<longleftrightarrow> zs_ok (ordered z) \<and>
     (\<forall>m s. fmlookup (scores z) m = Some s \<longleftrightarrow> \<lparr>Member = m, Score = s\<rparr> \<in> set (ordered z))"
  by (auto simp: zset_wf_def zs_ok_def)

lemma zkey_inject [simp]: "zkey a = zkey b \<longleftrightarrow> a = b"
  by (cases a; cases b) (auto simp: zkey_def)

lemma zkey_make [simp]: "zkey \<lparr>Member = m, Score = s\<rparr> = (s, m)"
  by (simp add: zkey_def)

lemma ZMember_eta: "\<lparr>Member = Member x, Score = Score x\<rparr> = (x :: ZMember)"
  by (cases x) simp

lemma zs_ok_Nil [simp]: "zs_ok []"
  by (simp add: zs_ok_def)

lemma zs_ok_append:
  "zs_ok (xs @ ys) \<longleftrightarrow> zs_ok xs \<and> zs_ok ys \<and> (\<forall>x \<in> set xs. \<forall>y \<in> set ys. zkey x < zkey y)"
  by (auto simp: zs_ok_def sorted_wrt_append)

lemma zs_ok_Cons:
  "zs_ok (x # xs) \<longleftrightarrow> Score x \<noteq> NaN \<and> zs_ok xs \<and> (\<forall>y \<in> set xs. zkey x < zkey y)"
  by (auto simp: zs_ok_def)

lemma zs_ok_take: "zs_ok xs \<Longrightarrow> zs_ok (take n xs)"
  and zs_ok_drop: "zs_ok xs \<Longrightarrow> zs_ok (drop n xs)"
  by (metis append_take_drop_id zs_ok_append)+

lemma zs_ok_distinct: "zs_ok os \<Longrightarrow> distinct os"
  by (induction os) (auto simp: zs_ok_Cons)

text \<open>The search lands between the entries below the key and those from the key on.\<close>

lemma findPos_split:
  assumes ok: "zs_ok (ordered z)" and s: "s \<noteq> NaN"
  obtains ys zs where "ordered z = ys @ zs" "findPos s m z = length ys"
    "\<forall>y \<in> set ys. zkey y < (s, m)" "\<forall>y \<in> set zs. (s, m) \<le> zkey y"
proof -
  define P where "P = (\<lambda>x :: ZMember. if \<not> f64_eq (Score x) s then f64_lt s (Score x) else m \<le> Member x)"
  obtain ys zs where split: "ordered z = ys @ zs"
    and lo: "\<forall>y \<in> set ys. zkey y < (s, m)" and hi: "\<forall>y \<in> set zs. (s, m) \<le> zkey y"
    using sorted_split [of zkey "ordered z" "(s, m)"] ok unfolding zs_ok_def by blast
  have P: "P x \<longleftrightarrow> (s, m) \<le> zkey x" if "x \<in> set (ordered z)" for x
  proof -
    have "Score x \<noteq> NaN" using ok that by (auto simp: zs_ok_def)
    then show ?thesis using s
      by (auto simp: P_def zkey_def f64_eq_def f64_lt_def less_eq_prod_simp)
  qed
  have "sort_Search (length (ordered z)) (\<lambda>i. P (ordered z ! i)) = length ys"
    using split lo hi P by (intro sort_Search_split [OF split]) (auto simp: not_le)
  then have "findPos s m z = length ys" by (simp add: findPos_def P_def)
  from that [OF split this lo hi] show ?thesis .
qed

lemma insertOrdered:
  assumes "zs_ok (ordered z)" "s \<noteq> NaN" "\<lparr>Member = m, Score = s\<rparr> \<notin> set (ordered z)"
  shows "zs_ok (ordered (insertOrdered m s z))"
    and "set (ordered (insertOrdered m s z)) = insert \<lparr>Member = m, Score = s\<rparr> (set (ordered z))"
    and "scores (insertOrdered m s z) = scores z"
proof -
  from findPos_split [OF assms(1,2), of m] obtain ys zs where
    z: "ordered z = ys @ zs" "findPos s m z = length ys"
    "\<forall>y \<in> set ys. zkey y < (s, m)" "\<forall>y \<in> set zs. (s, m) \<le> zkey y" .
  have "(s, m) \<noteq> zkey y" if "y \<in> set zs" for y
    using that assms(3) z(1) by (metis UnCI ZMember_eta prod.inject set_append zkey_def)
  then have "\<forall>y \<in> set zs. (s, m) < zkey y" using z(4) by (simp add: order_less_le)
  with z assms show "zs_ok (ordered (insertOrdered m s z))"
    by (auto simp: insertOrdered_def zs_ok_append zs_ok_Cons)
  show "set (ordered (insertOrdered m s z)) = insert \<lparr>Member = m, Score = s\<rparr> (set (ordered z))"
    "scores (insertOrdered m s z) = scores z"
    using z by (auto simp: insertOrdered_def)
qed

lemma findPos_member:
  assumes "zs_ok (ordered z)" "x \<in> set (ordered z)"
  shows "findPos (Score x) (Member x) z < length (ordered z)"
    and "ordered z ! findPos (Score x) (Member x) z = x"
proof -
  have "Score x \<noteq> NaN" using assms by (auto simp: zs_ok_def)
  from findPos_split [OF assms(1) this, of "Member x"] obtain ys zs where
    z: "ordered z = ys @ zs" "findPos (Score x) (Member x) z = length ys"
    "\<forall>y \<in> set ys. zkey y < zkey x" "\<forall>y \<in> set zs. zkey x \<le> zkey y"
    unfolding zkey_def .
  have "x \<in> set zs" using assms(2) z by auto
  then obtain w ws where zs: "zs = w # ws" by (cases zs) auto
  have "w = x"
  proof (rule ccontr)
    assume "w \<noteq> x"
    then have "x \<in> set ws" using \<open>x \<in> set zs\<close> zs by simp
    moreover have "zs_ok zs" using assms(1) z by (simp add: zs_ok_append)
    ultimately have "zkey w < zkey x" using zs by (simp add: zs_ok_Cons)
    with z(4) zs show False by (auto dest: leD)
  qed
  with z zs show "findPos (Score x) (Member x) z < length (ordered z)"
    "ordered z ! findPos (Score x) (Member x) z = x" by simp_all
qed

lemma removeOrdered:
  assumes "zs_ok (ordered z)" "\<lparr>Member = m, Score = s\<rparr> \<in> set (ordered z)"
  shows "zs_ok (ordered (removeOrdered m s z))"
    and "set (ordered (removeOrdered m s z)) = set (ordered z) - {\<lparr>Member = m, Score = s\<rparr>}"
    and "scores (removeOrdered m s z) = scores z"
proof -
  let ?x = "\<lparr>Member = m, Score = s\<rparr>"
  define p where "p = findPos s m z"
  have p: "p < length (ordered z)" "ordered z ! p = ?x"
    using findPos_member [OF assms] by (simp_all add: p_def)
  define ys zs where "ys = take p (ordered z)" and "zs = drop (Suc p) (ordered z)"
  have split: "ordered z = ys @ ?x # zs"
    using p id_take_nth_drop [of p "ordered z"] by (simp add: ys_def zs_def)
  have r: "removeOrdered m s z = z\<lparr>ordered := ys @ zs\<rparr>"
    using p by (simp add: removeOrdered_def Let_def p_def [symmetric] ys_def zs_def)
  have d: "distinct (ys @ ?x # zs)" using zs_ok_distinct [OF assms(1)] split by simp
  show "zs_ok (ordered (removeOrdered m s z))"
    using assms(1) unfolding split r by (simp add: zs_ok_append zs_ok_Cons)
  show "set (ordered (removeOrdered m s z)) = set (ordered z) - {?x}"
    using d unfolding split r by auto
  show "scores (removeOrdered m s z) = scores z" by (simp add: r)
qed


section \<open>Insertion and removal\<close>

lemma wf_lookup:
  "zset_wf z \<Longrightarrow> fmlookup (scores z) m = Some s \<longleftrightarrow> \<lparr>Member = m, Score = s\<rparr> \<in> set (ordered z)"
  by (simp add: zset_wf_iff)

lemma wf_member: "zset_wf z \<Longrightarrow> x \<in> set (ordered z) \<longleftrightarrow> fmlookup (scores z) (Member x) = Some (Score x)"
  by (simp add: wf_lookup ZMember_eta)

lemma wf_inj:
  "zset_wf z \<Longrightarrow> x \<in> set (ordered z) \<Longrightarrow> y \<in> set (ordered z) \<Longrightarrow> Member x = Member y \<Longrightarrow> x = y"
proof -
  assume wf: "zset_wf z" and "x \<in> set (ordered z)" "y \<in> set (ordered z)" and m: "Member x = Member y"
  then have "Score x = Score y" using wf_member [OF wf, of x] wf_member [OF wf, of y] by auto
  with m show "x = y" by (metis ZMember_eta)
qed

lemma wf_score: "zset_wf z \<Longrightarrow> fmlookup (scores z) m = Some s \<Longrightarrow> s \<noteq> NaN"
  by (auto simp: zset_wf_iff zs_ok_def)

lemma zset_wf_New [simp]: "zset_wf NewSortedSet"
  by (simp add: zset_wf_iff NewSortedSet_def)

text \<open>A slice with the right entries makes a well-formed set.\<close>

lemma zset_wfI:
  assumes "zs_ok (ordered z)" "\<And>x. x \<in> set (ordered z) \<longleftrightarrow> fmlookup (scores z) (Member x) = Some (Score x)"
  shows "zset_wf z"
  using assms by (auto simp: zset_wf_iff)

lemma others_absent: "zset_wf z \<Longrightarrow> fmlookup (scores z) m = None \<Longrightarrow> {x \<in> set (ordered z). Member x \<noteq> m} = set (ordered z)"
  using wf_member by fastforce

lemma others_present:
  "zset_wf z \<Longrightarrow> fmlookup (scores z) m = Some s \<Longrightarrow>
   {x \<in> set (ordered z). Member x \<noteq> m} = set (ordered z) - {\<lparr>Member = m, Score = s\<rparr>}"
proof -
  assume wf: "zset_wf z" and m: "fmlookup (scores z) m = Some s"
  have "Member x = m \<longleftrightarrow> x = \<lparr>Member = m, Score = s\<rparr>" if "x \<in> set (ordered z)" for x
    using that wf_member [OF wf, of x] m by (cases x) auto
  then show ?thesis by auto
qed

lemma zset_wf_put:
  assumes wf: "zset_wf z" and "zs_ok (ordered z')" "scores z' = fmupd m s (scores z)"
    and "set (ordered z') = insert \<lparr>Member = m, Score = s\<rparr> {x \<in> set (ordered z). Member x \<noteq> m}"
  shows "zset_wf z'"
proof (rule zset_wfI [OF assms(2)])
  fix x
  show "x \<in> set (ordered z') \<longleftrightarrow> fmlookup (scores z') (Member x) = Some (Score x)"
  proof (cases "Member x = m")
    case True
    then show ?thesis using assms(3,4) by (cases x) auto
  next
    case False
    then show ?thesis using assms(3,4) wf_member [OF wf, of x] by auto
  qed
qed

lemma SortedSet_Add:
  assumes wf: "zset_wf z" and s: "s \<noteq> NaN"
  shows "\<exists>z'. SortedSet_Add m s z = (fmlookup (scores z) m = None, z') \<and> zset_wf z' \<and>
    scores z' = fmupd m s (scores z)"
proof -
  have ok: "zs_ok (ordered z)" using wf by (simp add: zset_wf_iff)
  consider (new) "fmlookup (scores z) m = None" | (same) "fmlookup (scores z) m = Some s"
    | (upd) old where "fmlookup (scores z) m = Some old" "old \<noteq> s"
    by (cases "fmlookup (scores z) m") auto
  then show ?thesis
  proof cases
    case same
    then show ?thesis using wf s by (simp add: SortedSet_Add_def f64_eq_def fmupd_present)
  next
    case new
    define z1 where "z1 = z\<lparr>scores := fmupd m s (scores z)\<rparr>"
    have "\<lparr>Member = m, Score = s\<rparr> \<notin> set (ordered z1)" using wf new by (simp add: z1_def wf_member)
    note i = insertOrdered [of z1, OF _ s this]
    have "zset_wf (insertOrdered m s z1)"
    proof (rule zset_wf_put [OF wf])
      show "set (ordered (insertOrdered m s z1)) =
          insert \<lparr>Member = m, Score = s\<rparr> {x \<in> set (ordered z). Member x \<noteq> m}"
        unfolding others_absent [OF wf new] using i(2) ok by (simp add: z1_def)
    qed (use i ok in \<open>simp_all add: z1_def\<close>)
    then show ?thesis using new i(3) ok by (simp add: SortedSet_Add_def z1_def)
  next
    case upd
    define z1 where "z1 = removeOrdered m old z"
    define z2 where "z2 = z1\<lparr>scores := fmupd m s (scores z1)\<rparr>"
    have "\<lparr>Member = m, Score = old\<rparr> \<in> set (ordered z)" using upd wf by (simp add: wf_lookup)
    note r = removeOrdered [OF ok this]
    have z2: "zs_ok (ordered z2)" "scores z2 = fmupd m s (scores z)"
      "set (ordered z2) = {x \<in> set (ordered z). Member x \<noteq> m}"
      using r unfolding others_present [OF wf upd(1)] by (simp_all add: z1_def z2_def)
    then have "\<lparr>Member = m, Score = s\<rparr> \<notin> set (ordered z2)" by simp
    note i = insertOrdered [OF z2(1) s this]
    have "zset_wf (insertOrdered m s z2)"
      using i z2 by (intro zset_wf_put [OF wf]) simp_all
    moreover have "SortedSet_Add m s z = (False, insertOrdered m s z2)"
      using upd by (simp add: SortedSet_Add_def z1_def z2_def f64_eq_def Let_def)
    ultimately show ?thesis using upd i(3) z2(2) by simp
  qed
qed

lemma SortedSet_Remove:
  assumes wf: "zset_wf z"
  shows "\<exists>z'. SortedSet_Remove m z = (has (scores z) m, z') \<and> zset_wf z' \<and> scores z' = fmdrop m (scores z)"
proof (cases "fmlookup (scores z) m")
  case None
  then show ?thesis using wf by (simp add: SortedSet_Remove_def)
next
  case (Some s)
  define z1 where "z1 = z\<lparr>scores := fmdrop m (scores z)\<rparr>"
  have ok: "zs_ok (ordered z1)" using wf by (simp add: z1_def zset_wf_iff)
  have "\<lparr>Member = m, Score = s\<rparr> \<in> set (ordered z1)" using Some wf by (simp add: z1_def wf_lookup)
  note r = removeOrdered [OF ok this]
  have set': "set (ordered (removeOrdered m s z1)) = {x \<in> set (ordered z). Member x \<noteq> m}"
    using r(2) unfolding others_present [OF wf Some] by (simp add: z1_def)
  have "zset_wf (removeOrdered m s z1)"
  proof (rule zset_wfI [OF r(1)])
    fix x
    show "x \<in> set (ordered (removeOrdered m s z1)) \<longleftrightarrow>
        fmlookup (scores (removeOrdered m s z1)) (Member x) = Some (Score x)"
      unfolding set' r(3) using wf_member [OF wf, of x] by (simp add: z1_def)
  qed
  then show ?thesis using Some r(3) by (simp add: SortedSet_Remove_def z1_def)
qed

section \<open>Order and queries\<close>

text \<open>The slice is determined by the map: the entries in ascending (score, member) order.\<close>

lemma zs_ok_unique: "zs_ok xs \<Longrightarrow> zs_ok ys \<Longrightarrow> set xs = set ys \<Longrightarrow> xs = ys"
proof -
  assume a: "zs_ok xs" "zs_ok ys" "set xs = set ys"
  have "sorted (map zkey xs)" "sorted (map zkey ys)" "distinct (map zkey xs)" "distinct (map zkey ys)"
    using a(1,2) strict_sorted_iff by (auto simp: zs_ok_def)
  moreover have "set (map zkey xs) = set (map zkey ys)" using a(3) by simp
  ultimately have "map zkey xs = map zkey ys" by (metis sorted_distinct_set_unique)
  then show ?thesis by (rule map_injective) (simp add: inj_def)
qed

lemma zset_wf_unique:
  assumes "zset_wf y" "zset_wf z" "scores y = scores z"
  shows "y = z"
proof -
  have "x \<in> set (ordered y) \<longleftrightarrow> x \<in> set (ordered z)" for x
    unfolding wf_member [OF assms(1)] wf_member [OF assms(2)] assms(3) ..
  then have "set (ordered y) = set (ordered z)" by blast
  then have "ordered y = ordered z"
    using assms by (intro zs_ok_unique) (simp_all add: zset_wf_iff)
  with assms(3) show ?thesis by simp
qed

lemma length_ordered: "zset_wf z \<Longrightarrow> length (ordered z) = SortedSet_Len z"
proof -
  assume wf: "zset_wf z"
  have inj: "inj_on Member (set (ordered z))" using wf_inj [OF wf] by (auto intro: inj_onI)
  have "Member ` set (ordered z) = fmdom' (scores z)"
  proof
    show "Member ` set (ordered z) \<subseteq> fmdom' (scores z)"
      using wf_member [OF wf] by (auto intro: fmdom'I)
    show "fmdom' (scores z) \<subseteq> Member ` set (ordered z)"
    proof
      fix m assume "m \<in> fmdom' (scores z)"
      then obtain s where "fmlookup (scores z) m = Some s" by (auto simp: fmlookup_dom'_iff)
      then have "\<lparr>Member = m, Score = s\<rparr> \<in> set (ordered z)" unfolding wf_lookup [OF wf] .
      then show "m \<in> Member ` set (ordered z)" by (rule rev_image_eqI) simp
    qed
  qed
  then have "card (set (ordered z)) = card (fmdom' (scores z))" using card_image [OF inj] by simp
  moreover have "distinct (ordered z)" using wf zs_ok_distinct by (auto simp: zset_wf_iff)
  ultimately show ?thesis
    by (simp add: distinct_card SortedSet_Len_def map_len_def fcard.rep_eq fmdom'_alt_def)
qed

lemma SortedSet_Rank:
  assumes wf: "zset_wf z"
  shows "SortedSet_Rank m z =
    (case fmlookup (scores z) m of None \<Rightarrow> None
     | Some s \<Rightarrow> Some (length (filter (\<lambda>x. zkey x < (s, m)) (ordered z))))"
proof (cases "fmlookup (scores z) m")
  case (Some s)
  let ?x = "\<lparr>Member = m, Score = s\<rparr>"
  have ok: "zs_ok (ordered z)" and x: "?x \<in> set (ordered z)"
    using wf Some by (auto simp: zset_wf_iff)
  have s: "s \<noteq> NaN" by (rule wf_score [OF wf Some])
  from findPos_split [OF ok s, of m] obtain ys zs where
    z: "ordered z = ys @ zs" "findPos s m z = length ys"
    "\<forall>y \<in> set ys. zkey y < (s, m)" "\<forall>y \<in> set zs. (s, m) \<le> zkey y" .
  have "filter (\<lambda>x. zkey x < (s, m)) (ordered z) = ys"
    using z by (simp add: filter_empty_conv leD)
  moreover have "findPos s m z < length (ordered z)" "Member (ordered z ! findPos s m z) = m"
    using findPos_member [OF ok x] by simp_all
  ultimately show ?thesis using Some z(2) by (simp add: SortedSet_Rank_def)
qed (simp add: SortedSet_Rank_def)


lemma score_loop:
  "0 \<le> skipped \<Longrightarrow> (0 < cnt \<Longrightarrow> int (length result) < cnt) \<Longrightarrow>
   score_loop hi off cnt skipped result ms =
     result @ limit (off - skipped) (if 0 < cnt then cnt - int (length result) else 0)
       (takeWhile (\<lambda>m. \<not> f64_lt hi (Score m)) ms)"
proof (induction hi off cnt skipped result ms rule: score_loop.induct)
  case (1 hi off cnt skipped result)
  then show ?case by (simp add: limit_def)
next
  case (2 hi off cnt skipped result m ms)
  consider (stop) "f64_lt hi (Score m)" | (skip) "\<not> f64_lt hi (Score m)" "0 < off" "skipped < off"
    | (full) "\<not> f64_lt hi (Score m)" "\<not> (0 < off \<and> skipped < off)" "0 < cnt" "cnt \<le> int (length result) + 1"
    | (keep) "\<not> f64_lt hi (Score m)" "\<not> (0 < off \<and> skipped < off)" "\<not> (0 < cnt \<and> cnt \<le> int (length result) + 1)"
    by linarith
  then show ?case
  proof cases
    case stop
    then show ?thesis by (simp add: limit_def)
  next
    case skip
    then have "nat (off - skipped) = Suc (nat (off - (skipped + 1)))" by linarith
    with skip 2(1) 2(3,4) show ?thesis by (simp add: limit_def)
  next
    case full
    with 2(4) have "cnt - int (length result) = 1" by linarith
    moreover have "off - skipped \<le> 0" using full(2) 2(3) by linarith
    ultimately show ?thesis using full by (simp add: limit_def)
  next
    case keep
    have o: "off - skipped \<le> 0" using keep(2) 2(3) by linarith
    show ?thesis
    proof (cases "0 < cnt")
      case True
      with keep(3) have "nat (cnt - int (length result)) = Suc (nat (cnt - (1 + int (length result))))"
        by linarith
      with True keep o 2(2) 2(3) show ?thesis by (simp add: limit_def)
    next
      case False
      with keep o 2(2) 2(3) show ?thesis by (simp add: limit_def)
    qed
  qed
qed

text \<open>On the ordered slice, cutting at the bounds is filtering by the bounds.\<close>

lemma zs_ok_scores: "zs_ok os \<Longrightarrow> sorted (map Score os)"
proof (induction os)
  case (Cons x os)
  have "Score x \<le> Score y" if "y \<in> set os" for y
    using Cons.prems that by (auto simp: zs_ok_Cons zkey_def less_prod_simp)
  with Cons show ?case by (simp add: zs_ok_Cons)
qed simp

lemma score_start_drop:
  assumes "zs_ok (ordered z)" "lo \<noteq> NaN"
  shows "drop (score_start lo z) (ordered z) = filter (\<lambda>m. lo \<le> Score m) (ordered z)"
proof -
  have "sort_Search (length (ordered z)) (\<lambda>i. f64_le lo (Score (ordered z ! i))) =
      sort_Search (length (ordered z)) (\<lambda>i. lo \<le> Score (ordered z ! i))"
    by (rule sort_Search_cong) (use assms in \<open>auto simp: zs_ok_def f64_le_def\<close>)
  then show ?thesis
    using drop_search_sorted_filter [OF zs_ok_scores [OF assms(1)], of lo] by (simp add: score_start_def)
qed

lemma takeWhile_score:
  assumes "zs_ok os" "hi \<noteq> NaN"
  shows "takeWhile (\<lambda>m. \<not> f64_lt hi (Score m)) os = filter (\<lambda>m. Score m \<le> hi) os"
proof -
  have "takeWhile (\<lambda>m. \<not> f64_lt hi (Score m)) os = takeWhile (\<lambda>m. Score m \<le> hi) os"
    by (rule takeWhile_cong) (use assms in \<open>auto simp: zs_ok_def f64_lt_def not_less\<close>)
  then show ?thesis using takeWhile_sorted_filter [OF zs_ok_scores [OF assms(1)]] by simp
qed

lemma zs_ok_filter: "zs_ok os \<Longrightarrow> zs_ok (filter P os)"
  by (induction os) (auto simp: zs_ok_Cons)

lemma SortedSet_RangeByScore:
  assumes "zset_wf z" "lo \<noteq> NaN" "hi \<noteq> NaN"
  shows "SortedSet_RangeByScore lo hi off cnt z =
    limit off cnt (filter (\<lambda>m. lo \<le> Score m \<and> Score m \<le> hi) (ordered z))"
proof -
  have ok: "zs_ok (ordered z)" using assms(1) by (simp add: zset_wf_iff)
  have "SortedSet_RangeByScore lo hi off cnt z =
      limit off (if 0 < cnt then cnt else 0)
        (filter (\<lambda>m. Score m \<le> hi) (filter (\<lambda>m. lo \<le> Score m) (ordered z)))"
    unfolding SortedSet_RangeByScore_def score_start_drop [OF ok assms(2)]
    by (subst score_loop) (simp_all add: takeWhile_score [OF zs_ok_filter [OF ok] assms(3)])
  then show ?thesis by (simp add: limit_def conj_commute)
qed

lemma count_loop: "count_loop hi n ms = n + length (takeWhile (\<lambda>m. \<not> f64_lt hi (Score m)) ms)"
  by (induction hi n ms rule: count_loop.induct) simp_all

lemma SortedSet_CountByScore:
  assumes "zset_wf z" "lo \<noteq> NaN" "hi \<noteq> NaN"
  shows "SortedSet_CountByScore lo hi z = length (filter (\<lambda>m. lo \<le> Score m \<and> Score m \<le> hi) (ordered z))"
proof -
  have ok: "zs_ok (ordered z)" using assms(1) by (simp add: zset_wf_iff)
  show ?thesis
    unfolding SortedSet_CountByScore_def score_start_drop [OF ok assms(2)] count_loop
    by (simp add: takeWhile_score [OF zs_ok_filter [OF ok] assms(3)] conj_commute)
qed


lemma SortedSet_RevRange:
  "SortedSet_RevRange start stop z =
     (case normalizeRange start stop (int (length (ordered z))) of
        None \<Rightarrow> []
      | Some (a, b) \<Rightarrow> take (nat (b - a + 1)) (drop (nat a) (rev (ordered z))))"
proof (cases "normalizeRange start stop (int (length (ordered z)))")
  case (Some p)
  then obtain a b where p: "normalizeRange start stop (int (length (ordered z))) = Some (a, b)"
    by (cases p) simp
  note bnd = normalizeRange_bounds [OF p]
  have "map (\<lambda>i. ordered z ! (length (ordered z) - 1 - nat a - i)) [0..<nat (b - a + 1)] =
      take (nat (b - a + 1)) (drop (nat a) (rev (ordered z)))" (is "?l = ?r")
  proof (rule nth_equalityI)
    show len: "length ?l = length ?r" using bnd by (simp add: min_def) linarith
    fix i assume "i < length ?l"
    then have i: "i < nat (b - a + 1)" by simp
    then have "nat a + i < length (ordered z)" using bnd by linarith
    then show "?l ! i = ?r ! i" using i by (simp add: rev_nth)
  qed
  then show ?thesis by (simp add: SortedSet_RevRange_def Let_def p)
qed (simp add: SortedSet_RevRange_def Let_def)

section \<open>Popping from either end\<close>

lemma drop_scores_lookup [simp]:
  "fmlookup (drop_scores ms m) k = (if k \<in> Member ` set ms then None else fmlookup m k)"
  unfolding drop_scores_def by (induction ms arbitrary: m) auto

lemma zset_wf_drop:
  assumes wf: "zset_wf z" and ok: "zs_ok (ordered z')" and sub: "set ms \<subseteq> set (ordered z)"
    and "set (ordered z') = set (ordered z) - set ms" "scores z' = drop_scores ms (scores z)"
  shows "zset_wf z'"
proof (rule zset_wfI [OF ok])
  fix x
  have "x \<in> set ms" if "x \<in> set (ordered z)" "Member x \<in> Member ` set ms"
  proof -
    from that(2) obtain y where y: "y \<in> set ms" "Member x = Member y" by blast
    then have "x = y" using wf_inj [OF wf that(1)] sub by blast
    with y show ?thesis by simp
  qed
  then show "x \<in> set (ordered z') \<longleftrightarrow> fmlookup (scores z') (Member x) = Some (Score x)"
    unfolding assms(4,5) drop_scores_lookup using wf_member [OF wf, of x] by auto
qed

lemma pop_count: "pop_count cnt n = min n (nat (max 1 cnt))"
  by (auto simp: pop_count_def Let_def)

lemma SortedSet_PopMin:
  assumes wf: "zset_wf z" and p: "SortedSet_PopMin cnt z = (ms, z')"
  shows "ms = take (nat (max 1 cnt)) (ordered z)" and "ordered z' = drop (nat (max 1 cnt)) (ordered z)"
    and "scores z' = drop_scores ms (scores z)" and "zset_wf z'"
proof -
  have ok: "zs_ok (ordered z)" using wf by (simp add: zset_wf_iff)
  show ms: "ms = take (nat (max 1 cnt)) (ordered z)"
    and os: "ordered z' = drop (nat (max 1 cnt)) (ordered z)"
    and sc: "scores z' = drop_scores ms (scores z)"
    using p by (auto simp: SortedSet_PopMin_def Let_def pop_count min_def drop_scores_def split: if_splits)
  have d: "distinct (ordered z)" by (rule zs_ok_distinct [OF ok])
  show "zset_wf z'"
  proof (rule zset_wf_drop [OF wf _ _ _ sc])
    show "zs_ok (ordered z')" unfolding os by (rule zs_ok_drop [OF ok])
    show "set ms \<subseteq> set (ordered z)" unfolding ms by (rule set_take_subset)
    show "set (ordered z') = set (ordered z) - set ms" unfolding ms os by (rule set_drop_distinct [OF d])
  qed
qed

lemma SortedSet_PopMax:
  assumes wf: "zset_wf z" and p: "SortedSet_PopMax cnt z = (ms, z')"
  shows "ms = take (nat (max 1 cnt)) (rev (ordered z))"
    and "ordered z' = take (length (ordered z) - nat (max 1 cnt)) (ordered z)"
    and "scores z' = drop_scores ms (scores z)" and "zset_wf z'"
proof -
  have ok: "zs_ok (ordered z)" using wf by (simp add: zset_wf_iff)
  show ms: "ms = take (nat (max 1 cnt)) (rev (ordered z))"
    and os: "ordered z' = take (length (ordered z) - nat (max 1 cnt)) (ordered z)"
    and sc: "scores z' = drop_scores ms (scores z)"
    using p by (auto simp: SortedSet_PopMax_def Let_def pop_count min_def drop_scores_def take_rev split: if_splits)
  have d: "distinct (ordered z)" by (rule zs_ok_distinct [OF ok])
  have ms': "set ms = set (drop (length (ordered z) - nat (max 1 cnt)) (ordered z))"
    unfolding ms take_rev set_rev ..
  show "zset_wf z'"
  proof (rule zset_wf_drop [OF wf _ _ _ sc])
    show "zs_ok (ordered z')" unfolding os by (rule zs_ok_take [OF ok])
    show "set ms \<subseteq> set (ordered z)" unfolding ms' by (rule set_drop_subset)
    show "set (ordered z') = set (ordered z) - set ms" unfolding ms' os by (rule set_take_distinct [OF d])
  qed
qed

section \<open>The contract\<close>

text \<open>The loops of \<open>ZAdd\<close>, \<open>Copy\<close>, \<open>Load\<close> and \<open>ZRem\<close> over an abstract sorted set.\<close>

fun add_all :: "(string \<Rightarrow> float64 \<Rightarrow> 'z \<Rightarrow> bool \<times> 'z) \<Rightarrow> ZMember list \<Rightarrow> 'z \<Rightarrow> nat \<times> 'z" where
  "add_all add [] z = (0, z)"
| "add_all add (m # ms) z =
     (case add (Member m) (Score m) z of
        (new, z) \<Rightarrow> (case add_all add ms z of (n, z) \<Rightarrow> (if new then n + 1 else n, z)))"

fun remove_all :: "(string \<Rightarrow> 'z \<Rightarrow> bool \<times> 'z) \<Rightarrow> string list \<Rightarrow> 'z \<Rightarrow> nat \<times> 'z" where
  "remove_all rem [] z = (0, z)"
| "remove_all rem (m # ms) z =
     (case rem m z of
        (hit, z) \<Rightarrow> (case remove_all rem ms z of (n, z) \<Rightarrow> (if hit then n + 1 else n, z)))"

definition put_all :: "ZMember list \<Rightarrow> float64 gomap \<Rightarrow> float64 gomap" where
  "put_all ms m = fold (\<lambda>x. fmupd (Member x) (Score x)) ms m"

lemma put_all_other: "k \<notin> Member ` set ms \<Longrightarrow> fmlookup (put_all ms m) k = fmlookup m k"
  by (induction ms arbitrary: m) (auto simp: put_all_def)

lemma put_all_distinct:
  "distinct (map Member ms) \<Longrightarrow> x \<in> set ms \<Longrightarrow> fmlookup (put_all ms m) (Member x) = Some (Score x)"
proof (induction ms arbitrary: m)
  case (Cons y ms)
  have step: "put_all (y # ms) m = put_all ms (fmupd (Member y) (Score y) m)" by (simp add: put_all_def)
  show ?case
  proof (cases "x = y")
    case True
    with Cons.prems show ?thesis unfolding step by (simp add: put_all_other)
  next
    case False
    with Cons.prems show ?thesis unfolding step by (intro Cons.IH) auto
  qed
qed simp

locale sorted_set_spec =
  fixes new :: 'z
    and add :: "string \<Rightarrow> float64 \<Rightarrow> 'z \<Rightarrow> bool \<times> 'z"
    and rem :: "string \<Rightarrow> 'z \<Rightarrow> bool \<times> 'z"
    and members :: "'z \<Rightarrow> ZMember list"
    and table :: "'z \<Rightarrow> float64 gomap"
    and invar :: "'z \<Rightarrow> bool"
  assumes invar_new: "invar new"
    and table_new: "table new = fmempty"
    and add: "invar z \<Longrightarrow> s \<noteq> NaN \<Longrightarrow>
      \<exists>z'. add m s z = (fmlookup (table z) m = None, z') \<and> invar z' \<and> table z' = fmupd m s (table z)"
    and rem: "invar z \<Longrightarrow> \<exists>z'. rem m z = (has (table z) m, z') \<and> invar z' \<and> table z' = fmdrop m (table z)"
    and canonical: "invar y \<Longrightarrow> invar z \<Longrightarrow> table y = table z \<Longrightarrow> y = z"
    and members: "invar z \<Longrightarrow> x \<in> set (members z) \<longleftrightarrow> fmlookup (table z) (Member x) = Some (Score x)"
    and members_inj: "invar z \<Longrightarrow> distinct (map Member (members z))"
    and no_nan: "invar z \<Longrightarrow> fmlookup (table z) m \<noteq> Some NaN"
begin

lemma add_all:
  "invar z \<Longrightarrow> \<forall>x \<in> set ms. Score x \<noteq> NaN \<Longrightarrow>
   \<exists>z'. add_all add ms z = (map_len (put_all ms (table z)) - map_len (table z), z') \<and>
     map_len (table z) \<le> map_len (put_all ms (table z)) \<and> invar z' \<and> table z' = put_all ms (table z)"
proof (induction ms arbitrary: z)
  case (Cons m ms)
  then obtain z1 where z1: "add (Member m) (Score m) z = (fmlookup (table z) (Member m) = None, z1)"
    "invar z1" "table z1 = fmupd (Member m) (Score m) (table z)"
    using add [of z "Score m" "Member m"] by auto
  from Cons.IH [OF z1(2)] Cons.prems(2) obtain z2 where
    z2: "add_all add ms z1 = (map_len (put_all ms (table z1)) - map_len (table z1), z2)"
    "map_len (table z1) \<le> map_len (put_all ms (table z1))" "invar z2" "table z2 = put_all ms (table z1)"
    by auto
  with z1 show ?case by (auto simp: put_all_def map_len_upd)
qed (simp add: put_all_def)

lemma remove_all:
  "invar z \<Longrightarrow>
   \<exists>z'. remove_all rem ms z = (map_len (table z) - map_len (fold fmdrop ms (table z)), z') \<and>
     map_len (fold fmdrop ms (table z)) \<le> map_len (table z) \<and> invar z' \<and> table z' = fold fmdrop ms (table z)"
proof (induction ms arbitrary: z)
  case (Cons m ms)
  then obtain z1 where z1: "rem m z = (has (table z) m, z1)" "invar z1" "table z1 = fmdrop m (table z)"
    using rem [of z m] by auto
  from Cons.IH [OF z1(2)] obtain z2 where
    z2: "remove_all rem ms z1 = (map_len (table z1) - map_len (fold fmdrop ms (table z1)), z2)"
    "map_len (fold fmdrop ms (table z1)) \<le> map_len (table z1)" "invar z2" "table z2 = fold fmdrop ms (table z1)"
    by auto
  have pos: "has (table z) m \<Longrightarrow> 0 < map_len (table z)"
    by (metis fmempty_lookup map_len_0 neq0_conv)
  with z1 z2 show ?case by (auto simp: map_len_drop)
qed simp

text \<open>Adding the members of a set to an empty one, in any order that keeps them distinct, copies it.\<close>

lemma rebuild: "invar z \<Longrightarrow> snd (add_all add (members z) new) = z"
proof -
  assume z: "invar z"
  have nan: "\<forall>x \<in> set (members z). Score x \<noteq> NaN" using members [OF z] no_nan [OF z] by metis
  from add_all [OF invar_new nan] obtain z' where
    z': "snd (add_all add (members z) new) = z'" "invar z'" "table z' = put_all (members z) fmempty"
    by (auto simp: table_new)
  have "put_all (members z) fmempty = table z"
  proof (rule fmap_ext)
    fix k
    show "fmlookup (put_all (members z) fmempty) k = fmlookup (table z) k"
    proof (cases "fmlookup (table z) k")
      case None
      then have "k \<notin> Member ` set (members z)" using members [OF z] by auto
      with None show ?thesis by (simp add: put_all_other)
    next
      case (Some s)
      then have "\<lparr>Member = k, Score = s\<rparr> \<in> set (members z)" using members [OF z] by simp
      from put_all_distinct [OF members_inj [OF z] this] Some show ?thesis by simp
    qed
  qed
  then have "z' = z" using canonical [OF z'(2) z] z'(3) by simp
  with z'(1) show ?thesis by simp
qed

end

interpretation zs: sorted_set_spec NewSortedSet SortedSet_Add SortedSet_Remove SortedSet_Members scores zset_wf
proof (unfold_locales, goal_cases)
  case (3 z s m)
  then show ?case by (rule SortedSet_Add)
next
  case (4 z m)
  then show ?case by (rule SortedSet_Remove)
next
  case (5 y z)
  then show ?case by (rule zset_wf_unique)
next
  case (6 z x)
  then show ?case by (simp add: SortedSet_Members_def wf_member)
next
  case (7 z)
  have "inj_on Member (set (ordered z))" using wf_inj [OF 7] by (auto intro: inj_onI)
  then show ?case
    using 7 zs_ok_distinct by (auto simp: SortedSet_Members_def distinct_map zset_wf_iff)
next
  case (8 z m)
  then show ?case using wf_score by blast
qed (simp_all add: NewSortedSet_def [symmetric], simp add: NewSortedSet_def)


section \<open>Every run of the sorted set is a run of a score table\<close>

text \<open>The members of a score table in the order of \<open>(score, member)\<close>.\<close>

definition entries :: "float64 gomap \<Rightarrow> (float64 \<times> string) set" where
  "entries m = (\<lambda>k. (the (fmlookup m k), k)) ` fmdom' m"

definition ranking :: "float64 gomap \<Rightarrow> ZMember list" where
  "ranking m = map (\<lambda>(s, k). \<lparr>Member = k, Score = s\<rparr>) (sorted_list_of_set (entries m))"

lemma in_entries: "(s, k) \<in> entries m \<longleftrightarrow> fmlookup m k = Some s"
  unfolding entries_def by (force simp: fmlookup_dom'_iff)

lemma ordered_ranking: "zset_wf z \<Longrightarrow> ordered z = ranking (scores z)"
proof -
  assume wf: "zset_wf z"
  have "set (map zkey (ordered z)) = entries (scores z)"
  proof (intro set_eqI iffI; clarify)
    fix s k assume "(s, k) \<in> set (map zkey (ordered z))"
    then show "(s, k) \<in> entries (scores z)" by (auto simp: zkey_def in_entries wf_member [OF wf])
  next
    fix s k assume "(s, k) \<in> entries (scores z)"
    then have "\<lparr>Member = k, Score = s\<rparr> \<in> set (ordered z)" by (simp add: in_entries wf_member [OF wf])
    then show "(s, k) \<in> set (map zkey (ordered z))" by (force simp: zkey_def)
  qed
  moreover have "sorted_wrt (<) (map zkey (ordered z))" using wf by (simp add: zset_wf_def)
  ultimately have "sorted_list_of_set (entries (scores z)) = map zkey (ordered z)"
    by (metis sorted_list_of_set.idem_if_sorted_distinct strict_sorted_iff)
  then show ?thesis by (simp add: ranking_def zkey_def comp_def map_idI)
qed

datatype zset_op =
    ZAdd string float64 | ZRem string | ZScore string | ZRank string | ZCard
  | ZRange int int | ZRevRange int int | ZRangeByScore float64 float64 int int
  | ZCount float64 float64 | ZPopMin int | ZPopMax int

datatype zset_out = ZBool bool | ZScoreOut "float64 option" | ZRankOut "nat option" | ZNum nat | ZMembers "ZMember list"

text \<open>Operations without NaN: with a NaN score or bound the code's order is no order.\<close>

fun zset_op_ok :: "zset_op \<Rightarrow> bool" where
  "zset_op_ok (ZAdd m s) \<longleftrightarrow> s \<noteq> NaN"
| "zset_op_ok (ZRangeByScore lo hi off cnt) \<longleftrightarrow> lo \<noteq> NaN \<and> hi \<noteq> NaN"
| "zset_op_ok (ZCount lo hi) \<longleftrightarrow> lo \<noteq> NaN \<and> hi \<noteq> NaN"
| "zset_op_ok _ \<longleftrightarrow> True"

fun zset_step :: "zset_op \<Rightarrow> SortedSet \<Rightarrow> zset_out \<times> SortedSet" where
  "zset_step (ZAdd m s) z = (case SortedSet_Add m s z of (b, z) \<Rightarrow> (ZBool b, z))"
| "zset_step (ZRem m) z = (case SortedSet_Remove m z of (b, z) \<Rightarrow> (ZBool b, z))"
| "zset_step (ZScore m) z = (ZScoreOut (SortedSet_Score m z), z)"
| "zset_step (ZRank m) z = (ZRankOut (SortedSet_Rank m z), z)"
| "zset_step ZCard z = (ZNum (SortedSet_Len z), z)"
| "zset_step (ZRange a b) z = (ZMembers (SortedSet_Range a b z), z)"
| "zset_step (ZRevRange a b) z = (ZMembers (SortedSet_RevRange a b z), z)"
| "zset_step (ZRangeByScore lo hi off cnt) z = (ZMembers (SortedSet_RangeByScore lo hi off cnt z), z)"
| "zset_step (ZCount lo hi) z = (ZNum (SortedSet_CountByScore lo hi z), z)"
| "zset_step (ZPopMin n) z = (case SortedSet_PopMin n z of (ms, z) \<Rightarrow> (ZMembers ms, z))"
| "zset_step (ZPopMax n) z = (case SortedSet_PopMax n z of (ms, z) \<Rightarrow> (ZMembers ms, z))"

fun table_step :: "zset_op \<Rightarrow> float64 gomap \<Rightarrow> zset_out \<times> float64 gomap" where
  "table_step (ZAdd m s) t = (ZBool (fmlookup t m = None), fmupd m s t)"
| "table_step (ZRem m) t = (ZBool (has t m), fmdrop m t)"
| "table_step (ZScore m) t = (ZScoreOut (fmlookup t m), t)"
| "table_step (ZRank m) t =
     (ZRankOut (case fmlookup t m of None \<Rightarrow> None
                | Some s \<Rightarrow> Some (length (filter (\<lambda>x. zkey x < (s, m)) (ranking t)))), t)"
| "table_step ZCard t = (ZNum (map_len t), t)"
| "table_step (ZRange a b) t = (ZMembers (list_range a b (ranking t)), t)"
| "table_step (ZRevRange a b) t = (ZMembers (list_range a b (rev (ranking t))), t)"
| "table_step (ZRangeByScore lo hi off cnt) t =
     (ZMembers (limit off cnt (filter (\<lambda>m. lo \<le> Score m \<and> Score m \<le> hi) (ranking t))), t)"
| "table_step (ZCount lo hi) t =
     (ZNum (length (filter (\<lambda>m. lo \<le> Score m \<and> Score m \<le> hi) (ranking t))), t)"
| "table_step (ZPopMin n) t =
     (let ms = take (nat (max 1 n)) (ranking t) in (ZMembers ms, drop_scores ms t))"
| "table_step (ZPopMax n) t =
     (let ms = take (nat (max 1 n)) (rev (ranking t)) in (ZMembers ms, drop_scores ms t))"

lemma SortedSet_Range_list: "SortedSet_Range a b z = list_range a b (ordered z)"
proof (cases "normalizeRange a b (int (length (ordered z)))")
  case (Some p)
  then obtain x y where p: "normalizeRange a b (int (length (ordered z))) = Some (x, y)" by (cases p) simp
  have "nat (y + 1) - nat x = nat (y - x + 1)" using normalizeRange_bounds [OF p] by linarith
  then show ?thesis by (simp add: SortedSet_Range_def list_range_def p)
qed (simp add: SortedSet_Range_def list_range_def)

lemma SortedSet_RevRange_list: "SortedSet_RevRange a b z = list_range a b (rev (ordered z))"
  unfolding SortedSet_RevRange list_range_def by simp

lemma zset_step_sim:
  assumes wf: "zset_wf z" and ok: "zset_op_ok opn"
  shows "zset_wf (snd (zset_step opn z)) \<and> map_prod id scores (zset_step opn z) = table_step opn (scores z)"
proof (cases opn)
  case (ZAdd m s)
  then show ?thesis using wf ok SortedSet_Add [OF wf, of s m] by auto
next
  case (ZRem m)
  then show ?thesis using SortedSet_Remove [OF wf, of m] by auto
next
  case (ZPopMin n)
  obtain ms z' where p: "SortedSet_PopMin n z = (ms, z')" by (cases "SortedSet_PopMin n z")
  note q = SortedSet_PopMin [OF wf p]
  show ?thesis unfolding ZPopMin zset_step.simps table_step.simps p ordered_ranking [OF wf, symmetric] Let_def q(1) [symmetric]
    using q(3,4) by simp
next
  case (ZPopMax n)
  obtain ms z' where p: "SortedSet_PopMax n z = (ms, z')" by (cases "SortedSet_PopMax n z")
  note q = SortedSet_PopMax [OF wf p]
  show ?thesis unfolding ZPopMax zset_step.simps table_step.simps p ordered_ranking [OF wf, symmetric] Let_def q(1) [symmetric]
    using q(3,4) by simp
qed (use ok in \<open>auto simp: wf SortedSet_Score_def SortedSet_Len_def SortedSet_Rank SortedSet_Range_list SortedSet_RevRange_list
    SortedSet_RangeByScore SortedSet_CountByScore ordered_ranking [OF wf, symmetric] split: option.split\<close>)

interpretation zset_sim: guarded_simulation zset_step table_step "\<lambda>z t. zset_wf z \<and> scores z = t" zset_op_ok
proof (unfold_locales, goal_cases)
  case (1 z t opn)
  then show ?case using zset_step_sim [of z opn] by (metis fst_map_prod id_apply)
next
  case (2 z t opn)
  then show ?case using zset_step_sim [of z opn] by (metis snd_map_prod)
qed

text \<open>C2: The sorted set is a score table.  Whatever sequence of additions, removals, rank and range
  queries, counts and pops, with scores and score bounds that are not NaN, is run on a new sorted set, its outputs
  are those of the same sequence on a plain table from members to scores, whose ranking is computed by sorting: the
  binary searches of \<open>findPos\<close>, \<open>RangeByScore\<close> and \<open>CountByScore\<close> and the in-place edits of the ordered slice are
  exact.  (What a NaN score does to a set is \<open>zrem_nan_stays\<close> in \<open>Vole_ZSets\<close>.)\<close>

theorem sorted_set_runs_as_table:
  assumes "\<forall>opn \<in> set opns. zset_op_ok opn"
  shows "fst (run_ops zset_step opns NewSortedSet) = fst (run_ops table_step opns fmempty)"
  by (rule zset_sim.guarded_run [OF _ assms]) (simp add: NewSortedSet_def [symmetric] zs.table_new)

theorem sorted_set_runs_as_table_witness:
  "fst (run_ops zset_step [ZAdd ''a'' (Fin 2), ZAdd ''b'' PInf, ZAdd ''a'' (Fin 3), ZRem ''b'', ZScore ''a'', ZCard] NewSortedSet) =
     [ZBool True, ZBool True, ZBool False, ZBool True, ZScoreOut (Some (Fin 3)), ZNum 1]"
proof (subst sorted_set_runs_as_table)
  show "\<forall>opn \<in> set [ZAdd ''a'' (Fin 2), ZAdd ''b'' PInf, ZAdd ''a'' (Fin 3), ZRem ''b'', ZScore ''a'', ZCard]. zset_op_ok opn"
    by simp
  show "fst (run_ops table_step [ZAdd ''a'' (Fin 2), ZAdd ''b'' PInf, ZAdd ''a'' (Fin 3), ZRem ''b'', ZScore ''a'', ZCard] fmempty) =
     [ZBool True, ZBool True, ZBool False, ZBool True, ZScoreOut (Some (Fin 3)), ZNum 1]"
    by (simp add: map_len_upd map_len_drop)
qed

end
