(* ===== verification/Vole_TimeSeries.thy ===== *)
theory Vole_TimeSeries
  imports Vole_Float
begin

text \<open>
  The time series of \<^verbatim>\<open>internal/store/timeseries.go\<close>: samples kept sorted by timestamp, insertion and
  range queries by binary search, and downsampling into buckets.  The bucket loop adds to an
  \<open>int64\<close>, so it is written with the wrap-around of the machine and as a partial function: the loop
  returns whenever the bounds stay clear of the top of the range, and does not return for some that
  do not.
\<close>

section \<open>State and operations\<close>

record TSSample =
  Timestamp :: int
  Value :: float64

record TimeSeries =
  Samples :: "TSSample list"
  Labels :: "string gomap"

definition NewTimeSeries :: TimeSeries where
  "NewTimeSeries = \<lparr>Samples = [], Labels = fmempty\<rparr>"

definition ts_search :: "int \<Rightarrow> TSSample list \<Rightarrow> nat" where
  "ts_search timestamp samples = sort_Search (length samples) (\<lambda>i. timestamp \<le> Timestamp (samples ! i))"

definition TimeSeries_Add :: "int \<Rightarrow> float64 \<Rightarrow> TimeSeries \<Rightarrow> TimeSeries" where
  "TimeSeries_Add timestamp value ts =
     (let samples = Samples ts; idx = ts_search timestamp samples in
      if idx < length samples \<and> Timestamp (samples ! idx) = timestamp
      then ts\<lparr>Samples := samples[idx := (samples ! idx)\<lparr>Value := value\<rparr>]\<rparr>
      else ts\<lparr>Samples := take idx samples @ \<lparr>Timestamp = timestamp, Value = value\<rparr> # drop idx samples\<rparr>)"

fun range_loop :: "int \<Rightarrow> int \<Rightarrow> TSSample list \<Rightarrow> TSSample list \<Rightarrow> TSSample list" where
  "range_loop to cnt results [] = results"
| "range_loop to cnt results (x # xs) =
     (if to < Timestamp x then results
      else let results = results @ [x]
           in if 0 < cnt \<and> cnt \<le> int (length results) then results
              else range_loop to cnt results xs)"

definition TimeSeries_Range :: "int \<Rightarrow> int \<Rightarrow> int \<Rightarrow> TimeSeries \<Rightarrow> TSSample list" where
  "TimeSeries_Range from to cnt ts =
     range_loop to cnt [] (drop (ts_search from (Samples ts)) (Samples ts))"

definition TimeSeries_Last :: "TimeSeries \<Rightarrow> TSSample option" where
  "TimeSeries_Last ts = (if Samples ts = [] then None else Some (last (Samples ts)))"

definition TimeSeries_Len :: "TimeSeries \<Rightarrow> nat" where
  "TimeSeries_Len ts = length (Samples ts)"

text \<open>The switch on \<open>aggType\<close>, over the samples of one bucket (never empty there).\<close>

definition f64_sum :: "TSSample list \<Rightarrow> float64" where
  "f64_sum samples = fold (\<lambda>s val. f64_add val (Value s)) samples (Fin 0)"

definition aggregate :: "string \<Rightarrow> TSSample list \<Rightarrow> float64" where
  "aggregate aggType samples =
     (if aggType = ''avg'' then f64_div_nat (f64_sum samples) (length samples)
      else if aggType = ''sum'' then f64_sum samples
      else if aggType = ''min'' then fold (\<lambda>s val. if f64_lt (Value s) val then Value s else val) samples PInf
      else if aggType = ''max'' then fold (\<lambda>s val. if f64_lt val (Value s) then Value s else val) samples NInf
      else if aggType = ''count'' then round64 (of_nat (length samples))
      else if aggType = ''first'' then Value (hd samples)
      else if aggType = ''last'' then Value (last samples)
      else Value (hd samples))"

partial_function (option) downsample_loop ::
  "TimeSeries \<Rightarrow> int \<Rightarrow> int \<Rightarrow> string \<Rightarrow> int \<Rightarrow> TSSample list \<Rightarrow> TSSample list option" where
  "downsample_loop ts to bucketSize aggType bucketStart results =
     (if bucketStart < to
      then let bucketEnd = wrap64 (bucketStart + bucketSize);
               samples = TimeSeries_Range bucketStart (wrap64 (bucketEnd - 1)) 0 ts;
               results = (if samples \<noteq> []
                          then results @ [\<lparr>Timestamp = bucketStart, Value = aggregate aggType samples\<rparr>]
                          else results)
           in downsample_loop ts to bucketSize aggType bucketEnd results
      else Some results)"

definition TimeSeries_Downsample :: "int \<Rightarrow> int \<Rightarrow> int \<Rightarrow> string \<Rightarrow> TimeSeries \<Rightarrow> TSSample list option" where
  "TimeSeries_Downsample from to bucketSize aggType ts =
     (if bucketSize \<le> 0 \<or> Samples ts = [] then Some []
      else downsample_loop ts to bucketSize aggType from [])"

section \<open>Sorted samples\<close>

definition ts_wf :: "TimeSeries \<Rightarrow> bool" where
  "ts_wf ts \<longleftrightarrow> sorted_wrt (<) (map Timestamp (Samples ts))"

text \<open>The value recorded at a timestamp: the abstract content of the series.\<close>

definition ts_at :: "TimeSeries \<Rightarrow> int \<rightharpoonup> float64" where
  "ts_at ts = map_of (map (\<lambda>s. (Timestamp s, Value s)) (Samples ts))"

lemma TSSample_eta: "\<lparr>Timestamp = Timestamp x, Value = Value x\<rparr> = x"
  by (cases x) simp

lemma ts_search_split:
  assumes "sorted_wrt (<) (map Timestamp xs)"
  obtains ys zs where "xs = ys @ zs" "ts_search t xs = length ys"
    "\<forall>y \<in> set ys. Timestamp y < t" "\<forall>z \<in> set zs. t \<le> Timestamp z"
proof -
  define ys zs where "ys = takeWhile (\<lambda>x. Timestamp x < t) xs" and "zs = dropWhile (\<lambda>x. Timestamp x < t) xs"
  have xs: "xs = ys @ zs" by (simp add: ys_def zs_def)
  have ys: "\<forall>y \<in> set ys. Timestamp y < t" by (auto simp: ys_def dest: set_takeWhileD)
  have zs: "\<forall>z \<in> set zs. t \<le> Timestamp z"
  proof (cases zs)
    case (Cons a as)
    then have "t \<le> Timestamp a" by (metis hd_dropWhile list.distinct(1) list.sel(1) not_less zs_def)
    moreover have "\<forall>b \<in> set as. Timestamp a < Timestamp b"
      using assms by (simp add: xs Cons sorted_wrt_append)
    ultimately show ?thesis using Cons by auto
  qed simp
  have "ts_search t xs = length ys"
    unfolding ts_search_def by (rule sort_Search_split [OF xs]) (use ys zs in auto)
  with that xs ys zs show thesis by blast
qed

lemma TimeSeries_Add:
  assumes "ts_wf ts"
  shows "ts_wf (TimeSeries_Add t v ts)" "ts_at (TimeSeries_Add t v ts) = (ts_at ts)(t \<mapsto> v)"
proof -
  from assms have "sorted_wrt (<) (map Timestamp (Samples ts))" by (simp add: ts_wf_def)
  then obtain ys zs where s: "Samples ts = ys @ zs" "ts_search t (Samples ts) = length ys"
    and ys: "\<forall>y \<in> set ys. Timestamp y < t" and zs: "\<forall>z \<in> set zs. t \<le> Timestamp z"
    by (rule ts_search_split)
  have none: "map_of (map (\<lambda>s. (Timestamp s, Value s)) ys) t = None"
    using ys by (auto simp: map_of_eq_None_iff)
  have wf: "sorted_wrt (<) (map Timestamp (ys @ zs))" using assms by (simp add: ts_wf_def s)
  have "ts_wf (TimeSeries_Add t v ts) \<and> ts_at (TimeSeries_Add t v ts) = (ts_at ts)(t \<mapsto> v)"
  proof (cases "zs \<noteq> [] \<and> Timestamp (hd zs) = t")
    case True
    then obtain z zs' where z: "zs = z # zs'" "Timestamp z = t" by (cases zs) auto
    have "TimeSeries_Add t v ts = ts\<lparr>Samples := ys @ z\<lparr>Value := v\<rparr> # zs'\<rparr>"
      unfolding TimeSeries_Add_def Let_def s(2) using z by (simp add: s(1))
    then show ?thesis using wf z none by (auto simp: ts_wf_def ts_at_def s map_add_def fun_eq_iff split: option.splits)
  next
    case False
    have gt: "\<forall>z \<in> set zs. t < Timestamp z"
    proof (cases zs)
      case (Cons z zs')
      then have "t < Timestamp z" using False zs by auto
      then show ?thesis using wf Cons by (auto simp: sorted_wrt_append)
    qed simp
    have "TimeSeries_Add t v ts = ts\<lparr>Samples := ys @ \<lparr>Timestamp = t, Value = v\<rparr> # zs\<rparr>"
      unfolding TimeSeries_Add_def Let_def s(2) using False by (cases zs) (auto simp: s(1))
    then show ?thesis
      using wf ys gt none by (auto simp: ts_wf_def ts_at_def s sorted_wrt_append map_add_def fun_eq_iff split: option.splits)
  qed
  then show "ts_wf (TimeSeries_Add t v ts)" "ts_at (TimeSeries_Add t v ts) = (ts_at ts)(t \<mapsto> v)" by auto
qed


section \<open>Range queries\<close>

lemma range_loop:
  "(0 < cnt \<longrightarrow> int (length results) < cnt) \<Longrightarrow>
   range_loop to cnt results xs =
     results @ (if 0 < cnt then take (nat cnt - length results) (takeWhile (\<lambda>x. Timestamp x \<le> to) xs)
                else takeWhile (\<lambda>x. Timestamp x \<le> to) xs)"
proof (induction xs arbitrary: results)
  case (Cons x xs)
  show ?case
  proof (cases "to < Timestamp x")
    case False
    show ?thesis
    proof (cases "0 < cnt \<and> cnt \<le> int (length (results @ [x]))")
      case True
      then have "nat cnt - length results = Suc 0" using Cons.prems by (auto simp: nat_eq_iff)
      with False True show ?thesis by (simp add: Let_def)
    next
      case more: False
      have suc: "nat cnt - length results = Suc (nat cnt - Suc (length results))" if "0 < cnt"
        using Cons.prems that by linarith
      have "range_loop to cnt results (x # xs) = range_loop to cnt (results @ [x]) xs"
        using False more by (auto simp: Let_def)
      also have "\<dots> = (results @ [x]) @ (if 0 < cnt then take (nat cnt - length (results @ [x])) (takeWhile (\<lambda>x. Timestamp x \<le> to) xs)
          else takeWhile (\<lambda>x. Timestamp x \<le> to) xs)"
        by (rule Cons.IH) (use more in auto)
      finally show ?thesis using False suc by simp
    qed
  qed simp
qed simp

lemma ts_wf_sorted: "ts_wf ts \<Longrightarrow> sorted (map Timestamp (Samples ts))"
  by (auto simp: ts_wf_def strict_sorted_iff)

lemma drop_ts_search:
  assumes "ts_wf ts"
  shows "drop (ts_search t (Samples ts)) (Samples ts) = filter (\<lambda>x. t \<le> Timestamp x) (Samples ts)"
proof -
  from assms have "sorted_wrt (<) (map Timestamp (Samples ts))" by (simp add: ts_wf_def)
  then obtain ys zs where s: "Samples ts = ys @ zs" "ts_search t (Samples ts) = length ys"
    and "\<forall>y \<in> set ys. Timestamp y < t" "\<forall>z \<in> set zs. t \<le> Timestamp z"
    by (rule ts_search_split)
  then have "filter (\<lambda>x. t \<le> Timestamp x) (ys @ zs) = zs" by (auto simp: filter_empty_conv)
  then show ?thesis unfolding s(2) by (simp add: s(1))
qed

lemma TimeSeries_Range:
  assumes "ts_wf ts"
  shows "TimeSeries_Range from to cnt ts =
    limit 0 cnt (filter (\<lambda>x. from \<le> Timestamp x \<and> Timestamp x \<le> to) (Samples ts))"
proof -
  have "takeWhile (\<lambda>x. Timestamp x \<le> to) (filter (\<lambda>x. from \<le> Timestamp x) (Samples ts)) =
      filter (\<lambda>x. Timestamp x \<le> to) (filter (\<lambda>x. from \<le> Timestamp x) (Samples ts))"
    by (rule takeWhile_sorted_filter) (simp add: sorted_filter ts_wf_sorted [OF assms])
  then show ?thesis
    unfolding TimeSeries_Range_def drop_ts_search [OF assms] by (simp add: range_loop limit_def conj_commute)
qed

section \<open>Downsampling\<close>

text \<open>The starts of the buckets, and the samples of the bucket that starts at \<open>t\<close>.\<close>

definition starts :: "int \<Rightarrow> int \<Rightarrow> int \<Rightarrow> int list" where
  "starts from to b = map (\<lambda>k. from + int k * b) [0..<nat ((to - from + b - 1) div b)]"

definition bucket :: "TimeSeries \<Rightarrow> int \<Rightarrow> int \<Rightarrow> TSSample list" where
  "bucket ts b t = filter (\<lambda>x. t \<le> Timestamp x \<and> Timestamp x < t + b) (Samples ts)"

definition summaries :: "TimeSeries \<Rightarrow> int \<Rightarrow> string \<Rightarrow> int list \<Rightarrow> TSSample list" where
  "summaries ts b aggType ks =
     map (\<lambda>t. \<lparr>Timestamp = t, Value = aggregate aggType (bucket ts b t)\<rparr>) (filter (\<lambda>t. bucket ts b t \<noteq> []) ks)"

lemma starts_Nil: "0 < b \<Longrightarrow> to \<le> from \<Longrightarrow> starts from to b = []"
proof -
  assume b: "0 < b" and "to \<le> from"
  then have "(to - from + b - 1) div b \<le> (b - 1) div b" by (intro zdiv_mono1) auto
  also have "\<dots> = 0" using b by (intro div_pos_pos_trivial) auto
  finally show ?thesis by (simp add: starts_def)
qed

lemma starts_Cons:
  assumes "0 < b" "from < to"
  shows "starts from to b = from # starts (from + b) to b"
proof -
  let ?n = "(to - (from + b) + b - 1) div b"
  have e: "to - from + b - 1 = (to - (from + b) + b - 1) + b" by simp
  have "(to - from + b - 1) div b = ?n + 1" using assms(1) unfolding e by (subst div_add_self2) auto
  moreover have "0 \<le> ?n" using assms by (intro pos_imp_zdiv_nonneg_iff [THEN iffD2]) auto
  ultimately have n: "nat ((to - from + b - 1) div b) = Suc (nat ?n)" by simp
  show ?thesis unfolding starts_def n by (simp add: map_upt_Suc algebra_simps del: upt_Suc)
qed

lemma downsample_loop:
  assumes wf: "ts_wf ts" and b: "0 < b" and top: "to + b \<le> 2 ^ 63" and "int64 from"
  shows "downsample_loop ts to b aggType from results = Some (results @ summaries ts b aggType (starts from to b))"
  using assms(4)
proof (induction "nat (to - from)" arbitrary: "from" results rule: less_induct)
  case less
  show ?case
  proof (cases "from < to")
    case True
    have i: "int64 (from + b)" "int64 (from + b - 1)" using less.prems True b top by (auto simp: int64_def)
    have r: "TimeSeries_Range from (from + b - 1) 0 ts = bucket ts b from"
      by (simp add: TimeSeries_Range [OF wf] bucket_def)
    have "downsample_loop ts to b aggType from results =
        downsample_loop ts to b aggType (from + b)
          (results @ summaries ts b aggType [from])"
      using True by (subst downsample_loop.simps) (simp add: wrap64_id i r Let_def summaries_def)
    also have "\<dots> = Some ((results @ summaries ts b aggType [from]) @ summaries ts b aggType (starts (from + b) to b))"
      by (rule less.hyps [OF _ i(1)]) (use True b in auto)
    finally show ?thesis by (simp add: starts_Cons [OF b True] summaries_def)
  next
    case False
    then show ?thesis by (subst downsample_loop.simps) (simp add: starts_Nil [OF b] summaries_def)
  qed
qed


lemma filter_adjacent:
  assumes "sorted_wrt (<) (map Timestamp xs)" "a \<le> m" "m \<le> c"
  shows "filter (\<lambda>x. a \<le> Timestamp x \<and> Timestamp x < m) xs @ filter (\<lambda>x. m \<le> Timestamp x \<and> Timestamp x < c) xs =
    filter (\<lambda>x. a \<le> Timestamp x \<and> Timestamp x < c) xs"
  using assms(1)
proof (induction xs)
  case (Cons x xs)
  have "filter (\<lambda>y. a \<le> Timestamp y \<and> Timestamp y < m) xs = []" if "m \<le> Timestamp x"
    using Cons.prems that by (auto simp: filter_empty_conv)
  with Cons assms(2,3) show ?case by (cases "Timestamp x < m") auto
qed simp

text \<open>The buckets are a partition of the samples they span: no sample is lost or counted twice.\<close>

lemma concat_buckets:
  assumes wf: "ts_wf ts" and b: "0 < b"
  shows "concat (map (\<lambda>k. bucket ts b (from + int k * b)) [0..<n]) =
    filter (\<lambda>x. from \<le> Timestamp x \<and> Timestamp x < from + int n * b) (Samples ts)"
proof (induction n)
  case (Suc n)
  define m where "m = from + int n * b"
  have e: "from + int (Suc n) * b = m + b" by (simp add: m_def algebra_simps)
  have "from \<le> m" "m \<le> m + b" using b by (simp_all add: m_def)
  then show ?case
    using Suc filter_adjacent [of "Samples ts" "from" m "m + b"] wf
    unfolding e by (simp add: bucket_def ts_wf_def m_def [symmetric])
qed (simp add: filter_empty_conv)

text \<open>Adding a sample records exactly that sample: the value at its timestamp becomes the new one
  (an existing sample is updated, never duplicated), all other timestamps keep theirs, and the samples
  stay strictly sorted.\<close>

theorem timeseries_add:
  assumes "ts_wf ts"
  shows "ts_wf (TimeSeries_Add t v ts) \<and> ts_at (TimeSeries_Add t v ts) = (ts_at ts)(t \<mapsto> v)"
  using TimeSeries_Add [OF assms] by simp

definition ex_series :: TimeSeries where
  "ex_series = TimeSeries_Add 5 (Fin 1) (TimeSeries_Add 20 (Fin 4) (TimeSeries_Add 12 (Fin 3) (TimeSeries_Add 10 (Fin 2) NewTimeSeries)))"

lemma ex_series_wf: "ts_wf ex_series"
  unfolding ex_series_def by (intro TimeSeries_Add(1)) (simp add: ts_wf_def NewTimeSeries_def)

theorem timeseries_add_witness:
  "ts_wf ex_series \<and> ts_at (TimeSeries_Add 12 (Fin 9) ex_series) 12 = Some (Fin 9)"
  using timeseries_add [OF ex_series_wf, of 12 "Fin 9"] ex_series_wf by simp

text \<open>C24: Downsampling returns, and its result has one entry per non-empty bucket
  \<open>[from + k * bucketSize, from + (k + 1) * bucketSize)\<close> that starts before \<open>to\<close>, in order, labelled with
  the start of the bucket and holding the aggregate of exactly the samples in it, as long as
  \<open>to + bucketSize\<close> does not leave the range of \<open>int64\<close>.\<close>

theorem downsample_buckets:
  assumes "ts_wf ts" "0 < b" "to + b \<le> 2 ^ 63" "int64 from"
  shows "TimeSeries_Downsample from to b aggType ts = Some (summaries ts b aggType (starts from to b))"
proof (cases "Samples ts = []")
  case True
  then have "bucket ts b t = []" for t by (simp add: bucket_def)
  then show ?thesis using True by (simp add: TimeSeries_Downsample_def summaries_def)
qed (use assms in \<open>simp add: TimeSeries_Downsample_def downsample_loop\<close>)

theorem downsample_buckets_witness:
  "ts_wf ex_series \<and> (0::int) < 10 \<and> (30::int) + 10 \<le> 2 ^ 63 \<and> int64 0 \<and>
   TimeSeries_Downsample 0 30 10 ''max'' ex_series = Some (summaries ex_series 10 ''max'' (starts 0 30 10))"
  using downsample_buckets [OF ex_series_wf, of 10 30 0 "''max''"] ex_series_wf by (simp add: int64_def)

section \<open>When the bucket loop returns\<close>

text \<open>The start of the bucket moves by \<open>bucketSize\<close> in \<open>int64\<close> arithmetic.\<close>

lemma wrap64_even: "even (wrap64 x) \<longleftrightarrow> even x"
proof -
  have "(x + 2 ^ 63) mod 2 ^ 64 mod 2 = (x + 2 ^ 63) mod (2 :: int)" by (rule mod_mod_cancel) simp
  then have "even ((x + 2 ^ 63) mod 2 ^ 64) \<longleftrightarrow> even (x + (2 ^ 63 :: int))" by (simp only: even_iff_mod_2_eq_zero)
  then show ?thesis by (simp add: wrap64_def)
qed

lemma next_start: "wrap64 (wrap64 (s + b) + int k * b) = wrap64 (s + int (Suc k) * b)"
  unfolding wrap64_add by (simp add: algebra_simps)

lemma downsample_loop_reaches:
  assumes "downsample_loop ts to b aggType s results = Some out" "int64 s"
  shows "\<exists>k. to \<le> wrap64 (s + int k * b)"
proof (rule downsample_loop.raw_induct [OF _ assms(1), of "\<lambda>_ to b _ s _ _. int64 s \<longrightarrow> (\<exists>k. to \<le> wrap64 (s + int k * b))",
      THEN mp, OF _ assms(2)], intro impI)
  fix loop ts to b aggType s results out
  assume IH: "\<And>ts to b aggType s results out. loop ts to b aggType s results = Some out \<Longrightarrow>
      int64 s \<longrightarrow> (\<exists>k. to \<le> wrap64 (s + int k * b))"
    and out: "(if s < to
      then let e = wrap64 (s + b); samples = TimeSeries_Range s (wrap64 (e - 1)) 0 ts;
               results = (if samples \<noteq> [] then results @ [\<lparr>Timestamp = s, Value = aggregate aggType samples\<rparr>] else results)
           in loop ts to b aggType e results
      else Some results) = Some out"
    and s: "int64 s"
  show "\<exists>k. to \<le> wrap64 (s + int k * b)"
  proof (cases "s < to")
    case True
    with out obtain results' where "loop ts to b aggType (wrap64 (s + b)) results' = Some out" by (auto simp: Let_def)
    from IH [OF this] obtain k where "to \<le> wrap64 (wrap64 (s + b) + int k * b)" by auto
    then show ?thesis unfolding next_start by blast
  qed (use s in \<open>intro exI [of _ 0]; simp add: wrap64_id\<close>)
qed

lemma downsample_loop_returns:
  assumes "to \<le> wrap64 (s + int k * b)" "int64 s"
  shows "\<exists>out. downsample_loop ts to b aggType s results = Some out"
  using assms
proof (induction k arbitrary: s results)
  case 0
  then show ?case by (subst downsample_loop.simps) (simp add: wrap64_id)
next
  case (Suc k)
  from Suc.prems(1) have "to \<le> wrap64 (wrap64 (s + b) + int k * b)" unfolding next_start .
  then show ?case by (subst downsample_loop.simps) (auto simp: Let_def intro!: Suc.IH)
qed

text \<open>C25: The bucket loop of \<open>Downsample\<close> on a non-empty series returns exactly when some bucket start
  \<open>from + k * bucketSize\<close>, computed in \<open>int64\<close> arithmetic, is at or above \<open>to\<close>.  When \<open>to\<close> is so near \<open>MaxInt64\<close> that the
  start wraps around without meeting that condition, the loop never ends: the witness has one sample, \<open>from = 0\<close>,
  \<open>to = MaxInt64\<close> and \<open>bucketSize = 2\<^sup>6\<^sup>2\<close>.\<close>

theorem downsample_returns_iff:
  assumes "int64 from" "0 < bucketSize" "Samples ts \<noteq> []"
  shows "(\<exists>out. TimeSeries_Downsample from to bucketSize aggType ts = Some out) \<longleftrightarrow>
    (\<exists>k. to \<le> wrap64 (from + int k * bucketSize))"
  using assms downsample_loop_reaches downsample_loop_returns by (fastforce simp: TimeSeries_Downsample_def)

theorem downsample_returns_iff_witness:
  "int64 0 \<and> (0::int) < 2 ^ 62 \<and> Samples (TimeSeries_Add 5 (Fin 1) NewTimeSeries) \<noteq> [] \<and>
   TimeSeries_Downsample 0 maxInt64 (2 ^ 62) ''avg'' (TimeSeries_Add 5 (Fin 1) NewTimeSeries) = None"
proof -
  have ne: "Samples (TimeSeries_Add 5 (Fin 1) NewTimeSeries) \<noteq> []"
    by (simp add: TimeSeries_Add_def NewTimeSeries_def Let_def)
  have "wrap64 (0 + int k * 2 ^ 62) < maxInt64" for k
  proof -
    have "even (wrap64 (0 + int k * 2 ^ 62))" by (simp add: wrap64_even)
    then have "wrap64 (0 + int k * 2 ^ 62) \<noteq> maxInt64" by (auto simp: maxInt64_def)
    moreover have "wrap64 (0 + int k * 2 ^ 62) \<le> maxInt64"
      using int64_wrap64 [of "0 + int k * 2 ^ 62"] by (simp add: int64_def maxInt64_def)
    ultimately show ?thesis by simp
  qed
  then have "\<not> (\<exists>k. maxInt64 \<le> wrap64 (0 + int k * 2 ^ 62))" by (simp add: not_le)
  with downsample_returns_iff [of 0 "2 ^ 62" "TimeSeries_Add 5 (Fin 1) NewTimeSeries" maxInt64 "''avg''"] ne
  have "\<not> (\<exists>out. TimeSeries_Downsample 0 maxInt64 (2 ^ 62) ''avg'' (TimeSeries_Add 5 (Fin 1) NewTimeSeries) = Some out)"
    by (simp add: int64_def)
  with ne show ?thesis by (simp add: int64_def)
qed

end
