(* ===== verification/Vole_HyperLogLog.thy ===== *)
theory Vole_HyperLogLog
  imports Vole_Prelude
begin

text \<open>
  The cardinality sketch of \<^verbatim>\<open>internal/store/hyperloglog.go\<close> on 64-bit words: hashing, the leading-zero
  count, adding an element, merging and loading registers.  The registers of a sketch depend only on
  the set of elements added, and merging two sketches gives the sketch of the union.  The estimate
  computed by \<open>Count\<close> (powers, logarithm and rounding of floats) is not modelled.
\<close>

unbundle bit_operations_syntax

section \<open>Operations\<close>

definition mix64 :: "64 word \<Rightarrow> 64 word" where
  "mix64 x =
     (let x = x XOR drop_bit 30 x;
          x = x * 0xbf58476d1ce4e5b9;
          x = x XOR drop_bit 27 x;
          x = x * 0x94d049bb133111eb;
          x = x XOR drop_bit 31 x
      in x)"

text \<open>\<open>fnv.New64a\<close>, \<open>Write\<close> and \<open>Sum64\<close> of the Go library.\<close>

definition fnv64a :: "string \<Rightarrow> 64 word" where
  "fnv64a bs = fold (\<lambda>b h. (h XOR of_char b) * 1099511628211) bs 14695981039346656037"

definition hllPrecision :: nat where
  "hllPrecision = 14"

definition hllRegisters :: nat where
  "hllRegisters = 2 ^ hllPrecision"

text \<open>One test of \<open>clz64\<close>: if the bits of \<open>mask\<close> are clear, count \<open>k\<close> zeros and shift them out.\<close>

definition clz_step :: "64 word \<Rightarrow> nat \<Rightarrow> 8 word \<times> 64 word \<Rightarrow> 8 word \<times> 64 word" where
  "clz_step m k = (\<lambda>(n, x). if x AND m = 0 then (n + of_nat k, push_bit k x) else (n, x))"

definition clz64 :: "64 word \<Rightarrow> 8 word" where
  "clz64 x =
     (if x = 0 then 64
      else let p = (0, x);
               p = clz_step 0xFFFFFFFF00000000 32 p;
               p = clz_step 0xFFFF000000000000 16 p;
               p = clz_step 0xFF00000000000000 8 p;
               p = clz_step 0xF000000000000000 4 p;
               p = clz_step 0xC000000000000000 2 p
           in if snd p AND 0x8000000000000000 = 0 then fst p + 1 else fst p)"

record HyperLogLog =
  registers :: "8 word list"

definition NewHyperLogLog :: HyperLogLog where
  "NewHyperLogLog = \<lparr>registers = replicate hllRegisters 0\<rparr>"

text \<open>The register and the rank of an element.\<close>

definition hll_idx :: "64 word \<Rightarrow> nat" where
  "hll_idx x = unat (drop_bit (64 - hllPrecision) x)"

definition hll_rho :: "64 word \<Rightarrow> 8 word" where
  "hll_rho x = clz64 (push_bit hllPrecision x OR push_bit (hllPrecision - 1) 1) + 1"

definition HyperLogLog_Add :: "string \<Rightarrow> HyperLogLog \<Rightarrow> bool \<times> HyperLogLog" where
  "HyperLogLog_Add element h =
     (let x = mix64 (fnv64a element); idx = hll_idx x; rho = hll_rho x in
      if registers h ! idx < rho then (True, h\<lparr>registers := (registers h)[idx := rho]\<rparr>)
      else (False, h))"

definition HyperLogLog_Registers :: "HyperLogLog \<Rightarrow> 8 word list" where
  "HyperLogLog_Registers h = registers h"

text \<open>\<open>copy(h.registers[:], regs)\<close> copies as many registers as both sides have.\<close>

definition HyperLogLog_LoadRegisters :: "8 word list \<Rightarrow> HyperLogLog \<Rightarrow> HyperLogLog" where
  "HyperLogLog_LoadRegisters regs h =
     h\<lparr>registers := take (length (registers h)) regs @ drop (length regs) (registers h)\<rparr>"

definition merge_step :: "HyperLogLog \<Rightarrow> nat \<Rightarrow> bool \<times> HyperLogLog \<Rightarrow> bool \<times> HyperLogLog" where
  "merge_step other i = (\<lambda>(changed, h).
     if registers h ! i < registers other ! i
     then (True, h\<lparr>registers := (registers h)[i := registers other ! i]\<rparr>) else (changed, h))"

definition HyperLogLog_Merge :: "HyperLogLog \<Rightarrow> HyperLogLog \<Rightarrow> bool \<times> HyperLogLog" where
  "HyperLogLog_Merge other h = fold (merge_step other) [0..<length (registers h)] (False, h)"

definition hll_wf :: "HyperLogLog \<Rightarrow> bool" where
  "hll_wf h \<longleftrightarrow> length (registers h) = hllRegisters"

section \<open>Counting leading zeros\<close>

lemma and_high_mask:
  fixes x :: "64 word"
  assumes "k \<le> 64"
  shows "x AND push_bit k (- 1) = 0 \<longleftrightarrow> unat x < 2 ^ k"
proof -
  have "x AND push_bit k (- 1) = push_bit k (drop_bit k x)"
    by (rule bit_eqI) (auto simp: bit_simps)
  moreover have "push_bit k (drop_bit k x) = 0 \<longleftrightarrow> drop_bit k x = 0"
  proof
    assume "push_bit k (drop_bit k x) = 0"
    then have "drop_bit k (push_bit k (drop_bit k x)) = 0" by simp
    moreover have "drop_bit k (push_bit k (drop_bit k x)) = drop_bit k x"
      by (rule bit_eqI) (auto simp: bit_simps dest: bit_imp_le_length)
    ultimately show "drop_bit k x = 0" by simp
  qed simp
  moreover have "drop_bit k x = 0 \<longleftrightarrow> unat (drop_bit k x) = 0" by (simp add: unat_eq_zero)
  moreover have "unat (drop_bit k x) = unat x div 2 ^ k"
    using unat_drop_bit_eq [of k x] drop_bit_eq_div [of k "unat x"] by simp
  ultimately show ?thesis by (simp add: div_eq_0_iff)
qed

lemma unat_less_64: "unat (x :: 64 word) < 2 ^ 64"
  using unsigned_less [where ?'a = nat and ?'b = 64, of x] by simp

lemma unat_push_bit:
  fixes x :: "64 word"
  assumes "unat x * 2 ^ k < 2 ^ 64"
  shows "unat (push_bit k x) = unat x * 2 ^ k"
proof -
  have e: "push_bit k x = of_nat (unat x * 2 ^ k)" by (simp add: push_bit_eq_mult)
  show ?thesis unfolding e unat_of_nat using assms by simp
qed


definition clz_inv :: "64 word \<Rightarrow> nat \<Rightarrow> 8 word \<times> 64 word \<Rightarrow> bool" where
  "clz_inv x m p \<longleftrightarrow> unat (snd p) = unat x * 2 ^ unat (fst p) \<and> 2 ^ m \<le> unat (snd p) \<and> unat (fst p) \<le> m"

lemma clz_step:
  assumes inv: "clz_inv x (64 - 2 * k) p" and k: "1 \<le> k" "k \<le> 32" and m: "m = push_bit (64 - k) (- 1)"
  shows "clz_inv x (64 - k) (clz_step m k p)"
proof -
  obtain n y where p: "p = (n, y)" by (cases p)
  have y: "unat y = unat x * 2 ^ unat n" "2 ^ (64 - 2 * k) \<le> unat y" "unat n \<le> 64 - 2 * k"
    using inv by (auto simp: clz_inv_def p)
  have test: "y AND m = 0 \<longleftrightarrow> unat y < 2 ^ (64 - k)" unfolding m by (rule and_high_mask) simp
  show ?thesis
  proof (cases "unat y < 2 ^ (64 - k)")
    case True
    have e: "(64 - k) + k = 64" "(64 - 2 * k) + k = 64 - k" using k by auto
    have "unat y * 2 ^ k < 2 ^ (64 - k) * 2 ^ k" using True by simp
    also have "\<dots> = 2 ^ 64" by (metis e(1) power_add)
    finally have push: "unat (push_bit k y) = unat y * 2 ^ k" by (rule unat_push_bit)
    have n: "unat (n + of_nat k) = unat n + k"
      using y(3) k by (simp add: unat_word_ariths unat_of_nat)
    have "2 ^ (64 - 2 * k) * 2 ^ k \<le> unat y * 2 ^ k" using y(2) by simp
    then have "2 ^ (64 - k) \<le> unat y * 2 ^ k" by (metis e(2) power_add)
    then show ?thesis using True test k y by (simp add: clz_step_def clz_inv_def p push n power_add)
  next
    case False
    then show ?thesis using test y k by (simp add: clz_step_def clz_inv_def p)
  qed
qed

lemma clz_masks:
  "push_bit 32 (- 1) = (0xFFFFFFFF00000000 :: 64 word)"
  "push_bit 48 (- 1) = (0xFFFF000000000000 :: 64 word)"
  "push_bit 56 (- 1) = (0xFF00000000000000 :: 64 word)"
  "push_bit 60 (- 1) = (0xF000000000000000 :: 64 word)"
  "push_bit 62 (- 1) = (0xC000000000000000 :: 64 word)"
  "push_bit 63 (- 1) = (0x8000000000000000 :: 64 word)"
  by (simp_all add: push_bit_eq_mult del: push_bit_minus_one)

lemma clz64_bounds:
  assumes "x \<noteq> 0"
  shows "2 ^ 63 \<le> unat x * 2 ^ unat (clz64 x) \<and> unat x * 2 ^ unat (clz64 x) < 2 ^ 64"
proof -
  define p1 where "p1 = clz_step 0xFFFFFFFF00000000 32 (0, x)"
  define p2 where "p2 = clz_step 0xFFFF000000000000 16 p1"
  define p3 where "p3 = clz_step 0xFF00000000000000 8 p2"
  define p4 where "p4 = clz_step 0xF000000000000000 4 p3"
  define p5 where "p5 = clz_step 0xC000000000000000 2 p4"
  have "0 < unat x" using assms by (simp add: unat_gt_0)
  then have "clz_inv x (64 - 2 * 32) (0, x)" by (simp add: clz_inv_def)
  then have "clz_inv x 32 p1" using clz_step [of x 32 "(0, x)"] clz_masks by (simp add: p1_def)
  then have "clz_inv x 48 p2" using clz_step [of x 16 "p1"] clz_masks by (simp add: p2_def)
  then have "clz_inv x 56 p3" using clz_step [of x 8 "p2"] clz_masks by (simp add: p3_def)
  then have "clz_inv x 60 p4" using clz_step [of x 4 "p3"] clz_masks by (simp add: p4_def)
  then have "clz_inv x 62 p5" using clz_step [of x 2 "p4"] clz_masks by (simp add: p5_def)
  then have "clz_inv x 63 (clz_step 0x8000000000000000 1 p5)" using clz_step [of x 1 p5] clz_masks by simp
  moreover have "clz64 x = (if snd p5 AND 0x8000000000000000 = 0 then fst p5 + 1 else fst p5)"
    unfolding clz64_def Let_def p5_def p4_def p3_def p2_def p1_def using assms by (simp only: if_False)
  then have "clz64 x = fst (clz_step 0x8000000000000000 1 p5)" by (simp add: clz_step_def split_def)
  ultimately show ?thesis
    using unat_less_64 [of "snd (clz_step 0x8000000000000000 1 p5)"] by (simp add: clz_inv_def)
qed


section \<open>Registers are maxima\<close>

definition elt_idx :: "string \<Rightarrow> nat" where
  "elt_idx e = hll_idx (mix64 (fnv64a e))"

definition elt_rho :: "string \<Rightarrow> 8 word" where
  "elt_rho e = hll_rho (mix64 (fnv64a e))"

lemma elt_idx_less: "elt_idx e < hllRegisters"
proof -
  define x where "x = mix64 (fnv64a e)"
  have "unat x < 2 ^ 64" using unat_less_64 [of x] by simp
  then have "unat x div 2 ^ 50 < 2 ^ 14" by (intro less_mult_imp_div_less) simp
  moreover have "unat (drop_bit 50 x) = unat x div 2 ^ 50"
    using unat_drop_bit_eq [of 50 x] drop_bit_eq_div [of 50 "unat x"] by simp
  ultimately show ?thesis by (simp add: elt_idx_def hll_idx_def hllRegisters_def hllPrecision_def x_def)
qed

lemma HyperLogLog_Add:
  "HyperLogLog_Add e h =
     (registers h ! elt_idx e < elt_rho e,
      h\<lparr>registers := (registers h)[elt_idx e := max (registers h ! elt_idx e) (elt_rho e)]\<rparr>)"
  by (simp add: HyperLogLog_Add_def Let_def elt_idx_def elt_rho_def max_def)

definition add_elts :: "string list \<Rightarrow> HyperLogLog \<Rightarrow> HyperLogLog" where
  "add_elts es h = fold (\<lambda>e h. snd (HyperLogLog_Add e h)) es h"

lemma add_elts_wf: "hll_wf h \<Longrightarrow> hll_wf (add_elts es h)"
  unfolding add_elts_def by (induction es arbitrary: h) (simp_all add: HyperLogLog_Add hll_wf_def)

lemma Max_insert_max:
  fixes a :: "'a::linorder"
  assumes "finite S"
  shows "Max (insert (max a b) S) = Max (insert a (insert b S))"
  using assms by (cases "S = {}") (simp_all add: max.assoc)

lemma register_add_elts:
  "hll_wf h \<Longrightarrow> i < hllRegisters \<Longrightarrow>
   registers (add_elts es h) ! i = Max (insert (registers h ! i) (elt_rho ` {e \<in> set es. elt_idx e = i}))"
proof (induction es arbitrary: h)
  case Nil
  then show ?case by (simp add: add_elts_def)
next
  case (Cons e es)
  define h' where "h' = snd (HyperLogLog_Add e h)"
  have wf: "hll_wf h'" using Cons.prems by (simp add: h'_def hll_wf_def HyperLogLog_Add)
  have r: "registers h' ! i = (if elt_idx e = i then max (registers h ! i) (elt_rho e) else registers h ! i)"
    using Cons.prems by (auto simp: h'_def HyperLogLog_Add hll_wf_def nth_list_update)
  have "add_elts (e # es) h = add_elts es h'" by (simp add: add_elts_def h'_def)
  then have "registers (add_elts (e # es) h) ! i =
      Max (insert (registers h' ! i) (elt_rho ` {e \<in> set es. elt_idx e = i}))"
    using Cons.IH [OF wf Cons.prems(2)] by simp
  also have "\<dots> = Max (insert (registers h ! i) (elt_rho ` {e' \<in> set (e # es). elt_idx e' = i}))"
  proof (cases "elt_idx e = i")
    case True
    then have "{e' \<in> set (e # es). elt_idx e' = i} = insert e {e \<in> set es. elt_idx e = i}" by auto
    with True r show ?thesis by (simp add: Max_insert_max)
  next
    case False
    then have "{e' \<in> set (e # es). elt_idx e' = i} = {e \<in> set es. elt_idx e = i}" by auto
    with False r show ?thesis by simp
  qed
  finally show ?case .
qed


section \<open>Merging\<close>

lemma fold_merge_step:
  "n \<le> length (registers h) \<Longrightarrow>
   fold (merge_step other) [0..<n] (c, h) =
     (c \<or> (\<exists>i < n. registers h ! i < registers other ! i),
      h\<lparr>registers := map (\<lambda>i. max (registers h ! i) (registers other ! i)) [0..<n] @ drop n (registers h)\<rparr>)"
proof (induction n)
  case (Suc n)
  define as where "as = map (\<lambda>i. max (registers h ! i) (registers other ! i)) [0..<n]"
  have d: "drop n (registers h) = registers h ! n # drop (Suc n) (registers h)"
    using Suc.prems by (simp add: Cons_nth_drop_Suc)
  have as: "length as = n" by (simp add: as_def)
  have nth: "(as @ drop n (registers h)) ! n = registers h ! n"
    and upd: "(as @ drop n (registers h))[n := v] = as @ v # drop (Suc n) (registers h)" for v
    by (simp_all add: d nth_append list_update_append as)
  have "fold (merge_step other) [0..<Suc n] (c, h) =
      merge_step other n (c \<or> (\<exists>i < n. registers h ! i < registers other ! i), h\<lparr>registers := as @ drop n (registers h)\<rparr>)"
    using Suc by (simp add: as_def)
  also have "\<dots> = (c \<or> (\<exists>i < Suc n. registers h ! i < registers other ! i),
      h\<lparr>registers := as @ max (registers h ! n) (registers other ! n) # drop (Suc n) (registers h)\<rparr>)"
    by (auto simp: merge_step_def nth [unfolded d] upd [unfolded d] less_Suc_eq max_def d)
  finally show ?case by (simp add: as_def)
qed simp

lemma HyperLogLog_Merge:
  "HyperLogLog_Merge other h =
     (\<exists>i < length (registers h). registers h ! i < registers other ! i,
      h\<lparr>registers := map (\<lambda>i. max (registers h ! i) (registers other ! i)) [0..<length (registers h)]\<rparr>)"
  unfolding HyperLogLog_Merge_def by (simp add: fold_merge_step)

text \<open>The leading-zero count of \<open>clz64\<close> is right: shifting a non-zero word left by it brings the
  highest set bit to position 63 and loses nothing.\<close>

theorem clz64_counts:
  assumes "x \<noteq> 0"
  shows "2 ^ 63 \<le> unat x * 2 ^ unat (clz64 x) \<and> unat x * 2 ^ unat (clz64 x) < 2 ^ 64"
  by (rule clz64_bounds [OF assms])

theorem clz64_counts_witness: "(0x1000 :: 64 word) \<noteq> 0 \<and> clz64 0x1000 = 51 \<and> unat (0x1000 :: 64 word) * 2 ^ 51 < 2 ^ 64"
proof -
  have "clz64 0x1000 = 51" by code_simp
  with clz64_counts [of "0x1000"] show ?thesis by simp
qed

text \<open>Merging is union.  Merging the sketch of the elements \<open>ys\<close> into the sketch of the elements \<open>xs\<close>
  gives exactly the sketch of any list with the elements of both, in any order and with any
  repetitions: a sketch depends only on the set of elements, and \<open>PFMERGE\<close> loses nothing.\<close>

theorem hll_merge_union:
  assumes "set zs = set xs \<union> set ys"
  shows "snd (HyperLogLog_Merge (add_elts ys NewHyperLogLog) (add_elts xs NewHyperLogLog)) = add_elts zs NewHyperLogLog"
proof -
  have new: "hll_wf NewHyperLogLog" by (simp add: hll_wf_def NewHyperLogLog_def)
  have len: "length (registers (add_elts es NewHyperLogLog)) = hllRegisters" for es
    using add_elts_wf [OF new] by (simp add: hll_wf_def)
  have reg: "registers (add_elts es NewHyperLogLog) ! i = Max (insert 0 (elt_rho ` {e \<in> set es. elt_idx e = i}))"
    if "i < hllRegisters" for es i
    using register_add_elts [OF new that] that by (simp add: NewHyperLogLog_def)
  have "registers (snd (HyperLogLog_Merge (add_elts ys NewHyperLogLog) (add_elts xs NewHyperLogLog))) =
      registers (add_elts zs NewHyperLogLog)" (is "?l = ?r")
  proof (rule nth_equalityI)
    show "length ?l = length ?r" by (simp add: HyperLogLog_Merge len)
    fix i assume "i < length ?l"
    then have i: "i < hllRegisters" by (simp add: HyperLogLog_Merge len)
    have u: "insert 0 (elt_rho ` {e \<in> set zs. elt_idx e = i}) =
        insert 0 (elt_rho ` {e \<in> set xs. elt_idx e = i}) \<union> insert 0 (elt_rho ` {e \<in> set ys. elt_idx e = i})"
      using assms by auto
    show "?l ! i = ?r ! i" using i by (simp add: HyperLogLog_Merge len reg u Max_Un del: Un_insert_left Un_insert_right Max_insert)
  qed
  then show ?thesis by simp
qed

theorem hll_merge_union_witness:
  "set [''b'', ''a'', ''a''] = set [''a''] \<union> set [''b''] \<and>
   snd (HyperLogLog_Merge (add_elts [''b''] NewHyperLogLog) (add_elts [''a''] NewHyperLogLog)) =
     add_elts [''b'', ''a'', ''a''] NewHyperLogLog"
  using hll_merge_union [of "[''b'', ''a'', ''a'']" "[''a'']" "[''b'']"] by simp

end
