(* ===== verification/Vole_Strconv.thy ===== *)
theory Vole_Strconv
  imports Vole_Prelude
begin

text \<open>
  Decimal integers as Go's \<open>strconv\<close> package reads and prints them, and the ASCII case mapping of
  \<open>strings.ToUpper\<close> and \<open>strings.ToLower\<close>.  \<open>ParseInt s\<close> is \<open>strconv.ParseInt(s, 10, 64)\<close>: it
  returns a value and an error, and the value is meaningful on a range error too (the nearest
  bound), which stream identifiers rely on.
\<close>

section \<open>Digits\<close>

definition digit_char :: "nat \<Rightarrow> char" where
  "digit_char d = char_of (48 + d)"

definition is_digit :: "char \<Rightarrow> bool" where
  "is_digit c \<longleftrightarrow> 48 \<le> (of_char c :: nat) \<and> (of_char c :: nat) \<le> 57"

definition digit_val :: "char \<Rightarrow> nat" where
  "digit_val c = of_char c - 48"

fun format_nat :: "nat \<Rightarrow> string" where
  "format_nat n = (if n < 10 then [digit_char n] else format_nat (n div 10) @ [digit_char (n mod 10)])"

declare format_nat.simps [simp del]

definition FormatInt :: "int \<Rightarrow> string" where
  "FormatInt n = (if n < 0 then CHR ''-'' # format_nat (nat (- n)) else format_nat (nat n))"

section \<open>Parsing\<close>

datatype num_error = ErrSyntax | ErrRange

definition maxUint64 :: nat where
  "maxUint64 = 2 ^ 64 - 1"

text \<open>
  The loop of \<open>strconv.ParseUint\<close> in base 10: it stops with a range error at the first digit that
  no longer fits, before it looks at the rest of the string.
\<close>

fun ParseUint_loop :: "nat \<Rightarrow> string \<Rightarrow> nat \<times> num_error option" where
  "ParseUint_loop n [] = (n, None)"
| "ParseUint_loop n (c # cs) =
     (if \<not> is_digit c then (0, Some ErrSyntax)
      else if maxUint64 div 10 + 1 \<le> n then (maxUint64, Some ErrRange)
      else if maxUint64 < n * 10 + digit_val c then (maxUint64, Some ErrRange)
      else ParseUint_loop (n * 10 + digit_val c) cs)"

definition ParseUint :: "string \<Rightarrow> nat \<times> num_error option" where
  "ParseUint s = (if s = [] then (0, Some ErrSyntax) else ParseUint_loop 0 s)"

definition ParseInt :: "string \<Rightarrow> int \<times> num_error option" where
  "ParseInt s =
     (if s = [] then (0, Some ErrSyntax)
      else
        let neg = (hd s = CHR ''-'');
            rest = (if hd s = CHR ''+'' \<or> hd s = CHR ''-'' then tl s else s)
        in case ParseUint rest of
             (un, Some ErrSyntax) \<Rightarrow> (0, Some ErrSyntax)
           | (un, err) \<Rightarrow>
               (if \<not> neg \<and> 2 ^ 63 \<le> un then (2 ^ 63 - 1, Some ErrRange)
                else if neg \<and> 2 ^ 63 < un then (- (2 ^ 63), Some ErrRange)
                else (if neg then - int un else int un, None)))"

abbreviation Atoi :: "string \<Rightarrow> int \<times> num_error option" where
  "Atoi \<equiv> ParseInt"

section \<open>Letter case\<close>

definition upper_char :: "char \<Rightarrow> char" where
  "upper_char c = (let n = of_char c :: nat in if 97 \<le> n \<and> n \<le> 122 then char_of (n - 32) else c)"

definition lower_char :: "char \<Rightarrow> char" where
  "lower_char c = (let n = of_char c :: nat in if 65 \<le> n \<and> n \<le> 90 then char_of (n + 32) else c)"

definition ToUpper :: "string \<Rightarrow> string" where
  "ToUpper = map upper_char"

definition ToLower :: "string \<Rightarrow> string" where
  "ToLower = map lower_char"

section \<open>Round trip\<close>

lemma is_digit_digit_char: "d < 10 \<Longrightarrow> is_digit (digit_char d)"
  by (simp add: is_digit_def digit_char_def)

lemma digit_val_digit_char: "d < 10 \<Longrightarrow> digit_val (digit_char d) = d"
  by (simp add: digit_val_def digit_char_def)

lemma format_nat_ne [simp]: "format_nat n \<noteq> []"
  by (subst format_nat.simps) simp

lemma format_nat_digits: "c \<in> set (format_nat n) \<Longrightarrow> is_digit c"
proof (induction n rule: format_nat.induct)
  case (1 n)
  then show ?case
    by (cases "n < 10") (auto simp: format_nat.simps [of n] is_digit_digit_char)
qed

lemma digit_not_sign: "is_digit c \<Longrightarrow> c \<noteq> CHR ''-'' \<and> c \<noteq> CHR ''+''"
  by (auto simp: is_digit_def)

text \<open>Parsing a printed number in front of a continuation reads the number off.\<close>

lemma ParseUint_loop_append:
  "ParseUint_loop n xs = (m, None) \<Longrightarrow> ParseUint_loop n (xs @ ys) = ParseUint_loop m ys"
  by (induction xs arbitrary: n) (auto split: if_splits)

lemma ParseUint_loop_format: "n \<le> maxUint64 \<Longrightarrow> ParseUint_loop 0 (format_nat n) = (n, None)"
proof (induction n rule: format_nat.induct)
  case (1 n)
  show ?case
  proof (cases "n < 10")
    case True
    then show ?thesis
      using 1 by (simp add: format_nat.simps [of n] is_digit_digit_char digit_val_digit_char maxUint64_def)
  next
    case False
    have le: "n div 10 \<le> maxUint64 div 10" using 1 by (simp add: div_le_mono)
    have "ParseUint_loop 0 (format_nat (n div 10)) = (n div 10, None)"
      using 1 False le by (meson div_le_dividend le_trans)
    then show ?thesis
      using False 1 le ParseUint_loop_append [of 0 "format_nat (n div 10)" "n div 10" "[digit_char (n mod 10)]"]
      by (simp add: format_nat.simps [of n] is_digit_digit_char digit_val_digit_char)
  qed
qed

lemma format_nat_value: "foldl (\<lambda>a c. 10 * a + digit_val c) 0 (format_nat n) = n"
proof (induction n rule: format_nat.induct)
  case (1 n)
  then show ?case by (simp add: format_nat.simps [of n] digit_val_digit_char)
qed

lemma format_nat_inject [simp]: "format_nat a = format_nat b \<longleftrightarrow> a = b"
  by (metis format_nat_value)

lemma format_nat_no_dash [simp]: "CHR ''-'' \<notin> set (format_nat n)"
  using format_nat_digits digit_not_sign by blast

lemma ParseInt_FormatInt: "int64 n \<Longrightarrow> ParseInt (FormatInt n) = (n, None)"
proof -
  assume n: "int64 n"
  obtain c cs where fc: "format_nat (nat \<bar>n\<bar>) = c # cs"
    by (meson format_nat_ne list.exhaust)
  then have c: "c \<noteq> CHR ''-''" "c \<noteq> CHR ''+''"
    using format_nat_digits [of c "nat \<bar>n\<bar>"] digit_not_sign by auto
  have "nat \<bar>n\<bar> \<le> maxUint64" using n by (auto simp: int64_def maxUint64_def)
  then have p: "ParseUint (c # cs) = (nat \<bar>n\<bar>, None)"
    using ParseUint_loop_format [of "nat \<bar>n\<bar>"] fc by (simp add: ParseUint_def)
  show ?thesis
  proof (cases "n < 0")
    case True
    with fc p n show ?thesis by (simp add: FormatInt_def ParseInt_def int64_def)
  next
    case False
    with fc p n c show ?thesis by (simp add: FormatInt_def ParseInt_def int64_def)
  qed
qed

text \<open>A successful parse is always a 64-bit value.\<close>

lemma ParseInt_int64: "ParseInt s = (n, err) \<Longrightarrow> int64 n"
  by (auto simp: ParseInt_def int64_def Let_def split: if_splits prod.splits option.splits num_error.splits)

end
