(* ===== verification/Vole_JSON.thy ===== *)
theory Vole_JSON
  imports Vole_Float Vole_Strconv
begin

text \<open>
  The JSON documents of \<^verbatim>\<open>internal/store/jsonstore.go\<close>: path parsing, navigation, and the operations that
  read and edit a document at a path.  A Go \<open>interface{}\<close> value produced by \<open>json.Unmarshal\<close> is a tree,
  so an edit through a pointer to the parent is an update of the tree along the path.  Parsing and
  printing of JSON text (\<open>json.Unmarshal\<close>, \<open>json.Marshal\<close>) is not modelled.
\<close>

section \<open>Documents and paths\<close>

datatype json =
    JNull
  | JBool bool
  | JNumber float64
  | JString string
  | JArray "json list"
  | JObject "json gomap"

datatype json_error =
    KeyNotFound string | InvalidIndex string | OutOfRange int | CannotNavigate
  | CannotSet | CannotDelete | ParentKind | NotNumber | NotArray | NotObject

type_synonym 'a jres = "json_error + 'a"

text \<open>\<open>string(b)\<close> of a byte in Go is the UTF-8 encoding of the code point \<open>b\<close>: one byte below 128, two
  bytes from 128 on.\<close>

definition string_of_byte :: "char \<Rightarrow> string" where
  "string_of_byte b =
     (let n = of_char b :: nat in
      if n < 128 then [b] else [char_of (192 + n div 64), char_of (128 + n mod 64)])"

definition flush :: "string \<Rightarrow> string list \<Rightarrow> string list" where
  "flush current parts = (if current \<noteq> [] then parts @ [current] else parts)"

fun parsePath_loop :: "string list \<Rightarrow> string \<Rightarrow> string \<Rightarrow> string list" where
  "parsePath_loop parts current [] = flush current parts"
| "parsePath_loop parts current (c # cs) =
     (if c = CHR ''.'' \<or> c = CHR ''['' \<or> c = CHR '']'' then parsePath_loop (flush current parts) [] cs
      else parsePath_loop parts (current @ string_of_byte c) cs)"

definition parsePath :: "string \<Rightarrow> string list" where
  "parsePath path = parsePath_loop [] [] path"

definition trim_path :: "string \<Rightarrow> string \<Rightarrow> string" where
  "trim_path s p = (if take (length p) s = p then drop (length p) s else s)"

definition is_root :: "string \<Rightarrow> bool" where
  "is_root path \<longleftrightarrow> path = ''$'' \<or> path = ''.'' \<or> path = []"

definition path_parts :: "string \<Rightarrow> string list" where
  "path_parts path = parsePath (trim_path (trim_path path ''$.'') ''$'')"

section \<open>Navigation and edits\<close>

text \<open>The index a path component selects in an array of length \<open>n\<close>.  \<open>navigate\<close> counts negative
  indices from the end.\<close>

definition nav_index :: "string \<Rightarrow> nat \<Rightarrow> nat jres" where
  "nav_index part n =
     (case Atoi part of
        (_, Some e) \<Rightarrow> Inl (InvalidIndex part)
      | (idx, None) \<Rightarrow>
          let idx = (if idx < 0 then int n + idx else idx)
          in if idx < 0 \<or> int n \<le> idx then Inl (OutOfRange idx) else Inr (nat idx))"

text \<open>The index rule of \<open>setPath\<close>, which takes no negative indices.\<close>

definition set_index :: "string \<Rightarrow> nat \<Rightarrow> nat jres" where
  "set_index part n =
     (case Atoi part of
        (_, Some e) \<Rightarrow> Inl (InvalidIndex part)
      | (idx, None) \<Rightarrow> if idx < 0 \<or> int n \<le> idx then Inl (OutOfRange idx) else Inr (nat idx))"

definition nav_step :: "string \<Rightarrow> json \<Rightarrow> json jres" where
  "nav_step part current =
     (case current of
        JObject v \<Rightarrow> (case fmlookup v part of None \<Rightarrow> Inl (KeyNotFound part) | Some val \<Rightarrow> Inr val)
      | JArray v \<Rightarrow> (case nav_index part (length v) of Inl e \<Rightarrow> Inl e | Inr i \<Rightarrow> Inr (v ! i))
      | _ \<Rightarrow> Inl CannotNavigate)"

fun navigate :: "json \<Rightarrow> string list \<Rightarrow> json jres" where
  "navigate current [] = Inr current"
| "navigate current (part # parts) =
     (case nav_step part current of Inl e \<Rightarrow> Inl e | Inr val \<Rightarrow> navigate val parts)"

text \<open>The tree with the value that \<open>nav_step part\<close> selects replaced.\<close>

definition replace_step :: "string \<Rightarrow> json \<Rightarrow> json \<Rightarrow> json" where
  "replace_step part current val =
     (case current of
        JObject v \<Rightarrow> JObject (fmupd part val v)
      | JArray v \<Rightarrow> (case nav_index part (length v) of Inl e \<Rightarrow> current | Inr i \<Rightarrow> JArray (v[i := val]))
      | _ \<Rightarrow> current)"

text \<open>Editing the value reached by a path through its pointer.\<close>

fun edit_at :: "json \<Rightarrow> string list \<Rightarrow> (json \<Rightarrow> json jres) \<Rightarrow> json jres" where
  "edit_at current [] f = f current"
| "edit_at current (part # parts) f =
     (case nav_step part current of
        Inl e \<Rightarrow> Inl e
      | Inr val \<Rightarrow> (case edit_at val parts f of Inl e \<Rightarrow> Inl e | Inr val' \<Rightarrow> Inr (replace_step part current val')))"

definition set_child :: "json_error \<Rightarrow> string \<Rightarrow> json \<Rightarrow> json \<Rightarrow> json jres" where
  "set_child kind part value p =
     (case p of
        JObject v \<Rightarrow> Inr (JObject (fmupd part value v))
      | JArray v \<Rightarrow> (case set_index part (length v) of Inl e \<Rightarrow> Inl e | Inr i \<Rightarrow> Inr (JArray (v[i := value])))
      | _ \<Rightarrow> Inl kind)"

definition setPath :: "json \<Rightarrow> string list \<Rightarrow> json \<Rightarrow> json jres" where
  "setPath data parts value =
     (if parts = [] then Inr value
      else if length parts = 1 then set_child CannotSet (hd parts) value data
      else edit_at data (butlast parts) (set_child ParentKind (last parts) value))"

definition del_child :: "json_error \<Rightarrow> string \<Rightarrow> json \<Rightarrow> json jres" where
  "del_child kind part p = (case p of JObject v \<Rightarrow> Inr (JObject (fmdrop part v)) | _ \<Rightarrow> Inl kind)"

definition delPath :: "json \<Rightarrow> string list \<Rightarrow> json jres" where
  "delPath data parts =
     (if parts = [] then Inr JNull
      else if length parts = 1 then del_child CannotDelete (hd parts) data
      else edit_at data (butlast parts) (del_child ParentKind (last parts)))"

section \<open>Operations on documents\<close>

definition JSONDoc_Get :: "string \<Rightarrow> json \<Rightarrow> json jres" where
  "JSONDoc_Get path d = (if is_root path then Inr d else navigate d (path_parts path))"

definition JSONDoc_Set :: "string \<Rightarrow> json \<Rightarrow> json \<Rightarrow> json jres" where
  "JSONDoc_Set path value d = (if is_root path then Inr value else setPath d (path_parts path) value)"

definition JSONDoc_Del :: "string \<Rightarrow> json \<Rightarrow> json jres" where
  "JSONDoc_Del path d = (if is_root path then Inr JNull else delPath d (path_parts path))"

definition JSONDoc_Type :: "string \<Rightarrow> json \<Rightarrow> string" where
  "JSONDoc_Type path d =
     (case JSONDoc_Get path d of
        Inl e \<Rightarrow> ''null''
      | Inr JNull \<Rightarrow> ''null''
      | Inr (JObject v) \<Rightarrow> ''object''
      | Inr (JArray v) \<Rightarrow> ''array''
      | Inr (JString v) \<Rightarrow> ''string''
      | Inr (JNumber v) \<Rightarrow> ''number''
      | Inr (JBool v) \<Rightarrow> ''boolean'')"

definition JSONDoc_Keys :: "string \<Rightarrow> json \<Rightarrow> string list jres" where
  "JSONDoc_Keys path d =
     (case JSONDoc_Get path d of
        Inl e \<Rightarrow> Inl e
      | Inr (JObject obj) \<Rightarrow> Inr (sorted_keys obj)
      | Inr _ \<Rightarrow> Inl NotObject)"

definition JSONDoc_NumIncrBy :: "string \<Rightarrow> float64 \<Rightarrow> json \<Rightarrow> (float64 \<times> json) jres" where
  "JSONDoc_NumIncrBy path delta d =
     (case JSONDoc_Get path d of
        Inl e \<Rightarrow> Inl e
      | Inr (JNumber num) \<Rightarrow>
          let result = f64_add num delta
          in (case JSONDoc_Set path (JNumber result) d of Inl e \<Rightarrow> Inl e | Inr d \<Rightarrow> Inr (result, d))
      | Inr _ \<Rightarrow> Inl NotNumber)"

definition JSONDoc_ArrAppend :: "string \<Rightarrow> json list \<Rightarrow> json \<Rightarrow> (nat \<times> json) jres" where
  "JSONDoc_ArrAppend path values d =
     (case JSONDoc_Get path d of
        Inl e \<Rightarrow> Inl e
      | Inr (JArray arr) \<Rightarrow>
          let arr = arr @ values
          in (case JSONDoc_Set path (JArray arr) d of Inl e \<Rightarrow> Inl e | Inr d \<Rightarrow> Inr (length arr, d))
      | Inr _ \<Rightarrow> Inl NotArray)"

definition JSONDoc_ArrLen :: "string \<Rightarrow> json \<Rightarrow> nat jres" where
  "JSONDoc_ArrLen path d =
     (case JSONDoc_Get path d of
        Inl e \<Rightarrow> Inl e
      | Inr (JArray arr) \<Rightarrow> Inr (length arr)
      | Inr _ \<Rightarrow> Inl NotArray)"


section \<open>What an edit at a path does\<close>

lemma nav_index_less: "nav_index part n = Inr i \<Longrightarrow> i < n"
  by (auto simp: nav_index_def Let_def split: prod.splits option.splits if_splits)

lemma set_index_nav: "set_index part n = Inr i \<Longrightarrow> nav_index part n = Inr i \<and> i < n"
  by (auto simp: nav_index_def set_index_def Let_def split: prod.splits option.splits if_splits)

lemma nav_replace:
  "nav_step part d = Inr v \<Longrightarrow> nav_step part (replace_step part d v') = Inr v'"
  by (auto simp: nav_step_def replace_step_def nav_index_less split: json.splits option.splits sum.splits)

lemma nav_replace_other:
  "d = JObject m \<Longrightarrow> a \<noteq> b \<Longrightarrow> nav_step b (replace_step a d v) = nav_step b d"
  by (simp add: nav_step_def replace_step_def)

lemma navigate_append:
  "navigate d (ps @ qs) = (case navigate d ps of Inl e \<Rightarrow> Inl e | Inr v \<Rightarrow> navigate v qs)"
  by (induction ps arbitrary: d) (simp_all split: sum.splits)

lemma edit_at_append:
  "edit_at d (ps @ qs) f = edit_at d ps (\<lambda>v. edit_at v qs f)"
  by (induction ps arbitrary: d) (simp_all split: sum.splits)

lemma edit_at_iff:
  "edit_at d ps f = Inr d' \<Longrightarrow> \<exists>v v'. navigate d ps = Inr v \<and> f v = Inr v' \<and> navigate d' ps = Inr v'"
proof (induction ps arbitrary: d d')
  case (Cons p ps)
  then obtain v v' where v: "nav_step p d = Inr v" "edit_at v ps f = Inr v'" "d' = replace_step p d v'"
    by (auto split: sum.splits)
  from Cons.IH [OF v(2)] v show ?case by (auto simp: nav_replace)
qed simp

lemma set_child:
  "set_child kind part v p = Inr p' \<Longrightarrow> navigate p' [part] = Inr v"
  by (auto simp: set_child_def nav_step_def dest: set_index_nav split: json.splits sum.splits option.splits)

lemma setPath_edit:
  "setPath d (ps @ [p]) v = edit_at d ps (set_child (if ps = [] then CannotSet else ParentKind) p v)"
  by (simp add: setPath_def)

lemma setPath_get: "setPath d parts v = Inr d' \<Longrightarrow> navigate d' parts = Inr v"
proof (cases parts rule: rev_cases)
  case (snoc ps p)
  assume "setPath d parts v = Inr d'"
  then obtain u u' where "set_child (if ps = [] then CannotSet else ParentKind) p v u = Inr u'" "navigate d' ps = Inr u'"
    using edit_at_iff by (metis setPath_edit snoc)
  then show ?thesis using set_child [of _ p v u u'] by (simp add: snoc navigate_append)
qed (simp add: setPath_def)

text \<open>An edit below a member of an object leaves the other members of that object alone.\<close>

lemma edit_at_other:
  "edit_at d (cs @ a # ps) f = Inr d' \<Longrightarrow> navigate d cs = Inr (JObject m) \<Longrightarrow> a \<noteq> b \<Longrightarrow>
   navigate d' (cs @ b # qs) = navigate d (cs @ b # qs)"
proof (induction cs arbitrary: d d')
  case Nil
  then show ?case by (auto simp: nav_replace_other split: sum.splits)
next
  case (Cons c cs)
  then obtain v v' where v: "nav_step c d = Inr v" "edit_at v (cs @ a # ps) f = Inr v'" "d' = replace_step c d v'"
    by (auto split: sum.splits)
  with Cons.prems(2) have "navigate v cs = Inr (JObject m)" by simp
  with Cons.IH [OF v(2)] Cons.prems(3) v show ?case by (simp add: nav_replace)
qed

text \<open>C26: Reading back what was set: whenever setting a value at a path succeeds, reading the same path
  returns exactly that value, for the root, object members and array elements alike.\<close>

theorem json_set_get:
  assumes "JSONDoc_Set path v d = Inr d'"
  shows "JSONDoc_Get path d' = Inr v"
  using assms setPath_get by (auto simp: JSONDoc_Set_def JSONDoc_Get_def split: if_splits)

definition ex_doc :: json where
  "ex_doc = JObject (fmap_of_list [(''a'', JArray [JNumber (Fin 1), JNull]), (''b'', JString ''x'')])"

definition ex_doc2 :: json where
  "ex_doc2 = JObject (fmap_of_list [(''a'', JArray [JNumber (Fin 1), JBool True]), (''b'', JString ''x'')])"

lemma ex_doc_set: "JSONDoc_Set ''$.a[1]'' (JBool True) ex_doc = Inr ex_doc2"
proof -
  have "path_parts ''$.a[1]'' = [''a'', ''1'']" by code_simp
  moreover have "set_index ''1'' 2 = Inr 1"
    by (simp add: set_index_def ParseInt_def ParseUint_def is_digit_def digit_val_def maxUint64_def)
  moreover have "fmupd ''a'' (JArray [JNumber (Fin 1), JBool True])
     (fmap_of_list [(''a'', JArray [JNumber (Fin 1), JNull]), (''b'', JString ''x'')]) =
     fmap_of_list [(''a'', JArray [JNumber (Fin 1), JBool True]), (''b'', JString ''x'')]"
    by (rule fmap_ext) (auto simp: fmlookup_of_list)
  ultimately show ?thesis
    by (simp add: JSONDoc_Set_def is_root_def ex_doc_def ex_doc2_def setPath_def nav_step_def replace_step_def
        set_child_def fmlookup_of_list numeral_2_eq_2)
qed

theorem json_set_get_witness: "JSONDoc_Get ''$.a[1]'' ex_doc2 = Inr (JBool True)"
  by (rule json_set_get [OF ex_doc_set])


text \<open>C27: Setting a value below one member of an object changes nothing that is read through any other
  member of that object, wherever in the document the object is.\<close>

theorem json_set_frame:
  assumes "setPath d (cs @ a # ps) v = Inr d'" "navigate d cs = Inr (JObject m)" "a \<noteq> b"
  shows "navigate d' (cs @ b # qs) = navigate d (cs @ b # qs)"
proof (cases ps rule: rev_cases)
  case Nil
  with assms(1) obtain k where "edit_at d cs (set_child k a v) = Inr d'" by (auto simp: setPath_edit)
  then obtain u where u: "navigate d cs = Inr u" "\<exists>u'. set_child k a v u = Inr u' \<and> navigate d' cs = Inr u'"
    using edit_at_iff by blast
  with assms(2,3) show ?thesis by (auto simp: navigate_append set_child_def nav_step_def)
next
  case (snoc ps' p)
  then have "\<exists>k. edit_at d (cs @ a # ps') (set_child k p v) = Inr d'"
    using assms(1) setPath_edit [of d "cs @ a # ps'" p v] by auto
  then show ?thesis using edit_at_other assms(2,3) by blast
qed

theorem json_set_frame_witness:
  "navigate ex_doc2 [''b''] = Inr (JString ''x'')"
proof -
  have "path_parts ''$.a[1]'' = [''a'', ''1'']" by code_simp
  then have "setPath ex_doc ([] @ ''a'' # [''1'']) (JBool True) = Inr ex_doc2"
    using ex_doc_set by (simp add: JSONDoc_Set_def is_root_def)
  from json_set_frame [OF this, of _ "''b''" "[]"] show ?thesis
    by (simp add: ex_doc_def nav_step_def fmlookup_of_list)
qed

text \<open>An element that can be read with a negative index cannot be incremented with it: \<open>NumIncrBy\<close> reads
  \<open>[1]\<close> at \<open>$[-1]\<close> and then fails to write it back, because \<open>setPath\<close> does not count from the end.\<close>

theorem json_negative_index:
  "JSONDoc_Get ''$[-1]'' (JArray [JNumber (Fin 1)]) = Inr (JNumber (Fin 1)) \<and>
   JSONDoc_NumIncrBy ''$[-1]'' delta (JArray [JNumber (Fin 1)]) = Inl (OutOfRange (-1))"
proof -
  have pp: "path_parts ''$[-1]'' = [''-1'']" by code_simp
  have a: "Atoi ''-1'' = (-1, None)"
    by (simp add: ParseInt_def ParseUint_def is_digit_def digit_val_def maxUint64_def)
  have g: "JSONDoc_Get ''$[-1]'' (JArray [JNumber (Fin 1)]) = Inr (JNumber (Fin 1))"
    by (simp add: JSONDoc_Get_def is_root_def pp nav_step_def nav_index_def a)
  moreover have "JSONDoc_Set ''$[-1]'' w (JArray [JNumber (Fin 1)]) = Inl (OutOfRange (-1))" for w
    by (simp add: JSONDoc_Set_def is_root_def pp setPath_def set_child_def set_index_def a)
  ultimately show ?thesis by (simp add: JSONDoc_NumIncrBy_def Let_def)
qed

text \<open>A member whose name has a byte outside ASCII cannot be reached by a path: \<open>parsePath\<close> converts the
  bytes of the path one by one with \<open>string(b)\<close>, which encodes them a second time.  The document
  \<open>{"e-acute": 1}\<close> has the member, and the path naming it byte for byte fails.\<close>

theorem json_path_non_ascii:
  "JSONDoc_Get (''$.'' @ [CHR 0xC3, CHR 0xA9]) (JObject (fmupd [CHR 0xC3, CHR 0xA9] (JNumber (Fin 1)) fmempty)) =
     Inl (KeyNotFound [CHR 0xC3, CHR 0x83, CHR 0xC2, CHR 0xA9])"
proof -
  have "path_parts (''$.'' @ [CHR 0xC3, CHR 0xA9]) = [[CHR 0xC3, CHR 0x83, CHR 0xC2, CHR 0xA9]]" by code_simp
  then show ?thesis by (simp add: JSONDoc_Get_def is_root_def nav_step_def)
qed

end
