(* ===== verification/Vole_Store.thy ===== *)
theory Vole_Store
  imports Vole_SortedSet Vole_TimeSeries Vole_HyperLogLog Vole_JSON
begin

text \<open>
  The state of \<^verbatim>\<open>internal/store/store.go\<close> and the functions every operation is built from: touching a key,
  deleting a key, lazy expiry, existence.  An operation holds the store's lock for its whole body, so it
  is a function of the state and of one clock reading \<open>now\<close>, which stands for every \<open>time.Now()\<close> of that
  critical section.  The column of a key is what the store holds under it; \<open>tracked\<close> is the relation
  between the states before and after an operation that \<open>WATCH\<close> relies on.
\<close>

section \<open>The state\<close>

record StreamEntry =
  EntryID :: string
  Fields :: "string list"

record PendingEntry =
  Consumer :: string
  Delivered :: gotime

record ConsumerGroup =
  LastID :: string
  Pending :: "PendingEntry gomap"

record HashPair =
  Field :: string
  FieldValue :: string

record RateLimiter =
  Window :: duration
  MaxRequests :: int
  Requests :: "gotime list"

record QueueMessage =
  MsgID :: string
  Body :: string
  CreatedAt :: gotime
  Retries :: int
  MaxRetry :: int
  AckDeadline :: gotime

record Queue =
  QPending :: "QueueMessage list"
  Processing :: "QueueMessage gomap"
  DeadLetter :: "QueueMessage list"
  AckTimeout :: duration
  MaxRetries :: int

text \<open>A waiter is a pointer, so it has an identity; \<open>left\<close> is the end a list waiter pops from.\<close>

record listWaiter =
  lw_id :: nat
  lw_left :: bool

text \<open>
  The struct \<open>Store\<close>.  A nil entry of a Go map of pointers, maps or slices is an absent key.  Three fields
  stand for what the waiter objects hold: \<open>woken\<close> maps a list waiter whose \<open>once\<close> has fired to the key and
  value sent on its channel, \<open>closed\<close> has the stream and queue waiters whose channel is closed, and \<open>nextWaiter\<close> is
  the identity of the next waiter allocated.  The package variable \<open>queueSeq\<close> is kept with the state.  The
  notification callback is only ever tested against nil, and the closures in its queue are determined by
  their event and key.
\<close>

record store =
  kv :: "string gomap"
  hashes :: "string gomap gomap"
  lists :: "deque gomap"
  sets :: "string fset gomap"
  zsets :: "SortedSet gomap"
  streams :: "StreamEntry list gomap"
  hlls :: "HyperLogLog gomap"
  jsons :: "json gomap"
  timeseries :: "TimeSeries gomap"
  groups :: "ConsumerGroup gomap gomap"
  expires :: "gotime gomap"
  lastSeq :: "int gomap"
  waits :: "nat list gomap"
  listWaits :: "listWaiter list gomap"
  woken :: "(nat, string \<times> string) fmap"
  nextWaiter :: nat
  closed :: "nat fset"
  queueSeq :: nat
  keyVersion :: "nat gomap"
  version :: nat
  rateLimiters :: "RateLimiter gomap"
  queues :: "Queue gomap"
  queueWaits :: "nat list gomap"
  tags :: "string gomap gomap"
  notBefore :: "gotime gomap"
  onChange :: bool
  onChangeQueue :: "(string \<times> string) list"
  maxMemory :: int
  evictPolicy :: string
  accessTime :: "int gomap"
  memEstimate :: int
  opsSinceEstimate :: int

definition Store_New :: store where
  "Store_New =
     \<lparr>kv = fmempty, hashes = fmempty, lists = fmempty, sets = fmempty, zsets = fmempty,
      streams = fmempty, hlls = fmempty, jsons = fmempty, timeseries = fmempty, groups = fmempty,
      expires = fmempty, lastSeq = fmempty, waits = fmempty, listWaits = fmempty, woken = fmempty,
      nextWaiter = 0, closed = {||}, queueSeq = 0, keyVersion = fmempty, version = 0, rateLimiters = fmempty, queues = fmempty,
      queueWaits = fmempty, tags = fmempty, notBefore = fmempty, onChange = False, onChangeQueue = [],
      maxMemory = 0, evictPolicy = '''', accessTime = fmempty, memEstimate = 0, opsSinceEstimate = 0\<rparr>"

section \<open>Touching, deleting and expiring\<close>

definition Store_OnChange :: "store \<Rightarrow> store" where
  "Store_OnChange s = s\<lparr>onChange := True\<rparr>"

text \<open>The non-blocking send on the notification channel of capacity 4096.\<close>

definition send_event :: "string \<Rightarrow> key \<Rightarrow> store \<Rightarrow> store" where
  "send_event event key s =
     (if onChange s \<and> length (onChangeQueue s) < 4096
      then s\<lparr>onChangeQueue := onChangeQueue s @ [(event, key)]\<rparr> else s)"

definition bump_version :: "key list \<Rightarrow> store \<Rightarrow> store" where
  "bump_version keys s =
     (let v = version s + 1
      in s\<lparr>version := v, keyVersion := fold (\<lambda>k. fmupd k v) keys (keyVersion s)\<rparr>)"

definition record_access :: "key list \<Rightarrow> gotime \<Rightarrow> store \<Rightarrow> store" where
  "record_access keys now s =
     (if 0 < maxMemory s then s\<lparr>accessTime := fold (\<lambda>k. fmupd k now) keys (accessTime s)\<rparr> else s)"

definition touchKeyLocked :: "key list \<Rightarrow> gotime \<Rightarrow> store \<Rightarrow> store" where
  "touchKeyLocked keys now s =
     record_access keys now (fold (send_event ''set'') keys (bump_version keys s))"

definition touchKeyLockedNoEvent :: "key list \<Rightarrow> gotime \<Rightarrow> store \<Rightarrow> store" where
  "touchKeyLockedNoEvent keys now s = record_access keys now (bump_version keys s)"

definition deleteKeyLocked :: "key \<Rightarrow> gotime \<Rightarrow> store \<Rightarrow> store" where
  "deleteKeyLocked key now s =
     (let s = s\<lparr>kv := fmdrop key (kv s), hashes := fmdrop key (hashes s), lists := fmdrop key (lists s),
                sets := fmdrop key (sets s), zsets := fmdrop key (zsets s), streams := fmdrop key (streams s),
                hlls := fmdrop key (hlls s), jsons := fmdrop key (jsons s), groups := fmdrop key (groups s),
                lastSeq := fmdrop key (lastSeq s), expires := fmdrop key (expires s),
                rateLimiters := fmdrop key (rateLimiters s), notBefore := fmdrop key (notBefore s),
                tags := fmdrop key (tags s), timeseries := fmdrop key (timeseries s),
                queues := fmdrop key (queues s), accessTime := fmdrop key (accessTime s)\<rparr>
      in touchKeyLockedNoEvent [key] now (send_event ''del'' key s))"

definition isExpiredRLocked :: "key \<Rightarrow> gotime \<Rightarrow> store \<Rightarrow> bool" where
  "isExpiredRLocked key now s =
     (case fmlookup (expires s) key of
        None \<Rightarrow> False
      | Some expireAt \<Rightarrow> if IsZero expireAt \<or> now < expireAt then False else True)"

definition expiredKeyLocked :: "key \<Rightarrow> gotime \<Rightarrow> store \<Rightarrow> bool \<times> store" where
  "expiredKeyLocked key now s =
     (case fmlookup (expires s) key of
        None \<Rightarrow> (False, s)
      | Some expireAt \<Rightarrow>
          if IsZero expireAt \<or> now < expireAt then (False, s) else (True, deleteKeyLocked key now s))"

text \<open>\<open>nb, ok := s.notBefore[key]; ok && now.Before(nb)\<close>: the key is delayed.\<close>

definition delayed :: "key \<Rightarrow> gotime \<Rightarrow> store \<Rightarrow> bool" where
  "delayed key now s = (case fmlookup (notBefore s) key of None \<Rightarrow> False | Some nb \<Rightarrow> now < nb)"

section \<open>Existence and types\<close>

datatype kind = KString | KHash | KList | KSet | KZSet | KStream | KHll | KJson | KTimeSeries

fun holds :: "store \<Rightarrow> key \<Rightarrow> kind \<Rightarrow> bool" where
  "holds s key KString = has (kv s) key"
| "holds s key KHash = has (hashes s) key"
| "holds s key KList = has (lists s) key"
| "holds s key KSet = has (sets s) key"
| "holds s key KZSet = has (zsets s) key"
| "holds s key KStream = has (streams s) key"
| "holds s key KHll = has (hlls s) key"
| "holds s key KJson = has (jsons s) key"
| "holds s key KTimeSeries = has (timeseries s) key"

text \<open>The disjunctions of nil tests, \<open>s.hashes[key] != nil || s.lists[key] != nil || ...\<close>.\<close>

definition anyOf :: "kind list \<Rightarrow> key \<Rightarrow> store \<Rightarrow> bool" where
  "anyOf kinds key s = list_ex (holds s key) kinds"

definition existsStringLocked :: "key \<Rightarrow> gotime \<Rightarrow> store \<Rightarrow> bool \<times> store" where
  "existsStringLocked key now s =
     (case expiredKeyLocked key now s of (e, s) \<Rightarrow> if e then (False, s) else (has (kv s) key, s))"

definition existsLocked :: "key \<Rightarrow> gotime \<Rightarrow> store \<Rightarrow> bool \<times> store" where
  "existsLocked key now s =
     (case expiredKeyLocked key now s of (e, s) \<Rightarrow>
        if e then (False, s)
        else if delayed key now s then (False, s)
        else case existsStringLocked key now s of (b, s) \<Rightarrow>
          (b \<or> anyOf [KHash, KList, KSet, KZSet, KStream, KHll, KJson, KTimeSeries] key s, s))"

definition existsStringRLocked :: "key \<Rightarrow> gotime \<Rightarrow> store \<Rightarrow> bool" where
  "existsStringRLocked key now s =
     (if isExpiredRLocked key now s then False
      else if delayed key now s then False
      else has (kv s) key)"

definition existsRLocked :: "key \<Rightarrow> gotime \<Rightarrow> store \<Rightarrow> bool" where
  "existsRLocked key now s =
     (if isExpiredRLocked key now s then False
      else if delayed key now s then False
      else anyOf [KString, KHash, KList, KSet, KZSet, KStream, KHll, KJson, KTimeSeries] key s)"

definition isVisibleRLocked :: "key \<Rightarrow> gotime \<Rightarrow> store \<Rightarrow> bool" where
  "isVisibleRLocked key now s =
     (if isExpiredRLocked key now s then False else if delayed key now s then False else True)"

text \<open>
  The two shapes of the type check.  Writers call \<open>existsStringLocked\<close>, which may delete an expired key;
  readers call \<open>existsStringRLocked\<close>.  Both go on with the other kinds named in the condition.
\<close>

definition wrongTypeLocked :: "kind list \<Rightarrow> key \<Rightarrow> gotime \<Rightarrow> store \<Rightarrow> bool \<times> store" where
  "wrongTypeLocked kinds key now s =
     (case existsStringLocked key now s of (b, s) \<Rightarrow> (b \<or> anyOf kinds key s, s))"

definition wrongTypeRLocked :: "kind list \<Rightarrow> key \<Rightarrow> gotime \<Rightarrow> store \<Rightarrow> bool" where
  "wrongTypeRLocked kinds key now s \<longleftrightarrow> existsStringRLocked key now s \<or> anyOf kinds key s"

section \<open>Versions\<close>

definition getVersion :: "key \<Rightarrow> store \<Rightarrow> nat" where
  "getVersion key s = (case fmlookup (keyVersion s) key of None \<Rightarrow> 0 | Some v \<Rightarrow> v)"

definition Store_KeyVersions :: "key list \<Rightarrow> store \<Rightarrow> nat gomap" where
  "Store_KeyVersions keys s = fold (\<lambda>key out. fmupd key (getVersion key s) out) keys fmempty"

definition Store_KeysModifiedSince :: "nat gomap \<Rightarrow> store \<Rightarrow> bool" where
  "Store_KeysModifiedSince versions s =
     list_ex (\<lambda>key. getVersion key s \<noteq> the (fmlookup versions key)) (sorted_keys versions)"


section \<open>What the primitives change\<close>

lemma fold_send_event: "\<exists>q. fold (send_event event) keys s = s\<lparr>onChangeQueue := q\<rparr>"
proof (induction keys arbitrary: s)
  case Nil
  show ?case by (rule exI [of _ "onChangeQueue s"]) simp
next
  case (Cons k keys)
  obtain q where q: "send_event event k s = s\<lparr>onChangeQueue := q\<rparr>"
    by (cases "onChange s \<and> length (onChangeQueue s) < 4096")
      (auto simp: send_event_def intro: that [of "onChangeQueue s"] that)
  from Cons [of "send_event event k s"] obtain q' where "fold (send_event event) keys (s\<lparr>onChangeQueue := q\<rparr>) = s\<lparr>onChangeQueue := q'\<rparr>"
    unfolding q by auto
  then show ?case using q by auto
qed

lemma record_access_form: "\<exists>a. record_access keys now s = s\<lparr>accessTime := a\<rparr>"
  by (cases "0 < maxMemory s") (auto simp: record_access_def intro: exI [of _ "accessTime s"])

lemma touch_form:
  "\<exists>q a. touchKeyLocked keys now s =
     s\<lparr>version := Suc (version s), keyVersion := fold (\<lambda>k. fmupd k (Suc (version s))) keys (keyVersion s),
       onChangeQueue := q, accessTime := a\<rparr>"
proof -
  obtain q where "fold (send_event ''set'') keys (bump_version keys s) = bump_version keys s\<lparr>onChangeQueue := q\<rparr>"
    using fold_send_event by blast
  moreover obtain a where "record_access keys now (bump_version keys s\<lparr>onChangeQueue := q\<rparr>) =
      (bump_version keys s\<lparr>onChangeQueue := q\<rparr>)\<lparr>accessTime := a\<rparr>"
    using record_access_form by blast
  ultimately show ?thesis by (auto simp: touchKeyLocked_def bump_version_def Let_def)
qed

lemma touch_no_event_form:
  "\<exists>a. touchKeyLockedNoEvent keys now s =
     s\<lparr>version := Suc (version s), keyVersion := fold (\<lambda>k. fmupd k (Suc (version s))) keys (keyVersion s),
       accessTime := a\<rparr>"
proof -
  obtain a where "record_access keys now (bump_version keys s) = (bump_version keys s)\<lparr>accessTime := a\<rparr>"
    using record_access_form by blast
  then show ?thesis by (auto simp: touchKeyLockedNoEvent_def bump_version_def Let_def)
qed

text \<open>Touching a key changes its version, the notification queue and the access times, nothing else.\<close>

lemma touch_fields [simp]:
  "kv (touchKeyLocked keys now s) = kv s"
  "hashes (touchKeyLocked keys now s) = hashes s"
  "lists (touchKeyLocked keys now s) = lists s"
  "sets (touchKeyLocked keys now s) = sets s"
  "zsets (touchKeyLocked keys now s) = zsets s"
  "streams (touchKeyLocked keys now s) = streams s"
  "hlls (touchKeyLocked keys now s) = hlls s"
  "jsons (touchKeyLocked keys now s) = jsons s"
  "timeseries (touchKeyLocked keys now s) = timeseries s"
  "groups (touchKeyLocked keys now s) = groups s"
  "expires (touchKeyLocked keys now s) = expires s"
  "lastSeq (touchKeyLocked keys now s) = lastSeq s"
  "waits (touchKeyLocked keys now s) = waits s"
  "listWaits (touchKeyLocked keys now s) = listWaits s"
  "woken (touchKeyLocked keys now s) = woken s"
  "nextWaiter (touchKeyLocked keys now s) = nextWaiter s"
  "closed (touchKeyLocked keys now s) = closed s"
  "queueSeq (touchKeyLocked keys now s) = queueSeq s"
  "rateLimiters (touchKeyLocked keys now s) = rateLimiters s"
  "queues (touchKeyLocked keys now s) = queues s"
  "queueWaits (touchKeyLocked keys now s) = queueWaits s"
  "tags (touchKeyLocked keys now s) = tags s"
  "notBefore (touchKeyLocked keys now s) = notBefore s"
  "onChange (touchKeyLocked keys now s) = onChange s"
  "maxMemory (touchKeyLocked keys now s) = maxMemory s"
  "evictPolicy (touchKeyLocked keys now s) = evictPolicy s"
  "memEstimate (touchKeyLocked keys now s) = memEstimate s"
  "opsSinceEstimate (touchKeyLocked keys now s) = opsSinceEstimate s"
  using touch_form [of keys now s] by auto

lemma touch_no_event_fields [simp]:
  "kv (touchKeyLockedNoEvent keys now s) = kv s"
  "hashes (touchKeyLockedNoEvent keys now s) = hashes s"
  "lists (touchKeyLockedNoEvent keys now s) = lists s"
  "sets (touchKeyLockedNoEvent keys now s) = sets s"
  "zsets (touchKeyLockedNoEvent keys now s) = zsets s"
  "streams (touchKeyLockedNoEvent keys now s) = streams s"
  "hlls (touchKeyLockedNoEvent keys now s) = hlls s"
  "jsons (touchKeyLockedNoEvent keys now s) = jsons s"
  "timeseries (touchKeyLockedNoEvent keys now s) = timeseries s"
  "groups (touchKeyLockedNoEvent keys now s) = groups s"
  "expires (touchKeyLockedNoEvent keys now s) = expires s"
  "lastSeq (touchKeyLockedNoEvent keys now s) = lastSeq s"
  "waits (touchKeyLockedNoEvent keys now s) = waits s"
  "listWaits (touchKeyLockedNoEvent keys now s) = listWaits s"
  "woken (touchKeyLockedNoEvent keys now s) = woken s"
  "nextWaiter (touchKeyLockedNoEvent keys now s) = nextWaiter s"
  "closed (touchKeyLockedNoEvent keys now s) = closed s"
  "queueSeq (touchKeyLockedNoEvent keys now s) = queueSeq s"
  "rateLimiters (touchKeyLockedNoEvent keys now s) = rateLimiters s"
  "queues (touchKeyLockedNoEvent keys now s) = queues s"
  "queueWaits (touchKeyLockedNoEvent keys now s) = queueWaits s"
  "tags (touchKeyLockedNoEvent keys now s) = tags s"
  "notBefore (touchKeyLockedNoEvent keys now s) = notBefore s"
  "onChange (touchKeyLockedNoEvent keys now s) = onChange s"
  "maxMemory (touchKeyLockedNoEvent keys now s) = maxMemory s"
  "evictPolicy (touchKeyLockedNoEvent keys now s) = evictPolicy s"
  "memEstimate (touchKeyLockedNoEvent keys now s) = memEstimate s"
  "opsSinceEstimate (touchKeyLockedNoEvent keys now s) = opsSinceEstimate s"
  using touch_no_event_form [of keys now s] by auto

lemma send_event_fields [simp]:
  "kv (send_event event key s) = kv s"
  "hashes (send_event event key s) = hashes s"
  "lists (send_event event key s) = lists s"
  "sets (send_event event key s) = sets s"
  "zsets (send_event event key s) = zsets s"
  "streams (send_event event key s) = streams s"
  "hlls (send_event event key s) = hlls s"
  "jsons (send_event event key s) = jsons s"
  "timeseries (send_event event key s) = timeseries s"
  "groups (send_event event key s) = groups s"
  "expires (send_event event key s) = expires s"
  "lastSeq (send_event event key s) = lastSeq s"
  "waits (send_event event key s) = waits s"
  "listWaits (send_event event key s) = listWaits s"
  "woken (send_event event key s) = woken s"
  "nextWaiter (send_event event key s) = nextWaiter s"
  "closed (send_event event key s) = closed s"
  "queueSeq (send_event event key s) = queueSeq s"
  "rateLimiters (send_event event key s) = rateLimiters s"
  "queues (send_event event key s) = queues s"
  "queueWaits (send_event event key s) = queueWaits s"
  "tags (send_event event key s) = tags s"
  "notBefore (send_event event key s) = notBefore s"
  "onChange (send_event event key s) = onChange s"
  "maxMemory (send_event event key s) = maxMemory s"
  "evictPolicy (send_event event key s) = evictPolicy s"
  "memEstimate (send_event event key s) = memEstimate s"
  "opsSinceEstimate (send_event event key s) = opsSinceEstimate s"
  by (simp_all add: send_event_def)

lemma send_event_version [simp]:
  "version (send_event event key s) = version s" "keyVersion (send_event event key s) = keyVersion s"
  by (simp_all add: send_event_def)

lemma version_touch [simp]:
  "version (touchKeyLocked keys now s) = Suc (version s)"
  "version (touchKeyLockedNoEvent keys now s) = Suc (version s)"
  using touch_form [of keys now s] touch_no_event_form [of keys now s] by auto

lemma lookup_fold_upd: "fmlookup (fold (\<lambda>k. fmupd k v) keys m) k = (if k \<in> set keys then Some v else fmlookup m k)"
  by (induction keys arbitrary: m) auto

lemma getVersion_touch [simp]:
  "getVersion k (touchKeyLocked keys now s) = (if k \<in> set keys then Suc (version s) else getVersion k s)"
  "getVersion k (touchKeyLockedNoEvent keys now s) = (if k \<in> set keys then Suc (version s) else getVersion k s)"
  using touch_form [of keys now s] touch_no_event_form [of keys now s]
  by (auto simp: getVersion_def lookup_fold_upd)

section \<open>Columns\<close>

text \<open>What the store holds under one key: its values, by kind, and its deadline.  Of a list only the elements
  count, and whether its ring buffer is well formed; how it is laid out does not.\<close>

definition list_content :: "deque \<Rightarrow> string list \<times> bool" where
  "list_content d = (Deque_ToSlice d, deque_wf d)"

record column =
  cKV :: "string option"
  cHash :: "string gomap option"
  cList :: "(string list \<times> bool) option"
  cSet :: "string fset option"
  cZSet :: "SortedSet option"
  cStream :: "StreamEntry list option"
  cHll :: "HyperLogLog option"
  cJson :: "json option"
  cTS :: "TimeSeries option"
  cExp :: "gotime option"

definition column :: "store \<Rightarrow> key \<Rightarrow> column" where
  "column s k =
     \<lparr>cKV = fmlookup (kv s) k, cHash = fmlookup (hashes s) k, cList = map_option list_content (fmlookup (lists s) k),
      cSet = fmlookup (sets s) k, cZSet = fmlookup (zsets s) k, cStream = fmlookup (streams s) k,
      cHll = fmlookup (hlls s) k, cJson = fmlookup (jsons s) k, cTS = fmlookup (timeseries s) k,
      cExp = fmlookup (expires s) k\<rparr>"

definition no_column :: column where
  "no_column = \<lparr>cKV = None, cHash = None, cList = None, cSet = None, cZSet = None, cStream = None,
     cHll = None, cJson = None, cTS = None, cExp = None\<rparr>"

lemma no_column_simps [simp]:
  "cKV no_column = None" "cHash no_column = None" "cList no_column = None" "cSet no_column = None"
  "cZSet no_column = None" "cStream no_column = None" "cHll no_column = None" "cJson no_column = None"
  "cTS no_column = None" "cExp no_column = None"
  by (simp_all add: no_column_def)

text \<open>A column after an update of the state: the operations below are read off column by column.\<close>

lemma column_upd [simp]:
  "column (s\<lparr>kv := fmupd k x1 m1\<rparr>) j = (if j = k then (column (s\<lparr>kv := m1\<rparr>) j)\<lparr>cKV := Some x1\<rparr> else column (s\<lparr>kv := m1\<rparr>) j)"
  "column (s\<lparr>hashes := fmupd k x2 m2\<rparr>) j = (if j = k then (column (s\<lparr>hashes := m2\<rparr>) j)\<lparr>cHash := Some x2\<rparr> else column (s\<lparr>hashes := m2\<rparr>) j)"
  "column (s\<lparr>lists := fmupd k x3 m3\<rparr>) j = (if j = k then (column (s\<lparr>lists := m3\<rparr>) j)\<lparr>cList := Some (list_content x3)\<rparr> else column (s\<lparr>lists := m3\<rparr>) j)"
  "column (s\<lparr>sets := fmupd k x4 m4\<rparr>) j = (if j = k then (column (s\<lparr>sets := m4\<rparr>) j)\<lparr>cSet := Some x4\<rparr> else column (s\<lparr>sets := m4\<rparr>) j)"
  "column (s\<lparr>zsets := fmupd k x5 m5\<rparr>) j = (if j = k then (column (s\<lparr>zsets := m5\<rparr>) j)\<lparr>cZSet := Some x5\<rparr> else column (s\<lparr>zsets := m5\<rparr>) j)"
  "column (s\<lparr>streams := fmupd k x6 m6\<rparr>) j = (if j = k then (column (s\<lparr>streams := m6\<rparr>) j)\<lparr>cStream := Some x6\<rparr> else column (s\<lparr>streams := m6\<rparr>) j)"
  "column (s\<lparr>hlls := fmupd k x7 m7\<rparr>) j = (if j = k then (column (s\<lparr>hlls := m7\<rparr>) j)\<lparr>cHll := Some x7\<rparr> else column (s\<lparr>hlls := m7\<rparr>) j)"
  "column (s\<lparr>jsons := fmupd k x8 m8\<rparr>) j = (if j = k then (column (s\<lparr>jsons := m8\<rparr>) j)\<lparr>cJson := Some x8\<rparr> else column (s\<lparr>jsons := m8\<rparr>) j)"
  "column (s\<lparr>timeseries := fmupd k x9 m9\<rparr>) j = (if j = k then (column (s\<lparr>timeseries := m9\<rparr>) j)\<lparr>cTS := Some x9\<rparr> else column (s\<lparr>timeseries := m9\<rparr>) j)"
  "column (s\<lparr>expires := fmupd k x10 m10\<rparr>) j = (if j = k then (column (s\<lparr>expires := m10\<rparr>) j)\<lparr>cExp := Some x10\<rparr> else column (s\<lparr>expires := m10\<rparr>) j)"
  by (simp_all add: column_def)

lemma column_drop [simp]:
  "column (s\<lparr>kv := fmdrop k m11\<rparr>) j = (if j = k then (column (s\<lparr>kv := m11\<rparr>) j)\<lparr>cKV := None\<rparr> else column (s\<lparr>kv := m11\<rparr>) j)"
  "column (s\<lparr>hashes := fmdrop k m12\<rparr>) j = (if j = k then (column (s\<lparr>hashes := m12\<rparr>) j)\<lparr>cHash := None\<rparr> else column (s\<lparr>hashes := m12\<rparr>) j)"
  "column (s\<lparr>lists := fmdrop k m13\<rparr>) j = (if j = k then (column (s\<lparr>lists := m13\<rparr>) j)\<lparr>cList := None\<rparr> else column (s\<lparr>lists := m13\<rparr>) j)"
  "column (s\<lparr>sets := fmdrop k m14\<rparr>) j = (if j = k then (column (s\<lparr>sets := m14\<rparr>) j)\<lparr>cSet := None\<rparr> else column (s\<lparr>sets := m14\<rparr>) j)"
  "column (s\<lparr>zsets := fmdrop k m15\<rparr>) j = (if j = k then (column (s\<lparr>zsets := m15\<rparr>) j)\<lparr>cZSet := None\<rparr> else column (s\<lparr>zsets := m15\<rparr>) j)"
  "column (s\<lparr>streams := fmdrop k m16\<rparr>) j = (if j = k then (column (s\<lparr>streams := m16\<rparr>) j)\<lparr>cStream := None\<rparr> else column (s\<lparr>streams := m16\<rparr>) j)"
  "column (s\<lparr>hlls := fmdrop k m17\<rparr>) j = (if j = k then (column (s\<lparr>hlls := m17\<rparr>) j)\<lparr>cHll := None\<rparr> else column (s\<lparr>hlls := m17\<rparr>) j)"
  "column (s\<lparr>jsons := fmdrop k m18\<rparr>) j = (if j = k then (column (s\<lparr>jsons := m18\<rparr>) j)\<lparr>cJson := None\<rparr> else column (s\<lparr>jsons := m18\<rparr>) j)"
  "column (s\<lparr>timeseries := fmdrop k m19\<rparr>) j = (if j = k then (column (s\<lparr>timeseries := m19\<rparr>) j)\<lparr>cTS := None\<rparr> else column (s\<lparr>timeseries := m19\<rparr>) j)"
  "column (s\<lparr>expires := fmdrop k m20\<rparr>) j = (if j = k then (column (s\<lparr>expires := m20\<rparr>) j)\<lparr>cExp := None\<rparr> else column (s\<lparr>expires := m20\<rparr>) j)"
  by (simp_all add: column_def)

lemma column_same [simp]:
  "column (s\<lparr>kv := kv s\<rparr>) j = column s j"
  "column (s\<lparr>hashes := hashes s\<rparr>) j = column s j"
  "column (s\<lparr>lists := lists s\<rparr>) j = column s j"
  "column (s\<lparr>sets := sets s\<rparr>) j = column s j"
  "column (s\<lparr>zsets := zsets s\<rparr>) j = column s j"
  "column (s\<lparr>streams := streams s\<rparr>) j = column s j"
  "column (s\<lparr>hlls := hlls s\<rparr>) j = column s j"
  "column (s\<lparr>jsons := jsons s\<rparr>) j = column s j"
  "column (s\<lparr>timeseries := timeseries s\<rparr>) j = column s j"
  "column (s\<lparr>expires := expires s\<rparr>) j = column s j"
  by (simp_all add: column_def)

lemma column_other [simp]:
  "column (s\<lparr>groups := x0\<rparr>) j = column s j"
  "column (s\<lparr>lastSeq := x1\<rparr>) j = column s j"
  "column (s\<lparr>waits := x2\<rparr>) j = column s j"
  "column (s\<lparr>listWaits := x3\<rparr>) j = column s j"
  "column (s\<lparr>woken := x4\<rparr>) j = column s j"
  "column (s\<lparr>nextWaiter := x5\<rparr>) j = column s j"
  "column (s\<lparr>closed := x20\<rparr>) j = column s j"
  "column (s\<lparr>queueSeq := x21\<rparr>) j = column s j"
  "column (s\<lparr>keyVersion := x6\<rparr>) j = column s j"
  "column (s\<lparr>version := x7\<rparr>) j = column s j"
  "column (s\<lparr>rateLimiters := x8\<rparr>) j = column s j"
  "column (s\<lparr>queues := x9\<rparr>) j = column s j"
  "column (s\<lparr>queueWaits := x10\<rparr>) j = column s j"
  "column (s\<lparr>tags := x11\<rparr>) j = column s j"
  "column (s\<lparr>notBefore := x12\<rparr>) j = column s j"
  "column (s\<lparr>onChange := x13\<rparr>) j = column s j"
  "column (s\<lparr>onChangeQueue := x14\<rparr>) j = column s j"
  "column (s\<lparr>maxMemory := x15\<rparr>) j = column s j"
  "column (s\<lparr>evictPolicy := x16\<rparr>) j = column s j"
  "column (s\<lparr>accessTime := x17\<rparr>) j = column s j"
  "column (s\<lparr>memEstimate := x18\<rparr>) j = column s j"
  "column (s\<lparr>opsSinceEstimate := x19\<rparr>) j = column s j"
  by (simp_all add: column_def)

lemma column_lookup:
  "fmlookup (kv s) k = cKV (column s k)"
  "fmlookup (hashes s) k = cHash (column s k)"
  "map_option list_content (fmlookup (lists s) k) = cList (column s k)"
  "fmlookup (sets s) k = cSet (column s k)"
  "fmlookup (zsets s) k = cZSet (column s k)"
  "fmlookup (streams s) k = cStream (column s k)"
  "fmlookup (hlls s) k = cHll (column s k)"
  "fmlookup (jsons s) k = cJson (column s k)"
  "fmlookup (timeseries s) k = cTS (column s k)"
  "fmlookup (expires s) k = cExp (column s k)"
  by (simp_all add: column_def)

lemma column_touch [simp]:
  "column (touchKeyLocked keys now s) k = column s k"
  "column (touchKeyLockedNoEvent keys now s) k = column s k"
  "column (send_event event key s) k = column s k"
  by (simp_all add: column_def)

lemma column_delete: "column (deleteKeyLocked j now s) k = (if k = j then no_column else column s k)"
  by (simp add: deleteKeyLocked_def Let_def column_def no_column_def)

lemma notBefore_delete [simp]: "notBefore (deleteKeyLocked j now s) = fmdrop j (notBefore s)"
  and expires_delete [simp]: "expires (deleteKeyLocked j now s) = fmdrop j (expires s)"
  and version_delete [simp]: "version (deleteKeyLocked j now s) = Suc (version s)"
  by (simp_all add: deleteKeyLocked_def Let_def)

lemma getVersion_delete [simp]:
  "getVersion k (deleteKeyLocked j now s) = (if k = j then Suc (version s) else getVersion k s)"
  by (simp add: deleteKeyLocked_def Let_def) (simp add: getVersion_def)

section \<open>Lazy expiry\<close>

text \<open>The state after the test for expiry that opens every operation.\<close>

definition purge :: "key \<Rightarrow> gotime \<Rightarrow> store \<Rightarrow> store" where
  "purge key now s = (if isExpiredRLocked key now s then deleteKeyLocked key now s else s)"

lemma expiredKeyLocked_eq: "expiredKeyLocked k now s = (isExpiredRLocked k now s, purge k now s)"
  by (simp add: expiredKeyLocked_def isExpiredRLocked_def purge_def split: option.split)

lemma isExpired_column:
  "isExpiredRLocked k now s = (case cExp (column s k) of None \<Rightarrow> False | Some e \<Rightarrow> \<not> IsZero e \<and> e \<le> now)"
  by (auto simp: isExpiredRLocked_def column_def split: option.split)

lemma isExpired_purge [simp]: "isExpiredRLocked j now (purge k now s) = (j \<noteq> k \<and> isExpiredRLocked j now s)"
  by (auto simp: purge_def isExpired_column column_delete no_column_def)

lemma purge_id: "\<not> isExpiredRLocked k now s \<Longrightarrow> purge k now s = s"
  by (simp add: purge_def)

lemma purge_purge [simp]: "purge k now (purge k now s) = purge k now s"
  by (simp add: purge_id)

text \<open>What a key holds at a moment: nothing once its deadline has passed.\<close>

definition live :: "gotime \<Rightarrow> store \<Rightarrow> key \<Rightarrow> column" where
  "live now s k = (if isExpiredRLocked k now s then no_column else column s k)"

lemma column_purge: "column (purge j now s) k = (if k = j then live now s k else column s k)"
  by (simp add: purge_def live_def column_delete)

lemma live_purge [simp]: "live now (purge j now s) k = live now s k"
  by (auto simp: live_def column_purge)

fun col_holds :: "column \<Rightarrow> kind \<Rightarrow> bool" where
  "col_holds c KString = (cKV c \<noteq> None)"
| "col_holds c KHash = (cHash c \<noteq> None)"
| "col_holds c KList = (cList c \<noteq> None)"
| "col_holds c KSet = (cSet c \<noteq> None)"
| "col_holds c KZSet = (cZSet c \<noteq> None)"
| "col_holds c KStream = (cStream c \<noteq> None)"
| "col_holds c KHll = (cHll c \<noteq> None)"
| "col_holds c KJson = (cJson c \<noteq> None)"
| "col_holds c KTimeSeries = (cTS c \<noteq> None)"

lemma holds_column: "holds s k = col_holds (column s k)"
proof
  fix x show "holds s k x = col_holds (column s k) x" by (cases x) (simp_all add: column_def)
qed

lemma anyOf_column: "anyOf kinds k s = list_ex (col_holds (column s k)) kinds"
  by (simp add: anyOf_def holds_column)


lemma purge_any [simp]: "anyOf kinds key (purge key now s) = list_ex (col_holds (live now s key)) kinds"
  by (simp add: anyOf_column column_purge)

lemma purge_lookup:
  "fmlookup (kv (purge key now s)) key = cKV (live now s key)"
  "fmlookup (hashes (purge key now s)) key = cHash (live now s key)"
  "map_option list_content (fmlookup (lists (purge key now s)) key) = cList (live now s key)"
  "fmlookup (sets (purge key now s)) key = cSet (live now s key)"
  "fmlookup (zsets (purge key now s)) key = cZSet (live now s key)"
  "fmlookup (streams (purge key now s)) key = cStream (live now s key)"
  "fmlookup (hlls (purge key now s)) key = cHll (live now s key)"
  "fmlookup (jsons (purge key now s)) key = cJson (live now s key)"
  "fmlookup (timeseries (purge key now s)) key = cTS (live now s key)"
  "fmlookup (expires (purge key now s)) key = cExp (live now s key)"
  by (simp_all add: column_lookup column_purge)

lemma live_expired: "isExpiredRLocked key now s \<Longrightarrow> live now s key = no_column"
  and live_fresh: "\<not> isExpiredRLocked key now s \<Longrightarrow> live now s key = column s key"
  by (simp_all add: live_def)

lemma purge_between [simp]: "purge k now (purge j now (purge k now s)) = purge j now (purge k now s)"
  by (simp add: purge_id)

lemma existsStringLocked_eq: "existsStringLocked k now s = (cKV (live now s k) \<noteq> None, purge k now s)"
  by (auto simp: existsStringLocked_def expiredKeyLocked_eq purge_lookup live_expired)

text \<open>Under the write lock and under the read lock a key exists in the same cases.\<close>

lemma existsLocked_eq: "existsLocked k now s = (existsRLocked k now s, purge k now s)"
proof (cases "isExpiredRLocked k now s")
  case True
  then show ?thesis by (simp add: existsLocked_def existsRLocked_def expiredKeyLocked_eq)
next
  case False
  then show ?thesis
    by (simp add: existsLocked_def existsRLocked_def expiredKeyLocked_eq existsStringLocked_eq purge_id live_fresh anyOf_column)
qed

lemma existsRLocked_fresh: "existsRLocked k now s \<Longrightarrow> \<not> isExpiredRLocked k now s"
  by (auto simp: existsRLocked_def)

lemma existsRLocked_purge [simp]: "existsRLocked k now (purge k now s) = existsRLocked k now s"
  by (cases "isExpiredRLocked k now s")
    (auto simp: existsRLocked_def purge_def isExpired_column column_delete anyOf_def deleteKeyLocked_def Let_def no_column_def)

lemma wrongTypeLocked_eq:
  "wrongTypeLocked kinds k now s = (list_ex (col_holds (live now s k)) (KString # kinds), purge k now s)"
  by (simp add: wrongTypeLocked_def existsStringLocked_eq)

lemma wrongTypeRLocked_eq:
  "\<not> isExpiredRLocked k now s \<Longrightarrow> \<not> delayed k now s \<Longrightarrow>
   wrongTypeRLocked kinds k now s = list_ex (col_holds (live now s k)) (KString # kinds)"
  by (simp add: wrongTypeRLocked_def existsStringRLocked_def live_fresh anyOf_column column_def)

lemmas locked_eqs = expiredKeyLocked_eq existsStringLocked_eq existsLocked_eq wrongTypeLocked_eq

section \<open>Tracked changes\<close>

text \<open>
  Every key either keeps its column and its version, or is one of \<open>K\<close> and has a version newer than
  all versions handed out before.
\<close>

definition tracked :: "key set \<Rightarrow> store \<Rightarrow> store \<Rightarrow> bool" where
  "tracked K s s' \<longleftrightarrow> version s \<le> version s' \<and>
     (\<forall>k. column s' k = column s k \<and> getVersion k s' = getVersion k s \<or>
          k \<in> K \<and> version s < getVersion k s' \<and> getVersion k s' \<le> version s')"

definition versions_ok :: "store \<Rightarrow> bool" where
  "versions_ok s \<longleftrightarrow> (\<forall>k. getVersion k s \<le> version s)"

lemma tracked_refl [simp]: "tracked K s s"
  by (simp add: tracked_def)

lemma tracked_trans [trans]:
  assumes "tracked K s t" "tracked K t u"
  shows "tracked K s u"
  unfolding tracked_def
proof (intro conjI allI)
  have le: "version s \<le> version t" "version t \<le> version u" using assms by (simp_all add: tracked_def)
  then show "version s \<le> version u" by simp
  fix k
  have 1: "column t k = column s k \<and> getVersion k t = getVersion k s \<or>
      k \<in> K \<and> version s < getVersion k t \<and> getVersion k t \<le> version t"
    and 2: "column u k = column t k \<and> getVersion k u = getVersion k t \<or>
      k \<in> K \<and> version t < getVersion k u \<and> getVersion k u \<le> version u"
    using assms by (simp_all add: tracked_def)
  from 2 show "column u k = column s k \<and> getVersion k u = getVersion k s \<or>
      k \<in> K \<and> version s < getVersion k u \<and> getVersion k u \<le> version u"
  proof
    assume "column u k = column t k \<and> getVersion k u = getVersion k t"
    with 1 le show ?thesis by auto
  qed (use le in auto)
qed

lemma tracked_mono: "tracked K s t \<Longrightarrow> K \<subseteq> L \<Longrightarrow> tracked L s t"
  by (fastforce simp: tracked_def)

lemma tracked_versions_ok: "tracked K s t \<Longrightarrow> versions_ok s \<Longrightarrow> versions_ok t"
  unfolding tracked_def versions_ok_def by (metis le_trans)

lemma tracked_frame: "tracked K s t \<Longrightarrow> k \<notin> K \<Longrightarrow> column t k = column s k"
  by (auto simp: tracked_def)

text \<open>An edit of the columns of \<open>keys\<close> followed by touching them.\<close>

lemma tracked_touch [inv_intros]:
  assumes "\<And>k. k \<notin> set keys \<Longrightarrow> column t k = column s k" "keyVersion t = keyVersion s" "version t = version s"
    and "set keys \<subseteq> K"
  shows "tracked K s (touchKeyLocked keys now t)"
proof -
  have "getVersion k t = getVersion k s" for k using assms(2) by (simp add: getVersion_def)
  with assms show ?thesis by (auto simp: tracked_def)
qed

lemma tracked_touch2 [inv_intros]:
  assumes "\<And>k. k \<noteq> a \<Longrightarrow> k \<noteq> b \<Longrightarrow> column t k = column s k" "keyVersion t = keyVersion s" "version t = version s"
    and "a \<in> K" "b \<in> K"
  shows "tracked K s (touchKeyLocked [b] now (touchKeyLocked [a] now t))"
proof -
  have "getVersion k t = getVersion k s" for k using assms(2) by (simp add: getVersion_def)
  with assms show ?thesis by (auto simp: tracked_def)
qed

lemma tracked_delete [inv_intros]: "k \<in> K \<Longrightarrow> tracked K s (deleteKeyLocked k now s)"
  by (auto simp: tracked_def column_delete)

lemma tracked_purge [inv_intros]: "k \<in> K \<Longrightarrow> tracked K s (purge k now s)"
  by (simp add: purge_def tracked_delete)

lemma tracked_after_purge: "key \<in> K \<Longrightarrow> tracked K (purge key now s) t \<Longrightarrow> tracked K s t"
  by (rule tracked_trans [OF tracked_purge])

lemma tracked_purge_delete [inv_intros]: "k \<in> K \<Longrightarrow> tracked K s (deleteKeyLocked k now (purge k now s))"
  by (rule tracked_after_purge [OF _ tracked_delete])

text \<open>The usual operation: expire lazily, edit the column of the key, touch the key.\<close>

lemma tracked_edit [inv_intros]:
  assumes "key \<in> K" "\<And>k. k \<noteq> key \<Longrightarrow> column t k = column (purge key now s) k"
    "keyVersion t = keyVersion (purge key now s)" "version t = version (purge key now s)"
  shows "tracked K s (touchKeyLocked [key] now t)"
proof -
  have "tracked K s (purge key now s)" using assms(1) by (rule tracked_purge)
  also have "tracked K (purge key now s) (touchKeyLocked [key] now t)"
    by (rule tracked_touch) (use assms in auto)
  finally show ?thesis .
qed

text \<open>What \<open>WATCH\<close> needs: a watched key that changed has another version than the one remembered.\<close>

lemma tracked_detects:
  assumes "tracked K s t" "versions_ok s" "column t k \<noteq> column s k"
  shows "getVersion k t \<noteq> getVersion k s"
proof -
  have "version s < getVersion k t" using assms(1,3) by (auto simp: tracked_def)
  moreover have "getVersion k s \<le> version s" using assms(2) by (simp add: versions_ok_def)
  ultimately show ?thesis by simp
qed

lemma KeyVersions_lookup: "fmlookup (Store_KeyVersions keys s) k = (if k \<in> set keys then Some (getVersion k s) else None)"
proof -
  have "fmlookup (fold (\<lambda>key out. fmupd key (getVersion key s) out) keys m) k =
      (if k \<in> set keys then Some (getVersion k s) else fmlookup m k)" for m
    by (induction keys arbitrary: m) auto
  then show ?thesis by (simp add: Store_KeyVersions_def)
qed

lemma KeysModified_iff:
  "Store_KeysModifiedSince (Store_KeyVersions keys s) t \<longleftrightarrow> (\<exists>k \<in> set keys. getVersion k t \<noteq> getVersion k s)"
  by (auto simp: Store_KeysModifiedSince_def list_ex_iff fmlookup_dom'_iff KeyVersions_lookup split: if_splits)

section \<open>The shape of a column\<close>

text \<open>
  Containers are never empty, the data structures satisfy their invariants, and a key has at most one
  of the seven kinds that all operations tell apart.
\<close>

definition core_kinds :: "kind list" where
  "core_kinds = [KString, KHash, KList, KSet, KZSet, KStream, KHll]"

definition one_core :: "column \<Rightarrow> bool" where
  "one_core c \<longleftrightarrow> (\<forall>k1 \<in> set core_kinds. \<forall>k2 \<in> set core_kinds. col_holds c k1 \<longrightarrow> col_holds c k2 \<longrightarrow> k1 = k2)"

definition slot_ok :: "column \<Rightarrow> bool" where
  "slot_ok c \<longleftrightarrow> one_core c \<and>
     (case cHash c of None \<Rightarrow> True | Some h \<Rightarrow> h \<noteq> fmempty) \<and>
     (case cList c of None \<Rightarrow> True | Some (xs, ok) \<Rightarrow> ok \<and> xs \<noteq> []) \<and>
     (case cSet c of None \<Rightarrow> True | Some S \<Rightarrow> S \<noteq> {||}) \<and>
     (case cZSet c of None \<Rightarrow> True | Some z \<Rightarrow> zset_wf z \<and> scores z \<noteq> fmempty) \<and>
     (case cHll c of None \<Rightarrow> True | Some h \<Rightarrow> hll_wf h) \<and>
     (case cTS c of None \<Rightarrow> True | Some t \<Rightarrow> ts_wf t)"

definition store_wf :: "store \<Rightarrow> bool" where
  "store_wf s \<longleftrightarrow> versions_ok s \<and> (\<forall>k. slot_ok (column s k))"

lemma col_holds_upd [simp]:
  "col_holds (c\<lparr>cKV := x0\<rparr>) k = (if k = KString then x0 \<noteq> None else col_holds c k)"
  "col_holds (c\<lparr>cHash := x1\<rparr>) k = (if k = KHash then x1 \<noteq> None else col_holds c k)"
  "col_holds (c\<lparr>cList := x2\<rparr>) k = (if k = KList then x2 \<noteq> None else col_holds c k)"
  "col_holds (c\<lparr>cSet := x3\<rparr>) k = (if k = KSet then x3 \<noteq> None else col_holds c k)"
  "col_holds (c\<lparr>cZSet := x4\<rparr>) k = (if k = KZSet then x4 \<noteq> None else col_holds c k)"
  "col_holds (c\<lparr>cStream := x5\<rparr>) k = (if k = KStream then x5 \<noteq> None else col_holds c k)"
  "col_holds (c\<lparr>cHll := x6\<rparr>) k = (if k = KHll then x6 \<noteq> None else col_holds c k)"
  "col_holds (c\<lparr>cJson := x7\<rparr>) k = (if k = KJson then x7 \<noteq> None else col_holds c k)"
  "col_holds (c\<lparr>cTS := x8\<rparr>) k = (if k = KTimeSeries then x8 \<noteq> None else col_holds c k)"
  "col_holds (c\<lparr>cExp := e\<rparr>) k = col_holds c k"
  by (cases k; simp)+

lemma col_holds_none [simp]: "col_holds no_column k = False"
  by (cases k) (simp_all add: no_column_def)

lemma one_core_mono: "one_core c \<Longrightarrow> (\<And>k. col_holds c' k \<Longrightarrow> col_holds c k) \<Longrightarrow> one_core c'"
  unfolding one_core_def by blast

lemma one_core_cong: "(\<And>k. k \<in> set core_kinds \<Longrightarrow> col_holds c' k = col_holds c k) \<Longrightarrow> one_core c' = one_core c"
  unfolding one_core_def by blast

lemma one_core_extra [simp]:
  "one_core (c\<lparr>cExp := e\<rparr>) = one_core c" "one_core (c\<lparr>cJson := j\<rparr>) = one_core c" "one_core (c\<lparr>cTS := t\<rparr>) = one_core c"
  by (rule one_core_cong; force simp: core_kinds_def)+

lemma one_core_only: "(\<And>k. k \<in> set core_kinds \<Longrightarrow> col_holds c k \<Longrightarrow> k = k0) \<Longrightarrow> one_core c"
  unfolding one_core_def by blast

lemma slot_ok_none [simp]: "slot_ok no_column"
  by (simp add: slot_ok_def one_core_def)

lemma slot_ok_live: "store_wf s \<Longrightarrow> slot_ok (live now s k)"
  by (simp add: live_def store_wf_def)

text \<open>An operation on one key keeps the invariant if it leaves a proper column there.\<close>

lemma store_wf_step:
  assumes "store_wf s" "tracked K s t" "\<And>k. k \<in> K \<Longrightarrow> slot_ok (column t k)"
  shows "store_wf t"
  using assms tracked_versions_ok [OF assms(2)] tracked_frame [OF assms(2)] by (metis store_wf_def)


text \<open>Columns that stay proper: replacing the value, or removing it together with its deadline.\<close>

lemma slot_ok_exp [simp]: "slot_ok (c\<lparr>cExp := e\<rparr>) = slot_ok c"
  and slot_ok_json [simp]: "slot_ok (c\<lparr>cJson := j\<rparr>) = slot_ok c"
  by (simp_all add: slot_ok_def)

lemma slot_ok_drops:
  assumes "slot_ok c"
  shows "slot_ok (c\<lparr>cKV := None\<rparr>)" "slot_ok (c\<lparr>cHash := None\<rparr>)" "slot_ok (c\<lparr>cList := None\<rparr>)"
    "slot_ok (c\<lparr>cSet := None\<rparr>)" "slot_ok (c\<lparr>cZSet := None\<rparr>)" "slot_ok (c\<lparr>cStream := None\<rparr>)"
    "slot_ok (c\<lparr>cHll := None\<rparr>)" "slot_ok (c\<lparr>cTS := None\<rparr>)"
  using assms by (auto simp: slot_ok_def elim!: one_core_mono split: if_splits)

text \<open>Writing a value of one kind when no other of the seven kinds is there.\<close>

definition only_kind :: "kind \<Rightarrow> column \<Rightarrow> bool" where
  "only_kind k c \<longleftrightarrow> \<not> list_ex (col_holds c) (removeAll k core_kinds)"

lemma only_kind_one_core: "only_kind k c \<Longrightarrow> (\<And>j. j \<noteq> k \<Longrightarrow> col_holds c' j \<Longrightarrow> col_holds c j) \<Longrightarrow> one_core c'"
  by (rule one_core_only [of _ k]) (auto simp: only_kind_def list_ex_iff)

lemma slot_ok_put:
  "slot_ok c \<Longrightarrow> only_kind KString c \<Longrightarrow> slot_ok (c\<lparr>cKV := Some v\<rparr>)"
  "slot_ok c \<Longrightarrow> only_kind KHash c \<Longrightarrow> h \<noteq> fmempty \<Longrightarrow> slot_ok (c\<lparr>cHash := Some h\<rparr>)"
  "slot_ok c \<Longrightarrow> only_kind KList c \<Longrightarrow> xs \<noteq> [] \<Longrightarrow> slot_ok (c\<lparr>cList := Some (xs, True)\<rparr>)"
  "slot_ok c \<Longrightarrow> only_kind KSet c \<Longrightarrow> S \<noteq> {||} \<Longrightarrow> slot_ok (c\<lparr>cSet := Some S\<rparr>)"
  "slot_ok c \<Longrightarrow> only_kind KZSet c \<Longrightarrow> zset_wf z \<Longrightarrow> scores z \<noteq> fmempty \<Longrightarrow> slot_ok (c\<lparr>cZSet := Some z\<rparr>)"
  "slot_ok c \<Longrightarrow> only_kind KStream c \<Longrightarrow> slot_ok (c\<lparr>cStream := Some es\<rparr>)"
  "slot_ok c \<Longrightarrow> only_kind KHll c \<Longrightarrow> hll_wf l \<Longrightarrow> slot_ok (c\<lparr>cHll := Some l\<rparr>)"
  by (auto simp: slot_ok_def elim!: only_kind_one_core split: if_splits)

lemma only_kind_none [simp]: "only_kind k no_column"
  by (simp add: only_kind_def list_ex_iff)

lemma slot_ok_ts: "slot_ok c \<Longrightarrow> ts_wf t \<Longrightarrow> slot_ok (c\<lparr>cTS := Some t\<rparr>)"
  by (simp_all add: slot_ok_def)

lemma store_wf_purge: "store_wf s \<Longrightarrow> store_wf (purge k now s)"
  by (rule store_wf_step [OF _ tracked_purge [of k "{k}"]]) (auto simp: column_purge slot_ok_live)

lemma no_wrong [simp]: "\<not> list_ex (col_holds no_column) ks"
  by (simp add: list_ex_iff)

section \<open>Operations on one key\<close>

lemma waits_delete [simp]: "listWaits (deleteKeyLocked j now s) = listWaits s" "woken (deleteKeyLocked j now s) = woken s"
  by (simp_all add: deleteKeyLocked_def Let_def)

lemma waits_purge [simp]: "listWaits (purge j now s) = listWaits s" "woken (purge j now s) = woken s"
  by (simp_all add: purge_def)

text \<open>The facts about an operation on one key: its answer, the column it leaves, that it is tracked, and that
  delays and blocked clients are as after the test for expiry.\<close>

definition key_result :: "key \<Rightarrow> gotime \<Rightarrow> store \<Rightarrow> 'r \<Rightarrow> column \<Rightarrow> 'r \<times> store \<Rightarrow> bool" where
  "key_result key now s r c res \<longleftrightarrow> fst res = r \<and> column (snd res) key = c \<and> tracked {key} s (snd res) \<and>
     notBefore (snd res) = notBefore (purge key now s) \<and> listWaits (snd res) = listWaits s"

lemma key_result_same: "key_result key now s r (live now s key) (r, purge key now s)"
  by (simp add: key_result_def column_purge tracked_purge)

lemma key_result_tracked: "key_result key now s r c res \<Longrightarrow> tracked {key} s (snd res)"
  and key_result_column: "key_result key now s r c res \<Longrightarrow> column (snd res) key = c"
  and key_result_answer: "key_result key now s r c res \<Longrightarrow> fst res = r"
  by (simp_all add: key_result_def)

lemma key_result_wf: "store_wf s \<Longrightarrow> key_result key now s r c res \<Longrightarrow> slot_ok c \<Longrightarrow> store_wf (snd res)"
  by (rule store_wf_step [OF _ key_result_tracked]) (auto simp: key_result_def)

text \<open>A touched key may be edited further before the lock is released.\<close>

lemma tracked_more:
  assumes "tracked K s t" "key \<in> K" "version s < getVersion key t" "getVersion key t \<le> version t"
    and "\<And>j. j \<noteq> key \<Longrightarrow> column u j = column t j" "keyVersion u = keyVersion t" "version u = version t"
  shows "tracked K s u"
proof -
  have ver: "getVersion j u = getVersion j t" for j using assms(6) by (simp add: getVersion_def)
  show ?thesis using assms(1-5,7) unfolding tracked_def ver by (metis (no_types, opaque_lifting))
qed

section \<open>The empty store\<close>

lemma New_simps [simp]:
  "column Store_New k = no_column" "notBefore Store_New = fmempty" "version Store_New = 0" "getVersion k Store_New = 0"
  by (simp_all add: Store_New_def column_def no_column_def getVersion_def)

lemma store_wf_New [simp]: "store_wf Store_New"
  by (simp add: store_wf_def versions_ok_def)

end
