(* ===== verification/Vole_Strings.thy ===== *)
theory Vole_Strings
  imports Vole_Store
begin

text \<open>
  The string operations of \<^verbatim>\<open>internal/store/store.go\<close>: setting and reading strings, counters, ranges.
\<close>

section \<open>Setting\<close>

text \<open>The deletions that follow the assignment of a string: every other kind but JSON documents and time
  series, and the last sequence number.\<close>

definition clear_other_kinds :: "key \<Rightarrow> store \<Rightarrow> store" where
  "clear_other_kinds key s =
     s\<lparr>hashes := fmdrop key (hashes s), lists := fmdrop key (lists s), sets := fmdrop key (sets s),
       zsets := fmdrop key (zsets s), streams := fmdrop key (streams s), hlls := fmdrop key (hlls s),
       lastSeq := fmdrop key (lastSeq s)\<rparr>"

definition set_ttl :: "key \<Rightarrow> duration \<Rightarrow> gotime \<Rightarrow> store \<Rightarrow> store" where
  "set_ttl key ttl now s =
     (if 0 < ttl then s\<lparr>expires := fmupd key (now + ttl) (expires s)\<rparr>
      else s\<lparr>expires := fmdrop key (expires s)\<rparr>)"

definition Store_Set :: "key \<Rightarrow> string \<Rightarrow> duration \<Rightarrow> gotime \<Rightarrow> store \<Rightarrow> store" where
  "Store_Set key value ttl now s =
     (let s = set_ttl key ttl now s;
          s = s\<lparr>kv := fmupd key value (kv s)\<rparr>;
          s = clear_other_kinds key s
      in record_access [key] now (touchKeyLocked [key] now s))"

definition Store_SetAbsolute :: "key \<Rightarrow> string \<Rightarrow> gotime \<Rightarrow> gotime \<Rightarrow> store \<Rightarrow> store" where
  "Store_SetAbsolute key value expireAt now s =
     (let s = s\<lparr>kv := fmupd key value (kv s)\<rparr>;
          s = (if IsZero expireAt then s\<lparr>expires := fmdrop key (expires s)\<rparr>
               else s\<lparr>expires := fmupd key expireAt (expires s)\<rparr>);
          s = clear_other_kinds key s
      in touchKeyLocked [key] now s)"

definition Store_SetNX :: "key \<Rightarrow> string \<Rightarrow> duration \<Rightarrow> gotime \<Rightarrow> store \<Rightarrow> bool \<times> store" where
  "Store_SetNX key value ttl now s =
     (case expiredKeyLocked key now s of (_, s) \<Rightarrow>
      case existsLocked key now s of (ex, s) \<Rightarrow>
        if ex then (False, s)
        else let s = (if 0 < ttl then s\<lparr>expires := fmupd key (now + ttl) (expires s)\<rparr> else s);
                 s = s\<lparr>kv := fmupd key value (kv s)\<rparr>
             in (True, touchKeyLocked [key] now s))"

definition Store_SetXX :: "key \<Rightarrow> string \<Rightarrow> duration \<Rightarrow> gotime \<Rightarrow> store \<Rightarrow> bool \<times> store" where
  "Store_SetXX key value ttl now s =
     (case expiredKeyLocked key now s of (e, s) \<Rightarrow>
        if e then (False, s)
        else case existsLocked key now s of (ex, s) \<Rightarrow>
          if \<not> ex then (False, s)
          else let s = set_ttl key ttl now s;
                   s = s\<lparr>kv := fmupd key value (kv s)\<rparr>;
                   s = clear_other_kinds key s
               in (True, touchKeyLocked [key] now s))"

definition Store_Get :: "key \<Rightarrow> gotime \<Rightarrow> store \<Rightarrow> string option \<times> store" where
  "Store_Get key now s =
     (if isExpiredRLocked key now s then (None, s)
      else if delayed key now s then (None, s)
      else case fmlookup (kv s) key of
        None \<Rightarrow> (None, s)
      | Some v \<Rightarrow> (Some v, record_access [key] now s))"

definition Store_MGet :: "key list \<Rightarrow> gotime \<Rightarrow> store \<Rightarrow> string option list" where
  "Store_MGet keys now s =
     map (\<lambda>key. if isExpiredRLocked key now s then None
                else if delayed key now s then None else fmlookup (kv s) key) keys"

text \<open>\<open>MSetNX\<close>: the loop that checks the keys, expiring them on the way, and the loop that sets them.\<close>

fun msetnx_check :: "key list \<Rightarrow> gotime \<Rightarrow> store \<Rightarrow> bool \<times> store" where
  "msetnx_check [] now s = (True, s)"
| "msetnx_check (key # keys) now s =
     (case expiredKeyLocked key now s of (_, s) \<Rightarrow>
      case existsLocked key now s of (ex, s) \<Rightarrow>
        if ex then (False, s) else msetnx_check keys now s)"

definition msetnx_set1 :: "gotime \<Rightarrow> key \<times> string \<Rightarrow> store \<Rightarrow> store" where
  "msetnx_set1 now = (\<lambda>(key, value) s.
     touchKeyLocked [key] now (s\<lparr>kv := fmupd key value (kv s), expires := fmdrop key (expires s)\<rparr>))"

definition Store_MSetNX :: "key list \<Rightarrow> string list \<Rightarrow> gotime \<Rightarrow> store \<Rightarrow> bool res \<times> store" where
  "Store_MSetNX keys values now s =
     (case msetnx_check keys now s of (free, s) \<Rightarrow>
        if \<not> free then (Inr False, s)
        else let s = fold (msetnx_set1 now) (zip keys values) s
             in if length values < length keys then (Inl (Panic ''index out of range''), s) else (Inr True, s))"

section \<open>Counters\<close>

definition other_kinds :: "kind list" where
  "other_kinds = [KHash, KList, KSet, KZSet, KStream, KHll, KJson, KTimeSeries]"

definition Store_IncrBy :: "key \<Rightarrow> int \<Rightarrow> gotime \<Rightarrow> store \<Rightarrow> int res \<times> store" where
  "Store_IncrBy key delta now s =
     (case expiredKeyLocked key now s of (e, s) \<Rightarrow>
        let s = (if e then s\<lparr>kv := fmdrop key (kv s)\<rparr> else s) in
        if anyOf other_kinds key s then (Inl WrongType, s)
        else case (case fmlookup (kv s) key of
                     None \<Rightarrow> Inr 0
                   | Some v \<Rightarrow> (case ParseInt v of (n, None) \<Rightarrow> Inr n
                                | (n, Some err) \<Rightarrow> Inl (Err ''value is not an integer''))) of
          Inl err \<Rightarrow> (Inl err, s)
        | Inr n \<Rightarrow>
            let n = wrap64 (n + delta);
                s = s\<lparr>kv := fmupd key (FormatInt n) (kv s)\<rparr>
            in (Inr n, touchKeyLocked [key] now s))"

definition Store_Incr :: "key \<Rightarrow> gotime \<Rightarrow> store \<Rightarrow> int res \<times> store" where
  "Store_Incr key now s = Store_IncrBy key 1 now s"

definition Store_DecrBy :: "key \<Rightarrow> int \<Rightarrow> gotime \<Rightarrow> store \<Rightarrow> int res \<times> store" where
  "Store_DecrBy key delta now s = Store_IncrBy key (wrap64 (- delta)) now s"

section \<open>Reading and editing strings\<close>

definition Store_Strlen :: "key \<Rightarrow> gotime \<Rightarrow> store \<Rightarrow> nat res" where
  "Store_Strlen key now s =
     (if isExpiredRLocked key now s then Inr 0
      else if anyOf other_kinds key s then Inl WrongType
      else case fmlookup (kv s) key of None \<Rightarrow> Inr 0 | Some v \<Rightarrow> Inr (length v))"

definition Store_Append :: "key \<Rightarrow> string \<Rightarrow> gotime \<Rightarrow> store \<Rightarrow> nat res \<times> store" where
  "Store_Append key value now s =
     (case expiredKeyLocked key now s of (_, s) \<Rightarrow>
        if anyOf other_kinds key s then (Inl WrongType, s)
        else let v = (case fmlookup (kv s) key of None \<Rightarrow> [] | Some v \<Rightarrow> v) @ value;
                 s = s\<lparr>kv := fmupd key v (kv s)\<rparr>
             in (Inr (length v), touchKeyLocked [key] now s))"

definition Store_GetSet :: "key \<Rightarrow> string \<Rightarrow> gotime \<Rightarrow> store \<Rightarrow> string option res \<times> store" where
  "Store_GetSet key value now s =
     (case expiredKeyLocked key now s of (_, s) \<Rightarrow>
        if anyOf other_kinds key s then (Inl WrongType, s)
        else let old = fmlookup (kv s) key;
                 s = s\<lparr>kv := fmupd key value (kv s), expires := fmdrop key (expires s),
                       hashes := fmdrop key (hashes s), lists := fmdrop key (lists s),
                       sets := fmdrop key (sets s), zsets := fmdrop key (zsets s),
                       streams := fmdrop key (streams s), lastSeq := fmdrop key (lastSeq s)\<rparr>
             in (Inr old, touchKeyLocked [key] now s))"

definition Store_GetEx :: "key \<Rightarrow> duration \<Rightarrow> bool \<Rightarrow> gotime \<Rightarrow> store \<Rightarrow> string option \<times> store" where
  "Store_GetEx key ttl persist now s =
     (case expiredKeyLocked key now s of (e, s) \<Rightarrow>
        if e then (None, s)
        else case fmlookup (kv s) key of
          None \<Rightarrow> (None, s)
        | Some v \<Rightarrow>
            let s = (if persist then s\<lparr>expires := fmdrop key (expires s)\<rparr>
                     else if 0 < ttl then s\<lparr>expires := fmupd key (now + ttl) (expires s)\<rparr> else s);
                s = (if persist \<or> 0 < ttl then touchKeyLocked [key] now s else s)
            in (Some v, s))"

definition Store_GetDel :: "key \<Rightarrow> gotime \<Rightarrow> store \<Rightarrow> string option \<times> store" where
  "Store_GetDel key now s =
     (case expiredKeyLocked key now s of (e, s) \<Rightarrow>
        if e then (None, s)
        else case fmlookup (kv s) key of
          None \<Rightarrow> (None, s)
        | Some v \<Rightarrow> (Some v, deleteKeyLocked key now s))"

text \<open>\<open>copy(buf[off:], src)\<close> into a byte slice, and the zero-filled slice of \<open>make\<close>.\<close>

definition copy_at :: "nat \<Rightarrow> string \<Rightarrow> string \<Rightarrow> string" where
  "copy_at off src buf = take off buf @ take (length buf - off) src @ drop (off + length src) buf"

definition zero_bytes :: "nat \<Rightarrow> string" where
  "zero_bytes n = replicate n (char_of (0::nat))"

text \<open>\<open>make\<close> succeeds for every length here; Go panics above its allocation limit.\<close>

definition Store_SetRange :: "key \<Rightarrow> int \<Rightarrow> string \<Rightarrow> gotime \<Rightarrow> store \<Rightarrow> nat res \<times> store" where
  "Store_SetRange key offset value now s =
     (case expiredKeyLocked key now s of (_, s) \<Rightarrow>
        if anyOf other_kinds key s then (Inl WrongType, s)
        else if offset < 0 then (Inl (Err ''offset is out of range''), s)
        else let current = (case fmlookup (kv s) key of None \<Rightarrow> [] | Some v \<Rightarrow> v);
                 needed = wrap64 (offset + int (length value)) in
          if int (length current) < needed
          then let current = copy_at (nat offset) value (copy_at 0 current (zero_bytes (nat needed)));
                   s = s\<lparr>kv := fmupd key current (kv s)\<rparr>
               in (Inr (length current), touchKeyLocked [key] now s)
          else if int (length current) < offset then (Inl (Panic ''slice bounds out of range''), s)
          else let current = copy_at (nat offset) value current;
                   s = s\<lparr>kv := fmupd key current (kv s)\<rparr>
               in (Inr (length current), touchKeyLocked [key] now s))"

definition Store_GetRange :: "key \<Rightarrow> int \<Rightarrow> int \<Rightarrow> gotime \<Rightarrow> store \<Rightarrow> string res" where
  "Store_GetRange key start stop now s =
     (if isExpiredRLocked key now s then Inr []
      else if anyOf other_kinds key s then Inl WrongType
      else case fmlookup (kv s) key of
        None \<Rightarrow> Inr []
      | Some str \<Rightarrow>
          let n = int (length str);
              start = (if start < 0 then n + start else start);
              stop = (if stop < 0 then n + stop else stop);
              start = (if start < 0 then 0 else start);
              stop = (if n \<le> stop then n - 1 else stop)
          in if stop < start \<or> n \<le> start then Inr []
             else Inr (take (nat (stop + 1) - nat start) (drop (nat start) str)))"


section \<open>Columns and tracking\<close>

lemma record_access_simps [simp]:
  "column (record_access keys now s) k = column s k" "getVersion k (record_access keys now s) = getVersion k s"
  "version (record_access keys now s) = version s"
  using record_access_form [of keys now s] by (auto simp: getVersion_def)

lemma tracked_access [simp]: "tracked K s (record_access keys now t) = tracked K s t"
  by (simp add: tracked_def)

lemmas string_cols = clear_other_kinds_def set_ttl_def Let_def

text \<open>Storing a string: the column that \<open>SET\<close> leaves.\<close>

definition string_column :: "string \<Rightarrow> gotime option \<Rightarrow> column \<Rightarrow> column" where
  "string_column v e c =
     c\<lparr>cKV := Some v, cHash := None, cList := None, cSet := None, cZSet := None, cStream := None, cHll := None, cExp := e\<rparr>"

lemma slot_ok_string: "slot_ok c \<Longrightarrow> slot_ok (string_column v e c)"
  by (auto simp: string_column_def slot_ok_def core_kinds_def intro!: one_core_only [of _ KString])

lemma Set_column:
  "column (Store_Set key v ttl now s) key = string_column v (if 0 < ttl then Some (now + ttl) else None) (column s key)"
  by (simp add: Store_Set_def string_cols string_column_def)

lemma Set_tracked: "tracked {key} s (Store_Set key v ttl now s)"
  by (auto simp: Store_Set_def string_cols intro!: tracked_touch)

lemma SetAbsolute_column:
  "column (Store_SetAbsolute key v e now s) key = string_column v (if IsZero e then None else Some e) (column s key)"
  by (simp add: Store_SetAbsolute_def string_cols string_column_def)

lemma SetAbsolute_tracked: "tracked {key} s (Store_SetAbsolute key v e now s)"
  by (auto simp: Store_SetAbsolute_def string_cols intro!: tracked_touch)

lemma SetNX_eq:
  "Store_SetNX key v ttl now s =
     (if existsRLocked key now s then (False, purge key now s)
      else (True, touchKeyLocked [key] now
        (let s = purge key now s;
             s = (if 0 < ttl then s\<lparr>expires := fmupd key (now + ttl) (expires s)\<rparr> else s)
         in s\<lparr>kv := fmupd key v (kv s)\<rparr>)))"
  by (auto simp: Store_SetNX_def locked_eqs Let_def)

lemma SetNX_tracked: "tracked {key} s (snd (Store_SetNX key v ttl now s))"
  by (auto simp: SetNX_eq Let_def intro!: tracked_edit tracked_purge)

lemma SetNX_column:
  "column (snd (Store_SetNX key v ttl now s)) key =
     (if existsRLocked key now s then live now s key
      else if 0 < ttl then (live now s key)\<lparr>cKV := Some v, cExp := Some (now + ttl)\<rparr>
      else (live now s key)\<lparr>cKV := Some v\<rparr>)"
  by (auto simp: SetNX_eq Let_def column_purge)

lemma SetXX_eq:
  "Store_SetXX key v ttl now s =
     (let t = purge key now s in
      if existsRLocked key now s
      then (True, touchKeyLocked [key] now (let t = set_ttl key ttl now t in clear_other_kinds key (t\<lparr>kv := fmupd key v (kv t)\<rparr>)))
      else (False, t))"
  using existsRLocked_fresh [of key now s] by (simp add: Store_SetXX_def locked_eqs Let_def)

lemma SetXX_tracked: "tracked {key} s (snd (Store_SetXX key v ttl now s))"
  by (auto simp: SetXX_eq string_cols intro!: tracked_edit tracked_purge)

lemma SetXX_column:
  "column (snd (Store_SetXX key v ttl now s)) key =
     (if existsRLocked key now s then string_column v (if 0 < ttl then Some (now + ttl) else None) (live now s key)
      else live now s key)"
  by (auto simp: SetXX_eq string_cols column_purge string_column_def)

lemma Get_tracked: "tracked {} s (snd (Store_Get key now s))"
  by (auto simp: Store_Get_def split: option.split)

lemma IncrBy_eq:
  "Store_IncrBy key delta now s =
     (let c = live now s key; s = purge key now s in
      if list_ex (col_holds c) other_kinds then (Inl WrongType, s)
      else case cKV c of
        None \<Rightarrow> (Inr (wrap64 delta), touchKeyLocked [key] now (s\<lparr>kv := fmupd key (FormatInt (wrap64 delta)) (kv s)\<rparr>))
      | Some v \<Rightarrow>
          (case ParseInt v of
             (n, Some err) \<Rightarrow> (Inl (Err ''value is not an integer''), s)
           | (n, None) \<Rightarrow> (Inr (wrap64 (n + delta)),
               touchKeyLocked [key] now (s\<lparr>kv := fmupd key (FormatInt (wrap64 (n + delta))) (kv s)\<rparr>))))"
proof -
  have "isExpiredRLocked key now s \<Longrightarrow> fmdrop key (kv (purge key now s)) = kv (purge key now s)"
    by (rule fmdrop_absent) (simp add: column_lookup column_purge live_def no_column_def)
  moreover have "anyOf other_kinds key (purge key now s) = list_ex (col_holds (live now s key)) other_kinds"
    by (simp add: anyOf_column column_purge)
  moreover have "fmlookup (kv (purge key now s)) key = cKV (live now s key)"
    by (simp add: column_lookup column_purge)
  ultimately show ?thesis
    by (auto simp: Store_IncrBy_def locked_eqs Let_def split: option.split prod.split)
qed

lemma IncrBy_tracked: "tracked {key} s (snd (Store_IncrBy key delta now s))"
  by (auto simp: IncrBy_eq Let_def intro!: tracked_edit tracked_purge split: option.split prod.split)


lemma Append_tracked: "tracked {key} s (snd (Store_Append key v now s))"
  by (auto simp: Store_Append_def locked_eqs Let_def intro!: tracked_edit tracked_purge)

lemma Append_column:
  "column (snd (Store_Append key v now s)) key =
     (let c = live now s key in
      if list_ex (col_holds c) other_kinds then c
      else c\<lparr>cKV := Some ((case cKV c of None \<Rightarrow> [] | Some u \<Rightarrow> u) @ v)\<rparr>)"
  by (auto simp: Store_Append_def locked_eqs Let_def column_purge purge_lookup)

lemma GetSet_tracked: "tracked {key} s (snd (Store_GetSet key v now s))"
  by (auto simp: Store_GetSet_def locked_eqs Let_def intro!: tracked_edit tracked_purge)

lemma GetSet_column:
  "column (snd (Store_GetSet key v now s)) key =
     (let c = live now s key in
      if list_ex (col_holds c) other_kinds then c
      else c\<lparr>cKV := Some v, cHash := None, cList := None, cSet := None, cZSet := None, cStream := None, cExp := None\<rparr>)"
  by (auto simp: Store_GetSet_def locked_eqs Let_def column_purge)

lemma GetEx_tracked: "tracked {key} s (snd (Store_GetEx key ttl persist now s))"
  by (auto simp: Store_GetEx_def locked_eqs Let_def intro!: tracked_edit tracked_purge split: option.split)

lemma GetEx_slot: "store_wf s \<Longrightarrow> slot_ok (column (snd (Store_GetEx key ttl persist now s)) key)"
  using slot_ok_live [of s now key] slot_ok_live [of s now key]
  by (auto simp: Store_GetEx_def locked_eqs Let_def column_purge live_def store_wf_def split: option.split)

lemma GetDel_tracked: "tracked {key} s (snd (Store_GetDel key now s))"
  by (auto simp: Store_GetDel_def locked_eqs Let_def intro!: tracked_purge_delete tracked_purge split: option.split)

lemma GetDel_slot: "store_wf s \<Longrightarrow> slot_ok (column (snd (Store_GetDel key now s)) key)"
  by (auto simp: Store_GetDel_def locked_eqs column_purge live_def store_wf_def column_delete split: option.split)

lemma SetRange_tracked: "tracked {key} s (snd (Store_SetRange key off v now s))"
  by (auto simp: Store_SetRange_def locked_eqs Let_def intro!: tracked_edit tracked_purge)

text \<open>The kinds that exclude a string, and what is left when none of them is there.\<close>

lemma only_string: "\<not> list_ex (col_holds c) other_kinds \<Longrightarrow> only_kind KString c"
  by (auto simp: only_kind_def other_kinds_def core_kinds_def)

lemma string_put:
  "store_wf s \<Longrightarrow> \<not> list_ex (col_holds (live now s key)) other_kinds \<Longrightarrow> slot_ok ((live now s key)\<lparr>cKV := Some v\<rparr>)"
  by (intro slot_ok_put(1) slot_ok_live only_string)

lemma exists_column:
  "existsRLocked key now s \<longleftrightarrow> \<not> delayed key now s \<and> (col_holds (live now s key) KString \<or> list_ex (col_holds (live now s key)) other_kinds)"
  by (auto simp: existsRLocked_def live_def anyOf_column other_kinds_def)

lemma SetRange_slot: "store_wf s \<Longrightarrow> slot_ok (column (snd (Store_SetRange key off v now s)) key)"
  by (auto simp: Store_SetRange_def locked_eqs Let_def column_purge string_put slot_ok_live)

lemma IncrBy_slot: "store_wf s \<Longrightarrow> slot_ok (column (snd (Store_IncrBy key delta now s)) key)"
  by (auto simp: IncrBy_eq Let_def column_purge string_put slot_ok_live split: option.split prod.split)

lemma SetNX_slot: "store_wf s \<Longrightarrow> \<not> delayed key now s \<Longrightarrow> slot_ok (column (snd (Store_SetNX key v ttl now s)) key)"
  by (auto simp: SetNX_column exists_column slot_ok_live string_put)

lemma msetnx_check_tracked: "set keys \<subseteq> K \<Longrightarrow> tracked K s (snd (msetnx_check keys now s))"
proof (induction keys arbitrary: s)
  case (Cons key keys)
  have "tracked K s (purge key now s)" using Cons.prems by (intro tracked_purge) auto
  moreover have "tracked K (purge key now s) (snd (msetnx_check keys now (purge key now s)))"
    using Cons by simp
  ultimately show ?case by (auto simp: locked_eqs intro: tracked_trans)
qed simp

lemma msetnx_set_tracked: "fst ` set ps \<subseteq> K \<Longrightarrow> tracked K s (fold (msetnx_set1 now) ps s)"
proof (induction ps arbitrary: s)
  case (Cons p ps)
  have "tracked K s (msetnx_set1 now p s)"
    using Cons.prems by (cases p) (auto simp: msetnx_set1_def intro!: tracked_touch)
  moreover have "tracked K (msetnx_set1 now p s) (fold (msetnx_set1 now) ps (msetnx_set1 now p s))"
    using Cons by simp
  ultimately show ?case by (auto intro: tracked_trans)
qed simp

lemma MSetNX_tracked: "tracked (set keys) s (snd (Store_MSetNX keys vals now s))"
proof -
  obtain free t where c: "msetnx_check keys now s = (free, t)" by (cases "msetnx_check keys now s")
  have "tracked (set keys) s t" using msetnx_check_tracked [of keys "set keys" s now] c by simp
  moreover have "tracked (set keys) t (fold (msetnx_set1 now) (zip keys vals) t)"
    by (rule msetnx_set_tracked) (auto dest: set_zip_leftD)
  ultimately show ?thesis by (auto simp: Store_MSetNX_def c Let_def intro: tracked_trans)
qed


section \<open>Strings as the commands see them\<close>

lemma delayed_purge: "j \<noteq> k \<Longrightarrow> delayed j now (purge k now s) = delayed j now s"
  by (simp add: delayed_def purge_def)

lemma exists_purge: "existsRLocked j now (purge k now s) = existsRLocked j now s"
  by (cases "j = k", simp) (simp add: exists_column delayed_purge)

lemma msetnx_check:
  "fst (msetnx_check keys now s) = (\<forall>k \<in> set keys. \<not> existsRLocked k now s)"
  "live now (snd (msetnx_check keys now s)) j = live now s j"
  "existsRLocked j now (snd (msetnx_check keys now s)) = existsRLocked j now s"
  "fst (msetnx_check keys now s) \<Longrightarrow> k \<in> set keys \<Longrightarrow> \<not> isExpiredRLocked k now (snd (msetnx_check keys now s))"
proof (induction keys arbitrary: s)
  case (Cons key keys)
  { case 1
    then show ?case using Cons.IH(1) [of "purge key now s"] by (auto simp: locked_eqs exists_purge)
  next
    case 2
    then show ?case using Cons.IH(2) [of "purge key now s"] by (auto simp: locked_eqs)
  next
    case 3
    then show ?case using Cons.IH(3) [of "purge key now s"] by (auto simp: locked_eqs exists_purge)
  next
    case 4
    have fresh: "\<not> isExpiredRLocked j now t \<Longrightarrow> \<not> isExpiredRLocked j now (snd (msetnx_check keys now t))" for j t
    proof (induction keys arbitrary: t)
      case (Cons key keys)
      then show ?case by (auto simp: locked_eqs)
    qed simp
    show ?case
    proof (cases "k = key")
      case True
      then show ?thesis using 4 fresh [of key "purge key now s"] by (auto simp: locked_eqs exists_purge split: if_splits)
    next
      case False
      then show ?thesis using 4 Cons.IH(4) [of "purge key now s"] by (auto simp: locked_eqs exists_purge split: if_splits)
    qed }
qed simp_all

lemma msetnx_set_column:
  "column (fold (msetnx_set1 now) ps s) k =
     (case map_of (rev ps) k of None \<Rightarrow> column s k | Some v \<Rightarrow> (column s k)\<lparr>cKV := Some v, cExp := None\<rparr>)"
proof (induction ps arbitrary: s)
  case (Cons p ps)
  obtain key v where p: "p = (key, v)" by (cases p)
  have "column (msetnx_set1 now p s) k = (if k = key then (column s k)\<lparr>cKV := Some v, cExp := None\<rparr> else column s k)"
    by (simp add: msetnx_set1_def p)
  then show ?case by (simp add: Cons map_add_def p split: option.split)
qed simp

text \<open>C12: \<open>MSETNX\<close> is all or nothing.  If one of the keys exists, the call reports it and the store holds
  what it held; otherwise every key holds its (last) value without a deadline, and no other key has
  changed.\<close>

theorem msetnx_all_or_nothing:
  assumes "length vals = length keys"
  shows "fst (Store_MSetNX keys vals now s) = Inr (list_all (\<lambda>k. \<not> existsRLocked k now s) keys) \<and>
    live now (snd (Store_MSetNX keys vals now s)) k =
      (if fst (Store_MSetNX keys vals now s) = Inr True
       then (case map_of (rev (zip keys vals)) k of
               None \<Rightarrow> live now s k | Some v \<Rightarrow> (live now s k)\<lparr>cKV := Some v, cExp := None\<rparr>)
       else live now s k)"
proof -
  obtain r t where call: "Store_MSetNX keys vals now s = (r, t)" by (cases "Store_MSetNX keys vals now s")
  obtain free u where c: "msetnx_check keys now s = (free, u)" by (cases "msetnx_check keys now s")
  note chk = msetnx_check [where keys = keys and now = now and s = s, unfolded c fst_conv snd_conv]
  show ?thesis
  proof (cases free)
    case False
    then have "r = Inr False" "t = u" using call by (simp_all add: Store_MSetNX_def c)
    then show ?thesis using False chk(1,2) by (simp add: call list_all_iff)
  next
    case True
    then have rt: "r = Inr True" "t = fold (msetnx_set1 now) (zip keys vals) u"
      using call assms by (auto simp: Store_MSetNX_def c Let_def)
    have "live now t k = (case map_of (rev (zip keys vals)) k of
        None \<Rightarrow> live now u k | Some v \<Rightarrow> (live now u k)\<lparr>cKV := Some v, cExp := None\<rparr>)"
    proof (cases "map_of (rev (zip keys vals)) k")
      case None
      then show ?thesis by (simp add: rt live_def isExpired_column msetnx_set_column)
    next
      case (Some v)
      then have "k \<in> set keys" by (auto dest!: map_of_SomeD simp: set_zip_leftD)
      then have "\<not> isExpiredRLocked k now u" using True chk(4) by blast
      then show ?thesis by (simp add: rt live_def isExpired_column msetnx_set_column Some)
    qed
    then show ?thesis using True chk(1,2) rt by (simp add: call list_all_iff split: option.split)
  qed
qed


theorem msetnx_all_or_nothing_witness:
  "length [''1'', ''2''] = length [''a'', ''b''] \<and>
   fst (Store_MSetNX [''a'', ''b''] [''1'', ''2''] 5 Store_New) = Inr True \<and>
   cKV (live 5 (snd (Store_MSetNX [''a'', ''b''] [''1'', ''2''] 5 Store_New)) ''b'') = Some ''2''"
  using msetnx_all_or_nothing [of "[''1'', ''2'']" "[''a'', ''b'']" 5 Store_New "''b''"]
  by (simp add: existsRLocked_def isExpiredRLocked_def delayed_def anyOf_def Store_New_def)

text \<open>C28: A string that was set is read back until its deadline and not after it, whatever the key held
  before: after \<open>SET key value\<close> with a time to live \<open>ttl\<close> (none if it is not positive), \<open>GET key\<close> at a time \<open>t\<close>
  answers nothing when the deadline \<open>now + ttl\<close> has been reached (a deadline that is the zero time of Go counts as none)
  and nothing while a delay that an earlier \<open>SETDELAYED\<close> put on the key is pending, because \<open>Set\<close> does not remove
  it from \<open>notBefore\<close>; at every other time it answers the value.\<close>

theorem get_after_set:
  "fst (Store_Get key t (Store_Set key v ttl now s)) =
     (if 0 < ttl \<and> now + ttl \<noteq> zeroTime \<and> now + ttl \<le> t then None
      else if delayed key t s then None
      else Some v)"
proof -
  have nb: "notBefore (Store_Set key v ttl now s) = notBefore s"
    by (simp add: Store_Set_def string_cols record_access_def)
  have c: "fmlookup (kv (Store_Set key v ttl now s)) key = Some v"
    "fmlookup (expires (Store_Set key v ttl now s)) key = (if 0 < ttl then Some (now + ttl) else None)"
    by (simp_all add: column_lookup Set_column string_column_def)
  show ?thesis by (auto simp: Store_Get_def isExpiredRLocked_def delayed_def nb c IsZero_def split: option.split)
qed

theorem get_after_set_witness:
  "fst (Store_Get ''k'' 149 (Store_Set ''k'' ''v'' 50 100 Store_New)) = Some ''v'' \<and>
   fst (Store_Get ''k'' 150 (Store_Set ''k'' ''v'' 50 100 Store_New)) = None \<and>
   fst (Store_Get ''k'' 120 (Store_Set ''k'' ''v'' 50 100 (Store_New\<lparr>notBefore := fmupd ''k'' 130 fmempty\<rparr>))) = None"
  unfolding get_after_set by (simp add: Store_New_def zeroTime_def delayed_def)

text \<open>The counter operations in a row, with the clock readings they happen at.\<close>

fun incr_all :: "key \<Rightarrow> (int \<times> gotime) list \<Rightarrow> store \<Rightarrow> int res list \<times> store" where
  "incr_all key [] s = ([], s)"
| "incr_all key ((delta, now) # ds) s =
     (case Store_IncrBy key delta now s of (r, s) \<Rightarrow> (case incr_all key ds s of (rs, s) \<Rightarrow> (r # rs, s)))"

definition counter :: "int \<Rightarrow> column \<Rightarrow> bool" where
  "counter n c \<longleftrightarrow> \<not> list_ex (col_holds c) other_kinds \<and> cKV c = Some (FormatInt n)"

lemma IncrBy_counter:
  assumes "counter n (column s key)" "cExp (column s key) = None" "int64 n"
  shows "fst (Store_IncrBy key delta now s) = Inr (wrap64 (n + delta))"
    and "column (snd (Store_IncrBy key delta now s)) key = (column s key)\<lparr>cKV := Some (FormatInt (wrap64 (n + delta)))\<rparr>"
proof -
  have "live now s key = column s key" using assms(2) by (simp add: live_def isExpired_column)
  then have "\<not> list_ex (col_holds (live now s key)) other_kinds" "cKV (live now s key) = Some (FormatInt n)"
    using assms(1) by (simp_all add: counter_def)
  with assms(3) \<open>live now s key = column s key\<close>
  show "fst (Store_IncrBy key delta now s) = Inr (wrap64 (n + delta))"
    "column (snd (Store_IncrBy key delta now s)) key = (column s key)\<lparr>cKV := Some (FormatInt (wrap64 (n + delta)))\<rparr>"
    by (simp_all add: IncrBy_eq ParseInt_FormatInt column_purge Let_def)
qed

text \<open>A counter adds up.  On a key that holds the decimal form of an \<open>int64\<close> and has no deadline, any
  sequence of increments succeeds and leaves the decimal form of the start plus all increments,
  reduced to the range of \<open>int64\<close>: nothing is lost, and overflow wraps around without an error.\<close>

theorem incr_all_sum:
  assumes "counter n (column s key)" "cExp (column s key) = None" "int64 n"
  shows "counter (wrap64 (n + sum_list (map fst ds))) (column (snd (incr_all key ds s)) key) \<and>
    length (fst (incr_all key ds s)) = length ds \<and> list_all (\<lambda>r. \<not> isl r) (fst (incr_all key ds s))"
  using assms
proof (induction ds arbitrary: n s)
  case Nil
  then show ?case by (simp add: wrap64_id)
next
  case (Cons d ds)
  obtain delta now where d: "d = (delta, now)" by (cases d)
  obtain r t where call: "Store_IncrBy key delta now s = (r, t)" by (cases "Store_IncrBy key delta now s")
  from IncrBy_counter [OF Cons.prems, of delta now]
  have t: "r = Inr (wrap64 (n + delta))" "column t key = (column s key)\<lparr>cKV := Some (FormatInt (wrap64 (n + delta)))\<rparr>"
    by (simp_all add: call)
  have "counter (wrap64 (n + delta)) (column t key)" "cExp (column t key) = None"
    using Cons.prems by (simp_all add: t counter_def other_kinds_def)
  moreover have "wrap64 (wrap64 (n + delta) + sum_list (map fst ds)) = wrap64 (n + sum_list (map fst (d # ds)))"
    by (simp add: d wrap64_add add.assoc)
  ultimately show ?case
    using Cons.IH [OF _ _ int64_wrap64, of "n + delta" t] by (simp add: d call t(1) split_def)
qed


theorem incr_all_sum_witness:
  "counter 5 (column (Store_Set ''n'' ''5'' 0 1 Store_New) ''n'') \<and>
   counter 12 (column (snd (incr_all ''n'' [(3, 2), (4, 9)] (Store_Set ''n'' ''5'' 0 1 Store_New))) ''n'')"
proof -
  have five: "FormatInt 5 = ''5''" by code_simp
  have c: "counter 5 (column (Store_Set ''n'' ''5'' 0 1 Store_New) ''n'')" "cExp (column (Store_Set ''n'' ''5'' 0 1 Store_New) ''n'') = None"
    by (simp_all add: counter_def five Set_column string_column_def other_kinds_def)
  from incr_all_sum [OF this, of "[(3, 2), (4, 9)]"] c(1) show ?thesis by (simp add: int64_def wrap64_def)
qed

section \<open>Ranges\<close>

lemma length_copy_at [simp]: "off + length src \<le> length buf \<Longrightarrow> length (copy_at off src buf) = length buf"
  by (simp add: copy_at_def)

text \<open>The string that \<open>SETRANGE\<close> leaves: the old one, padded with zero bytes up to the offset, with the new
  bytes over it.\<close>

definition overlay :: "nat \<Rightarrow> string \<Rightarrow> string \<Rightarrow> string" where
  "overlay off v u = take off (u @ zero_bytes (off - length u)) @ v @ drop (off + length v) u"

lemma copy_overlay_long:
  "length u < off + length v \<Longrightarrow> copy_at off v (copy_at 0 u (zero_bytes (off + length v))) = overlay off v u"
  by (auto simp: copy_at_def overlay_def zero_bytes_def)

lemma copy_overlay_short:
  "off + length v \<le> length u \<Longrightarrow> copy_at off v u = overlay off v u"
  by (auto simp: copy_at_def overlay_def zero_bytes_def)

lemma SetRange_eq:
  assumes "0 \<le> off" "off + int (length v) < 2 ^ 63" "\<not> list_ex (col_holds (live now s key)) other_kinds"
  shows "Store_SetRange key off v now s =
    (let u = overlay (nat off) v (case cKV (live now s key) of None \<Rightarrow> [] | Some u \<Rightarrow> u); s = purge key now s
     in (Inr (length u), touchKeyLocked [key] now (s\<lparr>kv := fmupd key u (kv s)\<rparr>)))"
proof -
  define u where "u = (case cKV (live now s key) of None \<Rightarrow> [] | Some u \<Rightarrow> u)"
  have w: "wrap64 (off + int (length v)) = off + int (length v)" using assms by (intro wrap64_id) (simp add: int64_def)
  have n: "nat (off + int (length v)) = nat off + length v" using assms(1) by simp
  show ?thesis
  proof (cases "int (length u) < off + int (length v)")
    case True
    then have "length u < nat off + length v" using assms(1) by linarith
    then show ?thesis
      using True assms by (simp add: Store_SetRange_def locked_eqs Let_def w n purge_lookup u_def [symmetric] copy_overlay_long)
  next
    case False
    then have "nat off + length v \<le> length u" "\<not> int (length u) < off" using assms(1) by linarith+
    then show ?thesis
      using False assms by (simp add: Store_SetRange_def locked_eqs Let_def w purge_lookup u_def [symmetric] copy_overlay_short)
  qed
qed


lemma GetRange_eq:
  assumes "\<not> isExpiredRLocked key now s" "\<not> list_ex (col_holds (column s key)) other_kinds" "cKV (column s key) = Some str"
  shows "Store_GetRange key start stop now s = Inr (list_range start stop str)"
proof -
  have kv: "fmlookup (kv s) key = Some str" using assms(3) by (simp add: column_lookup)
  have e: "nat (b - a + 1) = nat (b + 1) - nat a" if "0 \<le> a" for a b :: int using that by linarith
  show ?thesis
    using assms(1,2)
    by (auto simp: Store_GetRange_def anyOf_column kv list_range_def normalizeRange_def Let_def e)
qed

lemma normalizeRange_id: "0 \<le> a \<Longrightarrow> a \<le> b \<Longrightarrow> b < n \<Longrightarrow> normalizeRange a b n = Some (a, b)"
  by (simp add: normalizeRange_def Let_def)

lemma drop_overlay: "take (length v) (drop off (overlay off v u)) = v"
  by (simp add: overlay_def zero_bytes_def)

lemma length_overlay: "length (overlay off v u) = max (off + length v) (length u)"
  by (auto simp: overlay_def zero_bytes_def)

text \<open>C29: \<open>SETRANGE\<close> writes exactly its bytes.  On a key that holds no other kind of value, it answers the
  new length; the string becomes the old one, padded with zero bytes up to the offset, with the new
  bytes written over it; the deadline of the key stays; and \<open>GETRANGE\<close> over those positions reads the
  new bytes back.\<close>

theorem setrange_getrange:
  assumes "0 \<le> off" "off + int (length v) < 2 ^ 63" "\<not> list_ex (col_holds (live now s key)) other_kinds" "v \<noteq> []"
  shows "let u = (case cKV (live now s key) of None \<Rightarrow> [] | Some u \<Rightarrow> u); (r, t) = Store_SetRange key off v now s in
    r = Inr (max (nat off + length v) (length u)) \<and>
    column t key = (live now s key)\<lparr>cKV := Some (overlay (nat off) v u)\<rparr> \<and>
    Store_GetRange key off (off + int (length v) - 1) now t = Inr v"
proof -
  define u where "u = (case cKV (live now s key) of None \<Rightarrow> [] | Some u \<Rightarrow> u)"
  define w where "w = overlay (nat off) v u"
  obtain r t where call: "Store_SetRange key off v now s = (r, t)" by (cases "Store_SetRange key off v now s")
  have rt: "r = Inr (length w)" "column t key = (live now s key)\<lparr>cKV := Some w\<rparr>"
    using SetRange_eq [OF assms(1,2,3)] call by (auto simp: Let_def u_def w_def column_purge)
  have lw: "length w = max (nat off + length v) (length u)" by (simp add: w_def length_overlay)
  have "\<not> isExpiredRLocked key now t" using isExpired_purge [of key now key s]
    by (simp add: isExpired_column rt column_purge)
  moreover have "\<not> list_ex (col_holds (column t key)) other_kinds" using assms(3) by (simp add: rt other_kinds_def)
  ultimately have "Store_GetRange key off (off + int (length v) - 1) now t = Inr (list_range off (off + int (length v) - 1) w)"
    by (rule GetRange_eq) (simp add: rt)
  moreover have "normalizeRange off (off + int (length v) - 1) (int (length w)) = Some (off, off + int (length v) - 1)"
  proof (rule normalizeRange_id)
    have "0 < length v" using assms(4) by simp
    then show "off \<le> off + int (length v) - 1" by linarith
    have "nat off + length v \<le> length w" using lw by simp
    then show "off + int (length v) - 1 < int (length w)" by linarith
  qed (rule assms(1))
  then have "list_range off (off + int (length v) - 1) w = v"
    using drop_overlay [of v "nat off" u] by (simp add: list_range_def w_def)
  ultimately show ?thesis by (simp add: call rt Let_def u_def [symmetric] w_def [symmetric] lw)
qed

theorem setrange_getrange_witness:
  "fst (Store_SetRange ''k'' 2 ''ab'' 7 Store_New) = Inr 4 \<and>
   Store_GetRange ''k'' 2 3 7 (snd (Store_SetRange ''k'' 2 ''ab'' 7 Store_New)) = Inr ''ab''"
proof -
  have l: "live 7 Store_New ''k'' = no_column" by (simp add: live_def)
  have o: "\<not> list_ex (col_holds (live 7 Store_New ''k'')) other_kinds" by (simp add: l other_kinds_def)
  show ?thesis
    using setrange_getrange [OF _ _ o, of 2 "''ab''"] by (simp add: l split_def Let_def)
qed

text \<open>An offset at the top of the range brings the server down: \<open>offset + len(value)\<close> wraps to a negative
  number, the test for growing fails, and slicing the old string at the offset panics; nothing in the
  server recovers from a panic.\<close>

theorem setrange_overflow_panics:
  assumes "length v < 2 ^ 63 - 1" "cJson (column s key) = None" "cTS (column s key) = None"
  shows "fst (Store_SetRange key maxInt64 [c] now (Store_Set key v 0 now s)) = Inl (Panic ''slice bounds out of range'')"
proof -
  let ?t = "Store_Set key v 0 now s"
  have l: "live now ?t key = string_column v None (column s key)"
    by (simp add: live_def isExpired_column Set_column) (simp add: string_column_def)
  have o: "\<not> list_ex (col_holds (live now ?t key)) other_kinds"
    using assms by (simp add: l string_column_def other_kinds_def)
  have w: "wrap64 (maxInt64 + 1) = - (2 ^ 63)" by (simp add: wrap64_def maxInt64_def)
  have kv: "cKV (live now ?t key) = Some v" by (simp add: l string_column_def)
  have "int (length v) < maxInt64" "0 \<le> maxInt64" using assms(1) by (simp_all add: maxInt64_def)
  then show ?thesis
    using o by (simp add: Store_SetRange_def locked_eqs Let_def purge_lookup kv w)
qed

theorem setrange_overflow_panics_witness:
  "fst (Store_SetRange ''k'' maxInt64 ''x'' 3 (Store_Set ''k'' ''v'' 0 3 Store_New)) = Inl (Panic ''slice bounds out of range'')"
  using setrange_overflow_panics [of "''v''" Store_New "''k''" "CHR ''x''" 3] by simp

end
