(* ===== verification/Vole_Hashes.thy ===== *)
theory Vole_Hashes
  imports Vole_Strings
begin

text \<open>
  The hash operations of \<^verbatim>\<open>internal/store/store.go\<close>, and that on a key that holds a hash or nothing they
  are the operations of a finite map from fields to values.
\<close>

section \<open>Operations\<close>

definition hash_kinds :: "kind list" where
  "hash_kinds = [KList, KSet, KZSet, KStream, KHll, KJson, KTimeSeries]"

text \<open>\<open>if s.hashes[key] == nil { s.hashes[key] = make(map[string]string) }\<close>\<close>

definition make_hash :: "key \<Rightarrow> store \<Rightarrow> store" where
  "make_hash key s = (if has (hashes s) key then s else s\<lparr>hashes := fmupd key fmempty (hashes s)\<rparr>)"

definition hash_of :: "key \<Rightarrow> store \<Rightarrow> string gomap" where
  "hash_of key s = (case fmlookup (hashes s) key of None \<Rightarrow> fmempty | Some h \<Rightarrow> h)"

fun hset_loop :: "HashPair list \<Rightarrow> nat \<Rightarrow> string gomap \<Rightarrow> nat \<times> string gomap" where
  "hset_loop [] added h = (added, h)"
| "hset_loop (pair # pairs) added h =
     (let added = (if fmlookup h (Field pair) = None then added + 1 else added)
      in hset_loop pairs added (fmupd (Field pair) (FieldValue pair) h))"

definition Store_HSet :: "key \<Rightarrow> HashPair list \<Rightarrow> gotime \<Rightarrow> store \<Rightarrow> nat res \<times> store" where
  "Store_HSet key pairs now s =
     (if pairs = [] then (Inl (Err ''wrong number of hash field arguments''), s)
      else case expiredKeyLocked key now s of (_, s) \<Rightarrow>
        case wrongTypeLocked hash_kinds key now s of (wrong, s) \<Rightarrow>
          if wrong then (Inl WrongType, s)
          else let s = make_hash key s in
            case hset_loop pairs 0 (hash_of key s) of (added, h) \<Rightarrow>
              (Inr added, touchKeyLocked [key] now (s\<lparr>hashes := fmupd key h (hashes s)\<rparr>)))"

definition Store_HGet :: "key \<Rightarrow> string \<Rightarrow> gotime \<Rightarrow> store \<Rightarrow> string option res" where
  "Store_HGet key field now s =
     (if isExpiredRLocked key now s then Inr None
      else if wrongTypeRLocked hash_kinds key now s then Inl WrongType
      else case fmlookup (hashes s) key of None \<Rightarrow> Inr None | Some h \<Rightarrow> Inr (fmlookup h field))"

definition Store_HGetAll :: "key \<Rightarrow> gotime \<Rightarrow> store \<Rightarrow> HashPair list res" where
  "Store_HGetAll key now s =
     (if isExpiredRLocked key now s then Inr []
      else if wrongTypeRLocked hash_kinds key now s then Inl WrongType
      else let h = hash_of key s
           in Inr (map (\<lambda>f. \<lparr>Field = f, FieldValue = the (fmlookup h f)\<rparr>) (sorted_keys h)))"

definition Store_HVals :: "key \<Rightarrow> gotime \<Rightarrow> store \<Rightarrow> string list res" where
  "Store_HVals key now s =
     (if isExpiredRLocked key now s then Inr []
      else if wrongTypeRLocked hash_kinds key now s then Inl WrongType
      else let h = hash_of key s in Inr (sort (map (\<lambda>f. the (fmlookup h f)) (sorted_keys h))))"

definition Store_HKeys :: "key \<Rightarrow> gotime \<Rightarrow> store \<Rightarrow> string list res" where
  "Store_HKeys key now s =
     (if isExpiredRLocked key now s then Inr []
      else if wrongTypeRLocked hash_kinds key now s then Inl WrongType
      else Inr (sorted_keys (hash_of key s)))"

fun hdel_loop :: "string list \<Rightarrow> nat \<Rightarrow> string gomap \<Rightarrow> nat \<times> string gomap" where
  "hdel_loop [] deleted h = (deleted, h)"
| "hdel_loop (field # fs) deleted h =
     (if has h field then hdel_loop fs (deleted + 1) (fmdrop field h) else hdel_loop fs deleted h)"

definition Store_HDel :: "key \<Rightarrow> string list \<Rightarrow> gotime \<Rightarrow> store \<Rightarrow> nat res \<times> store" where
  "Store_HDel key fs now s =
     (case expiredKeyLocked key now s of (e, s) \<Rightarrow>
        if e then (Inr 0, s)
        else case wrongTypeLocked hash_kinds key now s of (wrong, s) \<Rightarrow>
          if wrong then (Inl WrongType, s)
          else case fmlookup (hashes s) key of
            None \<Rightarrow> (Inr 0, s)
          | Some h \<Rightarrow>
              case hdel_loop fs 0 h of (deleted, h) \<Rightarrow>
                let s = (if map_len h = 0
                         then s\<lparr>hashes := fmdrop key (hashes s), expires := fmdrop key (expires s)\<rparr>
                         else s\<lparr>hashes := fmupd key h (hashes s)\<rparr>)
                in (Inr deleted, if 0 < deleted then touchKeyLocked [key] now s else s))"

definition Store_HIncrBy :: "key \<Rightarrow> string \<Rightarrow> int \<Rightarrow> gotime \<Rightarrow> store \<Rightarrow> int res \<times> store" where
  "Store_HIncrBy key field delta now s =
     (case expiredKeyLocked key now s of (_, s) \<Rightarrow>
      case wrongTypeLocked hash_kinds key now s of (wrong, s) \<Rightarrow>
        if wrong then (Inl WrongType, s)
        else let s = make_hash key s; h = hash_of key s in
          case (case fmlookup h field of
                  None \<Rightarrow> Inr 0
                | Some v \<Rightarrow> (case ParseInt v of (n, None) \<Rightarrow> Inr n
                             | (n, Some err) \<Rightarrow> Inl (Err ''hash value is not an integer''))) of
            Inl err \<Rightarrow> (Inl err, s)
          | Inr n \<Rightarrow>
              let n = wrap64 (n + delta);
                  s = s\<lparr>hashes := fmupd key (fmupd field (FormatInt n) h) (hashes s)\<rparr>
              in (Inr n, touchKeyLocked [key] now s))"

definition Store_HSetNX :: "key \<Rightarrow> string \<Rightarrow> string \<Rightarrow> gotime \<Rightarrow> store \<Rightarrow> bool res \<times> store" where
  "Store_HSetNX key field value now s =
     (case expiredKeyLocked key now s of (_, s) \<Rightarrow>
      case wrongTypeLocked hash_kinds key now s of (wrong, s) \<Rightarrow>
        if wrong then (Inl WrongType, s)
        else let s = make_hash key s; h = hash_of key s in
          if has h field then (Inr False, s)
          else (Inr True, touchKeyLocked [key] now (s\<lparr>hashes := fmupd key (fmupd field value h) (hashes s)\<rparr>)))"

definition Store_HLen :: "key \<Rightarrow> gotime \<Rightarrow> store \<Rightarrow> nat res" where
  "Store_HLen key now s =
     (if isExpiredRLocked key now s then Inr 0
      else if wrongTypeRLocked hash_kinds key now s then Inl WrongType
      else Inr (map_len (hash_of key s)))"

definition Store_HExists :: "key \<Rightarrow> string \<Rightarrow> gotime \<Rightarrow> store \<Rightarrow> bool res" where
  "Store_HExists key field now s =
     (if isExpiredRLocked key now s then Inr False
      else if wrongTypeRLocked hash_kinds key now s then Inl WrongType
      else case fmlookup (hashes s) key of None \<Rightarrow> Inr False | Some h \<Rightarrow> Inr (has h field))"

section \<open>The map behind a hash key\<close>

text \<open>The column of a key that holds the hash \<open>h\<close>, or nothing if it is empty.\<close>

definition hash_column :: "string gomap \<Rightarrow> column \<Rightarrow> column" where
  "hash_column h c = c\<lparr>cHash := (if h = fmempty then None else Some h)\<rparr>"

definition hash_at :: "column \<Rightarrow> string gomap" where
  "hash_at c = (case cHash c of None \<Rightarrow> fmempty | Some h \<Rightarrow> h)"

definition put_pairs :: "HashPair list \<Rightarrow> string gomap \<Rightarrow> string gomap" where
  "put_pairs ps h = fold (\<lambda>p. fmupd (Field p) (FieldValue p)) ps h"

lemma put_pairs_Cons: "put_pairs (p # ps) h = put_pairs ps (fmupd (Field p) (FieldValue p) h)"
  by (simp add: put_pairs_def)

lemma put_pairs_len: "map_len h \<le> map_len (put_pairs ps h)"
proof (induction ps arbitrary: h)
  case (Cons p ps)
  from Cons [of "fmupd (Field p) (FieldValue p) h"] show ?case
    by (simp add: put_pairs_Cons map_len_upd split: if_splits)
qed (simp add: put_pairs_def)

lemma hset_loop: "hset_loop ps n h = (n + (map_len (put_pairs ps h) - map_len h), put_pairs ps h)"
proof (induction ps arbitrary: n h)
  case (Cons p ps)
  show ?case using put_pairs_len [of "fmupd (Field p) (FieldValue p) h" ps]
    by (auto simp: Cons put_pairs_Cons map_len_upd split: if_splits)
qed (simp add: put_pairs_def)

lemma put_pairs_ne: "ps \<noteq> [] \<Longrightarrow> put_pairs ps h \<noteq> fmempty"
proof -
  assume "ps \<noteq> []"
  then obtain qs q where ps: "ps = qs @ [q]" by (metis rev_exhaust)
  have "fmlookup (put_pairs ps h) (Field q) = Some (FieldValue q)" by (simp add: ps put_pairs_def)
  then show ?thesis by (metis fmempty_lookup option.distinct(1))
qed

lemma drop_fields_len: "map_len (fold fmdrop fs h) \<le> map_len h"
proof (induction fs arbitrary: h)
  case (Cons f fs)
  from Cons [of "fmdrop f h"] show ?case by (simp add: map_len_drop split: if_splits)
qed simp

lemma has_map_len: "has h f \<Longrightarrow> 0 < map_len h"
  by (metis fmempty_lookup map_len_0 neq0_conv)

lemma hdel_loop: "hdel_loop fs n h = (n + (map_len h - map_len (fold fmdrop fs h)), fold fmdrop fs h)"
proof (induction fs arbitrary: n h)
  case (Cons f fs)
  show ?case using has_map_len [of h f] drop_fields_len [of fs "fmdrop f h"]
    by (auto simp: Cons map_len_drop split: if_splits)
qed simp

lemma make_hash_simps [simp]:
  "column (make_hash key s) j = (if j = key \<and> cHash (column s key) = None then (column s j)\<lparr>cHash := Some fmempty\<rparr> else column s j)"
  "hash_of key (make_hash key s) = hash_at (column s key)"
  "keyVersion (make_hash key s) = keyVersion s" "version (make_hash key s) = version s"
  by (auto simp: make_hash_def hash_of_def hash_at_def column_def split: option.split)

lemma hash_of_purge [simp]: "hash_of key (purge key now s) = hash_at (live now s key)"
  by (simp add: hash_of_def hash_at_def purge_lookup)

lemma only_hash: "\<not> list_ex (col_holds c) (KString # hash_kinds) \<Longrightarrow> only_kind KHash c"
  by (auto simp: only_kind_def hash_kinds_def core_kinds_def)


section \<open>Columns and tracking\<close>

lemma HSet_tracked: "tracked {key} s (snd (Store_HSet key ps now s))"
  by (auto simp: Store_HSet_def locked_eqs Let_def split_def intro!: tracked_edit tracked_purge)

lemma HSet_column:
  "column (snd (Store_HSet key ps now s)) key =
     (if ps = [] then column s key
      else let c = live now s key in
        if list_ex (col_holds c) (KString # hash_kinds) then c else c\<lparr>cHash := Some (put_pairs ps (hash_at c))\<rparr>)"
  by (auto simp: Store_HSet_def locked_eqs Let_def split_def column_purge hset_loop)

lemma HDel_eq:
  "Store_HDel key fs now s =
     (let c = live now s key; t = purge key now s in
      if list_ex (col_holds c) (KString # hash_kinds) then (Inl WrongType, t)
      else case cHash c of
        None \<Rightarrow> (Inr 0, t)
      | Some h \<Rightarrow>
          let h' = fold fmdrop fs h; deleted = map_len h - map_len h';
              t' = (if h' = fmempty then t\<lparr>hashes := fmdrop key (hashes t), expires := fmdrop key (expires t)\<rparr>
                    else t\<lparr>hashes := fmupd key h' (hashes t)\<rparr>)
          in (Inr deleted, if 0 < deleted then touchKeyLocked [key] now t' else t'))"
proof (cases "isExpiredRLocked key now s")
  case True
  then show ?thesis by (simp add: Store_HDel_def locked_eqs live_expired hash_kinds_def Let_def)
next
  case False
  then show ?thesis by (simp add: Store_HDel_def locked_eqs Let_def hdel_loop purge_lookup split: option.split)
qed

lemma drop_fields_same: "map_len h - map_len (fold fmdrop fs h) = 0 \<Longrightarrow> fold fmdrop fs h = h"
proof (induction fs arbitrary: h)
  case (Cons f fs)
  show ?case
  proof (cases "has h f")
    case True
    have "map_len (fold fmdrop fs (fmdrop f h)) \<le> map_len h - 1"
      using drop_fields_len [of fs "fmdrop f h"] True by (simp add: map_len_drop)
    then show ?thesis using Cons.prems has_map_len [OF True] by simp
  qed (use Cons in simp)
qed simp

lemma HDel_tracked:
  assumes "store_wf s"
  shows "tracked {key} s (snd (Store_HDel key fs now s))"
proof (cases "list_ex (col_holds (live now s key)) (KString # hash_kinds) \<or> cHash (live now s key) = None")
  case True
  then show ?thesis by (auto simp: HDel_eq Let_def intro!: tracked_purge split: option.split)
next
  case False
  then obtain h where h: "cHash (live now s key) = Some h" by blast
  have ne: "h \<noteq> fmempty" using slot_ok_live [OF assms, of now key] h by (simp add: slot_ok_def)
  show ?thesis
  proof (cases "map_len h - map_len (fold fmdrop fs h) = 0")
    case True
    then have same: "fold fmdrop fs h = h" by (rule drop_fields_same)
    have "fmlookup (hashes (purge key now s)) key = Some h" using h by (simp add: purge_lookup)
    then have "fmupd key h (hashes (purge key now s)) = hashes (purge key now s)" by (rule fmupd_present)
    then show ?thesis using False h same ne by (auto simp: HDel_eq Let_def intro!: tracked_purge)
  next
    case deleted: False
    then show ?thesis using False h by (auto simp: HDel_eq Let_def intro!: tracked_edit)
  qed
qed

lemma HDel_column:
  "column (snd (Store_HDel key fs now s)) key =
     (let c = live now s key in
      if list_ex (col_holds c) (KString # hash_kinds) then c
      else case cHash c of None \<Rightarrow> c
        | Some h \<Rightarrow> if fold fmdrop fs h = fmempty then c\<lparr>cHash := None, cExp := None\<rparr> else c\<lparr>cHash := Some (fold fmdrop fs h)\<rparr>)"
  by (auto simp: HDel_eq Let_def column_purge split: option.split)

lemma HIncrBy_tracked: "tracked {key} s (snd (Store_HIncrBy key field delta now s))"
proof (cases "cHash (live now s key)")
  case None
  then show ?thesis
    by (auto simp: Store_HIncrBy_def locked_eqs Let_def hash_at_def column_purge intro!: tracked_edit tracked_purge split: option.split)
next
  case (Some h)
  then have "make_hash key (purge key now s) = purge key now s" by (simp add: make_hash_def purge_lookup)
  then show ?thesis
    by (auto simp: Store_HIncrBy_def locked_eqs Let_def intro!: tracked_edit tracked_purge split: option.split prod.split)
qed

lemma HSetNX_tracked: "tracked {key} s (snd (Store_HSetNX key field v now s))"
proof (cases "cHash (live now s key)")
  case None
  then show ?thesis
    by (auto simp: Store_HSetNX_def locked_eqs Let_def hash_at_def column_purge intro!: tracked_edit tracked_purge)
next
  case (Some h)
  then have "make_hash key (purge key now s) = purge key now s" by (simp add: make_hash_def purge_lookup)
  then show ?thesis
    by (auto simp: Store_HSetNX_def locked_eqs Let_def intro!: tracked_edit tracked_purge)
qed

lemma hash_at_some: "fmlookup (hash_at c) f = Some v \<Longrightarrow> cHash c \<noteq> None"
  by (auto simp: hash_at_def split: option.splits)

lemma HSetNX_column:
  "column (snd (Store_HSetNX key f v now s)) key =
     (let c = live now s key in
      if list_ex (col_holds c) (KString # hash_kinds) \<or> has (hash_at c) f then c
      else c\<lparr>cHash := Some (fmupd f v (hash_at c))\<rparr>)"
  using hash_at_some [of "live now s key" f]
  by (auto simp: Store_HSetNX_def locked_eqs Let_def column_purge)

definition incr_field :: "string \<Rightarrow> int \<Rightarrow> string gomap \<Rightarrow> int res \<times> string gomap" where
  "incr_field f delta h =
     (case (case fmlookup h f of None \<Rightarrow> (0, None) | Some v \<Rightarrow> ParseInt v) of
        (n, Some err) \<Rightarrow> (Inl (Err ''hash value is not an integer''), h)
      | (n, None) \<Rightarrow> (Inr (wrap64 (n + delta)), fmupd f (FormatInt (wrap64 (n + delta))) h))"

lemma HIncrBy_column:
  "fst (Store_HIncrBy key f delta now s) =
     (let c = live now s key in
      if list_ex (col_holds c) (KString # hash_kinds) then Inl WrongType else fst (incr_field f delta (hash_at c)))"
  "column (snd (Store_HIncrBy key f delta now s)) key =
     (let c = live now s key in
      if list_ex (col_holds c) (KString # hash_kinds) \<or> isl (fst (incr_field f delta (hash_at c))) then c
      else c\<lparr>cHash := Some (snd (incr_field f delta (hash_at c)))\<rparr>)"
  using hash_at_some [of "live now s key" f]
  by (auto simp: Store_HIncrBy_def locked_eqs Let_def column_purge incr_field_def split: option.split prod.split)

lemma hash_put:
  "store_wf s \<Longrightarrow> \<not> list_ex (col_holds (live now s key)) (KString # hash_kinds) \<Longrightarrow> h \<noteq> fmempty \<Longrightarrow>
   slot_ok ((live now s key)\<lparr>cHash := Some h\<rparr>)"
  by (intro slot_ok_put(2) slot_ok_live only_hash)

lemma HSet_slot: "store_wf s \<Longrightarrow> slot_ok (column (snd (Store_HSet key ps now s)) key)"
  unfolding HSet_column Let_def using hash_put [of s now key] slot_ok_live [of s now key] put_pairs_ne
  by (auto simp: store_wf_def)

lemma HDel_slot: "store_wf s \<Longrightarrow> slot_ok (column (snd (Store_HDel key fs now s)) key)"
  unfolding HDel_column Let_def using hash_put [of s now key] slot_ok_live [of s now key]
  by (auto intro: slot_ok_drops split: option.split)


lemma fmupd_ne [simp]: "fmupd k v m \<noteq> fmempty"
  by (metis fmempty_lookup fmupd_lookup option.distinct(1))

lemma incr_field_ne: "\<not> isl (fst (incr_field f delta h)) \<Longrightarrow> snd (incr_field f delta h) \<noteq> fmempty"
  by (auto simp: incr_field_def split: option.splits prod.splits)

lemma HIncrBy_slot: "store_wf s \<Longrightarrow> slot_ok (column (snd (Store_HIncrBy key f delta now s)) key)"
  unfolding HIncrBy_column Let_def using hash_put [of s now key] slot_ok_live [of s now key] incr_field_ne by auto

lemma HSetNX_slot: "store_wf s \<Longrightarrow> slot_ok (column (snd (Store_HSetNX key f v now s)) key)"
  unfolding HSetNX_column Let_def using hash_put [of s now key] slot_ok_live [of s now key] by auto

section \<open>Hash commands are map operations\<close>

datatype hash_op =
    OpHSet "HashPair list" | OpHSetNX string string | OpHDel "string list" | OpHIncrBy string int
  | OpHGet string | OpHGetAll | OpHKeys | OpHVals | OpHLen | OpHExists string

datatype hash_out =
    OutNum "nat res" | OutInt "int res" | OutBool "bool res" | OutVal "string option res"
  | OutPairs "HashPair list res" | OutStrs "string list res"

fun hash_step :: "key \<Rightarrow> hash_op \<times> gotime \<Rightarrow> store \<Rightarrow> hash_out \<times> store" where
  "hash_step key (OpHSet ps, now) s = map_prod OutNum id (Store_HSet key ps now s)"
| "hash_step key (OpHSetNX f v, now) s = map_prod OutBool id (Store_HSetNX key f v now s)"
| "hash_step key (OpHDel fs, now) s = map_prod OutNum id (Store_HDel key fs now s)"
| "hash_step key (OpHIncrBy f delta, now) s = map_prod OutInt id (Store_HIncrBy key f delta now s)"
| "hash_step key (OpHGet f, now) s = (OutVal (Store_HGet key f now s), s)"
| "hash_step key (OpHGetAll, now) s = (OutPairs (Store_HGetAll key now s), s)"
| "hash_step key (OpHKeys, now) s = (OutStrs (Store_HKeys key now s), s)"
| "hash_step key (OpHVals, now) s = (OutStrs (Store_HVals key now s), s)"
| "hash_step key (OpHLen, now) s = (OutNum (Store_HLen key now s), s)"
| "hash_step key (OpHExists f, now) s = (OutBool (Store_HExists key f now s), s)"

fun map_step :: "hash_op \<times> gotime \<Rightarrow> string gomap \<Rightarrow> hash_out \<times> string gomap" where
  "map_step (OpHSet ps, now) h =
     (if ps = [] then (OutNum (Inl (Err ''wrong number of hash field arguments'')), h)
      else (OutNum (Inr (map_len (put_pairs ps h) - map_len h)), put_pairs ps h))"
| "map_step (OpHSetNX f v, now) h = (OutBool (Inr (\<not> has h f)), if has h f then h else fmupd f v h)"
| "map_step (OpHDel fs, now) h = (OutNum (Inr (map_len h - map_len (fold fmdrop fs h))), fold fmdrop fs h)"
| "map_step (OpHIncrBy f delta, now) h = map_prod OutInt id (incr_field f delta h)"
| "map_step (OpHGet f, now) h = (OutVal (Inr (fmlookup h f)), h)"
| "map_step (OpHGetAll, now) h =
     (OutPairs (Inr (map (\<lambda>f. \<lparr>Field = f, FieldValue = the (fmlookup h f)\<rparr>) (sorted_keys h))), h)"
| "map_step (OpHKeys, now) h = (OutStrs (Inr (sorted_keys h)), h)"
| "map_step (OpHVals, now) h = (OutStrs (Inr (sort (map (\<lambda>f. the (fmlookup h f)) (sorted_keys h)))), h)"
| "map_step (OpHLen, now) h = (OutNum (Inr (map_len h)), h)"
| "map_step (OpHExists f, now) h = (OutBool (Inr (has h f)), h)"

text \<open>The key holds the hash \<open>h\<close> and nothing else, without a deadline or a delay.\<close>

definition hash_rel :: "key \<Rightarrow> store \<Rightarrow> string gomap \<Rightarrow> bool" where
  "hash_rel key s h \<longleftrightarrow> column s key = hash_column h no_column \<and> fmlookup (notBefore s) key = None"

lemma hash_column_simps [simp]:
  "cKV (hash_column h no_column) = None" "list_ex (col_holds (hash_column h no_column)) hash_kinds = False"
  "cHash (hash_column h no_column) = (if h = fmempty then None else Some h)" "cExp (hash_column h no_column) = None"
  "hash_at (hash_column h no_column) = h"
  by (simp_all add: hash_column_def hash_kinds_def hash_at_def)

lemma hash_rel_fresh:
  assumes "hash_rel key s h"
  shows "isExpiredRLocked key now s = False" "delayed key now s = False" "purge key now s = s"
    "live now s key = hash_column h no_column"
proof -
  show e: "isExpiredRLocked key now s = False"
    using assms by (simp add: hash_rel_def isExpired_column hash_column_def)
  then show "purge key now s = s" "live now s key = hash_column h no_column"
    using assms by (simp_all add: purge_id live_fresh hash_rel_def)
  show "delayed key now s = False" using assms by (simp add: hash_rel_def delayed_def)
qed

lemma hash_rel_read:
  assumes "hash_rel key s h"
  shows "wrongTypeRLocked hash_kinds key now s = False" "hash_of key s = h"
    "fmlookup (hashes s) key = (if h = fmempty then None else Some h)"
proof -
  note r = hash_rel_fresh [OF assms]
  have c: "column s key = hash_column h no_column" using assms by (simp add: hash_rel_def)
  show "wrongTypeRLocked hash_kinds key now s = False"
    by (simp add: wrongTypeRLocked_eq r)
  show l: "fmlookup (hashes s) key = (if h = fmempty then None else Some h)"
    by (simp add: column_lookup c hash_column_def)
  show "hash_of key s = h" by (simp add: hash_of_def l)
qed

lemma hash_column_drop: "(hash_column h no_column)\<lparr>cHash := None, cExp := None\<rparr> = hash_column fmempty no_column"
  by (simp add: hash_column_def no_column_def)

lemma hash_column_put: "h \<noteq> fmempty \<Longrightarrow> (hash_column g no_column)\<lparr>cHash := Some h\<rparr> = hash_column h no_column"
  by (simp add: hash_column_def)


lemma notBefore_purge: "fmlookup (notBefore s) j = None \<Longrightarrow> fmlookup (notBefore (purge k now s)) j = None"
  by (simp add: purge_def)

lemma notBefore_make_hash [simp]: "notBefore (make_hash key s) = notBefore s"
  by (simp add: make_hash_def)

lemma hash_ops_notBefore:
  assumes "fmlookup (notBefore s) key = None"
  shows "fmlookup (notBefore (snd (Store_HSet key ps now s))) key = None"
    "fmlookup (notBefore (snd (Store_HSetNX key f v now s))) key = None"
    "fmlookup (notBefore (snd (Store_HDel key fs now s))) key = None"
    "fmlookup (notBefore (snd (Store_HIncrBy key f delta now s))) key = None"
proof -
  note nb = assms notBefore_purge [OF assms]
  show "fmlookup (notBefore (snd (Store_HSet key ps now s))) key = None"
    by (simp add: Store_HSet_def locked_eqs Let_def split_def nb)
  show "fmlookup (notBefore (snd (Store_HSetNX key f v now s))) key = None"
    by (simp add: Store_HSetNX_def locked_eqs Let_def nb)
  show "fmlookup (notBefore (snd (Store_HDel key fs now s))) key = None"
    by (simp add: HDel_eq Let_def nb split: option.split)
  show "fmlookup (notBefore (snd (Store_HIncrBy key f delta now s))) key = None"
    by (simp add: Store_HIncrBy_def locked_eqs Let_def nb split: sum.split)
qed

lemma hash_step_sim:
  assumes rel: "hash_rel key s h"
  shows "hash_rel key (snd (hash_step key (opn, now) s)) (snd (map_step (opn, now) h)) \<and>
    fst (hash_step key (opn, now) s) = fst (map_step (opn, now) h)"
proof -
  note fresh = hash_rel_fresh [OF rel] and read = hash_rel_read [OF rel]
  have nb: "fmlookup (notBefore s) key = None" and c: "column s key = hash_column h no_column"
    using rel by (simp_all add: hash_rel_def)
  show ?thesis
  proof (cases opn)
    case (OpHSet ps)
    have "hash_rel key (snd (Store_HSet key ps now s)) (if ps = [] then h else put_pairs ps h)"
      using put_pairs_ne [of ps h] nb
      by (simp add: hash_rel_def hash_ops_notBefore HSet_column c fresh hash_column_put Let_def)
    moreover have "fst (Store_HSet key ps now s) =
        (if ps = [] then Inl (Err ''wrong number of hash field arguments'') else Inr (map_len (put_pairs ps h) - map_len h))"
      using fresh by (simp add: Store_HSet_def locked_eqs hset_loop c Let_def)
    ultimately show ?thesis by (cases "ps = []") (simp_all add: OpHSet)
  next
    case (OpHSetNX f v)
    have "hash_rel key (snd (Store_HSetNX key f v now s)) (if has h f then h else fmupd f v h)"
      using nb by (simp add: hash_rel_def hash_ops_notBefore HSetNX_column c fresh hash_column_put Let_def)
    moreover have "fst (Store_HSetNX key f v now s) = Inr (\<not> has h f)"
      using fresh by (simp add: Store_HSetNX_def locked_eqs Let_def c)
    ultimately show ?thesis by (cases "has h f") (simp_all add: OpHSetNX)
  next
    case (OpHDel fs)
    have "fold fmdrop fs fmempty = (fmempty :: string gomap)" by (induction fs) auto
    then have "hash_rel key (snd (Store_HDel key fs now s)) (fold fmdrop fs h)"
      using nb by (simp add: hash_rel_def hash_ops_notBefore HDel_column c fresh hash_column_put hash_column_drop Let_def)
    moreover have "fst (Store_HDel key fs now s) = Inr (map_len h - map_len (fold fmdrop fs h))"
      using \<open>fold fmdrop fs fmempty = fmempty\<close> by (simp add: HDel_eq Let_def fresh)
    ultimately show ?thesis by (simp add: OpHDel)
  next
    case (OpHIncrBy f delta)
    have "snd (incr_field f delta h) = h" if "isl (fst (incr_field f delta h))"
      using that by (auto simp: incr_field_def split: option.splits prod.splits)
    then have "hash_rel key (snd (Store_HIncrBy key f delta now s)) (snd (incr_field f delta h))"
      using nb incr_field_ne [of f delta h]
      by (auto simp: hash_rel_def hash_ops_notBefore HIncrBy_column c fresh hash_column_put Let_def)
    moreover have "fst (Store_HIncrBy key f delta now s) = fst (incr_field f delta h)"
      by (simp add: HIncrBy_column fresh Let_def)
    ultimately show ?thesis by (simp add: OpHIncrBy)
  qed (use rel fresh read in \<open>auto simp: Store_HGet_def Store_HGetAll_def Store_HKeys_def Store_HVals_def
      Store_HLen_def Store_HExists_def Let_def\<close>)
qed

interpretation hash_sim: simulation "hash_step key" map_step "hash_rel key" for key
proof (unfold_locales, goal_cases)
  case (1 s h opn)
  then show ?case using hash_step_sim [of key s h "fst opn" "snd opn"] by simp
next
  case (2 s h opn)
  then show ?case using hash_step_sim [of key s h "fst opn" "snd opn"] by simp
qed

text \<open>C3: On a key that holds nothing, any sequence of hash commands at any times gives the answers of the
  same sequence of operations on a finite map that starts empty: fields are added, replaced, counted
  and removed exactly, the hash disappears with its last field and comes back with the next, and
  counters in fields wrap at 64 bits.\<close>

theorem hash_commands_as_map:
  assumes "column s key = no_column" "fmlookup (notBefore s) key = None"
  shows "fst (run_ops (hash_step key) opns s) = fst (run_ops map_step opns fmempty)"
  by (rule hash_sim.sim_run) (use assms in \<open>simp add: hash_rel_def hash_column_def no_column_def\<close>)

theorem hash_commands_as_map_witness:
  "fst (run_ops (hash_step ''h'') [(OpHSet [\<lparr>Field = ''f'', FieldValue = ''1''\<rparr>], 1), (OpHGet ''f'', 2)] Store_New) =
     [OutNum (Inr 1), OutVal (Inr (Some ''1''))]"
  using hash_commands_as_map [of Store_New "''h''"
      "[(OpHSet [\<lparr>Field = ''f'', FieldValue = ''1''\<rparr>], 1), (OpHGet ''f'', 2)]"]
  by (simp add: put_pairs_def map_len_upd)

end
