(* ===== verification/Vole_Sets.thy ===== *)
theory Vole_Sets
  imports Vole_Hashes
begin

text \<open>
  The set operations of \<^verbatim>\<open>internal/store/store.go\<close> and the random choices shared with hashes.  Where the code
  iterates over a Go map and the order shows, the operation takes the order as an argument; where the
  result is sorted afterwards the order cannot show, and the model goes through the elements in
  increasing order.  \<open>rand.Intn\<close> is a function of the number of the call and the bound.
\<close>

section \<open>Operations\<close>

definition set_kinds :: "kind list" where
  "set_kinds = [KHash, KList, KZSet, KStream, KHll, KJson, KTimeSeries]"

definition set_of :: "key \<Rightarrow> store \<Rightarrow> string fset" where
  "set_of key s = (case fmlookup (sets s) key of None \<Rightarrow> {||} | Some S \<Rightarrow> S)"

fun sadd_loop :: "string list \<Rightarrow> nat \<Rightarrow> string fset \<Rightarrow> nat \<times> string fset" where
  "sadd_loop [] added S = (added, S)"
| "sadd_loop (member # members) added S =
     (if member |\<notin>| S then sadd_loop members (added + 1) (finsert member S) else sadd_loop members added S)"

definition Store_SAdd :: "key \<Rightarrow> string list \<Rightarrow> gotime \<Rightarrow> store \<Rightarrow> nat res \<times> store" where
  "Store_SAdd key members now s =
     (if members = [] then (Inl (Err ''wrong number of set members''), s)
      else case expiredKeyLocked key now s of (_, s) \<Rightarrow>
        case wrongTypeLocked set_kinds key now s of (wrong, s) \<Rightarrow>
          if wrong then (Inl WrongType, s)
          else case sadd_loop members 0 (set_of key s) of (added, S) \<Rightarrow>
            (Inr added, touchKeyLocked [key] now (s\<lparr>sets := fmupd key S (sets s)\<rparr>)))"

fun srem_loop :: "string list \<Rightarrow> nat \<Rightarrow> string fset \<Rightarrow> nat \<times> string fset" where
  "srem_loop [] removed S = (removed, S)"
| "srem_loop (member # members) removed S =
     (if member |\<in>| S then srem_loop members (removed + 1) (S |-| {|member|}) else srem_loop members removed S)"

definition Store_SRem :: "key \<Rightarrow> string list \<Rightarrow> gotime \<Rightarrow> store \<Rightarrow> nat res \<times> store" where
  "Store_SRem key members now s =
     (case expiredKeyLocked key now s of (e, s) \<Rightarrow>
        if e then (Inr 0, s)
        else case wrongTypeLocked set_kinds key now s of (wrong, s) \<Rightarrow>
          if wrong then (Inl WrongType, s)
          else if set_of key s = {||} then (Inr 0, s)
          else case srem_loop members 0 (set_of key s) of (removed, S) \<Rightarrow>
            (Inr removed,
             if S = {||} then s\<lparr>sets := fmdrop key (sets s), expires := fmdrop key (expires s)\<rparr>
             else s\<lparr>sets := fmupd key S (sets s)\<rparr>))"

definition Store_SMembers :: "key \<Rightarrow> gotime \<Rightarrow> store \<Rightarrow> string list res" where
  "Store_SMembers key now s =
     (if isExpiredRLocked key now s then Inr []
      else if wrongTypeRLocked set_kinds key now s then Inl WrongType
      else Inr (sorted_list_of_fset (set_of key s)))"

definition Store_SIsMember :: "key \<Rightarrow> string \<Rightarrow> gotime \<Rightarrow> store \<Rightarrow> bool res" where
  "Store_SIsMember key member now s =
     (if isExpiredRLocked key now s then Inr False
      else if wrongTypeRLocked set_kinds key now s then Inl WrongType
      else Inr (member |\<in>| set_of key s))"

definition Store_SCard :: "key \<Rightarrow> gotime \<Rightarrow> store \<Rightarrow> nat res" where
  "Store_SCard key now s =
     (if isExpiredRLocked key now s then Inr 0
      else if wrongTypeRLocked set_kinds key now s then Inl WrongType
      else Inr (fcard (set_of key s)))"

text \<open>\<open>SInter\<close>: the loop that collects the sets returns early on a wrong type or an empty set.\<close>

fun sinter_collect :: "key list \<Rightarrow> gotime \<Rightarrow> store \<Rightarrow> string fset list \<Rightarrow> (string fset list option) res" where
  "sinter_collect [] now s acc = Inr (Some acc)"
| "sinter_collect (key # keys) now s acc =
     (if isExpiredRLocked key now s then Inr None
      else if wrongTypeRLocked set_kinds key now s then Inl WrongType
      else if set_of key s = {||} then Inr None
      else sinter_collect keys now s (acc @ [set_of key s]))"

fun smallest_loop :: "string fset list \<Rightarrow> nat \<Rightarrow> nat list \<Rightarrow> nat" where
  "smallest_loop ss smallest [] = smallest"
| "smallest_loop ss smallest (i # is) =
     smallest_loop ss (if fcard (ss ! i) < fcard (ss ! smallest) then i else smallest) is"

definition in_all :: "string fset list \<Rightarrow> nat \<Rightarrow> string \<Rightarrow> bool" where
  "in_all ss smallest member = list_all (\<lambda>i. i = smallest \<or> member |\<in>| ss ! i) [0..<length ss]"

definition Store_SInter :: "key list \<Rightarrow> gotime \<Rightarrow> store \<Rightarrow> string list res" where
  "Store_SInter keys now s =
     (case sinter_collect keys now s [] of
        Inl e \<Rightarrow> Inl e
      | Inr None \<Rightarrow> Inr []
      | Inr (Some ss) \<Rightarrow>
          if ss = [] then Inr []
          else let smallest = smallest_loop ss 0 [1..<length ss]
               in Inr (filter (in_all ss smallest) (sorted_list_of_fset (ss ! smallest))))"

fun sunion_loop :: "key list \<Rightarrow> gotime \<Rightarrow> store \<Rightarrow> string fset \<Rightarrow> string fset res" where
  "sunion_loop [] now s un = Inr un"
| "sunion_loop (key # keys) now s un =
     (if isExpiredRLocked key now s then sunion_loop keys now s un
      else if wrongTypeRLocked set_kinds key now s then Inl WrongType
      else sunion_loop keys now s (un |\<union>| set_of key s))"

definition Store_SUnion :: "key list \<Rightarrow> gotime \<Rightarrow> store \<Rightarrow> string list res" where
  "Store_SUnion keys now s =
     (case sunion_loop keys now s {||} of Inl e \<Rightarrow> Inl e | Inr un \<Rightarrow> Inr (sorted_list_of_fset un))"

fun sdiff_collect :: "key list \<Rightarrow> gotime \<Rightarrow> store \<Rightarrow> string fset list \<Rightarrow> string fset list res" where
  "sdiff_collect [] now s acc = Inr acc"
| "sdiff_collect (key # keys) now s acc =
     (if isExpiredRLocked key now s then sdiff_collect keys now s (acc @ [{||}])
      else if wrongTypeRLocked set_kinds key now s then Inl WrongType
      else sdiff_collect keys now s (acc @ [set_of key s]))"

definition Store_SDiff :: "key list \<Rightarrow> gotime \<Rightarrow> store \<Rightarrow> string list res" where
  "Store_SDiff keys now s =
     (case sdiff_collect keys now s [] of
        Inl e \<Rightarrow> Inl e
      | Inr [] \<Rightarrow> Inl (Panic ''index out of range'')
      | Inr (first # others) \<Rightarrow>
          Inr (filter (\<lambda>member. \<not> list_ex (\<lambda>S. member |\<in>| S) others) (sorted_list_of_fset first)))"

definition Store_SMove :: "key \<Rightarrow> key \<Rightarrow> string \<Rightarrow> gotime \<Rightarrow> store \<Rightarrow> bool res \<times> store" where
  "Store_SMove src dst member now s =
     (case expiredKeyLocked src now s of (_, s) \<Rightarrow>
      case expiredKeyLocked dst now s of (_, s) \<Rightarrow>
      case wrongTypeLocked set_kinds src now s of (wrong, s) \<Rightarrow>
        if wrong then (Inl WrongType, s)
        else case wrongTypeLocked set_kinds dst now s of (wrong, s) \<Rightarrow>
          if wrong then (Inl WrongType, s)
          else case fmlookup (sets s) src of
            None \<Rightarrow> (Inr False, s)
          | Some srcSet \<Rightarrow>
              if member |\<notin>| srcSet then (Inr False, s)
              else let srcSet = srcSet |-| {|member|};
                       s = (if srcSet = {||}
                            then s\<lparr>sets := fmdrop src (sets s), expires := fmdrop src (expires s)\<rparr>
                            else s\<lparr>sets := fmupd src srcSet (sets s)\<rparr>);
                       s = s\<lparr>sets := fmupd dst (finsert member (set_of dst s)) (sets s)\<rparr>
                   in (Inr True, touchKeyLocked [dst] now (touchKeyLocked [src] now s)))"

definition Store_SPop :: "string list \<Rightarrow> key \<Rightarrow> int \<Rightarrow> gotime \<Rightarrow> store \<Rightarrow> string list res \<times> store" where
  "Store_SPop order key cnt now s =
     (case expiredKeyLocked key now s of (e, s) \<Rightarrow>
        if e then (Inr [], s)
        else case wrongTypeLocked set_kinds key now s of (wrong, s) \<Rightarrow>
          if wrong then (Inl WrongType, s)
          else if set_of key s = {||} then (Inr [], s)
          else let cnt = (if cnt \<le> 0 then 1 else cnt);
                   result = take (nat cnt) order;
                   S = set_of key s |-| fset_of_list result;
                   s = (if S = {||} then s\<lparr>sets := fmdrop key (sets s), expires := fmdrop key (expires s)\<rparr>
                        else s\<lparr>sets := fmupd key S (sets s)\<rparr>)
               in (Inr result, touchKeyLocked [key] now s))"

section \<open>Random choices\<close>

definition swap :: "nat \<Rightarrow> nat \<Rightarrow> 'a list \<Rightarrow> 'a list" where
  "swap i j xs = xs[i := xs ! j, j := xs ! i]"

text \<open>The Fisher-Yates loop, from the last index down to 1.\<close>

definition shuffle :: "(nat \<Rightarrow> nat \<Rightarrow> nat) \<Rightarrow> 'a list \<Rightarrow> 'a list" where
  "shuffle intn xs = fold (\<lambda>i. swap i (intn i (i + 1))) (rev [1..<length xs]) xs"

text \<open>The common part of \<open>SRandMember\<close> and \<open>HRandField\<close>: \<open>order\<close> lists the elements, sorted if all are wanted.\<close>

definition pick :: "(nat \<Rightarrow> nat \<Rightarrow> nat) \<Rightarrow> string list \<Rightarrow> int \<Rightarrow> string list res" where
  "pick intn order cnt =
     (if cnt = 0 then Inr []
      else let allowDupes = (cnt < 0);
               cnt = (if cnt < 0 then wrap64 (- cnt) else cnt) in
        if \<not> allowDupes
        then (if int (length order) \<le> cnt then Inr (sort order)
              else Inr (take (nat cnt) (shuffle intn order)))
        else if cnt < 0 then Inl (Panic ''makeslice: len out of range'')
        else Inr (map (\<lambda>i. order ! intn i (length order)) [0..<nat cnt]))"

definition Store_SRandMember :: "(nat \<Rightarrow> nat \<Rightarrow> nat) \<Rightarrow> string list \<Rightarrow> key \<Rightarrow> int \<Rightarrow> gotime \<Rightarrow> store \<Rightarrow> string list res" where
  "Store_SRandMember intn order key cnt now s =
     (if isExpiredRLocked key now s then Inr []
      else if wrongTypeRLocked set_kinds key now s then Inl WrongType
      else if set_of key s = {||} then Inr []
      else pick intn order cnt)"

definition Store_HRandField :: "(nat \<Rightarrow> nat \<Rightarrow> nat) \<Rightarrow> string list \<Rightarrow> key \<Rightarrow> int \<Rightarrow> gotime \<Rightarrow> store \<Rightarrow> string list res" where
  "Store_HRandField intn order key cnt now s =
     (if isExpiredRLocked key now s then Inr []
      else if wrongTypeRLocked hash_kinds key now s then Inl WrongType
      else if hash_of key s = fmempty then Inr []
      else pick intn order cnt)"


section \<open>Columns and tracking\<close>

definition set_at :: "column \<Rightarrow> string fset" where
  "set_at c = (case cSet c of None \<Rightarrow> {||} | Some S \<Rightarrow> S)"

lemma set_of_purge [simp]: "set_of key (purge key now s) = set_at (live now s key)"
  by (simp add: set_of_def set_at_def purge_lookup)

lemma set_of_column: "set_of key s = set_at (column s key)"
  by (simp add: set_of_def set_at_def column_lookup)

lemma fcard_finsert_new: "x |\<notin>| S \<Longrightarrow> fcard (finsert x S) = Suc (fcard S)"
  by (simp add: fcard_finsert_disjoint)

lemma fcard_union_le: "fcard S \<le> fcard (S |\<union>| T)"
  by (rule fcard_mono) auto

lemma sadd_loop:
  "sadd_loop ms n S = (n + (fcard (S |\<union>| fset_of_list ms) - fcard S), S |\<union>| fset_of_list ms)"
proof (induction ms arbitrary: n S)
  case (Cons m ms)
  show ?case
  proof (cases "m |\<in>| S")
    case True
    then have "S |\<union>| fset_of_list (m # ms) = S |\<union>| fset_of_list ms" by auto
    with True show ?thesis by (simp add: Cons)
  next
    case False
    have u: "S |\<union>| fset_of_list (m # ms) = finsert m S |\<union>| fset_of_list ms" by auto
    have "Suc (fcard S) \<le> fcard (finsert m S |\<union>| fset_of_list ms)"
      using fcard_union_le [of "finsert m S" "fset_of_list ms"] False by (simp add: fcard_finsert_new)
    with False show ?thesis unfolding u by (simp add: Cons fcard_finsert_new)
  qed
qed simp

lemma fcard_minus_le: "fcard (S |-| T) \<le> fcard S"
  by (rule fcard_mono) auto

lemma srem_loop:
  "srem_loop ms n S = (n + (fcard S - fcard (S |-| fset_of_list ms)), S |-| fset_of_list ms)"
proof (induction ms arbitrary: n S)
  case (Cons m ms)
  show ?case
  proof (cases "m |\<in>| S")
    case False
    then have "S |-| fset_of_list (m # ms) = S |-| fset_of_list ms" by auto
    with False show ?thesis by (simp add: Cons)
  next
    case True
    have u: "S |-| fset_of_list (m # ms) = (S |-| {|m|}) |-| fset_of_list ms" by auto
    have "fcard (S |-| {|m|}) = fcard S - 1" "0 < fcard S"
      using True by (auto simp: fcard.rep_eq card_gt_0_iff)
    then show ?thesis using True fcard_minus_le [of "S |-| {|m|}" "fset_of_list ms"] unfolding u by (simp add: Cons)
  qed
qed simp

lemma SAdd_tracked: "tracked {key} s (snd (Store_SAdd key ms now s))"
  by (auto simp: Store_SAdd_def locked_eqs split_def intro!: tracked_edit tracked_purge)

lemma SAdd_column:
  "column (snd (Store_SAdd key ms now s)) key =
     (if ms = [] then column s key
      else let c = live now s key in
        if list_ex (col_holds c) (KString # set_kinds) then c else c\<lparr>cSet := Some (set_at c |\<union>| fset_of_list ms)\<rparr>)"
  by (auto simp: Store_SAdd_def locked_eqs Let_def split_def column_purge sadd_loop)

lemma SRem_eq:
  "Store_SRem key ms now s =
     (let c = live now s key; t = purge key now s; S = set_at c |-| fset_of_list ms in
      if list_ex (col_holds c) (KString # set_kinds) then (Inl WrongType, t)
      else if set_at c = {||} then (Inr 0, t)
      else (Inr (fcard (set_at c) - fcard S),
            if S = {||} then t\<lparr>sets := fmdrop key (sets t), expires := fmdrop key (expires t)\<rparr>
            else t\<lparr>sets := fmupd key S (sets t)\<rparr>))"
proof (cases "isExpiredRLocked key now s")
  case True
  then show ?thesis by (simp add: Store_SRem_def locked_eqs live_expired set_kinds_def Let_def set_at_def)
next
  case False
  then show ?thesis by (simp add: Store_SRem_def locked_eqs Let_def srem_loop)
qed

lemma SRem_column:
  "column (snd (Store_SRem key ms now s)) key =
     (let c = live now s key; S = set_at c |-| fset_of_list ms in
      if list_ex (col_holds c) (KString # set_kinds) \<or> set_at c = {||} then c
      else if S = {||} then c\<lparr>cSet := None, cExp := None\<rparr> else c\<lparr>cSet := Some S\<rparr>)"
  by (auto simp: SRem_eq Let_def column_purge)

lemma SRem_frame: "j \<noteq> key \<Longrightarrow> column (snd (Store_SRem key ms now s)) j = column s j"
  by (auto simp: SRem_eq Let_def column_purge)

lemma SRem_versions: "versions_ok s \<Longrightarrow> versions_ok (snd (Store_SRem key ms now s))"
proof -
  assume "versions_ok s"
  then have "versions_ok (purge key now s)" using tracked_purge [of key "{key}"] tracked_versions_ok by blast
  then show ?thesis by (auto simp: SRem_eq Let_def versions_ok_def getVersion_def)
qed

lemma SPop_eq:
  "Store_SPop order key cnt now s =
     (let c = live now s key; t = purge key now s;
          result = take (nat (max 1 cnt)) order; S = set_at c |-| fset_of_list result in
      if list_ex (col_holds c) (KString # set_kinds) then (Inl WrongType, t)
      else if set_at c = {||} then (Inr [], t)
      else (Inr result, touchKeyLocked [key] now
            (if S = {||} then t\<lparr>sets := fmdrop key (sets t), expires := fmdrop key (expires t)\<rparr>
             else t\<lparr>sets := fmupd key S (sets t)\<rparr>)))"
proof (cases "isExpiredRLocked key now s")
  case True
  then show ?thesis by (simp add: Store_SPop_def locked_eqs live_expired set_kinds_def Let_def set_at_def)
next
  case False
  then show ?thesis by (simp add: Store_SPop_def locked_eqs Let_def max_def)
qed

lemma SPop_tracked: "tracked {key} s (snd (Store_SPop order key cnt now s))"
  by (auto simp: SPop_eq Let_def intro!: tracked_edit tracked_purge)

lemma SPop_column:
  "column (snd (Store_SPop order key cnt now s)) key =
     (let c = live now s key; S = set_at c |-| fset_of_list (take (nat (max 1 cnt)) order) in
      if list_ex (col_holds c) (KString # set_kinds) \<or> set_at c = {||} then c
      else if S = {||} then c\<lparr>cSet := None, cExp := None\<rparr> else c\<lparr>cSet := Some S\<rparr>)"
  by (auto simp: SPop_eq Let_def column_purge)

lemma only_set: "\<not> list_ex (col_holds c) (KString # set_kinds) \<Longrightarrow> only_kind KSet c"
  by (auto simp: only_kind_def set_kinds_def core_kinds_def)

lemma set_put:
  "store_wf s \<Longrightarrow> \<not> list_ex (col_holds (live now s key)) (KString # set_kinds) \<Longrightarrow> S \<noteq> {||} \<Longrightarrow>
   slot_ok ((live now s key)\<lparr>cSet := Some S\<rparr>)"
  by (intro slot_ok_put(4) slot_ok_live only_set)

lemma SAdd_slot: "store_wf s \<Longrightarrow> slot_ok (column (snd (Store_SAdd key ms now s)) key)"
  unfolding SAdd_column Let_def using set_put [of s now key] slot_ok_live [of s now key]
  by (cases ms) (auto simp: store_wf_def)

lemma SRem_slot: "store_wf s \<Longrightarrow> slot_ok (column (snd (Store_SRem key ms now s)) key)"
  unfolding SRem_column Let_def using set_put [of s now key] slot_ok_live [of s now key]
  by (auto intro: slot_ok_drops)

lemma SPop_slot: "store_wf s \<Longrightarrow> slot_ok (column (snd (Store_SPop order key cnt now s)) key)"
  unfolding SPop_column Let_def using set_put [of s now key] slot_ok_live [of s now key]
  by (auto intro: slot_ok_drops)


lemma SMove_eq:
  "Store_SMove src dst m now s =
     (let t = purge dst now (purge src now s); A = set_at (live now s src) in
      if list_ex (col_holds (live now s src)) (KString # set_kinds) \<or> list_ex (col_holds (live now s dst)) (KString # set_kinds)
      then (Inl WrongType, t)
      else if m |\<notin>| A then (Inr False, t)
      else let t = (if A |-| {|m|} = {||} then t\<lparr>sets := fmdrop src (sets t), expires := fmdrop src (expires t)\<rparr>
                    else t\<lparr>sets := fmupd src (A |-| {|m|}) (sets t)\<rparr>);
               t = t\<lparr>sets := fmupd dst (finsert m (set_of dst t)) (sets t)\<rparr>
           in (Inr True, touchKeyLocked [dst] now (touchKeyLocked [src] now t)))"
proof -
  have "fmlookup (sets (purge dst now (purge src now s))) src = cSet (live now s src)"
    by (simp add: column_lookup column_purge live_def)
  then show ?thesis
    by (auto simp: Store_SMove_def locked_eqs Let_def set_at_def split: option.split)
qed

lemma SMove_tracked: "tracked {src, dst} s (snd (Store_SMove src dst m now s))"
proof -
  let ?t = "purge dst now (purge src now s)"
  have t: "tracked {src, dst} s ?t" by (rule tracked_trans [of _ _ "purge src now s"]) (auto intro: tracked_purge)
  have step: "tracked {src, dst} s (touchKeyLocked [dst] now (touchKeyLocked [src] now u))"
    if "\<And>k. k \<noteq> src \<Longrightarrow> k \<noteq> dst \<Longrightarrow> column u k = column ?t k" "keyVersion u = keyVersion ?t" "version u = version ?t" for u
    by (rule tracked_trans [OF t tracked_touch2]) (use that in auto)
  show ?thesis
    unfolding SMove_eq Let_def by (auto intro!: step t)
qed

section \<open>Set algebra\<close>

text \<open>A key the set commands accept, and the set it stands for at a moment.\<close>

definition set_key :: "gotime \<Rightarrow> store \<Rightarrow> key \<Rightarrow> bool" where
  "set_key now s k \<longleftrightarrow> \<not> list_ex (col_holds (live now s k)) (KString # set_kinds)"

definition members_at :: "gotime \<Rightarrow> store \<Rightarrow> key \<Rightarrow> string set" where
  "members_at now s k = fset (set_at (live now s k))"

lemma set_key_read:
  assumes "set_key now s k" "\<not> isExpiredRLocked k now s"
  shows "\<not> wrongTypeRLocked set_kinds k now s" "fset (set_of k s) = members_at now s k"
  using assms by (auto simp: set_key_def wrongTypeRLocked_def existsStringRLocked_def live_fresh anyOf_column
      column_lookup set_of_column members_at_def)

lemma expired_members: "isExpiredRLocked k now s \<Longrightarrow> members_at now s k = {}"
  by (simp add: members_at_def live_expired set_at_def)

lemma sinter_collect:
  assumes "\<forall>k \<in> set keys. set_key now s k"
  shows "sinter_collect keys now s acc =
    (if \<exists>k \<in> set keys. members_at now s k = {} then Inr None else Inr (Some (acc @ map (\<lambda>k. set_of k s) keys)))"
  using assms
proof (induction keys arbitrary: acc)
  case (Cons k keys)
  show ?case
  proof (cases "isExpiredRLocked k now s")
    case True
    then show ?thesis by (simp add: expired_members)
  next
    case False
    then have r: "\<not> wrongTypeRLocked set_kinds k now s" "fset (set_of k s) = members_at now s k"
      using set_key_read Cons.prems by simp_all
    then have "set_of k s = {||} \<longleftrightarrow> members_at now s k = {}" by (metis bot_fset.rep_eq fset_inject)
    with False r Cons show ?thesis by auto
  qed
qed simp

lemma smallest_loop_less: "m < n \<Longrightarrow> \<forall>i \<in> set is. i < n \<Longrightarrow> smallest_loop ss m is < n"
  by (induction "is" arbitrary: m) auto

lemma SInter_members:
  assumes "\<forall>k \<in> set keys. set_key now s k" "keys \<noteq> []"
  shows "\<exists>xs. Store_SInter keys now s = Inr xs \<and> sorted xs \<and> distinct xs \<and> set xs = (\<Inter>k \<in> set keys. members_at now s k)"
proof (cases "\<exists>k \<in> set keys. members_at now s k = {}")
  case True
  then have "(\<Inter>k \<in> set keys. members_at now s k) = {}" by auto
  with True show ?thesis by (simp add: Store_SInter_def sinter_collect [OF assms(1)])
next
  case False
  define ss where "ss = map (\<lambda>k. set_of k s) keys"
  define m where "m = smallest_loop ss 0 [1..<length ss]"
  have ne: "ss \<noteq> []" using assms(2) by (simp add: ss_def)
  then have m: "m < length ss" unfolding m_def by (intro smallest_loop_less) auto
  have "fset (ss ! i) = members_at now s (keys ! i)" if "i < length ss" for i
  proof -
    have k: "keys ! i \<in> set keys" using that by (simp add: ss_def)
    then have "\<not> isExpiredRLocked (keys ! i) now s" using False expired_members by metis
    with k show ?thesis using set_key_read(2) assms(1) that by (simp add: ss_def)
  qed
  then have "set (filter (in_all ss m) (sorted_list_of_fset (ss ! m))) = (\<Inter>i < length ss. members_at now s (keys ! i))"
    using m by (auto simp: in_all_def list_all_iff) (metis atLeast0LessThan lessThan_iff)
  also have "\<dots> = (\<Inter>k \<in> set keys. members_at now s k)"
    by (auto simp: ss_def in_set_conv_nth) (metis in_set_conv_nth)
  finally have "set (filter (in_all ss m) (sorted_list_of_fset (ss ! m))) = (\<Inter>k \<in> set keys. members_at now s k)" .
  moreover have "Store_SInter keys now s = Inr (filter (in_all ss m) (sorted_list_of_fset (ss ! m)))"
    using ne False by (simp add: Store_SInter_def sinter_collect [OF assms(1)] ss_def [symmetric] m_def Let_def)
  ultimately show ?thesis by (auto simp: sorted_list_of_fset.rep_eq sorted_wrt_filter)
qed


lemma sunion_loop:
  assumes "\<forall>k \<in> set keys. set_key now s k"
  shows "\<exists>U. sunion_loop keys now s acc = Inr U \<and> fset U = fset acc \<union> (\<Union>k \<in> set keys. members_at now s k)"
  using assms
proof (induction keys arbitrary: acc)
  case (Cons k keys)
  show ?case
  proof (cases "isExpiredRLocked k now s")
    case True
    then show ?thesis using Cons by (simp add: expired_members)
  next
    case False
    then have r: "\<not> wrongTypeRLocked set_kinds k now s" "fset (set_of k s) = members_at now s k"
      using set_key_read Cons.prems by simp_all
    from Cons.IH [of "acc |\<union>| set_of k s"] Cons.prems obtain U where
      "sunion_loop keys now s (acc |\<union>| set_of k s) = Inr U"
      "fset U = fset (acc |\<union>| set_of k s) \<union> (\<Union>k \<in> set keys. members_at now s k)" by auto
    with False r show ?thesis by auto
  qed
qed simp

lemma sdiff_collect:
  assumes "\<forall>k \<in> set keys. set_key now s k"
  shows "sdiff_collect keys now s acc = Inr (acc @ map (\<lambda>k. if isExpiredRLocked k now s then {||} else set_of k s) keys)"
  using assms
proof (induction keys arbitrary: acc)
  case (Cons k keys)
  then show ?case using set_key_read(1) [of now s k] by (cases "isExpiredRLocked k now s") simp_all
qed simp

text \<open>C23: The set commands compute intersection, union and difference.  When every key holds a set or
  nothing, \<open>SINTER\<close>, \<open>SUNION\<close> and \<open>SDIFF\<close> answer, sorted and without repetition, exactly the members in all
  of the sets, in some of them, and in the first but none of the others; expired and missing keys count
  as empty.\<close>

theorem set_algebra:
  assumes "\<forall>k \<in> set (key # keys). set_key now s k"
  shows "\<exists>xs ys zs. Store_SInter (key # keys) now s = Inr xs \<and> Store_SUnion (key # keys) now s = Inr ys \<and>
      Store_SDiff (key # keys) now s = Inr zs \<and>
      sorted xs \<and> distinct xs \<and> set xs = (\<Inter>k \<in> set (key # keys). members_at now s k) \<and>
      sorted ys \<and> distinct ys \<and> set ys = (\<Union>k \<in> set (key # keys). members_at now s k) \<and>
      sorted zs \<and> distinct zs \<and> set zs = members_at now s key - (\<Union>k \<in> set keys. members_at now s k)"
proof -
  define g where "g k = (if isExpiredRLocked k now s then {||} else set_of k s)" for k
  have m: "fset (g k) = members_at now s k" if "k \<in> set (key # keys)" for k
    using that assms set_key_read(2) [of now s k] by (auto simp: g_def expired_members)
  obtain U where U: "sunion_loop (key # keys) now s {||} = Inr U" "fset U = (\<Union>k \<in> set (key # keys). members_at now s k)"
    using sunion_loop [OF assms, of "{||}"] by auto
  define zs where "zs = filter (\<lambda>x. \<not> list_ex (\<lambda>S. x |\<in>| S) (map g keys)) (sorted_list_of_fset (g key))"
  have "Store_SDiff (key # keys) now s = Inr zs"
    unfolding Store_SDiff_def sdiff_collect [OF assms] g_def [symmetric] by (simp add: zs_def)
  moreover have "set zs = members_at now s key - (\<Union>k \<in> set keys. members_at now s k)"
    using m by (auto simp: zs_def list_ex_iff)
  moreover have "sorted zs" "distinct zs" by (auto simp: zs_def sorted_list_of_fset.rep_eq sorted_wrt_filter)
  moreover have "Store_SUnion (key # keys) now s = Inr (sorted_list_of_fset U)" by (simp only: Store_SUnion_def U(1) sum.case)
  moreover have "sorted (sorted_list_of_fset U)" "distinct (sorted_list_of_fset U)" "set (sorted_list_of_fset U) = fset U"
    by (simp_all add: sorted_list_of_fset.rep_eq)
  ultimately show ?thesis using SInter_members [OF assms] U(2) by (metis list.distinct(1))
qed

theorem set_algebra_witness:
  "\<exists>ys. Store_SUnion [''a'', ''b''] 3 (snd (Store_SAdd ''a'' [''x'', ''y''] 1 Store_New)) = Inr ys \<and> set ys = {''x'', ''y''}"
proof -
  let ?s = "snd (Store_SAdd ''a'' [''x'', ''y''] 1 Store_New)"
  have a: "column ?s ''a'' = no_column\<lparr>cSet := Some {|''x'', ''y''|}\<rparr>"
    by (simp add: SAdd_column live_def set_at_def set_kinds_def finsert_commute)
  have b: "column ?s ''b'' = no_column" using tracked_frame [OF SAdd_tracked, of "''b''" "''a''"] by simp
  have l: "live 3 ?s ''a'' = no_column\<lparr>cSet := Some {|''x'', ''y''|}\<rparr>" "live 3 ?s ''b'' = no_column"
    by (simp_all add: live_def isExpired_column a b)
  have "\<forall>k \<in> set [''a'', ''b'']. set_key 3 ?s k" by (simp add: set_key_def l set_kinds_def)
  from set_algebra [OF this] obtain ys where "Store_SUnion [''a'', ''b''] 3 ?s = Inr ys"
    "set ys = (\<Union>k \<in> set [''a'', ''b'']. members_at 3 ?s k)" by blast
  then show ?thesis by (auto simp: members_at_def l set_at_def)
qed

text \<open>\<open>SREM\<close> escapes \<open>WATCH\<close>.  On every key that holds a set with one of the given members and has not
  expired, it changes the stored set and leaves the version of every key as it was, so a transaction that watches
  the key is not aborted by it.\<close>

theorem srem_not_tracked:
  assumes "\<not> isExpiredRLocked key now s" "\<not> list_ex (col_holds (column s key)) (KString # set_kinds)"
    and "set_at (column s key) |\<inter>| fset_of_list ms \<noteq> {||}"
    and t: "t = snd (Store_SRem key ms now s)"
  shows "set_at (column t key) \<noteq> set_at (column s key) \<and> \<not> Store_KeysModifiedSince (Store_KeyVersions keys s) t"
proof -
  have l: "live now s key = column s key" and p: "purge key now s = s" using assms(1) by (simp_all add: live_def purge_id)
  have ne: "set_at (column s key) \<noteq> {||}" "set_at (column s key) |-| fset_of_list ms \<noteq> set_at (column s key)"
    using assms(3) by auto
  have "set_at (column t key) = set_at (column s key) |-| fset_of_list ms"
    using assms(2) ne(1) by (auto simp: t SRem_eq Let_def l p set_at_def column_def)
  then have "set_at (column t key) \<noteq> set_at (column s key)" using ne(2) by simp
  moreover have "getVersion k t = getVersion k s" for k by (simp add: t SRem_eq Let_def p getVersion_def)
  ultimately show ?thesis by (simp add: KeysModified_iff)
qed

theorem srem_not_tracked_witness:
  "set_at (column (snd (Store_SRem ''a'' [''x''] 2 (snd (Store_SAdd ''a'' [''x'', ''y''] 1 Store_New)))) ''a'') \<noteq>
     set_at (column (snd (Store_SAdd ''a'' [''x'', ''y''] 1 Store_New)) ''a'') \<and>
   \<not> Store_KeysModifiedSince (Store_KeyVersions [''a''] (snd (Store_SAdd ''a'' [''x'', ''y''] 1 Store_New)))
     (snd (Store_SRem ''a'' [''x''] 2 (snd (Store_SAdd ''a'' [''x'', ''y''] 1 Store_New))))"
proof -
  let ?s = "snd (Store_SAdd ''a'' [''x'', ''y''] 1 Store_New)"
  have "column ?s ''a'' = no_column\<lparr>cSet := Some {|''x'', ''y''|}\<rparr>"
    by (simp add: SAdd_column live_def set_at_def set_kinds_def finsert_commute)
  then have "\<not> isExpiredRLocked ''a'' 2 ?s" "\<not> list_ex (col_holds (column ?s ''a'')) (KString # set_kinds)"
    "set_at (column ?s ''a'') |\<inter>| fset_of_list [''x''] \<noteq> {||}"
    by (simp_all add: isExpired_column set_kinds_def set_at_def)
  from srem_not_tracked [OF this refl] show ?thesis .
qed

section \<open>Set commands are set operations\<close>

datatype set_op =
    OpSAdd "string list" | OpSRem "string list" | OpSMembers | OpSIsMember string | OpSCard

datatype set_out = SetNum "nat res" | SetBool "bool res" | SetStrs "string list res"

fun set_step :: "key \<Rightarrow> set_op \<times> gotime \<Rightarrow> store \<Rightarrow> set_out \<times> store" where
  "set_step key (OpSAdd ms, now) s = map_prod SetNum id (Store_SAdd key ms now s)"
| "set_step key (OpSRem ms, now) s = map_prod SetNum id (Store_SRem key ms now s)"
| "set_step key (OpSMembers, now) s = (SetStrs (Store_SMembers key now s), s)"
| "set_step key (OpSIsMember m, now) s = (SetBool (Store_SIsMember key m now s), s)"
| "set_step key (OpSCard, now) s = (SetNum (Store_SCard key now s), s)"

fun fset_step :: "set_op \<times> gotime \<Rightarrow> string fset \<Rightarrow> set_out \<times> string fset" where
  "fset_step (OpSAdd ms, now) S =
     (if ms = [] then (SetNum (Inl (Err ''wrong number of set members'')), S)
      else (SetNum (Inr (fcard (S |\<union>| fset_of_list ms) - fcard S)), S |\<union>| fset_of_list ms))"
| "fset_step (OpSRem ms, now) S = (SetNum (Inr (fcard S - fcard (S |-| fset_of_list ms))), S |-| fset_of_list ms)"
| "fset_step (OpSMembers, now) S = (SetStrs (Inr (sorted_list_of_fset S)), S)"
| "fset_step (OpSIsMember m, now) S = (SetBool (Inr (m |\<in>| S)), S)"
| "fset_step (OpSCard, now) S = (SetNum (Inr (fcard S)), S)"

definition set_column :: "string fset \<Rightarrow> column" where
  "set_column S = no_column\<lparr>cSet := (if S = {||} then None else Some S)\<rparr>"

definition set_rel :: "key \<Rightarrow> store \<Rightarrow> string fset \<Rightarrow> bool" where
  "set_rel key s S \<longleftrightarrow> column s key = set_column S \<and> fmlookup (notBefore s) key = None"

lemma set_column_simps [simp]:
  "cKV (set_column S) = None" "list_ex (col_holds (set_column S)) set_kinds = False"
  "cSet (set_column S) = (if S = {||} then None else Some S)" "cExp (set_column S) = None" "set_at (set_column S) = S"
  by (simp_all add: set_column_def set_kinds_def set_at_def)

lemma set_column_upd:
  "S \<noteq> {||} \<Longrightarrow> (set_column T)\<lparr>cSet := Some S\<rparr> = set_column S"
  "(set_column T)\<lparr>cSet := None, cExp := None\<rparr> = set_column {||}"
  by (simp_all add: set_column_def no_column_def)

lemma set_rel_fresh:
  assumes "set_rel key s S"
  shows "isExpiredRLocked key now s = False" "delayed key now s = False" "purge key now s = s"
    "live now s key = set_column S" "wrongTypeRLocked set_kinds key now s = False" "set_of key s = S"
proof -
  have c: "column s key = set_column S" using assms by (simp add: set_rel_def)
  show e: "isExpiredRLocked key now s = False" by (simp add: isExpired_column c)
  then show "purge key now s = s" and l: "live now s key = set_column S" by (simp_all add: purge_id live_fresh c)
  show d: "delayed key now s = False" using assms by (simp add: set_rel_def delayed_def)
  show "wrongTypeRLocked set_kinds key now s = False" by (simp add: wrongTypeRLocked_eq e d l)
  show "set_of key s = S" by (simp add: set_of_column c)
qed

lemma set_step_sim:
  assumes rel: "set_rel key s S"
  shows "set_rel key (snd (set_step key (opn, now) s)) (snd (fset_step (opn, now) S)) \<and>
    fst (set_step key (opn, now) s) = fst (fset_step (opn, now) S)"
proof -
  note fresh = set_rel_fresh [OF rel]
  have nb: "fmlookup (notBefore s) key = None" and c: "column s key = set_column S"
    using rel by (simp_all add: set_rel_def)
  show ?thesis
  proof (cases opn)
    case (OpSAdd ms)
    have "fmlookup (notBefore (snd (Store_SAdd key ms now s))) key = None"
      by (simp add: Store_SAdd_def locked_eqs fresh split_def nb)
    moreover have "fst (Store_SAdd key ms now s) =
        (if ms = [] then Inl (Err ''wrong number of set members'') else Inr (fcard (S |\<union>| fset_of_list ms) - fcard S))"
      by (simp add: Store_SAdd_def locked_eqs fresh sadd_loop)
    moreover have "ms \<noteq> [] \<Longrightarrow> S |\<union>| fset_of_list ms \<noteq> {||}" by (cases ms) auto
    ultimately show ?thesis
      by (cases "ms = []") (simp_all add: OpSAdd set_rel_def SAdd_column c fresh set_column_upd Let_def)
  next
    case (OpSRem ms)
    have "fmlookup (notBefore (snd (Store_SRem key ms now s))) key = None"
      by (simp add: SRem_eq fresh Let_def nb)
    moreover have "column (snd (Store_SRem key ms now s)) key = set_column (S |-| fset_of_list ms)"
    proof (cases "S |-| fset_of_list ms = {||}")
      case True
      show ?thesis unfolding SRem_column fresh Let_def set_column_simps(5) True by (simp add: set_column_upd)
    next
      case False
      then have "S \<noteq> {||}" by auto
      then show ?thesis unfolding SRem_column fresh Let_def set_column_simps(5) if_not_P [OF False]
        by (simp add: set_column_upd(1) [OF False])
    qed
    moreover have "fst (Store_SRem key ms now s) = Inr (fcard S - fcard (S |-| fset_of_list ms))"
      by (simp add: SRem_eq fresh Let_def)
    ultimately show ?thesis by (simp add: OpSRem set_rel_def)
  qed (use rel fresh in \<open>auto simp: Store_SMembers_def Store_SIsMember_def Store_SCard_def\<close>)
qed

interpretation set_sim: simulation "set_step key" fset_step "set_rel key" for key
proof (unfold_locales, goal_cases)
  case (1 s S opn)
  then show ?case using set_step_sim [of key s S "fst opn" "snd opn"] by simp
next
  case (2 s S opn)
  then show ?case using set_step_sim [of key s S "fst opn" "snd opn"] by simp
qed

text \<open>C4: On a key that holds nothing, any sequence of set commands at any times gives the answers of the
  same sequence of operations on a finite set that starts empty.\<close>

theorem set_commands_as_set:
  assumes "column s key = no_column" "fmlookup (notBefore s) key = None"
  shows "fst (run_ops (set_step key) opns s) = fst (run_ops fset_step opns {||})"
  by (rule set_sim.sim_run) (use assms in \<open>simp add: set_rel_def set_column_def no_column_def\<close>)

theorem set_commands_as_set_witness:
  "fst (run_ops (set_step ''s'') [(OpSAdd [''a'', ''a''], 1), (OpSRem [''b''], 2), (OpSIsMember ''a'', 3)] Store_New) =
     [SetNum (Inr 1), SetNum (Inr 0), SetBool (Inr True)]"
  using set_commands_as_set [of Store_New "''s''" "[(OpSAdd [''a'', ''a''], 1), (OpSRem [''b''], 2), (OpSIsMember ''a'', 3)]"]
  by (simp add: fcard_finsert_if)

section \<open>Random picks\<close>

lemma mset_swap_list: "i < length xs \<Longrightarrow> j < length xs \<Longrightarrow> mset (swap i j xs) = mset xs"
  by (simp add: swap_def mset_swap)

lemma fold_swap:
  "\<forall>i \<in> set is. i < length xs \<Longrightarrow> (\<And>i n. 0 < n \<Longrightarrow> intn i n < n) \<Longrightarrow>
   mset (fold (\<lambda>i. swap i (intn i (i + 1))) is xs) = mset xs"
proof (induction "is" arbitrary: xs)
  case (Cons i "is")
  have j: "intn i (i + 1) < length xs" using Cons.prems(1) Cons.prems(2) [of "i + 1" i] by simp
  have "length (swap i (intn i (i + 1)) xs) = length xs" by (simp add: swap_def)
  with Cons.IH [of "swap i (intn i (i + 1)) xs"] Cons.prems mset_swap_list [of i xs "intn i (i + 1)"] j
  show ?case by simp
qed simp

lemma mset_shuffle: "(\<And>i n. 0 < n \<Longrightarrow> intn i n < n) \<Longrightarrow> mset (shuffle intn xs) = mset xs"
  unfolding shuffle_def by (rule fold_swap) auto

text \<open>Random members are members.  With a positive count, \<open>SRANDMEMBER\<close> and \<open>HRANDFIELD\<close> answer that many
  different elements (all of them if there are fewer), whatever the random source draws and in whatever
  order the map is traversed; with a negative count, elements with repetitions allowed.\<close>

theorem pick_elements:
  assumes "distinct order" "order \<noteq> []" "\<And>i n. 0 < n \<Longrightarrow> intn i n < n" "- (2 ^ 63) < cnt" "cnt < 2 ^ 63"
  shows "\<exists>xs. pick intn order cnt = Inr xs \<and> set xs \<subseteq> set order \<and>
    (0 \<le> cnt \<longrightarrow> distinct xs \<and> length xs = min (nat cnt) (length order)) \<and> (cnt < 0 \<longrightarrow> length xs = nat (- cnt))"
proof -
  have sh: "mset (shuffle intn order) = mset order" by (rule mset_shuffle) (rule assms(3))
  then have d: "distinct (shuffle intn order)" "set (shuffle intn order) = set order" "length (shuffle intn order) = length order"
    using assms(1) by (metis distinct_count_atmost_1 mset_eq_setD, metis mset_eq_setD, metis mset_eq_length)
  have neg: "cnt < 0 \<Longrightarrow> wrap64 (- cnt) = - cnt" using assms(4) by (intro wrap64_id) (simp add: int64_def)
  have idx: "order ! intn i (length order) \<in> set order" for i using assms(2,3) by simp
  consider (neg) "cnt < 0" | (zero) "cnt = 0" | (all) "0 < cnt" "int (length order) \<le> cnt" | (some) "0 < cnt" "cnt < int (length order)"
    by linarith
  then show ?thesis
  proof cases
    case some
    then have "pick intn order cnt = Inr (take (nat cnt) (shuffle intn order))" by (simp add: pick_def)
    then show ?thesis using some d by (auto simp: min_def dest: in_set_takeD)
  qed (use neg idx assms(1) in \<open>auto simp: pick_def Let_def min_def\<close>)
qed

theorem pick_elements_witness:
  "\<exists>xs. pick (\<lambda>i n. 0) [''a'', ''b'', ''c''] 2 = Inr xs \<and> distinct xs \<and> length xs = 2"
proof -
  have "0 < n \<Longrightarrow> (0::nat) < n" for n by simp
  from pick_elements [of "[''a'', ''b'', ''c'']" "\<lambda>i n. 0" 2, OF _ _ this] show ?thesis by auto
qed

end
