(* ===== verification/Vole_Lists.thy ===== *)
theory Vole_Lists
  imports Vole_Sets
begin

text \<open>
  The list operations of \<^verbatim>\<open>internal/store/store.go\<close> over the ring buffer, and the clients that wait for an
  element in \<open>BPop\<close>.  A blocked client is a waiter in the queues of all the keys it waits for; a push hands
  elements to the waiters of its key under the same lock.  \<open>BPop\<close> is split at the point where it gives
  up the lock: \<open>BPop_start\<close> until it answers or blocks, \<open>BPop_finish\<close> when it is woken or times out.
\<close>

section \<open>Waiters\<close>

definition list_kinds :: "kind list" where
  "list_kinds = [KHash, KSet, KZSet, KStream, KHll, KJson, KTimeSeries]"

definition waiters_of :: "key \<Rightarrow> store \<Rightarrow> listWaiter list" where
  "waiters_of key s = (case fmlookup (listWaits s) key of None \<Rightarrow> [] | Some ws \<Rightarrow> ws)"

definition pop_end :: "bool \<Rightarrow> deque \<Rightarrow> string \<times> deque" where
  "pop_end left d =
     (case (if left then Deque_PopFront d else Deque_PopBack d) of
        (v, d) \<Rightarrow> (case v of None \<Rightarrow> [] | Some val \<Rightarrow> val, d))"

text \<open>\<open>delete(s.lists, key); delete(s.expires, key)\<close> once the buffer is empty.\<close>

definition store_list :: "key \<Rightarrow> deque \<Rightarrow> store \<Rightarrow> store" where
  "store_list key d s =
     (if Deque_Len d = 0 then s\<lparr>lists := fmdrop key (lists s), expires := fmdrop key (expires s)\<rparr>
      else s\<lparr>lists := fmupd key d (lists s)\<rparr>)"

text \<open>\<open>w.once.Do(func() { w.ch <- result; close(w.ch) })\<close>\<close>

definition once_send :: "nat \<Rightarrow> string \<times> string \<Rightarrow> store \<Rightarrow> store" where
  "once_send w result s = (if has (woken s) w then s else s\<lparr>woken := fmupd w result (woken s)\<rparr>)"

fun wake_loop :: "key \<Rightarrow> listWaiter list \<Rightarrow> store \<Rightarrow> store" where
  "wake_loop key [] s = s"
| "wake_loop key (w # ws) s =
     (case fmlookup (lists s) key of
        None \<Rightarrow> s
      | Some d \<Rightarrow>
          if Deque_Len d = 0 then s
          else let s = (if ws = [] then s\<lparr>listWaits := fmdrop key (listWaits s)\<rparr>
                        else s\<lparr>listWaits := fmupd key ws (listWaits s)\<rparr>);
                   (val, d) = pop_end (lw_left w) d;
                   s = store_list key d s
               in wake_loop key ws (once_send (lw_id w) (key, val) s))"

definition wakeListWaitersLocked :: "key \<Rightarrow> store \<Rightarrow> store" where
  "wakeListWaitersLocked key s = wake_loop key (waiters_of key s) s"

definition remove_waiter1 :: "nat \<Rightarrow> key \<Rightarrow> store \<Rightarrow> store" where
  "remove_waiter1 w key s =
     (let kept = filter (\<lambda>x. lw_id x \<noteq> w) (waiters_of key s) in
      if kept = [] then s\<lparr>listWaits := fmdrop key (listWaits s)\<rparr>
      else s\<lparr>listWaits := fmupd key kept (listWaits s)\<rparr>)"

definition removeListWaiter :: "key list \<Rightarrow> nat \<Rightarrow> store \<Rightarrow> store" where
  "removeListWaiter keys w s = fold (remove_waiter1 w) keys s"

fun bpop_try :: "key list \<Rightarrow> bool \<Rightarrow> gotime \<Rightarrow> store \<Rightarrow> (string \<times> string) option \<times> store" where
  "bpop_try [] left now s = (None, s)"
| "bpop_try (key # keys) left now s =
     (case expiredKeyLocked key now s of (e, s) \<Rightarrow>
        if e then bpop_try keys left now s
        else case fmlookup (lists s) key of
          None \<Rightarrow> bpop_try keys left now s
        | Some d \<Rightarrow>
            if Deque_Len d = 0 then bpop_try keys left now s
            else case pop_end left d of (val, d) \<Rightarrow>
              (Some (key, val), touchKeyLocked [key] now (store_list key d s)))"

text \<open>Either the key and the value popped, or the waiter the client now blocks on.\<close>

definition BPop_start :: "key list \<Rightarrow> bool \<Rightarrow> gotime \<Rightarrow> store \<Rightarrow> (nat + string \<times> string) \<times> store" where
  "BPop_start keys left now s =
     (case bpop_try keys left now s of
        (Some r, s) \<Rightarrow> (Inr r, s)
      | (None, s) \<Rightarrow>
          let w = \<lparr>lw_id = nextWaiter s, lw_left = left\<rparr>;
              s = s\<lparr>nextWaiter := nextWaiter s + 1\<rparr>
          in (Inl (lw_id w),
              fold (\<lambda>key s. s\<lparr>listWaits := fmupd key (waiters_of key s @ [w]) (listWaits s)\<rparr>) keys s))"

text \<open>\<open>elapsed\<close>: the select takes the timeout (or shutdown) branch.  The deferred call removes the waiter.\<close>

definition BPop_finish :: "key list \<Rightarrow> nat \<Rightarrow> bool \<Rightarrow> store \<Rightarrow> (string \<times> string) option \<times> store" where
  "BPop_finish keys w elapsed s = (if elapsed then None else fmlookup (woken s) w, removeListWaiter keys w s)"

section \<open>Operations\<close>

definition list_or_new :: "key \<Rightarrow> store \<Rightarrow> deque" where
  "list_or_new key s = (case fmlookup (lists s) key of None \<Rightarrow> Deque_empty | Some d \<Rightarrow> d)"

definition list_len :: "key \<Rightarrow> store \<Rightarrow> nat" where
  "list_len key s = (case fmlookup (lists s) key of None \<Rightarrow> 0 | Some d \<Rightarrow> Deque_Len d)"

definition pushList :: "key \<Rightarrow> bool \<Rightarrow> string list \<Rightarrow> gotime \<Rightarrow> store \<Rightarrow> nat res \<times> store" where
  "pushList key left values now s =
     (if values = [] then (Inl (Err ''wrong number of list values''), s)
      else case expiredKeyLocked key now s of (_, s) \<Rightarrow>
        case wrongTypeLocked list_kinds key now s of (wrong, s) \<Rightarrow>
          if wrong then (Inl WrongType, s)
          else let d = list_or_new key s;
                   d = (if left then Deque_PushFront values d else Deque_PushBack values d);
                   s = touchKeyLocked [key] now (s\<lparr>lists := fmupd key d (lists s)\<rparr>);
                   s = wakeListWaitersLocked key s
               in (Inr (list_len key s), s))"

definition Store_LPush :: "key \<Rightarrow> string list \<Rightarrow> gotime \<Rightarrow> store \<Rightarrow> nat res \<times> store" where
  "Store_LPush key values now s = pushList key True values now s"

definition Store_RPush :: "key \<Rightarrow> string list \<Rightarrow> gotime \<Rightarrow> store \<Rightarrow> nat res \<times> store" where
  "Store_RPush key values now s = pushList key False values now s"

definition popList :: "key \<Rightarrow> bool \<Rightarrow> gotime \<Rightarrow> store \<Rightarrow> string option res \<times> store" where
  "popList key left now s =
     (case expiredKeyLocked key now s of (e, s) \<Rightarrow>
        if e then (Inr None, s)
        else case wrongTypeLocked list_kinds key now s of (wrong, s) \<Rightarrow>
          if wrong then (Inl WrongType, s)
          else case fmlookup (lists s) key of
            None \<Rightarrow> (Inr None, s)
          | Some d \<Rightarrow>
              if Deque_Len d = 0 then (Inr None, s)
              else case (if left then Deque_PopFront d else Deque_PopBack d) of
                (None, d) \<Rightarrow> (Inr None, s\<lparr>lists := fmupd key d (lists s)\<rparr>)
              | (Some value, d) \<Rightarrow> (Inr (Some value), touchKeyLocked [key] now (store_list key d s)))"

definition Store_LPop :: "key \<Rightarrow> gotime \<Rightarrow> store \<Rightarrow> string option res \<times> store" where
  "Store_LPop key now s = popList key True now s"

definition Store_RPop :: "key \<Rightarrow> gotime \<Rightarrow> store \<Rightarrow> string option res \<times> store" where
  "Store_RPop key now s = popList key False now s"

text \<open>\<open>LMove\<close> leaves JSON documents and time series out of its type checks.\<close>

definition lmove_kinds :: "kind list" where
  "lmove_kinds = [KHash, KSet, KZSet, KStream, KHll]"

definition Store_LMove :: "key \<Rightarrow> key \<Rightarrow> bool \<Rightarrow> bool \<Rightarrow> gotime \<Rightarrow> store \<Rightarrow> string option res \<times> store" where
  "Store_LMove src dst srcLeft dstLeft now s =
     (case expiredKeyLocked src now s of (_, s) \<Rightarrow>
      case wrongTypeLocked lmove_kinds src now s of (wrong, s) \<Rightarrow>
        if wrong then (Inl WrongType, s)
        else case fmlookup (lists s) src of
          None \<Rightarrow> (Inr None, s)
        | Some srcD \<Rightarrow>
            if Deque_Len srcD = 0 then (Inr None, s)
            else case (if src \<noteq> dst
                       then (case expiredKeyLocked dst now s of (_, s) \<Rightarrow> wrongTypeLocked lmove_kinds dst now s)
                       else (False, s)) of (wrong, s) \<Rightarrow>
              if wrong then (Inl WrongType, s)
              else case pop_end srcLeft srcD of (val, srcD) \<Rightarrow>
                let s = store_list src srcD s;
                    dstD = list_or_new dst s;
                    dstD = (if dstLeft then Deque_PushFront [val] dstD else Deque_PushBack [val] dstD);
                    s = touchKeyLocked [src, dst] now (s\<lparr>lists := fmupd dst dstD (lists s)\<rparr>)
                in (Inr (Some val), wakeListWaitersLocked dst s))"

definition Store_LRange :: "key \<Rightarrow> int \<Rightarrow> int \<Rightarrow> gotime \<Rightarrow> store \<Rightarrow> string list res" where
  "Store_LRange key start stop now s =
     (if isExpiredRLocked key now s then Inr []
      else if wrongTypeRLocked list_kinds key now s then Inl WrongType
      else case fmlookup (lists s) key of
        None \<Rightarrow> Inr []
      | Some d \<Rightarrow> if Deque_Len d = 0 then Inr [] else Inr (Deque_Range start stop d))"

definition Store_LLen :: "key \<Rightarrow> gotime \<Rightarrow> store \<Rightarrow> nat res" where
  "Store_LLen key now s =
     (if isExpiredRLocked key now s then Inr 0
      else if wrongTypeRLocked list_kinds key now s then Inl WrongType
      else case fmlookup (lists s) key of None \<Rightarrow> Inr 0 | Some d \<Rightarrow> Inr (Deque_Len d))"

text \<open>An index counted from the end if it is negative; \<open>None\<close> when it is out of range.\<close>

definition norm_index :: "int \<Rightarrow> nat \<Rightarrow> nat option" where
  "norm_index index len =
     (let index = (if index < 0 then int len + index else index)
      in if index < 0 \<or> int len \<le> index then None else Some (nat index))"

definition Store_LIndex :: "key \<Rightarrow> int \<Rightarrow> gotime \<Rightarrow> store \<Rightarrow> string option res" where
  "Store_LIndex key index now s =
     (if isExpiredRLocked key now s then Inr None
      else if wrongTypeRLocked list_kinds key now s then Inl WrongType
      else case fmlookup (lists s) key of
        None \<Rightarrow> Inr None
      | Some d \<Rightarrow>
          if Deque_Len d = 0 then Inr None
          else case norm_index index (Deque_Len d) of None \<Rightarrow> Inr None | Some i \<Rightarrow> Inr (Some (Deque_Get d i)))"

definition Store_LSet :: "key \<Rightarrow> int \<Rightarrow> string \<Rightarrow> gotime \<Rightarrow> store \<Rightarrow> unit res \<times> store" where
  "Store_LSet key index value now s =
     (case expiredKeyLocked key now s of (e, s) \<Rightarrow>
        if e then (Inl (Err ''no such key''), s)
        else case wrongTypeLocked list_kinds key now s of (wrong, s) \<Rightarrow>
          if wrong then (Inl WrongType, s)
          else case fmlookup (lists s) key of
            None \<Rightarrow> (Inl (Err ''no such key''), s)
          | Some d \<Rightarrow>
              if Deque_Len d = 0 then (Inl (Err ''no such key''), s)
              else case norm_index index (Deque_Len d) of
                None \<Rightarrow> (Inl (Err ''index out of range''), s)
              | Some i \<Rightarrow> (Inr (), touchKeyLocked [key] now (s\<lparr>lists := fmupd key (Deque_Set i value d) (lists s)\<rparr>)))"

text \<open>The search loop of \<open>LInsert\<close> and \<open>LPos\<close>: the first index that holds the element.\<close>

definition find_element :: "string \<Rightarrow> deque \<Rightarrow> nat option" where
  "find_element x d = find (\<lambda>i. Deque_Get d i = x) [0..<Deque_Len d]"

definition Store_LInsert :: "key \<Rightarrow> bool \<Rightarrow> string \<Rightarrow> string \<Rightarrow> gotime \<Rightarrow> store \<Rightarrow> int res \<times> store" where
  "Store_LInsert key before pivot value now s =
     (case expiredKeyLocked key now s of (e, s) \<Rightarrow>
        if e then (Inr 0, s)
        else case wrongTypeLocked list_kinds key now s of (wrong, s) \<Rightarrow>
          if wrong then (Inl WrongType, s)
          else case fmlookup (lists s) key of
            None \<Rightarrow> (Inr 0, s)
          | Some d \<Rightarrow>
              if Deque_Len d = 0 then (Inr 0, s)
              else case find_element pivot d of
                None \<Rightarrow> (Inr (-1), s)
              | Some idx \<Rightarrow>
                  let idx = (if before then idx else idx + 1);
                      d = Deque_Insert idx value d
                  in (Inr (int (Deque_Len d)), touchKeyLocked [key] now (s\<lparr>lists := fmupd key d (lists s)\<rparr>)))"

definition Store_LPos :: "key \<Rightarrow> string \<Rightarrow> gotime \<Rightarrow> store \<Rightarrow> nat option res" where
  "Store_LPos key element now s =
     (if isExpiredRLocked key now s then Inr None
      else if wrongTypeRLocked list_kinds key now s then Inl WrongType
      else case fmlookup (lists s) key of
        None \<Rightarrow> Inr None
      | Some d \<Rightarrow> if Deque_Len d = 0 then Inr None else Inr (find_element element d))"

text \<open>The three loops of \<open>LRem\<close>.\<close>

fun lrem_head :: "string \<Rightarrow> int \<Rightarrow> nat \<Rightarrow> string list \<Rightarrow> string list \<Rightarrow> nat \<times> string list" where
  "lrem_head element cnt removed kept [] = (removed, kept)"
| "lrem_head element cnt removed kept (item # items) =
     (if item = element \<and> int removed < cnt then lrem_head element cnt (removed + 1) kept items
      else lrem_head element cnt removed (kept @ [item]) items)"

fun lrem_tail_idx :: "string \<Rightarrow> int \<Rightarrow> string list \<Rightarrow> nat \<Rightarrow> nat list \<Rightarrow> nat list \<Rightarrow> nat \<times> nat list" where
  "lrem_tail_idx element absCount items removed idxs [] = (removed, idxs)"
| "lrem_tail_idx element absCount items removed idxs (i # is) =
     (if \<not> int removed < absCount then (removed, idxs)
      else if items ! i = element then lrem_tail_idx element absCount items (removed + 1) (i # idxs) is
      else lrem_tail_idx element absCount items removed idxs is)"

definition lrem_tail :: "string \<Rightarrow> int \<Rightarrow> string list \<Rightarrow> nat \<times> string list" where
  "lrem_tail element absCount items =
     (case lrem_tail_idx element absCount items 0 [] (rev [0..<length items]) of
        (removed, idxs) \<Rightarrow> (removed, map (\<lambda>i. items ! i) (filter (\<lambda>i. i \<notin> set idxs) [0..<length items])))"

fun lrem_all :: "string \<Rightarrow> nat \<Rightarrow> string list \<Rightarrow> string list \<Rightarrow> nat \<times> string list" where
  "lrem_all element removed kept [] = (removed, kept)"
| "lrem_all element removed kept (item # items) =
     (if item = element then lrem_all element (removed + 1) kept items
      else lrem_all element removed (kept @ [item]) items)"

definition lrem_items :: "int \<Rightarrow> string \<Rightarrow> string list \<Rightarrow> nat \<times> string list" where
  "lrem_items cnt element items =
     (if 0 < cnt then lrem_head element cnt 0 [] items
      else if cnt < 0 then lrem_tail element (wrap64 (- cnt)) items
      else lrem_all element 0 [] items)"

definition Store_LRem :: "key \<Rightarrow> int \<Rightarrow> string \<Rightarrow> gotime \<Rightarrow> store \<Rightarrow> nat res \<times> store" where
  "Store_LRem key cnt element now s =
     (case expiredKeyLocked key now s of (e, s) \<Rightarrow>
        if e then (Inr 0, s)
        else case wrongTypeLocked list_kinds key now s of (wrong, s) \<Rightarrow>
          if wrong then (Inl WrongType, s)
          else case fmlookup (lists s) key of
            None \<Rightarrow> (Inr 0, s)
          | Some d \<Rightarrow>
              if Deque_Len d = 0 then (Inr 0, s)
              else case lrem_items cnt element (Deque_ToSlice d) of (removed, kept) \<Rightarrow>
                let s = (if kept = [] then s\<lparr>lists := fmdrop key (lists s), expires := fmdrop key (expires s)\<rparr>
                         else s\<lparr>lists := fmupd key (Deque_PushBack kept Deque_empty) (lists s)\<rparr>)
                in (Inr removed, if 0 < removed then touchKeyLocked [key] now s else s))"

section \<open>Both ends of a list\<close>

text \<open>What a pop takes from a list, and what is left.\<close>

definition take_end :: "bool \<Rightarrow> 'a list \<Rightarrow> 'a \<times> 'a list" where
  "take_end left xs = (if left then (hd xs, tl xs) else (last xs, butlast xs))"

definition put_end :: "bool \<Rightarrow> 'a list \<Rightarrow> 'a list \<Rightarrow> 'a list" where
  "put_end left vs xs = (if left then rev vs @ xs else xs @ vs)"

lemma mset_take_end: "xs \<noteq> [] \<Longrightarrow> mset xs = add_mset (fst (take_end left xs)) (mset (snd (take_end left xs)))"
proof (cases left)
  case False
  assume "xs \<noteq> []"
  then have "mset xs = mset (butlast xs @ [last xs])" by simp
  with False show ?thesis by (simp add: take_end_def)
next
  case True
  assume "xs \<noteq> []"
  with True show ?thesis by (cases xs) (simp_all add: take_end_def)
qed

lemma put_end_ne [simp]: "put_end left vs xs = [] \<longleftrightarrow> vs = [] \<and> xs = []"
  by (auto simp: put_end_def)

lemma dcount_0: "dcount d = 0 \<longleftrightarrow> Deque_ToSlice d = []"
  by (metis length_0_conv length_ToSlice)

lemma pop_end:
  assumes "deque_wf d" "Deque_ToSlice d \<noteq> []"
  shows "\<exists>d'. pop_end left d = (fst (take_end left (Deque_ToSlice d)), d') \<and> deque_wf d' \<and>
    Deque_ToSlice d' = snd (take_end left (Deque_ToSlice d))"
  using Deque_PopFront [of d] Deque_PopBack [of d] assms
  by (cases left) (auto simp: pop_end_def take_end_def dcount_0)

lemma popped:
  assumes "deque_wf d" "Deque_ToSlice d \<noteq> []"
  shows "\<exists>d'. (if left then Deque_PopFront d else Deque_PopBack d) = (Some (fst (take_end left (Deque_ToSlice d))), d') \<and>
    deque_wf d' \<and> Deque_ToSlice d' = snd (take_end left (Deque_ToSlice d))"
  using Deque_PopFront [of d] Deque_PopBack [of d] assms by (cases left) (auto simp: take_end_def dcount_0)

lemma Deque_empty_wf [simp]: "deque_wf Deque_empty" "Deque_ToSlice Deque_empty = []"
  using dq.invar_new dq.items_new by simp_all

lemma pushed:
  "deque_wf d \<Longrightarrow> list_content (if left then Deque_PushFront vs d else Deque_PushBack vs d) =
     (put_end left vs (Deque_ToSlice d), True)"
  by (simp add: list_content_def put_end_def Deque_PushFront Deque_PushBack)

section \<open>The list behind a key\<close>

definition list_at :: "column \<Rightarrow> string list" where
  "list_at c = (case cList c of None \<Rightarrow> [] | Some (xs, ok) \<Rightarrow> xs)"

text \<open>The column with the list replaced; an empty list takes the deadline with it.\<close>

definition put_list :: "string list \<Rightarrow> column \<Rightarrow> column" where
  "put_list xs c = (if xs = [] then c\<lparr>cList := None, cExp := None\<rparr> else c\<lparr>cList := Some (xs, True)\<rparr>)"

lemma store_list_simps [simp]:
  "deque_wf d \<Longrightarrow> column (store_list key d s) j = (if j = key then put_list (Deque_ToSlice d) (column s j) else column s j)"
  "keyVersion (store_list key d s) = keyVersion s" "version (store_list key d s) = version s"
  "notBefore (store_list key d s) = notBefore s" "listWaits (store_list key d s) = listWaits s"
  "woken (store_list key d s) = woken s" "nextWaiter (store_list key d s) = nextWaiter s"
  by (auto simp: store_list_def put_list_def list_content_def Deque_Len_def dcount_0)

lemma list_cases:
  assumes "slot_ok (live now s key)"
  obtains (absent) "fmlookup (lists (purge key now s)) key = None" "cList (live now s key) = None" "list_at (live now s key) = []"
  | (present) d where "fmlookup (lists (purge key now s)) key = Some d" "deque_wf d" "Deque_ToSlice d \<noteq> []"
      "Deque_ToSlice d = list_at (live now s key)" "cList (live now s key) = Some (Deque_ToSlice d, True)"
proof (cases "fmlookup (lists (purge key now s)) key")
  case None
  then have "cList (live now s key) = None" using purge_lookup(3) [of key now s] by simp
  with None show ?thesis by (intro absent) (simp_all add: list_at_def)
next
  case (Some d)
  then have c: "cList (live now s key) = Some (list_content d)" using purge_lookup(3) [of key now s] by simp
  with assms have "deque_wf d" "Deque_ToSlice d \<noteq> []" by (simp_all add: slot_ok_def list_content_def)
  with Some c show ?thesis by (intro present) (simp_all add: list_at_def list_content_def)
qed

lemma only_list: "\<not> list_ex (col_holds c) (KString # list_kinds) \<Longrightarrow> only_kind KList c"
  by (auto simp: only_kind_def list_kinds_def core_kinds_def)

lemma put_list_slot: "slot_ok c \<Longrightarrow> only_kind KList c \<Longrightarrow> slot_ok (put_list xs c)"
  by (auto simp: put_list_def intro: slot_ok_put slot_ok_drops)

lemma put_list_cong: "cList c = Some (xs, True) \<Longrightarrow> xs \<noteq> [] \<Longrightarrow> put_list xs c = c"
  by (simp add: put_list_def)

section \<open>Serving the waiters of a key\<close>

text \<open>
  The waiters of a key are served in their order, each with one element from its end, until the list or
  the queue of waiters runs out: the deliveries, the waiters left and the elements left.
\<close>

fun serve :: "listWaiter list \<Rightarrow> string list \<Rightarrow> (nat \<times> string) list \<times> listWaiter list \<times> string list" where
  "serve [] xs = ([], [], xs)"
| "serve (w # ws) xs =
     (if xs = [] then ([], w # ws, [])
      else case serve ws (snd (take_end (lw_left w) xs)) of
        (ds, rest, zs) \<Rightarrow> ((lw_id w, fst (take_end (lw_left w) xs)) # ds, rest, zs))"

text \<open>The first send on a waiter's channel counts.\<close>

definition deliver :: "key \<Rightarrow> (nat \<times> string) list \<Rightarrow> (nat, string \<times> string) fmap \<Rightarrow> (nat, string \<times> string) fmap" where
  "deliver key ds m = fold (\<lambda>(w, v) m. if has m w then m else fmupd w (key, v) m) ds m"

lemma serve_Nil [simp]: "serve ws [] = ([], ws, [])"
  by (cases ws) simp_all

lemma deliver_Cons: "deliver key ((w, v) # ds) m = deliver key ds (if has m w then m else fmupd w (key, v) m)"
  by (simp add: deliver_def)

lemma deliver_Nil [simp]: "deliver key [] m = m"
  by (simp add: deliver_def)

lemma serve_mset: "serve ws xs = (ds, rest, zs) \<Longrightarrow> mset (map snd ds) + mset zs = mset xs"
proof (induction ws arbitrary: xs ds rest zs)
  case (Cons w ws)
  show ?case
  proof (cases "xs = []")
    case False
    obtain es where es: "serve ws (snd (take_end (lw_left w) xs)) = (es, rest, zs)" "ds = (lw_id w, fst (take_end (lw_left w) xs)) # es"
      using Cons.prems False by (auto split: prod.splits)
    from Cons.IH [OF es(1)] show ?thesis using es(2) mset_take_end [OF False, of "lw_left w"] by simp
  qed (use Cons in simp)
qed simp

lemma serve_waiters: "serve ws xs = (ds, rest, zs) \<Longrightarrow> map fst ds @ map lw_id rest = map lw_id ws"
  by (induction ws arbitrary: xs ds rest zs) (auto split: if_splits prod.splits)

lemma serve_stops: "serve ws xs = (ds, rest, zs) \<Longrightarrow> rest = [] \<or> zs = []"
  by (induction ws arbitrary: xs ds rest zs) (auto split: if_splits prod.splits)

lemma once_send_simps [simp]:
  "column (once_send w r s) j = column s j" "lists (once_send w r s) = lists s" "listWaits (once_send w r s) = listWaits s"
  "keyVersion (once_send w r s) = keyVersion s" "version (once_send w r s) = version s"
  "notBefore (once_send w r s) = notBefore s" "nextWaiter (once_send w r s) = nextWaiter s"
  "woken (once_send w r s) = (if has (woken s) w then woken s else fmupd w r (woken s))"
  by (simp_all add: once_send_def)

lemma wake_loop_same [simp]:
  "keyVersion (wake_loop key ws s) = keyVersion s" "version (wake_loop key ws s) = version s"
  "notBefore (wake_loop key ws s) = notBefore s" "nextWaiter (wake_loop key ws s) = nextWaiter s"
  by (induction ws arbitrary: s) (simp_all add: Let_def split: option.split prod.split)

lemma wake_loop_waits_other: "j \<noteq> key \<Longrightarrow> fmlookup (listWaits (wake_loop key ws s)) j = fmlookup (listWaits s) j"
  by (induction ws arbitrary: s) (simp_all add: Let_def split: option.split prod.split)

text \<open>A list as the store keeps it: absent when it is empty.\<close>

definition stored :: "string list \<Rightarrow> (string list \<times> bool) option" where
  "stored xs = (if xs = [] then None else Some (xs, True))"

lemma put_list_stored [simp]: "cList (put_list xs c) = stored xs"
  by (simp add: put_list_def stored_def)

lemma put_list_put_list [simp]: "put_list zs (put_list ys c) = (if ys = [] \<and> zs \<noteq> [] then (put_list zs c)\<lparr>cExp := None\<rparr> else put_list zs c)"
  by (auto simp: put_list_def)

lemma cList_lookup: "cList (column s key) = stored xs \<Longrightarrow> xs \<noteq> [] \<Longrightarrow>
    \<exists>d. fmlookup (lists s) key = Some d \<and> deque_wf d \<and> Deque_ToSlice d = xs"
  using column_lookup(3) [of s key] by (auto simp: stored_def list_content_def split: if_splits)

lemma cList_none: "cList (column s key) = stored [] \<Longrightarrow> fmlookup (lists s) key = None"
  using column_lookup(3) [of s key] by (simp add: stored_def)

lemma wake_loop:
  assumes "cList (column s key) = stored xs" "serve ws xs = (ds, rest, zs)" "waiters_of key s = ws"
  shows "column (wake_loop key ws s) j = (if j = key \<and> xs \<noteq> [] then put_list zs (column s j) else column s j) \<and>
    waiters_of key (wake_loop key ws s) = rest \<and> woken (wake_loop key ws s) = deliver key ds (woken s)"
  using assms
proof (induction ws arbitrary: s xs ds)
  case Nil
  then show ?case by (auto simp: put_list_cong stored_def)
next
  case (Cons w ws)
  show ?case
  proof (cases "xs = []")
    case True
    then have "fmlookup (lists s) key = None" using Cons.prems(1) by (simp add: cList_none)
    then have "wake_loop key (w # ws) s = s" by simp
    moreover have "ds = []" "rest = w # ws" "zs = []" using Cons.prems(2) True by simp_all
    ultimately show ?thesis using Cons.prems(3) True by (simp del: wake_loop.simps)
  next
    case False
    obtain d where d: "fmlookup (lists s) key = Some d" "deque_wf d" "Deque_ToSlice d = xs"
      using cList_lookup [OF Cons.prems(1) False] by blast
    define v ys where "v = fst (take_end (lw_left w) xs)" and "ys = snd (take_end (lw_left w) xs)"
    obtain d' where d': "pop_end (lw_left w) d = (v, d')" "deque_wf d'" "Deque_ToSlice d' = ys"
      using pop_end [OF d(2), of "lw_left w"] d(3) False by (auto simp: v_def ys_def)
    obtain es where es: "serve ws ys = (es, rest, zs)" "ds = (lw_id w, v) # es"
      using Cons.prems(2) False by (auto simp: v_def ys_def split: prod.splits)
    define t where "t = once_send (lw_id w) (key, v) (store_list key d'
        (if ws = [] then s\<lparr>listWaits := fmdrop key (listWaits s)\<rparr> else s\<lparr>listWaits := fmupd key ws (listWaits s)\<rparr>))"
    have step: "wake_loop key (w # ws) s = wake_loop key ws t"
      using d d' False by (simp add: t_def Deque_Len_def dcount_0)
    have col: "column t j = (if j = key then put_list ys (column s j) else column s j)" for j
      using d' by (simp add: t_def)
    have "waiters_of key t = ws" by (simp add: t_def waiters_of_def)
    moreover have "cList (column t key) = stored ys" by (simp add: col)
    ultimately have IH: "column (wake_loop key ws t) j = (if j = key \<and> ys \<noteq> [] then put_list zs (column t j) else column t j) \<and>
      waiters_of key (wake_loop key ws t) = rest \<and> woken (wake_loop key ws t) = deliver key es (woken t)"
      using Cons.IH [of t ys es] es(1) by blast
    have "zs = []" if "ys = []" using es(1) that by simp
    moreover have "woken t = (if has (woken s) (lw_id w) then woken s else fmupd (lw_id w) (key, v) (woken s))"
      by (auto simp: t_def)
    ultimately show ?thesis unfolding step using IH False es(2) by (simp add: col deliver_Cons)
  qed
qed

lemma wake:
  assumes "cList (column s key) = stored xs" "serve (waiters_of key s) xs = (ds, rest, zs)"
  shows "column (wakeListWaitersLocked key s) j = (if j = key \<and> xs \<noteq> [] then put_list zs (column s j) else column s j)"
    and "waiters_of key (wakeListWaitersLocked key s) = rest"
    and "woken (wakeListWaitersLocked key s) = deliver key ds (woken s)"
  using wake_loop [OF assms refl] by (simp_all add: wakeListWaitersLocked_def)

lemma wake_same [simp]:
  "keyVersion (wakeListWaitersLocked key s) = keyVersion s" "version (wakeListWaitersLocked key s) = version s"
  "notBefore (wakeListWaitersLocked key s) = notBefore s"
  by (simp_all add: wakeListWaitersLocked_def)

section \<open>List operations on columns\<close>

lemma list_at_none [simp]: "list_at no_column = []"
  by (simp add: list_at_def)

abbreviation list_wrong :: "column \<Rightarrow> bool" where
  "list_wrong c \<equiv> list_ex (col_holds c) (KString # list_kinds)"

lemma waiters_same [simp]:
  "waiters_of key (purge j now s) = waiters_of key s" "waiters_of key (touchKeyLocked ks now s) = waiters_of key s"
  "waiters_of key (s\<lparr>lists := m\<rparr>) = waiters_of key s" "waiters_of key (store_list j d s) = waiters_of key s"
  by (simp_all add: waiters_of_def)

lemma list_len_column: "list_len key s = length (list_at (column s key))"
  by (simp add: list_len_def list_at_def column_def list_content_def Deque_Len_def split: option.split)

lemma list_or_new_purge:
  assumes "slot_ok (live now s key)"
  shows "deque_wf (list_or_new key (purge key now s))" "Deque_ToSlice (list_or_new key (purge key now s)) = list_at (live now s key)"
  by (rule list_cases [OF assms]; simp add: list_or_new_def)+

lemma pushList_wrong:
  "vs \<noteq> [] \<Longrightarrow> list_wrong (live now s key) \<Longrightarrow> pushList key left vs now s = (Inl WrongType, purge key now s)"
  by (simp add: pushList_def locked_eqs)

lemma pushList_run:
  assumes ok: "slot_ok (live now s key)" and vs: "vs \<noteq> []" and kind: "\<not> list_wrong (live now s key)"
    and serve: "serve (waiters_of key s) (put_end left vs (list_at (live now s key))) = (ds, rest, zs)"
  shows "fst (pushList key left vs now s) = Inr (length zs)"
    and "column (snd (pushList key left vs now s)) key = put_list zs (live now s key)"
    and "waiters_of key (snd (pushList key left vs now s)) = rest"
    and "woken (snd (pushList key left vs now s)) = deliver key ds (woken s)"
    and "notBefore (snd (pushList key left vs now s)) = notBefore (purge key now s)"
    and "tracked {key} s (snd (pushList key left vs now s))"
    and "j \<noteq> key \<Longrightarrow> waiters_of j (snd (pushList key left vs now s)) = waiters_of j s"
proof -
  define ys where "ys = put_end left vs (list_at (live now s key))"
  define d where "d = (let d = list_or_new key (purge key now s) in if left then Deque_PushFront vs d else Deque_PushBack vs d)"
  define t where "t = touchKeyLocked [key] now (purge key now s\<lparr>lists := fmupd key d (lists (purge key now s))\<rparr>)"
  have content: "list_content d = (ys, True)"
    using pushed [OF list_or_new_purge(1) [OF ok]] list_or_new_purge(2) [OF ok] by (simp add: d_def ys_def Let_def)
  have run: "pushList key left vs now s = (Inr (list_len key (wakeListWaitersLocked key t)), wakeListWaitersLocked key t)"
    using vs kind by (simp add: pushList_def locked_eqs t_def d_def Let_def)
  have ne: "ys \<noteq> []" using vs by (simp add: ys_def)
  have col: "column t j = (if j = key then (live now s j)\<lparr>cList := Some (ys, True)\<rparr> else column s j)" for j
    by (simp add: t_def content column_purge)
  have "cList (column t key) = stored ys" using ne by (simp add: col stored_def)
  moreover have "serve (waiters_of key t) ys = (ds, rest, zs)" using serve by (simp add: t_def ys_def)
  ultimately have woke: "column (wakeListWaitersLocked key t) j = (if j = key \<and> ys \<noteq> [] then put_list zs (column t j) else column t j)"
    "waiters_of key (wakeListWaitersLocked key t) = rest" "woken (wakeListWaitersLocked key t) = deliver key ds (woken t)" for j
    by (rule wake)+
  show "column (snd (pushList key left vs now s)) key = put_list zs (live now s key)"
    using ne by (auto simp: run woke col put_list_def)
  then show "fst (pushList key left vs now s) = Inr (length zs)"
    by (auto simp: run list_len_column list_at_def stored_def)
  show "waiters_of key (snd (pushList key left vs now s)) = rest" by (simp add: run woke)
  show "woken (snd (pushList key left vs now s)) = deliver key ds (woken s)" by (simp add: run woke) (simp add: t_def)
  show "notBefore (snd (pushList key left vs now s)) = notBefore (purge key now s)" by (simp add: run t_def)
  show "waiters_of j (snd (pushList key left vs now s)) = waiters_of j s" if "j \<noteq> key"
    using that by (simp add: run wakeListWaitersLocked_def waiters_of_def wake_loop_waits_other) (simp add: t_def)
  have "tracked {key} s t" unfolding t_def by (rule tracked_edit) auto
  moreover have "version s < getVersion key t" "getVersion key t \<le> version t" by (simp_all add: t_def purge_def)
  ultimately show "tracked {key} s (snd (pushList key left vs now s))"
    unfolding run snd_conv by - (rule tracked_more [of _ s t key], auto simp: woke)
qed

lemma pushList_tracked:
  assumes "store_wf s"
  shows "tracked {key} s (snd (pushList key left vs now s))"
proof (cases "vs = [] \<or> list_wrong (live now s key)")
  case True
  then show ?thesis by (auto simp: pushList_def locked_eqs intro: tracked_purge)
next
  case False
  obtain ds rest zs where "serve (waiters_of key s) (put_end left vs (list_at (live now s key))) = (ds, rest, zs)"
    by (cases "serve (waiters_of key s) (put_end left vs (list_at (live now s key)))") auto
  then show ?thesis using pushList_run(6) slot_ok_live [OF assms] False by blast
qed

lemma pushList_slot: "store_wf s \<Longrightarrow> slot_ok (column (snd (pushList key left vs now s)) key)"
proof (cases "vs = [] \<or> list_wrong (live now s key)")
  case True
  assume "store_wf s"
  with True show ?thesis using slot_ok_live [of s now key]
    by (auto simp: pushList_def locked_eqs column_purge store_wf_def)
next
  case False
  assume wf: "store_wf s"
  obtain ds rest zs where "serve (waiters_of key s) (put_end left vs (list_at (live now s key))) = (ds, rest, zs)"
    by (cases "serve (waiters_of key s) (put_end left vs (list_at (live now s key)))") auto
  from pushList_run(2) [OF slot_ok_live [OF wf] _ _ this] False show ?thesis
    using put_list_slot [OF slot_ok_live [OF wf] only_list] by auto
qed

text \<open>An edit of a present list: the new buffer is stored, or removed if it is empty, and the key is touched.\<close>

lemma list_edit:
  assumes "deque_wf d"
  shows "column (touchKeyLocked [key] now (store_list key d (purge key now s))) key = put_list (Deque_ToSlice d) (live now s key)"
    and "tracked {key} s (touchKeyLocked [key] now (store_list key d (purge key now s)))"
    and "notBefore (touchKeyLocked [key] now (store_list key d (purge key now s))) = notBefore (purge key now s)"
    and "listWaits (touchKeyLocked [key] now (store_list key d (purge key now s))) = listWaits s"
  using assms by (auto simp: column_purge intro!: tracked_edit)

lemma store_list_ne: "Deque_ToSlice d \<noteq> [] \<Longrightarrow> s\<lparr>lists := fmupd key d (lists s)\<rparr> = store_list key d s"
  by (simp add: store_list_def Deque_Len_def dcount_0)

lemma list_result_edit:
  "deque_wf d \<Longrightarrow> key_result key now s r (put_list (Deque_ToSlice d) (live now s key))
     (r, touchKeyLocked [key] now (store_list key d (purge key now s)))"
  by (simp add: key_result_def list_edit column_purge)

text \<open>The four cases of an operation on the list of a key.\<close>

lemma list_op_cases:
  assumes "slot_ok (live now s key)"
  obtains (expired) "isExpiredRLocked key now s" "live now s key = no_column"
  | (wrong) "\<not> isExpiredRLocked key now s" "list_wrong (live now s key)"
  | (absent) "\<not> isExpiredRLocked key now s" "\<not> list_wrong (live now s key)"
      "fmlookup (lists (purge key now s)) key = None" "list_at (live now s key) = []"
  | (present) d where "\<not> isExpiredRLocked key now s" "\<not> list_wrong (live now s key)"
      "fmlookup (lists (purge key now s)) key = Some d" "deque_wf d" "Deque_ToSlice d \<noteq> []"
      "list_at (live now s key) = Deque_ToSlice d" "Deque_Len d = length (Deque_ToSlice d)"
      "cList (live now s key) = Some (Deque_ToSlice d, True)"
proof (cases "isExpiredRLocked key now s")
  case True
  then show ?thesis by (intro expired) (simp_all add: live_expired)
next
  case fresh: False
  show ?thesis
  proof (cases "list_wrong (live now s key)")
    case True
    then show ?thesis using fresh by (intro wrong)
  next
    case False
    from assms show ?thesis
    proof (cases rule: list_cases)
      case absent
      then show ?thesis using fresh False that(3) by blast
    next
      case (present d)
      show ?thesis
        by (rule that(4) [OF fresh False present(1-3) present(4) [symmetric] _ present(5)]) (simp add: Deque_Len_def)
    qed
  qed
qed

lemma popList_run:
  assumes "slot_ok (live now s key)"
  shows "key_result key now s
    (let c = live now s key; xs = list_at c in
       if list_wrong c then Inl WrongType else if xs = [] then Inr None else Inr (Some (fst (take_end left xs))))
    (let c = live now s key; xs = list_at c in if list_wrong c \<or> xs = [] then c else put_list (snd (take_end left xs)) c)
    (popList key left now s)"
  using assms
proof (cases rule: list_op_cases)
  case (present d)
  obtain d' where d': "(if left then Deque_PopFront d else Deque_PopBack d) = (Some (fst (take_end left (Deque_ToSlice d))), d')"
    "deque_wf d'" "Deque_ToSlice d' = snd (take_end left (Deque_ToSlice d))"
    using popped [OF present(4,5), of left] by blast
  have "popList key left now s =
      (Inr (Some (fst (take_end left (Deque_ToSlice d)))), touchKeyLocked [key] now (store_list key d' (purge key now s)))"
    using present d'(1) by (simp add: popList_def locked_eqs dcount_0)
  then show ?thesis using present d'(3) list_result_edit [OF d'(2), of key now s] by (simp add: Let_def)
qed (use key_result_same [of key now s] in \<open>auto simp: popList_def locked_eqs Let_def\<close>)

lemma norm_index_less: "norm_index i n = Some j \<Longrightarrow> j < n"
  by (auto simp: norm_index_def Let_def split: if_splits)

lemma LSet_run:
  assumes "slot_ok (live now s key)"
  shows "key_result key now s
    (let c = live now s key; xs = list_at c in
       if list_wrong c then Inl WrongType else if xs = [] then Inl (Err ''no such key'')
       else case norm_index i (length xs) of None \<Rightarrow> Inl (Err ''index out of range'') | Some j \<Rightarrow> Inr ())
    (let c = live now s key; xs = list_at c in
       if list_wrong c \<or> xs = [] then c else case norm_index i (length xs) of None \<Rightarrow> c | Some j \<Rightarrow> put_list (xs[j := v]) c)
    (Store_LSet key i v now s)"
  using assms
proof (cases rule: list_op_cases)
  case (present d)
  show ?thesis
  proof (cases "norm_index i (length (Deque_ToSlice d))")
    case None
    then show ?thesis using present key_result_same [of key now s] by (simp add: Store_LSet_def locked_eqs dcount_0 Let_def)
  next
    case (Some j)
    then have j: "j < dcount d" using norm_index_less by fastforce
    have "Store_LSet key i v now s = (Inr (), touchKeyLocked [key] now (store_list key (Deque_Set j v d) (purge key now s)))"
      using present Some Deque_Set(2) [OF present(4) j, of v] by (simp add: Store_LSet_def locked_eqs dcount_0 store_list_ne)
    then show ?thesis
      using present Some list_result_edit [OF Deque_Set(1) [OF present(4) j], of key now s] Deque_Set(2) [OF present(4) j]
      by (simp add: Let_def)
  qed
qed (use key_result_same [of key now s] in \<open>auto simp: Store_LSet_def locked_eqs Let_def\<close>)

text \<open>The first index of an element.\<close>

definition index_of :: "'a \<Rightarrow> 'a list \<Rightarrow> nat option" where
  "index_of x xs = find (\<lambda>i. xs ! i = x) [0..<length xs]"

lemma find_element: "find_element x d = index_of x (Deque_ToSlice d)"
  unfolding find_element_def index_of_def by (rule find_cong) (simp_all add: Deque_Len_def Deque_Get)

lemma index_of_Some: "index_of x xs = Some i \<longleftrightarrow> i < length xs \<and> xs ! i = x \<and> (\<forall>j < i. xs ! j \<noteq> x)"
  by (auto simp: index_of_def find_Some_iff)

lemma LInsert_run:
  assumes "slot_ok (live now s key)"
  shows "key_result key now s
    (let c = live now s key; xs = list_at c in
       if list_wrong c then Inl WrongType else if xs = [] then Inr 0
       else case index_of pivot xs of None \<Rightarrow> Inr (-1) | Some i \<Rightarrow> Inr (int (length xs) + 1))
    (let c = live now s key; xs = list_at c in
       if list_wrong c \<or> xs = [] then c
       else case index_of pivot xs of None \<Rightarrow> c
         | Some i \<Rightarrow> let i = (if before then i else i + 1) in put_list (take i xs @ v # drop i xs) c)
    (Store_LInsert key before pivot v now s)"
  using assms
proof (cases rule: list_op_cases)
  case (present d)
  show ?thesis
  proof (cases "index_of pivot (Deque_ToSlice d)")
    case None
    then show ?thesis using present key_result_same [of key now s]
      by (simp add: Store_LInsert_def locked_eqs dcount_0 Let_def find_element)
  next
    case (Some i)
    define k where "k = (if before then i else i + 1)"
    have "i < dcount d" using Some by (auto simp: index_of_Some)
    then have k: "k \<le> dcount d" by (simp add: k_def)
    note ins = Deque_Insert [OF present(4) k, of v]
    have len: "int (Deque_Len (Deque_Insert k v d)) = int (length (Deque_ToSlice d)) + 1"
      using ins k by (simp add: Deque_Len_def flip: length_ToSlice [of "Deque_Insert k v d"])
    have "Store_LInsert key before pivot v now s =
        (Inr (int (Deque_Len (Deque_Insert k v d))), touchKeyLocked [key] now (store_list key (Deque_Insert k v d) (purge key now s)))"
      using present Some ins by (simp add: Store_LInsert_def locked_eqs dcount_0 store_list_ne find_element k_def Let_def)
    then show ?thesis
      using present Some ins list_result_edit [OF conjunct1 [OF ins], of key now s] len
      by (cases before) (simp_all add: Let_def k_def)
  qed
qed (use key_result_same [of key now s] in \<open>auto simp: Store_LInsert_def locked_eqs Let_def\<close>)

section \<open>Removing occurrences\<close>

text \<open>The list without the first \<open>n\<close> occurrences of an element; counted from the tail for a negative
  count, all occurrences for zero.\<close>

fun del_first :: "nat \<Rightarrow> 'a \<Rightarrow> 'a list \<Rightarrow> 'a list" where
  "del_first n x [] = []"
| "del_first n x (y # ys) = (if y = x \<and> 0 < n then del_first (n - 1) x ys else y # del_first n x ys)"

definition without :: "int \<Rightarrow> 'a \<Rightarrow> 'a list \<Rightarrow> 'a list" where
  "without cnt x xs =
     (if 0 < cnt then del_first (nat cnt) x xs
      else if cnt < 0 then rev (del_first (nat (wrap64 (- cnt))) x (rev xs))
      else filter (\<lambda>y. y \<noteq> x) xs)"

lemma length_del_first: "length (del_first n x xs) \<le> length xs"
  by (induction n x xs rule: del_first.induct) auto

lemma del_first_same: "length (del_first n x xs) = length xs \<Longrightarrow> del_first n x xs = xs"
proof (induction n x xs rule: del_first.induct)
  case (2 n x y ys)
  then show ?case using length_del_first [of "n - 1" x ys] by (auto split: if_splits)
qed simp

lemma length_without: "length (without cnt x xs) \<le> length xs"
  using length_del_first [of "nat cnt" x xs] length_del_first [of "nat (wrap64 (- cnt))" x "rev xs"]
  by (simp add: without_def)

lemma without_same: "length (without cnt x xs) = length xs \<Longrightarrow> without cnt x xs = xs"
  using del_first_same [of "nat cnt" x xs] del_first_same [of "nat (wrap64 (- cnt))" x "rev xs"] length_filter_less [of _ xs "\<lambda>y. y \<noteq> x"]
  by (auto simp: without_def filter_id_conv split: if_splits)

lemma lrem_head:
  "lrem_head x cnt removed kept xs =
     (removed + (length xs - length (del_first (nat (cnt - int removed)) x xs)), kept @ del_first (nat (cnt - int removed)) x xs)"
proof (induction xs arbitrary: removed kept)
  case (Cons y ys)
  have "nat (cnt - int (Suc removed)) = nat (cnt - int removed) - 1" by simp
  then show ?case using length_del_first [of "nat (cnt - int removed) - 1" x ys]
    by (auto simp: Cons Suc_diff_le)
qed simp

lemma lrem_all: "lrem_all x removed kept xs = (removed + (length xs - length (filter (\<lambda>y. y \<noteq> x) xs)), kept @ filter (\<lambda>y. y \<noteq> x) xs)"
proof (induction xs arbitrary: removed kept)
  case (Cons y ys)
  have "length (filter (\<lambda>y. y \<noteq> x) ys) \<le> removed + length ys" by (rule trans_le_add2) simp
  then show ?case by (auto simp: Cons Suc_diff_le)
qed simp

text \<open>The indices collected from the tail are those the reversed list loses first.\<close>

lemma lrem_tail_idx:
  assumes "n \<le> length xs" "set js \<inter> {..<n} = {}"
  shows "\<exists>is. lrem_tail_idx x cnt xs removed js (rev [0..<n]) =
      (removed + (n - length (del_first (nat (cnt - int removed)) x (rev (take n xs)))), is @ js) \<and>
    map (\<lambda>i. xs ! i) (filter (\<lambda>i. i \<notin> set (is @ js)) [0..<n]) = rev (del_first (nat (cnt - int removed)) x (rev (take n xs)))
    \<and> set is \<subseteq> {..<n}"
  using assms
proof (induction n arbitrary: removed js)
  case (Suc n)
  have tk: "rev (take (Suc n) xs) = xs ! n # rev (take n xs)" using Suc.prems(1) by (simp add: take_Suc_conv_app_nth)
  define m where "m = nat (cnt - int removed)"
  have stop: "del_first 0 x ys = ys" for ys by (induction ys) auto
  have keep: "filter (\<lambda>i. i \<notin> set js) [0..<Suc n] = [0..<Suc n]"
    using Suc.prems(2) by (auto simp: filter_id_conv)
  have m1: "nat (cnt - int (removed + 1)) = m - 1" by (simp add: m_def)
  consider (over) "\<not> int removed < cnt" | (hit) "int removed < cnt" "xs ! n = x" | (miss) "int removed < cnt" "xs ! n \<noteq> x" by blast
  then show ?case
  proof cases
    case over
    then have "m = 0" by (simp add: m_def)
    moreover have "lrem_tail_idx x cnt xs removed js (rev [0..<Suc n]) = (removed, [] @ js)" using over by simp
    moreover have "map (\<lambda>i. xs ! i) [0..<Suc n] = take (Suc n) xs" using Suc.prems(1) by (intro nth_equalityI) (auto simp del: upt_Suc)
    ultimately show ?thesis using keep Suc.prems(1)
      by (intro exI [of _ "[]"]) (simp add: stop m_def [symmetric] take_Suc_conv_app_nth del: upt_Suc)
  next
    case hit
    have "set (n # js) \<inter> {..<n} = {}" using Suc.prems(2) by auto
    then obtain "is" where IH: "lrem_tail_idx x cnt xs (removed + 1) (n # js) (rev [0..<n]) =
        (removed + 1 + (n - length (del_first (m - 1) x (rev (take n xs)))), is @ n # js)"
      "map (\<lambda>i. xs ! i) (filter (\<lambda>i. i \<notin> set (is @ n # js)) [0..<n]) = rev (del_first (m - 1) x (rev (take n xs)))" "set is \<subseteq> {..<n}"
      using Suc.IH [of "n # js" "removed + 1"] Suc.prems(1) unfolding m1 by auto
    have "length (del_first (m - 1) x (rev (take n xs))) \<le> n"
      using length_del_first [of "m - 1" x "rev (take n xs)"] Suc.prems(1) by simp
    then show ?thesis using hit IH by (intro exI [of _ "is @ [n]"]) (auto simp: tk m_def)
  next
    case miss
    have "set js \<inter> {..<n} = {}" using Suc.prems(2) by auto
    then obtain "is" where IH: "lrem_tail_idx x cnt xs removed js (rev [0..<n]) =
        (removed + (n - length (del_first m x (rev (take n xs)))), is @ js)"
      "map (\<lambda>i. xs ! i) (filter (\<lambda>i. i \<notin> set (is @ js)) [0..<n]) = rev (del_first m x (rev (take n xs)))" "set is \<subseteq> {..<n}"
      using Suc.IH [of js removed] Suc.prems(1) unfolding m_def by auto
    moreover have "n \<notin> set (is @ js)" using IH(3) Suc.prems(2) by auto
    ultimately show ?thesis using miss by (intro exI [of _ "is"]) (auto simp: tk m_def)
  qed
qed simp

lemma lrem_items: "lrem_items cnt x xs = (length xs - length (without cnt x xs), without cnt x xs)"
proof -
  obtain "is" where tail: "lrem_tail_idx x (wrap64 (- cnt)) xs 0 [] (rev [0..<length xs]) =
      (length xs - length (del_first (nat (wrap64 (- cnt))) x (rev xs)), is)"
    "map (\<lambda>i. xs ! i) (filter (\<lambda>i. i \<notin> set is) [0..<length xs]) = rev (del_first (nat (wrap64 (- cnt))) x (rev xs))"
    using lrem_tail_idx [of "length xs" xs "[]" x "wrap64 (- cnt)" 0] by auto
  then show ?thesis by (simp add: lrem_items_def without_def lrem_head lrem_all lrem_tail_def)
qed

lemma LRem_run:
  assumes "slot_ok (live now s key)"
  shows "key_result key now s
    (let c = live now s key; xs = list_at c in
       if list_wrong c then Inl WrongType else Inr (length xs - length (without cnt x xs)))
    (let c = live now s key; xs = list_at c in if list_wrong c \<or> xs = [] then c else put_list (without cnt x xs) c)
    (Store_LRem key cnt x now s)"
  using assms
proof (cases rule: list_op_cases)
  case (present d)
  define ys where "ys = without cnt x (Deque_ToSlice d)"
  define d' where "d' = Deque_PushBack ys Deque_empty"
  have d': "deque_wf d'" "Deque_ToSlice d' = ys" by (simp_all add: d'_def Deque_PushBack)
  have run: "Store_LRem key cnt x now s =
      (Inr (length (Deque_ToSlice d) - length ys),
       if length (Deque_ToSlice d) - length ys = 0 then store_list key d' (purge key now s)
       else touchKeyLocked [key] now (store_list key d' (purge key now s)))"
    using present d' by (simp add: Store_LRem_def locked_eqs dcount_0 lrem_items Let_def ys_def [symmetric] d'_def [symmetric]
        store_list_def Deque_Len_def)
  show ?thesis
  proof (cases "length (Deque_ToSlice d) - length ys = 0")
    case True
    then have "ys = Deque_ToSlice d"
      using length_without [of cnt x "Deque_ToSlice d"] unfolding ys_def by (intro without_same) simp
    then have "put_list ys (live now s key) = live now s key" using present(5,8) by (simp add: put_list_cong)
    then show ?thesis using present True d'
      by (auto simp: run key_result_def purge_id live_fresh tracked_def getVersion_def ys_def [symmetric] Let_def)
  next
    case False
    then show ?thesis using present d'(2) list_result_edit [OF d'(1), of key now s] by (simp add: run ys_def Let_def)
  qed
next
  case absent
  then show ?thesis using key_result_same [of key now s] by (simp add: Store_LRem_def locked_eqs Let_def without_def)
qed (use key_result_same [of key now s] in \<open>auto simp: Store_LRem_def locked_eqs Let_def without_def\<close>)

lemma list_edit_slot: "store_wf s \<Longrightarrow> \<not> list_wrong (live now s key) \<Longrightarrow> slot_ok (put_list xs (live now s key))"
  by (intro put_list_slot slot_ok_live only_list)

lemma list_tracked:
  assumes "store_wf s"
  shows "tracked {key} s (snd (popList key left now s))" "tracked {key} s (snd (Store_LSet key i v now s))"
    "tracked {key} s (snd (Store_LInsert key before pivot v now s))" "tracked {key} s (snd (Store_LRem key cnt x now s))"
  by (rule key_result_tracked [OF popList_run] key_result_tracked [OF LSet_run] key_result_tracked [OF LInsert_run]
      key_result_tracked [OF LRem_run], rule slot_ok_live [OF assms])+

lemma list_slot:
  assumes "store_wf s"
  shows "slot_ok (column (snd (popList key left now s)) key)" "slot_ok (column (snd (Store_LSet key i v now s)) key)"
    "slot_ok (column (snd (Store_LInsert key before pivot v now s)) key)" "slot_ok (column (snd (Store_LRem key cnt x now s)) key)"
  using assms list_edit_slot [OF assms, of now key] slot_ok_live [OF assms, of now key]
  by (auto simp: key_result_column [OF popList_run] key_result_column [OF LSet_run] key_result_column [OF LInsert_run]
      key_result_column [OF LRem_run] Let_def split: option.split)

section \<open>List commands are list operations\<close>

datatype list_op =
    OpLPush "string list" | OpRPush "string list" | OpLPop | OpRPop | OpLSet int string
  | OpLInsert bool string string | OpLRem int string | OpLRange int int | OpLLen | OpLIndex int | OpLPos string

datatype list_out =
    LNum "nat res" | LInt "int res" | LVal "string option res" | LStrs "string list res" | LDone "unit res"
  | LIdx "nat option res"

fun list_cmd :: "key \<Rightarrow> list_op \<times> gotime \<Rightarrow> store \<Rightarrow> list_out \<times> store" where
  "list_cmd key (OpLPush vs, now) s = map_prod LNum id (Store_LPush key vs now s)"
| "list_cmd key (OpRPush vs, now) s = map_prod LNum id (Store_RPush key vs now s)"
| "list_cmd key (OpLPop, now) s = map_prod LVal id (Store_LPop key now s)"
| "list_cmd key (OpRPop, now) s = map_prod LVal id (Store_RPop key now s)"
| "list_cmd key (OpLSet i v, now) s = map_prod LDone id (Store_LSet key i v now s)"
| "list_cmd key (OpLInsert before pivot v, now) s = map_prod LInt id (Store_LInsert key before pivot v now s)"
| "list_cmd key (OpLRem cnt x, now) s = map_prod LNum id (Store_LRem key cnt x now s)"
| "list_cmd key (OpLRange a b, now) s = (LStrs (Store_LRange key a b now s), s)"
| "list_cmd key (OpLLen, now) s = (LNum (Store_LLen key now s), s)"
| "list_cmd key (OpLIndex i, now) s = (LVal (Store_LIndex key i now s), s)"
| "list_cmd key (OpLPos x, now) s = (LIdx (Store_LPos key x now s), s)"

fun plain_cmd :: "list_op \<times> gotime \<Rightarrow> string list \<Rightarrow> list_out \<times> string list" where
  "plain_cmd (OpLPush vs, now) xs =
     (LNum (if vs = [] then Inl (Err ''wrong number of list values'') else Inr (length vs + length xs)), rev vs @ xs)"
| "plain_cmd (OpRPush vs, now) xs =
     (LNum (if vs = [] then Inl (Err ''wrong number of list values'') else Inr (length xs + length vs)), xs @ vs)"
| "plain_cmd (OpLPop, now) xs = (LVal (Inr (if xs = [] then None else Some (hd xs))), tl xs)"
| "plain_cmd (OpRPop, now) xs = (LVal (Inr (if xs = [] then None else Some (last xs))), butlast xs)"
| "plain_cmd (OpLSet i v, now) xs =
     (if xs = [] then (LDone (Inl (Err ''no such key'')), xs)
      else case norm_index i (length xs) of
        None \<Rightarrow> (LDone (Inl (Err ''index out of range'')), xs) | Some j \<Rightarrow> (LDone (Inr ()), xs[j := v]))"
| "plain_cmd (OpLInsert before pivot v, now) xs =
     (if xs = [] then (LInt (Inr 0), xs)
      else case index_of pivot xs of
        None \<Rightarrow> (LInt (Inr (-1)), xs)
      | Some i \<Rightarrow> let i = (if before then i else i + 1) in (LInt (Inr (int (length xs) + 1)), take i xs @ v # drop i xs))"
| "plain_cmd (OpLRem cnt x, now) xs = (LNum (Inr (length xs - length (without cnt x xs))), without cnt x xs)"
| "plain_cmd (OpLRange a b, now) xs = (LStrs (Inr (list_range a b xs)), xs)"
| "plain_cmd (OpLLen, now) xs = (LNum (Inr (length xs)), xs)"
| "plain_cmd (OpLIndex i, now) xs = (LVal (Inr (map_option (\<lambda>j. xs ! j) (norm_index i (length xs)))), xs)"
| "plain_cmd (OpLPos x, now) xs = (LIdx (Inr (index_of x xs)), xs)"

text \<open>The key holds the list and nothing else, without a deadline or a delay, and nobody waits for it.\<close>

definition list_rel :: "key \<Rightarrow> store \<Rightarrow> string list \<Rightarrow> bool" where
  "list_rel key s xs \<longleftrightarrow> column s key = put_list xs no_column \<and> fmlookup (notBefore s) key = None \<and> waiters_of key s = []"

lemma put_list_none [simp]:
  "list_at (put_list xs no_column) = xs" "\<not> list_wrong (put_list xs no_column)"
  "cExp (put_list xs no_column) = None" "put_list ys (put_list xs no_column) = put_list ys no_column"
  by (auto simp: put_list_def list_at_def list_kinds_def no_column_def)

lemma put_list_none_slot [simp]: "slot_ok (put_list xs no_column)"
  by (rule put_list_slot) simp_all

lemma put_list_Nil [simp]: "put_list [] no_column = no_column"
  by (simp add: put_list_def no_column_def)

lemma list_rel_fresh:
  assumes "list_rel key s xs"
  shows "isExpiredRLocked key now s = False" "delayed key now s = False" "purge key now s = s"
    "live now s key = put_list xs no_column"
proof -
  show e: "isExpiredRLocked key now s = False"
    using assms by (simp add: list_rel_def isExpired_column)
  then show "purge key now s = s" "live now s key = put_list xs no_column"
    using assms by (simp_all add: purge_id live_fresh list_rel_def)
  show "delayed key now s = False" using assms by (simp add: list_rel_def delayed_def)
qed

lemma list_rel_read:
  assumes "list_rel key s xs"
  obtains "xs = []" "fmlookup (lists s) key = None" "\<not> wrongTypeRLocked list_kinds key now s" "\<not> isExpiredRLocked key now s"
  | d where "xs \<noteq> []" "fmlookup (lists s) key = Some d" "Deque_ToSlice d = xs" "Deque_Len d = length xs"
      "\<not> wrongTypeRLocked list_kinds key now s" "\<not> isExpiredRLocked key now s"
proof -
  note fresh = list_rel_fresh [OF assms, of now]
  have wrong: "\<not> wrongTypeRLocked list_kinds key now s"
    using put_list_none(2) [of xs] by (simp add: wrongTypeRLocked_eq fresh)
  have c: "cList (column s key) = stored xs" using assms by (simp add: list_rel_def)
  show ?thesis
  proof (cases "xs = []")
    case True
    then show ?thesis using cList_none [of s key] c wrong fresh(1) that(1) by simp
  next
    case False
    then obtain d where "fmlookup (lists s) key = Some d" "deque_wf d" "Deque_ToSlice d = xs"
      using cList_lookup [OF c] by blast
    then show ?thesis using False wrong fresh(1) that(2) [of d] by (auto simp: Deque_Len_def)
  qed
qed

lemma list_rel_result:
  assumes "list_rel key s xs" "key_result key now s r (put_list ys no_column) res"
  shows "list_rel key (snd res) ys" "fst res = r"
  using assms list_rel_fresh [OF assms(1)] by (simp_all add: list_rel_def key_result_def waiters_of_def)

lemma list_rel_push:
  assumes rel: "list_rel key s xs" and vs: "vs \<noteq> []"
  shows "list_rel key (snd (pushList key left vs now s)) (put_end left vs xs)"
    "fst (pushList key left vs now s) = Inr (length (put_end left vs xs))"
proof -
  note fresh = list_rel_fresh [OF rel, of now]
  have "serve (waiters_of key s) (put_end left vs (list_at (live now s key))) = ([], [], put_end left vs xs)"
    using rel by (simp add: list_rel_def fresh)
  moreover have "slot_ok (live now s key)" "\<not> list_wrong (live now s key)"
    unfolding fresh by (rule put_list_none_slot, rule put_list_none)
  ultimately have run: "fst (pushList key left vs now s) = Inr (length (put_end left vs xs))"
    "column (snd (pushList key left vs now s)) key = put_list (put_end left vs xs) (live now s key)"
    "waiters_of key (snd (pushList key left vs now s)) = []"
    "notBefore (snd (pushList key left vs now s)) = notBefore (purge key now s)"
    using pushList_run [OF _ vs, of now s key left] by blast+
  show "list_rel key (snd (pushList key left vs now s)) (put_end left vs xs)"
    using run rel by (simp add: list_rel_def fresh)
  show "fst (pushList key left vs now s) = Inr (length (put_end left vs xs))" by (rule run)
qed

lemma list_range_Nil [simp]: "list_range a b [] = []"
  by (auto simp: list_range_def split: option.split)

lemma norm_index_0 [simp]: "norm_index i 0 = None"
  by (simp add: norm_index_def Let_def)

lemma without_Nil [simp]: "without cnt x [] = []"
  by (simp add: without_def)

lemma list_cmd_sim:
  assumes rel: "list_rel key s xs"
  shows "list_rel key (snd (list_cmd key (opn, now) s)) (snd (plain_cmd (opn, now) xs)) \<and>
    fst (list_cmd key (opn, now) s) = fst (plain_cmd (opn, now) xs)"
proof -
  note fresh = list_rel_fresh [OF rel, of now]
  have ok: "slot_ok (live now s key)" by (simp add: fresh)
  have wrong: "list_wrong (put_list ys no_column) = False" for ys using put_list_none(2) by blast
  note res = list_rel_result [OF rel, of now]
  show ?thesis
  proof (cases opn)
    case (OpLPush vs)
    then show ?thesis using list_rel_push [OF rel, of vs True now] rel
      by (cases "vs = []") (simp_all add: Store_LPush_def pushList_def [of _ _ "[]"] put_end_def)
  next
    case (OpRPush vs)
    then show ?thesis using list_rel_push [OF rel, of vs False now] rel
      by (cases "vs = []") (simp_all add: Store_RPush_def pushList_def [of _ _ "[]"] put_end_def)
  next
    case OpLPop
    have "key_result key now s (Inr (if xs = [] then None else Some (hd xs))) (put_list (tl xs) no_column) (popList key True now s)"
      using popList_run [OF ok, of True] wrong [of xs] by (cases "xs = []") (simp_all add: fresh Let_def take_end_def)
    from res [OF this] show ?thesis by (simp add: OpLPop Store_LPop_def)
  next
    case OpRPop
    have "key_result key now s (Inr (if xs = [] then None else Some (last xs))) (put_list (butlast xs) no_column) (popList key False now s)"
      using popList_run [OF ok, of False] wrong [of xs] by (cases "xs = []") (simp_all add: fresh Let_def take_end_def)
    from res [OF this] show ?thesis by (simp add: OpRPop Store_RPop_def)
  next
    case (OpLSet i v)
    define ys where "ys = (case norm_index i (length xs) of None \<Rightarrow> xs | Some j \<Rightarrow> xs[j := v])"
    have "key_result key now s
        (if xs = [] then Inl (Err ''no such key'') else case norm_index i (length xs) of None \<Rightarrow> Inl (Err ''index out of range'') | Some j \<Rightarrow> Inr ())
        (put_list ys no_column) (Store_LSet key i v now s)"
      using LSet_run [OF ok, of i v] wrong [of xs] by (cases "xs = []") (auto simp: fresh Let_def ys_def split: option.splits)
    from res [OF this] show ?thesis by (auto simp: OpLSet ys_def split: option.split)
  next
    case (OpLInsert before pivot v)
    define ys where "ys = (case index_of pivot xs of None \<Rightarrow> xs | Some i \<Rightarrow> let i = (if before then i else i + 1) in take i xs @ v # drop i xs)"
    have "key_result key now s
        (if xs = [] then Inr 0 else case index_of pivot xs of None \<Rightarrow> Inr (-1) | Some j \<Rightarrow> Inr (int (length xs) + 1))
        (put_list ys no_column) (Store_LInsert key before pivot v now s)"
      using LInsert_run [OF ok, of pivot before v] wrong [of xs]
      by (cases "xs = []") (auto simp: fresh Let_def ys_def index_of_def split: option.splits)
    from res [OF this] show ?thesis by (auto simp: OpLInsert ys_def Let_def index_of_def split: option.split)
  next
    case (OpLRem cnt x)
    have "key_result key now s (Inr (length xs - length (without cnt x xs))) (put_list (without cnt x xs) no_column) (Store_LRem key cnt x now s)"
      using LRem_run [OF ok, of cnt x] wrong [of xs] by (cases "xs = []") (simp_all add: fresh Let_def)
    from res [OF this] show ?thesis by (simp add: OpLRem)
  next
    case (OpLRange a b)
    show ?thesis using rel
      by (rule list_rel_read [of key s xs now]) (use rel in \<open>auto simp: OpLRange Store_LRange_def Deque_Range_list\<close>)
  next
    case OpLLen
    show ?thesis using rel by (rule list_rel_read [of key s xs now]) (use rel in \<open>auto simp: OpLLen Store_LLen_def\<close>)
  next
    case (OpLIndex i)
    show ?thesis using rel
    proof (rule list_rel_read [of key s xs now])
      fix d assume d: "xs \<noteq> []" "fmlookup (lists s) key = Some d" "Deque_ToSlice d = xs" "Deque_Len d = length xs"
        "\<not> wrongTypeRLocked list_kinds key now s" "\<not> isExpiredRLocked key now s"
      have "Deque_Get d j = xs ! j" if "norm_index i (length xs) = Some j" for j
        using norm_index_less [OF that] d(3) by (auto intro: Deque_Get)
      then show ?thesis using d rel by (auto simp: OpLIndex Store_LIndex_def split: option.split)
    qed (use rel in \<open>auto simp: OpLIndex Store_LIndex_def\<close>)
  next
    case (OpLPos x)
    show ?thesis using rel
      by (rule list_rel_read [of key s xs now]) (use rel in \<open>auto simp: OpLPos Store_LPos_def find_element index_of_def\<close>)
  qed
qed

interpretation list_sim: simulation "list_cmd key" plain_cmd "list_rel key" for key
proof (unfold_locales, goal_cases)
  case (1 s h opn)
  then show ?case using list_cmd_sim [of key s h "fst opn" "snd opn"] by simp
next
  case (2 s h opn)
  then show ?case using list_cmd_sim [of key s h "fst opn" "snd opn"] by simp
qed

text \<open>C5: On a key that holds nothing and that nobody waits for, any sequence of list commands gives the
  answers of the same sequence on a plain list: pushes and pops at both ends, indices from either end,
  insertion before or after the first pivot, removal from the head, from the tail or everywhere, and
  ranges.  The ring buffer and its removal when it runs empty are not observable.\<close>

theorem list_commands_as_list:
  assumes "column s key = no_column" "fmlookup (notBefore s) key = None" "waiters_of key s = []"
  shows "fst (run_ops (list_cmd key) opns s) = fst (run_ops plain_cmd opns [])"
  by (rule list_sim.sim_run) (use assms in \<open>simp add: list_rel_def\<close>)

theorem list_commands_as_list_witness:
  "fst (run_ops (list_cmd ''l'') [(OpRPush [''a'', ''b'', ''a''], 1), (OpLRem (-1) ''a'', 2), (OpLRange 0 (-1), 3)] Store_New) =
     [LNum (Inr 3), LNum (Inr 1), LStrs (Inr [''a'', ''b''])]"
proof -
  have "column Store_New ''l'' = no_column \<and> fmlookup (notBefore Store_New) ''l'' = None \<and> waiters_of ''l'' Store_New = []"
    by (simp add: Store_New_def column_def no_column_def waiters_of_def)
  then show ?thesis
    using list_commands_as_list [of Store_New "''l''" "[(OpRPush [''a'', ''b'', ''a''], 1), (OpLRem (-1) ''a'', 2), (OpLRange 0 (-1), 3)]"]
    by (simp add: without_def wrap64_def list_range_def normalizeRange_def Let_def)
qed

section \<open>Blocked clients\<close>

lemma deliver_keep: "has m w \<Longrightarrow> fmlookup (deliver key ds m) w = fmlookup m w"
  by (induction ds arbitrary: m) (auto simp: deliver_Cons)

lemma deliver_lookup:
  "distinct (map fst ds) \<Longrightarrow> \<forall>w \<in> fst ` set ds. fmlookup m w = None \<Longrightarrow> (w, v) \<in> set ds \<Longrightarrow>
   fmlookup (deliver key ds m) w = Some (key, v)"
proof (induction ds arbitrary: m)
  case (Cons d ds)
  obtain a b where d: "d = (a, b)" by (cases d)
  show ?case
  proof (cases "(w, v) = d")
    case True
    then show ?thesis using Cons.prems(2) d deliver_keep [of "fmupd a (key, b) m" a key ds] by (simp add: deliver_Cons)
  next
    case False
    moreover have "\<forall>w \<in> fst ` set ds. fmlookup (fmupd a (key, b) m) w = None" using Cons.prems(1,2) d by force
    ultimately show ?thesis using Cons.IH [of "fmupd a (key, b) m"] Cons.prems d by (auto simp: deliver_Cons)
  qed
qed simp

text \<open>C20: A push serves the clients blocked on its key.  If no client waiting for the key has been answered
  yet and none waits for it twice, and the key holds a list or nothing, then after a push the clients at the front
  of the queue have been sent one element each, in the order in which they blocked, each from the end it asked for
  (\<open>serve\<close>: the head for \<open>BLPOP\<close>, the tail for \<open>BRPOP\<close>, of what the clients before it left); nobody is left waiting
  while the list still has elements; and no element is lost or duplicated: what was in the list and what was
  pushed is what was sent and what remains.\<close>

theorem push_serves_waiters:
  assumes "store_wf s" "vs \<noteq> []" "\<not> list_wrong (live now s key)"
    and fresh: "distinct (map lw_id (waiters_of key s))" "\<forall>w \<in> set (waiters_of key s). fmlookup (woken s) (lw_id w) = None"
    and s': "s' = snd (pushList key left vs now s)"
  shows "\<exists>ds. serve (waiters_of key s) (put_end left vs (list_at (live now s key))) =
      (ds, waiters_of key s', list_at (column s' key)) \<and>
    map fst ds @ map lw_id (waiters_of key s') = map lw_id (waiters_of key s) \<and>
    (\<forall>(w, v) \<in> set ds. fmlookup (woken s') w = Some (key, v)) \<and>
    (waiters_of key s' = [] \<or> list_at (column s' key) = []) \<and>
    mset (map snd ds) + mset (list_at (column s' key)) = mset vs + mset (list_at (live now s key))"
proof -
  obtain ds rest zs where srv: "serve (waiters_of key s) (put_end left vs (list_at (live now s key))) = (ds, rest, zs)"
    by (cases "serve (waiters_of key s) (put_end left vs (list_at (live now s key)))") auto
  note run = pushList_run [OF slot_ok_live [OF assms(1)] assms(2,3) srv]
  have order: "map fst ds @ map lw_id rest = map lw_id (waiters_of key s)" by (rule serve_waiters [OF srv])
  have dist: "distinct (map fst ds)" using fresh(1) unfolding order [symmetric] by simp
  have "set (map fst ds) \<subseteq> set (map lw_id (waiters_of key s))" unfolding order [symmetric] by simp
  then have none: "\<forall>w \<in> fst ` set ds. fmlookup (woken s) w = None" using fresh(2) by auto
  have sent: "fmlookup (woken s') w = Some (key, v)" if "(w, v) \<in> set ds" for w v
    unfolding s' run(4) by (rule deliver_lookup [OF dist none that])
  have rest: "list_at (column s' key) = zs" by (simp add: s' run(2) list_at_def stored_def)
  have "mset (map snd ds) + mset zs = mset vs + mset (list_at (live now s key))"
    unfolding serve_mset [OF srv] by (simp add: put_end_def)
  then show ?thesis
    using order sent srv serve_stops [OF srv] run(3) [folded s'] by (intro exI [of _ ds]) (auto simp: rest)
qed

theorem push_serves_waiters_witness:
  "let s = snd (BPop_start [''q''] True 1 Store_New); s' = snd (pushList ''q'' False [''x'', ''y''] 2 s) in
   store_wf s \<and> fmlookup (woken s') 0 = Some (''q'', ''x'') \<and> list_at (column s' ''q'') = [''y'']"
proof -
  define s where "s = snd (BPop_start [''q''] True 1 Store_New)"
  have eq: "s = Store_New\<lparr>nextWaiter := 1, listWaits := fmupd ''q'' [\<lparr>lw_id = 0, lw_left = True\<rparr>] fmempty\<rparr>"
    by (simp add: s_def BPop_start_def locked_eqs isExpiredRLocked_def purge_def Store_New_def waiters_of_def)
  have "column s k = no_column" "getVersion k s = 0" for k
    by (simp_all add: eq) (simp add: getVersion_def Store_New_def)
  then have wf: "store_wf s" and l: "live 2 s ''q'' = no_column"
    by (simp_all add: store_wf_def versions_ok_def live_def)
  have w: "waiters_of ''q'' s = [\<lparr>lw_id = 0, lw_left = True\<rparr>]" "woken s = fmempty"
    by (simp_all add: eq waiters_of_def) (simp add: Store_New_def)
  have srv: "serve (waiters_of ''q'' s) (put_end False [''x'', ''y''] (list_at (live 2 s ''q''))) = ([(0, ''x'')], [], [''y''])"
    by (simp add: w l put_end_def take_end_def list_at_def)
  have ok: "[''x'', ''y''] \<noteq> []" "\<not> list_wrong (live 2 s ''q'')" "distinct (map lw_id (waiters_of ''q'' s))"
    "\<forall>w \<in> set (waiters_of ''q'' s). fmlookup (woken s) (lw_id w) = None"
    by (simp_all add: w l list_kinds_def)
  from push_serves_waiters [OF wf ok refl, of False]
  show ?thesis using wf unfolding s_def [symmetric] Let_def srv by auto
qed

text \<open>The store right after a client has blocked on two keys of an empty store.\<close>

lemma BPop_start_two:
  assumes "a \<noteq> b"
  shows "snd (BPop_start [a, b] left now Store_New) =
    Store_New\<lparr>nextWaiter := 1, listWaits := fmupd b [\<lparr>lw_id = 0, lw_left = left\<rparr>] (fmupd a [\<lparr>lw_id = 0, lw_left = left\<rparr>] fmempty)\<rparr>"
  using assms by (simp add: BPop_start_def locked_eqs isExpiredRLocked_def purge_def Store_New_def waiters_of_def Let_def)

text \<open>C22: A value can be lost.  A client that blocks on two lists is queued under both.  When a push to the
  first list has answered it and a push to the second list comes before the client has removed itself,
  the second push still takes its value out of the list for that client: the client gets the first value,
  and the second one, whose push was acknowledged, is in no list and reaches nobody.\<close>

theorem second_push_lost:
  assumes "a \<noteq> b"
  shows "let s1 = snd (BPop_start [a, b] left t1 Store_New); s2 = snd (Store_RPush a [x] t2 s1); (r, s3) = Store_RPush b [y] t3 s2 in
    r = Inr 0 \<and> column s3 b = no_column \<and> column s3 a = no_column \<and> fst (BPop_finish [a, b] 0 False s3) = Some (a, x)"
proof -
  define w where "w = \<lparr>lw_id = 0, lw_left = left\<rparr>"
  define s1 where "s1 = Store_New\<lparr>nextWaiter := 1, listWaits := fmupd b [w] (fmupd a [w] fmempty)\<rparr>"
  define s2 where "s2 = snd (pushList a False [x] t2 s1)"
  have col1: "column s1 k = no_column" "live now s1 k = no_column" for k now
    by (simp_all add: s1_def live_def)
  have wait1: "waiters_of a s1 = [w]" "waiters_of b s1 = [w]" "woken s1 = fmempty"
    using assms by (simp_all add: s1_def waiters_of_def Store_New_def)
  have srv: "serve [w] (put_end False [v] []) = ([(0, v)], [], [])" for v
    by (simp add: put_end_def take_end_def w_def)
  have run2: "column s2 a = no_column" "woken s2 = fmupd 0 (a, x) fmempty" "waiters_of b s2 = [w]" "tracked {a} s1 s2"
    using pushList_run [of t2 s1 a "[x]" False "[(0, x)]" "[]" "[]"] srv [of x] assms
    by (simp_all add: s2_def col1 wait1 deliver_def)
  have col2: "column s2 k = no_column" for k
    using run2(1) tracked_frame [OF run2(4), of k] by (cases "k = a") (simp_all add: col1)
  then have live2: "live t3 s2 k = no_column" for k by (simp add: live_def)
  note run3 = pushList_run [of t3 s2 b "[y]" False "[(0, y)]" "[]" "[]"]
  have "column (snd (pushList b False [y] t3 s2)) a = no_column"
    using tracked_frame [OF run3(6), of a] srv [of y] assms by (simp add: live2 run2 col2)
  moreover have "fst (pushList b False [y] t3 s2) = Inr 0" "column (snd (pushList b False [y] t3 s2)) b = no_column"
    "woken (snd (pushList b False [y] t3 s2)) = fmupd 0 (a, x) fmempty"
    using run3(1,2,4) srv [of y] by (simp_all add: live2 run2 deliver_def)
  ultimately show ?thesis
    unfolding BPop_start_two [OF assms] Let_def Store_RPush_def w_def [symmetric] s1_def [symmetric] s2_def [symmetric]
    by (simp add: split_def BPop_finish_def)
qed

theorem second_push_lost_witness:
  "let s1 = snd (BPop_start [''a'', ''b''] True 1 Store_New); s2 = snd (Store_RPush ''a'' [''x''] 2 s1);
       (r, s3) = Store_RPush ''b'' [''y''] 3 s2 in
    r = Inr 0 \<and> column s3 ''b'' = no_column \<and> column s3 ''a'' = no_column \<and>
    fst (BPop_finish [''a'', ''b''] 0 False s3) = Some (''a'', ''x'')"
  by (rule second_push_lost) simp

section \<open>Blocking pops and moves keep the store proper\<close>

lemma put_list_relist:
  assumes "slot_ok c" "cList c \<noteq> None"
  shows "slot_ok (put_list xs c)"
proof (cases "xs = []")
  case False
  have "one_core (c\<lparr>cList := Some (xs, True)\<rparr>) = one_core c" using assms(2) by (intro one_core_cong) auto
  then show ?thesis using assms False by (simp add: put_list_def slot_ok_def)
qed (use slot_ok_drops(3) [OF assms(1)] in \<open>simp add: put_list_def\<close>)

lemma bpop_pop:
  assumes "store_wf s" "\<not> isExpiredRLocked key now s" "fmlookup (lists s) key = Some d" "pop_end left d = (v, d')"
  shows "tracked {key} s (touchKeyLocked [key] now (store_list key d' s))" "store_wf (touchKeyLocked [key] now (store_list key d' s))"
proof -
  have c: "cList (column s key) = Some (list_content d)" using assms(3) by (simp add: column_def)
  have slot: "slot_ok (column s key)" using assms(1) by (simp add: store_wf_def)
  then have d: "deque_wf d" "Deque_ToSlice d \<noteq> []" using c by (simp_all add: slot_ok_def list_content_def)
  then have d': "deque_wf d'" using pop_end [OF d, of left] assms(4) by simp
  show tr: "tracked {key} s (touchKeyLocked [key] now (store_list key d' s))"
    using d' by (auto intro!: tracked_touch)
  have "slot_ok (put_list ys (column s key))" for ys using slot c by (intro put_list_relist) simp_all
  then show "store_wf (touchKeyLocked [key] now (store_list key d' s))"
    using d' by (intro store_wf_step [OF assms(1) tr]) auto
qed

lemma bpop_try: "store_wf s \<Longrightarrow> set keys \<subseteq> K \<Longrightarrow>
    tracked K s (snd (bpop_try keys left now s)) \<and> store_wf (snd (bpop_try keys left now s))"
proof (induction keys arbitrary: s)
  case (Cons key keys)
  let ?t = "purge key now s"
  have t: "store_wf ?t" "tracked K s ?t"
    using Cons.prems store_wf_purge tracked_purge by auto
  have IH: "tracked K s (snd (bpop_try keys left now ?t)) \<and> store_wf (snd (bpop_try keys left now ?t))"
    using Cons.IH [OF t(1)] Cons.prems(2) tracked_trans [OF t(2)] by auto
  show ?case
  proof (cases "isExpiredRLocked key now s \<or> fmlookup (lists ?t) key = None")
    case True
    then show ?thesis using IH by (auto simp: locked_eqs)
  next
    case False
    then obtain d where d: "fmlookup (lists ?t) key = Some d" by auto
    obtain v d' where pop: "pop_end left d = (v, d')" by (cases "pop_end left d")
    have "tracked {key} ?t (touchKeyLocked [key] now (store_list key d' ?t))" "store_wf (touchKeyLocked [key] now (store_list key d' ?t))"
      using bpop_pop [OF t(1) _ d pop] by auto
    then have "tracked K s (touchKeyLocked [key] now (store_list key d' ?t)) \<and> store_wf (touchKeyLocked [key] now (store_list key d' ?t))"
      using Cons.prems(2) tracked_trans [OF t(2)] tracked_mono by (metis empty_subsetI insert_subset list.simps(15))
    then show ?thesis using False d pop IH by (auto simp: locked_eqs)
  qed
qed simp

text \<open>The state in which a move has taken the element \<open>v\<close> from the source and not yet put it anywhere.\<close>

lemma lmove_tail:
  assumes src: "cList (column t src) = stored xs" "xs \<noteq> []" "fmlookup (lists t) src = Some srcD" "pop_end srcLeft srcD = (v, srcD')"
    and dst: "cList (column t dst) = stored ys"
    and u: "u = store_list src srcD' t"
    and w: "w = touchKeyLocked [src, dst] now (u\<lparr>lists := fmupd dst
      (if dstLeft then Deque_PushFront [v] (list_or_new dst u) else Deque_PushBack [v] (list_or_new dst u)) (lists u)\<rparr>)"
    and "rest": "rest = snd (take_end srcLeft xs)" "zs = put_end dstLeft [v] (if src = dst then rest else ys)"
    and srv: "serve (waiters_of dst t) zs = (ds, ws, out)"
  shows "v = fst (take_end srcLeft xs)"
    and "column (wakeListWaitersLocked dst w) j =
      (if j = dst then put_list out (if src = dst then put_list rest (column t j) else column t j)
       else if j = src then put_list rest (column t j) else column t j)"
    and "tracked {src, dst} t (wakeListWaitersLocked dst w)"
proof -
  have srcD: "deque_wf srcD" "Deque_ToSlice srcD = xs" using cList_lookup [OF src(1,2)] src(3) by auto
  then show v: "v = fst (take_end srcLeft xs)" using pop_end [of srcD srcLeft] src(2,4) by simp
  have srcD': "deque_wf srcD'" "Deque_ToSlice srcD' = rest"
    using pop_end [of srcD srcLeft] srcD src(2,4) "rest"(1) by simp_all
  have colu: "column u j = (if j = src then put_list rest (column t j) else column t j)" for j
    using srcD' by (simp add: u)
  define base where "base = (if src = dst then rest else ys)"
  have "cList (column u dst) = stored base" using dst by (auto simp: colu base_def)
  then have base: "deque_wf (list_or_new dst u)" "Deque_ToSlice (list_or_new dst u) = base"
    using cList_lookup [of u dst base] cList_none [of u dst] by (cases "base = []"; auto simp: list_or_new_def)+
  have content: "list_content (if dstLeft then Deque_PushFront [v] (list_or_new dst u) else Deque_PushBack [v] (list_or_new dst u)) = (zs, True)"
    using pushed [OF base(1), of dstLeft "[v]"] base(2) by (simp add: "rest"(2) base_def)
  have ne: "zs \<noteq> []" by (simp add: "rest"(2))
  have colw: "column w j = (if j = dst then (column u j)\<lparr>cList := Some (zs, True)\<rparr> else column u j)" for j
    by (simp add: w content)
  have "cList (column w dst) = stored zs" using ne by (simp add: colw stored_def)
  moreover have "serve (waiters_of dst w) zs = (ds, ws, out)" using srv by (simp add: w u)
  ultimately have woke: "column (wakeListWaitersLocked dst w) j = (if j = dst \<and> zs \<noteq> [] then put_list out (column w j) else column w j)" for j
    by (rule wake)
  have over: "put_list out (c\<lparr>cList := x\<rparr>) = put_list out c" for c x by (simp add: put_list_def)
  show "column (wakeListWaitersLocked dst w) j =
      (if j = dst then put_list out (if src = dst then put_list rest (column t j) else column t j)
       else if j = src then put_list rest (column t j) else column t j)"
    using ne by (auto simp: woke colw colu over)
  have "tracked {src, dst} t w"
    unfolding w by (rule tracked_touch) (auto simp: colu, simp_all add: u)
  moreover have "version t < getVersion dst w" "getVersion dst w \<le> version w" by (simp_all add: w u)
  ultimately show "tracked {src, dst} t (wakeListWaitersLocked dst w)"
    by - (rule tracked_more [of _ t w dst], auto simp: woke)
qed

abbreviation lmove_wrong :: "column \<Rightarrow> bool" where
  "lmove_wrong c \<equiv> list_ex (col_holds c) (KString # lmove_kinds)"

lemma only_list_lmove: "\<not> lmove_wrong c \<Longrightarrow> only_kind KList c"
  by (auto simp: only_kind_def lmove_kinds_def core_kinds_def)

lemma stored_slot: "slot_ok c \<Longrightarrow> cList c = stored (list_at c)"
  by (auto simp: slot_ok_def stored_def list_at_def split: option.splits)

text \<open>\<open>t\<close> is the store after both keys have been tested for expiry.\<close>

lemma LMove_run:
  assumes wf: "store_wf s"
    and t: "t = (if src = dst then purge src now s else purge dst now (purge src now s))"
    and v: "v = fst (take_end srcLeft xs)" "rest = snd (take_end srcLeft xs)"
    and xs: "xs = list_at (live now s src)" "xs \<noteq> []"
    and kinds: "\<not> lmove_wrong (live now s src)" "src \<noteq> dst \<Longrightarrow> \<not> lmove_wrong (live now s dst)"
    and zs: "zs = put_end dstLeft [v] (if src = dst then rest else list_at (live now s dst))"
    and srv: "serve (waiters_of dst s) zs = (ds, ws, out)"
  shows "fst (Store_LMove src dst srcLeft dstLeft now s) = Inr (Some v)"
    and "column (snd (Store_LMove src dst srcLeft dstLeft now s)) j =
      (if j = dst then put_list out (if src = dst then put_list rest (live now s j) else live now s j)
       else if j = src then put_list rest (live now s j) else column s j)"
    and "tracked {src, dst} s (snd (Store_LMove src dst srcLeft dstLeft now s))"
proof -
  have colt: "column t j = (if j = src \<or> j = dst then live now s j else column s j)" for j
    by (auto simp: t column_purge)
  have st: "cList (live now s k) = stored (list_at (live now s k))" for k
    by (rule stored_slot [OF slot_ok_live [OF wf]])
  have src: "cList (column t src) = stored xs" using st [of src] by (simp add: colt xs(1))
  then obtain srcD where d: "fmlookup (lists t) src = Some srcD" "deque_wf srcD" "Deque_ToSlice srcD = xs"
    using cList_lookup xs(2) by blast
  have "fmlookup (lists (purge src now s)) src = Some srcD"
    using d(1) by (auto simp: t purge_def deleteKeyLocked_def Let_def split: if_splits)
  obtain v' srcD' where pop: "pop_end srcLeft srcD = (v', srcD')" by (cases "pop_end srcLeft srcD")
  define u where "u = store_list src srcD' t"
  define w where "w = touchKeyLocked [src, dst] now (u\<lparr>lists := fmupd dst
      (if dstLeft then Deque_PushFront [v'] (list_or_new dst u) else Deque_PushBack [v'] (list_or_new dst u)) (lists u)\<rparr>)"
  have run: "Store_LMove src dst srcLeft dstLeft now s = (Inr (Some v'), wakeListWaitersLocked dst w)"
    using kinds \<open>fmlookup (lists (purge src now s)) src = Some srcD\<close> xs(2) d(3) pop
    by (auto simp: Store_LMove_def locked_eqs Deque_Len_def dcount_0 Let_def w_def u_def t)
  have v': "v' = v" using pop_end [of srcD srcLeft] d pop xs(2) v(1) by simp
  have "serve (waiters_of dst t) zs = (ds, ws, out)" using srv by (simp add: t)
  moreover have "zs = put_end dstLeft [v'] (if src = dst then rest else list_at (live now s dst))" by (simp add: zs v')
  moreover have "cList (column t dst) = stored (list_at (live now s dst))" using st [of dst] by (simp add: colt)
  ultimately have tail: "column (wakeListWaitersLocked dst w) j =
      (if j = dst then put_list out (if src = dst then put_list rest (column t j) else column t j)
       else if j = src then put_list rest (column t j) else column t j)"
    "tracked {src, dst} t (wakeListWaitersLocked dst w)" for j
    using lmove_tail(2,3) [OF src xs(2) d(1) pop _ u_def w_def v(2)] by blast+
  show "fst (Store_LMove src dst srcLeft dstLeft now s) = Inr (Some v)" by (simp add: run v')
  show "column (snd (Store_LMove src dst srcLeft dstLeft now s)) j =
      (if j = dst then put_list out (if src = dst then put_list rest (live now s j) else live now s j)
       else if j = src then put_list rest (live now s j) else column s j)"
    by (auto simp: run tail colt)
  have "tracked {src, dst} s t" using tracked_trans [OF tracked_purge tracked_purge] by (auto simp: t intro: tracked_purge)
  with tail(2) show "tracked {src, dst} s (snd (Store_LMove src dst srcLeft dstLeft now s))"
    unfolding run by (auto intro: tracked_trans)
qed

lemma LMove_refuse:
  assumes "store_wf s" "lmove_wrong (live now s src) \<or> list_at (live now s src) = [] \<or> src \<noteq> dst \<and> lmove_wrong (live now s dst)"
  shows "snd (Store_LMove src dst srcLeft dstLeft now s) \<in> {purge src now s, purge dst now (purge src now s)}"
proof (cases "lmove_wrong (live now s src)")
  case True
  then show ?thesis by (auto simp: Store_LMove_def locked_eqs)
next
  case False
  from slot_ok_live [OF assms(1), of now src] show ?thesis
  proof (cases rule: list_cases)
    case absent
    then show ?thesis using False by (simp add: Store_LMove_def locked_eqs)
  next
    case (present d)
    then have "list_at (live now s src) \<noteq> []" by metis
    then have "src \<noteq> dst" "lmove_wrong (live now s dst)" using assms(2) False by auto
    then show ?thesis using False present(1,3) by (auto simp: Store_LMove_def locked_eqs Deque_Len_def dcount_0)
  qed
qed

lemma LMove_step:
  assumes "store_wf s"
  shows "tracked {src, dst} s (snd (Store_LMove src dst srcLeft dstLeft now s)) \<and> store_wf (snd (Store_LMove src dst srcLeft dstLeft now s))"
proof (cases "lmove_wrong (live now s src) \<or> list_at (live now s src) = [] \<or> src \<noteq> dst \<and> lmove_wrong (live now s dst)")
  case True
  have "tracked {src, dst} s (purge src now s)" "tracked {src, dst} s (purge dst now (purge src now s))"
    by (auto intro: tracked_purge tracked_trans)
  then show ?thesis using LMove_refuse [OF assms True, of srcLeft dstLeft] store_wf_purge assms by fastforce
next
  case False
  define zs where "zs = put_end dstLeft [fst (take_end srcLeft (list_at (live now s src)))]
    (if src = dst then snd (take_end srcLeft (list_at (live now s src))) else list_at (live now s dst))"
  obtain ds ws out where srv: "serve (waiters_of dst s) zs = (ds, ws, out)" by (cases "serve (waiters_of dst s) zs")
  note run = LMove_run [OF assms refl refl refl refl _ _ _ zs_def srv]
  have src: "only_kind KList (live now s src)" and dst: "only_kind KList (live now s dst)"
    using False only_list_lmove by (cases "src = dst"; blast)+
  have "slot_ok (put_list ys (live now s k))" if "k = src \<or> k = dst" for k ys
    using that src dst slot_ok_live [OF assms] by (auto intro: put_list_slot)
  moreover have "put_list out (put_list r c) \<in> {put_list out c, (put_list out c)\<lparr>cExp := None\<rparr>}" for r c by simp
  ultimately have "slot_ok (column (snd (Store_LMove src dst srcLeft dstLeft now s)) k)" if "k \<in> {src, dst}" for k
    using that False run(2) [of k] by auto
  then show ?thesis using run(3) False store_wf_step [OF assms run(3)] by blast
qed

text \<open>C21: \<open>LMove\<close> between two lists moves one element and loses none.  When the source holds a list with
  elements, the destination holds a list or nothing and nobody waits for it, the element taken from the chosen end of
  the source is returned and is at the chosen end of the destination; the rest of both lists is unchanged,
  and a source that runs empty disappears.\<close>

theorem lmove_moves:
  assumes "store_wf s" "src \<noteq> dst" "list_at (live now s src) \<noteq> []" "waiters_of dst s = []"
    and "\<not> lmove_wrong (live now s src)" "\<not> lmove_wrong (live now s dst)"
  shows "case Store_LMove src dst srcLeft dstLeft now s of (r, s') \<Rightarrow>
    (case take_end srcLeft (list_at (live now s src)) of (v, rest) \<Rightarrow>
      r = Inr (Some v) \<and> list_at (column s' src) = rest \<and> cList (column s' src) = (if rest = [] then None else Some (rest, True)) \<and>
      list_at (column s' dst) = put_end dstLeft [v] (list_at (live now s dst)))"
proof -
  define zs where "zs = put_end dstLeft [fst (take_end srcLeft (list_at (live now s src)))]
    (if src = dst then snd (take_end srcLeft (list_at (live now s src))) else list_at (live now s dst))"
  have srv: "serve (waiters_of dst s) zs = ([], [], zs)" by (simp add: assms(4))
  note run = LMove_run [OF assms(1) refl refl refl refl assms(3) assms(5) assms(6) zs_def srv]
  have "list_at (put_list ys c) = ys" "cList (put_list ys c) = (if ys = [] then None else Some (ys, True))" for ys c
    by (simp_all add: list_at_def put_list_def)
  then show ?thesis using assms(2) run(1) by (simp add: split_def run(2) zs_def)
qed

theorem lmove_moves_witness:
  "let s = snd (Store_RPush ''a'' [''x'', ''y''] 1 Store_New) in
   store_wf s \<and> fst (Store_LMove ''a'' ''b'' True False 2 s) = Inr (Some ''x'')"
proof -
  define s where "s = snd (Store_RPush ''a'' [''x'', ''y''] 1 Store_New)"
  have none: "live now Store_New k = no_column" "waiters_of k Store_New = []" for now k
    by (simp_all add: live_def) (simp add: Store_New_def waiters_of_def)
  have run: "column s ''a'' = put_list [''x'', ''y''] no_column" "waiters_of ''b'' s = []" "tracked {''a''} Store_New s"
    using pushList_run [of 1 Store_New "''a''" "[''x'', ''y'']" False "[]" "[]" "[''x'', ''y'']"]
    by (simp_all add: s_def Store_RPush_def none put_end_def)
  have "column s ''b'' = no_column" using tracked_frame [OF run(3), of "''b''"] by simp
  then have live: "live 2 s ''a'' = put_list [''x'', ''y''] no_column" "live 2 s ''b'' = no_column"
    by (simp_all add: live_def isExpired_column run(1))
  have wf: "store_wf s"
    unfolding s_def Store_RPush_def by (rule store_wf_step [OF store_wf_New pushList_tracked]) (auto intro: pushList_slot)
  moreover have "\<not> lmove_wrong (put_list [''x'', ''y''] no_column)" by (simp add: put_list_def lmove_kinds_def)
  ultimately show ?thesis
    using lmove_moves [of s "''a''" "''b''" 2 False True] run(2)
    by (simp add: live s_def [symmetric] Let_def split_def take_end_def)
qed

end
