(* ===== verification/Vole_ZSets.thy ===== *)
theory Vole_ZSets
  imports Vole_Lists
begin

text \<open>
  The sorted set operations of \<^verbatim>\<open>internal/store/store.go\<close>.  On a key that holds a sorted set or nothing they
  are operations on a table of scores, as long as no score is NaN; a NaN, which the commands accept,
  breaks the order and leaves members behind that cannot be removed.
\<close>

section \<open>Operations\<close>

definition zset_kinds :: "kind list" where
  "zset_kinds = [KHash, KList, KSet, KStream, KHll, KJson, KTimeSeries]"

text \<open>\<open>zs := s.zsets[key]; if zs == nil { zs = NewSortedSet(); s.zsets[key] = zs }\<close>\<close>

definition zset_or_new :: "key \<Rightarrow> store \<Rightarrow> SortedSet" where
  "zset_or_new key s = (case fmlookup (zsets s) key of None \<Rightarrow> NewSortedSet | Some z \<Rightarrow> z)"

text \<open>\<open>if zs.Len() == 0 { delete(s.zsets, key); delete(s.expires, key) }\<close>\<close>

definition store_zset :: "key \<Rightarrow> SortedSet \<Rightarrow> store \<Rightarrow> store" where
  "store_zset key z s =
     (if SortedSet_Len z = 0 then s\<lparr>zsets := fmdrop key (zsets s), expires := fmdrop key (expires s)\<rparr>
      else s\<lparr>zsets := fmupd key z (zsets s)\<rparr>)"

definition Store_ZAdd :: "key \<Rightarrow> ZMember list \<Rightarrow> gotime \<Rightarrow> store \<Rightarrow> nat res \<times> store" where
  "Store_ZAdd key members now s =
     (if members = [] then (Inl (Err ''wrong number of sorted set members''), s)
      else case expiredKeyLocked key now s of (_, s) \<Rightarrow>
        case wrongTypeLocked zset_kinds key now s of (wrong, s) \<Rightarrow>
          if wrong then (Inl WrongType, s)
          else case add_all SortedSet_Add members (zset_or_new key s) of (added, z) \<Rightarrow>
            (Inr added, touchKeyLocked [key] now (s\<lparr>zsets := fmupd key z (zsets s)\<rparr>)))"

definition Store_ZRange :: "key \<Rightarrow> int \<Rightarrow> int \<Rightarrow> gotime \<Rightarrow> store \<Rightarrow> ZMember list res" where
  "Store_ZRange key start stop now s =
     (if isExpiredRLocked key now s then Inr []
      else if wrongTypeRLocked zset_kinds key now s then Inl WrongType
      else case fmlookup (zsets s) key of
        None \<Rightarrow> Inr []
      | Some z \<Rightarrow> if SortedSet_Len z = 0 then Inr [] else Inr (SortedSet_Range start stop z))"

definition Store_ZRem :: "key \<Rightarrow> string list \<Rightarrow> gotime \<Rightarrow> store \<Rightarrow> nat res \<times> store" where
  "Store_ZRem key members now s =
     (case expiredKeyLocked key now s of (e, s) \<Rightarrow>
        if e then (Inr 0, s)
        else case wrongTypeLocked zset_kinds key now s of (wrong, s) \<Rightarrow>
          if wrong then (Inl WrongType, s)
          else case fmlookup (zsets s) key of
            None \<Rightarrow> (Inr 0, s)
          | Some z \<Rightarrow>
              if SortedSet_Len z = 0 then (Inr 0, s)
              else case remove_all SortedSet_Remove members z of (removed, z) \<Rightarrow>
                let s = store_zset key z s
                in (Inr removed, if 0 < removed then touchKeyLocked [key] now s else s))"

definition Store_ZScore :: "key \<Rightarrow> string \<Rightarrow> gotime \<Rightarrow> store \<Rightarrow> float64 option res" where
  "Store_ZScore key member now s =
     (if isExpiredRLocked key now s then Inr None
      else if wrongTypeRLocked zset_kinds key now s then Inl WrongType
      else case fmlookup (zsets s) key of None \<Rightarrow> Inr None | Some z \<Rightarrow> Inr (SortedSet_Score member z))"

definition Store_ZRangeByScore ::
  "key \<Rightarrow> float64 \<Rightarrow> float64 \<Rightarrow> int \<Rightarrow> int \<Rightarrow> gotime \<Rightarrow> store \<Rightarrow> ZMember list res" where
  "Store_ZRangeByScore key lo hi offset cnt now s =
     (if isExpiredRLocked key now s then Inr []
      else if wrongTypeRLocked zset_kinds key now s then Inl WrongType
      else case fmlookup (zsets s) key of
        None \<Rightarrow> Inr []
      | Some z \<Rightarrow> if SortedSet_Len z = 0 then Inr [] else Inr (SortedSet_RangeByScore lo hi offset cnt z))"

definition Store_ZRevRange :: "key \<Rightarrow> int \<Rightarrow> int \<Rightarrow> gotime \<Rightarrow> store \<Rightarrow> ZMember list res" where
  "Store_ZRevRange key start stop now s =
     (if isExpiredRLocked key now s then Inr []
      else if wrongTypeRLocked zset_kinds key now s then Inl WrongType
      else case fmlookup (zsets s) key of
        None \<Rightarrow> Inr []
      | Some z \<Rightarrow> if SortedSet_Len z = 0 then Inr [] else Inr (SortedSet_RevRange start stop z))"

definition Store_ZRank :: "key \<Rightarrow> string \<Rightarrow> gotime \<Rightarrow> store \<Rightarrow> nat option res" where
  "Store_ZRank key member now s =
     (if isExpiredRLocked key now s then Inr None
      else if wrongTypeRLocked zset_kinds key now s then Inl WrongType
      else case fmlookup (zsets s) key of None \<Rightarrow> Inr None | Some z \<Rightarrow> Inr (SortedSet_Rank member z))"

definition Store_ZRevRank :: "key \<Rightarrow> string \<Rightarrow> gotime \<Rightarrow> store \<Rightarrow> int option res" where
  "Store_ZRevRank key member now s =
     (if isExpiredRLocked key now s then Inr None
      else if wrongTypeRLocked zset_kinds key now s then Inl WrongType
      else case fmlookup (zsets s) key of
        None \<Rightarrow> Inr None
      | Some z \<Rightarrow>
          case SortedSet_Rank member z of
            None \<Rightarrow> Inr None
          | Some rank \<Rightarrow> Inr (Some (int (SortedSet_Len z) - 1 - int rank)))"

definition Store_ZCount :: "key \<Rightarrow> float64 \<Rightarrow> float64 \<Rightarrow> gotime \<Rightarrow> store \<Rightarrow> nat res" where
  "Store_ZCount key lo hi now s =
     (if isExpiredRLocked key now s then Inr 0
      else if wrongTypeRLocked zset_kinds key now s then Inl WrongType
      else case fmlookup (zsets s) key of None \<Rightarrow> Inr 0 | Some z \<Rightarrow> Inr (SortedSet_CountByScore lo hi z))"

definition Store_ZCard :: "key \<Rightarrow> gotime \<Rightarrow> store \<Rightarrow> nat res" where
  "Store_ZCard key now s =
     (if isExpiredRLocked key now s then Inr 0
      else if wrongTypeRLocked zset_kinds key now s then Inl WrongType
      else case fmlookup (zsets s) key of None \<Rightarrow> Inr 0 | Some z \<Rightarrow> Inr (SortedSet_Len z))"

definition Store_ZIncrBy :: "key \<Rightarrow> float64 \<Rightarrow> string \<Rightarrow> gotime \<Rightarrow> store \<Rightarrow> float64 res \<times> store" where
  "Store_ZIncrBy key incr member now s =
     (case expiredKeyLocked key now s of (_, s) \<Rightarrow>
      case wrongTypeLocked zset_kinds key now s of (wrong, s) \<Rightarrow>
        if wrong then (Inl WrongType, s)
        else let z = zset_or_new key s;
                 (score, z) = (case SortedSet_Score member z of
                                 Some score \<Rightarrow> (score, snd (SortedSet_Remove member z))
                               | None \<Rightarrow> (Fin 0, z));
                 newScore = f64_add score incr;
                 z = snd (SortedSet_Add member newScore z)
             in (Inr newScore, touchKeyLocked [key] now (s\<lparr>zsets := fmupd key z (zsets s)\<rparr>)))"

text \<open>\<open>ZPopMin\<close> and \<open>ZPopMax\<close> have the same body around \<open>PopMin\<close> and \<open>PopMax\<close>.\<close>

definition zpop :: "(SortedSet \<Rightarrow> ZMember list \<times> SortedSet) \<Rightarrow> key \<Rightarrow> gotime \<Rightarrow> store \<Rightarrow> ZMember list res \<times> store" where
  "zpop pop key now s =
     (case expiredKeyLocked key now s of (e, s) \<Rightarrow>
        if e then (Inr [], s)
        else case wrongTypeLocked zset_kinds key now s of (wrong, s) \<Rightarrow>
          if wrong then (Inl WrongType, s)
          else case fmlookup (zsets s) key of
            None \<Rightarrow> (Inr [], s)
          | Some z \<Rightarrow>
              if SortedSet_Len z = 0 then (Inr [], s)
              else case pop z of (result, z) \<Rightarrow> (Inr result, touchKeyLocked [key] now (store_zset key z s)))"

definition Store_ZPopMin :: "key \<Rightarrow> int \<Rightarrow> gotime \<Rightarrow> store \<Rightarrow> ZMember list res \<times> store" where
  "Store_ZPopMin key cnt now s = zpop (SortedSet_PopMin cnt) key now s"

definition Store_ZPopMax :: "key \<Rightarrow> int \<Rightarrow> gotime \<Rightarrow> store \<Rightarrow> ZMember list res \<times> store" where
  "Store_ZPopMax key cnt now s = zpop (SortedSet_PopMax cnt) key now s"

definition Store_ZRangeByLex ::
  "key \<Rightarrow> string \<Rightarrow> string \<Rightarrow> int \<Rightarrow> int \<Rightarrow> gotime \<Rightarrow> store \<Rightarrow> ZMember list res" where
  "Store_ZRangeByLex key lo hi offset cnt now s =
     (if isExpiredRLocked key now s then Inr []
      else if wrongTypeRLocked zset_kinds key now s then Inl WrongType
      else case fmlookup (zsets s) key of
        None \<Rightarrow> Inr []
      | Some z \<Rightarrow> if SortedSet_Len z = 0 then Inr [] else Inr (SortedSet_RangeByLex lo hi offset cnt z))"

section \<open>The score table behind a key\<close>

abbreviation zset_wrong :: "column \<Rightarrow> bool" where
  "zset_wrong c \<equiv> list_ex (col_holds c) (KString # zset_kinds)"

definition table_at :: "column \<Rightarrow> float64 gomap" where
  "table_at c = (case cZSet c of None \<Rightarrow> fmempty | Some z \<Rightarrow> scores z)"

text \<open>The sorted set that stands for a table; there is only one.\<close>

definition zset_of :: "float64 gomap \<Rightarrow> SortedSet" where
  "zset_of t = \<lparr>scores = t, ordered = ranking t\<rparr>"

lemma zset_wf_of: "zset_wf z \<Longrightarrow> zset_of (scores z) = z"
  by (simp add: zset_of_def ordered_ranking [symmetric])

definition put_zset :: "float64 gomap \<Rightarrow> column \<Rightarrow> column" where
  "put_zset t c = (if t = fmempty then c\<lparr>cZSet := None, cExp := None\<rparr> else c\<lparr>cZSet := Some (zset_of t)\<rparr>)"

lemma Len_0: "SortedSet_Len z = 0 \<longleftrightarrow> scores z = fmempty"
  by (simp add: SortedSet_Len_def)

lemma store_zset_simps [simp]:
  "zset_wf z \<Longrightarrow> column (store_zset key z s) j = (if j = key then put_zset (scores z) (column s j) else column s j)"
  "keyVersion (store_zset key z s) = keyVersion s" "version (store_zset key z s) = version s"
  "notBefore (store_zset key z s) = notBefore s" "listWaits (store_zset key z s) = listWaits s"
  by (auto simp: store_zset_def put_zset_def Len_0 zset_wf_of)

lemma table_at_none [simp]: "table_at no_column = fmempty"
  by (simp add: table_at_def)

lemma only_zset: "\<not> zset_wrong c \<Longrightarrow> only_kind KZSet c"
  by (auto simp: only_kind_def zset_kinds_def core_kinds_def)

lemma zset_op_cases:
  assumes "slot_ok (live now s key)"
  obtains (expired) "isExpiredRLocked key now s" "live now s key = no_column"
  | (wrong) "\<not> isExpiredRLocked key now s" "zset_wrong (live now s key)"
  | (absent) "\<not> isExpiredRLocked key now s" "\<not> zset_wrong (live now s key)"
      "fmlookup (zsets (purge key now s)) key = None" "cZSet (live now s key) = None"
  | (present) z where "\<not> isExpiredRLocked key now s" "\<not> zset_wrong (live now s key)"
      "fmlookup (zsets (purge key now s)) key = Some z" "cZSet (live now s key) = Some z"
      "zset_wf z" "scores z \<noteq> fmempty" "table_at (live now s key) = scores z"
proof (cases "isExpiredRLocked key now s \<or> zset_wrong (live now s key)")
  case True
  then show ?thesis using expired wrong live_expired by metis
next
  case False
  show ?thesis
  proof (cases "cZSet (live now s key)")
    case None
    then show ?thesis using False absent by (simp add: purge_lookup)
  next
    case (Some z)
    then show ?thesis using False present [of z] assms by (simp add: purge_lookup table_at_def slot_ok_def)
  qed
qed

lemma zset_or_new_purge:
  assumes "slot_ok (live now s key)"
  shows "zset_wf (zset_or_new key (purge key now s))" "scores (zset_or_new key (purge key now s)) = table_at (live now s key)"
  using assms zset_wf_New zs.table_new
  by (auto simp: zset_or_new_def purge_lookup slot_ok_def table_at_def split: option.splits)

lemma zset_edit:
  "zset_wf z \<Longrightarrow> key_result key now s r (put_zset (scores z) (live now s key))
     (r, touchKeyLocked [key] now (store_zset key z (purge key now s)))"
  by (auto simp: key_result_def column_purge intro!: tracked_edit)

lemma store_zset_ne: "scores z \<noteq> fmempty \<Longrightarrow> s\<lparr>zsets := fmupd key z (zsets s)\<rparr> = store_zset key z s"
  by (simp add: store_zset_def Len_0)

lemma put_all_ne: "ms \<noteq> [] \<Longrightarrow> put_all ms t \<noteq> fmempty"
proof -
  assume "ms \<noteq> []"
  then obtain qs q where ms: "ms = qs @ [q]" by (metis rev_exhaust)
  have "fmlookup (put_all ms t) (Member q) = Some (Score q)" by (simp add: ms put_all_def)
  then show ?thesis by (metis fmempty_lookup option.distinct(1))
qed

lemma ZAdd_run:
  assumes ok: "slot_ok (live now s key)" and ms: "ms \<noteq> []" "\<forall>m \<in> set ms. Score m \<noteq> NaN"
  shows "key_result key now s
    (let c = live now s key; t = table_at c in if zset_wrong c then Inl WrongType else Inr (map_len (put_all ms t) - map_len t))
    (let c = live now s key in if zset_wrong c then c else put_zset (put_all ms (table_at c)) c)
    (Store_ZAdd key ms now s)"
proof (cases "zset_wrong (live now s key)")
  case True
  then show ?thesis using ms key_result_same [of key now s] by (auto simp: Store_ZAdd_def locked_eqs Let_def)
next
  case False
  note z = zset_or_new_purge [OF ok]
  from zs.add_all [OF z(1) ms(2)] obtain z' where
    z': "add_all SortedSet_Add ms (zset_or_new key (purge key now s)) = (map_len (put_all ms (table_at (live now s key))) - map_len (table_at (live now s key)), z')"
    "zset_wf z'" "scores z' = put_all ms (table_at (live now s key))"
    unfolding z(2) by auto
  then show ?thesis
    using False ms(1) zset_edit [OF z'(2), of key now s] put_all_ne [OF ms(1)]
    by (simp add: Store_ZAdd_def locked_eqs Let_def store_zset_ne)
qed

lemma put_zset_same: "cZSet c = Some z \<Longrightarrow> zset_wf z \<Longrightarrow> scores z \<noteq> fmempty \<Longrightarrow> put_zset (scores z) c = c"
  by (simp add: put_zset_def zset_wf_of)

lemma ZRem_run:
  assumes "slot_ok (live now s key)"
  shows "key_result key now s
    (let c = live now s key; t = table_at c in if zset_wrong c then Inl WrongType else Inr (map_len t - map_len (fold fmdrop ms t)))
    (let c = live now s key in
       if zset_wrong c \<or> cZSet c = None then c else put_zset (fold fmdrop ms (table_at c)) c)
    (Store_ZRem key ms now s)"
  using assms
proof (cases rule: zset_op_cases)
  case (present z)
  from zs.remove_all [OF present(5), of ms] obtain z' where
    z': "remove_all SortedSet_Remove ms z = (map_len (scores z) - map_len (fold fmdrop ms (scores z)), z')"
    "zset_wf z'" "scores z' = fold fmdrop ms (scores z)" by auto
  show ?thesis
  proof (cases "map_len (scores z) - map_len (fold fmdrop ms (scores z)) = 0")
    case True
    then have "fold fmdrop ms (scores z) = scores z" by (rule drop_fields_same)
    then have "z' = z" using zset_wf_unique [OF z'(2) present(5)] z'(3) by simp
    then have "Store_ZRem key ms now s = (Inr 0, purge key now s)"
      using present True z'(1) fmupd_present [OF present(3)] by (simp add: Store_ZRem_def locked_eqs Len_0 Let_def store_zset_def)
    moreover have "put_zset (scores z) (live now s key) = live now s key" using present by (intro put_zset_same)
    ultimately show ?thesis using present True z'(3) \<open>z' = z\<close> key_result_same [of key now s] by (auto simp: Let_def)
  next
    case False
    then show ?thesis using present z' zset_edit [OF z'(2), of key now s]
      by (simp add: Store_ZRem_def locked_eqs Len_0 Let_def)
  qed
next
  case absent
  have "fold fmdrop ms fmempty = (fmempty :: float64 gomap)" by (induction ms) auto
  then show ?thesis using absent key_result_same [of key now s] by (simp add: Store_ZRem_def locked_eqs Let_def table_at_def)
next
  case expired
  have "fold fmdrop ms fmempty = (fmempty :: float64 gomap)" by (induction ms) auto
  then show ?thesis using expired key_result_same [of key now s] by (simp add: Store_ZRem_def locked_eqs Let_def)
qed (use key_result_same [of key now s] in \<open>auto simp: Store_ZRem_def locked_eqs Let_def\<close>)

lemma zpop_run:
  assumes "slot_ok (live now s key)"
    and pop: "\<And>z. zset_wf z \<Longrightarrow> \<exists>z'. pop z = (f (scores z), z') \<and> zset_wf z' \<and> scores z' = drop_scores (f (scores z)) (scores z)"
    and f: "f fmempty = []"
  shows "key_result key now s
    (let c = live now s key in if zset_wrong c then Inl WrongType else Inr (f (table_at c)))
    (let c = live now s key in
       if zset_wrong c \<or> cZSet c = None then c else put_zset (drop_scores (f (table_at c)) (table_at c)) c)
    (zpop pop key now s)"
  using assms(1)
proof (cases rule: zset_op_cases)
  case (present z)
  from pop [OF present(5)] obtain z' where
    z': "pop z = (f (scores z), z')" "zset_wf z'" "scores z' = drop_scores (f (scores z)) (scores z)" by blast
  then show ?thesis using present zset_edit [OF z'(2), of key now s] by (simp add: zpop_def locked_eqs Len_0 Let_def)
qed (use f key_result_same [of key now s] in \<open>auto simp: zpop_def locked_eqs Let_def table_at_def\<close>)

definition pop_min :: "int \<Rightarrow> float64 gomap \<Rightarrow> ZMember list" where
  "pop_min cnt t = take (nat (max 1 cnt)) (ranking t)"

definition pop_max :: "int \<Rightarrow> float64 gomap \<Rightarrow> ZMember list" where
  "pop_max cnt t = take (nat (max 1 cnt)) (rev (ranking t))"

lemma ranking_empty [simp]: "ranking fmempty = []"
  by (simp add: ranking_def entries_def)

lemmas ZPopMin_run = zpop_run [where pop = "SortedSet_PopMin cnt" and f = "pop_min cnt" for cnt, folded Store_ZPopMin_def]
lemmas ZPopMax_run = zpop_run [where pop = "SortedSet_PopMax cnt" and f = "pop_max cnt" for cnt, folded Store_ZPopMax_def]

lemma PopMin_table: "zset_wf z \<Longrightarrow> \<exists>z'. SortedSet_PopMin cnt z = (pop_min cnt (scores z), z') \<and> zset_wf z' \<and>
    scores z' = drop_scores (pop_min cnt (scores z)) (scores z)"
proof -
  assume wf: "zset_wf z"
  obtain ms z' where p: "SortedSet_PopMin cnt z = (ms, z')" by (cases "SortedSet_PopMin cnt z")
  show ?thesis using SortedSet_PopMin [OF wf p] p by (simp add: pop_min_def ordered_ranking [OF wf])
qed

lemma PopMax_table: "zset_wf z \<Longrightarrow> \<exists>z'. SortedSet_PopMax cnt z = (pop_max cnt (scores z), z') \<and> zset_wf z' \<and>
    scores z' = drop_scores (pop_max cnt (scores z)) (scores z)"
proof -
  assume wf: "zset_wf z"
  obtain ms z' where p: "SortedSet_PopMax cnt z = (ms, z')" by (cases "SortedSet_PopMax cnt z")
  show ?thesis using SortedSet_PopMax [OF wf p] p by (simp add: pop_max_def ordered_ranking [OF wf])
qed

definition incr_score :: "string \<Rightarrow> float64 \<Rightarrow> float64 gomap \<Rightarrow> float64" where
  "incr_score m d t = f64_add (case fmlookup t m of None \<Rightarrow> Fin 0 | Some x \<Rightarrow> x) d"

lemma ZIncrBy_run:
  assumes ok: "slot_ok (live now s key)" and nan: "incr_score m d (table_at (live now s key)) \<noteq> NaN"
  shows "key_result key now s
    (let c = live now s key in if zset_wrong c then Inl WrongType else Inr (incr_score m d (table_at c)))
    (let c = live now s key; t = table_at c in if zset_wrong c then c else put_zset (fmupd m (incr_score m d t) t) c)
    (Store_ZIncrBy key d m now s)"
proof (cases "zset_wrong (live now s key)")
  case True
  then show ?thesis using key_result_same [of key now s] by (auto simp: Store_ZIncrBy_def locked_eqs Let_def)
next
  case False
  define z where "z = zset_or_new key (purge key now s)"
  define x where "x = incr_score m d (table_at (live now s key))"
  have wf: "zset_wf z" and sc: "scores z = table_at (live now s key)" using zset_or_new_purge [OF ok] by (simp_all add: z_def)
  obtain z1 where z1: "snd (SortedSet_Remove m z) = z1" "zset_wf z1" "scores z1 = fmdrop m (scores z)"
    using SortedSet_Remove [OF wf, of m] by auto
  obtain z2 where z2: "snd (SortedSet_Add m x (if has (scores z) m then z1 else z)) = z2" "zset_wf z2" "scores z2 = fmupd m x (scores z)"
    using SortedSet_Add [OF z1(2) nan [folded x_def], of m] SortedSet_Add [OF wf nan [folded x_def], of m] z1(3)
    by (cases "has (scores z) m") (auto simp: fmap_ext)
  have "Store_ZIncrBy key d m now s = (Inr x, touchKeyLocked [key] now (store_zset key z2 (purge key now s)))"
    using False z1(1) z2
    by (auto simp: Store_ZIncrBy_def locked_eqs Let_def SortedSet_Score_def x_def incr_score_def sc [symmetric] z_def [symmetric]
        store_zset_ne [symmetric] split: option.splits)
  then show ?thesis using False zset_edit [OF z2(2), of key now s] z2(3) sc by (simp add: Let_def x_def)
qed

lemma put_zset_slot: "slot_ok c \<Longrightarrow> only_kind KZSet c \<Longrightarrow> t = fmempty \<or> zset_wf (zset_of t) \<Longrightarrow> slot_ok (put_zset t c)"
  by (auto simp: put_zset_def zset_of_def intro: slot_ok_put(5) slot_ok_drops)

lemma zset_of_add: "zset_wf z \<Longrightarrow> \<forall>m \<in> set ms. Score m \<noteq> NaN \<Longrightarrow> zset_wf (zset_of (put_all ms (scores z)))"
  using zs.add_all [of z ms] by (metis zset_wf_of)

lemma zset_of_drops: "zset_wf z \<Longrightarrow> zset_wf (zset_of (fold fmdrop ms (scores z)))"
  using zs.remove_all [of z ms] by (metis zset_wf_of)

lemma zset_of_upd: "zset_wf z \<Longrightarrow> x \<noteq> NaN \<Longrightarrow> zset_wf (zset_of (fmupd m x (scores z)))"
  using SortedSet_Add [of z x m] by (metis zset_wf_of)

lemma zset_of_pop: "zset_wf z \<Longrightarrow> zset_wf (zset_of (drop_scores (pop_min cnt (scores z)) (scores z)))"
    "zset_wf z \<Longrightarrow> zset_wf (zset_of (drop_scores (pop_max cnt (scores z)) (scores z)))"
  using PopMin_table [of z cnt] PopMax_table [of z cnt] by (metis zset_wf_of)+

lemma zset_at: "slot_ok c \<Longrightarrow> \<exists>z. zset_wf z \<and> scores z = table_at c"
  by (cases "cZSet c") (auto simp: table_at_def slot_ok_def intro: exI [of _ NewSortedSet] simp: zs.table_new)

text \<open>Every sorted set operation keeps the store proper and tracked, as long as no NaN comes in.\<close>

lemma zset_steps:
  assumes wf: "store_wf s"
  shows "\<forall>m \<in> set ms. Score m \<noteq> NaN \<Longrightarrow> tracked {key} s (snd (Store_ZAdd key ms now s)) \<and> store_wf (snd (Store_ZAdd key ms now s))"
    and "tracked {key} s (snd (Store_ZRem key ns now s)) \<and> store_wf (snd (Store_ZRem key ns now s))"
    and "tracked {key} s (snd (Store_ZPopMin key cnt now s)) \<and> store_wf (snd (Store_ZPopMin key cnt now s))"
    and "tracked {key} s (snd (Store_ZPopMax key cnt now s)) \<and> store_wf (snd (Store_ZPopMax key cnt now s))"
    and "incr_score m d (table_at (live now s key)) \<noteq> NaN \<Longrightarrow>
      tracked {key} s (snd (Store_ZIncrBy key d m now s)) \<and> store_wf (snd (Store_ZIncrBy key d m now s))"
proof -
  let ?c = "live now s key"
  have ok: "slot_ok ?c" by (rule slot_ok_live [OF wf])
  obtain z where z: "zset_wf z" "scores z = table_at ?c" using zset_at [OF ok] by blast
  have slot: "slot_ok (if zset_wrong ?c then ?c else put_zset t ?c)" "slot_ok (if zset_wrong ?c \<or> cZSet ?c = None then ?c else put_zset t ?c)"
    if "zset_wf (zset_of t)" for t
    using put_zset_slot [OF ok only_zset] ok that by auto
  note step = key_result_tracked key_result_wf [OF wf]
  show "tracked {key} s (snd (Store_ZAdd key ms now s)) \<and> store_wf (snd (Store_ZAdd key ms now s))"
    if ms: "\<forall>m \<in> set ms. Score m \<noteq> NaN"
  proof (cases "ms = []")
    case False
    from step [OF ZAdd_run [OF ok False ms]] show ?thesis
      using slot(1) [OF zset_of_add [OF z(1) ms]] by (simp only: z(2) Let_def)
  qed (simp add: Store_ZAdd_def wf)
  from step [OF ZRem_run [OF ok, of ns]] show "tracked {key} s (snd (Store_ZRem key ns now s)) \<and> store_wf (snd (Store_ZRem key ns now s))"
    using slot(2) [OF zset_of_drops [OF z(1)], of ns] by (simp only: z(2) Let_def)
  from step [OF ZPopMin_run [OF ok PopMin_table]]
  show "tracked {key} s (snd (Store_ZPopMin key cnt now s)) \<and> store_wf (snd (Store_ZPopMin key cnt now s))"
    using slot(2) [OF zset_of_pop(1) [OF z(1)]] by (simp add: z(2) Let_def pop_min_def cong: if_cong)
  from step [OF ZPopMax_run [OF ok PopMax_table]]
  show "tracked {key} s (snd (Store_ZPopMax key cnt now s)) \<and> store_wf (snd (Store_ZPopMax key cnt now s))"
    using slot(2) [OF zset_of_pop(2) [OF z(1)]] by (simp add: z(2) Let_def pop_max_def cong: if_cong)
  show "tracked {key} s (snd (Store_ZIncrBy key d m now s)) \<and> store_wf (snd (Store_ZIncrBy key d m now s))"
    if nan: "incr_score m d (table_at (live now s key)) \<noteq> NaN"
    using step [OF ZIncrBy_run [OF ok nan]] slot(1) [OF zset_of_upd [OF z(1) nan]] by (simp only: z(2) Let_def)
qed

section \<open>Sorted set commands are operations on a score table\<close>

text \<open>The scan of \<open>RangeByLex\<close>: members below the lower bound are skipped, the first one above the upper bound ends it.\<close>

definition lex_range :: "string \<Rightarrow> string \<Rightarrow> ZMember list \<Rightarrow> ZMember list" where
  "lex_range lo hi ms = takeWhile (\<lambda>m. lexLTE (Member m) hi) (filter (\<lambda>m. lexGTE (Member m) lo) ms)"

lemma lex_loop:
  "0 \<le> skipped \<Longrightarrow> (0 < cnt \<Longrightarrow> int (length result) < cnt) \<Longrightarrow>
   lex_loop lo hi off cnt skipped result ms =
     result @ limit (off - skipped) (if 0 < cnt then cnt - int (length result) else 0) (lex_range lo hi ms)"
proof (induction lo hi off cnt skipped result ms rule: lex_loop.induct)
  case (2 lo hi off cnt skipped result m ms)
  consider (low) "\<not> lexGTE (Member m) lo" | (high) "lexGTE (Member m) lo" "\<not> lexLTE (Member m) hi"
    | (skip) "lexGTE (Member m) lo" "lexLTE (Member m) hi" "0 < off" "skipped < off"
    | (full) "lexGTE (Member m) lo" "lexLTE (Member m) hi" "\<not> (0 < off \<and> skipped < off)" "0 < cnt" "cnt \<le> int (length result) + 1"
    | (keep) "lexGTE (Member m) lo" "lexLTE (Member m) hi" "\<not> (0 < off \<and> skipped < off)" "\<not> (0 < cnt \<and> cnt \<le> int (length result) + 1)"
    by linarith
  then show ?case
  proof cases
    case low
    then show ?thesis using 2 by (simp add: lex_range_def)
  next
    case high
    then show ?thesis by (simp add: lex_range_def limit_def)
  next
    case skip
    then have "nat (off - skipped) = Suc (nat (off - (skipped + 1)))" by linarith
    with skip 2(2) 2(4,5) show ?thesis by (simp add: lex_range_def limit_def)
  next
    case full
    with 2(5) have "cnt - int (length result) = 1" by linarith
    moreover have "off - skipped \<le> 0" using full(3) 2(4) by linarith
    ultimately show ?thesis using full by (simp add: lex_range_def limit_def)
  next
    case keep
    have o: "off - skipped \<le> 0" using keep(3) 2(4) by linarith
    show ?thesis
    proof (cases "0 < cnt")
      case True
      with keep(4) have "nat (cnt - int (length result)) = Suc (nat (cnt - (1 + int (length result))))" by linarith
      with True keep o 2(3) 2(4) show ?thesis by (simp add: lex_range_def limit_def)
    next
      case False
      with keep o 2(3) 2(4) show ?thesis by (simp add: lex_range_def limit_def)
    qed
  qed
qed (simp add: lex_range_def limit_def)

lemma RangeByLex: "SortedSet_RangeByLex lo hi off cnt z = limit off cnt (lex_range lo hi (ordered z))"
  by (auto simp: SortedSet_RangeByLex_def lex_loop limit_def)

datatype zcmd =
    OpZAdd "ZMember list" | OpZRem "string list" | OpZIncrBy float64 string | OpZPopMin int | OpZPopMax int
  | OpZScore string | OpZRank string | OpZRevRank string | OpZCard | OpZRange int int | OpZRevRange int int
  | OpZRangeByScore float64 float64 int int | OpZCount float64 float64 | OpZRangeByLex string string int int

datatype zcmd_out =
    ZoNum "nat res" | ZoScore "float64 res" | ZoScoreOpt "float64 option res" | ZoRank "nat option res"
  | ZoRevRank "int option res" | ZoMembers "ZMember list res"

fun zset_cmd :: "key \<Rightarrow> zcmd \<times> gotime \<Rightarrow> store \<Rightarrow> zcmd_out \<times> store" where
  "zset_cmd key (OpZAdd ms, now) s = map_prod ZoNum id (Store_ZAdd key ms now s)"
| "zset_cmd key (OpZRem ms, now) s = map_prod ZoNum id (Store_ZRem key ms now s)"
| "zset_cmd key (OpZIncrBy d m, now) s = map_prod ZoScore id (Store_ZIncrBy key d m now s)"
| "zset_cmd key (OpZPopMin n, now) s = map_prod ZoMembers id (Store_ZPopMin key n now s)"
| "zset_cmd key (OpZPopMax n, now) s = map_prod ZoMembers id (Store_ZPopMax key n now s)"
| "zset_cmd key (OpZScore m, now) s = (ZoScoreOpt (Store_ZScore key m now s), s)"
| "zset_cmd key (OpZRank m, now) s = (ZoRank (Store_ZRank key m now s), s)"
| "zset_cmd key (OpZRevRank m, now) s = (ZoRevRank (Store_ZRevRank key m now s), s)"
| "zset_cmd key (OpZCard, now) s = (ZoNum (Store_ZCard key now s), s)"
| "zset_cmd key (OpZRange a b, now) s = (ZoMembers (Store_ZRange key a b now s), s)"
| "zset_cmd key (OpZRevRange a b, now) s = (ZoMembers (Store_ZRevRange key a b now s), s)"
| "zset_cmd key (OpZRangeByScore lo hi off n, now) s = (ZoMembers (Store_ZRangeByScore key lo hi off n now s), s)"
| "zset_cmd key (OpZCount lo hi, now) s = (ZoNum (Store_ZCount key lo hi now s), s)"
| "zset_cmd key (OpZRangeByLex lo hi off n, now) s = (ZoMembers (Store_ZRangeByLex key lo hi off n now s), s)"

definition rank_in :: "string \<Rightarrow> float64 gomap \<Rightarrow> nat option" where
  "rank_in m t = (case fmlookup t m of None \<Rightarrow> None | Some x \<Rightarrow> Some (length (filter (\<lambda>y. zkey y < (x, m)) (ranking t))))"

fun table_cmd :: "zcmd \<times> gotime \<Rightarrow> float64 gomap \<Rightarrow> zcmd_out \<times> float64 gomap" where
  "table_cmd (OpZAdd ms, now) t =
     (ZoNum (if ms = [] then Inl (Err ''wrong number of sorted set members'') else Inr (map_len (put_all ms t) - map_len t)), put_all ms t)"
| "table_cmd (OpZRem ms, now) t = (ZoNum (Inr (map_len t - map_len (fold fmdrop ms t))), fold fmdrop ms t)"
| "table_cmd (OpZIncrBy d m, now) t = (ZoScore (Inr (incr_score m d t)), fmupd m (incr_score m d t) t)"
| "table_cmd (OpZPopMin n, now) t = (ZoMembers (Inr (pop_min n t)), drop_scores (pop_min n t) t)"
| "table_cmd (OpZPopMax n, now) t = (ZoMembers (Inr (pop_max n t)), drop_scores (pop_max n t) t)"
| "table_cmd (OpZScore m, now) t = (ZoScoreOpt (Inr (fmlookup t m)), t)"
| "table_cmd (OpZRank m, now) t = (ZoRank (Inr (rank_in m t)), t)"
| "table_cmd (OpZRevRank m, now) t = (ZoRevRank (Inr (map_option (\<lambda>r. int (map_len t) - 1 - int r) (rank_in m t))), t)"
| "table_cmd (OpZCard, now) t = (ZoNum (Inr (map_len t)), t)"
| "table_cmd (OpZRange a b, now) t = (ZoMembers (Inr (list_range a b (ranking t))), t)"
| "table_cmd (OpZRevRange a b, now) t = (ZoMembers (Inr (list_range a b (rev (ranking t)))), t)"
| "table_cmd (OpZRangeByScore lo hi off n, now) t =
     (ZoMembers (Inr (limit off n (filter (\<lambda>m. lo \<le> Score m \<and> Score m \<le> hi) (ranking t)))), t)"
| "table_cmd (OpZCount lo hi, now) t = (ZoNum (Inr (length (filter (\<lambda>m. lo \<le> Score m \<and> Score m \<le> hi) (ranking t)))), t)"
| "table_cmd (OpZRangeByLex lo hi off n, now) t = (ZoMembers (Inr (limit off n (lex_range lo hi (ranking t)))), t)"

text \<open>No NaN in scores and bounds, and finite increments: then no NaN ever arises.\<close>

fun zcmd_ok :: "zcmd \<times> gotime \<Rightarrow> bool" where
  "zcmd_ok (OpZAdd ms, now) \<longleftrightarrow> (\<forall>m \<in> set ms. Score m \<noteq> NaN)"
| "zcmd_ok (OpZIncrBy d m, now) \<longleftrightarrow> d \<noteq> NaN \<and> d \<noteq> PInf \<and> d \<noteq> NInf"
| "zcmd_ok (OpZRangeByScore lo hi off n, now) \<longleftrightarrow> lo \<noteq> NaN \<and> hi \<noteq> NaN"
| "zcmd_ok (OpZCount lo hi, now) \<longleftrightarrow> lo \<noteq> NaN \<and> hi \<noteq> NaN"
| "zcmd_ok _ \<longleftrightarrow> True"

text \<open>The key holds the sorted set of the table and nothing else, without a deadline or a delay.\<close>

definition zset_rel :: "key \<Rightarrow> store \<Rightarrow> float64 gomap \<Rightarrow> bool" where
  "zset_rel key s t \<longleftrightarrow> column s key = put_zset t no_column \<and> fmlookup (notBefore s) key = None \<and> zset_wf (zset_of t)"

lemma put_zset_none [simp]:
  "table_at (put_zset t no_column) = t" "\<not> zset_wrong (put_zset t no_column)" "cExp (put_zset t no_column) = None"
  "put_zset u (put_zset t no_column) = put_zset u no_column" "cZSet (put_zset t no_column) = None \<longleftrightarrow> t = fmempty"
  by (auto simp: put_zset_def table_at_def zset_kinds_def no_column_def zset_of_def)

lemma put_zset_empty [simp]: "put_zset fmempty no_column = no_column"
  by (simp add: put_zset_def no_column_def)

lemma zset_of_scores [simp]: "scores (zset_of t) = t"
  by (simp add: zset_of_def)

lemma zset_of_empty [simp]: "zset_wf (zset_of fmempty)"
  using zset_wf_of [OF zset_wf_New] zs.table_new zset_wf_New by metis

lemma zset_rel_fresh:
  assumes "zset_rel key s t"
  shows "\<not> isExpiredRLocked key now s" "\<not> delayed key now s" "purge key now s = s"
    "live now s key = put_zset t no_column" "slot_ok (live now s key)" "\<not> wrongTypeRLocked zset_kinds key now s"
proof -
  show e: "\<not> isExpiredRLocked key now s" using assms by (simp add: zset_rel_def isExpired_column)
  show d: "\<not> delayed key now s" using assms by (simp add: zset_rel_def delayed_def)
  from e show "purge key now s = s" and l: "live now s key = put_zset t no_column"
    using assms by (simp_all add: purge_id live_fresh zset_rel_def)
  show "slot_ok (live now s key)" unfolding l using assms by (intro put_zset_slot) (simp_all add: zset_rel_def)
  show "\<not> wrongTypeRLocked zset_kinds key now s"
    unfolding wrongTypeRLocked_eq [OF e d] l by (rule put_zset_none(2))
qed

lemma zset_rel_lookup: "zset_rel key s t \<Longrightarrow> fmlookup (zsets s) key = (if t = fmempty then None else Some (zset_of t))"
  by (auto simp: column_lookup zset_rel_def put_zset_def)

lemma zset_rel_result:
  assumes "zset_rel key s t" "key_result key now s r (put_zset u no_column) res" "zset_wf (zset_of u)"
  shows "zset_rel key (snd res) u" "fst res = r"
  using assms zset_rel_fresh [OF assms(1)] by (simp_all add: zset_rel_def key_result_def)

lemma incr_finite: "x \<noteq> NaN \<Longrightarrow> d \<noteq> NaN \<Longrightarrow> d \<noteq> PInf \<Longrightarrow> d \<noteq> NInf \<Longrightarrow> f64_add x d \<noteq> NaN"
  by (cases x; cases d) (auto simp: round64_def Let_def)

lemma incr_score_ok: "zset_wf (zset_of t) \<Longrightarrow> zcmd_ok (OpZIncrBy d m, now) \<Longrightarrow> incr_score m d t \<noteq> NaN"
  using wf_score [of "zset_of t" m] by (auto simp: incr_score_def incr_finite split: option.split)

lemma zset_cmd_sim:
  assumes rel: "zset_rel key s t" and ok: "zcmd_ok (opn, now)"
  shows "zset_rel key (snd (zset_cmd key (opn, now) s)) (snd (table_cmd (opn, now) t)) \<and>
    fst (zset_cmd key (opn, now) s) = fst (table_cmd (opn, now) t)"
proof -
  note fresh = zset_rel_fresh [OF rel, of now] and res = zset_rel_result [OF rel, of now]
  have wf: "zset_wf (zset_of t)" using rel by (simp add: zset_rel_def)
  have kind: "zset_wrong (put_zset t no_column) = False" using put_zset_none(2) by blast
  have ord: "ordered (zset_of t) = ranking t" by (simp add: zset_of_def)
  have rank: "SortedSet_Rank m (zset_of t) = rank_in m t" for m
    unfolding SortedSet_Rank [OF wf] rank_in_def ord by simp
  show ?thesis
  proof (cases opn)
    case (OpZAdd ms)
    show ?thesis
    proof (cases "ms = []")
      case False
      have nan: "\<forall>m \<in> set ms. Score m \<noteq> NaN" using ok OpZAdd by simp
      have "key_result key now s (Inr (map_len (put_all ms t) - map_len t)) (put_zset (put_all ms t) no_column) (Store_ZAdd key ms now s)"
        using ZAdd_run [OF fresh(5) False nan] kind by (simp add: fresh(4) Let_def)
      from res [OF this] show ?thesis using zset_of_add [OF wf nan] False by (simp add: OpZAdd)
    qed (use rel in \<open>simp add: OpZAdd Store_ZAdd_def put_all_def\<close>)
  next
    case (OpZRem ms)
    have "fold fmdrop ms fmempty = (fmempty :: float64 gomap)" by (induction ms) auto
    then have "key_result key now s (Inr (map_len t - map_len (fold fmdrop ms t))) (put_zset (fold fmdrop ms t) no_column) (Store_ZRem key ms now s)"
      using ZRem_run [OF fresh(5), of ms] kind by (cases "t = fmempty") (simp_all add: fresh(4) Let_def)
    from res [OF this] show ?thesis using zset_of_drops [OF wf, of ms] by (simp add: OpZRem)
  next
    case (OpZIncrBy d m)
    have nan: "incr_score m d t \<noteq> NaN" using incr_score_ok [OF wf] ok OpZIncrBy by blast
    then have "key_result key now s (Inr (incr_score m d t)) (put_zset (fmupd m (incr_score m d t) t) no_column) (Store_ZIncrBy key d m now s)"
      using ZIncrBy_run [OF fresh(5), of m d] kind by (simp add: fresh(4) Let_def)
    from res [OF this] show ?thesis using zset_of_upd [OF wf nan, of m] by (simp add: OpZIncrBy)
  next
    case (OpZPopMin n)
    have none: "pop_min n fmempty = []" by (simp add: pop_min_def)
    have "key_result key now s (Inr (pop_min n t)) (put_zset (drop_scores (pop_min n t) t) no_column) (Store_ZPopMin key n now s)"
      using ZPopMin_run [OF fresh(5) PopMin_table none] kind none
      by (cases "t = fmempty") (simp_all add: fresh(4) Let_def drop_scores_def)
    from res [OF this] show ?thesis using zset_of_pop(1) [OF wf, of n] by (simp add: OpZPopMin)
  next
    case (OpZPopMax n)
    have none: "pop_max n fmempty = []" by (simp add: pop_max_def)
    have "key_result key now s (Inr (pop_max n t)) (put_zset (drop_scores (pop_max n t) t) no_column) (Store_ZPopMax key n now s)"
      using ZPopMax_run [OF fresh(5) PopMax_table none] kind none
      by (cases "t = fmempty") (simp_all add: fresh(4) Let_def drop_scores_def)
    from res [OF this] show ?thesis using zset_of_pop(2) [OF wf, of n] by (simp add: OpZPopMax)
  qed (use rel fresh zset_rel_lookup [OF rel] ok in \<open>auto simp: rank ord Store_ZScore_def SortedSet_Score_def Store_ZRank_def Store_ZRevRank_def
      Store_ZCard_def Store_ZRange_def SortedSet_Range_list Store_ZRevRange_def SortedSet_RevRange_list Store_ZRangeByScore_def
      SortedSet_RangeByScore [OF wf] Store_ZCount_def SortedSet_CountByScore [OF wf] Store_ZRangeByLex_def RangeByLex
      rank_in_def lex_range_def limit_def Len_0 SortedSet_Len_def split: option.split\<close>)
qed

interpretation zset_cmd_sim: guarded_simulation "zset_cmd key" table_cmd "zset_rel key" zcmd_ok for key
proof (unfold_locales, goal_cases)
  case (1 s h opn)
  then show ?case using zset_cmd_sim [of key s h "fst opn" "snd opn"] by simp
next
  case (2 s h opn)
  then show ?case using zset_cmd_sim [of key s h "fst opn" "snd opn"] by simp
qed

text \<open>C6: On a key that holds nothing, any sequence of sorted set commands without NaN scores or bounds and with
  finite increments gives the answers of the same sequence on a plain table from members to scores:
  ranks, ranges by rank, by score and by member, counts, pops and increments are those of the table sorted
  on demand, and the key disappears with its last member.\<close>

theorem zset_commands_as_table:
  assumes "column s key = no_column" "fmlookup (notBefore s) key = None" "\<forall>opn \<in> set opns. zcmd_ok opn"
  shows "fst (run_ops (zset_cmd key) opns s) = fst (run_ops table_cmd opns fmempty)"
  by (rule zset_cmd_sim.guarded_run) (use assms in \<open>simp_all add: zset_rel_def\<close>)

theorem zset_commands_as_table_witness:
  "fst (run_ops (zset_cmd ''z'') [(OpZAdd [\<lparr>Member = ''a'', Score = Fin 2\<rparr>, \<lparr>Member = ''b'', Score = Fin 1\<rparr>], 1), (OpZCard, 2), (OpZRem [''b''], 3), (OpZScore ''b'', 4)] Store_New) =
     [ZoNum (Inr 2), ZoNum (Inr 2), ZoNum (Inr 1), ZoScoreOpt (Inr None)]"
proof -
  have "column Store_New ''z'' = no_column" "fmlookup (notBefore Store_New) ''z'' = None" by simp_all
  from zset_commands_as_table [OF this, of "[(OpZAdd [\<lparr>Member = ''a'', Score = Fin 2\<rparr>, \<lparr>Member = ''b'', Score = Fin 1\<rparr>], 1), (OpZCard, 2), (OpZRem [''b''], 3), (OpZScore ''b'', 4)]"]
  show ?thesis by (simp add: put_all_def map_len_upd map_len_drop)
qed

section \<open>A NaN score\<close>

lemma f64_nan [simp]: "\<not> f64_lt NaN x" "\<not> f64_eq x NaN"
  by (auto simp: f64_lt_def f64_eq_def)

lemma findPos_nan: "findPos NaN m z = length (ordered z)"
  using sort_Search_split [of "ordered z" "ordered z" "[]" "\<lambda>x. False"] by (simp add: findPos_def)

lemma Remove_nan:
  "fmlookup (scores z) m = Some NaN \<Longrightarrow>
   SortedSet_Remove m z = (True, z\<lparr>scores := fmdrop m (scores z)\<rparr>)"
  by (simp add: SortedSet_Remove_def removeOrdered_def findPos_nan Let_def)

text \<open>A member whose score is NaN cannot be removed.  \<open>ZRem\<close> answers that it removed it and the member has no
  score any more, but the ordered slice still has it: range queries go on returning it.\<close>

theorem zrem_nan_stays:
  assumes "column s key = no_column\<lparr>cZSet := Some z\<rparr>" "fmlookup (notBefore s) key = None"
    and "fmlookup (scores z) m = Some NaN" "has (scores z) m'" "m' \<noteq> m"
  shows "case Store_ZRem key [m] now s of (r, s') \<Rightarrow>
    r = Inr 1 \<and> Store_ZScore key m now s' = Inr None \<and> Store_ZRange key 0 (-1) now s' = Inr (SortedSet_Range 0 (-1) z)"
proof -
  define z' where "z' = z\<lparr>scores := fmdrop m (scores z)\<rparr>"
  have e: "\<not> isExpiredRLocked key now s" using assms(1) by (simp add: isExpired_column no_column_def)
  have live: "live now s key = no_column\<lparr>cZSet := Some z\<rparr>" and id: "purge key now s = s"
    using e assms(1) by (simp_all add: live_fresh purge_id)
  have kinds: "\<not> zset_wrong (no_column\<lparr>cZSet := x\<rparr>)" for x by (simp add: zset_kinds_def)
  have lk: "fmlookup (zsets s) key = Some z" using assms(1) by (simp add: column_lookup)
  have "has (scores z') m'" using assms(4,5) by (simp add: z'_def)
  then have ne: "scores z' \<noteq> fmempty" "scores z \<noteq> fmempty" using assms(3) by auto
  define s' where "s' = touchKeyLocked [key] now (s\<lparr>zsets := fmupd key z' (zsets s)\<rparr>)"
  have run: "Store_ZRem key [m] now s = (Inr 1, s')"
    using kinds [of "Some z"] ne Remove_nan [OF assms(3)] e
    by (simp add: Store_ZRem_def locked_eqs live id lk Len_0 store_zset_def z'_def s'_def)
  have col: "column s' key = no_column\<lparr>cZSet := Some z'\<rparr>" by (simp add: s'_def assms(1))
  then have e': "\<not> isExpiredRLocked key now s'" by (simp add: isExpired_column no_column_def)
  have d': "\<not> delayed key now s'" using assms(2) by (simp add: delayed_def s'_def)
  have w': "\<not> wrongTypeRLocked zset_kinds key now s'"
    using kinds [of "Some z'"] col by (simp add: wrongTypeRLocked_eq [OF e' d'] live_fresh [OF e'])
  have lk': "fmlookup (zsets s') key = Some z'" using col by (simp add: column_lookup)
  show ?thesis using e' w' lk' ne
    by (simp add: run Store_ZScore_def Store_ZRange_def Len_0 SortedSet_Score_def SortedSet_Range_list z'_def)
qed

theorem zrem_nan_stays_witness:
  "let z = \<lparr>scores = fmupd ''b'' (Fin 1) (fmupd ''a'' NaN fmempty), ordered = [\<lparr>Member = ''a'', Score = NaN\<rparr>, \<lparr>Member = ''b'', Score = Fin 1\<rparr>]\<rparr>;
       s = snd (Store_ZAdd ''z'' [\<lparr>Member = ''a'', Score = NaN\<rparr>, \<lparr>Member = ''b'', Score = Fin 1\<rparr>] 1 Store_New);
       s' = snd (Store_ZRem ''z'' [''a''] 2 s) in
   column s ''z'' = no_column\<lparr>cZSet := Some z\<rparr> \<and> Store_ZScore ''z'' ''a'' 2 s' = Inr None \<and>
   Store_ZRange ''z'' 0 (-1) 2 s' = Inr [\<lparr>Member = ''a'', Score = NaN\<rparr>, \<lparr>Member = ''b'', Score = Fin 1\<rparr>]"
proof -
  define z where "z = \<lparr>scores = fmupd ''b'' (Fin 1) (fmupd ''a'' NaN fmempty), ordered = [\<lparr>Member = ''a'', Score = NaN\<rparr>, \<lparr>Member = ''b'', Score = Fin 1\<rparr>]\<rparr>"
  define s where "s = snd (Store_ZAdd ''z'' [\<lparr>Member = ''a'', Score = NaN\<rparr>, \<lparr>Member = ''b'', Score = Fin 1\<rparr>] 1 Store_New)"
  have fresh: "live 1 Store_New ''z'' = no_column" "purge ''z'' 1 Store_New = Store_New" "zset_or_new ''z'' Store_New = NewSortedSet"
    by (simp_all add: live_def purge_def isExpired_column) (simp add: zset_or_new_def Store_New_def)
  have "findPos NaN ''a'' \<lparr>scores = m, ordered = []\<rparr> = 0" "findPos (Fin 1) ''b'' \<lparr>scores = m, ordered = [\<lparr>Member = ''a'', Score = NaN\<rparr>]\<rparr> = 1" for m
    by (simp_all add: findPos_def sort_Search_def search_loop.simps f64_lt_def f64_eq_def)
  then have "add_all SortedSet_Add [\<lparr>Member = ''a'', Score = NaN\<rparr>, \<lparr>Member = ''b'', Score = Fin 1\<rparr>] NewSortedSet = (2, z)"
    by (simp add: SortedSet_Add_def NewSortedSet_def insertOrdered_def z_def)
  then have s: "s = touchKeyLocked [''z''] 1 (Store_New\<lparr>zsets := fmupd ''z'' z (zsets Store_New)\<rparr>)"
    by (simp add: s_def Store_ZAdd_def locked_eqs fresh)
  then have col: "column s ''z'' = no_column\<lparr>cZSet := Some z\<rparr>" and nb: "fmlookup (notBefore s) ''z'' = None"
    by simp_all
  have "Store_ZScore ''z'' ''a'' 2 (snd (Store_ZRem ''z'' [''a''] 2 s)) = Inr None"
    "Store_ZRange ''z'' 0 (-1) 2 (snd (Store_ZRem ''z'' [''a''] 2 s)) = Inr (SortedSet_Range 0 (-1) z)"
    using zrem_nan_stays [OF col nb, of "''a''" "''b''" 2] by (simp_all add: split_def z_def)
  moreover have "SortedSet_Range 0 (-1) z = ordered z"
    by (simp add: SortedSet_Range_def normalizeRange_def Let_def z_def)
  ultimately show ?thesis using col by (simp add: Let_def z_def [symmetric] s_def [symmetric]) (simp add: z_def)
qed

end
