(* ===== verification/Vole_Glob.thy ===== *)
theory Vole_Glob
  imports Vole_Prelude
begin

text \<open>
  The glob patterns of \<open>MatchGlob\<close> in \<^verbatim>\<open>internal/store/store.go\<close>, which \<open>KEYS\<close>, \<open>SCAN\<close>, \<open>HSEARCH\<close>, channel
  patterns and access rules go through, and their meaning: a pattern is a sequence of tokens, each of
  which stands for one character or, for a star, for any string.
\<close>

section \<open>The matcher\<close>

text \<open>
  The scan of a bracket expression from \<open>pattern[i:]\<close> on; \<open>first\<close> is \<open>i == 0\<close>.  The result is whether the
  character was matched and the pattern behind the closing bracket.
\<close>

function bracket_loop :: "char \<Rightarrow> bool \<Rightarrow> bool \<Rightarrow> string \<Rightarrow> (bool \<times> string) option" where
  "bracket_loop ch first matched [] = None"
| "bracket_loop ch first matched (p # ps) =
     (if p = CHR '']'' \<and> \<not> first then Some (matched, ps)
      else if p = CHR 0x5C \<and> ps \<noteq> [] then bracket_loop ch False (matched \<or> hd ps = ch) (tl ps)
      else if 2 \<le> length ps \<and> hd ps = CHR ''-''
        then bracket_loop ch False (matched \<or> p \<le> ch \<and> ch \<le> ps ! 1) (drop 2 ps)
      else bracket_loop ch False (matched \<or> p = ch) ps)"
  by pat_completeness auto
termination
  by (relation "measure (\<lambda>(ch, first, matched, ps). length ps)") auto

definition negated :: "string \<Rightarrow> bool" where
  "negated pattern \<longleftrightarrow> pattern \<noteq> [] \<and> (hd pattern = CHR ''^'' \<or> hd pattern = CHR ''!'')"

definition matchBracket :: "string \<Rightarrow> char \<Rightarrow> string option" where
  "matchBracket pattern ch =
     (let negate = negated pattern;
          pattern = (if negate then tl pattern else pattern)
      in case bracket_loop ch True False pattern of
           None \<Rightarrow> None
         | Some (matched, rest) \<Rightarrow> if (if negate then \<not> matched else matched) then Some rest else None)"

lemma bracket_loop_length: "bracket_loop ch first m ps = Some (b, rest) \<Longrightarrow> length rest < length ps"
proof (induction ch first m ps rule: bracket_loop.induct)
  case (2 ch first m p ps)
  then show ?case by (auto split: if_splits)
qed simp

lemma matchBracket_length: "matchBracket p ch = Some rest \<Longrightarrow> length rest < length p"
  using bracket_loop_length [of ch True False "tl p"] bracket_loop_length [of ch True False p]
  by (auto simp: matchBracket_def Let_def split: option.splits if_splits prod.splits)

function MatchGlob :: "string \<Rightarrow> string \<Rightarrow> bool" where
  "MatchGlob [] str = (str = [])"
| "MatchGlob (p # ps) str =
     (if p = CHR ''*'' then
        (let ps = dropWhile (\<lambda>c. c = CHR ''*'') ps in
         if ps = [] then True else list_ex (\<lambda>i. MatchGlob ps (drop i str)) [0..<Suc (length str)])
      else if p = CHR ''?'' then str \<noteq> [] \<and> MatchGlob ps (tl str)
      else if p = CHR ''['' then
        (if str = [] then False
         else case matchBracket ps (hd str) of None \<Rightarrow> False | Some rest \<Rightarrow> MatchGlob rest (tl str))
      else if p = CHR 0x5C then
        (case ps of [] \<Rightarrow> False | q # qs \<Rightarrow> str \<noteq> [] \<and> q = hd str \<and> MatchGlob qs (tl str))
      else str \<noteq> [] \<and> p = hd str \<and> MatchGlob ps (tl str))"
  by pat_completeness auto
termination
  by (relation "measure (\<lambda>(p, s). length p)")
    (auto dest: matchBracket_length intro: le_imp_less_Suc length_dropWhile_le)

declare bracket_loop.simps [simp del] MatchGlob.simps [simp del]

definition matchPattern :: "string \<Rightarrow> string \<Rightarrow> bool" where
  "matchPattern pattern key = MatchGlob pattern key"

section \<open>Tokens\<close>

text \<open>A character class is a list of ranges; a pattern that ends inside a bracket or after a backslash matches nothing.\<close>

datatype token = Star | AnyChar | Class bool "(char \<times> char) list" | Lit char | Never

definition in_ranges :: "char \<Rightarrow> (char \<times> char) list \<Rightarrow> bool" where
  "in_ranges c rs \<longleftrightarrow> (\<exists>(lo, hi) \<in> set rs. lo \<le> c \<and> c \<le> hi)"

fun admits :: "token \<Rightarrow> char \<Rightarrow> bool" where
  "admits AnyChar c = True"
| "admits (Class negate rs) c = (in_ranges c rs \<noteq> negate)"
| "admits (Lit l) c = (l = c)"
| "admits Star c = False"
| "admits Never c = False"

function class_ranges :: "bool \<Rightarrow> string \<Rightarrow> ((char \<times> char) list \<times> string) option" where
  "class_ranges first [] = None"
| "class_ranges first (p # ps) =
     (if p = CHR '']'' \<and> \<not> first then Some ([], ps)
      else let (r, qs) = (if p = CHR 0x5C \<and> ps \<noteq> [] then ((hd ps, hd ps), tl ps)
                          else if 2 \<le> length ps \<and> hd ps = CHR ''-'' then ((p, ps ! 1), drop 2 ps)
                          else ((p, p), ps))
           in map_option (\<lambda>(rs, rest). (r # rs, rest)) (class_ranges False qs))"
  by pat_completeness auto
termination
  by (relation "measure (\<lambda>(first, ps). length ps)") (auto split: if_splits)

lemma class_ranges_length: "class_ranges first ps = Some (rs, rest) \<Longrightarrow> length rest < length ps"
proof (induction first ps arbitrary: rs rule: class_ranges.induct)
  case (2 first p ps)
  then show ?case by (auto simp: Let_def split: if_splits) (fastforce dest: less_imp_le_nat)+
qed simp

function tokens :: "string \<Rightarrow> token list" where
  "tokens [] = []"
| "tokens (p # ps) =
     (if p = CHR ''*'' then Star # tokens ps
      else if p = CHR ''?'' then AnyChar # tokens ps
      else if p = CHR ''['' then
        (let qs = (if negated ps then tl ps else ps) in
         case class_ranges True qs of None \<Rightarrow> [Never] | Some (rs, rest) \<Rightarrow> Class (negated ps) rs # tokens rest)
      else if p = CHR 0x5C then (case ps of [] \<Rightarrow> [Never] | q # qs \<Rightarrow> Lit q # tokens qs)
      else Lit p # tokens ps)"
  by pat_completeness auto
termination
proof (relation "measure length", goal_cases)
  case (4 p ps qs rs_rest rs rest)
  then have "class_ranges True qs = Some (rs, rest)" by simp
  from class_ranges_length [OF this] 4(4) show ?case by (auto split: if_splits)
qed auto

inductive glob :: "token list \<Rightarrow> string \<Rightarrow> bool" where
  empty: "glob [] []"
| char: "admits t c \<Longrightarrow> glob ts cs \<Longrightarrow> glob (t # ts) (c # cs)"
| star: "glob ts cs \<Longrightarrow> glob (Star # ts) (bs @ cs)"

inductive_simps glob_Nil: "glob [] s"
inductive_simps glob_Cons: "glob (t # ts) s"

declare class_ranges.simps [simp del] tokens.simps [simp del]

section \<open>The matcher decides the meaning of the pattern\<close>

lemma bracket_loop_class:
  "bracket_loop ch first m ps = map_option (\<lambda>(rs, rest). (m \<or> in_ranges ch rs, rest)) (class_ranges first ps)"
proof (induction ch first m ps rule: bracket_loop.induct)
  case (1 ch first m)
  show ?case by (simp add: bracket_loop.simps class_ranges.simps)
next
  case (2 ch first m p ps)
  note unfold = bracket_loop.simps class_ranges.simps
  consider (close) "p = CHR '']'' \<and> \<not> first"
    | (escape) "\<not> (p = CHR '']'' \<and> \<not> first)" "p = CHR 0x5C \<and> ps \<noteq> []"
    | (range) "\<not> (p = CHR '']'' \<and> \<not> first)" "\<not> (p = CHR 0x5C \<and> ps \<noteq> [])" "2 \<le> length ps \<and> hd ps = CHR ''-''"
    | (single) "\<not> (p = CHR '']'' \<and> \<not> first)" "\<not> (p = CHR 0x5C \<and> ps \<noteq> [])" "\<not> (2 \<le> length ps \<and> hd ps = CHR ''-'')" by blast
  then show ?case
  proof cases
    case close
    then show ?thesis by (simp add: unfold in_ranges_def)
  next
    case escape
    have "bracket_loop ch first m (p # ps) = bracket_loop ch False (m \<or> hd ps = ch) (tl ps)"
      and "class_ranges first (p # ps) = map_option (\<lambda>(rs, rest). ((hd ps, hd ps) # rs, rest)) (class_ranges False (tl ps))"
      using escape by (auto simp: unfold)
    then show ?thesis using 2(1) [OF escape] by (cases "class_ranges False (tl ps)") (auto simp: in_ranges_def)
  next
    case range
    have "bracket_loop ch first m (p # ps) = bracket_loop ch False (m \<or> p \<le> ch \<and> ch \<le> ps ! 1) (drop 2 ps)"
      and "class_ranges first (p # ps) = map_option (\<lambda>(rs, rest). ((p, ps ! 1) # rs, rest)) (class_ranges False (drop 2 ps))"
      using range by (auto simp: unfold)
    then show ?thesis using 2(2) [OF range] by (cases "class_ranges False (drop 2 ps)") (auto simp: in_ranges_def)
  next
    case single
    have "bracket_loop ch first m (p # ps) = bracket_loop ch False (m \<or> p = ch) ps"
      and "class_ranges first (p # ps) = map_option (\<lambda>(rs, rest). ((p, p) # rs, rest)) (class_ranges False ps)"
      using single by (auto simp: unfold)
    then show ?thesis using 2(3) [OF single] by (cases "class_ranges False ps") (auto simp: in_ranges_def)
  qed
qed

lemma matchBracket_class:
  "matchBracket ps ch =
     (case class_ranges True (if negated ps then tl ps else ps) of
        None \<Rightarrow> None | Some (rs, rest) \<Rightarrow> if admits (Class (negated ps) rs) ch then Some rest else None)"
  by (auto simp: matchBracket_def bracket_loop_class Let_def split: option.splits)

lemma glob_Star: "glob (Star # ts) s \<longleftrightarrow> (\<exists>i \<le> length s. glob ts (drop i s))"
proof
  assume "glob (Star # ts) s"
  then obtain bs cs where "s = bs @ cs" "glob ts cs" by (auto simp: glob_Cons)
  then show "\<exists>i \<le> length s. glob ts (drop i s)" by (intro exI [of _ "length bs"]) simp
next
  assume "\<exists>i \<le> length s. glob ts (drop i s)"
  then obtain i where "glob ts (drop i s)" by blast
  from glob.star [OF this, of "take i s"] show "glob (Star # ts) s" by simp
qed

lemma glob_char: "t \<noteq> Star \<Longrightarrow> glob (t # ts) s \<longleftrightarrow> s \<noteq> [] \<and> admits t (hd s) \<and> glob ts (tl s)"
  by (cases s) (auto simp: glob_Cons)

lemma glob_Star_Star: "glob (Star # Star # ts) s = glob (Star # ts) s"
proof
  assume "glob (Star # Star # ts) s"
  then obtain bs cs where "s = bs @ cs" "glob (Star # ts) cs" by (auto simp: glob_Cons)
  then obtain ds es where "s = (bs @ ds) @ es" "glob ts es" by (auto simp: glob_Cons)
  then show "glob (Star # ts) s" using glob.star by metis
next
  assume "glob (Star # ts) s"
  from glob.star [OF this, of "[]"] show "glob (Star # Star # ts) s" by simp
qed

lemma glob_stars: "glob (Star # tokens (dropWhile (\<lambda>c. c = CHR ''*'') ps)) s = glob (Star # tokens ps) s"
  by (induction ps) (auto simp: tokens.simps(2) glob_Star_Star)

lemma list_ex_upto: "list_ex P [0..<Suc n] \<longleftrightarrow> (\<exists>i \<le> n. P i)"
  by (auto simp: list_ex_iff less_Suc_eq_le simp del: upt_Suc)

lemma MatchGlob_tokens: "MatchGlob p s = glob (tokens p) s"
proof (induction p s rule: MatchGlob.induct)
  case (1 str)
  show ?case by (simp add: MatchGlob.simps tokens.simps glob_Nil)
next
  case (2 p ps str)
  consider (star) "p = CHR ''*''" | (any) "p = CHR ''?''" | (bracket) "p = CHR ''[''" | (escape) "p = CHR 0x5C"
    | (lit) "p \<noteq> CHR ''*''" "p \<noteq> CHR ''?''" "p \<noteq> CHR ''[''" "p \<noteq> CHR 0x5C" by blast
  then show ?case
  proof cases
    case star
    define qs where "qs = dropWhile (\<lambda>c. c = CHR ''*'') ps"
    have "MatchGlob (p # ps) str = (qs = [] \<or> (\<exists>i \<le> length str. MatchGlob qs (drop i str)))"
      using star by (auto simp: MatchGlob.simps qs_def Let_def list_ex_upto simp del: upt_Suc)
    also have "\<dots> = glob (Star # tokens qs) str"
    proof (cases "qs = []")
      case True
      then show ?thesis using glob.star [OF glob.empty, of str] by (simp add: tokens.simps)
    next
      case False
      then have "MatchGlob qs (drop i str) = glob (tokens qs) (drop i str)" if "i \<le> length str" for i
        using 2(1) [OF star qs_def, of i] that by (simp add: less_Suc_eq_le del: upt_Suc)
      then show ?thesis using False by (auto simp: glob_Star)
    qed
    also have "\<dots> = glob (tokens (p # ps)) str" using star glob_stars [of ps str] by (simp add: qs_def tokens.simps)
    finally show ?thesis .
  next
    case any
    then show ?thesis using 2(2) by (auto simp: MatchGlob.simps tokens.simps glob_char)
  next
    case bracket
    show ?thesis
    proof (cases "class_ranges True (if negated ps then tl ps else ps)")
      case None
      then show ?thesis using bracket by (simp add: MatchGlob.simps tokens.simps matchBracket_class Let_def glob_char)
    next
      case (Some a)
      then obtain rs rest where a: "class_ranges True (if negated ps then tl ps else ps) = Some (rs, rest)" by (cases a) auto
      show ?thesis
      proof (cases "str \<noteq> [] \<and> admits (Class (negated ps) rs) (hd str)")
        case True
        then have "matchBracket ps (hd str) = Some rest" using a by (simp add: matchBracket_class)
        then have "MatchGlob rest (tl str) = glob (tokens rest) (tl str)" using 2(3) bracket True by simp
        then show ?thesis using bracket a True by (simp add: MatchGlob.simps tokens.simps matchBracket_class Let_def glob_char)
      next
        case False
        then show ?thesis using bracket a by (auto simp: MatchGlob.simps tokens.simps matchBracket_class Let_def glob_char)
      qed
    qed
  next
    case escape
    show ?thesis
    proof (cases ps)
      case Nil
      then show ?thesis using escape by (simp add: MatchGlob.simps tokens.simps glob_char)
    next
      case (Cons q qs)
      then show ?thesis using escape 2(4) [of q qs] by (auto simp: MatchGlob.simps tokens.simps glob_char)
    qed
  next
    case lit
    then show ?thesis using 2(5) by (auto simp: MatchGlob.simps tokens.simps glob_char)
  qed
qed

text \<open>C15: The glob matcher decides the meaning of the pattern.  Reading a pattern as tokens (a literal character,
  any character, a character class with ranges and negation, a star, or a token that nothing matches where a bracket
  or an escape is left open), the matcher accepts exactly the strings that can be cut into pieces, one per
  token: one admitted character for each token but the star, any string for a star.\<close>

theorem MatchGlob_iff_glob: "MatchGlob pattern str \<longleftrightarrow> glob (tokens pattern) str"
  by (rule MatchGlob_tokens)

text \<open>A pattern without special characters matches itself only; a star matches everything.\<close>

lemma MatchGlob_literal:
  "set p \<inter> {CHR ''*'', CHR ''?'', CHR ''['', CHR 0x5C} = {} \<Longrightarrow> MatchGlob p s \<longleftrightarrow> s = p"
proof (induction p arbitrary: s)
  case (Cons c p)
  then show ?case by (cases s) (auto simp: MatchGlob.simps)
qed (simp add: MatchGlob.simps)

lemma MatchGlob_star [simp]: "MatchGlob ''*'' s"
  by (simp add: MatchGlob.simps)

end
