(* ===== verification/Vole_Keys.thy ===== *)
theory Vole_Keys
  imports Vole_ZSets Vole_Glob
begin

text \<open>
  The operations of \<^verbatim>\<open>internal/store/store.go\<close> on keys of any kind: existence, types, enumeration, deadlines,
  deletion, renaming, copying, flushing and the background sweep.
\<close>

section \<open>Enumeration\<close>

definition Store_Exists :: "key list \<Rightarrow> gotime \<Rightarrow> store \<Rightarrow> nat" where
  "Store_Exists keys now s = length (filter (\<lambda>key. existsRLocked key now s) keys)"

definition Store_Type :: "key \<Rightarrow> gotime \<Rightarrow> store \<Rightarrow> string" where
  "Store_Type key now s =
     (if isExpiredRLocked key now s then ''none''
      else if delayed key now s then ''none''
      else if existsStringRLocked key now s then ''string''
      else if has (hashes s) key then ''hash''
      else if has (lists s) key then ''list''
      else if has (sets s) key then ''set''
      else if has (zsets s) key then ''zset''
      else if has (streams s) key then ''stream''
      else if has (hlls s) key then ''string''
      else if has (jsons s) key then ''json''
      else if has (timeseries s) key then ''timeseries''
      else ''none'')"

text \<open>
  The keys of one map that are visible.  The order in which Go enumerates a map does not matter here: the
  callers sort the result or take its length.
\<close>

definition visible_keys :: "'v gomap \<Rightarrow> gotime \<Rightarrow> store \<Rightarrow> key list" where
  "visible_keys m now s = filter (\<lambda>key. isVisibleRLocked key now s) (sorted_keys m)"

definition allKeysRLocked :: "gotime \<Rightarrow> store \<Rightarrow> key list" where
  "allKeysRLocked now s =
     visible_keys (kv s) now s @ visible_keys (hashes s) now s @ visible_keys (lists s) now s @
     visible_keys (sets s) now s @ visible_keys (zsets s) now s @ visible_keys (streams s) now s @
     visible_keys (hlls s) now s @ visible_keys (jsons s) now s @ visible_keys (timeseries s) now s"

definition keysLocked :: "string \<Rightarrow> gotime \<Rightarrow> store \<Rightarrow> key list" where
  "keysLocked pattern now s =
     (let pattern = (if pattern = [] then ''*'' else pattern);
          ks = allKeysRLocked now s
      in if pattern = ''*'' then ks else filter (matchPattern pattern) ks)"

definition Store_Keys :: "string \<Rightarrow> gotime \<Rightarrow> store \<Rightarrow> key list" where
  "Store_Keys pattern now s = sort (keysLocked pattern now s)"

definition Store_DBSize :: "gotime \<Rightarrow> store \<Rightarrow> nat" where
  "Store_DBSize now s = length (allKeysRLocked now s)"

text \<open>\<open>end := cursor + count\<close> wraps around; slicing with an end below the start panics.\<close>

definition Store_Scan :: "int \<Rightarrow> int \<Rightarrow> string \<Rightarrow> gotime \<Rightarrow> store \<Rightarrow> (int \<times> key list) res" where
  "Store_Scan cursor cnt pattern now s =
     (let ks = sort (allKeysRLocked now s);
          cnt = (if cnt \<le> 0 then 10 else cnt);
          ks = (if pattern = [] \<or> pattern = ''*'' then ks else filter (matchPattern pattern) ks)
      in if cursor < 0 \<or> int (length ks) \<le> cursor then Inr (0, [])
         else let end = wrap64 (cursor + cnt)
              in if int (length ks) \<le> end then Inr (0, drop (nat cursor) ks)
                 else if end < cursor then Inl (Panic ''slice bounds out of range'')
                 else Inr (end, take (nat (end - cursor)) (drop (nat cursor) ks)))"

text \<open>The first key that is not expired, over the maps in the order of the code; \<open>order\<close> enumerates each map.\<close>

definition Store_RandomKey :: "(key list \<Rightarrow> key list) \<Rightarrow> gotime \<Rightarrow> store \<Rightarrow> key option" where
  "Store_RandomKey order now s =
     find (\<lambda>key. \<not> isExpiredRLocked key now s)
       (order (sorted_keys (kv s)) @ order (sorted_keys (hashes s)) @ order (sorted_keys (lists s)) @
        order (sorted_keys (sets s)) @ order (sorted_keys (zsets s)) @ order (sorted_keys (streams s)) @
        order (sorted_keys (hlls s)))"

section \<open>Deletion and deadlines\<close>

fun del_loop :: "key list \<Rightarrow> nat \<Rightarrow> gotime \<Rightarrow> store \<Rightarrow> nat \<times> store" where
  "del_loop [] n now s = (n, s)"
| "del_loop (key # ks) n now s =
     (case expiredKeyLocked key now s of (e, s) \<Rightarrow>
        if e then del_loop ks n now s
        else case existsLocked key now s of (ex, s) \<Rightarrow>
          if ex then del_loop ks (n + 1) now (deleteKeyLocked key now s) else del_loop ks n now s)"

definition Store_Del :: "key list \<Rightarrow> gotime \<Rightarrow> store \<Rightarrow> nat \<times> store" where
  "Store_Del ks now s = del_loop ks 0 now s"

definition Store_Expire :: "key \<Rightarrow> duration \<Rightarrow> gotime \<Rightarrow> store \<Rightarrow> bool \<times> store" where
  "Store_Expire key ttl now s =
     (case expiredKeyLocked key now s of (e, s) \<Rightarrow>
        if e then (False, s)
        else case existsLocked key now s of (ex, s) \<Rightarrow>
          if \<not> ex then (False, s)
          else (True, touchKeyLocked [key] now (s\<lparr>expires := fmupd key (now + ttl) (expires s)\<rparr>)))"

definition Store_ExpireAt :: "key \<Rightarrow> gotime \<Rightarrow> gotime \<Rightarrow> store \<Rightarrow> bool \<times> store" where
  "Store_ExpireAt key expireAt now s =
     (case expiredKeyLocked key now s of (e, s) \<Rightarrow>
        if e then (False, s)
        else case existsLocked key now s of (ex, s) \<Rightarrow>
          if \<not> ex then (False, s)
          else let s = (if IsZero expireAt then s\<lparr>expires := fmdrop key (expires s)\<rparr>
                        else s\<lparr>expires := fmupd key expireAt (expires s)\<rparr>)
               in (True, touchKeyLocked [key] now s))"

text \<open>\<open>s.expires[key]\<close> is the zero time for a key without a deadline.\<close>

definition deadline :: "key \<Rightarrow> store \<Rightarrow> gotime" where
  "deadline key s = (case fmlookup (expires s) key of None \<Rightarrow> zeroTime | Some e \<Rightarrow> e)"

text \<open>\<open>d.Seconds()\<close> is \<open>float64(d / 1e9) + float64(d % 1e9) / 1e9\<close>, and \<open>int64(x)\<close> truncates.\<close>

definition Seconds :: "duration \<Rightarrow> float64" where
  "Seconds d =
     (let sec = go_div d Second; nsec = d - sec * Second
      in f64_add (round64 (of_int sec)) (round64 (of_int nsec / 1000000000)))"

definition int_of_f64 :: "float64 \<Rightarrow> int" where
  "int_of_f64 x = (case x of Fin q \<Rightarrow> (if q < 0 then - \<lfloor>- q\<rfloor> else \<lfloor>q\<rfloor>) | _ \<Rightarrow> - (2 ^ 63))"

definition Store_TTL :: "key \<Rightarrow> gotime \<Rightarrow> store \<Rightarrow> int" where
  "Store_TTL key now s =
     (if isExpiredRLocked key now s \<or> \<not> existsRLocked key now s then -2
      else let expireAt = deadline key s
           in if IsZero expireAt then -1 else int_of_f64 (Seconds (time_Sub expireAt now)))"

definition Store_PTTL :: "key \<Rightarrow> gotime \<Rightarrow> store \<Rightarrow> int" where
  "Store_PTTL key now s =
     (if isExpiredRLocked key now s \<or> \<not> existsRLocked key now s then -2
      else let expireAt = deadline key s
           in if IsZero expireAt then -1 else Milliseconds (time_Sub expireAt now))"

definition Store_ExpireTime :: "key \<Rightarrow> gotime \<Rightarrow> store \<Rightarrow> int" where
  "Store_ExpireTime key now s =
     (if isExpiredRLocked key now s \<or> \<not> existsRLocked key now s then -2
      else let exp = deadline key s in if IsZero exp then -1 else Unix exp)"

definition Store_PExpireTime :: "key \<Rightarrow> gotime \<Rightarrow> store \<Rightarrow> int" where
  "Store_PExpireTime key now s =
     (if isExpiredRLocked key now s \<or> \<not> existsRLocked key now s then -2
      else let exp = deadline key s in if IsZero exp then -1 else UnixMilli exp)"

definition Store_Persist :: "key \<Rightarrow> gotime \<Rightarrow> store \<Rightarrow> bool \<times> store" where
  "Store_Persist key now s =
     (case expiredKeyLocked key now s of (e, s) \<Rightarrow>
        if e then (False, s)
        else case existsLocked key now s of (ex, s) \<Rightarrow>
          if \<not> ex then (False, s)
          else let had = has (expires s) key;
                   s = s\<lparr>expires := fmdrop key (expires s)\<rparr>
               in (had, if had then touchKeyLocked [key] now s else s))"

section \<open>Renaming, copying and flushing\<close>

text \<open>\<open>if v, ok := m[key]; ok { m[newkey] = v; delete(m, key) }\<close>\<close>

definition move_entry :: "key \<Rightarrow> key \<Rightarrow> 'v gomap \<Rightarrow> 'v gomap" where
  "move_entry key newkey m = (case fmlookup m key of None \<Rightarrow> m | Some v \<Rightarrow> fmdrop key (fmupd newkey v m))"

definition move_all :: "key \<Rightarrow> key \<Rightarrow> store \<Rightarrow> store" where
  "move_all key newkey s =
     s\<lparr>kv := move_entry key newkey (kv s), hashes := move_entry key newkey (hashes s),
       lists := move_entry key newkey (lists s), sets := move_entry key newkey (sets s),
       zsets := move_entry key newkey (zsets s), streams := move_entry key newkey (streams s),
       hlls := move_entry key newkey (hlls s), groups := move_entry key newkey (groups s),
       lastSeq := move_entry key newkey (lastSeq s), expires := move_entry key newkey (expires s)\<rparr>"

definition Store_Rename :: "key \<Rightarrow> key \<Rightarrow> gotime \<Rightarrow> store \<Rightarrow> unit res \<times> store" where
  "Store_Rename key newkey now s =
     (case expiredKeyLocked key now s of (e, s) \<Rightarrow>
        if e then (Inl (Err ''no such key''), s)
        else case existsLocked key now s of (ex, s) \<Rightarrow>
          if \<not> ex then (Inl (Err ''no such key''), s)
          else (Inr (), touchKeyLocked [key, newkey] now (move_all key newkey (deleteKeyLocked newkey now s))))"

text \<open>\<open>if v, ok := m[src]; ok { m[dst] = clone(v) }\<close>\<close>

definition copy_entry :: "('v \<Rightarrow> 'v) \<Rightarrow> key \<Rightarrow> key \<Rightarrow> 'v gomap \<Rightarrow> 'v gomap" where
  "copy_entry clone src dst m = (case fmlookup m src of None \<Rightarrow> m | Some v \<Rightarrow> fmupd dst (clone v) m)"

definition copy_deque :: "deque \<Rightarrow> deque" where
  "copy_deque d = Deque_PushBack (Deque_ToSlice d) Deque_empty"

definition copy_zset :: "SortedSet \<Rightarrow> SortedSet" where
  "copy_zset z = snd (add_all SortedSet_Add (SortedSet_Members z) NewSortedSet)"

definition copy_all :: "key \<Rightarrow> key \<Rightarrow> store \<Rightarrow> store" where
  "copy_all src dst s =
     s\<lparr>kv := copy_entry id src dst (kv s), hashes := copy_entry id src dst (hashes s),
       lists := copy_entry copy_deque src dst (lists s), sets := copy_entry id src dst (sets s),
       zsets := copy_entry copy_zset src dst (zsets s), streams := copy_entry id src dst (streams s),
       hlls := copy_entry id src dst (hlls s), expires := copy_entry id src dst (expires s),
       lastSeq := copy_entry id src dst (lastSeq s)\<rparr>"

definition Store_Copy :: "key \<Rightarrow> key \<Rightarrow> bool \<Rightarrow> gotime \<Rightarrow> store \<Rightarrow> bool \<times> store" where
  "Store_Copy src dst replace now s =
     (case expiredKeyLocked src now s of (_, s) \<Rightarrow>
      case existsLocked src now s of (ex, s) \<Rightarrow>
        if \<not> ex then (False, s)
        else case existsLocked dst now s of (exDst, s) \<Rightarrow>
          if exDst \<and> \<not> replace then (False, s)
          else case existsLocked dst now s of (exDst, s) \<Rightarrow>
            let s = (if exDst then deleteKeyLocked dst now s else s)
            in (True, touchKeyLocked [dst] now (copy_all src dst s)))"

definition Store_FlushDB :: "store \<Rightarrow> store" where
  "Store_FlushDB s =
     s\<lparr>kv := fmempty, hashes := fmempty, lists := fmempty, sets := fmempty, zsets := fmempty, streams := fmempty,
       hlls := fmempty, jsons := fmempty, groups := fmempty, expires := fmempty, lastSeq := fmempty,
       waits := fmempty, listWaits := fmempty, version := version s + 1, keyVersion := fmempty,
       accessTime := fmempty, memEstimate := 0, opsSinceEstimate := 0, rateLimiters := fmempty,
       notBefore := fmempty, tags := fmempty, timeseries := fmempty, queues := fmempty, queueWaits := fmempty\<rparr>"

section \<open>The background sweep\<close>

text \<open>
  \<open>sampleExpired\<close>: the first hundred deadlines in the order Go enumerates them, then stale rate limiters, past
  delays and tags of keys that are gone.  Each loop deletes at most the entry it is looking at, except the
  last, whose existence test may delete an expired key.
\<close>

definition sweep_key :: "gotime \<Rightarrow> key \<Rightarrow> store \<Rightarrow> store" where
  "sweep_key now key s =
     (case fmlookup (expires s) key of
        None \<Rightarrow> s
      | Some expireAt \<Rightarrow>
          if \<not> IsZero expireAt \<and> expireAt < now then deleteKeyLocked key now (send_event ''expired'' key s) else s)"

definition stale_limiter :: "gotime \<Rightarrow> RateLimiter \<Rightarrow> bool" where
  "stale_limiter now rl \<longleftrightarrow>
     Requests rl = [] \<or> wrap64 (Window rl * 2) < time_Sub now (last (Requests rl))"

definition sweep_tag :: "gotime \<Rightarrow> key \<Rightarrow> store \<Rightarrow> store" where
  "sweep_tag now key s =
     (if has (tags s) key
      then case existsLocked key now s of (ex, s) \<Rightarrow> if ex then s else s\<lparr>tags := fmdrop key (tags s)\<rparr>
      else s)"

definition Store_sampleExpired :: "(key list \<Rightarrow> key list) \<Rightarrow> gotime \<Rightarrow> store \<Rightarrow> store" where
  "Store_sampleExpired order now s =
     (let s = fold (sweep_key now) (take 100 (order (sorted_keys (expires s)))) s;
          s = s\<lparr>rateLimiters := fmfilter (\<lambda>key. \<not> stale_limiter now (the (fmlookup (rateLimiters s) key))) (rateLimiters s)\<rparr>;
          s = s\<lparr>notBefore := fmfilter (\<lambda>key. \<not> the (fmlookup (notBefore s) key) < now) (notBefore s)\<rparr>
      in fold (sweep_tag now) (sorted_keys (tags s)) s)"

definition purgeExpiredLocked :: "gotime \<Rightarrow> store \<Rightarrow> store" where
  "purgeExpiredLocked now s = fold (\<lambda>key s. snd (expiredKeyLocked key now s)) (sorted_keys (expires s)) s"

definition Store_Stats :: "gotime \<Rightarrow> store \<Rightarrow> (nat \<times> nat) \<times> store" where
  "Store_Stats now s = (let s = purgeExpiredLocked now s in ((map_len (kv s), map_len (streams s)), s))"

section \<open>Which keys there are\<close>

text \<open>No key has two kinds, JSON documents and time series included.\<close>

definition one_kind :: "store \<Rightarrow> bool" where
  "one_kind s \<longleftrightarrow> (\<forall>k x y. holds s k x \<longrightarrow> holds s k y \<longrightarrow> x = y)"

fun visible_of :: "gotime \<Rightarrow> store \<Rightarrow> kind \<Rightarrow> key list" where
  "visible_of now s KString = visible_keys (kv s) now s"
| "visible_of now s KHash = visible_keys (hashes s) now s"
| "visible_of now s KList = visible_keys (lists s) now s"
| "visible_of now s KSet = visible_keys (sets s) now s"
| "visible_of now s KZSet = visible_keys (zsets s) now s"
| "visible_of now s KStream = visible_keys (streams s) now s"
| "visible_of now s KHll = visible_keys (hlls s) now s"
| "visible_of now s KJson = visible_keys (jsons s) now s"
| "visible_of now s KTimeSeries = visible_keys (timeseries s) now s"

lemma visible_of: "distinct (visible_of now s x)" "set (visible_of now s x) = {k. isVisibleRLocked k now s \<and> holds s k x}"
  by (cases x; auto simp: visible_keys_def fmlookup_dom'_iff)+

definition all_kinds :: "kind list" where
  "all_kinds = [KString, KHash, KList, KSet, KZSet, KStream, KHll, KJson, KTimeSeries]"

lemma allKeys_kinds: "allKeysRLocked now s = concat (map (visible_of now s) all_kinds)"
  by (simp add: allKeysRLocked_def all_kinds_def)

lemma set_allKeys: "set (allKeysRLocked now s) = {k. existsRLocked k now s}"
  unfolding allKeys_kinds existsRLocked_def isVisibleRLocked_def all_kinds_def [symmetric] anyOf_def list_ex_iff
  by (auto simp: visible_of isVisibleRLocked_def)

lemma distinct_concat_map:
  assumes "\<And>x. distinct (f x)" "\<And>x y k. k \<in> set (f x) \<Longrightarrow> k \<in> set (f y) \<Longrightarrow> x = y"
  shows "distinct xs \<Longrightarrow> distinct (concat (map f xs))"
proof (induction xs)
  case (Cons x xs)
  have "set (f x) \<inter> set (concat (map f xs)) = {}" using Cons.prems assms(2) by auto
  with Cons assms(1) show ?case by simp
qed simp

lemma distinct_allKeys: "one_kind s \<Longrightarrow> distinct (allKeysRLocked now s)"
  unfolding allKeys_kinds
  by (rule distinct_concat_map) (auto simp: visible_of one_kind_def all_kinds_def)

definition matching :: "string \<Rightarrow> key \<Rightarrow> bool" where
  "matching pattern k \<longleftrightarrow> pattern = [] \<or> pattern = ''*'' \<or> MatchGlob pattern k"

lemma Keys_sorted: "sorted (Store_Keys pattern now s)"
  by (simp add: Store_Keys_def)

lemma set_Keys: "set (Store_Keys pattern now s) = {k. existsRLocked k now s \<and> matching pattern k}"
  by (auto simp: Store_Keys_def keysLocked_def Let_def set_allKeys matching_def matchPattern_def)

lemma distinct_Keys: "one_kind s \<Longrightarrow> distinct (Store_Keys pattern now s)"
  by (simp add: Store_Keys_def keysLocked_def Let_def distinct_allKeys)

lemma keysLocked_filter: "keysLocked pattern now s = filter (matching pattern) (allKeysRLocked now s)"
  by (auto simp: keysLocked_def Let_def matching_def [abs_def] matchPattern_def [abs_def] filter_id_conv)

section \<open>Scanning\<close>

lemma Scan_eq:
  "Store_Scan cursor cnt pattern now s =
     (let ks = Store_Keys pattern now s; cnt = (if cnt \<le> 0 then 10 else cnt)
      in if cursor < 0 \<or> int (length ks) \<le> cursor then Inr (0, [])
         else if int (length ks) \<le> wrap64 (cursor + cnt) then Inr (0, drop (nat cursor) ks)
         else if wrap64 (cursor + cnt) < cursor then Inl (Panic ''slice bounds out of range'')
         else Inr (wrap64 (cursor + cnt), take (nat (wrap64 (cursor + cnt) - cursor)) (drop (nat cursor) ks)))"
proof -
  have "Store_Keys pattern now s =
      (if pattern = [] \<or> pattern = ''*'' then sort (allKeysRLocked now s)
       else filter (matchPattern pattern) (sort (allKeysRLocked now s)))"
    by (auto simp: Store_Keys_def keysLocked_def Let_def filter_sort)
  then show ?thesis unfolding Store_Scan_def Let_def by presburger
qed

text \<open>A client that follows the cursors until it gets 0; the fuel bounds the number of calls.\<close>

fun scan_from :: "nat \<Rightarrow> int \<Rightarrow> int \<Rightarrow> string \<Rightarrow> gotime \<Rightarrow> store \<Rightarrow> key list option" where
  "scan_from 0 cursor cnt pattern now s = None"
| "scan_from (Suc fuel) cursor cnt pattern now s =
     (case Store_Scan cursor cnt pattern now s of
        Inl _ \<Rightarrow> None
      | Inr (next, page) \<Rightarrow>
          if next = 0 then Some page
          else map_option (\<lambda>ks. page @ ks) (scan_from fuel next cnt pattern now s))"

lemma scan_from_drop:
  assumes "int (length (Store_Keys pattern now s)) + max 10 cnt < 2 ^ 63" "length (Store_Keys pattern now s) < i + fuel"
    "i \<le> length (Store_Keys pattern now s)"
  shows "scan_from fuel (int i) cnt pattern now s = Some (drop i (Store_Keys pattern now s))"
  using assms(2,3)
proof (induction fuel arbitrary: i)
  case (Suc fuel)
  define ks where "ks = Store_Keys pattern now s"
  define c where "c = (if cnt \<le> 0 then 10 else cnt)"
  have c: "0 < c" "int (length ks) + c < 2 ^ 63" using assms(1) by (auto simp: c_def ks_def)
  have w: "i \<le> length ks \<Longrightarrow> wrap64 (int i + c) = int (i + nat c)"
    using c by (subst wrap64_id) (auto simp: int64_def)
  show ?case
  proof (cases "i + nat c < length ks")
    case True
    have "Store_Scan (int i) cnt pattern now s = Inr (int (i + nat c), take (nat c) (drop i ks))"
      unfolding Scan_eq Let_def ks_def [symmetric] c_def [symmetric] w [OF Suc.prems(2) [folded ks_def]] using True c by simp
    moreover have "scan_from fuel (int (i + nat c)) cnt pattern now s = Some (drop (i + nat c) ks)"
      unfolding ks_def by (rule Suc.IH) (use Suc.prems True c in \<open>auto simp: ks_def\<close>)
    moreover have "drop (i + nat c) ks = drop (nat c) (drop i ks)" by (simp add: add.commute)
    ultimately show ?thesis
      using c by (simp add: ks_def [symmetric] del: drop_drop of_nat_add)
  next
    case False
    have "Store_Scan (int i) cnt pattern now s = Inr (0, drop i ks)"
      unfolding Scan_eq Let_def ks_def [symmetric] c_def [symmetric] w [OF Suc.prems(2) [folded ks_def]] using False c by auto
    then show ?thesis by (simp add: ks_def)
  qed
qed simp

text \<open>C14: \<open>SCAN\<close> is complete and ends.  As long as the store does not change, a client that starts with
  cursor 0 and follows the cursors gets the result of \<open>KEYS\<close>, each page in order, after finitely many calls
  (at most one more than there are keys), and \<open>KEYS\<close> lists exactly the existing keys that match the pattern, in
  ascending order.\<close>

theorem scan_collects_keys:
  assumes "int (length (Store_Keys pattern now s)) + max 10 cnt < 2 ^ 63" "length (Store_Keys pattern now s) < fuel"
  shows "scan_from fuel 0 cnt pattern now s = Some (Store_Keys pattern now s) \<and>
     set (Store_Keys pattern now s) = {k. existsRLocked k now s \<and> matching pattern k} \<and>
     sorted (Store_Keys pattern now s)"
  using scan_from_drop [OF assms(1), of 0 fuel] assms(2) by (simp_all add: set_Keys Keys_sorted)

theorem scan_collects_keys_witness:
  "scan_from 3 0 1 ''*'' 5 (Store_Set ''b'' ''2'' 0 5 (Store_Set ''a'' ''1'' 0 5 Store_New)) = Some [''a'', ''b'']"
proof -
  have ks: "Store_Keys ''*'' 5 (Store_Set ''b'' ''2'' 0 5 (Store_Set ''a'' ''1'' 0 5 Store_New)) = [''a'', ''b'']"
    by code_simp
  show ?thesis
    using scan_collects_keys [of "''*''" 5 "Store_Set ''b'' ''2'' 0 5 (Store_Set ''a'' ''1'' 0 5 Store_New)" 1 3]
    unfolding ks by simp
qed

text \<open>A page size near \<open>2^63\<close> overflows the end of the page: from a cursor inside the list of keys such
  a call panics, which ends the server.\<close>

theorem scan_overflow_panics:
  assumes "0 < cursor" "cursor < int (length (Store_Keys pattern now s))" "cursor < 2 ^ 63"
  shows "Store_Scan cursor maxInt64 pattern now s = Inl (Panic ''slice bounds out of range'')"
proof -
  have "wrap64 (cursor + maxInt64) = wrap64 (cursor - 1 - 2 ^ 63)"
    by (simp add: wrap64_def maxInt64_def mod_eq_dvd_iff)
  also have "\<dots> = cursor - 1 - 2 ^ 63" using assms by (intro wrap64_id) (simp add: int64_def)
  finally have "wrap64 (cursor + maxInt64) = cursor - 1 - 2 ^ 63" .
  with assms show ?thesis by (simp add: Scan_eq Let_def maxInt64_def)
qed

theorem scan_overflow_panics_witness:
  "Store_Scan 1 maxInt64 ''*'' 5 (Store_Set ''b'' ''2'' 0 5 (Store_Set ''a'' ''1'' 0 5 Store_New)) =
     Inl (Panic ''slice bounds out of range'')"
proof -
  have ks: "Store_Keys ''*'' 5 (Store_Set ''b'' ''2'' 0 5 (Store_Set ''a'' ''1'' 0 5 Store_New)) = [''a'', ''b'']"
    by code_simp
  show ?thesis
    by (rule scan_overflow_panics) (simp_all add: ks)
qed

section \<open>Deleting\<close>

lemma delayed_delete: "delayed j now (deleteKeyLocked k t s) = (j \<noteq> k \<and> delayed j now s)"
  by (simp add: delayed_def)

lemma live_delete: "live now (deleteKeyLocked k t s) j = (if j = k then no_column else live now s j)"
  by (simp add: live_def isExpired_column column_delete)

lemma exists_live: "existsRLocked k now s \<longleftrightarrow> \<not> delayed k now s \<and> (\<exists>x. col_holds (live now s k) x)"
proof -
  have all: "x \<in> set (KString # other_kinds)" for x by (cases x) (simp_all add: other_kinds_def)
  have "(\<exists>x. col_holds c x) \<longleftrightarrow> list_ex (col_holds c) (KString # other_kinds)" for c
    unfolding list_ex_iff using all by blast
  then have "(\<exists>x. col_holds c x) \<longleftrightarrow> col_holds c KString \<or> list_ex (col_holds c) other_kinds" for c by simp
  then show ?thesis by (simp add: exists_column)
qed

lemma exists_delete: "existsRLocked j now (deleteKeyLocked k t s) = (j \<noteq> k \<and> existsRLocked j now s)"
  by (auto simp: exists_live live_delete delayed_delete)

lemma del_loop_Cons:
  "del_loop (k # ks) n now s =
     (if existsRLocked k now s then del_loop ks (Suc n) now (deleteKeyLocked k now s) else del_loop ks n now (purge k now s))"
  using existsRLocked_fresh [of k now s] by (auto simp: locked_eqs purge_id)

declare del_loop.simps(2) [simp del]

lemma del_loop_spec:
  assumes "del_loop ks n now s = (m, t)"
  shows "m = n + card {k \<in> set ks. existsRLocked k now s}" "tracked (set ks) s t"
    "\<And>k. live now t k = (if k \<in> set ks \<and> existsRLocked k now s then no_column else live now s k)"
  using assms
proof (induction ks arbitrary: n s)
  case (Cons k ks)
  { case 1 with Cons.IH(1) show ?case
    proof (cases "existsRLocked k now s")
      case True
      with 1 have "m = Suc n + card {j \<in> set ks. j \<noteq> k \<and> existsRLocked j now s}"
        using Cons.IH(1) [of "Suc n" "deleteKeyLocked k now s"] by (simp add: del_loop_Cons exists_delete)
      moreover have "{j \<in> set (k # ks). existsRLocked j now s} = insert k {j \<in> set ks. j \<noteq> k \<and> existsRLocked j now s}"
        using True by auto
      ultimately show ?thesis by simp
    next
      case False
      then have "{j \<in> set (k # ks). existsRLocked j now s} = {j \<in> set ks. existsRLocked j now s}" by auto
      with False 1 Cons.IH(1) [of n "purge k now s"] show ?thesis by (simp add: del_loop_Cons exists_purge)
    qed
  next
    case 2 show ?case
    proof (cases "existsRLocked k now s")
      case True
      with 2 Cons.IH(2) [of "Suc n" "deleteKeyLocked k now s"] have "tracked (set (k # ks)) (deleteKeyLocked k now s) t"
        by (auto simp: del_loop_Cons elim: tracked_mono)
      then show ?thesis by (rule tracked_trans [OF tracked_delete, rotated]) simp
    next
      case False
      with 2 Cons.IH(2) [of n "purge k now s"] have "tracked (set (k # ks)) (purge k now s) t"
        by (auto simp: del_loop_Cons elim: tracked_mono)
      then show ?thesis by (rule tracked_trans [OF tracked_purge, rotated]) simp
    qed
  next
    case (3 j) then show ?case
      using Cons.IH(3) [of "Suc n" "deleteKeyLocked k now s" j] Cons.IH(3) [of n "purge k now s" j]
      by (auto simp: del_loop_Cons exists_delete exists_purge live_delete split: if_splits)
  }
qed simp_all

text \<open>C34: \<open>DEL\<close> answers the number of different existing keys among its arguments, empties exactly these, and
  leaves every other key as it was.\<close>

theorem del_removes:
  assumes "Store_Del ks now s = (n, t)"
  shows "n = card {k \<in> set ks. existsRLocked k now s} \<and>
     live now t k = (if k \<in> set ks \<and> existsRLocked k now s then no_column else live now s k) \<and>
     tracked (set ks) s t"
  using del_loop_spec [OF assms [unfolded Store_Del_def]] by simp_all

theorem del_removes_witness:
  "card {k \<in> set [''a'', ''b'', ''a'']. existsRLocked k 5 (Store_Set ''a'' ''1'' 0 5 Store_New)} = 1 \<and>
   live 5 (snd (Store_Del [''a'', ''b'', ''a''] 5 (Store_Set ''a'' ''1'' 0 5 Store_New))) ''a'' = no_column"
proof -
  have "Store_Del [''a'', ''b'', ''a''] 5 (Store_Set ''a'' ''1'' 0 5 Store_New) =
      (1, snd (Store_Del [''a'', ''b'', ''a''] 5 (Store_Set ''a'' ''1'' 0 5 Store_New)))"
    by code_simp
  moreover have "existsRLocked ''a'' 5 (Store_Set ''a'' ''1'' 0 5 Store_New)" by code_simp
  ultimately show ?thesis
    using del_removes [of "[''a'', ''b'', ''a'']" 5 "Store_Set ''a'' ''1'' 0 5 Store_New" 1 _ "''a''"] by simp
qed

section \<open>Deadlines\<close>

lemma Expire_eq:
  "Store_Expire key ttl now s =
     (if existsRLocked key now s then (True, touchKeyLocked [key] now (s\<lparr>expires := fmupd key (now + ttl) (expires s)\<rparr>))
      else (False, purge key now s))"
  using existsRLocked_fresh [of key now s] by (auto simp: Store_Expire_def locked_eqs purge_id)

lemma ExpireAt_eq:
  "Store_ExpireAt key e now s =
     (if existsRLocked key now s
      then (True, touchKeyLocked [key] now (s\<lparr>expires := if IsZero e then fmdrop key (expires s) else fmupd key e (expires s)\<rparr>))
      else (False, purge key now s))"
  using existsRLocked_fresh [of key now s] by (auto simp: Store_ExpireAt_def locked_eqs purge_id Let_def)

lemma Persist_eq:
  "Store_Persist key now s =
     (if \<not> existsRLocked key now s then (False, purge key now s)
      else if has (expires s) key then (True, touchKeyLocked [key] now (s\<lparr>expires := fmdrop key (expires s)\<rparr>))
      else (False, s))"
  using existsRLocked_fresh [of key now s] by (auto simp: Store_Persist_def locked_eqs purge_id Let_def)

lemma deadline_steps:
  "tracked {key} s (snd (Store_Expire key ttl now s))"
  "tracked {key} s (snd (Store_ExpireAt key e now s))"
  "tracked {key} s (snd (Store_Persist key now s))"
  by (auto simp: Expire_eq ExpireAt_eq Persist_eq intro!: tracked_touch tracked_purge)

lemma deadline_slots:
  assumes "store_wf s"
  shows "slot_ok (column (snd (Store_Expire key ttl now s)) key)"
    "slot_ok (column (snd (Store_ExpireAt key e now s)) key)"
    "slot_ok (column (snd (Store_Persist key now s)) key)"
  using assms slot_ok_live [OF assms, of now key]
  by (auto simp: Expire_eq ExpireAt_eq Persist_eq column_purge store_wf_def)

lemma deadline_column: "deadline key s = (case cExp (column s key) of None \<Rightarrow> zeroTime | Some e \<Rightarrow> e)"
  by (simp add: deadline_def column_lookup)

lemma exists_later:
  assumes "existsRLocked k now s" "now \<le> u" "column t k = (column s k)\<lparr>cExp := e\<rparr>" "notBefore t = notBefore s"
    and "\<And>d. e = Some d \<Longrightarrow> u < d \<or> IsZero d"
  shows "existsRLocked k u t"
proof -
  have "\<not> delayed k now s" using assms(1) by (simp add: exists_live)
  then have "\<not> delayed k u t" using assms(2,4) by (auto simp: delayed_def split: option.splits)
  moreover have "\<not> isExpiredRLocked k u t" using assms(3,5) by (cases e) (auto simp: isExpired_column)
  moreover have "\<exists>x. col_holds (column s k) x"
    using assms(1) existsRLocked_fresh [OF assms(1)] by (auto simp: exists_live live_fresh)
  ultimately show ?thesis using assms(3) by (simp add: exists_live live_fresh)
qed

text \<open>C35: A deadline is kept to the nanosecond.  After \<open>EXPIRE\<close> on an existing key the key exists, and \<open>PTTL\<close>
  answers the remaining time in milliseconds, at every moment before \<open>now + ttl\<close>; from that moment on the key does
  not exist and \<open>PTTL\<close> answers \<open>-2\<close>, with no further step of the program.  In particular a \<open>ttl\<close> that is not
  positive removes the key from view at once.\<close>

theorem expire_until_deadline:
  assumes "existsRLocked key now s" "\<not> IsZero (now + ttl)" "ttl \<le> maxDuration" "now \<le> u"
  shows "fst (Store_Expire key ttl now s) \<and>
     (let t = snd (Store_Expire key ttl now s) in
        if u < now + ttl
        then existsRLocked key u t \<and> Store_PTTL key u t = (now + ttl - u) div 1000000
        else \<not> existsRLocked key u t \<and> Store_PTTL key u t = -2)"
proof -
  define t where "t = snd (Store_Expire key ttl now s)"
  have t: "column t key = (column s key)\<lparr>cExp := Some (now + ttl)\<rparr>" "notBefore t = notBefore s"
    using assms(1) by (simp_all add: t_def Expire_eq)
  have fst: "fst (Store_Expire key ttl now s)" using assms(1) by (simp add: Expire_eq)
  show ?thesis
  proof (cases "u < now + ttl")
    case True
    have ex: "existsRLocked key u t" by (rule exists_later [OF assms(1,4) t]) (use True in auto)
    have "time_Sub (now + ttl) u = now + ttl - u"
      using True assms(3,4) by (auto simp: time_Sub_def maxDuration_def minDuration_def)
    then show ?thesis
      using True ex existsRLocked_fresh [OF ex] t assms(2) fst
      by (simp add: t_def [symmetric] Let_def Store_PTTL_def deadline_column Milliseconds_def)
  next
    case False
    then have "isExpiredRLocked key u t" using t assms(2) by (simp add: isExpired_column)
    then show ?thesis using False fst by (simp add: t_def [symmetric] Let_def Store_PTTL_def existsRLocked_def)
  qed
qed

theorem expire_until_deadline_witness:
  "Store_PTTL ''a'' 1000000 (snd (Store_Expire ''a'' 5000000 5 (Store_Set ''a'' ''1'' 0 5 Store_New))) = 4"
proof -
  have "existsRLocked ''a'' 5 (Store_Set ''a'' ''1'' 0 5 Store_New)" by code_simp
  from expire_until_deadline [OF this, of 5000000 1000000] show ?thesis
    by (simp add: IsZero_def zeroTime_def maxDuration_def Let_def)
qed

text \<open>C36: \<open>PERSIST\<close> undoes \<open>EXPIRE\<close>: it reports that there was a deadline, the key exists at every later moment, and
  \<open>PTTL\<close>, \<open>EXPIRETIME\<close> and \<open>PEXPIRETIME\<close> answer \<open>-1\<close>.\<close>

theorem persist_undoes_expire:
  assumes "existsRLocked key now s" "0 < ttl" "\<not> IsZero (now + ttl)" "now \<le> u" "u < now + ttl" "u \<le> v"
  shows "let (had, t) = Store_Persist key u (snd (Store_Expire key ttl now s)) in
     had \<and> existsRLocked key v t \<and> Store_PTTL key v t = -1 \<and> Store_ExpireTime key v t = -1 \<and> Store_PExpireTime key v t = -1 \<and>
     column t key = (column s key)\<lparr>cExp := None\<rparr>"
proof -
  define r where "r = snd (Store_Expire key ttl now s)"
  have r: "column r key = (column s key)\<lparr>cExp := Some (now + ttl)\<rparr>" "notBefore r = notBefore s"
    using assms(1) by (simp_all add: r_def Expire_eq)
  have ex: "existsRLocked key u r" by (rule exists_later [OF assms(1,4) r]) (use assms in auto)
  have "has (expires r) key" by (simp add: column_lookup r(1))
  with ex have p: "Store_Persist key u r = (True, touchKeyLocked [key] u (r\<lparr>expires := fmdrop key (expires r)\<rparr>))" (is "_ = (True, ?t)")
    by (simp add: Persist_eq)
  have t: "column ?t key = (column s key)\<lparr>cExp := None\<rparr>" by (simp add: r)
  have "column ?t key = (column r key)\<lparr>cExp := None\<rparr>" by simp
  then have "existsRLocked key v ?t" by (rule exists_later [OF ex assms(6)]) simp_all
  moreover have "deadline key ?t = zeroTime" by (simp add: deadline_column t)
  ultimately show ?thesis
    using p t existsRLocked_fresh [of key v ?t]
    by (simp add: r_def [symmetric] Store_PTTL_def Store_ExpireTime_def Store_PExpireTime_def IsZero_def)
qed

theorem persist_undoes_expire_witness:
  "Store_PTTL ''a'' 100 (snd (Store_Persist ''a'' 7 (snd (Store_Expire ''a'' 20 5 (Store_Set ''a'' ''1'' 0 5 Store_New))))) = -1"
proof -
  have "existsRLocked ''a'' 5 (Store_Set ''a'' ''1'' 0 5 Store_New)" by code_simp
  from persist_undoes_expire [OF this, of 20 7 100] show ?thesis
    by (simp add: IsZero_def zeroTime_def split: prod.splits)
qed

section \<open>Renaming\<close>

lemma move_entry_lookup:
  "key \<noteq> newkey \<Longrightarrow> fmlookup m newkey = None \<Longrightarrow>
   fmlookup (move_entry key newkey m) j = (if j = newkey then fmlookup m key else if j = key then None else fmlookup m j)"
  by (auto simp: move_entry_def split: option.split)

lemma move_entry_same: "fmlookup m key = None \<Longrightarrow> move_entry key key m = m"
  by (simp add: move_entry_def)

lemma column_move:
  assumes "key \<noteq> newkey" "column s newkey = no_column"
  shows "column (move_all key newkey s) j =
    (if j = newkey then (column s key)\<lparr>cJson := None, cTS := None\<rparr>
     else if j = key then no_column\<lparr>cJson := cJson (column s key), cTS := cTS (column s key)\<rparr>
     else column s j)"
proof -
  have "fmlookup (kv s) newkey = None" "fmlookup (hashes s) newkey = None" "fmlookup (lists s) newkey = None"
    "fmlookup (sets s) newkey = None" "fmlookup (zsets s) newkey = None" "fmlookup (streams s) newkey = None"
    "fmlookup (hlls s) newkey = None" "fmlookup (expires s) newkey = None"
    "fmlookup (jsons s) newkey = None" "fmlookup (timeseries s) newkey = None"
    using assms(2) by (simp_all add: column_def no_column_def)
  with assms(1) show ?thesis by (simp add: move_all_def column_def no_column_def move_entry_lookup)
qed

lemma Rename_eq:
  "Store_Rename key newkey now s =
     (if existsRLocked key now s
      then (Inr (), touchKeyLocked [key, newkey] now (move_all key newkey (deleteKeyLocked newkey now s)))
      else (Inl (Err ''no such key''), purge key now s))"
  using existsRLocked_fresh [of key now s] by (auto simp: Store_Rename_def locked_eqs purge_id)

lemma Rename_column:
  assumes "existsRLocked key now s" "key \<noteq> newkey"
  shows "column (snd (Store_Rename key newkey now s)) j =
    (if j = newkey then (column s key)\<lparr>cJson := None, cTS := None\<rparr>
     else if j = key then no_column\<lparr>cJson := cJson (column s key), cTS := cTS (column s key)\<rparr>
     else column s j)"
  using assms column_move [OF assms(2), of "deleteKeyLocked newkey now s" j]
  by (simp add: Rename_eq column_delete)

lemma Rename_same_column:
  assumes "existsRLocked key now s"
  shows "column (snd (Store_Rename key key now s)) j = (if j = key then no_column else column s j)"
proof -
  define t where "t = deleteKeyLocked key now s"
  have t: "column t key = no_column" by (simp add: t_def column_delete)
  then have "fmlookup (kv t) key = None" "fmlookup (hashes t) key = None" "fmlookup (lists t) key = None"
    "fmlookup (sets t) key = None" "fmlookup (zsets t) key = None" "fmlookup (streams t) key = None"
    "fmlookup (hlls t) key = None" "fmlookup (expires t) key = None"
    by (simp_all add: column_def no_column_def)
  then have "column (move_all key key t) j = column t j"
    by (simp add: move_all_def column_def move_entry_same)
  then show ?thesis using assms by (simp add: Rename_eq t_def [symmetric]) (simp add: t_def column_delete)
qed

lemma tracked_move:
  assumes "\<And>j. j \<noteq> a \<Longrightarrow> j \<noteq> b \<Longrightarrow> column u j = column t j" "keyVersion u = keyVersion t" "version u = version t"
  shows "tracked {a, b} t (touchKeyLocked [a, b] now u)"
  by (rule tracked_touch) (use assms in auto)

lemma move_all_other [simp]:
  "keyVersion (move_all key newkey s) = keyVersion s" "version (move_all key newkey s) = version s"
  "notBefore (move_all key newkey s) = notBefore s"
  by (simp_all add: move_all_def)

lemma Rename_tracked: "tracked {key, newkey} s (snd (Store_Rename key newkey now s))"
proof (cases "existsRLocked key now s")
  case True
  let ?d = "deleteKeyLocked newkey now s"
  have "column (move_all key newkey ?d) j = column ?d j" if "j \<noteq> key" "j \<noteq> newkey" for j
    using that Rename_column [OF True, of newkey j] Rename_same_column [OF True, of j] True
    by (cases "key = newkey") (simp_all add: Rename_eq column_delete)
  then have "tracked {key, newkey} ?d (touchKeyLocked [key, newkey] now (move_all key newkey ?d))"
    by (rule tracked_move) simp_all
  then have "tracked {key, newkey} s (touchKeyLocked [key, newkey] now (move_all key newkey ?d))"
    by (rule tracked_trans [OF tracked_delete, rotated]) simp
  then show ?thesis using True by (simp add: Rename_eq)
next
  case False
  then show ?thesis by (auto simp: Rename_eq intro!: tracked_purge)
qed

lemma slot_ok_left: "slot_ok c \<Longrightarrow> slot_ok (no_column\<lparr>cJson := j, cTS := cTS c\<rparr>)"
  by (simp add: slot_ok_def one_core_def core_kinds_def)

lemma Rename_wf:
  assumes "store_wf s"
  shows "store_wf (snd (Store_Rename key newkey now s))"
proof (cases "existsRLocked key now s")
  case True
  have ok: "slot_ok (column s k)" for k using assms by (simp add: store_wf_def)
  show ?thesis
  proof (rule store_wf_step [OF assms Rename_tracked])
    fix k assume "k \<in> {key, newkey}"
    show "slot_ok (column (snd (Store_Rename key newkey now s)) k)"
      using Rename_same_column [OF True, of k] Rename_column [OF True, of newkey k] ok [of k] ok [of key]
      by (cases "key = newkey") (simp_all add: slot_ok_left slot_ok_drops)
  qed
qed (use assms in \<open>simp add: Rename_eq store_wf_purge\<close>)

text \<open>On two different keys, \<open>RENAME\<close> of an existing key with no JSON document and no time series moves everything
  the seven core kinds hold and the deadline: the new key has the old key's column, whatever it held before is
  gone, the old key is empty and all other keys are unchanged.\<close>

theorem rename_moves:
  assumes "existsRLocked key now s" "key \<noteq> newkey" "cJson (column s key) = None" "cTS (column s key) = None"
  shows "let (r, t) = Store_Rename key newkey now s in r = Inr () \<and> column t newkey = column s key \<and> column t key = no_column \<and>
     (\<forall>j. j \<noteq> key \<and> j \<noteq> newkey \<longrightarrow> column t j = column s j) \<and> tracked {key, newkey} s t"
proof -
  have same: "(column s key)\<lparr>cJson := None, cTS := None\<rparr> = column s key"
    "no_column\<lparr>cJson := None, cTS := None\<rparr> = no_column" using assms(3,4) by (simp_all add: no_column_def)
  show ?thesis
    using Rename_column [OF assms(1,2)] Rename_tracked [of key newkey s now] assms
    by (cases "Store_Rename key newkey now s") (auto simp: same Rename_eq)
qed

theorem rename_moves_witness:
  "column (snd (Store_Rename ''a'' ''b'' 5 (Store_Set ''a'' ''1'' 0 5 Store_New))) ''b'' =
     column (Store_Set ''a'' ''1'' 0 5 Store_New) ''a''"
proof -
  have "existsRLocked ''a'' 5 (Store_Set ''a'' ''1'' 0 5 Store_New)" by code_simp
  from rename_moves [OF this, of "''b''"] show ?thesis
    by (simp add: Set_column string_column_def split: prod.splits)
qed

definition only_json :: "column \<Rightarrow> bool" where
  "only_json c \<longleftrightarrow> c\<lparr>cJson := None, cExp := None\<rparr> = no_column \<and> cJson c \<noteq> None"

text \<open>What \<open>RENAME\<close> loses.  Renaming an existing key to itself reports success and deletes it.  A JSON document is
  not moved: it stays under the old name without its deadline, and the new name, which was deleted first, does not
  exist.\<close>

theorem rename_loses:
  assumes "existsRLocked key now s"
  shows "Store_Rename key key now s = (Inr (), snd (Store_Rename key key now s)) \<and>
     column (snd (Store_Rename key key now s)) key = no_column \<and>
     (key \<noteq> newkey \<and> only_json (column s key) \<longrightarrow>
        fst (Store_Rename key newkey now s) = Inr () \<and>
        \<not> existsRLocked newkey now (snd (Store_Rename key newkey now s)) \<and>
        column (snd (Store_Rename key newkey now s)) key = (column s key)\<lparr>cExp := None\<rparr>)"
proof -
  have a: "Store_Rename key key now s = (Inr (), snd (Store_Rename key key now s))"
    using assms by (simp add: Rename_eq)
  have b: "column (snd (Store_Rename key key now s)) key = no_column" by (simp add: Rename_same_column [OF assms])
  have c: "fst (Store_Rename key newkey now s) = Inr () \<and>
        \<not> existsRLocked newkey now (snd (Store_Rename key newkey now s)) \<and>
        column (snd (Store_Rename key newkey now s)) key = (column s key)\<lparr>cExp := None\<rparr>"
    if "key \<noteq> newkey" "only_json (column s key)"
  proof -
    let ?t = "snd (Store_Rename key newkey now s)"
    have json: "(column s key)\<lparr>cJson := None, cTS := None, cExp := None\<rparr> = no_column"
      using that(2) by (cases "column s key") (simp add: only_json_def no_column_def)
    have "\<not> col_holds ((column s key)\<lparr>cJson := None, cTS := None, cExp := None\<rparr>) x" for x
      by (simp only: json col_holds_none not_False_eq_True)
    then have "\<not> col_holds ((column s key)\<lparr>cJson := None, cTS := None\<rparr>) x" for x
      by simp
    then have "\<not> existsRLocked newkey now ?t"
      by (simp add: exists_live live_def Rename_column [OF assms that(1)])
    moreover have "column ?t key = (column s key)\<lparr>cExp := None\<rparr>"
      using that by (cases "column s key") (simp add: Rename_column [OF assms that(1)] only_json_def no_column_def)
    ultimately show ?thesis using assms by (simp add: Rename_eq)
  qed
  from a b c show ?thesis by blast
qed

theorem rename_loses_witness:
  "column (snd (Store_Rename ''a'' ''a'' 5 (Store_Set ''a'' ''1'' 0 5 Store_New))) ''a'' = no_column \<and>
   \<not> existsRLocked ''b'' 5 (snd (Store_Rename ''j'' ''b'' 5 (Store_New\<lparr>jsons := fmupd ''j'' JNull (jsons Store_New)\<rparr>)))"
proof -
  have "existsRLocked ''a'' 5 (Store_Set ''a'' ''1'' 0 5 Store_New)" by code_simp
  moreover have "existsRLocked ''j'' 5 (Store_New\<lparr>jsons := fmupd ''j'' JNull (jsons Store_New)\<rparr>)" by code_simp
  ultimately show ?thesis
    using rename_loses [of "''a''" 5 "Store_Set ''a'' ''1'' 0 5 Store_New"]
      rename_loses [of "''j''" 5 "Store_New\<lparr>jsons := fmupd ''j'' JNull (jsons Store_New)\<rparr>" "''b''"]
    by (simp add: only_json_def no_column_def)
qed

section \<open>Copying\<close>

lemma copy_deque: "list_content (copy_deque d) = (Deque_ToSlice d, True)"
  using Deque_PushBack [of Deque_empty "Deque_ToSlice d"] by (simp add: copy_deque_def list_content_def)

lemma copy_zset: "zset_wf z \<Longrightarrow> copy_zset z = z"
  unfolding copy_zset_def by (rule zs.rebuild)

lemma copy_entry_lookup:
  "fmlookup (copy_entry f src dst m) j =
     (if j = dst \<and> has m src then map_option f (fmlookup m src) else fmlookup m j)"
  by (auto simp: copy_entry_def split: option.split)

lemma column_copy:
  assumes "column s dst = no_column" "slot_ok (column s src)"
  shows "column (copy_all src dst s) j = (if j = dst then (column s src)\<lparr>cJson := None, cTS := None\<rparr> else column s j)"
proof -
  have none: "fmlookup (kv s) dst = None" "fmlookup (hashes s) dst = None" "fmlookup (lists s) dst = None"
    "fmlookup (sets s) dst = None" "fmlookup (zsets s) dst = None" "fmlookup (streams s) dst = None"
    "fmlookup (hlls s) dst = None" "fmlookup (expires s) dst = None"
    "fmlookup (jsons s) dst = None" "fmlookup (timeseries s) dst = None"
    using assms(1) by (simp_all add: column_def no_column_def)
  have l: "fmlookup (lists s) src = Some d \<Longrightarrow> list_content (copy_deque d) = list_content d" for d
    using assms(2) by (simp add: slot_ok_def column_def list_content_def copy_deque [unfolded list_content_def])
  have z: "fmlookup (zsets s) src = Some x \<Longrightarrow> copy_zset x = x" for x
    using assms(2) by (simp add: slot_ok_def column_def copy_zset)
  have id: "map_option id x = x" for x :: "'a option" by (simp add: option.map_id)
  show ?thesis
    using none by (auto simp: copy_all_def column_def copy_entry_lookup id l z option.map_comp)
qed

lemma Copy_eq:
  "Store_Copy src dst replace now s =
     (if \<not> existsRLocked src now s then (False, purge src now s)
      else if existsRLocked dst now s \<and> \<not> replace then (False, purge dst now s)
      else (True, touchKeyLocked [dst] now (copy_all src dst
              (if existsRLocked dst now s then deleteKeyLocked dst now s else purge dst now s))))"
  using existsRLocked_fresh [of src now s] existsRLocked_fresh [of dst now s]
  by (auto simp: Store_Copy_def locked_eqs purge_id Let_def)

lemma copy_all_other [simp]:
  "keyVersion (copy_all src dst s) = keyVersion s" "version (copy_all src dst s) = version s"
  by (simp_all add: copy_all_def)

lemma column_copy_frame: "j \<noteq> dst \<Longrightarrow> column (copy_all src dst s) j = column s j"
  by (simp add: copy_all_def column_def copy_entry_lookup)

lemma Copy_tracked: "tracked {src, dst} s (snd (Store_Copy src dst replace now s))"
proof -
  let ?b = "if existsRLocked dst now s then deleteKeyLocked dst now s else purge dst now s"
  have "tracked {src, dst} s ?b" by (simp add: tracked_delete tracked_purge)
  moreover have "tracked {src, dst} ?b (touchKeyLocked [dst] now (copy_all src dst ?b))"
    by (rule tracked_touch) (auto simp: column_copy_frame)
  ultimately have "tracked {src, dst} s (touchKeyLocked [dst] now (copy_all src dst ?b))" by (rule tracked_trans)
  then show ?thesis by (simp add: Copy_eq tracked_purge)
qed

text \<open>A successful \<open>COPY\<close> gives the destination the column of the source, deadline included, with fresh ring
  buffers and rebuilt sorted sets, and changes nothing else.\<close>

theorem copy_copies:
  assumes "store_wf s" "existsRLocked src now s" "src \<noteq> dst" "cJson (column s src) = None" "cTS (column s src) = None"
    and "existsRLocked dst now s \<and> replace \<or> live now s dst = no_column"
  shows "let (ok, t) = Store_Copy src dst replace now s in ok \<and> column t dst = column s src \<and>
     (\<forall>j. j \<noteq> dst \<longrightarrow> column t j = column s j) \<and> tracked {src, dst} s t"
proof -
  define b where "b = (if existsRLocked dst now s then deleteKeyLocked dst now s else purge dst now s)"
  have dst: "live now s dst = no_column \<Longrightarrow> \<not> existsRLocked dst now s" by (simp add: exists_live)
  have c: "Store_Copy src dst replace now s = (True, touchKeyLocked [dst] now (copy_all src dst b))"
    using assms(2,6) dst by (auto simp: Copy_eq b_def)
  have b: "column b dst = no_column" "\<And>j. j \<noteq> dst \<Longrightarrow> column b j = column s j"
    using assms(6) by (auto simp: b_def column_delete column_purge)
  have "slot_ok (column b src)" using assms(1,3) b(2) by (simp add: store_wf_def)
  note col = column_copy [OF b(1) this]
  have same: "(column s src)\<lparr>cJson := None, cTS := None\<rparr> = column s src"
    using assms(4,5) by simp
  show ?thesis using Copy_tracked [of src dst s replace now] assms(3) by (simp add: c col b same)
qed

theorem copy_copies_witness:
  "column (snd (Store_Copy ''a'' ''b'' False 5 (Store_Set ''a'' ''1'' 0 5 Store_New))) ''b'' =
     column (Store_Set ''a'' ''1'' 0 5 Store_New) ''a''"
proof -
  let ?s = "Store_Set ''a'' ''1'' 0 5 Store_New"
  have "existsRLocked ''a'' 5 ?s" "\<not> isExpiredRLocked ''b'' 5 ?s" by code_simp+
  moreover have "store_wf ?s"
    by (rule store_wf_step [OF store_wf_New Set_tracked]) (simp add: Set_column slot_ok_string)
  moreover have "column ?s ''b'' = no_column"
    by (subst tracked_frame [OF Set_tracked]) simp_all
  ultimately show ?thesis
    using copy_copies [of ?s "''a''" 5 "''b''" False]
    by (simp add: live_def Set_column string_column_def split: prod.splits)
qed

section \<open>What the sweep keeps\<close>

text \<open>The value and the deadline of a key at a moment, nothing while the key is delayed or after its deadline.\<close>

definition seen :: "gotime \<Rightarrow> store \<Rightarrow> key \<Rightarrow> column" where
  "seen u s k = (if delayed k u s then no_column else live u s k)"

lemma exists_seen: "existsRLocked k u s \<longleftrightarrow> (\<exists>x. col_holds (seen u s k) x)"
  by (simp add: exists_live seen_def)

definition same_view :: "gotime \<Rightarrow> store \<Rightarrow> store \<Rightarrow> bool" where
  "same_view now s t \<longleftrightarrow> (\<forall>u \<ge> now. \<forall>k. seen u t k = seen u s k)"

lemma same_view_refl [simp]: "same_view now s s"
  by (simp add: same_view_def)

lemma same_view_trans: "same_view now s t \<Longrightarrow> same_view now t u \<Longrightarrow> same_view now s u"
  by (simp add: same_view_def)

lemma same_view_delete:
  assumes "isExpiredRLocked key now s"
  shows "same_view now s (deleteKeyLocked key t s)"
proof -
  have "isExpiredRLocked key u s" if "now \<le> u" for u
    using assms that by (auto simp: isExpired_column split: option.splits)
  then show ?thesis by (auto simp: same_view_def seen_def live_delete delayed_delete live_expired)
qed

lemma same_view_purge: "same_view now s (purge key now s)"
  by (simp add: purge_def same_view_delete)

lemma seen_cong: "column t = column s \<Longrightarrow> notBefore t = notBefore s \<Longrightarrow> seen u t k = seen u s k"
  by (simp add: seen_def live_def isExpired_column delayed_def)

lemma sweep_key_step: "tracked UNIV s (sweep_key now key s) \<and> same_view now s (sweep_key now key s)"
proof (cases "\<exists>e. fmlookup (expires s) key = Some e \<and> \<not> IsZero e \<and> e < now")
  case True
  let ?t = "send_event ''expired'' key s"
  have eq: "sweep_key now key s = deleteKeyLocked key now ?t" using True by (auto simp: sweep_key_def)
  have "isExpiredRLocked key now ?t" using True by (auto simp: isExpired_column column_lookup)
  then have "same_view now ?t (sweep_key now key s)" unfolding eq by (rule same_view_delete)
  moreover have "same_view now s ?t" by (simp add: same_view_def seen_cong [of ?t s] ext)
  moreover have "tracked UNIV s ?t" by (simp add: tracked_def getVersion_def)
  ultimately show ?thesis
    unfolding eq by (auto intro: tracked_trans tracked_delete same_view_trans)
qed (auto simp: sweep_key_def split: option.split)

lemma sweep_tag_step: "tracked UNIV s (sweep_tag now key s) \<and> same_view now s (sweep_tag now key s)"
proof -
  have "tracked UNIV s (t\<lparr>tags := x\<rparr>) = tracked UNIV s t" for t x by (simp add: tracked_def getVersion_def)
  moreover have "same_view now s (t\<lparr>tags := x\<rparr>) = same_view now s t" for t x
    by (simp add: same_view_def seen_def live_def isExpired_column delayed_def)
  ultimately show ?thesis
    by (auto simp: sweep_tag_def existsLocked_eq tracked_purge same_view_purge)
qed

lemma fold_view:
  assumes "\<And>k s. tracked UNIV s (f k s) \<and> same_view now s (f k s)"
  shows "tracked UNIV s (fold f ks s) \<and> same_view now s (fold f ks s)"
proof (induction ks arbitrary: s)
  case (Cons k ks)
  with assms [of s k] show ?case using tracked_trans same_view_trans by (simp, blast)
qed simp

lemma past_delays:
  "same_view now s (s\<lparr>notBefore := fmfilter (\<lambda>key. \<not> the (fmlookup (notBefore s) key) < now) (notBefore s)\<rparr>)"
  by (auto simp: same_view_def seen_def live_def isExpired_column delayed_def split: option.splits)

text \<open>The background sweep keeps what the keys hold.  Whatever order Go enumerates the deadlines in, at every
  moment from the sweep on each key shows the same value, deadline and existence with and without it; and every key it removes
  gets a new version, so \<open>WATCH\<close> sees the removal.  (The sweep also drops stale rate limiters and the tags of keys that do
  not exist and publishes an event for each key it removes; the statement does not compare those.)\<close>

theorem sweep_keeps_view:
  "(now \<le> u \<longrightarrow> seen u (Store_sampleExpired order now s) k = seen u s k \<and>
     existsRLocked k u (Store_sampleExpired order now s) = existsRLocked k u s) \<and>
   tracked UNIV s (Store_sampleExpired order now s)"
proof -
  define a where "a = fold (sweep_key now) (take 100 (order (sorted_keys (expires s)))) s"
  define b where "b = a\<lparr>rateLimiters := fmfilter (\<lambda>key. \<not> stale_limiter now (the (fmlookup (rateLimiters a) key))) (rateLimiters a)\<rparr>"
  define c where "c = b\<lparr>notBefore := fmfilter (\<lambda>key. \<not> the (fmlookup (notBefore b) key) < now) (notBefore b)\<rparr>"
  have t: "Store_sampleExpired order now s = fold (sweep_tag now) (sorted_keys (tags c)) c"
    unfolding Store_sampleExpired_def Let_def c_def b_def a_def ..
  have a: "tracked UNIV s a \<and> same_view now s a"
    unfolding a_def by (rule fold_view [OF sweep_key_step])
  have b: "tracked UNIV a b \<and> same_view now a b"
    by (auto simp: b_def tracked_def getVersion_def same_view_def intro!: seen_cong)
  have c: "tracked UNIV b c \<and> same_view now b c"
    using past_delays [of now b] by (simp add: c_def tracked_def getVersion_def)
  have d: "tracked UNIV c (Store_sampleExpired order now s) \<and> same_view now c (Store_sampleExpired order now s)"
    unfolding t by (rule fold_view [OF sweep_tag_step])
  have "tracked UNIV s (Store_sampleExpired order now s) \<and> same_view now s (Store_sampleExpired order now s)"
    using a b c d tracked_trans same_view_trans by meson
  then show ?thesis by (simp add: same_view_def exists_seen)
qed

theorem sweep_keeps_view_witness:
  "existsRLocked ''a'' 20 (Store_sampleExpired rev 10 (Store_Set ''a'' ''1'' 100 5 Store_New)) =
     existsRLocked ''a'' 20 (Store_Set ''a'' ''1'' 100 5 Store_New)"
  using sweep_keeps_view [of 10 20 rev "Store_Set ''a'' ''1'' 100 5 Store_New" "''a''"] by simp

section \<open>Flushing\<close>

lemma FlushDB_column [simp]: "column (Store_FlushDB s) k = no_column"
  by (simp add: Store_FlushDB_def column_def no_column_def)

lemma FlushDB_version [simp]: "version (Store_FlushDB s) = Suc (version s)" "getVersion k (Store_FlushDB s) = 0"
  by (simp_all add: Store_FlushDB_def getVersion_def)

lemma FlushDB_wf: "store_wf (Store_FlushDB s)"
  by (simp add: store_wf_def versions_ok_def)

end
