(* ===== verification/Vole_Snapshot.thy ===== *)
theory Vole_Snapshot
  imports Vole_Keys
begin

text \<open>
  Snapshots of the store: \<open>Dump\<close>, \<open>Load\<close> and \<open>DumpKey\<close> of \<^verbatim>\<open>internal/store/store.go\<close>, which \<^verbatim>\<open>internal/server/snapshot.go\<close>
  writes to and reads from a file.  Maps are copied entry by entry, so a copy is the map itself; lists, sets, sorted
  sets, sketches and documents change their representation.  The JSON parser and printer are arguments.
\<close>

section \<open>Operations\<close>

record Snapshot =
  sKV :: "string gomap"
  sHashes :: "string gomap gomap"
  sLists :: "string list gomap"
  sSets :: "string list gomap"
  sZSets :: "ZMember list gomap"
  sStreams :: "StreamEntry list gomap"
  sGroups :: "ConsumerGroup gomap gomap"
  sExpires :: "gotime gomap"
  sLastSeq :: "int gomap"
  sJSONDocs :: "string gomap"
  sTimeSeries :: "TimeSeries gomap"
  sQueues :: "Queue gomap"
  sTags :: "string gomap gomap"
  sHLLs :: "8 word list gomap"
  sNotBefore :: "gotime gomap"

text \<open>\<open>doc.String()\<close> drops the error of \<open>json.Marshal\<close>, which then answers no bytes.\<close>

definition doc_String :: "(json \<Rightarrow> go_error + string) \<Rightarrow> json \<Rightarrow> string" where
  "doc_String marshal d = (case marshal d of Inl _ \<Rightarrow> '''' | Inr b \<Rightarrow> b)"

definition Store_Dump :: "(json \<Rightarrow> go_error + string) \<Rightarrow> gotime \<Rightarrow> store \<Rightarrow> Snapshot \<times> store" where
  "Store_Dump marshal now s =
     (let s = purgeExpiredLocked now s
      in (\<lparr>sKV = kv s, sHashes = hashes s, sLists = fmmap Deque_ToSlice (lists s),
           sSets = fmmap sorted_list_of_fset (sets s), sZSets = fmmap SortedSet_Members (zsets s),
           sStreams = streams s, sGroups = groups s, sExpires = expires s, sLastSeq = lastSeq s,
           sJSONDocs = fmmap (doc_String marshal) (jsons s), sTimeSeries = timeseries s, sQueues = queues s,
           sTags = tags s, sHLLs = fmmap HyperLogLog_Registers (hlls s), sNotBefore = notBefore s\<rparr>, s))"

text \<open>A document whose text does not parse is left out.\<close>

definition load_docs :: "(string \<Rightarrow> go_error + json) \<Rightarrow> string gomap \<Rightarrow> json gomap" where
  "load_docs unmarshal raws =
     fold (\<lambda>key docs. case unmarshal (the (fmlookup raws key)) of Inl _ \<Rightarrow> docs | Inr doc \<Rightarrow> fmupd key doc docs)
       (sorted_keys raws) fmempty"

definition Store_Load :: "(string \<Rightarrow> go_error + json) \<Rightarrow> Snapshot \<Rightarrow> gotime \<Rightarrow> store \<Rightarrow> store" where
  "Store_Load unmarshal snapshot now s =
     (let s = s\<lparr>kv := sKV snapshot, hashes := sHashes snapshot,
            lists := fmmap (\<lambda>list. Deque_PushBack list Deque_empty) (sLists snapshot),
            sets := fmmap fset_of_list (sSets snapshot),
            zsets := fmmap (\<lambda>members. snd (add_all SortedSet_Add members NewSortedSet)) (sZSets snapshot),
            streams := sStreams snapshot, groups := sGroups snapshot, lastSeq := sLastSeq snapshot,
            expires := sExpires snapshot, jsons := load_docs unmarshal (sJSONDocs snapshot),
            timeseries := sTimeSeries snapshot, queues := sQueues snapshot, tags := sTags snapshot,
            hlls := fmmap (\<lambda>regs. HyperLogLog_LoadRegisters regs NewHyperLogLog) (sHLLs snapshot),
            notBefore := sNotBefore snapshot, version := version s + 1, keyVersion := fmempty\<rparr>
      in purgeExpiredLocked now s)"

text \<open>\<open>DumpKey\<close> prints one value; \<open>order\<close> is the order in which Go enumerates the hash, \<open>format\<close> is
  \<open>strconv.FormatFloat(score, 'f', -1, 64)\<close>.\<close>

fun join_with :: "string \<Rightarrow> string list \<Rightarrow> string" where
  "join_with sep [] = ''''"
| "join_with sep [x] = x"
| "join_with sep (x # y # xs) = x @ sep @ join_with sep (y # xs)"

definition Store_DumpKey ::
  "(string list \<Rightarrow> string list) \<Rightarrow> (float64 \<Rightarrow> string) \<Rightarrow> key \<Rightarrow> gotime \<Rightarrow> store \<Rightarrow> string option" where
  "Store_DumpKey order format key now s =
     (if isExpiredRLocked key now s then None
      else case fmlookup (kv s) key of Some v \<Rightarrow> Some (''STRING:'' @ v)
      | None \<Rightarrow>
      case fmlookup (hashes s) key of
        Some h \<Rightarrow> Some (''HASH:'' @ join_with '','' (map (\<lambda>k. k @ ''='' @ the (fmlookup h k)) (order (sorted_keys h))))
      | None \<Rightarrow>
      case fmlookup (lists s) key of Some d \<Rightarrow> Some (''LIST:'' @ join_with '','' (Deque_ToSlice d))
      | None \<Rightarrow>
      case fmlookup (sets s) key of Some S \<Rightarrow> Some (''SET:'' @ join_with '','' (sorted_list_of_fset S))
      | None \<Rightarrow>
      case fmlookup (zsets s) key of
        Some z \<Rightarrow> Some (''ZSET:'' @ join_with '','' (map (\<lambda>m. Member m @ ''='' @ format (Score m)) (SortedSet_Members z)))
      | None \<Rightarrow> None)"

section \<open>What is kept beside the columns\<close>

definition attached ::
  "store \<Rightarrow> key \<Rightarrow> ConsumerGroup gomap option \<times> int option \<times> string gomap option \<times> Queue option \<times> gotime option" where
  "attached s k = (fmlookup (groups s) k, fmlookup (lastSeq s) k, fmlookup (tags s) k, fmlookup (queues s) k, fmlookup (notBefore s) k)"

definition nothing_attached :: "ConsumerGroup gomap option \<times> int option \<times> string gomap option \<times> Queue option \<times> gotime option" where
  "nothing_attached = (None, None, None, None, None)"

lemma attached_delete: "attached (deleteKeyLocked j now s) k = (if k = j then nothing_attached else attached s k)"
  by (simp add: attached_def nothing_attached_def deleteKeyLocked_def Let_def)

lemma attached_purge: "attached (purge j now s) k = (if k = j \<and> isExpiredRLocked k now s then nothing_attached else attached s k)"
  by (auto simp: purge_def attached_delete)

lemma purge_fold:
  "column (fold (\<lambda>key s. purge key now s) ks s) k = (if k \<in> set ks then live now s k else column s k)"
  "attached (fold (\<lambda>key s. purge key now s) ks s) k =
     (if k \<in> set ks \<and> isExpiredRLocked k now s then nothing_attached else attached s k)"
  by (induction ks arbitrary: s) (auto simp: column_purge attached_purge)

lemma purgeExpired_column: "column (purgeExpiredLocked now s) k = live now s k"
  and purgeExpired_attached:
    "attached (purgeExpiredLocked now s) k = (if isExpiredRLocked k now s then nothing_attached else attached s k)"
proof -
  have *: "purgeExpiredLocked now s = fold (\<lambda>key s. purge key now s) (sorted_keys (expires s)) s"
    by (simp add: purgeExpiredLocked_def expiredKeyLocked_eq)
  have dom: "k \<in> fmdom' (expires s)" if "isExpiredRLocked k now s"
    using that by (auto simp: isExpiredRLocked_def fmlookup_dom'_iff split: option.splits)
  show "column (purgeExpiredLocked now s) k = live now s k"
    using dom by (auto simp: * purge_fold live_def)
  show "attached (purgeExpiredLocked now s) k = (if isExpiredRLocked k now s then nothing_attached else attached s k)"
    using dom by (auto simp: * purge_fold)
qed

section \<open>Loading a dump restores the store\<close>

lemma load_docs_lookup:
  "fmlookup (load_docs unmarshal raws) k =
     (case fmlookup raws k of None \<Rightarrow> None | Some raw \<Rightarrow> (case unmarshal raw of Inl _ \<Rightarrow> None | Inr doc \<Rightarrow> Some doc))"
proof -
  have "fmlookup (fold (\<lambda>key docs. case unmarshal (the (fmlookup raws key)) of Inl _ \<Rightarrow> docs | Inr doc \<Rightarrow> fmupd key doc docs) ks m) k =
      (if k \<in> set ks then (case unmarshal (the (fmlookup raws k)) of Inl _ \<Rightarrow> fmlookup m k | Inr doc \<Rightarrow> Some doc)
       else fmlookup m k)" for ks m
    by (induction ks arbitrary: m) (auto split: sum.split)
  then show ?thesis by (auto simp: load_docs_def fmlookup_dom'_iff split: option.split sum.split)
qed

lemma reload_list: "deque_wf d \<Longrightarrow> list_content (Deque_PushBack (Deque_ToSlice d) Deque_empty) = list_content d"
  using copy_deque [of d] by (simp add: copy_deque_def list_content_def)

lemma reload_set: "fset_of_list (sorted_list_of_fset S) = S"
  by (simp add: fset_of_list.rep_eq fset_inject [symmetric] sorted_list_of_fset.rep_eq)

lemma reload_sketch: "hll_wf h \<Longrightarrow> HyperLogLog_LoadRegisters (HyperLogLog_Registers h) NewHyperLogLog = h"
  by (simp add: HyperLogLog_LoadRegisters_def HyperLogLog_Registers_def NewHyperLogLog_def hll_wf_def)

text \<open>The printer's output for a document can be read back.\<close>

definition printable :: "(json \<Rightarrow> go_error + string) \<Rightarrow> (string \<Rightarrow> go_error + json) \<Rightarrow> json \<Rightarrow> bool" where
  "printable marshal unmarshal d \<longleftrightarrow> (\<exists>text. marshal d = Inr text \<and> unmarshal text = Inr d)"

definition docs_printable :: "(json \<Rightarrow> go_error + string) \<Rightarrow> (string \<Rightarrow> go_error + json) \<Rightarrow> store \<Rightarrow> bool" where
  "docs_printable marshal unmarshal s \<longleftrightarrow> (\<forall>k d. fmlookup (jsons s) k = Some d \<longrightarrow> printable marshal unmarshal d)"

lemma loaded_column:
  assumes "slot_ok (column u k)" "\<forall>d. cJson (column u k) = Some d \<longrightarrow> printable marshal unmarshal d"
    and lists: "lists t = fmmap (\<lambda>list. Deque_PushBack list Deque_empty) (fmmap Deque_ToSlice (lists u))"
    and sets: "sets t = fmmap fset_of_list (fmmap sorted_list_of_fset (sets u))"
    and zsets: "zsets t = fmmap (\<lambda>members. snd (add_all SortedSet_Add members NewSortedSet)) (fmmap SortedSet_Members (zsets u))"
    and docs: "jsons t = load_docs unmarshal (fmmap (doc_String marshal) (jsons u))"
    and hlls: "hlls t = fmmap (\<lambda>regs. HyperLogLog_LoadRegisters regs NewHyperLogLog) (fmmap HyperLogLog_Registers (hlls u))"
    and same: "kv t = kv u" "hashes t = hashes u" "streams t = streams u" "timeseries t = timeseries u" "expires t = expires u"
  shows "column t k = column u k"
proof -
  have ok: "fmlookup (lists u) k = Some d \<Longrightarrow> deque_wf d" "fmlookup (zsets u) k = Some z \<Longrightarrow> zset_wf z"
    "fmlookup (hlls u) k = Some h \<Longrightarrow> hll_wf h" for d z h
    using assms(1) by (auto simp: slot_ok_def column_def list_content_def)
  have "map_option list_content (fmlookup (lists t) k) = map_option list_content (fmlookup (lists u) k)"
    using ok(1) by (cases "fmlookup (lists u) k") (simp_all add: lists reload_list)
  moreover have "fmlookup (sets t) k = fmlookup (sets u) k"
    by (cases "fmlookup (sets u) k") (simp_all add: sets reload_set)
  moreover have "fmlookup (zsets t) k = fmlookup (zsets u) k"
    using ok(2) by (cases "fmlookup (zsets u) k") (simp_all add: zsets zs.rebuild)
  moreover have "fmlookup (hlls t) k = fmlookup (hlls u) k"
    using ok(3) by (cases "fmlookup (hlls u) k") (simp_all add: hlls reload_sketch)
  moreover have "fmlookup (jsons t) k = fmlookup (jsons u) k"
    using assms(2) by (cases "fmlookup (jsons u) k") (auto simp: docs load_docs_lookup printable_def doc_String_def column_def)
  ultimately show ?thesis by (simp add: column_def same)
qed

text \<open>A snapshot is complete.  Loading the dump of a well-formed store, into any store and at any later time, restores for
  every key its value of whatever type, its deadline, consumer groups, tags, queue and delay, except that keys whose
  deadline has passed by then are gone.\<close>

theorem snapshot_roundtrip:
  assumes "store_wf s" "docs_printable marshal unmarshal s" "now \<le> later"
  shows "let t = Store_Load unmarshal (fst (Store_Dump marshal now s)) later old
    in column t k = live later s k \<and> attached t k = (if isExpiredRLocked k later s then nothing_attached else attached s k)"
proof -
  define u where "u = purgeExpiredLocked now s"
  have u: "column u j = live now s j" "attached u j = (if isExpiredRLocked j now s then nothing_attached else attached s j)" for j
    by (simp_all add: u_def purgeExpired_column purgeExpired_attached)
  define snap where "snap = fst (Store_Dump marshal now s)"
  have [simp]: "sKV snap = kv u" "sHashes snap = hashes u" "sLists snap = fmmap Deque_ToSlice (lists u)"
    "sSets snap = fmmap sorted_list_of_fset (sets u)" "sZSets snap = fmmap SortedSet_Members (zsets u)" "sStreams snap = streams u"
    "sGroups snap = groups u" "sExpires snap = expires u" "sLastSeq snap = lastSeq u"
    "sJSONDocs snap = fmmap (doc_String marshal) (jsons u)" "sTimeSeries snap = timeseries u" "sQueues snap = queues u"
    "sTags snap = tags u" "sHLLs snap = fmmap HyperLogLog_Registers (hlls u)" "sNotBefore snap = notBefore u"
    by (simp_all add: snap_def Store_Dump_def Let_def u_def)
  obtain t where t: "Store_Load unmarshal snap later old = purgeExpiredLocked later t"
    and data: "kv t = kv u" "hashes t = hashes u" "lists t = fmmap (\<lambda>list. Deque_PushBack list Deque_empty) (fmmap Deque_ToSlice (lists u))"
    "sets t = fmmap fset_of_list (fmmap sorted_list_of_fset (sets u))"
    "zsets t = fmmap (\<lambda>members. snd (add_all SortedSet_Add members NewSortedSet)) (fmmap SortedSet_Members (zsets u))"
    "streams t = streams u" "jsons t = load_docs unmarshal (fmmap (doc_String marshal) (jsons u))" "timeseries t = timeseries u"
    "hlls t = fmmap (\<lambda>regs. HyperLogLog_LoadRegisters regs NewHyperLogLog) (fmmap HyperLogLog_Registers (hlls u))"
    "expires t = expires u" and att: "attached t j = attached u j" for j
    by (simp add: Store_Load_def Let_def attached_def)
  have "slot_ok (column u k)" using assms(1) by (simp add: u slot_ok_live)
  moreover have "\<forall>d. cJson (column u k) = Some d \<longrightarrow> printable marshal unmarshal d"
    using assms(2) by (auto simp: u live_def docs_printable_def column_lookup split: if_splits)
  ultimately have c: "column t k = live now s k" unfolding u [symmetric] by (rule loaded_column) (simp_all add: data)
  have e: "isExpiredRLocked k now s \<Longrightarrow> isExpiredRLocked k later s"
    using assms(3) by (auto simp: isExpired_column split: option.splits)
  have "live later t k = live later s k" "isExpiredRLocked k later t = (isExpiredRLocked k later s \<and> \<not> isExpiredRLocked k now s)"
    using c e by (auto simp: live_def isExpired_column no_column_def)
  then show ?thesis
    unfolding snap_def [symmetric] t using e by (auto simp: purgeExpired_column purgeExpired_attached att u)
qed

theorem snapshot_roundtrip_witness:
  "let s = Store_New\<lparr>jsons := fmupd ''d'' JNull fmempty\<rparr>;
       t = Store_Load (\<lambda>_. Inr JNull) (fst (Store_Dump (\<lambda>_. Inr ''null'') 5 s)) 7 Store_New
   in column t ''d'' = live 7 s ''d'' \<and> attached t ''d'' = attached s ''d''"
proof -
  let ?s = "Store_New\<lparr>jsons := fmupd ''d'' JNull fmempty\<rparr>"
  have c: "column ?s k = (if k = ''d'' then no_column\<lparr>cJson := Some JNull\<rparr> else no_column)" for k
    by (simp add: column_def no_column_def Store_New_def)
  have "versions_ok ?s" by (simp add: versions_ok_def getVersion_def Store_New_def)
  then have "store_wf ?s" unfolding store_wf_def c by simp
  moreover have "docs_printable (\<lambda>_. Inr ''null'') (\<lambda>_. Inr JNull) ?s" by (simp add: docs_printable_def printable_def)
  moreover have "\<not> isExpiredRLocked ''d'' 7 ?s" by (simp add: isExpiredRLocked_def Store_New_def)
  ultimately show ?thesis
    using snapshot_roundtrip [of ?s "\<lambda>_. Inr ''null''" "\<lambda>_. Inr JNull" 5 7 Store_New "''d''"] by (simp add: Let_def)
qed

text \<open>A document that cannot be printed, such as one holding an infinite number, is lost: \<open>Dump\<close> writes an empty text for it,
  which \<open>Load\<close> cannot parse.\<close>

lemma snapshot_loses_unprintable:
  assumes "fmlookup (jsons s) k = Some d" "marshal d = Inl e" "unmarshal '''' = Inl e'" "\<not> isExpiredRLocked k now s"
  shows "fmlookup (sJSONDocs (fst (Store_Dump marshal now s))) k = Some '''' \<and>
    fmlookup (load_docs unmarshal (sJSONDocs (fst (Store_Dump marshal now s)))) k = None"
proof -
  have "fmlookup (jsons (purgeExpiredLocked now s)) k = Some d"
    using assms(1,4) purgeExpired_column [of now s k] by (simp add: column_lookup live_def)
  then show ?thesis using assms(2,3) by (simp add: Store_Dump_def Let_def load_docs_lookup doc_String_def)
qed

text \<open>\<open>Load\<close> forgets all versions, so \<open>WATCH\<close> does not notice that it replaced a key that had never been touched.\<close>

lemma load_not_watched:
  assumes "getVersion k s = 0" "fmlookup (sExpires snap) k = None"
  shows "\<not> Store_KeysModifiedSince (Store_KeyVersions [k] s) (Store_Load unmarshal snap now s)"
proof -
  have keep: "getVersion k (fold (\<lambda>key s. purge key now s) ks t) = getVersion k t" if "k \<notin> set ks" for ks t
    using that by (induction ks arbitrary: t) (auto simp: purge_def)
  have "getVersion k (Store_Load unmarshal snap now s) = 0"
    unfolding Store_Load_def Let_def purgeExpiredLocked_def expiredKeyLocked_eq snd_conv
    by (subst keep) (simp_all add: getVersion_def fmlookup_dom'_iff assms(2))
  then show ?thesis using assms(1) by (simp add: KeysModified_iff)
qed

end
