(* ===== verification/Vole_Resp.thy ===== *)
theory Vole_Resp
  imports Vole_Strconv
begin

text \<open>
  The wire protocol of \<^verbatim>\<open>internal/resp/resp.go\<close>.  A reader is a function of the bytes still to come, which stand for the
  buffered connection: it answers an error, or a result and the remaining bytes; the end of the bytes is the error
  \<open>EOF\<close>.  A writer is the string of bytes it writes.
\<close>

section \<open>Reading\<close>

datatype resp_type = SimpleString | ErrorString | Integer | BulkString | Array

datatype resp_value = RValue (rtype: resp_type) (Text: string) (Int: int) (Items: "resp_value list") (Null: bool)

type_synonym 'a reading = "go_error + 'a \<times> string"

abbreviation EOF :: go_error where
  "EOF \<equiv> Err ''EOF''"

fun ReadByte :: "string \<Rightarrow> char reading" where
  "ReadByte [] = Inl EOF"
| "ReadByte (b # bs) = Inr (b, bs)"

text \<open>\<open>ReadString('\n')\<close>: up to and including the delimiter.\<close>

fun ReadString :: "string \<Rightarrow> string reading" where
  "ReadString [] = Inl EOF"
| "ReadString (b # bs) =
     (if b = CHR 0x0A then Inr ([b], bs)
      else case ReadString bs of Inl e \<Rightarrow> Inl e | Inr (line, rest) \<Rightarrow> Inr (b # line, rest))"

definition ReadFull :: "nat \<Rightarrow> string \<Rightarrow> string reading" where
  "ReadFull n bs =
     (if length bs < n then Inl (if bs = [] then EOF else Err ''unexpected EOF'') else Inr (take n bs, drop n bs))"

definition TrimSuffix :: "string \<Rightarrow> string \<Rightarrow> string" where
  "TrimSuffix s p = (if length p \<le> length s \<and> drop (length s - length p) s = p then take (length s - length p) s else s)"

definition readLine :: "string \<Rightarrow> string reading" where
  "readLine bs =
     (case ReadString bs of
        Inl e \<Rightarrow> Inl e
      | Inr (line, rest) \<Rightarrow> Inr (TrimSuffix (TrimSuffix line [CHR 0x0A]) [CHR 0x0D], rest))"

definition num_err :: "num_error \<Rightarrow> go_error" where
  "num_err e = Err (case e of ErrSyntax \<Rightarrow> ''invalid syntax'' | ErrRange \<Rightarrow> ''value out of range'')"

definition readLen :: "string \<Rightarrow> int reading" where
  "readLen bs =
     (case readLine bs of
        Inl e \<Rightarrow> Inl e
      | Inr (line, rest) \<Rightarrow> (case Atoi line of (n, None) \<Rightarrow> Inr (n, rest) | (_, Some e) \<Rightarrow> Inl (num_err e)))"

text \<open>
  The body of a bulk string of announced length \<open>l\<close>.  \<open>make([]byte, l+2)\<close> panics for a negative size; with a size of 0 or 1
  the test of the terminator indexes the buffer at a negative position and panics.
\<close>

definition read_bulk :: "int \<Rightarrow> string \<Rightarrow> string reading" where
  "read_bulk l bs =
     (let size = wrap64 (l + 2) in
      if size < 0 then Inl (Panic ''makeslice: len out of range'')
      else case ReadFull (nat size) bs of
        Inl e \<Rightarrow> Inl e
      | Inr (buf, rest) \<Rightarrow>
          if l < 0 then Inl (Panic ''index out of range'')
          else if buf ! nat l \<noteq> CHR 0x0D \<or> buf ! (nat l + 1) \<noteq> CHR 0x0A then Inl (Err ''invalid bulk terminator'')
          else Inr (take (nat l) buf, rest))"

fun read_parts :: "nat \<Rightarrow> string list \<Rightarrow> string \<Rightarrow> string list reading" where
  "read_parts 0 parts bs = Inr (parts, bs)"
| "read_parts (Suc n) parts bs =
     (case ReadByte bs of
        Inl e \<Rightarrow> Inl e
      | Inr (t, bs) \<Rightarrow>
          if t \<noteq> CHR ''$'' then Inl (Err ''expected bulk string'')
          else case readLen bs of
            Inl e \<Rightarrow> Inl e
          | Inr (l, bs) \<Rightarrow>
              (case read_bulk l bs of Inl e \<Rightarrow> Inl e | Inr (part, bs) \<Rightarrow> read_parts n (parts @ [part]) bs))"

text \<open>
  White space of \<open>strings.Fields\<close>: the number of bytes of the space that starts the string, 0 if there is none.  Beside
  the ASCII spaces these are the UTF-8 encodings of the Unicode spaces.
\<close>

definition space_len :: "string \<Rightarrow> nat" where
  "space_len bs =
     (case bs of
        [] \<Rightarrow> 0
      | b # cs \<Rightarrow>
          if b \<in> {CHR 0x09, CHR 0x0A, CHR 0x0B, CHR 0x0C, CHR 0x0D, CHR 0x20} then 1
          else if b = CHR 0xC2 \<and> (\<exists>c \<in> set (take 1 cs). c = CHR 0x85 \<or> c = CHR 0xA0) then 2
          else if take 2 cs = [CHR 0x9A, CHR 0x80] \<and> b = CHR 0xE1 then 3
          else if b = CHR 0xE2 \<and> length cs \<ge> 2 \<and>
             (cs ! 0 = CHR 0x80 \<and> (of_char (cs ! 1) \<in> {0x80..0x8A :: nat} \<or> cs ! 1 \<in> {CHR 0xA8, CHR 0xA9, CHR 0xAF}) \<or>
              cs ! 0 = CHR 0x81 \<and> cs ! 1 = CHR 0x9F) then 3
          else if take 2 cs = [CHR 0x80, CHR 0x80] \<and> b = CHR 0xE3 then 3
          else 0)"

function fields_loop :: "string \<Rightarrow> string \<Rightarrow> string list" where
  "fields_loop word [] = (if word = [] then [] else [word])"
| "fields_loop word (b # bs) =
     (if space_len (b # bs) = 0 then fields_loop (word @ [b]) bs
      else (if word = [] then id else (#) word) (fields_loop [] (drop (space_len (b # bs)) (b # bs))))"
  by pat_completeness auto
termination by (relation "measure (\<lambda>(_, bs). length bs)") auto

text \<open>\<open>strings.TrimSpace\<close> takes off white space at both ends, which \<open>strings.Fields\<close> skips anyway.\<close>

definition splitInline :: "string \<Rightarrow> string list" where
  "splitInline line = fields_loop [] line"

definition ReadCommand :: "string \<Rightarrow> string list reading" where
  "ReadCommand bs =
     (case ReadByte bs of
        Inl e \<Rightarrow> Inl e
      | Inr (b, bs) \<Rightarrow>
          if b \<noteq> CHR ''*''
          then (case ReadString bs of Inl e \<Rightarrow> Inl e | Inr (line, bs) \<Rightarrow> Inr (splitInline (b # line), bs))
          else case readLen bs of
            Inl e \<Rightarrow> Inl e
          | Inr (n, bs) \<Rightarrow>
              if n < 0 then Inl (Panic ''makeslice: cap out of range'') else read_parts (nat n) [] bs)"

text \<open>
  \<open>ReadValue\<close> calls itself for the items of an array.  \<open>fuel\<close> bounds the nesting; every value read takes at least one byte, so
  the length of the input is enough.
\<close>

fun read_value :: "nat \<Rightarrow> string \<Rightarrow> resp_value reading option"
  and read_items :: "nat \<Rightarrow> nat \<Rightarrow> resp_value list \<Rightarrow> string \<Rightarrow> resp_value list reading option" where
  "read_value 0 bs = None"
| "read_value (Suc fuel) bs =
     (case ReadByte bs of
        Inl e \<Rightarrow> Some (Inl e)
      | Inr (b, bs) \<Rightarrow>
          if b = CHR ''+'' then Some (case readLine bs of Inl e \<Rightarrow> Inl e | Inr (line, bs) \<Rightarrow> Inr (RValue SimpleString line 0 [] False, bs))
          else if b = CHR ''-'' then Some (case readLine bs of Inl e \<Rightarrow> Inl e | Inr (line, bs) \<Rightarrow> Inr (RValue ErrorString line 0 [] False, bs))
          else if b = CHR '':''
          then Some (case readLine bs of
                       Inl e \<Rightarrow> Inl e
                     | Inr (line, bs) \<Rightarrow>
                         (case ParseInt line of
                            (n, None) \<Rightarrow> Inr (RValue Integer '''' n [] False, bs)
                          | (_, Some e) \<Rightarrow> Inl (num_err e)))
          else if b = CHR ''$''
          then Some (case readLen bs of
                       Inl e \<Rightarrow> Inl e
                     | Inr (l, bs) \<Rightarrow>
                         if l = -1 then Inr (RValue BulkString '''' 0 [] True, bs)
                         else case read_bulk l bs of
                           Inl e \<Rightarrow> Inl e
                         | Inr (text, bs) \<Rightarrow> Inr (RValue BulkString text 0 [] False, bs))
          else if b = CHR ''*''
          then (case readLen bs of
                  Inl e \<Rightarrow> Some (Inl e)
                | Inr (n, bs) \<Rightarrow>
                    if n = -1 then Some (Inr (RValue Array '''' 0 [] True, bs))
                    else if n < 0 then Some (Inl (Panic ''makeslice: cap out of range''))
                    else case read_items fuel (nat n) [] bs of
                      None \<Rightarrow> None
                    | Some (Inl e) \<Rightarrow> Some (Inl e)
                    | Some (Inr (items, bs)) \<Rightarrow> Some (Inr (RValue Array '''' 0 items False, bs)))
          else Some (Inl (Err ''unknown RESP type'')))"
| "read_items fuel 0 items bs = Some (Inr (items, bs))"
| "read_items fuel (Suc n) items bs =
     (case read_value fuel bs of
        None \<Rightarrow> None
      | Some (Inl e) \<Rightarrow> Some (Inl e)
      | Some (Inr (item, bs)) \<Rightarrow> read_items fuel n (items @ [item]) bs)"

definition ReadValue :: "string \<Rightarrow> resp_value reading option" where
  "ReadValue bs = read_value (Suc (length bs)) bs"

section \<open>Writing\<close>

abbreviation CRLF :: string where
  "CRLF \<equiv> [CHR 0x0D, CHR 0x0A]"

definition Writer_Simple :: "string \<Rightarrow> string" where
  "Writer_Simple s = ''+'' @ s @ CRLF"

definition Writer_Error :: "string \<Rightarrow> string" where
  "Writer_Error s = ''-'' @ s @ CRLF"

definition Writer_Int :: "int \<Rightarrow> string" where
  "Writer_Int n = '':'' @ FormatInt n @ CRLF"

definition Writer_Bulk :: "string \<Rightarrow> string" where
  "Writer_Bulk s = ''$'' @ FormatInt (int (length s)) @ CRLF @ s @ CRLF"

definition Writer_Null :: string where
  "Writer_Null = ''$-1'' @ CRLF"

definition Writer_ArrayLen :: "int \<Rightarrow> string" where
  "Writer_ArrayLen n = ''*'' @ FormatInt n @ CRLF"

definition Writer_NullArray :: string where
  "Writer_NullArray = ''*-1'' @ CRLF"

definition Writer_WriteRaw :: "string \<Rightarrow> string" where
  "Writer_WriteRaw data = data"

definition Writer_Command :: "string list \<Rightarrow> string" where
  "Writer_Command args = Writer_ArrayLen (int (length args)) @ concat (map Writer_Bulk args)"

section \<open>A command is read as it was written\<close>

lemma ReadString_line: "CHR 0x0A \<notin> set s \<Longrightarrow> ReadString (s @ CHR 0x0A # rest) = Inr (s @ [CHR 0x0A], rest)"
  by (induction s) auto

lemma TrimSuffix_append [simp]: "TrimSuffix (s @ p) p = s"
  by (simp add: TrimSuffix_def)

lemma readLine_line: "CHR 0x0A \<notin> set s \<Longrightarrow> readLine (s @ CRLF @ rest) = Inr (s, rest)"
  using ReadString_line [of "s @ [CHR 0x0D]" rest] TrimSuffix_append [of "s @ [CHR 0x0D]" "[CHR 0x0A]"]
  by (simp add: readLine_def)

lemma FormatInt_no_newline: "CHR 0x0A \<notin> set (FormatInt n)"
  using format_nat_digits [of "CHR 0x0A"] by (auto simp: FormatInt_def is_digit_def)

lemma readLen_FormatInt: "int64 n \<Longrightarrow> readLen (FormatInt n @ CRLF @ rest) = Inr (n, rest)"
  by (simp add: readLen_def readLine_line [OF FormatInt_no_newline, simplified] ParseInt_FormatInt)

text \<open>The lengths that can be announced.\<close>

definition sendable :: "string \<Rightarrow> bool" where
  "sendable s \<longleftrightarrow> int (length s) + 2 < 2 ^ 63"

lemma read_bulk_written: "sendable s \<Longrightarrow> read_bulk (int (length s)) (s @ CRLF @ rest) = Inr (s, rest)"
  by (simp add: read_bulk_def Let_def sendable_def wrap64_id int64_def ReadFull_def nat_add_distrib nth_append)

lemma sendable_int64: "sendable s \<Longrightarrow> int64 (int (length s))"
  by (simp add: sendable_def int64_def)

lemma read_parts_written:
  "list_all sendable args \<Longrightarrow> read_parts (length args) parts (concat (map Writer_Bulk args) @ rest) = Inr (parts @ args, rest)"
proof (induction args arbitrary: parts)
  case (Cons a args)
  have "readLen (FormatInt (int (length a)) @ CRLF @ a @ CRLF @ concat (map Writer_Bulk args) @ rest) =
      Inr (int (length a), a @ CRLF @ concat (map Writer_Bulk args) @ rest)"
    using Cons.prems by (intro readLen_FormatInt) (simp add: sendable_int64)
  moreover have "read_bulk (int (length a)) (a @ CRLF @ concat (map Writer_Bulk args) @ rest) = Inr (a, concat (map Writer_Bulk args) @ rest)"
    using Cons.prems by (intro read_bulk_written) simp
  ultimately show ?case using Cons.IH [of "parts @ [a]"] Cons.prems by (simp add: Writer_Bulk_def [of a])
qed simp

text \<open>C13: What a client writes with \<open>Command\<close>, whatever bytes its arguments contain, is what the server's \<open>ReadCommand\<close> reads, and
  the reader stops exactly at the end of the command, so that pipelined commands are read one after the other.\<close>

theorem command_roundtrip:
  assumes "list_all sendable args" "int (length args) < 2 ^ 63"
  shows "ReadCommand (Writer_Command args @ rest) = Inr (args, rest)"
proof -
  have "readLen (FormatInt (int (length args)) @ CRLF @ concat (map Writer_Bulk args) @ rest) =
      Inr (int (length args), concat (map Writer_Bulk args) @ rest)"
    using assms(2) by (intro readLen_FormatInt) (simp add: int64_def)
  then show ?thesis using read_parts_written [OF assms(1), of "[]" rest] by (simp add: ReadCommand_def Writer_Command_def Writer_ArrayLen_def)
qed

theorem command_roundtrip_witness:
  "ReadCommand (Writer_Command [''SET'', ''k'', [CHR 0x0D, CHR 0x0A]] @ ''rest'') = Inr ([''SET'', ''k'', [CHR 0x0D, CHR 0x0A]], ''rest'')"
  by (rule command_roundtrip) (simp_all add: sendable_def)

text \<open>A negative count in the header of a command, or a negative length of an argument, panics the reader, which runs in
  the server before any authentication.\<close>

theorem negative_length_panics:
  assumes "n < 0" "int64 n" "2 \<le> length rest"
  shows "(\<exists>m. ReadCommand (''*'' @ FormatInt n @ CRLF @ rest) = Inl (Panic m)) \<and>
    (\<exists>m. ReadCommand (''*1'' @ CRLF @ ''$'' @ FormatInt n @ CRLF @ rest) = Inl (Panic m))"
proof
  show "\<exists>m. ReadCommand (''*'' @ FormatInt n @ CRLF @ rest) = Inl (Panic m)"
    using assms readLen_FormatInt [of n rest] by (simp add: ReadCommand_def)
  have "FormatInt 1 = ''1''" by code_simp
  then have "readLen (''1'' @ CRLF @ ''$'' @ FormatInt n @ CRLF @ rest) = Inr (1, ''$'' @ FormatInt n @ CRLF @ rest)"
    using readLen_FormatInt [of 1 "''$'' @ FormatInt n @ CRLF @ rest"] by (simp add: int64_def)
  moreover have "wrap64 (n + 2) = n + 2" using assms by (intro wrap64_id) (simp add: int64_def)
  then have "\<exists>m. read_bulk n rest = Inl (Panic m)" using assms by (auto simp: read_bulk_def Let_def ReadFull_def)
  ultimately show "\<exists>m. ReadCommand (''*1'' @ CRLF @ ''$'' @ FormatInt n @ CRLF @ rest) = Inl (Panic m)"
    using readLen_FormatInt [OF assms(2), of rest] by (auto simp: ReadCommand_def)
qed

theorem negative_length_panics_witness:
  "\<exists>m. ReadCommand (''*-1'' @ CRLF @ ''xy'') = Inl (Panic m)"
proof -
  have "FormatInt (-1) = ''-1''" by code_simp
  then show ?thesis using negative_length_panics [of "-1" "''xy''"] by (simp add: int64_def)
qed

section \<open>A reply is read as it was written\<close>

fun write_value :: "resp_value \<Rightarrow> string" where
  "write_value (RValue SimpleString text n items null) = Writer_Simple text"
| "write_value (RValue ErrorString text n items null) = Writer_Error text"
| "write_value (RValue Integer text n items null) = Writer_Int n"
| "write_value (RValue BulkString text n items null) = (if null then Writer_Null else Writer_Bulk text)"
| "write_value (RValue Array text n items null) =
     (if null then Writer_NullArray else Writer_ArrayLen (int (length items)) @ concat (map write_value items))"

text \<open>The values that \<open>ReadValue\<close> produces: fields that the type does not use are zero, and a line contains no line feed.\<close>

fun wf_value :: "resp_value \<Rightarrow> bool" where
  "wf_value (RValue t text n items null) =
     (case t of
        Integer \<Rightarrow> text = [] \<and> int64 n \<and> items = [] \<and> \<not> null
      | BulkString \<Rightarrow> n = 0 \<and> items = [] \<and> (if null then text = [] else sendable text)
      | Array \<Rightarrow> n = 0 \<and> text = [] \<and> (if null then items = [] else int (length items) < 2 ^ 63 \<and> list_all wf_value items)
      | _ \<Rightarrow> CHR 0x0A \<notin> set text \<and> n = 0 \<and> items = [] \<and> \<not> null)"

lemma readLen_minus: "readLen (CHR ''-'' # CHR ''1'' # CHR 0x0D # CHR 0x0A # rest) = Inr (-1, rest)"
proof -
  have "FormatInt (-1) = ''-1''" by code_simp
  then show ?thesis using readLen_FormatInt [of "-1" rest] by (simp add: int64_def)
qed

lemma write_value_ne: "write_value v \<noteq> []"
  by (cases v; cases "rtype v") (auto simp: Writer_Simple_def Writer_Error_def Writer_Int_def Writer_Bulk_def Writer_Null_def
      Writer_ArrayLen_def Writer_NullArray_def)

lemma read_items_written:
  assumes "\<And>v rest. v \<in> set vs \<Longrightarrow> read_value fuel (write_value v @ rest) = Some (Inr (v, rest))"
  shows "read_items fuel (length vs) items (concat (map write_value vs) @ rest) = Some (Inr (items @ vs, rest))"
  using assms by (induction vs arbitrary: items) auto

lemma read_value_written:
  "wf_value v \<Longrightarrow> length (write_value v) \<le> fuel \<Longrightarrow> read_value fuel (write_value v @ rest) = Some (Inr (v, rest))"
proof (induction v arbitrary: fuel rest)
  case (RValue t tx n items null)
  obtain g where g: "fuel = Suc g" using RValue.prems(2) write_value_ne [of "RValue t tx n items null"] by (cases fuel) auto
  show ?case
  proof (cases t)
    case SimpleString
    then show ?thesis using RValue.prems readLine_line [of tx rest] by (simp add: g Writer_Simple_def)
  next
    case ErrorString
    then show ?thesis using RValue.prems readLine_line [of tx rest] by (simp add: g Writer_Error_def)
  next
    case Integer
    then show ?thesis using RValue.prems readLine_line [OF FormatInt_no_newline, of n rest]
      by (simp add: g Writer_Int_def ParseInt_FormatInt)
  next
    case BulkString
    have "\<not> null \<Longrightarrow> readLen (FormatInt (int (length tx)) @ CRLF @ tx @ CRLF @ rest) = Inr (int (length tx), tx @ CRLF @ rest)"
      using RValue.prems BulkString by (intro readLen_FormatInt) (simp add: sendable_int64)
    then show ?thesis using RValue.prems BulkString read_bulk_written [of tx rest]
      by (cases null) (simp_all add: g Writer_Bulk_def Writer_Null_def readLen_minus)
  next
    case Array
    show ?thesis
    proof (cases null)
      case True
      then show ?thesis using RValue.prems Array by (simp add: g Writer_NullArray_def readLen_minus)
    next
      case False
      let ?body = "concat (map write_value items)"
      have "length (write_value v) \<le> g" if "v \<in> set items" for v
        using RValue.prems(2) that False Array split_list [OF that] by (auto simp: g Writer_ArrayLen_def)
      then have "read_value g (write_value v @ r) = Some (Inr (v, r))" if "v \<in> set items" for v r
        using RValue.IH [OF that] RValue.prems(1) that False Array by (auto simp: list_all_iff)
      then have "read_items g (length items) [] (?body @ rest) = Some (Inr (items, rest))"
        using read_items_written [of items g "[]" rest] by simp
      moreover have "readLen (FormatInt (int (length items)) @ CRLF @ ?body @ rest) = Inr (int (length items), ?body @ rest)"
        using RValue.prems(1) Array False by (intro readLen_FormatInt) (simp add: int64_def)
      ultimately show ?thesis using RValue.prems Array False by (simp add: g Writer_ArrayLen_def)
    qed
  qed
qed

text \<open>What the server writes is what a client's \<open>ReadValue\<close> reads: simple strings, errors, integers, bulk strings, arrays
  nested to any depth and the two nulls, as long as simple strings and errors contain no line feed.\<close>

theorem value_roundtrip:
  assumes "wf_value v"
  shows "ReadValue (write_value v @ rest) = Some (Inr (v, rest))"
  unfolding ReadValue_def by (rule read_value_written [OF assms]) simp

theorem value_roundtrip_witness:
  "ReadValue (write_value (RValue Array '''' 0 [RValue BulkString ''a'' 0 [] False, RValue Integer '''' 7 [] False] False) @ ''x'') =
     Some (Inr (RValue Array '''' 0 [RValue BulkString ''a'' 0 [] False, RValue Integer '''' 7 [] False] False, ''x''))"
  by (rule value_roundtrip) (simp add: sendable_def int64_def)

section \<open>Reading a value ends\<close>

lemma ReadByte_shorter: "ReadByte bs = Inr (b, rest) \<Longrightarrow> length rest < length bs"
  by (cases bs) auto

lemma ReadString_shorter: "ReadString bs = Inr (line, rest) \<Longrightarrow> length rest < length bs"
  by (induction bs arbitrary: line) (fastforce split: if_splits sum.splits)+

lemma readLine_shorter: "readLine bs = Inr (line, rest) \<Longrightarrow> length rest < length bs"
  using ReadString_shorter by (auto simp: readLine_def split: sum.splits)

lemma readLen_shorter: "readLen bs = Inr (n, rest) \<Longrightarrow> length rest < length bs"
  using readLine_shorter by (auto simp: readLen_def split: sum.splits prod.splits option.splits)

lemma read_bulk_shorter: "read_bulk n bs = Inr (x, rest) \<Longrightarrow> length rest \<le> length bs"
  by (auto simp: read_bulk_def ReadFull_def Let_def split: if_splits)

lemmas shorter = ReadByte_shorter readLine_shorter readLen_shorter read_bulk_shorter

lemma read_value_shorter:
  "read_value fuel bs = Some (Inr (v, rest)) \<Longrightarrow> length rest < length bs"
  "read_items fuel n items bs = Some (Inr (vs, rest)) \<Longrightarrow> length rest \<le> length bs"
proof (induction fuel bs and fuel n items bs arbitrary: v rest and vs rest rule: read_value_read_items.induct)
  case (2 fuel bs)
  then show ?case
    by (fastforce split: sum.splits prod.splits if_splits option.splits dest!: shorter)
next
  case (4 fuel n items bs)
  then show ?case by (fastforce split: option.splits sum.splits)
qed auto

lemma read_value_total:
  "length bs < fuel \<Longrightarrow> read_value fuel bs \<noteq> None"
  "length bs < fuel \<Longrightarrow> read_items fuel n items bs \<noteq> None"
proof (induction fuel bs and fuel n items bs rule: read_value_read_items.induct)
  case (2 fuel bs)
  have "length ds < fuel" if "ReadByte bs = Inr (b, cs)" "readLen cs = Inr (n, ds)" for b cs n ds
    using that "2.prems" by (auto dest!: shorter)
  with "2.IH" show ?case by (fastforce split: sum.splits prod.splits if_splits option.splits)
next
  case (4 fuel n items bs)
  have "length cs < fuel" if "read_value fuel bs = Some (Inr (v, cs))" for v cs
    using read_value_shorter(1) [OF that] "4.prems" by simp
  with 4 show ?case by (fastforce split: option.splits sum.splits)
qed auto

text \<open>Reading a value ends on every input, with a value and the rest of the bytes or with an error: the nesting of arrays
  is bounded by the number of bytes.\<close>

theorem ReadValue_returns:
  "(\<exists>e. ReadValue bs = Some (Inl e)) \<or> (\<exists>v rest. ReadValue bs = Some (Inr (v, rest)) \<and> length rest < length bs)"
proof -
  obtain r where r: "ReadValue bs = Some r" using read_value_total(1) [of bs "Suc (length bs)"] by (auto simp: ReadValue_def)
  then show ?thesis using read_value_shorter(1) [of "Suc (length bs)" bs] by (cases r) (auto simp: ReadValue_def)
qed

end
