(* ===== verification/Vole_Text.thy ===== *)
theory Vole_Text
  imports Vole_Resp Vole_Float
begin

text \<open>
  What the server uses of Go's \<open>strings\<close>, \<open>strconv\<close> and \<open>fmt\<close> packages beyond decimal integers: splitting and replacing, numbers
  with a base prefix as \<open>fmt.Sscan\<close> reads them, and floating-point numbers.  \<open>ParseFloat s\<close> is \<open>strconv.ParseFloat(s, 64)\<close> and
  \<open>FormatFloat f\<close> is \<open>strconv.FormatFloat(f, 'f', -1, 64)\<close>.
\<close>

section \<open>Splitting and replacing\<close>

fun Split :: "char \<Rightarrow> string \<Rightarrow> string list" where
  "Split sep [] = [[]]"
| "Split sep (c # s) =
     (if c = sep then [] # Split sep s
      else case Split sep s of p # ps \<Rightarrow> (c # p) # ps | [] \<Rightarrow> [[c]])"

fun Join :: "char \<Rightarrow> string list \<Rightarrow> string" where
  "Join sep [] = []"
| "Join sep [s] = s"
| "Join sep (s # ss) = s @ sep # Join sep ss"

text \<open>\<open>strings.SplitN(s, sep, 2)\<close> when it has two parts.\<close>

fun SplitN2 :: "char \<Rightarrow> string \<Rightarrow> (string \<times> string) option" where
  "SplitN2 sep [] = None"
| "SplitN2 sep (c # s) =
     (if c = sep then Some ([], s) else map_option (\<lambda>(a, b). (c # a, b)) (SplitN2 sep s))"

text \<open>\<open>strings.ReplaceAll\<close> for a non-empty pattern.\<close>

definition HasPrefix :: "string \<Rightarrow> string \<Rightarrow> bool" where
  "HasPrefix s p \<longleftrightarrow> take (length p) s = p"

lemma HasPrefix_length: "HasPrefix s p \<Longrightarrow> length p \<le> length s"
  by (metis HasPrefix_def length_take min.cobounded1)

lemma HasPrefix_shorter: "HasPrefix s p \<Longrightarrow> p \<noteq> [] \<Longrightarrow> length s - length p < length s"
  using HasPrefix_length [of s p] by (cases p) auto

function ReplaceAll :: "string \<Rightarrow> string \<Rightarrow> string \<Rightarrow> string" where
  "ReplaceAll p r s =
     (if p \<noteq> [] \<and> HasPrefix s p then r @ ReplaceAll p r (drop (length p) s)
      else case s of [] \<Rightarrow> [] | c # t \<Rightarrow> c # ReplaceAll p r t)"
  by pat_completeness auto
termination
  by (relation "measure (\<lambda>(p, r, s). length s)") (auto intro: HasPrefix_shorter)

declare ReplaceAll.simps [simp del]

text \<open>\<open>strings.IndexByte\<close>, and \<open>strings.LastIndex\<close> for one byte.\<close>

fun IndexByte :: "string \<Rightarrow> char \<Rightarrow> nat option" where
  "IndexByte [] c = None"
| "IndexByte (b # s) c = (if b = c then Some 0 else map_option Suc (IndexByte s c))"

definition LastIndex :: "string \<Rightarrow> char \<Rightarrow> nat option" where
  "LastIndex s c = map_option (\<lambda>i. length s - Suc i) (IndexByte (rev s) c)"

definition TrimPrefix :: "string \<Rightarrow> string \<Rightarrow> string" where
  "TrimPrefix s p = (if HasPrefix s p then drop (length p) s else s)"

text \<open>Case folding of ASCII letters; the program compares with ASCII keywords.\<close>

definition EqualFold :: "string \<Rightarrow> string \<Rightarrow> bool" where
  "EqualFold a b \<longleftrightarrow> ToLower a = ToLower b"

section \<open>Integers with a base prefix\<close>

definition lower_digit :: "char \<Rightarrow> nat option" where
  "lower_digit c =
     (let n = of_char (lower_char c) :: nat
      in if is_digit c then Some (digit_val c) else if 97 \<le> n \<and> n \<le> 122 then Some (n - 87) else None)"

definition digit_in :: "nat \<Rightarrow> char \<Rightarrow> bool" where
  "digit_in base c \<longleftrightarrow> (case lower_digit c of Some d \<Rightarrow> d < base | None \<Rightarrow> False)"

text \<open>\<open>underscoreOK\<close> of \<open>strconv\<close>: an underscore stands between digits, the base prefix counting as one.\<close>

datatype saw = SawNone | SawDigit | SawUnderscore | SawOther

fun underscore_loop :: "bool \<Rightarrow> saw \<Rightarrow> string \<Rightarrow> bool" where
  "underscore_loop hex i [] \<longleftrightarrow> i \<noteq> SawUnderscore"
| "underscore_loop hex i (c # s) \<longleftrightarrow>
     (if digit_in (if hex then 16 else 10) c then underscore_loop hex SawDigit s
      else if c = CHR ''_'' then i = SawDigit \<and> underscore_loop hex SawUnderscore s
      else i \<noteq> SawUnderscore \<and> underscore_loop hex SawOther s)"

definition drop_sign :: "string \<Rightarrow> string" where
  "drop_sign s = (if s \<noteq> [] \<and> (hd s = CHR ''+'' \<or> hd s = CHR ''-'') then tl s else s)"

definition base_prefix :: "string \<Rightarrow> nat option" where
  "base_prefix s =
     (if length s \<ge> 2 \<and> s ! 0 = CHR ''0''
      then (if lower_char (s ! 1) = CHR ''b'' then Some 2 else if lower_char (s ! 1) = CHR ''o'' then Some 8
            else if lower_char (s ! 1) = CHR ''x'' then Some 16 else None)
      else None)"

definition underscoreOK :: "string \<Rightarrow> bool" where
  "underscoreOK s =
     (let s = drop_sign s
      in case base_prefix s of
           Some b \<Rightarrow> underscore_loop (b = 16) SawDigit (drop 2 s)
         | None \<Rightarrow> underscore_loop False SawNone s)"

text \<open>
  \<open>strconv.ParseUint(s, base, 64)\<close> for an explicit base, and for base 0, where a prefix chooses the base and underscores are
  allowed; \<open>None\<close> stands for any error.
\<close>

fun digits_value :: "nat \<Rightarrow> nat \<Rightarrow> string \<Rightarrow> nat option" where
  "digits_value base n [] = (if n \<le> maxUint64 then Some n else None)"
| "digits_value base n (c # s) =
     (case lower_digit c of
        Some d \<Rightarrow> if d < base then digits_value base (n * base + d) s else None
      | None \<Rightarrow> None)"

definition ParseUint_base :: "nat \<Rightarrow> string \<Rightarrow> nat option" where
  "ParseUint_base base s = (if s = [] then None else digits_value base 0 s)"

definition ParseUint_0 :: "string \<Rightarrow> nat option" where
  "ParseUint_0 s =
     (if s = [] then None
      else
        let (base, digits) =
              (if s ! 0 = CHR ''0''
               then (if length s \<ge> 3 \<and> base_prefix s \<noteq> None then (the (base_prefix s), drop 2 s) else (8, tl s))
               else (10, s))
        in if CHR ''_'' \<in> set digits \<and> \<not> underscoreOK s then None
           else digits_value base 0 (filter (\<lambda>c. c \<noteq> CHR ''_'') digits))"

definition ParseInt_0 :: "string \<Rightarrow> int option" where
  "ParseInt_0 s =
     (let neg = (s \<noteq> [] \<and> hd s = CHR ''-'')
      in case ParseUint_0 (drop_sign s) of
           None \<Rightarrow> None
         | Some n \<Rightarrow>
             if neg then (if n \<le> 2 ^ 63 then Some (- int n) else None)
             else if n < 2 ^ 63 then Some (int n) else None)"

text \<open>
  \<open>fmt.Sscan(s, &n)\<close> for an \<open>int64\<close> variable that is 0 before: white space is skipped, the longest number is taken and the rest
  ignored; on an error the variable keeps its value.  After a leading 0 only octal digits are taken, unless a base letter
  follows.
\<close>

function skip_space :: "string \<Rightarrow> string" where
  "skip_space s = (if s = [] \<or> space_len s = 0 then s else skip_space (drop (space_len s) s))"
  by pat_completeness auto
termination by (relation "measure length") auto

declare skip_space.simps [simp del]

definition scan_digits :: "nat \<Rightarrow> string \<Rightarrow> string" where
  "scan_digits base s = takeWhile (\<lambda>c. digit_in base c \<or> c = CHR ''_'') s"

definition scan_number :: "string \<Rightarrow> string option" where
  "scan_number s =
     (if s = [] \<or> hd s \<noteq> CHR ''0'' then (let t = scan_digits 10 s in if t = [] then None else Some t)
      else case base_prefix s of
        Some b \<Rightarrow> Some (take 2 s @ scan_digits b (drop 2 s))
      | None \<Rightarrow> Some (CHR ''0'' # scan_digits 8 (tl s)))"

definition Sscan_int :: "string \<Rightarrow> int" where
  "Sscan_int s =
     (let s = skip_space s;
          sign = take (length s - length (drop_sign s)) s
      in case scan_number (drop_sign s) of
           None \<Rightarrow> 0
         | Some tok \<Rightarrow> (case ParseInt_0 (sign @ tok) of None \<Rightarrow> 0 | Some n \<Rightarrow> n))"

section \<open>Floating-point numbers\<close>

text \<open>The mantissa of \<open>readFloat\<close>: its digits as a number, how many of them follow the point, and the rest of the string.\<close>

record mantissa =
  mant :: nat
  frac :: nat
  sawdot :: bool
  sawdigits :: bool

fun mant_loop :: "nat \<Rightarrow> mantissa \<Rightarrow> string \<Rightarrow> mantissa \<times> string" where
  "mant_loop base m [] = (m, [])"
| "mant_loop base m (c # s) =
     (if c = CHR ''_'' then mant_loop base m s
      else if c = CHR ''.'' then (if sawdot m then (m, c # s) else mant_loop base (m\<lparr>sawdot := True\<rparr>) s)
      else if digit_in base c
      then mant_loop base (m\<lparr>mant := mant m * base + the (lower_digit c),
             frac := (if sawdot m then Suc (frac m) else frac m), sawdigits := True\<rparr>) s
      else (m, c # s))"

fun exp_loop :: "nat \<Rightarrow> string \<Rightarrow> nat \<times> string" where
  "exp_loop e [] = (e, [])"
| "exp_loop e (c # s) =
     (if c = CHR ''_'' then exp_loop e s
      else if is_digit c then exp_loop (if e < 10000 then e * 10 + digit_val c else e) s
      else (e, c # s))"

definition pow_int :: "nat \<Rightarrow> int \<Rightarrow> rat" where
  "pow_int b e = (if 0 \<le> e then of_nat b ^ nat e else 1 / of_nat b ^ nat (- e))"

text \<open>
  The exponent part that follows the mantissa: \<open>Some\<close> exponent when the string ends there.  A hexadecimal mantissa must have one.
\<close>

definition read_exp :: "bool \<Rightarrow> string \<Rightarrow> int option" where
  "read_exp hex s =
     (if s \<noteq> [] \<and> lower_char (hd s) = (if hex then CHR ''p'' else CHR ''e'')
      then let t = drop_sign (tl s); neg = (tl s \<noteq> [] \<and> hd (tl s) = CHR ''-'')
           in if t = [] \<or> \<not> is_digit (hd t) then None
              else (case exp_loop 0 t of (e, []) \<Rightarrow> Some (if neg then - int e else int e) | _ \<Rightarrow> None)
      else if hex then None else if s = [] then Some 0 else None)"

definition readFloat :: "string \<Rightarrow> rat option" where
  "readFloat s =
     (let neg = (s \<noteq> [] \<and> hd s = CHR ''-''); t = drop_sign s;
          hex = (length t > 2 \<and> base_prefix t = Some 16)
      in case mant_loop (if hex then 16 else 10) \<lparr>mant = 0, frac = 0, sawdot = False, sawdigits = False\<rparr>
             (if hex then drop 2 t else t) of
           (m, rest) \<Rightarrow>
             if \<not> sawdigits m then None
             else case read_exp hex rest of
               None \<Rightarrow> None
             | Some e \<Rightarrow>
                 if CHR ''_'' \<in> set s \<and> \<not> underscoreOK s then None
                 else let r = of_nat (mant m) * (if hex then pow_int 2 (e - 4 * int (frac m)) else pow_int 10 (e - int (frac m)))
                      in Some (if neg then - r else r))"

definition special_float :: "string \<Rightarrow> float64 option" where
  "special_float s =
     (let t = ToLower (drop_sign s)
      in if t = ''inf'' \<or> t = ''infinity'' then Some (if hd s = CHR ''-'' then NInf else PInf)
         else if ToLower s = ''nan'' then Some NaN else None)"

definition ParseFloat :: "string \<Rightarrow> num_error + float64" where
  "ParseFloat s =
     (case special_float s of
        Some f \<Rightarrow> Inr f
      | None \<Rightarrow>
          (case readFloat s of
             None \<Rightarrow> Inl ErrSyntax
           | Some r \<Rightarrow> (case round64 r of Fin q \<Rightarrow> Inr (Fin q) | _ \<Rightarrow> Inl ErrRange)))"

text \<open>
  \<open>FormatFloat\<close> prints the shortest decimal number that is read back as the same value, the nearest one if there are several:
  the multiple of the largest power of ten that rounds to the value.
\<close>

definition pad_nat :: "nat \<Rightarrow> nat \<Rightarrow> string" where
  "pad_nat k n = replicate (k - length (format_nat n)) CHR ''0'' @ format_nat n"

definition decimal_text :: "nat \<Rightarrow> int \<Rightarrow> string" where
  "decimal_text m q =
     (if 0 \<le> q then format_nat (m * 10 ^ nat q)
      else let d = 10 ^ nat (- q) in format_nat (m div d) @ CHR ''.'' # pad_nat (nat (- q)) (m mod d))"

definition shortest_at :: "rat \<Rightarrow> int \<Rightarrow> nat option" where
  "shortest_at x q =
     (let u = pow_int 10 q; lo = nat \<lfloor>x / u\<rfloor>;
          ok = (\<lambda>m. round64 (of_nat m * u) = Fin x)
      in if ok lo \<and> (\<not> ok (Suc lo) \<or> x - of_nat lo * u \<le> of_nat (Suc lo) * u - x) then Some lo
         else if ok (Suc lo) then Some (Suc lo) else None)"

fun shortest_loop :: "nat \<Rightarrow> rat \<Rightarrow> int \<Rightarrow> (nat \<times> int) option" where
  "shortest_loop 0 x q = None"
| "shortest_loop (Suc n) x q =
     (case shortest_at x q of Some m \<Rightarrow> Some (m, q) | None \<Rightarrow> shortest_loop n x (q - 1))"

text \<open>Every value is a multiple of \<open>2\<^sup>-\<^sup>1\<^sup>0\<^sup>7\<^sup>4\<close>, hence of \<open>10\<^sup>-\<^sup>1\<^sup>0\<^sup>7\<^sup>4\<close>: the search ends there at the latest.\<close>

definition shortest :: "rat \<Rightarrow> (nat \<times> int) option" where
  "shortest x = (let q = int (length (format_nat (nat \<lfloor>x\<rfloor>))) in shortest_loop (nat (q + 1075)) x q)"

definition FormatFloat :: "float64 \<Rightarrow> string" where
  "FormatFloat f =
     (case f of
        NaN \<Rightarrow> ''NaN''
      | PInf \<Rightarrow> ''+Inf''
      | NInf \<Rightarrow> ''-Inf''
      | Fin r \<Rightarrow>
          if r = 0 then ''0''
          else (if r < 0 then [CHR ''-''] else []) @
               (case shortest \<bar>r\<bar> of Some (m, q) \<Rightarrow> decimal_text m q | None \<Rightarrow> ''''))"

text \<open>The longest prefix of a string that looks like a number: \<open>floatToken\<close> of \<open>fmt\<close>.\<close>

definition accept :: "char set \<Rightarrow> string \<Rightarrow> string" where
  "accept C s = (if s \<noteq> [] \<and> hd s \<in> C then [hd s] else [])"

definition float_digits :: "nat \<Rightarrow> char \<Rightarrow> string \<Rightarrow> string" where
  "float_digits base p s =
     (let i = scan_digits base s; s = drop (length i) s;
          d = accept {CHR ''.''} s; s = drop (length d) s;
          f = (if d = [] then [] else scan_digits base s); s = drop (length f) s;
          e = accept (if p = CHR ''p'' then {CHR ''p'', CHR ''P''} else {CHR ''e'', CHR ''E'', CHR ''p'', CHR ''P''}) s;
          s = drop (length e) s;
          sg = (if e = [] then [] else accept {CHR ''+'', CHR ''-''} s); s = drop (length sg) s;
          x = (if e = [] then [] else scan_digits 10 s)
      in i @ d @ f @ e @ sg @ x)"

definition floatToken :: "string \<Rightarrow> string" where
  "floatToken s =
     (if ToLower (take 3 s) = ''nan'' then take 3 s
      else
        let sg = accept {CHR ''+'', CHR ''-''} s; t = drop (length sg) s
        in if ToLower (take 3 t) = ''inf'' then sg @ take 3 t
           else if base_prefix t = Some 16 then sg @ take 2 t @ float_digits 16 CHR ''p'' (drop 2 t)
           else sg @ float_digits 10 CHR ''e'' t)"

text \<open>\<open>fmt.Sscan(s, &f)\<close> for a \<open>float64\<close> variable that is 0 before; a decimal mantissa may have a binary exponent.\<close>

definition Ldexp :: "float64 \<Rightarrow> int \<Rightarrow> float64" where
  "Ldexp f e = (case f of Fin r \<Rightarrow> round64 (r * pow2 e) | _ \<Rightarrow> f)"

definition convertFloat :: "string \<Rightarrow> float64 option" where
  "convertFloat tok =
     (case IndexByte tok CHR ''p'' of
        Some i \<Rightarrow>
          if CHR ''x'' \<notin> set tok \<and> CHR ''X'' \<notin> set tok
          then (case (ParseFloat (take i tok), Atoi (drop (Suc i) tok)) of
                  (Inr f, (e, None)) \<Rightarrow> Some (Ldexp f e) | _ \<Rightarrow> None)
          else (case ParseFloat tok of Inr f \<Rightarrow> Some f | Inl _ \<Rightarrow> None)
      | None \<Rightarrow> (case ParseFloat tok of Inr f \<Rightarrow> Some f | Inl _ \<Rightarrow> None))"

definition Sscan_float :: "string \<Rightarrow> float64" where
  "Sscan_float s = (case convertFloat (floatToken (skip_space s)) of Some f \<Rightarrow> f | None \<Rightarrow> Fin 0)"

section \<open>Rounding a rounded value\<close>

lemma pow2_powi: "pow2 e = 2 powi e"
  by (simp add: pow2_def power_int_def power_divide inverse_eq_divide)

lemma pow2_add: "pow2 (a + b) = pow2 a * pow2 b"
  by (simp add: pow2_powi power_int_add)

lemma pow2_less: "pow2 a < pow2 b \<longleftrightarrow> a < b"
proof -
  have mono: "pow2 a < pow2 b" if "a < b" for a b
  proof -
    have "(1 :: rat) < 2 ^ nat (b - a)" using that by (simp add: one_less_power)
    then have "pow2 a * 1 < pow2 a * pow2 (b - a)" using that by (simp add: pow2_def [of "b - a"])
    then show ?thesis by (simp flip: pow2_add)
  qed
  then show ?thesis by (metis less_asym linorder_less_linear)
qed

lemma ilog2_less: "n < 2 ^ Suc (ilog2 n)"
proof (induction n rule: ilog2.induct)
  case (1 n)
  then show ?case by (cases "n < 2") (auto simp: ilog2.simps [of n])
qed

lemma rat_exp_bounds:
  assumes "0 < r"
  shows "pow2 (rat_exp r) \<le> r \<and> r < pow2 (rat_exp r + 1)"
proof -
  obtain p q where pq: "quotient_of r = (p, q)" by fastforce
  then have r: "r = of_int p / of_int q" "0 < q" by (simp_all add: quotient_of_div quotient_of_denom_pos)
  then have "0 < p" using assms by (simp add: zero_less_divide_iff)
  define a b where "a = ilog2 (nat p)" "b = ilog2 (nat q)"
  have bounds: "pow2 (int (ilog2 (nat m))) \<le> of_int m \<and> of_int m < pow2 (int (ilog2 (nat m)) + 1)" if "0 < m" for m
  proof -
    have "2 ^ ilog2 (nat m) \<le> m" using ilog2_le [of "nat m"] that by (metis of_nat_le_iff of_nat_numeral of_nat_power pos_int_cases nat_int zero_less_nat_eq)
    moreover have "m < 2 ^ Suc (ilog2 (nat m))" using ilog2_less [of "nat m"] that by (metis of_nat_less_iff of_nat_numeral of_nat_power pos_int_cases nat_int)
    ultimately have "(2 :: rat) ^ ilog2 (nat m) \<le> of_int m" "of_int m < (2 :: rat) ^ Suc (ilog2 (nat m))"
      by (metis of_int_le_iff of_int_numeral of_int_power) (metis \<open>m < 2 ^ Suc (ilog2 (nat m))\<close> of_int_less_iff of_int_numeral of_int_power)
    then show ?thesis by (simp add: pow2_def nat_add_distrib)
  qed
  have ap: "pow2 (int a) \<le> of_int p" "of_int p < pow2 (int a + 1)" and bq: "pow2 (int b) \<le> of_int q" "of_int q < pow2 (int b + 1)"
    using bounds [OF \<open>0 < p\<close>] bounds [OF \<open>0 < q\<close>] by (simp_all add: a_b_def)
  have up: "r < pow2 (int a - int b + 1)"
  proof -
    have "r * pow2 (int b) \<le> r * of_int q" using assms bq by (simp add: mult_left_mono)
    also have "\<dots> < pow2 (int a + 1)" using ap r by simp
    also have "\<dots> = pow2 (int a - int b + 1) * pow2 (int b)" by (simp flip: pow2_add)
    finally show ?thesis by simp
  qed
  have low: "pow2 (int a - int b - 1) \<le> r"
  proof -
    have "pow2 (int a - int b - 1) * of_int q \<le> pow2 (int a - int b - 1) * pow2 (int b + 1)"
      using bq by (simp add: less_imp_le)
    also have "\<dots> = pow2 (int a)" by (simp flip: pow2_add)
    also have "\<dots> \<le> r * of_int q" using ap r by simp
    finally show ?thesis using \<open>0 < q\<close> by simp
  qed
  have "rat_exp r = (if pow2 (int a - int b) \<le> r then int a - int b else int a - int b - 1)"
    by (simp add: rat_exp_def pq a_b_def)
  then show ?thesis using up low by auto
qed

lemma rat_exp_le: "0 < x \<Longrightarrow> x < pow2 (e + 1) \<Longrightarrow> rat_exp x \<le> e"
  using rat_exp_bounds [of x] pow2_less [of "rat_exp x" "e + 1"] by simp

lemma round_half_even_le:
  assumes "t \<le> of_int n" shows "round_half_even t \<le> n"
proof (cases "t = of_int n")
  case False
  then have "\<lfloor>t\<rfloor> < n" using assms by (simp add: floor_less_iff)
  then show ?thesis by (auto simp: round_half_even_def Let_def)
qed simp

lemma round_half_even_ge: "0 \<le> t \<Longrightarrow> 0 \<le> round_half_even t"
  by (auto simp: round_half_even_def Let_def)

text \<open>A multiple \<open>n 2\<^sup>E\<close> with \<open>n < 2\<^sup>5\<^sup>3\<close>, \<open>-1074 \<le> E\<close> below the overflow threshold is a \<open>float64\<close>.\<close>

lemma round64_grid:
  assumes "0 \<le> n" "n < 2 ^ 53" "- 1074 \<le> E" "of_int n * pow2 E < pow2 1024"
  shows "round64 (of_int n * pow2 E) = Fin (of_int n * pow2 E)"
proof (cases "n = 0")
  case True then show ?thesis by (simp add: round64_def)
next
  case False
  define x where "x = of_int n * pow2 E"
  have x: "0 < x" using False assms(1) by (simp add: x_def)
  have "of_int n < (of_int (2 ^ 53) :: rat)" using assms(2) by (simp only: of_int_less_iff)
  then have "of_int n < pow2 53" by (simp add: pow2_def)
  then have "x < pow2 53 * pow2 E" unfolding x_def by (rule mult_strict_right_mono) simp
  then have "x < pow2 (E + 52 + 1)" by (simp flip: pow2_add add: add.commute)
  then have e: "max (rat_exp x - 52) (- 1074) \<le> E" using rat_exp_le [OF x] assms(3) by fastforce
  define F where "F = max (rat_exp x - 52) (- 1074)"
  have "pow2 E = of_int (2 ^ nat (E - F)) * pow2 F"
  proof -
    have "pow2 E = pow2 (E - F) * pow2 F" by (simp flip: pow2_add)
    then show ?thesis using e by (simp add: pow2_def F_def)
  qed
  then have xF: "x = of_int (n * 2 ^ nat (E - F)) * pow2 F" by (simp add: x_def)
  have "x / pow2 F = of_int (n * 2 ^ nat (E - F))" unfolding xF by (simp add: less_imp_neq [OF pow2_pos, symmetric])
  then have "of_int (round_half_even (x / pow2 F)) * pow2 F = x" using xF by (simp only: round_half_even_int)
  then show ?thesis
    using x assms(4) unfolding x_def [symmetric] round64_def Let_def by (simp add: F_def)
qed

lemma round64_idem:
  assumes "round64 r = Fin x"
  shows "round64 x = Fin x"
proof (cases "r = 0")
  case True then show ?thesis using assms by (auto simp: round64_def)
next
  case False
  define E where "E = max (rat_exp \<bar>r\<bar> - 52) (- 1074)"
  define n where "n = round_half_even (\<bar>r\<bar> / pow2 E)"
  have x: "x = (if r < 0 then - (of_int n * pow2 E) else of_int n * pow2 E)" "of_int n * pow2 E < pow2 1024"
    using assms False unfolding round64_def Let_def E_def [symmetric] n_def [symmetric] by (auto split: if_splits)
  have n0: "0 \<le> n" unfolding n_def by (rule round_half_even_ge) (simp add: less_imp_le)
  have "\<bar>r\<bar> < pow2 (rat_exp \<bar>r\<bar> + 1)" using rat_exp_bounds [of "\<bar>r\<bar>"] False by simp
  also have "\<dots> \<le> pow2 (E + 53)" using pow2_less [of "E + 53" "rat_exp \<bar>r\<bar> + 1"] by (fastforce simp: E_def not_less)
  also have "\<dots> = of_int (2 ^ 53) * pow2 E" by (simp add: pow2_add add.commute [of E] pow2_def [of 53])
  finally have "\<bar>r\<bar> / pow2 E \<le> of_int (2 ^ 53)" using pow2_pos [of E] by (simp add: pos_divide_le_eq)
  then have n53: "n \<le> 2 ^ 53" unfolding n_def by (rule round_half_even_le)
  have "round64 (of_int n * pow2 E) = Fin (of_int n * pow2 E)"
  proof (cases "n = 2 ^ 53")
    case True
    have "of_int n * pow2 E = of_int 1 * pow2 (E + 53)" using True by (simp add: pow2_add add.commute [of E] pow2_def [of 53])
    then show ?thesis using round64_grid [of 1 "E + 53"] x(2) by (simp add: E_def)
  next
    case False
    then show ?thesis using round64_grid [OF n0 _ _ x(2)] n53 by (simp add: E_def)
  qed
  moreover have "round64 (- y) = Fin (- y)" if "round64 y = Fin y" for y
    using that by (auto simp: round64_def Let_def split: if_splits)
  ultimately show ?thesis using x(1) by (auto split: if_splits)
qed

section \<open>Printing and reading back\<close>

definition representable :: "rat \<Rightarrow> bool" where
  "representable x \<longleftrightarrow> round64 x = Fin x"

lemma lower_digit_digit: "is_digit c \<Longrightarrow> lower_digit c = Some (digit_val c)"
  by (simp add: lower_digit_def)

lemma digit_val_less: "is_digit c \<Longrightarrow> digit_val c < 10"
  by (auto simp: is_digit_def digit_val_def)

lemma digit_in_10: "is_digit c \<Longrightarrow> digit_in 10 c"
  by (simp add: digit_in_def lower_digit_digit digit_val_less)

lemma digit_not: "is_digit c \<Longrightarrow> c \<noteq> CHR ''_'' \<and> c \<noteq> CHR ''.'' \<and> c \<noteq> CHR ''+'' \<and> c \<noteq> CHR ''-''"
  by (auto simp: is_digit_def)

lemma lower_char_digit: "is_digit c \<Longrightarrow> lower_char c = c"
  by (auto simp: is_digit_def lower_char_def)

lemma mant_loop_digits:
  assumes "\<forall>c \<in> set ds. is_digit c"
  shows "mant_loop 10 m (ds @ rest) =
    mant_loop 10 (m\<lparr>mant := foldl (\<lambda>a c. 10 * a + digit_val c) (mant m) ds,
      frac := frac m + (if sawdot m then length ds else 0), sawdigits := sawdigits m \<or> ds \<noteq> []\<rparr>) rest"
  using assms
proof (induction ds arbitrary: m)
  case (Cons c ds)
  then have c: "is_digit c" "c \<noteq> CHR ''_''" "c \<noteq> CHR ''.''" using digit_not by auto
  show ?case using Cons c by (simp add: digit_in_10 lower_digit_digit mult.commute)
qed simp

lemma foldl_digits_zeros: "foldl (\<lambda>a c. 10 * a + digit_val c) 0 (replicate k CHR ''0'' @ ds) = foldl (\<lambda>a c. 10 * a + digit_val c) 0 ds"
  by (induction k) (simp_all add: digit_val_def)

lemma foldl_digits_shift:
  "foldl (\<lambda>a c. 10 * a + digit_val c) n ds = n * 10 ^ length ds + foldl (\<lambda>a c. 10 * a + digit_val c) 0 ds"
proof (induction ds arbitrary: n)
  case (Cons c ds)
  show ?case by (subst (1 2) foldl_Cons, subst (1 2) Cons.IH) (simp add: algebra_simps)
qed simp

lemma format_nat_length: "n < 10 ^ k \<Longrightarrow> 0 < k \<Longrightarrow> length (format_nat n) \<le> k"
proof (induction n arbitrary: k rule: format_nat.induct)
  case (1 n)
  show ?case
  proof (cases "n < 10")
    case True then show ?thesis using "1.prems" by (simp add: format_nat.simps [of n])
  next
    case False
    obtain j where j: "k = Suc j" using "1.prems" by (cases k) auto
    then have "0 < j" using False "1.prems" by (cases j) auto
    moreover have "n div 10 < 10 ^ j" using "1.prems" j by (simp add: less_mult_imp_div_less)
    ultimately have "length (format_nat (n div 10)) \<le> j" using 1 False by blast
    then show ?thesis using False j by (simp add: format_nat.simps [of n])
  qed
qed

lemma pad_nat_length: "n < 10 ^ k \<Longrightarrow> 0 < k \<Longrightarrow> length (pad_nat k n) = k"
  using format_nat_length [of n k] by (simp add: pad_nat_def)

lemma pad_nat_digits: "\<forall>c \<in> set (pad_nat k n). is_digit c"
  by (auto simp: pad_nat_def is_digit_def dest: format_nat_digits)

lemma pad_nat_value: "foldl (\<lambda>a c. 10 * a + digit_val c) 0 (pad_nat k n) = n"
  by (simp only: pad_nat_def foldl_digits_zeros format_nat_value)

abbreviation mant0 :: mantissa where
  "mant0 \<equiv> \<lparr>mant = 0, frac = 0, sawdot = False, sawdigits = False\<rparr>"

lemma mant_loop_all_digits:
  "\<forall>c \<in> set ds. is_digit c \<Longrightarrow> ds \<noteq> [] \<Longrightarrow>
   mant_loop 10 mant0 ds = (\<lparr>mant = foldl (\<lambda>a c. 10 * a + digit_val c) 0 ds, frac = 0, sawdot = False, sawdigits = True\<rparr>, [])"
  using mant_loop_digits [of ds mant0 "[]"] by simp

lemma decimal_text_mantissa:
  "\<exists>dot. mant_loop 10 mant0 (decimal_text m q) =
     (\<lparr>mant = (if 0 \<le> q then m * 10 ^ nat q else m), frac = nat (- q), sawdot = dot, sawdigits = True\<rparr>, [])"
proof (cases "0 \<le> q")
  case True
  then show ?thesis
    using mant_loop_all_digits [of "format_nat (m * 10 ^ nat q)"] format_nat_digits
    by (auto simp: decimal_text_def format_nat_value)
next
  case False
  define k d where "k = nat (- q)" "d = (10 :: nat) ^ k"
  then have pos: "0 < k" "0 < d" using False by auto
  let ?i = "format_nat (m div d)" and ?f = "pad_nat k (m mod d)"
  have len: "length ?f = k" using pos k_d_def pad_nat_length [of "m mod d" k] by simp
  have "mant_loop 10 mant0 (?i @ CHR ''.'' # ?f) = mant_loop 10 (mant0\<lparr>mant := m div d, sawdot := True, sawdigits := True\<rparr>) (?f @ [])"
    using mant_loop_digits [of ?i mant0 "CHR ''.'' # ?f"] format_nat_digits by (simp add: format_nat_value)
  also have "\<dots> = (\<lparr>mant = m div d * 10 ^ k + m mod d, frac = k, sawdot = True, sawdigits = True\<rparr>, [])"
    using mant_loop_digits [of ?f "mant0\<lparr>mant := m div d, sawdot := True, sawdigits := True\<rparr>" "[]"] pad_nat_digits len
    by (simp add: foldl_digits_shift [of "m div d"] pad_nat_value)
  also have "m div d * 10 ^ k + m mod d = m" unfolding k_d_def by (rule div_mult_mod_eq)
  finally show ?thesis using False by (intro exI [of _ True]) (simp add: decimal_text_def k_d_def Let_def)
qed

lemma decimal_text_chars:
  "c \<in> set (decimal_text m q) \<Longrightarrow> is_digit c \<or> c = CHR ''.''"
  by (auto simp: decimal_text_def Let_def pad_nat_def is_digit_def split: if_splits dest: format_nat_digits)

lemma decimal_text_hd: "decimal_text m q \<noteq> [] \<and> is_digit (hd (decimal_text m q))"
proof -
  have "is_digit (hd (format_nat n))" for n using format_nat_digits [of "hd (format_nat n)" n] by simp
  then show ?thesis by (auto simp: decimal_text_def Let_def hd_append)
qed

lemma base_prefix_digits: "\<forall>c \<in> set s. is_digit c \<or> c = CHR ''.'' \<Longrightarrow> base_prefix s = None"
proof (cases "length s \<ge> 2")
  case True
  assume "\<forall>c \<in> set s. is_digit c \<or> c = CHR ''.''"
  then have "is_digit (s ! 1) \<or> s ! 1 = CHR ''.''" using True by simp
  then have "lower_char (s ! 1) = s ! 1" "s ! 1 \<notin> {CHR ''b'', CHR ''o'', CHR ''x''}"
    by (auto simp: lower_char_def is_digit_def)
  then show ?thesis by (auto simp: base_prefix_def)
qed (simp add: base_prefix_def)

lemma readFloat_decimal:
  "readFloat ((if neg then [CHR ''-''] else []) @ decimal_text m q) = Some ((if neg then -1 else 1) * (of_nat m * pow_int 10 q))"
proof -
  let ?t = "decimal_text m q" and ?s = "(if neg then [CHR ''-''] else []) @ decimal_text m q"
  obtain dot where ml: "mant_loop 10 mant0 ?t =
      (\<lparr>mant = (if 0 \<le> q then m * 10 ^ nat q else m), frac = nat (- q), sawdot = dot, sawdigits = True\<rparr>, [])"
    using decimal_text_mantissa by blast
  have t: "?t \<noteq> []" "hd ?t \<noteq> CHR ''-''" "hd ?t \<noteq> CHR ''+''" using decimal_text_hd [of m q] digit_not by auto
  then have "drop_sign ?s = ?t" by (simp add: drop_sign_def)
  moreover have "base_prefix ?t = None" by (rule base_prefix_digits) (use decimal_text_chars in blast)
  moreover have "CHR ''_'' \<notin> set ?s" using decimal_text_chars [of "CHR ''_''" m q] digit_not by auto
  moreover have "(?s \<noteq> [] \<and> hd ?s = CHR ''-'') = neg" using t by simp
  ultimately show ?thesis
    by (simp add: readFloat_def ml read_exp_def pow_int_def)
qed

lemma round64_multiple: "round64 r = Fin x \<Longrightarrow> \<exists>k :: int. x = of_int k * pow2 (- 1074)"
proof (cases "r = 0")
  case True
  assume "round64 r = Fin x"
  then show ?thesis using True by (intro exI [of _ 0]) (simp add: round64_def)
next
  case False
  assume r: "round64 r = Fin x"
  define e where "e = max (rat_exp \<bar>r\<bar> - 52) (- 1074)"
  define n where "n = round_half_even (\<bar>r\<bar> / pow2 e)"
  have e: "pow2 e = of_int (2 ^ nat (e + 1074)) * pow2 (- 1074)"
  proof (cases "0 \<le> e")
    case True
    then have "nat (e + 1074) = nat e + 1074" by simp
    then show ?thesis using True by (simp add: pow2_def power_add)
  next
    case False
    then have "nat (e + 1074) + nat (- e) = 1074" by (simp add: e_def)
    then have "(2 :: rat) ^ nat (e + 1074) * 2 ^ nat (- e) = 2 ^ 1074" by (metis power_add)
    then show ?thesis using False by (simp add: pow2_def field_simps)
  qed
  have "x = of_int n * pow2 e \<or> x = of_int (- n) * pow2 e"
    using r False unfolding round64_def Let_def e_def [symmetric] n_def [symmetric] by (auto split: if_splits)
  then have "x = of_int (n * 2 ^ nat (e + 1074)) * pow2 (- 1074) \<or> x = of_int (- n * 2 ^ nat (e + 1074)) * pow2 (- 1074)"
    unfolding e of_int_mult by (simp only: mult.assoc)
  then show ?thesis by blast
qed

lemma shortest_at_sound: "shortest_at x q = Some m \<Longrightarrow> round64 (of_nat m * pow_int 10 q) = Fin x"
  by (auto simp: shortest_at_def Let_def split: if_splits)

lemma shortest_loop_sound: "shortest_loop n x q = Some (m, p) \<Longrightarrow> round64 (of_nat m * pow_int 10 p) = Fin x"
  by (induction n arbitrary: q) (auto simp: shortest_at_sound split: option.splits)

lemma shortest_at_exact:
  assumes "round64 x = Fin x" "x = of_nat m * pow_int 10 q"
  shows "shortest_at x q \<noteq> None"
proof -
  have "0 < pow_int 10 q" by (simp add: pow_int_def)
  then have "x / pow_int 10 q = of_nat m" using assms(2) by simp
  then have "nat \<lfloor>x / pow_int 10 q\<rfloor> = m" by simp
  then show ?thesis using assms by (auto simp: shortest_at_def Let_def)
qed

lemma shortest_loop_reaches: "p \<le> q \<Longrightarrow> q - p < int n \<Longrightarrow> shortest_at x p \<noteq> None \<Longrightarrow> shortest_loop n x q \<noteq> None"
proof (induction n arbitrary: q)
  case (Suc n)
  then show ?case by (cases "p = q") (auto split: option.split)
qed simp

lemma pow2_pow10: "pow2 (- int n) = of_nat (5 ^ n) * pow_int 10 (- int n)"
proof -
  have "(10 :: rat) ^ n = 2 ^ n * 5 ^ n" by (simp flip: power_mult_distrib)
  then show ?thesis by (simp add: pow2_def pow_int_def)
qed

lemma shortest_exists:
  assumes "representable x" "0 \<le> x"
  shows "shortest x \<noteq> None"
proof -
  obtain n :: nat where n: "int n = 1074" by (metis of_nat_numeral)
  then obtain k :: int where k: "x = of_int k * pow2 (- int n)"
    using assms round64_multiple unfolding representable_def by metis
  then have k0: "0 \<le> k" using assms(2) pow2_pos [of "- int n"] by (simp add: zero_le_mult_iff)
  have "x = of_nat (nat k * 5 ^ n) * pow_int 10 (- int n)" unfolding k pow2_pow10 using k0 by simp
  then have "shortest_at x (- int n) \<noteq> None" using assms(1) shortest_at_exact unfolding representable_def by blast
  then show ?thesis unfolding shortest_def Let_def by (intro shortest_loop_reaches [of "- int n"]) (auto simp: n)
qed

lemma special_decimal: "special_float ((if neg then [CHR ''-''] else []) @ decimal_text m q) = None"
proof -
  obtain c t where ct: "decimal_text m q = c # t" "is_digit c" using decimal_text_hd [of m q] by (cases "decimal_text m q") auto
  then have "lower_char c = c" "c \<notin> {CHR ''i'', CHR ''n'', CHR ''-'', CHR ''+''}" by (auto simp: lower_char_digit is_digit_def)
  moreover have "lower_char CHR ''-'' = CHR ''-''" by code_simp
  ultimately show ?thesis using ct by (simp add: special_float_def drop_sign_def ToLower_def)
qed

lemma ParseFloat_nat: "n < 2 ^ 53 \<Longrightarrow> ParseFloat (format_nat n) = Inr (Fin (of_nat n))"
proof -
  assume n: "n < 2 ^ 53"
  have "decimal_text n 0 = format_nat n" by (simp add: decimal_text_def)
  moreover have "round64 (of_nat n) = Fin (of_nat n)" using round64_int [of "int n"] n by simp
  ultimately show ?thesis
    using readFloat_decimal [of False n 0] special_decimal [of False n 0] by (simp add: ParseFloat_def pow_int_def)
qed

text \<open>Every finite \<open>float64\<close> that the server prints with \<open>FormatFloat(f, 'f', -1, 64)\<close> is read back as the same value.\<close>

theorem float_text_roundtrip:
  assumes "representable r"
  shows "ParseFloat (FormatFloat (Fin r)) = Inr (Fin r)"
proof (cases "r = 0")
  case True
  have "decimal_text 0 0 = ''0''" by code_simp
  then show ?thesis
    using readFloat_decimal [of False 0 0] special_decimal [of False 0 0] True
    by (simp add: FormatFloat_def ParseFloat_def round64_def)
next
  case False
  have "round64 \<bar>r\<bar> = Fin \<bar>r\<bar>" using assms False by (auto simp: representable_def round64_def Let_def split: if_splits)
  then have "shortest \<bar>r\<bar> \<noteq> None" using shortest_exists [of "\<bar>r\<bar>"] by (simp add: representable_def)
  then obtain m q where mq: "shortest \<bar>r\<bar> = Some (m, q)" by auto
  then have v: "round64 (of_nat m * pow_int 10 q) = Fin \<bar>r\<bar>"
    unfolding shortest_def Let_def by (rule shortest_loop_sound)
  then have m0: "of_nat m * pow_int 10 q > 0" using False by (cases "m = 0") (auto simp: round64_def pow_int_def)
  then have "round64 (- (of_nat m * pow_int 10 q)) = Fin (- \<bar>r\<bar>)"
    using v by (auto simp: round64_def Let_def split: if_splits)
  then show ?thesis
    using False mq v readFloat_decimal [of "r < 0" m q] special_decimal [of "r < 0" m q]
    by (auto simp: FormatFloat_def ParseFloat_def)
qed

theorem float_text_roundtrip_witness: "representable (3 / 2) \<and> ParseFloat (FormatFloat (Fin (3 / 2))) = Inr (Fin (3 / 2))"
proof -
  have "representable (3 / 2)" by code_simp
  then show ?thesis using float_text_roundtrip [of "3 / 2"] by simp
qed

end
