(* ===== verification/Vole_Search.thy ===== *)
theory Vole_Search
  imports Vole_Keys Vole_Text
begin

text \<open>
  The operations of \<^verbatim>\<open>internal/store/store.go\<close> that read values as floating-point numbers: \<open>IncrByFloat\<close>, the hash search
  \<open>HSearch\<close> and \<open>Sort\<close>.  \<open>Sort\<close> takes as arguments the order in which Go visits a set and the library function
  \<open>sort.SliceStable\<close>, whose documentation promises a stable sort for a strict weak ordering.
\<close>

section \<open>Adding to a number\<close>

definition Store_IncrByFloat :: "key \<Rightarrow> float64 \<Rightarrow> gotime \<Rightarrow> store \<Rightarrow> float64 res \<times> store" where
  "Store_IncrByFloat key delta now s =
     (case expiredKeyLocked key now s of (e, s) \<Rightarrow>
        let s = (if e then s\<lparr>kv := fmdrop key (kv s)\<rparr> else s) in
        if anyOf other_kinds key s then (Inl WrongType, s)
        else case (case fmlookup (kv s) key of
                     None \<Rightarrow> Inr (Fin 0)
                   | Some v \<Rightarrow> (case ParseFloat v of Inr n \<Rightarrow> Inr n | Inl err \<Rightarrow> Inl (Err ''value is not a valid float''))) of
          Inl err \<Rightarrow> (Inl err, s)
        | Inr n \<Rightarrow>
            let n = f64_add n delta;
                s = s\<lparr>kv := fmupd key (FormatFloat n) (kv s)\<rparr>
            in (Inr n, touchKeyLocked [key] now s))"

section \<open>Searching hashes\<close>

record SearchCondition =
  CondField :: string
  Op :: string
  CondValue :: string

fun Contains :: "string \<Rightarrow> string \<Rightarrow> bool" where
  "Contains [] sub \<longleftrightarrow> sub = []"
| "Contains (c # s) sub \<longleftrightarrow> HasPrefix (c # s) sub \<or> Contains s sub"

definition compare_by :: "string \<Rightarrow> ('a \<Rightarrow> 'a \<Rightarrow> bool) \<Rightarrow> ('a \<Rightarrow> 'a \<Rightarrow> bool) \<Rightarrow> 'a \<Rightarrow> 'a \<Rightarrow> bool" where
  "compare_by opn lt le a b \<longleftrightarrow>
     (if opn = ''>'' then lt b a else if opn = ''<'' then lt a b else if opn = ''>='' then le b a
      else if opn = ''<='' then le a b else False)"

definition evalCondition :: "string \<Rightarrow> string \<Rightarrow> string \<Rightarrow> bool" where
  "evalCondition fieldValue opn condValue \<longleftrightarrow>
     (let u = ToUpper opn in
      if u = ''='' \<or> u = ''=='' then fieldValue = condValue
      else if u = ''!='' then fieldValue \<noteq> condValue
      else if u = ''CONTAINS'' then Contains (ToLower fieldValue) (ToLower condValue)
      else if u = ''STARTSWITH'' then HasPrefix (ToLower fieldValue) (ToLower condValue)
      else if u \<in> {''>'', ''<'', ''>='', ''<=''}
      then (case (ParseFloat fieldValue, ParseFloat condValue) of
              (Inr fv, Inr cv) \<Rightarrow> compare_by opn f64_lt f64_le fv cv
            | _ \<Rightarrow> compare_by opn (<) (\<le>) fieldValue condValue)
      else False)"

definition matchesConditions :: "string gomap \<Rightarrow> SearchCondition list \<Rightarrow> bool" where
  "matchesConditions hash conditions \<longleftrightarrow>
     list_all (\<lambda>c. case fmlookup hash (CondField c) of None \<Rightarrow> False | Some v \<Rightarrow> evalCondition v (Op c) (CondValue c)) conditions"

definition Store_HSearch ::
  "string \<Rightarrow> SearchCondition list \<Rightarrow> int \<Rightarrow> int \<Rightarrow> gotime \<Rightarrow> store \<Rightarrow> (key \<times> string gomap) list" where
  "Store_HSearch pattern conditions off cnt now s =
     (let results = [(k, hash). k \<leftarrow> sorted_keys (hashes s), \<not> isExpiredRLocked k now s, MatchGlob pattern k,
                                hash \<leftarrow> (case fmlookup (hashes s) k of None \<Rightarrow> [] | Some h \<Rightarrow> [h]), matchesConditions hash conditions]
      in if 0 < off \<and> length results \<le> nat off then [] else
         let results = (if 0 < off then drop (nat off) results else results)
         in if 0 < cnt \<and> nat cnt < length results then take (nat cnt) results else results)"

section \<open>Sorting\<close>

definition number_less :: "string \<Rightarrow> string \<Rightarrow> bool" where
  "number_less a b \<longleftrightarrow>
     (case (ParseFloat a, ParseFloat b) of (Inr x, Inr y) \<Rightarrow> f64_lt x y | _ \<Rightarrow> a < b)"

definition sort_elements :: "(string list \<Rightarrow> string list) \<Rightarrow> key \<Rightarrow> store \<Rightarrow> string list option" where
  "sort_elements order key s =
     (case fmlookup (lists s) key of
        Some d \<Rightarrow> Some (Deque_ToSlice d)
      | None \<Rightarrow>
          (case fmlookup (sets s) key of
             Some S \<Rightarrow> Some (order (sorted_list_of_fset S))
           | None \<Rightarrow>
               (case fmlookup (zsets s) key of
                  Some zs \<Rightarrow> Some (map Member (SortedSet_Members zs))
                | None \<Rightarrow> None)))"

text \<open>The \<open>LIMIT\<close> of \<open>SORT\<close>: slicing from a negative offset panics.\<close>

definition sort_limit :: "int \<Rightarrow> int \<Rightarrow> string list \<Rightarrow> string list res" where
  "sort_limit off cnt xs =
     (if 0 < off \<or> 0 < cnt
      then if int (length xs) \<le> off then Inr []
           else if off < 0 then Inl (Panic ''slice bounds out of range'')
           else let xs = drop (nat off) xs in Inr (if 0 < cnt \<and> cnt < int (length xs) then take (nat cnt) xs else xs)
      else Inr xs)"

definition Store_Sort ::
  "(string list \<Rightarrow> string list) \<Rightarrow> ((string \<Rightarrow> string \<Rightarrow> bool) \<Rightarrow> string list \<Rightarrow> string list) \<Rightarrow>
   key \<Rightarrow> bool \<Rightarrow> bool \<Rightarrow> int \<Rightarrow> int \<Rightarrow> key \<Rightarrow> gotime \<Rightarrow> store \<Rightarrow> string list res \<times> store" where
  "Store_Sort order SliceStable key alpha desc off cnt storeKey now s =
     (case expiredKeyLocked key now s of (e, s) \<Rightarrow>
        if e then (Inr [], if storeKey \<noteq> '''' then touchKeyLocked [storeKey] now (s\<lparr>lists := fmdrop storeKey (lists s)\<rparr>) else s)
        else case sort_elements order key s of
          None \<Rightarrow>
            if has (kv s) key then (Inl WrongType, s)
            else (Inr [], if storeKey \<noteq> '''' then touchKeyLocked [storeKey] now (deleteKeyLocked storeKey now s) else s)
        | Some elements \<Rightarrow>
            let elements = (if alpha then sort elements else SliceStable number_less elements);
                elements = (if desc then rev elements else elements)
            in case sort_limit off cnt elements of
              Inl err \<Rightarrow> (Inl err, s)
            | Inr elements \<Rightarrow>
                (Inr elements,
                 if storeKey \<noteq> ''''
                 then let s = deleteKeyLocked storeKey now s;
                          s = (if elements \<noteq> [] then s\<lparr>lists := fmupd storeKey (Deque_PushBack elements Deque_empty) (lists s)\<rparr> else s)
                      in touchKeyLocked [storeKey] now s
                 else s))"

section \<open>Adding to a number: what is stored\<close>

lemma f64_add_representable: "f64_add a b = Fin r \<Longrightarrow> representable r"
  unfolding representable_def by (cases "(a, b)" rule: f64_add.cases) (auto intro: round64_idem)

lemma IncrByFloat_eq:
  "Store_IncrByFloat key delta now s =
     (let c = live now s key; s = purge key now s in
      if list_ex (col_holds c) other_kinds then (Inl WrongType, s)
      else case (case cKV c of None \<Rightarrow> Inr (Fin 0) | Some v \<Rightarrow> ParseFloat v) of
        Inl err \<Rightarrow> (Inl (Err ''value is not a valid float''), s)
      | Inr n \<Rightarrow> (Inr (f64_add n delta), touchKeyLocked [key] now (s\<lparr>kv := fmupd key (FormatFloat (f64_add n delta)) (kv s)\<rparr>)))"
proof -
  have "isExpiredRLocked key now s \<Longrightarrow> fmdrop key (kv (purge key now s)) = kv (purge key now s)"
    by (rule fmdrop_absent) (simp add: column_lookup column_purge live_def no_column_def)
  moreover have "anyOf other_kinds key (purge key now s) = list_ex (col_holds (live now s key)) other_kinds"
    by (simp add: anyOf_column column_purge)
  moreover have "fmlookup (kv (purge key now s)) key = cKV (live now s key)"
    by (simp add: column_lookup column_purge)
  ultimately show ?thesis
    by (auto simp: Store_IncrByFloat_def locked_eqs Let_def split: option.split sum.split)
qed

lemma IncrByFloat_tracked: "tracked {key} s (snd (Store_IncrByFloat key delta now s))"
  by (auto simp: IncrByFloat_eq Let_def intro!: tracked_edit tracked_purge split: option.split sum.split)

text \<open>The number that \<open>INCRBYFLOAT\<close> answers is the rounded sum of the number stored under the key, or of 0, and the increment; when
  it is finite the text it stores is read back as the same number.\<close>

theorem incrbyfloat_stores_result:
  assumes "fst (Store_IncrByFloat key delta now s) = Inr (Fin r)"
  shows "\<exists>old. (case cKV (live now s key) of None \<Rightarrow> old = Fin 0 | Some v \<Rightarrow> ParseFloat v = Inr old) \<and> f64_add old delta = Fin r \<and>
    (\<exists>v. fmlookup (kv (snd (Store_IncrByFloat key delta now s))) key = Some v \<and> ParseFloat v = Inr (Fin r))"
proof -
  obtain old where old: "case cKV (live now s key) of None \<Rightarrow> old = Fin 0 | Some v \<Rightarrow> ParseFloat v = Inr old"
    "f64_add old delta = Fin r"
    "snd (Store_IncrByFloat key delta now s) = touchKeyLocked [key] now
       ((purge key now s)\<lparr>kv := fmupd key (FormatFloat (Fin r)) (kv (purge key now s))\<rparr>)"
    using assms by (auto simp: IncrByFloat_eq Let_def split: if_splits option.splits sum.splits)
  then have "fmlookup (kv (snd (Store_IncrByFloat key delta now s))) key = Some (FormatFloat (Fin r))" by simp
  then show ?thesis using old(1,2) float_text_roundtrip [OF f64_add_representable [OF old(2)]] by metis
qed

theorem incrbyfloat_stores_result_witness:
  "fst (Store_IncrByFloat ''k'' (Fin 3) 0 Store_New) = Inr (Fin 3) \<and>
   (\<exists>v. fmlookup (kv (snd (Store_IncrByFloat ''k'' (Fin 3) 0 Store_New))) ''k'' = Some v \<and> ParseFloat v = Inr (Fin 3))"
proof -
  have "f64_add (Fin 0) (Fin 3) = Fin 3" using f64_add_int [of 0 3] by simp
  then have r: "fst (Store_IncrByFloat ''k'' (Fin 3) 0 Store_New) = Inr (Fin 3)"
    by (simp add: Store_IncrByFloat_def Store_New_def locked_eqs purge_def isExpiredRLocked_def anyOf_def other_kinds_def holds_def Let_def)
  then show ?thesis using incrbyfloat_stores_result [OF r] by auto
qed

section \<open>Searching hashes: what is found\<close>

definition found :: "string \<Rightarrow> SearchCondition list \<Rightarrow> gotime \<Rightarrow> store \<Rightarrow> key \<Rightarrow> string gomap \<Rightarrow> bool" where
  "found pattern conditions now s k h \<longleftrightarrow>
     fmlookup (hashes s) k = Some h \<and> \<not> isExpiredRLocked k now s \<and> MatchGlob pattern k \<and>
     (\<forall>c \<in> set conditions. \<exists>v. fmlookup h (CondField c) = Some v \<and> evalCondition v (Op c) (CondValue c))"

lemma matchesConditions_iff:
  "matchesConditions h cs \<longleftrightarrow> (\<forall>c \<in> set cs. \<exists>v. fmlookup h (CondField c) = Some v \<and> evalCondition v (Op c) (CondValue c))"
  by (auto simp: matchesConditions_def list_all_iff split: option.splits)

definition hits :: "string \<Rightarrow> SearchCondition list \<Rightarrow> gotime \<Rightarrow> store \<Rightarrow> (key \<times> string gomap) list" where
  "hits pattern conditions now s =
     [(k, hash). k \<leftarrow> sorted_keys (hashes s), \<not> isExpiredRLocked k now s, MatchGlob pattern k,
                 hash \<leftarrow> (case fmlookup (hashes s) k of None \<Rightarrow> [] | Some h \<Rightarrow> [h]), matchesConditions hash conditions]"

lemma HSearch_hits: "Store_HSearch pattern conditions off cnt now s = limit off cnt (hits pattern conditions now s)"
  by (simp add: Store_HSearch_def Let_def flip: hits_def) (auto simp: limit_def)

lemma hits_set: "set (hits pattern conditions now s) = {(k, h). found pattern conditions now s k h}"
  by (auto simp: hits_def found_def matchesConditions_iff fmdom'_alt_def fmlookup_dom_iff split: option.splits if_splits)

lemma hits_keys: "map fst (hits pattern conditions now s) =
    filter (\<lambda>k. \<exists>h. found pattern conditions now s k h) (sorted_keys (hashes s))"
proof -
  have "map fst [(k, hash). k \<leftarrow> ks, \<not> isExpiredRLocked k now s, MatchGlob pattern k,
                 hash \<leftarrow> (case fmlookup (hashes s) k of None \<Rightarrow> [] | Some h \<Rightarrow> [h]), matchesConditions hash conditions] =
        filter (\<lambda>k. \<exists>h. found pattern conditions now s k h) ks" for ks
    by (induction ks) (auto simp: found_def matchesConditions_iff split: option.splits)
  then show ?thesis unfolding hits_def .
qed

text \<open>\<open>HSEARCH\<close> finds exactly the hashes that are not expired, whose key matches the pattern and whose fields satisfy all
  conditions, each once, in ascending order of their keys; \<open>LIMIT\<close> cuts a window out of that list.\<close>

theorem hsearch_exact:
  "set (Store_HSearch pattern conditions 0 0 now s) = {(k, h). found pattern conditions now s k h} \<and>
   sorted (map fst (Store_HSearch pattern conditions 0 0 now s)) \<and> distinct (map fst (Store_HSearch pattern conditions 0 0 now s)) \<and>
   Store_HSearch pattern conditions off cnt now s = limit off cnt (Store_HSearch pattern conditions 0 0 now s)"
  unfolding HSearch_hits limit_all [OF order_refl order_refl] hits_set hits_keys
  using sorted_sorted_keys [of "hashes s"] distinct_sorted_keys [of "hashes s"]
  by (simp add: sorted_filter [of "\<lambda>k. k", simplified])

section \<open>Sorting: what is answered and stored\<close>

definition strict_weak :: "('a \<Rightarrow> 'a \<Rightarrow> bool) \<Rightarrow> 'a set \<Rightarrow> bool" where
  "strict_weak lt A \<longleftrightarrow>
     (\<forall>x \<in> A. \<forall>y \<in> A. lt x y \<longrightarrow> \<not> lt y x) \<and>
     (\<forall>x \<in> A. \<forall>y \<in> A. \<forall>z \<in> A. lt x z \<longrightarrow> lt x y \<or> lt y z)"

text \<open>What the library promises of \<open>sort.SliceStable\<close>.\<close>

definition stable_sorter :: "((string \<Rightarrow> string \<Rightarrow> bool) \<Rightarrow> string list \<Rightarrow> string list) \<Rightarrow> bool" where
  "stable_sorter f \<longleftrightarrow>
     (\<forall>lt xs. strict_weak lt (set xs) \<longrightarrow>
        mset (f lt xs) = mset xs \<and> sorted_wrt (\<lambda>a b. \<not> lt b a) (f lt xs) \<and>
        (\<forall>x \<in> set xs. filter (\<lambda>y. \<not> lt x y \<and> \<not> lt y x) (f lt xs) = filter (\<lambda>y. \<not> lt x y \<and> \<not> lt y x) xs))"

text \<open>A sorter with the promised behaviour exists: insertion sort.\<close>

fun ins :: "('a \<Rightarrow> 'a \<Rightarrow> bool) \<Rightarrow> 'a \<Rightarrow> 'a list \<Rightarrow> 'a list" where
  "ins lt x [] = [x]"
| "ins lt x (y # ys) = (if lt y x then y # ins lt x ys else x # y # ys)"

definition insertion_sort :: "('a \<Rightarrow> 'a \<Rightarrow> bool) \<Rightarrow> 'a list \<Rightarrow> 'a list" where
  "insertion_sort lt xs = foldr (ins lt) xs []"

lemma ins_mset [simp]: "mset (ins lt x ys) = add_mset x (mset ys)"
  by (induction ys) auto

lemma ins_set [simp]: "set (ins lt x ys) = insert x (set ys)"
  by (metis ins_mset mset.simps(2) set_mset_mset list.set(2))

lemma weak_asym: "strict_weak lt A \<Longrightarrow> x \<in> A \<Longrightarrow> y \<in> A \<Longrightarrow> lt x y \<Longrightarrow> \<not> lt y x"
  and weak_split: "strict_weak lt A \<Longrightarrow> x \<in> A \<Longrightarrow> y \<in> A \<Longrightarrow> z \<in> A \<Longrightarrow> lt x z \<Longrightarrow> lt x y \<or> lt y z"
  and weak_sub: "strict_weak lt A \<Longrightarrow> B \<subseteq> A \<Longrightarrow> strict_weak lt B"
  unfolding strict_weak_def by blast+

lemma ins_sorted:
  "strict_weak lt (insert x (set ys)) \<Longrightarrow> sorted_wrt (\<lambda>a b. \<not> lt b a) ys \<Longrightarrow> sorted_wrt (\<lambda>a b. \<not> lt b a) (ins lt x ys)"
proof (induction ys)
  case (Cons y ys)
  note w = Cons.prems(1)
  have IH: "sorted_wrt (\<lambda>a b. \<not> lt b a) (ins lt x ys)"
    using Cons.prems by (intro Cons.IH) (auto elim: weak_sub)
  have "\<not> lt z x" if "\<not> lt y x" "z \<in> set ys" for z using weak_split [OF w, of z y x] Cons.prems(2) that by auto
  moreover have "\<not> lt x y" if "lt y x" using weak_asym [OF w _ _ that] by simp
  ultimately show ?case using IH Cons.prems(2) by simp
qed simp

lemma ins_stable:
  "strict_weak lt (insert w (insert x (set ys))) \<Longrightarrow>
   filter (\<lambda>y. \<not> lt w y \<and> \<not> lt y w) (ins lt x ys) = filter (\<lambda>y. \<not> lt w y \<and> \<not> lt y w) (x # ys)"
proof (induction ys)
  case (Cons y ys)
  have "strict_weak lt (insert w (insert x (set ys)))" by (rule weak_sub [OF Cons.prems]) auto
  moreover have "lt y x \<Longrightarrow> lt y w \<or> lt w x" using weak_split [OF Cons.prems, of y w x] by simp
  ultimately show ?case using Cons.IH by auto
qed simp

lemma insertion_sort_simps [simp]:
  "insertion_sort lt [] = []" "insertion_sort lt (y # ys) = ins lt y (insertion_sort lt ys)"
  by (simp_all add: insertion_sort_def)

lemma insertion_sort_mset [simp]: "mset (insertion_sort lt ys) = mset ys"
  by (induction ys) simp_all

lemma insertion_sort_set [simp]: "set (insertion_sort lt ys) = set ys"
  by (metis insertion_sort_mset set_mset_mset)

lemma insertion_sort_sorted: "strict_weak lt (set ys) \<Longrightarrow> sorted_wrt (\<lambda>a b. \<not> lt b a) (insertion_sort lt ys)"
proof (induction ys)
  case (Cons y ys)
  then have "strict_weak lt (set ys)" by (auto elim: weak_sub)
  then show ?case using Cons by (simp add: ins_sorted)
qed simp

lemma insertion_sort_filter:
  "strict_weak lt (insert v (set ys)) \<Longrightarrow>
   filter (\<lambda>y. \<not> lt v y \<and> \<not> lt y v) (insertion_sort lt ys) = filter (\<lambda>y. \<not> lt v y \<and> \<not> lt y v) ys"
proof (induction ys)
  case (Cons y ys)
  then have "strict_weak lt (insert v (set ys))" by (auto elim: weak_sub)
  then show ?case using Cons.IH Cons.prems ins_stable [of lt v y "insertion_sort lt ys"] by simp
qed simp

lemma insertion_sort_stable: "stable_sorter insertion_sort"
  by (simp add: stable_sorter_def insertion_sort_sorted insertion_sort_filter insert_absorb)

definition number :: "string \<Rightarrow> float64 \<Rightarrow> bool" where
  "number v x \<longleftrightarrow> ParseFloat v = Inr x \<and> x \<noteq> NaN"

lemma number_less_value: "number a x \<Longrightarrow> number b y \<Longrightarrow> number_less a b \<longleftrightarrow> x < y"
  by (simp add: number_def number_less_def f64_lt_less)

lemma number_less_weak:
  assumes "\<forall>v \<in> A. \<exists>x. number v x"
  shows "strict_weak number_less A"
proof -
  define val where "val v = (SOME x. number v x)" for v
  have val: "number v (val v)" if "v \<in> A" for v unfolding val_def using assms that by (metis someI_ex)
  then have "number_less a b \<longleftrightarrow> val a < val b" if "a \<in> A" "b \<in> A" for a b using that number_less_value by blast
  then show ?thesis unfolding strict_weak_def by fastforce
qed

lemma live_list:
  assumes "\<not> isExpiredRLocked key now s" "fmlookup (lists s) key = Some d"
  shows "sort_elements order key (purge key now s) = Some (Deque_ToSlice d)" "expiredKeyLocked key now s = (False, s)"
  using assms by (simp_all add: sort_elements_def purge_id locked_eqs)

text \<open>\<open>SORT\<close> on a list of numbers answers the same elements in ascending order of their values; elements of equal value keep the
  order they have in the list.\<close>

theorem sort_orders_numbers:
  assumes "stable_sorter SliceStable" "\<not> isExpiredRLocked key now s" "fmlookup (lists s) key = Some d"
    and "\<forall>v \<in> set (Deque_ToSlice d). \<exists>x. number v x"
  shows "\<exists>ys. Store_Sort order SliceStable key False False 0 0 '''' now s = (Inr ys, s) \<and> mset ys = mset (Deque_ToSlice d) \<and>
    (\<forall>i j a b. i < j \<longrightarrow> j < length ys \<longrightarrow> number (ys ! i) a \<longrightarrow> number (ys ! j) b \<longrightarrow> a \<le> b) \<and>
    (\<forall>a. filter (\<lambda>v. number v a) ys = filter (\<lambda>v. number v a) (Deque_ToSlice d))"
proof -
  define xs ys where "xs = Deque_ToSlice d" "ys = SliceStable number_less xs"
  have w: "strict_weak number_less (set xs)" using assms(4) by (simp add: number_less_weak xs_ys_def)
  then have ys: "mset ys = mset xs" "sorted_wrt (\<lambda>a b. \<not> number_less b a) ys"
    "\<And>x. x \<in> set xs \<Longrightarrow> filter (\<lambda>y. \<not> number_less x y \<and> \<not> number_less y x) ys = filter (\<lambda>y. \<not> number_less x y \<and> \<not> number_less y x) xs"
    using assms(1) unfolding stable_sorter_def xs_ys_def by blast+
  have set: "set ys = set xs" using ys(1) by (metis set_mset_mset)
  have num: "\<exists>x. number v x" if "v \<in> set xs" for v using assms(4) that by (simp add: xs_ys_def)
  have run: "Store_Sort order SliceStable key False False 0 0 '''' now s = (Inr ys, s)"
    using assms(2,3) live_list [OF assms(2,3)] by (simp add: Store_Sort_def sort_elements_def sort_limit_def xs_ys_def)
  have asc: "a \<le> b" if ij: "i < j" "j < length ys" and n: "number (ys ! i) a" "number (ys ! j) b" for i j a b
    using sorted_wrt_nth_less [OF ys(2) ij] number_less_value [OF n(2,1)] by simp
  have stab: "filter (\<lambda>v. number v a) ys = filter (\<lambda>v. number v a) xs" for a
  proof (cases "\<exists>x \<in> set xs. number x a")
    case True
    then obtain x where x: "x \<in> set xs" "number x a" by blast
    have "number v a \<longleftrightarrow> \<not> number_less x v \<and> \<not> number_less v x" if v: "v \<in> set xs" for v
    proof -
      obtain b where b: "number v b" using num v by blast
      then have "number v a \<longleftrightarrow> a = b" by (auto simp: number_def)
      then show ?thesis unfolding number_less_value [OF x(2) b] number_less_value [OF b x(2)] by (auto simp: not_less)
    qed
    then have "filter (\<lambda>v. number v a) zs = filter (\<lambda>y. \<not> number_less x y \<and> \<not> number_less y x) zs" if "set zs = set xs" for zs
      using that by (intro filter_cong) auto
    then show ?thesis using ys(3) [OF x(1)] set by simp
  next
    case False
    then show ?thesis using set by (simp add: filter_False)
  qed
  show ?thesis using run ys(1) asc stab unfolding xs_ys_def by blast
qed

definition ten_nine :: store where
  "ten_nine = Store_New\<lparr>lists := fmupd ''k'' (Deque_PushBack [''10'', ''9''] Deque_empty) fmempty\<rparr>"

lemma ten_nine_list:
  "\<not> isExpiredRLocked ''k'' 0 ten_nine" "fmlookup (lists ten_nine) ''k'' = Some (Deque_PushBack [''10'', ''9''] Deque_empty)"
  "Deque_ToSlice (Deque_PushBack [''10'', ''9''] Deque_empty) = [''10'', ''9'']"
  by (simp_all add: ten_nine_def Store_New_def isExpiredRLocked_def)

theorem sort_orders_numbers_witness:
  "stable_sorter insertion_sort \<and> fst (Store_Sort id insertion_sort ''k'' False False 0 0 '''' 0 ten_nine) = Inr [''9'', ''10'']"
proof -
  have "format_nat 10 = ''10''" "format_nat 9 = ''9''" by code_simp+
  then have n: "number ''10'' (Fin 10)" "number ''9'' (Fin 9)"
    using ParseFloat_nat [of 10] ParseFloat_nat [of 9] by (simp_all add: number_def)
  then have "\<forall>v \<in> set (Deque_ToSlice (Deque_PushBack [''10'', ''9''] Deque_empty)). \<exists>x. number v x"
    unfolding ten_nine_list(3) by auto
  then obtain ys where ys: "Store_Sort id insertion_sort ''k'' False False 0 0 '''' 0 ten_nine = (Inr ys, ten_nine)"
    "mset ys = mset [''10'', ''9'']"
    "\<forall>i j a b. i < j \<longrightarrow> j < length ys \<longrightarrow> number (ys ! i) a \<longrightarrow> number (ys ! j) b \<longrightarrow> a \<le> b"
    using sort_orders_numbers [OF insertion_sort_stable ten_nine_list(1,2), of id] unfolding ten_nine_list(3) by blast
  have "length ys = 2" using ys(2) by (metis length_Cons list.size(3) mset_eq_length numeral_2_eq_2)
  then obtain a b where ab: "ys = [a, b]" by (auto simp: length_Suc_conv numeral_2_eq_2)
  then have "ys = [''10'', ''9''] \<or> ys = [''9'', ''10'']" using ys(2) by (auto simp: add_eq_conv_ex)
  moreover have "\<not> (Fin 10 :: float64) \<le> Fin 9" by simp
  ultimately have "ys = [''9'', ''10'']" using ys(3) [rule_format, of 0 1 "Fin 10" "Fin 9"] n by fastforce
  then show ?thesis using ys(1) insertion_sort_stable by simp
qed

text \<open>\<open>SORT\<close> with a negative offset and a count panics on every list.\<close>

theorem sort_negative_offset_panics:
  assumes "\<not> isExpiredRLocked key now s" "fmlookup (lists s) key = Some d" "off < 0" "0 < cnt"
  shows "Store_Sort order SliceStable key alpha desc off cnt storeKey now s = (Inl (Panic ''slice bounds out of range''), s)"
  using assms live_list [OF assms(1,2)] by (simp add: Store_Sort_def sort_elements_def sort_limit_def)

theorem sort_negative_offset_panics_witness:
  "fst (Store_Sort id insertion_sort ''k'' False False (- 1) 5 '''' 0 ten_nine) = Inl (Panic ''slice bounds out of range'')"
  using sort_negative_offset_panics [OF ten_nine_list(1,2), of "- 1" 5 id insertion_sort False False "''''"] by simp

lemma Sort_tracked: "tracked {key, storeKey} s (snd (Store_Sort order f key alpha desc off cnt storeKey now s))"
proof -
  let ?K = "{key, storeKey}"
  have p: "tracked ?K s (purge key now s)" by (simp add: tracked_purge)
  have d: "tracked ?K t (touchKeyLocked [storeKey] now u)"
    if "\<And>k. k \<noteq> storeKey \<Longrightarrow> column u k = column (deleteKeyLocked storeKey now t) k"
      "keyVersion u = keyVersion (deleteKeyLocked storeKey now t)" "version u = version (deleteKeyLocked storeKey now t)" for t u
    by (rule tracked_trans [OF tracked_delete [of storeKey _ _ now]]) (auto intro!: tracked_touch simp: that)
  have d1: "tracked ?K t (touchKeyLocked [storeKey] now (deleteKeyLocked storeKey now t))"
    and d2: "tracked ?K t (touchKeyLocked [storeKey] now ((deleteKeyLocked storeKey now t)\<lparr>lists := fmupd storeKey x (lists (deleteKeyLocked storeKey now t))\<rparr>))"
    for t x by (rule d; simp)+
  have e: "tracked ?K t (touchKeyLocked [storeKey] now (t\<lparr>lists := fmdrop storeKey (lists t)\<rparr>))" for t
    by (rule tracked_touch) auto
  show ?thesis
    by (rule tracked_trans [OF p]) (simp add: Store_Sort_def locked_eqs Let_def d1 d2 e split: option.split sum.split)
qed

end
