(* ===== verification/Vole_Services.thy ===== *)
theory Vole_Services
  imports Vole_Search
begin

text \<open>
  Small services of the server: schemas of hash fields (\<^verbatim>\<open>internal/server/schema.go\<close>), the slow log
  (\<^verbatim>\<open>slowlog.go\<close>) and the audit log (\<^verbatim>\<open>audit.go\<close>).  \<open>quote\<close> is the verb \<open>%q\<close> of package \<open>fmt\<close>; \<open>order\<close> is the order in which Go
  visits the keys of a map.
\<close>

section \<open>Schemas\<close>

record SchemaRule =
  Pattern :: string
  Fields :: "string gomap"

type_synonym SchemaManager = "SchemaRule list"

fun SchemaManager_Set :: "string \<Rightarrow> string gomap \<Rightarrow> SchemaManager \<Rightarrow> SchemaManager" where
  "SchemaManager_Set pattern flds [] = [\<lparr>Pattern = pattern, Fields = flds\<rparr>]"
| "SchemaManager_Set pattern flds (r # rs) =
     (if Pattern r = pattern then r\<lparr>Fields := flds\<rparr> # rs else r # SchemaManager_Set pattern flds rs)"

definition SchemaManager_Get :: "string \<Rightarrow> SchemaManager \<Rightarrow> SchemaRule option" where
  "SchemaManager_Get pattern rs = List.find (\<lambda>r. Pattern r = pattern) rs"

fun SchemaManager_Del :: "string \<Rightarrow> SchemaManager \<Rightarrow> bool \<times> SchemaManager" where
  "SchemaManager_Del pattern [] = (False, [])"
| "SchemaManager_Del pattern (r # rs) =
     (if Pattern r = pattern then (True, rs) else case SchemaManager_Del pattern rs of (ok, rs) \<Rightarrow> (ok, r # rs))"

definition violation :: "(string \<Rightarrow> string) \<Rightarrow> string \<Rightarrow> string \<Rightarrow> string \<Rightarrow> go_error" where
  "violation quote field typ value = Err (''schema violation: '' @ quote field @ '' must be '' @ typ @ '', got '' @ quote value)"

definition validateFieldType :: "(string \<Rightarrow> string) \<Rightarrow> string \<Rightarrow> string \<Rightarrow> string \<Rightarrow> go_error option" where
  "validateFieldType quote field value typ =
     (if typ = ''string'' \<or> typ = ''required'' then None
      else if typ = ''int'' then
        if snd (ParseInt value) \<noteq> None then Some (violation quote field typ value) else None
      else if typ = ''float'' then
        (case ParseFloat value of Inl _ \<Rightarrow> Some (violation quote field typ value) | Inr _ \<Rightarrow> None)
      else if typ = ''bool'' then
        (let v = ToLower value in
         if v \<noteq> ''true'' \<and> v \<noteq> ''false'' \<and> v \<noteq> ''0'' \<and> v \<noteq> ''1'' then Some (violation quote field typ value) else None)
      else if typ = ''email'' then
        if \<not> Contains value ''@'' \<or> \<not> Contains value ''.'' then Some (violation quote field typ value) else None
      else None)"

fun validate_fields :: "(string \<Rightarrow> string) \<Rightarrow> string gomap \<Rightarrow> string gomap \<Rightarrow> string list \<Rightarrow> go_error option" where
  "validate_fields quote types flds [] = None"
| "validate_fields quote types flds (name # names) =
     (case (fmlookup types name, fmlookup flds name) of
        (None, _) \<Rightarrow> validate_fields quote types flds names
      | (Some typ, None) \<Rightarrow>
          if typ = ''required'' then Some (Err (''schema violation: field '' @ quote name @ '' is required''))
          else validate_fields quote types flds names
      | (Some typ, Some value) \<Rightarrow>
          (case validateFieldType quote name value typ of
             Some e \<Rightarrow> Some e
           | None \<Rightarrow> validate_fields quote types flds names))"

definition SchemaManager_Validate ::
  "(string \<Rightarrow> string) \<Rightarrow> (string list \<Rightarrow> string list) \<Rightarrow> key \<Rightarrow> string gomap \<Rightarrow> SchemaManager \<Rightarrow> go_error option" where
  "SchemaManager_Validate quote order key flds rs =
     (case List.find (\<lambda>r. MatchGlob (Pattern r) key) rs of
        None \<Rightarrow> None
      | Some r \<Rightarrow> validate_fields quote (Fields r) flds (order (sorted_keys (Fields r))))"

section \<open>Slow log\<close>

record SlowLogEntry =
  SlowID :: int
  SlowAt :: gotime
  SlowDuration :: duration
  SlowCommand :: "string list"
  SlowClient :: string

record SlowLog =
  slow_entries :: "SlowLogEntry list"
  threshold :: duration
  maxLen :: nat
  nextID :: int

definition NewSlowLog :: "duration \<Rightarrow> nat \<Rightarrow> SlowLog" where
  "NewSlowLog thr n = \<lparr>slow_entries = [], threshold = thr, maxLen = n, nextID = 0\<rparr>"

definition SlowLog_Record :: "duration \<Rightarrow> string list \<Rightarrow> string \<Rightarrow> gotime \<Rightarrow> SlowLog \<Rightarrow> SlowLog" where
  "SlowLog_Record d command client now sl =
     (if d < threshold sl then sl
      else
        let i = wrap64 (nextID sl + 1);
            entries = slow_entries sl @
              [\<lparr>SlowID = i, SlowAt = now, SlowDuration = d, SlowCommand = command, SlowClient = client\<rparr>]
        in sl\<lparr>nextID := i,
              slow_entries := (if maxLen sl < length entries then drop (length entries - maxLen sl) entries else entries)\<rparr>)"

definition SlowLog_Get :: "int \<Rightarrow> SlowLog \<Rightarrow> SlowLogEntry list" where
  "SlowLog_Get cnt sl =
     (let n = length (slow_entries sl);
          c = (if cnt \<le> 0 \<or> int n < cnt then n else nat cnt)
      in map (\<lambda>i. slow_entries sl ! (n - 1 - i)) [0..<c])"

definition SlowLog_Reset :: "SlowLog \<Rightarrow> SlowLog" where
  "SlowLog_Reset sl = sl\<lparr>slow_entries := []\<rparr>"

section \<open>Audit log\<close>

record AuditEntry =
  AuditAt :: gotime
  AuditKey :: key
  AuditCommand :: string
  AuditArgs :: "string list"
  AuditClient :: string

record AuditLog =
  audit_entries :: "AuditEntry list"
  enabled :: bool
  maxSize :: nat

definition NewAuditLog :: "nat \<Rightarrow> AuditLog" where
  "NewAuditLog n = \<lparr>audit_entries = [], enabled = False, maxSize = n\<rparr>"

definition AuditLog_Record :: "key \<Rightarrow> string \<Rightarrow> string \<Rightarrow> string list \<Rightarrow> gotime \<Rightarrow> AuditLog \<Rightarrow> AuditLog" where
  "AuditLog_Record key command client args now al =
     (if \<not> enabled al then al
      else
        let entries = audit_entries al @
              [\<lparr>AuditAt = now, AuditKey = key, AuditCommand = command, AuditArgs = args, AuditClient = client\<rparr>]
        in al\<lparr>audit_entries :=
                (if 0 < maxSize al \<and> maxSize al < length entries then drop (length entries - maxSize al) entries else entries)\<rparr>)"

fun search_back :: "(AuditEntry \<Rightarrow> bool) \<Rightarrow> nat \<Rightarrow> AuditEntry list \<Rightarrow> AuditEntry list" where
  "search_back p c [] = []"
| "search_back p 0 es = []"
| "search_back p (Suc c) (e # es) = (if p e then e # search_back p c es else search_back p (Suc c) es)"

definition AuditLog_ForKey :: "key \<Rightarrow> int \<Rightarrow> AuditLog \<Rightarrow> AuditEntry list" where
  "AuditLog_ForKey key cnt al =
     search_back (\<lambda>e. AuditKey e = key) (nat (if cnt \<le> 0 then 10 else cnt)) (rev (audit_entries al))"

definition AuditLog_Search :: "string \<Rightarrow> int \<Rightarrow> AuditLog \<Rightarrow> AuditEntry list" where
  "AuditLog_Search pattern cnt al =
     search_back (\<lambda>e. MatchGlob pattern (AuditKey e)) (nat (if cnt \<le> 0 then 50 else cnt)) (rev (audit_entries al))"

section \<open>A schema is enforced\<close>

lemma validate_fields_ok:
  assumes "validate_fields quote types flds names = None" "name \<in> set names" "fmlookup types name = Some typ"
  shows "(case fmlookup flds name of None \<Rightarrow> typ \<noteq> ''required'' | Some v \<Rightarrow> validateFieldType quote name v typ = None)"
  using assms
  by (induction quote types flds names rule: validate_fields.induct) (auto split: option.splits if_splits)

lemma validate_fields_iff:
  "validate_fields quote types flds names = None \<longleftrightarrow>
   (\<forall>name \<in> set names. \<forall>typ. fmlookup types name = Some typ \<longrightarrow>
      (case fmlookup flds name of None \<Rightarrow> typ \<noteq> ''required'' | Some v \<Rightarrow> validateFieldType quote name v typ = None))"
  by (induction quote types flds names rule: validate_fields.induct) (auto split: option.splits)

lemma Validate_ok_iff:
  assumes "List.find (\<lambda>r. MatchGlob (Pattern r) key) rs = Some r" "\<And>xs. set (order xs) = set xs"
  shows "SchemaManager_Validate quote order key flds rs = None \<longleftrightarrow>
    (\<forall>name typ. fmlookup (Fields r) name = Some typ \<longrightarrow>
      (case fmlookup flds name of None \<Rightarrow> typ \<noteq> ''required'' | Some v \<Rightarrow> validateFieldType quote name v typ = None))"
  unfolding SchemaManager_Validate_def assms(1) option.case validate_fields_iff assms(2) set_sorted_keys
  by (meson fmdom'I)

lemma find_Set:
  "List.find (\<lambda>r. MatchGlob (Pattern r) key) rs = None \<Longrightarrow> MatchGlob p key \<Longrightarrow>
   List.find (\<lambda>r. MatchGlob (Pattern r) key) (SchemaManager_Set p types rs) = Some \<lparr>Pattern = p, Fields = types\<rparr>"
  by (induction p types rs rule: SchemaManager_Set.induct) (auto split: if_splits)

text \<open>After \<open>SCHEMA.SET\<close> of a pattern that is the first to match the key, a write to a hash passes validation exactly when it gives
  every required field and every field it gives has its type, whatever the order in which the fields are visited.\<close>

theorem schema_accepts:
  assumes "List.find (\<lambda>r. MatchGlob (Pattern r) key) rs = None" "MatchGlob p key" "\<And>xs. set (order xs) = set xs"
  shows "SchemaManager_Validate quote order key flds (SchemaManager_Set p types rs) = None \<longleftrightarrow>
    (\<forall>name typ. fmlookup types name = Some typ \<longrightarrow>
      (case fmlookup flds name of None \<Rightarrow> typ \<noteq> ''required'' | Some v \<Rightarrow> validateFieldType quote name v typ = None))"
  using Validate_ok_iff [OF find_Set [OF assms(1,2)] assms(3), of quote flds types] by simp

theorem schema_accepts_witness:
  "SchemaManager_Validate id rev ''user:1'' (fmupd ''age'' ''7'' fmempty) (SchemaManager_Set ''user:*'' (fmupd ''age'' ''int'' fmempty) []) = None \<longleftrightarrow>
    (\<forall>name typ. fmlookup (fmupd ''age'' ''int'' fmempty) name = Some typ \<longrightarrow>
      (case fmlookup (fmupd ''age'' ''7'' fmempty) name of None \<Rightarrow> typ \<noteq> ''required'' | Some v \<Rightarrow> validateFieldType id name v typ = None))"
proof (rule schema_accepts)
  show "MatchGlob ''user:*'' ''user:1''" by code_simp
qed simp_all

section \<open>The logs keep the latest entries\<close>

definition keep_last :: "nat \<Rightarrow> 'a list \<Rightarrow> 'a list" where
  "keep_last n xs = drop (length xs - n) xs"

lemma keep_last_snoc: "keep_last n (keep_last n xs @ [x]) = keep_last n (xs @ [x])"
  by (cases "n \<le> length xs") (auto simp: keep_last_def Suc_diff_le)

lemma search_back_filter: "search_back p c es = take c (filter p es)"
  by (induction p c es rule: search_back.induct) auto

fun audit_all :: "(key \<times> string \<times> string \<times> string list \<times> gotime) list \<Rightarrow> AuditLog \<Rightarrow> AuditLog" where
  "audit_all [] al = al"
| "audit_all ((k, c, cl, as, now) # rs) al = audit_all rs (AuditLog_Record k c cl as now al)"

definition audit_entry :: "key \<times> string \<times> string \<times> string list \<times> gotime \<Rightarrow> AuditEntry" where
  "audit_entry = (\<lambda>(k, c, cl, as, now). \<lparr>AuditAt = now, AuditKey = k, AuditCommand = c, AuditArgs = as, AuditClient = cl\<rparr>)"

lemma audit_all_entries:
  assumes "enabled al" "0 < maxSize al" "audit_entries al = keep_last (maxSize al) es"
  shows "audit_entries (audit_all rs al) = keep_last (maxSize al) (es @ map audit_entry rs)"
  using assms
proof (induction rs al arbitrary: es rule: audit_all.induct)
  case (2 k c cl as now rs al)
  let ?e = "audit_entry (k, c, cl, as, now)"
  have "audit_entries (AuditLog_Record k c cl as now al) = keep_last (maxSize al) (es @ [?e])"
    using "2.prems" keep_last_snoc [of "maxSize al" es ?e]
    by (auto simp: AuditLog_Record_def Let_def audit_entry_def keep_last_def)
  then have "audit_entries (audit_all rs (AuditLog_Record k c cl as now al)) = keep_last (maxSize al) ((es @ [?e]) @ map audit_entry rs)"
    using "2.IH" [of "es @ [?e]"] "2.prems" by (auto simp: AuditLog_Record_def Let_def)
  then show ?case by simp
qed simp

text \<open>C40: However many mutations are audited, the audit log holds exactly the latest \<open>maxSize\<close> of them, and \<open>AUDIT\<close> for a key returns
  the newest of its entries first, at most \<open>count\<close> of them.\<close>

theorem audit_keeps_latest:
  assumes "0 < n" "0 < cnt"
  shows "AuditLog_ForKey key cnt (audit_all rs ((NewAuditLog n)\<lparr>enabled := True\<rparr>)) =
      take (nat cnt) (filter (\<lambda>e. AuditKey e = key) (rev (keep_last n (map audit_entry rs)))) \<and>
    length (audit_entries (audit_all rs ((NewAuditLog n)\<lparr>enabled := True\<rparr>))) = min n (length rs)"
  using assms audit_all_entries [of "(NewAuditLog n)\<lparr>enabled := True\<rparr>" "[]" rs]
  by (simp add: AuditLog_ForKey_def search_back_filter NewAuditLog_def keep_last_def min_def)

theorem audit_keeps_latest_witness:
  "AuditLog_ForKey ''k'' 5 (audit_all [(''k'', ''SET'', ''c'', [], 1), (''j'', ''SET'', ''c'', [], 2), (''k'', ''DEL'', ''c'', [], 3)]
      ((NewAuditLog 2)\<lparr>enabled := True\<rparr>)) = [audit_entry (''k'', ''DEL'', ''c'', [], 3)]"
  using audit_keeps_latest [of 2 5 "''k''" "[(''k'', ''SET'', ''c'', [], 1), (''j'', ''SET'', ''c'', [], 2), (''k'', ''DEL'', ''c'', [], 3)]"]
  by (simp add: keep_last_def audit_entry_def)

fun slow_all :: "(duration \<times> string list \<times> string \<times> gotime) list \<Rightarrow> SlowLog \<Rightarrow> SlowLog" where
  "slow_all [] sl = sl"
| "slow_all ((d, c, cl, now) # rs) sl = slow_all rs (SlowLog_Record d c cl now sl)"

lemma slow_all_entries:
  assumes "map SlowCommand (slow_entries sl) = keep_last (maxLen sl) cs"
  shows "map SlowCommand (slow_entries (slow_all rs sl)) =
    keep_last (maxLen sl) (cs @ map (\<lambda>(d, c, _). c) (filter (\<lambda>(d, _). threshold sl \<le> d) rs))"
  using assms
proof (induction rs sl arbitrary: cs rule: slow_all.induct)
  case (2 d c cl now rs sl)
  show ?case
  proof (cases "d < threshold sl")
    case True
    then show ?thesis using "2.IH" [of cs] "2.prems" by (simp add: SlowLog_Record_def)
  next
    case False
    have "map SlowCommand (slow_entries (SlowLog_Record d c cl now sl)) = keep_last (maxLen sl) (keep_last (maxLen sl) cs @ [c])"
      unfolding "2.prems" [symmetric] using False
      by (auto simp: SlowLog_Record_def Let_def keep_last_def drop_map [symmetric])
    then show ?thesis using "2.IH" [of "cs @ [c]"] False keep_last_snoc [of "maxLen sl" cs c]
      by (auto simp: SlowLog_Record_def Let_def)
  qed
qed simp

lemma SlowLog_Get_rev: "map SlowCommand (SlowLog_Get 0 sl) = rev (map SlowCommand (slow_entries sl))"
  by (auto simp: SlowLog_Get_def Let_def rev_nth intro!: nth_equalityI)

text \<open>\<open>SLOWLOG GET\<close> returns the latest commands that reached the threshold, newest first, at most \<open>maxLen\<close> of them.\<close>

theorem slowlog_keeps_latest:
  "map SlowCommand (SlowLog_Get 0 (slow_all rs (NewSlowLog thr n))) =
   rev (keep_last n (map (\<lambda>(d, c, _). c) (filter (\<lambda>(d, _). thr \<le> d) rs)))"
  using slow_all_entries [of "NewSlowLog thr n" "[]" rs] by (simp add: SlowLog_Get_rev NewSlowLog_def keep_last_def)

end
