(* ===== verification/Vole_Log.thy ===== *)
theory Vole_Log
  imports Vole_Text
begin

unbundle bit_operations_syntax

text \<open>
  The file format of the append-only log in \<^verbatim>\<open>internal/server/aof.go\<close>: escaping, checksums, appending a record with the three
  \<open>fsync\<close> policies, and reading the lines back.  The outcome of the system calls is an argument \<open>io\<close>; the file is its bytes,
  of which the first \<open>synced\<close> have reached the disk.
\<close>

section \<open>CRC-32\<close>

text \<open>\<open>crc32.ChecksumIEEE\<close>, bit by bit.\<close>

definition crc_bit :: "32 word \<Rightarrow> 32 word" where
  "crc_bit c = (if bit c 0 then drop_bit 1 c XOR 0xEDB88320 else drop_bit 1 c)"

definition crc_byte :: "char \<Rightarrow> 32 word \<Rightarrow> 32 word" where
  "crc_byte b c = (crc_bit ^^ 8) (c XOR word_of_nat (of_char b))"

definition ChecksumIEEE :: "string \<Rightarrow> 32 word" where
  "ChecksumIEEE s = NOT (fold crc_byte s (NOT 0))"

section \<open>Lines\<close>

definition hex_digit :: "nat \<Rightarrow> char" where
  "hex_digit d = (if d < 10 then digit_char d else char_of (87 + d))"

text \<open>The format \<open>%08x\<close>.\<close>

definition hex8 :: "32 word \<Rightarrow> string" where
  "hex8 w = map (\<lambda>i. hex_digit (unat w div 16 ^ i mod 16)) [7, 6, 5, 4, 3, 2, 1, 0]"

abbreviation BS :: char where "BS \<equiv> CHR 0x5C"
abbreviation TAB :: char where "TAB \<equiv> CHR 0x09"
abbreviation NL :: char where "NL \<equiv> CHR 0x0A"

definition escape :: "string \<Rightarrow> string" where
  "escape s = ReplaceAll [NL] [BS, CHR ''n''] (ReplaceAll [TAB] [BS, CHR ''t''] (ReplaceAll [BS] [BS, BS] s))"

definition unescape :: "string \<Rightarrow> string" where
  "unescape part = ReplaceAll [BS, BS] [BS] (ReplaceAll [BS, CHR ''t''] [TAB] (ReplaceAll [BS, CHR ''n''] [NL] part))"

definition unescapeLine :: "string \<Rightarrow> string list" where
  "unescapeLine line = map unescape (Split TAB line)"

definition line_content :: "string list \<Rightarrow> string" where
  "line_content args = Join TAB (map escape args)"

definition log_line :: "string list \<Rightarrow> string" where
  "log_line args = line_content args @ [TAB, CHR ''#''] @ hex8 (ChecksumIEEE (line_content args))"

text \<open>The result \<open>None\<close> is the pair \<open>(nil, false)\<close>.\<close>

definition verifyAndParseLine :: "string \<Rightarrow> string list option" where
  "verifyAndParseLine line =
     (let args = unescapeLine line; lst = last args in
      if length lst = 9 \<and> lst ! 0 = CHR ''#''
      then case LastIndex line TAB of
        None \<Rightarrow> None
      | Some contentEnd \<Rightarrow>
          (case ParseUint_base 16 (drop 1 lst) of
             None \<Rightarrow> None
           | Some expected \<Rightarrow>
               if word_of_nat expected \<noteq> ChecksumIEEE (take contentEnd line) then None else Some (butlast args))
      else Some args)"

section \<open>The file\<close>

record AOF =
  aof_file :: string
  synced :: nat
  fsync :: string
  lastSync :: gotime

abbreviation FsyncAlways :: string where "FsyncAlways \<equiv> ''always''"
abbreviation FsyncEverySec :: string where "FsyncEverySec \<equiv> ''everysec''"

text \<open>What the system calls of one operation answer; a failing write may have written some bytes.\<close>

record io =
  write_err :: "(nat \<times> go_error) option"
  truncate_err :: "go_error option"
  seek_err :: "go_error option"
  sync_err :: "go_error option"

definition io_ok :: io where
  "io_ok = \<lparr>write_err = None, truncate_err = None, seek_err = None, sync_err = None\<rparr>"

text \<open>\<open>OpenAOF\<close> on a file that can be opened and has the given contents.\<close>

definition OpenAOF :: "string \<Rightarrow> string \<Rightarrow> string \<Rightarrow> AOF option" where
  "OpenAOF path policy contents =
     (if path = '''' then None
      else Some \<lparr>aof_file = contents, synced = length contents, fsync = (if policy = '''' then FsyncEverySec else policy), lastSync = zeroTime\<rparr>)"

definition file_Sync :: "io \<Rightarrow> AOF \<Rightarrow> go_error option \<times> AOF" where
  "file_Sync io a = (case sync_err io of Some e \<Rightarrow> (Some e, a) | None \<Rightarrow> (None, a\<lparr>synced := length (aof_file a)\<rparr>))"

definition AOF_Append :: "io \<Rightarrow> string list \<Rightarrow> gotime \<Rightarrow> AOF \<Rightarrow> go_error option \<times> AOF" where
  "AOF_Append io args now a =
     (let line = log_line args @ [NL] in
      case write_err io of
        Some (n, e) \<Rightarrow> (Some e, a\<lparr>aof_file := aof_file a @ take n line\<rparr>)
      | None \<Rightarrow>
          let a = a\<lparr>aof_file := aof_file a @ line\<rparr> in
          if fsync a = FsyncAlways then file_Sync io (a\<lparr>lastSync := now\<rparr>)
          else if fsync a = FsyncEverySec \<and> Second \<le> time_Sub now (lastSync a) then file_Sync io (a\<lparr>lastSync := now\<rparr>)
          else (None, a))"

definition AOF_Reset :: "io \<Rightarrow> gotime \<Rightarrow> AOF \<Rightarrow> go_error option \<times> AOF" where
  "AOF_Reset io now a =
     (case truncate_err io of
        Some e \<Rightarrow> (Some e, a)
      | None \<Rightarrow>
          let a = a\<lparr>aof_file := [], synced := 0\<rparr> in
          (case seek_err io of Some e \<Rightarrow> (Some e, a) | None \<Rightarrow> file_Sync io (a\<lparr>lastSync := now\<rparr>)))"

text \<open>
  \<open>bufio.Scanner\<close>: lines without their end, a final line only when it is not empty; a carriage return before the end of a line is
  dropped.  The buffer holds 64 KiB, so a longer line stops the scan with an error.
\<close>

definition dropCR :: "string \<Rightarrow> string" where
  "dropCR l = (if l \<noteq> [] \<and> last l = CHR 0x0D then butlast l else l)"

fun scan_tokens :: "string list \<Rightarrow> string list \<times> go_error option" where
  "scan_tokens [] = ([], None)"
| "scan_tokens [l] = (if l = [] then ([], None) else if 65536 \<le> length l then ([], Some (Err ''bufio.Scanner: token too long'')) else ([dropCR l], None))"
| "scan_tokens (l # ls) =
     (if 65536 \<le> length l then ([], Some (Err ''bufio.Scanner: token too long''))
      else case scan_tokens ls of (ts, e) \<Rightarrow> (dropCR l # ts, e))"

definition scan_lines :: "string \<Rightarrow> string list \<times> go_error option" where
  "scan_lines bs = scan_tokens (Split NL bs)"

text \<open>The records that a replay applies, and the error it ends with.\<close>

definition log_records :: "string \<Rightarrow> string list list \<times> go_error option" where
  "log_records bs = (case scan_lines bs of (ls, e) \<Rightarrow> (List.map_filter verifyAndParseLine ls, e))"

section \<open>Escaping\<close>

lemma ReplaceAll_Nil [simp]: "ReplaceAll p r [] = []"
  by (subst ReplaceAll.simps) (auto simp: HasPrefix_def)

lemma ReplaceAll_1: "ReplaceAll [c] r s = concat (map (\<lambda>x. if x = c then r else [x]) s)"
proof (induction s)
  case (Cons x s)
  then show ?case by (subst ReplaceAll.simps) (auto simp: HasPrefix_def)
qed simp

lemma ReplaceAll_2: "ReplaceAll [a, b] r [x] = [x]"
    "ReplaceAll [a, b] r (x # y # s) = (if x = a \<and> y = b then r @ ReplaceAll [a, b] r s else x # ReplaceAll [a, b] r (y # s))"
  by (subst ReplaceAll.simps, auto simp: HasPrefix_def)+

definition esc :: "char \<Rightarrow> string" where
  "esc c = (if c = BS then [BS, BS] else if c = TAB then [BS, CHR ''t''] else if c = NL then [BS, CHR ''n''] else [c])"

lemma esc_simps: "esc BS = [BS, BS]" "esc TAB = [BS, CHR ''t'']" "esc NL = [BS, CHR ''n'']" "c \<notin> {BS, TAB, NL} \<Longrightarrow> esc c = [c]"
  by (auto simp: esc_def)

lemma escape_concat: "escape s = concat (map esc s)"
  by (induction s) (auto simp: escape_def ReplaceAll_1 esc_def)

text \<open>
  What becomes of a string that is escaped and unescaped: a letter \<open>n\<close> or \<open>t\<close> after a backslash is taken for the escape of a line
  end or a tab.
\<close>

fun mangle :: "bool \<Rightarrow> string \<Rightarrow> string" where
  "mangle p [] = []"
| "mangle p (c # s) =
     (if p \<and> c = CHR ''n'' then NL else if p \<and> c = CHR ''t'' then TAB else c) # mangle (c = BS) s"

text \<open>The string after the first and after the second replacement; the flag says that the second backslash of a pair comes next.\<close>

fun out1 :: "bool \<Rightarrow> string \<Rightarrow> string" where
  "out1 p [] = (if p then [BS] else [])"
| "out1 p (c # s) =
     (if p \<and> c = CHR ''n'' then NL # out1 False s
      else (if p then [BS] else []) @
           (if c = BS then BS # out1 True s else if c = TAB then BS # CHR ''t'' # out1 False s else c # out1 False s))"

fun out2 :: "bool \<Rightarrow> string \<Rightarrow> string" where
  "out2 p [] = (if p then [BS] else [])"
| "out2 p (c # s) =
     (if p \<and> c = CHR ''n'' then NL # out2 False s
      else if p \<and> c = CHR ''t'' then TAB # out2 False s
      else (if p then [BS] else []) @ (if c = BS then BS # out2 True s else c # out2 False s))"

lemma ReplaceAll_2_hd: "s \<noteq> [] \<Longrightarrow> hd s \<noteq> b \<Longrightarrow> ReplaceAll [a, b] r (x # s) = x # ReplaceAll [a, b] r s"
  by (cases s) (simp_all add: ReplaceAll_2)

lemma ReplaceAll_2_other: "x \<noteq> a \<Longrightarrow> ReplaceAll [a, b] r (x # s) = x # ReplaceAll [a, b] r s"
  by (cases s) (simp_all add: ReplaceAll_2)

lemma replace_out1: "ReplaceAll [BS, CHR ''n''] [NL] ((if p then [BS] else []) @ concat (map esc s)) = out1 p s"
proof (induction s arbitrary: p)
  case (Cons c s)
  let ?R = "ReplaceAll [BS, CHR ''n''] [NL]" and ?X = "concat (map esc s)"
  have X: "?R ?X = out1 False s" "?R (BS # ?X) = out1 True s" using Cons.IH [of False] Cons.IH [of True] by simp_all
  have other: "?R (x # Y) = x # ?R Y" if "x \<noteq> BS" for x Y using that by (rule ReplaceAll_2_other)
  have bs: "?R (BS # x # Y) = (if x = CHR ''n'' then NL # ?R Y else BS # ?R (x # Y))" for x Y by (simp add: ReplaceAll_2)
  consider "c = BS" | "c = TAB" | "c = NL" | "c \<noteq> BS \<and> c \<noteq> TAB \<and> c \<noteq> NL" by blast
  then show ?case
  proof cases
    case 1 then show ?thesis by (cases p) (simp_all add: esc_simps bs X)
  next
    case 2 then show ?thesis by (cases p) (simp_all add: esc_simps bs other X)
  next
    case 3 then show ?thesis by (cases p) (simp_all add: esc_simps bs other X)
  next
    case 4
    then have e: "concat (map esc (c # s)) = c # ?X" by (simp add: esc_simps)
    show ?thesis unfolding e using 4 by (cases p) (simp_all add: bs other X)
  qed
qed (simp add: ReplaceAll_2)

lemma out1_hd: "out1 True s \<noteq> [] \<and> hd (out1 True s) \<noteq> CHR ''t''"
  by (cases s) auto

lemma replace_out2: "ReplaceAll [BS, CHR ''t''] [TAB] (out1 p s) = out2 p s"
proof (induction s arbitrary: p)
  case (Cons c s)
  have other: "ReplaceAll [BS, CHR ''t''] [TAB] (x # out1 False s) = x # out2 False s" if "x \<noteq> BS" for x
    using that Cons.IH [of False] by (simp add: ReplaceAll_2_other)
  have bs: "ReplaceAll [BS, CHR ''t''] [TAB] (BS # out1 True s) = BS # out2 True s"
    using Cons.IH [of True] out1_hd [of s] by (simp add: ReplaceAll_2_hd)
  show ?case using Cons.IH [of False] other bs by (auto simp: ReplaceAll_2)
qed (simp add: ReplaceAll_2)

lemma replace_mangle:
  "ReplaceAll [BS, BS] [BS] (out2 False s) = mangle False s \<and> ReplaceAll [BS, BS] [BS] (BS # out2 True s) = BS # mangle True s"
proof (induction s)
  case (Cons c s)
  have other: "ReplaceAll [BS, BS] [BS] (x # out2 False s) = x # mangle False s" if "x \<noteq> BS" for x
    using that Cons.IH by (simp add: ReplaceAll_2_other)
  have one: "ReplaceAll [BS, BS] [BS] (out2 False (c # s)) = mangle False (c # s)"
    using Cons.IH other by auto
  then have "ReplaceAll [BS, BS] [BS] (BS # out2 True (c # s)) = BS # mangle True (c # s)"
    using other by (auto simp: ReplaceAll_2)
  with one show ?case by blast
qed (simp add: ReplaceAll_2)

lemma unescape_escape: "unescape (escape s) = mangle False s"
  using replace_out1 [of False s] replace_out2 [of False s] replace_mangle [of s]
  by (simp add: unescape_def escape_concat)

text \<open>A string without a backslash that is followed by the letter \<open>n\<close> or \<open>t\<close>.\<close>

fun plain :: "bool \<Rightarrow> string \<Rightarrow> bool" where
  "plain p [] \<longleftrightarrow> True"
| "plain p (c # s) \<longleftrightarrow> \<not> (p \<and> (c = CHR ''n'' \<or> c = CHR ''t'')) \<and> plain (c = BS) s"

lemma mangle_plain: "mangle p s = s \<longleftrightarrow> plain p s"
  by (induction s arbitrary: p) auto

section \<open>A line read back\<close>

lemma escape_chars: "TAB \<notin> set (escape s)" "NL \<notin> set (escape s)"
  by (auto simp: escape_concat esc_def split: if_splits)

lemma Split_ne: "Split sep s \<noteq> []"
  by (induction s) (auto split: list.split)

lemma Split_none: "sep \<notin> set s \<Longrightarrow> Split sep s = [s]"
  by (induction s) auto

lemma Split_append: "sep \<notin> set s \<Longrightarrow> Split sep (s @ sep # r) = s # Split sep r"
  by (induction s) auto

lemma Split_Join: "ss \<noteq> [] \<Longrightarrow> \<forall>s \<in> set ss. sep \<notin> set s \<Longrightarrow> Split sep (Join sep ss) = ss"
  by (induction sep ss rule: Join.induct) (auto simp: Split_none Split_append)

lemma Join_snoc: "ss \<noteq> [] \<Longrightarrow> Join sep (ss @ [s]) = Join sep ss @ sep # s"
  by (induction sep ss rule: Join.induct) auto

lemma Join_no: "c \<noteq> sep \<Longrightarrow> \<forall>s \<in> set ss. c \<notin> set s \<Longrightarrow> c \<notin> set (Join sep ss)"
  by (induction sep ss rule: Join.induct) auto

lemma hex_digit_code:
  assumes "d < 16"
  shows "lower_digit (hex_digit d) = Some d" "hex_digit d \<notin> {BS, TAB, NL, CHR 0x0D}"
proof -
  have n: "of_char (hex_digit d) = (if d < 10 then 48 + d else 87 + d)" using assms by (simp add: hex_digit_def digit_char_def)
  show "lower_digit (hex_digit d) = Some d"
  proof (cases "d < 10")
    case True
    then show ?thesis by (simp add: hex_digit_def lower_digit_digit is_digit_digit_char digit_val_digit_char)
  next
    case False
    then have "lower_char (hex_digit d) = hex_digit d" "\<not> is_digit (hex_digit d)" using n by (simp_all add: lower_char_def is_digit_def)
    then show ?thesis using False n assms by (simp add: lower_digit_def)
  qed
  show "hex_digit d \<notin> {BS, TAB, NL, CHR 0x0D}" using n by (auto dest!: arg_cong [where f = "of_char :: char \<Rightarrow> nat"] split: if_splits)
qed

lemma hex8_chars: "c \<in> set (hex8 w) \<Longrightarrow> c \<notin> {BS, TAB, NL, CHR 0x0D}"
proof -
  assume "c \<in> set (hex8 w)"
  then obtain n where "c = hex_digit (n mod 16)" unfolding hex8_def set_map by blast
  then show ?thesis using hex_digit_code(2) [of "n mod 16"] by simp
qed

lemma hex8_length [simp]: "length (hex8 w) = 8"
  by (simp add: hex8_def)

lemma digits_value_hex:
  "\<forall>d \<in> set ds. d < 16 \<Longrightarrow> digits_value 16 n (map hex_digit ds) = (let v = foldl (\<lambda>a d. a * 16 + d) n ds in if v \<le> maxUint64 then Some v else None)"
  by (induction ds arbitrary: n) (simp_all add: hex_digit_code)

lemma foldl_hex: "foldl (\<lambda>a d. a * 16 + d) a (map (\<lambda>i. u div 16 ^ i mod 16) (rev [0..<k])) = a * 16 ^ k + (u :: nat) mod 16 ^ k"
proof (induction k arbitrary: a)
  case (Suc k)
  have "u mod 16 ^ Suc k = u div 16 ^ k mod 16 * 16 ^ k + u mod 16 ^ k" by (metis add.commute mod_mult2_eq mult.commute power_Suc)
  then show ?case using Suc by (simp add: algebra_simps)
qed simp

lemma hex8_value: "ParseUint_base 16 (hex8 w) = Some (unat w)"
proof -
  have l: "[7, 6, 5, 4, 3, 2, 1, 0] = rev [0..<8 :: nat]" by code_simp
  have small: "unat w < 16 ^ 8" using unsigned_less [where w = w] by simp
  have "digits_value 16 0 (hex8 w) = Some (unat w)"
    using small foldl_hex [of 0 "unat w" 8] digits_value_hex [of "map (\<lambda>i. unat w div 16 ^ i mod 16) (rev [0..<8])" 0]
    unfolding hex8_def l by (simp add: comp_def maxUint64_def)
  moreover have "hex8 w \<noteq> []" by (simp add: hex8_def)
  ultimately show ?thesis by (simp add: ParseUint_base_def)
qed

lemma ReplaceAll_absent: "a \<notin> set s \<Longrightarrow> ReplaceAll [a, b] r s = s"
  by (induction s) (auto simp: ReplaceAll_2_other)

lemma unescape_plain: "BS \<notin> set s \<Longrightarrow> unescape s = s"
  by (simp add: unescape_def ReplaceAll_absent)

lemma IndexByte_append: "c \<notin> set s \<Longrightarrow> IndexByte (s @ c # r) c = Some (length s)"
  by (induction s) auto

lemma LastIndex_append: "c \<notin> set r \<Longrightarrow> LastIndex (s @ c # r) c = Some (length s)"
  by (simp add: LastIndex_def IndexByte_append)

abbreviation check_field :: "string list \<Rightarrow> string" where
  "check_field args \<equiv> CHR ''#'' # hex8 (ChecksumIEEE (line_content args))"

lemma check_field_chars: "BS \<notin> set (CHR ''#'' # hex8 w)" "TAB \<notin> set (CHR ''#'' # hex8 w)" "NL \<notin> set (CHR ''#'' # hex8 w)"
  using hex8_chars by auto

lemma log_line_fields: "args \<noteq> [] \<Longrightarrow> unescapeLine (log_line args) = map (mangle False) args @ [check_field args]"
proof -
  assume ne: "args \<noteq> []"
  have "log_line args = Join TAB (map escape args @ [check_field args])"
    using ne by (simp add: log_line_def line_content_def Join_snoc)
  moreover have "Split TAB \<dots> = map escape args @ [check_field args]"
    by (rule Split_Join) (use escape_chars check_field_chars in auto)
  ultimately show ?thesis
    by (simp add: unescapeLine_def unescape_escape unescape_plain [OF check_field_chars(1)])
qed

lemma verify_log_line: "args \<noteq> [] \<Longrightarrow> verifyAndParseLine (log_line args) = Some (map (mangle False) args)"
proof -
  assume "args \<noteq> []"
  moreover have "LastIndex (log_line args) TAB = Some (length (line_content args))"
    using LastIndex_append [OF check_field_chars(2)] by (simp add: log_line_def)
  moreover have "take (length (line_content args)) (log_line args) = line_content args" by (simp add: log_line_def)
  ultimately show ?thesis by (simp add: verifyAndParseLine_def log_line_fields hex8_value)
qed

lemma log_line_no_newline: "NL \<notin> set (log_line args)"
  using check_field_chars(3) Join_no [of NL TAB "map escape args"] escape_chars(2)
  by (auto simp: log_line_def line_content_def)

lemma log_line_last: "log_line args \<noteq> [] \<and> last (log_line args) \<noteq> CHR 0x0D"
  using hex8_chars [of "last (hex8 (ChecksumIEEE (line_content args)))" "ChecksumIEEE (line_content args)"]
  by (simp add: log_line_def hex8_def)

section \<open>Properties of the log\<close>

lemma map_id_iff: "map f xs = xs \<longleftrightarrow> (\<forall>x \<in> set xs. f x = x)"
  by (induction xs) auto

text \<open>A record of the log is read back unchanged if and only if none of its arguments has a backslash followed by the letter \<open>n\<close> or
  \<open>t\<close>; any other content, tabs and line ends included, survives.\<close>

theorem record_survives_iff:
  assumes "args \<noteq> []"
  shows "verifyAndParseLine (log_line args) = Some args \<longleftrightarrow> (\<forall>a \<in> set args. plain False a)"
  using verify_log_line [OF assms] by (simp add: map_id_iff mangle_plain)

theorem record_survives_iff_witness:
  "verifyAndParseLine (log_line [''SETABS'', ''k'', [BS, CHR ''x'', TAB, NL], ''0'']) = Some [''SETABS'', ''k'', [BS, CHR ''x'', TAB, NL], ''0''] \<and>
   verifyAndParseLine (log_line [''JSON.SET'', ''k'', ''$'', [CHR 0x22, BS, CHR ''n'', CHR 0x22]]) \<noteq> Some [''JSON.SET'', ''k'', ''$'', [CHR 0x22, BS, CHR ''n'', CHR 0x22]]"
  using record_survives_iff [of "[''SETABS'', ''k'', [BS, CHR ''x'', TAB, NL], ''0'']"]
    record_survives_iff [of "[''JSON.SET'', ''k'', ''$'', [CHR 0x22, BS, CHR ''n'', CHR 0x22]]"] by simp

fun appends :: "(string list \<times> gotime) list \<Rightarrow> AOF \<Rightarrow> AOF" where
  "appends [] a = a"
| "appends ((args, now) # rs) a = appends rs (snd (AOF_Append io_ok args now a))"

lemma append_file: "aof_file (snd (AOF_Append io_ok args now a)) = aof_file a @ log_line args @ [NL]"
  by (simp add: AOF_Append_def io_ok_def file_Sync_def Let_def)

lemma appends_file: "aof_file (appends rs a) = aof_file a @ concat (map (\<lambda>(args, _). log_line args @ [NL]) rs)"
  by (induction rs a rule: appends.induct) (simp_all add: append_file)

lemma Split_lines: "\<forall>l \<in> set ls. NL \<notin> set l \<Longrightarrow> Split NL (concat (map (\<lambda>l. l @ [NL]) ls)) = ls @ [[]]"
  by (induction ls) (auto simp: Split_append)

lemma scan_tokens_lines:
  "\<forall>l \<in> set ls. length l < 65536 \<and> dropCR l = l \<Longrightarrow> scan_tokens (ls @ [[]]) = (ls, None)"
proof (induction ls)
  case (Cons l ls)
  obtain x xs where "ls @ [[]] = x # xs" by (cases "ls @ [[]]") auto
  then show ?case using Cons by simp
qed simp

lemma log_records_appends:
  assumes "aof_file a = []" "\<forall>(args, now) \<in> set rs. args \<noteq> [] \<and> length (log_line args) < 65536"
  shows "log_records (aof_file (appends rs a)) = (map (\<lambda>(args, now). map (mangle False) args) rs, None)"
proof -
  let ?ls = "map (\<lambda>(args, now). log_line args) rs"
  have bs: "aof_file (appends rs a) = concat (map (\<lambda>l. l @ [NL]) ?ls)"
    using assms(1) by (simp add: appends_file comp_def case_prod_unfold)
  have "Split NL (aof_file (appends rs a)) = ?ls @ [[]]"
    unfolding bs by (rule Split_lines) (auto simp: log_line_no_newline)
  moreover have "\<forall>l \<in> set ?ls. length l < 65536 \<and> dropCR l = l" using assms(2) log_line_last by (auto simp: dropCR_def)
  ultimately have s: "scan_lines (aof_file (appends rs a)) = (?ls, None)"
    unfolding scan_lines_def using scan_tokens_lines by presburger
  have "List.map_filter verifyAndParseLine ?ls = map (\<lambda>(args, now). map (mangle False) args) rs"
    using assms(2) by (induction rs) (auto simp: map_filter_simps verify_log_line)
  then show ?thesis using s by (simp add: log_records_def)
qed

text \<open>A log that was written record by record is read back as the same sequence of records, when every line is shorter than the 64 KiB
  of the scanner's buffer and no argument has a backslash before \<open>n\<close> or \<open>t\<close>.\<close>

theorem log_roundtrip:
  assumes "aof_file a = []" "\<forall>(args, now) \<in> set rs. args \<noteq> [] \<and> length (log_line args) < 65536 \<and> (\<forall>x \<in> set args. plain False x)"
  shows "log_records (aof_file (appends rs a)) = (map fst rs, None)"
proof -
  have "map (\<lambda>(args, now). map (mangle False) args) rs = map fst rs"
    using assms(2) by (induction rs) (auto simp: mangle_plain intro!: map_idI)
  moreover have "\<forall>(args, now) \<in> set rs. args \<noteq> [] \<and> length (log_line args) < 65536" using assms(2) by auto
  ultimately show ?thesis using log_records_appends [OF assms(1)] by simp
qed

theorem log_roundtrip_witness:
  "log_records (aof_file (appends [([''DEL'', ''a''], 0), ([''INCR'', ''b''], 5)] \<lparr>aof_file = [], synced = 0, fsync = FsyncAlways, lastSync = 0\<rparr>)) =
     ([[''DEL'', ''a''], [''INCR'', ''b'']], None)"
proof -
  have "length (log_line args) < 65536" if "args \<in> {[''DEL'', ''a''], [''INCR'', ''b'']}" for args
    using that by (auto simp: log_line_def line_content_def escape_concat esc_def)
  then show ?thesis
    using log_roundtrip [of "\<lparr>aof_file = [], synced = 0, fsync = FsyncAlways, lastSync = 0\<rparr>" "[([''DEL'', ''a''], 0), ([''INCR'', ''b''], 5)]"]
    by simp
qed

text \<open>A line of 64 KiB or more ends the replay: neither its record nor any later one is read, although every one of them was
  acknowledged.\<close>

theorem long_record_ends_replay:
  assumes "aof_file a = []" "\<forall>(args, now) \<in> set before. args \<noteq> [] \<and> length (log_line args) < 65536" "65536 \<le> length (log_line args)"
  shows "log_records (aof_file (appends (before @ (args, now) # after) a)) =
    (map (\<lambda>(args, now). map (mangle False) args) before, Some (Err ''bufio.Scanner: token too long''))"
proof -
  let ?ls = "map (\<lambda>(args, now). log_line args) before" and ?rest = "map (\<lambda>(args, now). log_line args) after @ [[]]"
  have bs: "aof_file (appends (before @ (args, now) # after) a) =
      concat (map (\<lambda>l. l @ [NL]) (map (\<lambda>(args, now). log_line args) (before @ (args, now) # after)))"
    using assms(1) by (simp add: appends_file comp_def case_prod_unfold)
  have sp: "Split NL (aof_file (appends (before @ (args, now) # after) a)) = ?ls @ log_line args # ?rest"
    unfolding bs by (subst Split_lines) (auto simp: log_line_no_newline)
  have "\<forall>l \<in> set ls. length l < 65536 \<and> dropCR l = l \<Longrightarrow>
      scan_tokens (ls @ log_line args # r # rs) = (ls, Some (Err ''bufio.Scanner: token too long''))" for ls r rs
  proof (induction ls)
    case (Cons l ls)
    obtain x xs where "ls @ log_line args # r # rs = x # xs" by (cases "ls @ log_line args # r # rs") auto
    then show ?case using Cons by simp
  qed (use assms(3) in simp)
  moreover have "\<forall>l \<in> set ?ls. length l < 65536 \<and> dropCR l = l" using assms(2) log_line_last by (auto simp: dropCR_def)
  moreover obtain r rs where "?rest = r # rs" by (cases ?rest) auto
  ultimately have s: "scan_lines (aof_file (appends (before @ (args, now) # after) a)) = (?ls, Some (Err ''bufio.Scanner: token too long''))"
    unfolding scan_lines_def sp by simp
  have "List.map_filter verifyAndParseLine ?ls = map (\<lambda>(args, now). map (mangle False) args) before"
    using assms(2) by (induction before) (auto simp: map_filter_simps verify_log_line)
  then show ?thesis using s by (simp add: log_records_def)
qed

lemma escape_length: "length s \<le> length (escape s)"
  by (induction s) (auto simp: escape_concat esc_def)

lemma log_line_length: "length (escape x) \<le> length (log_line (args @ [x]))"
  using Join_snoc [of "map escape args" TAB "escape x"] by (cases "args = []") (auto simp: log_line_def line_content_def)

theorem long_record_ends_replay_witness:
  "log_records (aof_file (appends [([''DEL'', ''a''], 0), ([''SETABS'', ''k'', replicate 70000 CHR ''x''], 0), ([''INCR'', ''b''], 5)]
     \<lparr>aof_file = [], synced = 0, fsync = FsyncAlways, lastSync = 0\<rparr>)) = ([[''DEL'', ''a'']], Some (Err ''bufio.Scanner: token too long''))"
proof -
  let ?a = "\<lparr>aof_file = [], synced = 0, fsync = FsyncAlways, lastSync = 0\<rparr>"
  have "log_records (aof_file (appends [([''DEL'', ''a''], 0), ([''SETABS'', ''k'', x], 0), ([''INCR'', ''b''], 5)] ?a)) =
      ([[''DEL'', ''a'']], Some (Err ''bufio.Scanner: token too long''))" if "65536 \<le> length x" for x
  proof -
    have "length (log_line [''DEL'', ''a'']) < 65536" by (simp add: log_line_def line_content_def escape_concat esc_def)
    moreover have "65536 \<le> length (log_line [''SETABS'', ''k'', x])"
      using log_line_length [of x "[''SETABS'', ''k'']"] escape_length [of x] that by simp
    ultimately show ?thesis
      using long_record_ends_replay [of ?a "[([''DEL'', ''a''], 0)]" "[''SETABS'', ''k'', x]" 0 "[([''INCR'', ''b''], 5)]"] by simp
  qed
  from this [of "replicate 70000 CHR ''x''"] show ?thesis by (simp only: length_replicate)
qed

section \<open>Damaged lines\<close>

lemma crc_bit_31: "bit (crc_bit c) 31 = bit c 0"
  using bit_imp_le_length [of c 32] by (auto simp: crc_bit_def bit_xor_iff bit_drop_bit_eq)

lemma xor_cancel: "(a :: 32 word) XOR b = a XOR c \<longleftrightarrow> b = c" "(b :: 32 word) XOR a = c XOR a \<longleftrightarrow> b = c"
proof -
  have "b = c" if "a XOR b = a XOR c" for a b c :: "32 word"
    using arg_cong [OF that, of "(XOR) a"] by (simp flip: xor.assoc)
  then show "a XOR b = a XOR c \<longleftrightarrow> b = c" "b XOR a = c XOR a \<longleftrightarrow> b = c" by (auto simp: xor.commute)
qed

lemma crc_bit_inj: "crc_bit x = crc_bit y \<Longrightarrow> x = y"
proof (rule bit_word_eqI)
  fix n assume e: "crc_bit x = crc_bit y" and n: "n < LENGTH(32)"
  have b0: "bit x 0 = bit y 0" using e crc_bit_31 by metis
  then have "drop_bit 1 x = drop_bit 1 y" using e by (auto simp: crc_bit_def xor_cancel split: if_splits)
  then have "bit x (Suc m) = bit y (Suc m)" for m by (metis bit_drop_bit_eq comp_apply plus_1_eq_Suc)
  then show "bit x n = bit y n" using b0 by (cases n) auto
qed

lemma crc_bits_inj: "(crc_bit ^^ k) x = (crc_bit ^^ k) y \<longleftrightarrow> x = y"
  by (induction k) (auto dest: crc_bit_inj)

lemma char_word_inj: "(word_of_nat (of_char a) :: 32 word) = word_of_nat (of_char b) \<longleftrightarrow> a = b"
proof
  assume "(word_of_nat (of_char a) :: 32 word) = word_of_nat (of_char b)"
  then have "unat (word_of_nat (of_char a) :: 32 word) = unat (word_of_nat (of_char b) :: 32 word)" by simp
  moreover have "(of_char c :: nat) < 256" for c :: char by simp
  then have "unat (word_of_nat (of_char c) :: 32 word) = of_char c" for c :: char
    by (simp add: unsigned_of_nat take_bit_nat_eq_self_iff order.strict_trans2 [of _ 256])
  ultimately show "a = b" by simp
qed simp

lemma crc_byte_inj: "crc_byte b x = crc_byte b y \<longleftrightarrow> x = y" "crc_byte a x = crc_byte b x \<longleftrightarrow> a = b"
  by (simp_all only: crc_byte_def crc_bits_inj xor_cancel char_word_inj)

lemma crc_fold_inj: "fold crc_byte s x = fold crc_byte s y \<longleftrightarrow> x = y"
  by (induction s arbitrary: x y) (simp_all add: crc_byte_inj)

lemma checksum_one_byte:
  assumes "i < length s" "c \<noteq> s ! i"
  shows "ChecksumIEEE (s[i := c]) \<noteq> ChecksumIEEE s"
proof -
  have "s = take i s @ s ! i # drop (Suc i) s" by (rule id_take_nth_drop [OF assms(1)])
  moreover have "s[i := c] = take i s @ c # drop (Suc i) s" by (simp add: upd_conv_take_nth_drop [OF assms(1)])
  moreover have "fold crc_byte (p @ c # q) x \<noteq> fold crc_byte (p @ d # q) x" if "c \<noteq> d" for p q d and x :: "32 word"
    using that by (simp add: crc_fold_inj crc_byte_inj)
  ultimately have "fold crc_byte (s[i := c]) (NOT 0) \<noteq> fold crc_byte s (NOT 0)" using assms(2) by metis
  then show ?thesis unfolding ChecksumIEEE_def by (metis bit.double_compl)
qed

lemma Split_app: "Split sep (s @ sep # r) = Split sep s @ Split sep r"
proof (induction s)
  case (Cons c s)
  obtain p ps where "Split sep s = p # ps" using Split_ne [of sep s] by (cases "Split sep s") auto
  then show ?case using Cons by simp
qed simp

lemma last_Split: "sep \<notin> set r \<Longrightarrow> last (Split sep (s @ sep # r)) = r"
  by (simp add: Split_app Split_none)

text \<open>C39: The checksum of a log line detects every change of a single byte of its content: \<open>verifyAndParseLine\<close> rejects the line.\<close>

theorem changed_byte_detected:
  assumes "i < length (line_content args)" "c \<noteq> log_line args ! i"
  shows "verifyAndParseLine ((log_line args)[i := c]) = None"
proof -
  let ?c = "(line_content args)[i := c]" and ?f = "check_field args"
  have l: "(log_line args)[i := c] = ?c @ TAB # ?f" using assms(1) by (simp add: log_line_def list_update_append)
  have "last (unescapeLine (?c @ TAB # ?f)) = ?f"
    using last_Split [OF check_field_chars(2), of ?c] Split_ne [of TAB "?c @ TAB # ?f"]
    by (simp add: unescapeLine_def last_map unescape_plain [OF check_field_chars(1)])
  moreover have "LastIndex (?c @ TAB # ?f) TAB = Some (length ?c)" by (rule LastIndex_append [OF check_field_chars(2)])
  moreover have "c \<noteq> line_content args ! i" using assms by (simp add: log_line_def nth_append)
  then have "ChecksumIEEE (line_content args) \<noteq> ChecksumIEEE ?c" using checksum_one_byte [OF assms(1)] by metis
  ultimately show ?thesis unfolding l by (simp add: verifyAndParseLine_def hex8_value)
qed

theorem changed_byte_detected_witness: "verifyAndParseLine ((log_line [''DEL'', ''a''])[4 := CHR ''b'']) = None"
  using changed_byte_detected [of 4 "[''DEL'', ''a'']" "CHR ''b''"] by (simp add: line_content_def log_line_def escape_concat esc_def)

section \<open>What has reached the disk\<close>

text \<open>When an append succeeds its record ends the file.  Under the policy \<open>always\<close> the whole file has then reached the disk; under
  \<open>everysec\<close> this holds unless the last sync was less than a second ago.\<close>

theorem append_durable:
  assumes "fst (AOF_Append io args now a) = None" "snd (AOF_Append io args now a) = a'"
  shows "aof_file a' = aof_file a @ log_line args @ [NL] \<and>
    (fsync a = FsyncAlways \<longrightarrow> synced a' = length (aof_file a')) \<and>
    (fsync a = FsyncEverySec \<longrightarrow> synced a' = length (aof_file a') \<or> time_Sub now (lastSync a) < Second \<and> lastSync a' = lastSync a)"
  using assms by (auto simp: AOF_Append_def file_Sync_def Let_def split: option.splits if_splits)

theorem append_durable_witness:
  "synced (snd (AOF_Append io_ok [''DEL'', ''a''] 5 \<lparr>aof_file = [], synced = 0, fsync = FsyncAlways, lastSync = 0\<rparr>)) =
   length (log_line [''DEL'', ''a''] @ [NL])"
  using append_durable [of io_ok "[''DEL'', ''a'']" 5 "\<lparr>aof_file = [], synced = 0, fsync = FsyncAlways, lastSync = 0\<rparr>"]
  by (simp add: AOF_Append_def io_ok_def file_Sync_def Let_def)

end
