(* ===== verification/Vole_Cron.thy ===== *)
theory Vole_Cron
  imports Vole_Services Vole_Log
begin

text \<open>
  Scheduled commands: \<^verbatim>\<open>internal/server/cron.go\<close>.  The calendar fields of a moment, which depend on the time zone, are the
  record \<open>civil\<close>.  The loop over a range of numbers counts in \<open>int64\<close> and need not end, so parsing a field is partial.
\<close>

section \<open>Schedules\<close>

record cronSchedule =
  minute :: "int list"
  hour :: "int list"
  dom :: "int list"
  month :: "int list"
  dow :: "int list"

record civil =
  Minute :: int
  Hour :: int
  Day :: int
  Month :: int
  Weekday :: int

definition matchesCron :: "cronSchedule \<Rightarrow> civil \<Rightarrow> bool" where
  "matchesCron sched t \<longleftrightarrow>
     Minute t \<in> set (minute sched) \<and> Hour t \<in> set (hour sched) \<and> Day t \<in> set (dom sched) \<and>
     Month t \<in> set (month sched) \<and> Weekday t \<in> set (dow sched)"

text \<open>\<open>for i := lo; i <= hi; i += step\<close>, appending each \<open>i\<close>.\<close>

partial_function (option) span_loop :: "int \<Rightarrow> int \<Rightarrow> int \<Rightarrow> int list \<Rightarrow> int list option" where
  "span_loop step i hi vals = (if i \<le> hi then span_loop step (wrap64 (i + step)) hi (vals @ [i]) else Some vals)"

definition parse_range :: "string \<Rightarrow> nat \<Rightarrow> int list res option" where
  "parse_range part idx =
     (case Atoi (take idx part) of
        (_, Some e) \<Rightarrow> Some (Inl (num_err e))
      | (lo, None) \<Rightarrow>
          (case Atoi (drop (idx + 1) part) of
             (_, Some e) \<Rightarrow> Some (Inl (num_err e))
           | (hi, None) \<Rightarrow> map_option Inr (span_loop 1 lo hi [])))"

fun parse_parts :: "string list \<Rightarrow> int list \<Rightarrow> int list res option" where
  "parse_parts [] vals = Some (Inr vals)"
| "parse_parts (part # ps) vals =
     (case IndexByte part CHR ''-'' of
        Some idx \<Rightarrow>
          (case parse_range part idx of
             None \<Rightarrow> None
           | Some (Inl e) \<Rightarrow> Some (Inl e)
           | Some (Inr r) \<Rightarrow> parse_parts ps (vals @ r))
      | None \<Rightarrow>
          (case Atoi part of
             (_, Some e) \<Rightarrow> Some (Inl (num_err e))
           | (n, None) \<Rightarrow> parse_parts ps (vals @ [n])))"

definition parseCronField :: "(string \<Rightarrow> string) \<Rightarrow> string \<Rightarrow> int \<Rightarrow> int \<Rightarrow> int list res option" where
  "parseCronField quote field lo hi =
     (if field = ''*'' then Some (Inr [lo..hi])
      else if HasPrefix field ''*/'' then
        (case Atoi (drop 2 field) of
           (step, None) \<Rightarrow>
             if step \<le> 0 then Some (Inl (Err (''invalid step '' @ quote field)))
             else map_option Inr (span_loop step lo hi [])
         | (_, Some _) \<Rightarrow> Some (Inl (Err (''invalid step '' @ quote field))))
      else parse_parts (Split CHR '','' field) [])"

text \<open>\<open>strings.Fields\<close>.\<close>

function words :: "string \<Rightarrow> string \<Rightarrow> string list" where
  "words w s =
     (if s = [] then (if w = [] then [] else [w])
      else if space_len s = 0 then words (w @ [hd s]) (tl s)
      else (if w = [] then [] else [w]) @ words [] (drop (space_len s) s))"
  by pat_completeness auto
termination by (relation "measure (\<lambda>(w, s). length s)") auto

declare words.simps [simp del]

definition within :: "string \<Rightarrow> int list res option \<Rightarrow> (int list \<Rightarrow> cronSchedule res option) \<Rightarrow> cronSchedule res option" where
  "within name r k =
     (case r of
        None \<Rightarrow> None
      | Some (Inl (Err m)) \<Rightarrow> Some (Inl (Err (name @ '': '' @ m)))
      | Some (Inl (Panic m)) \<Rightarrow> Some (Inl (Panic m))
      | Some (Inr vals) \<Rightarrow> k vals)"

definition parseCronSchedule :: "(string \<Rightarrow> string) \<Rightarrow> string \<Rightarrow> cronSchedule res option" where
  "parseCronSchedule quote schedule =
     (let parts = words [] schedule in
      if length parts \<noteq> 5
      then Some (Inl (Err (''cron schedule must have 5 fields, got '' @ FormatInt (int (length parts)))))
      else within ''minute'' (parseCronField quote (parts ! 0) 0 59) (\<lambda>mi.
        within ''hour'' (parseCronField quote (parts ! 1) 0 23) (\<lambda>h.
        within ''day of month'' (parseCronField quote (parts ! 2) 1 31) (\<lambda>d.
        within ''month'' (parseCronField quote (parts ! 3) 1 12) (\<lambda>mo.
        within ''day of week'' (parseCronField quote (parts ! 4) 0 6) (\<lambda>w.
          Some (Inr \<lparr>minute = mi, hour = h, dom = d, month = mo, dow = w\<rparr>)))))))"

section \<open>Jobs\<close>

record CronJob =
  Schedule :: string
  JobCommand :: "string list"
  JobCreated :: gotime
  LastRun :: gotime
  RunCount :: int
  LastError :: string
  parsed :: cronSchedule

definition CronManager_Add ::
  "(string \<Rightarrow> string) \<Rightarrow> string \<Rightarrow> string \<Rightarrow> string list \<Rightarrow> gotime \<Rightarrow> CronJob gomap \<Rightarrow> (go_error option \<times> CronJob gomap) option" where
  "CronManager_Add quote name schedule command now jobs =
     (case parseCronSchedule quote schedule of
        None \<Rightarrow> None
      | Some (Inl e) \<Rightarrow> Some (Some e, jobs)
      | Some (Inr p) \<Rightarrow>
          Some (None, fmupd name \<lparr>Schedule = schedule, JobCommand = command, JobCreated = now, LastRun = zeroTime, RunCount = 0,
                                  LastError = '''', parsed = p\<rparr> jobs))"

definition CronManager_Del :: "string \<Rightarrow> CronJob gomap \<Rightarrow> bool \<times> CronJob gomap" where
  "CronManager_Del name jobs = (if has jobs name then (True, fmdrop name jobs) else (False, jobs))"

text \<open>The critical section of \<open>Run\<close>: the jobs that are due, and the table with their counters.\<close>

definition CronManager_Run :: "civil \<Rightarrow> gotime \<Rightarrow> CronJob gomap \<Rightarrow> string list \<times> CronJob gomap" where
  "CronManager_Run t now jobs =
     (filter (\<lambda>n. case fmlookup jobs n of Some j \<Rightarrow> matchesCron (parsed j) t | None \<Rightarrow> False) (sorted_keys jobs),
      fmmap (\<lambda>j. if matchesCron (parsed j) t then j\<lparr>RunCount := wrap64 (RunCount j + 1), LastRun := now\<rparr> else j) jobs)"

section \<open>What a field denotes\<close>

lemma span_loop_up:
  assumes "0 < step" "int64 i" "hi \<le> maxInt64 - step"
  shows "\<exists>r. span_loop step i hi vals = Some (vals @ r) \<and> set r = {x. i \<le> x \<and> x \<le> hi \<and> step dvd (x - i)}"
  using assms
proof (induction "nat (hi + 1 - i)" arbitrary: i vals rule: less_induct)
  case less
  show ?case
  proof (cases "i \<le> hi")
    case True
    have i': "int64 (i + step)" using less.prems True by (simp add: int64_def maxInt64_def)
    have "nat (hi + 1 - (i + step)) < nat (hi + 1 - i)" using True less.prems(1) by simp
    from less.hyps [OF this less.prems(1) i' less.prems(3), of "vals @ [i]"]
    obtain r where r: "span_loop step (i + step) hi (vals @ [i]) = Some ((vals @ [i]) @ r)"
      "set r = {x. i + step \<le> x \<and> x \<le> hi \<and> step dvd (x - (i + step))}" by blast
    have run: "span_loop step i hi vals = Some (vals @ (i # r))"
      using True r(1) i' by (subst span_loop.simps) (simp add: wrap64_id)
    have same: "step dvd (x - (i + step)) \<longleftrightarrow> step dvd (x - i)" for x
      by (metis add_diff_cancel_left' diff_diff_eq dvd_diff_left_iff dvd_refl)
    have next_i: "i + step \<le> x" if "step dvd (x - i)" "i < x" for x
      using zdvd_imp_le [OF that(1)] that(2) by simp
    have "insert i (set r) = {x. i \<le> x \<and> x \<le> hi \<and> step dvd (x - i)}"
      unfolding r(2) same using True less.prems(1) next_i
      by (smt (verit) Collect_cong diff_self dvd_0_right insert_Collect)
    then show ?thesis using run by (intro exI [of _ "i # r"]) simp
  next
    case False
    then show ?thesis by (subst span_loop.simps) auto
  qed
qed

text \<open>The field \<open>*/N\<close> of a schedule is accepted for every positive step that leaves room below the largest \<open>int64\<close>, and denotes
  exactly the values of the field's range at multiples of \<open>N\<close> from its start.\<close>

theorem cron_step_values:
  assumes "0 < n" "n \<le> maxInt64 - hi" "0 \<le> lo" "lo \<le> hi" "hi < 60"
  shows "\<exists>r. parseCronField quote (''*/'' @ FormatInt n) lo hi = Some (Inr r) \<and>
    set r = {x. lo \<le> x \<and> x \<le> hi \<and> n dvd (x - lo)}"
proof -
  have "int64 n" "int64 lo" using assms by (simp_all add: int64_def maxInt64_def)
  then show ?thesis
    using span_loop_up [of n lo hi "[]"] assms
    by (auto simp: parseCronField_def HasPrefix_def ParseInt_FormatInt)
qed

theorem cron_step_values_witness:
  "\<exists>r. parseCronField id (''*/'' @ FormatInt 15) 0 59 = Some (Inr r) \<and> set r = {x. 0 \<le> x \<and> x \<le> 59 \<and> 15 dvd (x - 0)}"
  by (rule cron_step_values) (simp_all add: maxInt64_def)

lemma span_loop_no_end:
  assumes "span_loop step i hi vals = Some r"
  shows "step = 1 \<longrightarrow> hi = maxInt64 \<longrightarrow> int64 i \<longrightarrow> False"
proof (rule span_loop.raw_induct [OF _ assms])
  fix loop step i hi vals r
  assume IH: "\<And>step i hi vals r. loop step i hi vals = Some r \<Longrightarrow> step = 1 \<longrightarrow> hi = maxInt64 \<longrightarrow> int64 i \<longrightarrow> False"
    and out: "(if i \<le> hi then loop step (wrap64 (i + step)) hi (vals @ [i]) else Some vals) = Some r"
  show "step = 1 \<longrightarrow> hi = maxInt64 \<longrightarrow> int64 i \<longrightarrow> False"
  proof (intro impI)
    assume c: "step = 1" "hi = maxInt64" "int64 i"
    then have "i \<le> hi" by (simp add: int64_def maxInt64_def)
    then have "loop step (wrap64 (i + step)) hi (vals @ [i]) = Some r" using out by simp
    from IH [OF this] c show False by simp
  qed
qed

text \<open>A schedule field whose range ends at the largest \<open>int64\<close> is never parsed to the end: the counter wraps around below the bound
  for ever, and the list grows.\<close>

theorem cron_range_never_ends:
  assumes "int64 lo" "0 \<le> lo" "field = FormatInt lo @ ''-'' @ FormatInt maxInt64"
  shows "parseCronField quote field a b = None"
proof -
  have dash: "CHR ''-'' \<notin> set (FormatInt n)" "CHR '','' \<notin> set (FormatInt n)" "CHR ''*'' \<notin> set (FormatInt n)" "FormatInt n \<noteq> []" if "0 \<le> n" for n
    using that by (auto simp: FormatInt_def is_digit_def dest!: format_nat_digits)
  have idx: "IndexByte field CHR ''-'' = Some (length (FormatInt lo))"
    unfolding assms(3) using dash(1) [OF assms(2)] by (simp add: IndexByte_append)
  have split: "Split CHR '','' field = [field]"
    unfolding assms(3) using dash(2) [OF assms(2)] dash(2) [of maxInt64] by (simp add: Split_none maxInt64_def)
  have "hd field \<noteq> CHR ''*''" unfolding assms(3) using dash(3,4) [OF assms(2)] by (metis hd_append2 hd_in_set)
  then have "\<not> HasPrefix field ''*/'' \<and> field \<noteq> ''*''" by (cases field) (auto simp: HasPrefix_def)
  moreover have "span_loop 1 lo maxInt64 [] = None"
    using span_loop_no_end [of 1 lo maxInt64 "[]"] assms(1) by (cases "span_loop 1 lo maxInt64 []") auto
  moreover have "int64 maxInt64" by (simp add: int64_def maxInt64_def)
  ultimately show ?thesis
    using assms(1) by (simp add: parseCronField_def split idx parse_range_def) (simp add: assms(3) ParseInt_FormatInt)
qed

theorem cron_range_never_ends_witness: "parseCronField id (FormatInt 0 @ ''-'' @ FormatInt maxInt64) 0 59 = None"
  by (rule cron_range_never_ends) (simp_all add: int64_def)

end
