(* ===== verification/Vole_Documents.thy ===== *)
theory Vole_Documents
  imports Vole_Keys
begin

text \<open>
  The store operations of \<^verbatim>\<open>internal/store/store.go\<close> on delayed keys, HyperLogLog sketches, JSON documents, tags and time
  series.  The documents, sketches and series themselves are in the theories of their types.  The JSON operations take
  the parser and the printer of JSON text as arguments \<open>unmarshal\<close> and \<open>marshal\<close>.
\<close>

section \<open>Delayed keys\<close>

definition Store_SetDelayed :: "key \<Rightarrow> string \<Rightarrow> duration \<Rightarrow> duration \<Rightarrow> gotime \<Rightarrow> store \<Rightarrow> store" where
  "Store_SetDelayed key value delay ttl now s =
     (let s = s\<lparr>kv := fmupd key value (kv s), notBefore := fmupd key (now + delay) (notBefore s)\<rparr>;
          s = (if 0 < ttl then s\<lparr>expires := fmupd key (now + delay + ttl) (expires s)\<rparr>
               else s\<lparr>expires := fmdrop key (expires s)\<rparr>);
          s = s\<lparr>hashes := fmdrop key (hashes s), lists := fmdrop key (lists s), sets := fmdrop key (sets s),
                zsets := fmdrop key (zsets s), streams := fmdrop key (streams s), lastSeq := fmdrop key (lastSeq s),
                hlls := fmdrop key (hlls s), jsons := fmdrop key (jsons s)\<rparr>
      in touchKeyLocked [key] now s)"

section \<open>HyperLogLog\<close>

definition Store_PFAdd :: "key \<Rightarrow> string list \<Rightarrow> gotime \<Rightarrow> store \<Rightarrow> bool res \<times> store" where
  "Store_PFAdd key elements now s =
     (case expiredKeyLocked key now s of (_, s) \<Rightarrow>
      if has (kv s) key then (Inl WrongType, s)
      else if anyOf [KHash, KList, KSet, KZSet, KStream] key s then (Inl WrongType, s)
      else let hll = (case fmlookup (hlls s) key of None \<Rightarrow> NewHyperLogLog | Some h \<Rightarrow> h);
               (changed, hll) = fold (\<lambda>elem (changed, h). case HyperLogLog_Add elem h of (c, h) \<Rightarrow> (c \<or> changed, h))
                                     elements (False, hll);
               s = s\<lparr>hlls := fmupd key hll (hlls s)\<rparr>
           in (Inr changed, touchKeyLocked [key] now s))"

text \<open>The sketch whose cardinality \<open>PFCount\<close> estimates.\<close>

definition pfcount_sketch :: "key list \<Rightarrow> gotime \<Rightarrow> store \<Rightarrow> HyperLogLog option" where
  "pfcount_sketch keys now s =
     (case keys of
        [key] \<Rightarrow> if isExpiredRLocked key now s then None else fmlookup (hlls s) key
      | _ \<Rightarrow> Some (fold (\<lambda>key merged.
               if isExpiredRLocked key now s then merged
               else case fmlookup (hlls s) key of None \<Rightarrow> merged | Some h \<Rightarrow> snd (HyperLogLog_Merge h merged))
             keys NewHyperLogLog))"

text \<open>\<open>dest\<close> points into the map: the destination was tested for expiry with the same clock reading, so it stays there.\<close>

definition pfmerge1 :: "key \<Rightarrow> gotime \<Rightarrow> key \<Rightarrow> store \<Rightarrow> store" where
  "pfmerge1 destKey now key s =
     (case expiredKeyLocked key now s of (_, s) \<Rightarrow>
      case fmlookup (hlls s) key of
        None \<Rightarrow> s
      | Some h \<Rightarrow> s\<lparr>hlls := fmupd destKey (snd (HyperLogLog_Merge h (the (fmlookup (hlls s) destKey)))) (hlls s)\<rparr>)"

definition Store_PFMerge :: "key \<Rightarrow> key list \<Rightarrow> gotime \<Rightarrow> store \<Rightarrow> unit res \<times> store" where
  "Store_PFMerge destKey srcKeys now s =
     (case expiredKeyLocked destKey now s of (_, s) \<Rightarrow>
      let dest = (case fmlookup (hlls s) destKey of None \<Rightarrow> NewHyperLogLog | Some h \<Rightarrow> h);
          s = s\<lparr>hlls := fmupd destKey dest (hlls s)\<rparr>;
          s = fold (pfmerge1 destKey now) srcKeys s
      in (Inr (), touchKeyLocked [destKey] now s))"

section \<open>JSON documents\<close>

text \<open>An error of the store or of the document.\<close>

type_synonym 'a doc_res = "(go_error + json_error) + 'a"

definition Store_JSONSet ::
  "(string \<Rightarrow> go_error + json) \<Rightarrow> key \<Rightarrow> string \<Rightarrow> string \<Rightarrow> gotime \<Rightarrow> store \<Rightarrow> unit doc_res \<times> store" where
  "Store_JSONSet unmarshal key path raw now s =
     (case expiredKeyLocked key now s of (_, s) \<Rightarrow>
      if has (kv s) key then (Inl (Inl WrongType), s)
      else if anyOf [KHash, KList, KSet, KZSet, KStream, KHll] key s then (Inl (Inl WrongType), s)
      else case unmarshal raw of
        Inl err \<Rightarrow> (Inl (Inl err), s)
      | Inr value \<Rightarrow>
          (case fmlookup (jsons s) key of
             None \<Rightarrow>
               if path \<noteq> ''$'' \<and> path \<noteq> ''.'' \<and> path \<noteq> ''''
               then (Inl (Inl (Err ''new doc must use root path $'')), s)
               else (Inr (), touchKeyLocked [key] now (s\<lparr>jsons := fmupd key value (jsons s)\<rparr>))
           | Some doc \<Rightarrow>
               (case JSONDoc_Set path value doc of
                  Inl err \<Rightarrow> (Inl (Inr err), s)
                | Inr doc \<Rightarrow> (Inr (), touchKeyLocked [key] now (s\<lparr>jsons := fmupd key doc (jsons s)\<rparr>)))))"

definition Store_JSONGet ::
  "(json \<Rightarrow> go_error + string) \<Rightarrow> key \<Rightarrow> string \<Rightarrow> gotime \<Rightarrow> store \<Rightarrow> string option doc_res" where
  "Store_JSONGet marshal key path now s =
     (if isExpiredRLocked key now s then Inr None
      else case fmlookup (jsons s) key of
        None \<Rightarrow> Inr None
      | Some doc \<Rightarrow>
          (case JSONDoc_Get path doc of
             Inl err \<Rightarrow> Inl (Inr err)
           | Inr val \<Rightarrow> (case marshal val of Inl err \<Rightarrow> Inl (Inl err) | Inr b \<Rightarrow> Inr (Some b))))"

definition Store_JSONDel :: "key \<Rightarrow> string \<Rightarrow> gotime \<Rightarrow> store \<Rightarrow> bool doc_res \<times> store" where
  "Store_JSONDel key path now s =
     (case expiredKeyLocked key now s of (e, s) \<Rightarrow>
      if e then (Inr False, s)
      else case fmlookup (jsons s) key of
        None \<Rightarrow> (Inr False, s)
      | Some doc \<Rightarrow>
          if path = ''$'' \<or> path = ''''
          then (Inr True, touchKeyLocked [key] now (s\<lparr>jsons := fmdrop key (jsons s)\<rparr>))
          else (case JSONDoc_Del path doc of
                  Inl err \<Rightarrow> (Inl (Inr err), s)
                | Inr doc \<Rightarrow> (Inr True, touchKeyLocked [key] now (s\<lparr>jsons := fmupd key doc (jsons s)\<rparr>))))"

definition Store_JSONType :: "key \<Rightarrow> string \<Rightarrow> gotime \<Rightarrow> store \<Rightarrow> string" where
  "Store_JSONType key path now s =
     (if isExpiredRLocked key now s then ''null''
      else case fmlookup (jsons s) key of None \<Rightarrow> ''null'' | Some doc \<Rightarrow> JSONDoc_Type path doc)"

abbreviation no_key :: "go_error" where
  "no_key \<equiv> Err ''key not found''"

definition Store_JSONNumIncrBy :: "key \<Rightarrow> string \<Rightarrow> float64 \<Rightarrow> gotime \<Rightarrow> store \<Rightarrow> float64 doc_res \<times> store" where
  "Store_JSONNumIncrBy key path delta now s =
     (case expiredKeyLocked key now s of (e, s) \<Rightarrow>
      if e then (Inl (Inl no_key), s)
      else case fmlookup (jsons s) key of
        None \<Rightarrow> (Inl (Inl no_key), s)
      | Some doc \<Rightarrow>
          (case JSONDoc_NumIncrBy path delta doc of
             Inl err \<Rightarrow> (Inl (Inr err), s)
           | Inr (result, doc) \<Rightarrow> (Inr result, touchKeyLocked [key] now (s\<lparr>jsons := fmupd key doc (jsons s)\<rparr>))))"

text \<open>The values are parsed one after the other; the first that fails ends the command.\<close>

fun parse_values :: "(string \<Rightarrow> go_error + json) \<Rightarrow> string list \<Rightarrow> go_error + json list" where
  "parse_values unmarshal [] = Inr []"
| "parse_values unmarshal (v # vs) =
     (case unmarshal v of
        Inl err \<Rightarrow> Inl err
      | Inr val \<Rightarrow> (case parse_values unmarshal vs of Inl err \<Rightarrow> Inl err | Inr vals \<Rightarrow> Inr (val # vals)))"

definition Store_JSONArrAppend ::
  "(string \<Rightarrow> go_error + json) \<Rightarrow> key \<Rightarrow> string \<Rightarrow> string list \<Rightarrow> gotime \<Rightarrow> store \<Rightarrow> nat doc_res \<times> store" where
  "Store_JSONArrAppend unmarshal key path vals now s =
     (case expiredKeyLocked key now s of (e, s) \<Rightarrow>
      if e then (Inl (Inl no_key), s)
      else case fmlookup (jsons s) key of
        None \<Rightarrow> (Inl (Inl no_key), s)
      | Some doc \<Rightarrow>
          (case parse_values unmarshal vals of
             Inl err \<Rightarrow> (Inl (Inl err), s)
           | Inr parsed \<Rightarrow>
               (case JSONDoc_ArrAppend path parsed doc of
                  Inl err \<Rightarrow> (Inl (Inr err), s)
                | Inr (n, doc) \<Rightarrow> (Inr n, touchKeyLocked [key] now (s\<lparr>jsons := fmupd key doc (jsons s)\<rparr>)))))"

definition doc_query :: "(json \<Rightarrow> 'a jres) \<Rightarrow> key \<Rightarrow> gotime \<Rightarrow> store \<Rightarrow> 'a doc_res" where
  "doc_query f key now s =
     (if isExpiredRLocked key now s then Inl (Inl no_key)
      else case fmlookup (jsons s) key of
        None \<Rightarrow> Inl (Inl no_key)
      | Some doc \<Rightarrow> (case f doc of Inl err \<Rightarrow> Inl (Inr err) | Inr x \<Rightarrow> Inr x))"

definition Store_JSONArrLen :: "key \<Rightarrow> string \<Rightarrow> gotime \<Rightarrow> store \<Rightarrow> nat doc_res" where
  "Store_JSONArrLen key path now s = doc_query (JSONDoc_ArrLen path) key now s"

definition Store_JSONKeys :: "key \<Rightarrow> string \<Rightarrow> gotime \<Rightarrow> store \<Rightarrow> string list doc_res" where
  "Store_JSONKeys key path now s = doc_query (JSONDoc_Keys path) key now s"

section \<open>Tags\<close>

definition Store_TagSet :: "key \<Rightarrow> string gomap \<Rightarrow> gotime \<Rightarrow> store \<Rightarrow> unit res \<times> store" where
  "Store_TagSet key ts now s =
     (case expiredKeyLocked key now s of (e, s) \<Rightarrow>
      if e then (Inl no_key, s)
      else case existsLocked key now s of (ex, s) \<Rightarrow>
        if \<not> ex then (Inl no_key, s)
        else let t = (case fmlookup (tags s) key of None \<Rightarrow> fmempty | Some t \<Rightarrow> t)
             in (Inr (), s\<lparr>tags := fmupd key (t ++\<^sub>f ts) (tags s)\<rparr>))"

definition Store_TagGet :: "key \<Rightarrow> gotime \<Rightarrow> store \<Rightarrow> string gomap option" where
  "Store_TagGet key now s = (if isExpiredRLocked key now s then None else fmlookup (tags s) key)"

definition Store_TagDel :: "key \<Rightarrow> string list \<Rightarrow> store \<Rightarrow> nat \<times> store" where
  "Store_TagDel key flds s =
     (case fmlookup (tags s) key of
        None \<Rightarrow> (0, s)
      | Some t \<Rightarrow>
          let (n, t) = fold (\<lambda>f (n, t). if has t f then (n + 1, fmdrop f t) else (n, t)) flds (0, t)
          in (n, if t = fmempty then s\<lparr>tags := fmdrop key (tags s)\<rparr> else s\<lparr>tags := fmupd key t (tags s)\<rparr>))"

text \<open>\<open>tags[field] != value\<close>: an absent field reads as the empty string.\<close>

definition tag_match :: "string gomap \<Rightarrow> string gomap \<Rightarrow> bool" where
  "tag_match criteria t =
     list_all (\<lambda>f. (case fmlookup t f of None \<Rightarrow> '''' | Some v \<Rightarrow> v) = the (fmlookup criteria f)) (sorted_keys criteria)"

definition Store_TagQuery ::
  "(string list \<Rightarrow> string list) \<Rightarrow> string gomap \<Rightarrow> int \<Rightarrow> gotime \<Rightarrow> store \<Rightarrow> key list" where
  "Store_TagQuery order criteria lim now s =
     (let lim = (if lim \<le> 0 then 100 else lim);
          results = take (nat lim)
            (filter (\<lambda>key. \<not> isExpiredRLocked key now s \<and> tag_match criteria (the (fmlookup (tags s) key)))
              (order (sorted_keys (tags s))))
      in sort results)"

section \<open>Time series\<close>

definition ts_kinds :: "kind list" where
  "ts_kinds = [KHash, KList, KSet, KZSet, KStream, KHll, KJson]"

definition Store_TSAdd :: "key \<Rightarrow> int \<Rightarrow> float64 \<Rightarrow> string gomap \<Rightarrow> gotime \<Rightarrow> store \<Rightarrow> unit res \<times> store" where
  "Store_TSAdd key timestamp value labels now s =
     (case expiredKeyLocked key now s of (_, s) \<Rightarrow>
      if has (kv s) key then (Inl WrongType, s)
      else if anyOf ts_kinds key s then (Inl WrongType, s)
      else let ts = (case fmlookup (timeseries s) key of None \<Rightarrow> NewTimeSeries | Some ts \<Rightarrow> ts);
               timestamp = (if timestamp = 0 then UnixMilli now else timestamp);
               ts = TimeSeries_Add timestamp value ts;
               ts = ts\<lparr>Labels := Labels ts ++\<^sub>f labels\<rparr>
           in (Inr (), touchKeyLocked [key] now (s\<lparr>timeseries := fmupd key ts (timeseries s)\<rparr>)))"

definition Store_TSRange :: "key \<Rightarrow> int \<Rightarrow> int \<Rightarrow> int \<Rightarrow> gotime \<Rightarrow> store \<Rightarrow> TSSample list" where
  "Store_TSRange key start stop cnt now s =
     (if isExpiredRLocked key now s then []
      else case fmlookup (timeseries s) key of None \<Rightarrow> [] | Some ts \<Rightarrow> TimeSeries_Range start stop cnt ts)"

definition Store_TSGet :: "key \<Rightarrow> gotime \<Rightarrow> store \<Rightarrow> TSSample option" where
  "Store_TSGet key now s =
     (if isExpiredRLocked key now s then None
      else case fmlookup (timeseries s) key of None \<Rightarrow> None | Some ts \<Rightarrow> TimeSeries_Last ts)"

definition Store_TSInfo :: "key \<Rightarrow> gotime \<Rightarrow> store \<Rightarrow> (nat \<times> string gomap \<times> int \<times> int) res" where
  "Store_TSInfo key now s =
     (if isExpiredRLocked key now s then Inl no_key
      else case fmlookup (timeseries s) key of
        None \<Rightarrow> Inl no_key
      | Some ts \<Rightarrow>
          Inr (TimeSeries_Len ts, Labels ts,
               if Samples ts = [] then (0, 0) else (Timestamp (hd (Samples ts)), Timestamp (last (Samples ts)))))"

abbreviation no_source :: "go_error" where
  "no_source \<equiv> Err ''source key not found''"

text \<open>The value \<open>None\<close> stands for a downsampling loop that does not return.\<close>

definition Store_TSDownsample ::
  "key \<Rightarrow> key \<Rightarrow> string \<Rightarrow> int \<Rightarrow> int \<Rightarrow> int \<Rightarrow> gotime \<Rightarrow> store \<Rightarrow> (nat res \<times> store) option" where
  "Store_TSDownsample srcKey dstKey aggType start stop bucketSize now s =
     (case expiredKeyLocked srcKey now s of (e, s) \<Rightarrow>
      if e then Some (Inl no_source, s)
      else case fmlookup (timeseries s) srcKey of
        None \<Rightarrow> Some (Inl no_source, s)
      | Some src \<Rightarrow>
          (case TimeSeries_Downsample start stop bucketSize aggType src of
             None \<Rightarrow> None
           | Some results \<Rightarrow>
               let dst = fold (\<lambda>r. TimeSeries_Add (Timestamp r) (Value r)) results NewTimeSeries;
                   s = deleteKeyLocked dstKey now s;
                   s = s\<lparr>timeseries := fmupd dstKey dst (timeseries s)\<rparr>
               in Some (Inr (length results), touchKeyLocked [dstKey] now s)))"

section \<open>Delayed keys appear and expire on time\<close>

text \<open>A delayed key can be read from the end of its delay until its time to live has passed, and at no other time,
  whatever the key held before.\<close>

theorem delayed_key_life:
  assumes "now + delay + ttl \<noteq> zeroTime"
  shows "fst (Store_Get key t (Store_SetDelayed key v delay ttl now s)) =
    (if now + delay \<le> t \<and> (0 < ttl \<longrightarrow> t < now + delay + ttl) then Some v else None)"
  using assms by (auto simp: Store_Get_def Store_SetDelayed_def Let_def isExpiredRLocked_def delayed_def IsZero_def)

theorem delayed_key_life_witness:
  "fst (Store_Get ''k'' 15 (Store_SetDelayed ''k'' ''v'' 10 5 0 Store_New)) = None \<and>
   fst (Store_Get ''k'' 14 (Store_SetDelayed ''k'' ''v'' 10 5 0 Store_New)) = Some ''v''"
  using delayed_key_life [of 0 10 5 "''k''" 15 "''v''" Store_New] delayed_key_life [of 0 10 5 "''k''" 14 "''v''" Store_New]
  by (simp add: zeroTime_def)

text \<open>\<open>DEL\<close> does not see a key that is still delayed: it answers 0 and the key appears later all the same.\<close>

lemma del_ignores_delayed:
  assumes "now \<le> t" "t < now + delay" "now + delay + ttl \<noteq> zeroTime" "ttl \<le> 0"
  shows "Store_Del [key] t (Store_SetDelayed key v delay ttl now s) = (0, Store_SetDelayed key v delay ttl now s)"
  using assms by (simp add: Store_Del_def Store_SetDelayed_def Let_def del_loop.simps expiredKeyLocked_def existsLocked_def delayed_def)

text \<open>\<open>SETDELAYED\<close> on a time series does not remove the series: the key then answers to the commands of both types.\<close>

lemma setdelayed_keeps_series:
  "fmlookup (timeseries (Store_SetDelayed key v delay ttl now s)) key = fmlookup (timeseries s) key"
  by (simp add: Store_SetDelayed_def Let_def)

lemma SetDelayed_tracked: "tracked {key} s (Store_SetDelayed key v delay ttl now s)"
  unfolding Store_SetDelayed_def Let_def by (rule tracked_touch) auto

section \<open>Sketches of unions\<close>

lemma PFAdd_column:
  "Store_PFAdd key elements now s =
     (if list_ex (col_holds (live now s key)) [KString, KHash, KList, KSet, KZSet, KStream] then (Inl WrongType, purge key now s)
      else let h = fold (\<lambda>elem (changed, h). case HyperLogLog_Add elem h of (c, h) \<Rightarrow> (c \<or> changed, h)) elements
                     (False, case cHll (live now s key) of None \<Rightarrow> NewHyperLogLog | Some h \<Rightarrow> h)
           in (Inr (fst h), touchKeyLocked [key] now ((purge key now s)\<lparr>hlls := fmupd key (snd h) (hlls (purge key now s))\<rparr>)))"
  by (simp add: Store_PFAdd_def locked_eqs Let_def purge_lookup case_prod_beta)

lemma fold_add_elts:
  "snd (fold (\<lambda>elem (changed, h). case HyperLogLog_Add elem h of (c, h) \<Rightarrow> (c \<or> changed, h)) es (b, h)) = add_elts es h"
  by (induction es arbitrary: b h) (simp_all add: add_elts_def case_prod_beta)

definition sketch :: "string list \<Rightarrow> HyperLogLog" where
  "sketch es = add_elts es NewHyperLogLog"

lemma sketch_merge: "set zs = set xs \<union> set ys \<Longrightarrow> snd (HyperLogLog_Merge (sketch ys) (sketch xs)) = sketch zs"
  unfolding sketch_def by (rule hll_merge_union)

lemma sketch_cong: "set xs = set ys \<Longrightarrow> sketch xs = sketch ys"
  using sketch_merge [of xs ys xs] sketch_merge [of ys ys xs] by auto

text \<open>The store holds at \<open>key\<close> the sketch of the elements \<open>elems key\<close>.\<close>

definition sketches :: "(key \<Rightarrow> string list option) \<Rightarrow> gotime \<Rightarrow> store \<Rightarrow> key set \<Rightarrow> bool" where
  "sketches elems now s K \<longleftrightarrow> (\<forall>k \<in> K. cHll (live now s k) = map_option sketch (elems k))"

definition elems_of :: "(key \<Rightarrow> string list option) \<Rightarrow> key \<Rightarrow> string list" where
  "elems_of elems k = (case elems k of None \<Rightarrow> [] | Some es \<Rightarrow> es)"

lemma elems_of_simps [simp]: "elems k = None \<Longrightarrow> elems_of elems k = []" "elems k = Some es \<Longrightarrow> elems_of elems k = es"
  by (simp_all add: elems_of_def)

lemma sketches_lookup:
  assumes "sketches elems now s K" "k \<in> K"
  shows "\<not> isExpiredRLocked k now s \<Longrightarrow> fmlookup (hlls s) k = map_option sketch (elems k)"
    and "isExpiredRLocked k now s \<Longrightarrow> elems k = None"
  using assms by (auto simp: sketches_def live_def column_lookup)

lemma pfcount_fold:
  assumes "sketches elems now s (set ks)"
  shows "fold (\<lambda>key merged.
      if isExpiredRLocked key now s then merged
      else case fmlookup (hlls s) key of None \<Rightarrow> merged | Some h \<Rightarrow> snd (HyperLogLog_Merge h merged)) ks (sketch es) =
    sketch (es @ concat (map (elems_of elems) ks))"
  using assms
proof (induction ks arbitrary: es)
  case (Cons k ks)
  have tail: "sketches elems now s (set ks)" using Cons.prems by (simp add: sketches_def)
  note look = sketches_lookup [OF Cons.prems, of k]
  show ?case
  proof (cases "isExpiredRLocked k now s")
    case True
    then show ?thesis using Cons.IH [OF tail] look by simp
  next
    case False
    then show ?thesis using Cons.IH [OF tail] look sketch_merge [of "es @ elems_of elems k" es "elems_of elems k"]
      by (cases "elems k") simp_all
  qed
qed simp

text \<open>\<open>PFCOUNT\<close> of several keys estimates the sketch of all their elements together, as if these had been added to one
  key; keys without a sketch and expired keys count as empty.\<close>

theorem pfcount_union:
  assumes "sketches elems now s (set ks)" "length ks \<noteq> 1"
  shows "pfcount_sketch ks now s = Some (sketch (concat (map (elems_of elems) ks)))"
proof -
  have "pfcount_sketch ks now s = Some (fold (\<lambda>key merged.
      if isExpiredRLocked key now s then merged
      else case fmlookup (hlls s) key of None \<Rightarrow> merged | Some h \<Rightarrow> snd (HyperLogLog_Merge h merged)) ks NewHyperLogLog)"
    using assms(2) by (auto simp: pfcount_sketch_def split: list.split)
  moreover have "NewHyperLogLog = sketch []" by (simp add: sketch_def add_elts_def)
  ultimately show ?thesis using pfcount_fold [OF assms(1), of "[]"] by simp
qed

theorem pfcount_union_witness:
  "pfcount_sketch [''a'', ''b'', ''c''] 7
     (snd (Store_PFAdd ''b'' [''y'', ''x''] 5 (snd (Store_PFAdd ''a'' [''x''] 5 Store_New)))) = Some (sketch [''x'', ''y'', ''x''])"
proof -
  let ?e = "\<lambda>k. if k = ''a'' then Some [''x''] else if k = ''b'' then Some [''y'', ''x''] else None"
  let ?s = "snd (Store_PFAdd ''b'' [''y'', ''x''] 5 (snd (Store_PFAdd ''a'' [''x''] 5 Store_New)))"
  have "sketches ?e 7 ?s (set [''a'', ''b'', ''c''])"
    by (simp add: sketches_def PFAdd_column Let_def live_def isExpired_column column_purge fold_add_elts sketch_def add_elts_def
      case_prod_beta)
  from pfcount_union [OF this] show ?thesis by simp
qed

lemma pfmerge1_eq:
  "pfmerge1 dest now k s =
     (case cHll (live now s k) of
        None \<Rightarrow> purge k now s
      | Some h \<Rightarrow> (purge k now s)\<lparr>hlls := fmupd dest (snd (HyperLogLog_Merge h (the (fmlookup (hlls (purge k now s)) dest)))) (hlls (purge k now s))\<rparr>)"
  by (simp add: pfmerge1_def locked_eqs purge_lookup split: option.split)

lemma pfmerge_step:
  assumes "\<not> isExpiredRLocked dest now s" "cHll (column s dest) = Some (sketch es)" "k \<noteq> dest \<Longrightarrow> cHll (live now s k) = map_option sketch (elems k)"
    and "set (elems_of elems dest) \<subseteq> set es"
  shows "\<not> isExpiredRLocked dest now (pfmerge1 dest now k s)"
    and "\<exists>zs. cHll (column (pfmerge1 dest now k s) dest) = Some (sketch zs) \<and> set zs = set es \<union> set (elems_of elems k)"
    and "j \<noteq> dest \<Longrightarrow> live now (pfmerge1 dest now k s) j = live now s j"
proof -
  show "\<not> isExpiredRLocked dest now (pfmerge1 dest now k s)"
    using assms(1) by (auto simp: pfmerge1_eq isExpired_column column_purge live_def split: option.split)
  show "j \<noteq> dest \<Longrightarrow> live now (pfmerge1 dest now k s) j = live now s j"
    by (auto simp: pfmerge1_eq live_def isExpired_column column_purge split: option.split)
  show "\<exists>zs. cHll (column (pfmerge1 dest now k s) dest) = Some (sketch zs) \<and> set zs = set es \<union> set (elems_of elems k)"
  proof (cases "k = dest")
    case True
    then have "cHll (column (pfmerge1 dest now k s) dest) = Some (sketch es)"
      using assms(1,2) sketch_merge [of es es es] by (simp add: pfmerge1_eq live_def purge_id column_lookup)
    then show ?thesis using assms(4) True by auto
  next
    case False
    then show ?thesis using assms(2,3) sketch_merge [of "es @ elems_of elems k" es "elems_of elems k"]
      by (cases "elems k") (auto simp: pfmerge1_eq column_purge column_lookup)
  qed
qed

lemma pfmerge_fold:
  assumes "\<not> isExpiredRLocked dest now s" "cHll (column s dest) = Some (sketch es)"
    "\<forall>k \<in> set ks - {dest}. cHll (live now s k) = map_option sketch (elems k)" "set (elems_of elems dest) \<subseteq> set es"
  shows "\<not> isExpiredRLocked dest now (fold (pfmerge1 dest now) ks s) \<and>
    (\<exists>zs. cHll (column (fold (pfmerge1 dest now) ks s) dest) = Some (sketch zs) \<and>
      set zs = set es \<union> (\<Union>k \<in> set ks. set (elems_of elems k)))"
  using assms
proof (induction ks arbitrary: s es)
  case (Cons k ks)
  note step = pfmerge_step [where k = k and elems = elems, OF Cons.prems(1,2)]
  obtain zs where zs: "cHll (column (pfmerge1 dest now k s) dest) = Some (sketch zs)" "set zs = set es \<union> set (elems_of elems k)"
    using step(2) Cons.prems(3,4) by (metis Diff_iff list.set_intros(1) singletonD)
  moreover have "\<forall>j \<in> set ks - {dest}. cHll (live now (pfmerge1 dest now k s) j) = map_option sketch (elems j)"
    using step(3) Cons.prems(3,4) by auto
  moreover have "\<not> isExpiredRLocked dest now (pfmerge1 dest now k s)" using step(1) Cons.prems(3,4) by auto
  ultimately show ?case using Cons.IH [of "pfmerge1 dest now k s" zs] Cons.prems(4) by (auto simp: Un_assoc)
qed auto

text \<open>\<open>PFMERGE\<close> leaves at the destination the sketch of the union: of what the destination and all sources held.\<close>

theorem pfmerge_union:
  assumes "sketches elems now s (insert dest (set srcs))" "set zs = (\<Union>k \<in> insert dest (set srcs). set (elems_of elems k))"
  shows "pfcount_sketch [dest] now (snd (Store_PFMerge dest srcs now s)) = Some (sketch zs)"
proof -
  define es where "es = elems_of elems dest"
  define u where "u = (purge dest now s)\<lparr>hlls := fmupd dest (sketch es) (hlls (purge dest now s))\<rparr>"
  have dest: "cHll (live now s dest) = map_option sketch (elems dest)" using assms(1) by (simp add: sketches_def)
  then have "(case cHll (live now s dest) of None \<Rightarrow> NewHyperLogLog | Some h \<Rightarrow> h) = sketch es"
    by (cases "elems dest") (simp_all add: es_def sketch_def add_elts_def)
  then have run: "snd (Store_PFMerge dest srcs now s) = touchKeyLocked [dest] now (fold (pfmerge1 dest now) srcs u)"
    by (simp add: Store_PFMerge_def locked_eqs Let_def purge_lookup u_def)
  have "\<not> isExpiredRLocked dest now u" "cHll (column u dest) = Some (sketch es)"
    by (auto simp: u_def isExpired_column column_purge live_def split: option.split)
  moreover have "\<forall>k \<in> set srcs - {dest}. cHll (live now u k) = map_option sketch (elems k)"
    using assms(1) by (auto simp: u_def sketches_def live_def isExpired_column column_purge)
  ultimately obtain ys where "\<not> isExpiredRLocked dest now (fold (pfmerge1 dest now) srcs u)"
    "cHll (column (fold (pfmerge1 dest now) srcs u) dest) = Some (sketch ys)" "set ys = set zs"
    using pfmerge_fold [of dest now u es srcs elems] assms(2) by (auto simp: es_def)
  then show ?thesis by (simp add: pfcount_sketch_def run isExpired_column column_lookup sketch_cong [of ys zs])
qed

theorem pfmerge_union_witness:
  "pfcount_sketch [''d''] 7
     (snd (Store_PFMerge ''d'' [''a''] 7 (snd (Store_PFAdd ''a'' [''x'', ''y''] 5 Store_New)))) = Some (sketch [''y'', ''x''])"
proof -
  let ?e = "\<lambda>k. if k = ''a'' then Some [''x'', ''y''] else None"
  let ?s = "snd (Store_PFAdd ''a'' [''x'', ''y''] 5 Store_New)"
  have "sketches ?e 7 ?s (insert ''d'' (set [''a'']))"
    by (simp add: sketches_def PFAdd_column Let_def live_def isExpired_column column_purge sketch_def add_elts_def case_prod_beta)
  from pfmerge_union [OF this, of "[''y'', ''x'']"] show ?thesis by (auto simp: elems_of_def)
qed

text \<open>\<open>PFMERGE\<close> has no type check: with a destination that is a string, the key holds a string and a sketch afterwards.\<close>

lemma pfmerge_two_kinds:
  assumes "fmlookup (kv s) dest = Some v" "\<not> isExpiredRLocked dest now s"
  shows "fmlookup (kv (snd (Store_PFMerge dest [] now s))) dest = Some v \<and> has (hlls (snd (Store_PFMerge dest [] now s))) dest"
  using assms by (simp add: Store_PFMerge_def Let_def expiredKeyLocked_eq purge_id)

section \<open>Tags\<close>

lemma tag_match_iff:
  "tag_match criteria t \<longleftrightarrow> (\<forall>f v. fmlookup criteria f = Some v \<longrightarrow> (case fmlookup t f of None \<Rightarrow> '''' | Some x \<Rightarrow> x) = v)"
  by (auto simp: tag_match_def list_all_iff fmlookup_dom'_iff)

text \<open>\<open>TAGQUERY\<close> answers keys in ascending order, each of them tagged as the criteria say and not expired, at most as
  many as the limit; when it answers fewer, it answers all such keys.  An absent tag counts as the empty string.\<close>

theorem tag_query_exact:
  assumes "\<And>xs. mset (order xs) = mset xs"
  shows "let ks = Store_TagQuery order criteria lim now s;
             n = nat (if lim \<le> 0 then 100 else lim);
             A = {k. \<exists>t. fmlookup (tags s) k = Some t \<and> \<not> isExpiredRLocked k now s \<and>
                (\<forall>f v. fmlookup criteria f = Some v \<longrightarrow> (case fmlookup t f of None \<Rightarrow> '''' | Some x \<Rightarrow> x) = v)}
    in sorted ks \<and> distinct ks \<and> set ks \<subseteq> A \<and> length ks = min n (card A)"
proof -
  define n where "n = nat (if lim \<le> 0 then 100 else lim)"
  define P where "P k \<longleftrightarrow> \<not> isExpiredRLocked k now s \<and> tag_match criteria (the (fmlookup (tags s) k))" for k
  define xs where "xs = filter P (order (sorted_keys (tags s)))"
  have order: "set (order (sorted_keys (tags s))) = fmdom' (tags s)" "distinct (order (sorted_keys (tags s)))"
    using assms [of "sorted_keys (tags s)"] by (metis set_mset_mset set_sorted_keys, metis distinct_sorted_keys mset_eq_imp_distinct_iff)
  have set: "set xs = {k. \<exists>t. fmlookup (tags s) k = Some t \<and> \<not> isExpiredRLocked k now s \<and>
      (\<forall>f v. fmlookup criteria f = Some v \<longrightarrow> (case fmlookup t f of None \<Rightarrow> '''' | Some x \<Rightarrow> x) = v)}"
    unfolding xs_def set_filter order(1) by (auto simp: P_def tag_match_iff fmlookup_dom'_iff)
  have distinct: "distinct xs" using order(2) by (simp add: xs_def)
  have "Store_TagQuery order criteria lim now s = sort (take n xs)"
    by (simp add: Store_TagQuery_def Let_def n_def xs_def P_def [abs_def])
  then show ?thesis
    unfolding n_def [symmetric] set [symmetric] Let_def
    using distinct by (simp add: distinct_card set_take_subset)
qed

theorem tag_query_exact_witness:
  "let s = Store_New\<lparr>tags := fmupd ''a'' (fmupd ''env'' ''prod'' fmempty) fmempty\<rparr>
   in Store_TagQuery rev (fmupd ''env'' ''prod'' fmempty) 5 7 s = [''a''] \<and> sorted (Store_TagQuery rev (fmupd ''env'' ''prod'' fmempty) 5 7 s)"
  using tag_query_exact [of rev "fmupd ''env'' ''prod'' fmempty" 5 7 "Store_New\<lparr>tags := fmupd ''a'' (fmupd ''env'' ''prod'' fmempty) fmempty\<rparr>"]
  by (simp add: Store_TagQuery_def Let_def tag_match_def isExpired_column)

section \<open>Time series\<close>

lemma sample_dom: "dom (ts_at ts) = set (map Timestamp (Samples ts))"
  by (auto simp: ts_at_def dom_map_of_conv_image_fst image_image)

text \<open>A well-formed series is the sorted list of its content.\<close>

lemma samples_content:
  assumes "ts_wf ts"
  shows "Samples ts = map (\<lambda>t. \<lparr>Timestamp = t, Value = the (ts_at ts t)\<rparr>) (sorted_list_of_set (dom (ts_at ts)))"
proof -
  let ?ts = "map Timestamp (Samples ts)"
  have sorted: "sorted_wrt (<) ?ts" using assms by (simp add: ts_wf_def)
  then have "sorted ?ts" "distinct ?ts" using strict_sorted_iff by auto
  then have times: "sorted_list_of_set (dom (ts_at ts)) = ?ts"
    unfolding sample_dom by (metis distinct_remdups_id sorted_list_of_set_sort_remdups sorted_sort_id)
  have "\<lparr>Timestamp = Timestamp x, Value = the (ts_at ts (Timestamp x))\<rparr> = x" if "x \<in> set (Samples ts)" for x
  proof -
    have "ts_at ts (Timestamp x) = Some (Value x)"
      unfolding ts_at_def using that \<open>distinct ?ts\<close> by (intro map_of_is_SomeI) (auto simp: comp_def)
    then show ?thesis by (simp add: TSSample_eta)
  qed
  then show ?thesis unfolding times by (simp add: map_idI comp_def)
qed

text \<open>The samples of a content in an interval.\<close>

definition samples_between :: "(int \<rightharpoonup> float64) \<Rightarrow> int \<Rightarrow> int \<Rightarrow> TSSample list" where
  "samples_between m start stop =
     map (\<lambda>t. \<lparr>Timestamp = t, Value = the (m t)\<rparr>) (filter (\<lambda>t. start \<le> t \<and> t \<le> stop) (sorted_list_of_set (dom m)))"

lemma range_content:
  assumes "ts_wf ts"
  shows "TimeSeries_Range start stop cnt ts = limit 0 cnt (samples_between (ts_at ts) start stop)"
proof -
  have "filter (\<lambda>x. start \<le> Timestamp x \<and> Timestamp x \<le> stop)
      (map (\<lambda>t. \<lparr>Timestamp = t, Value = the (ts_at ts t)\<rparr>) (sorted_list_of_set (dom (ts_at ts)))) =
      samples_between (ts_at ts) start stop"
    by (simp add: filter_map comp_def samples_between_def)
  then show ?thesis using samples_content [OF assms] by (simp add: TimeSeries_Range [OF assms])
qed

definition series :: "gotime \<Rightarrow> store \<Rightarrow> key \<Rightarrow> int \<rightharpoonup> float64" where
  "series now s key = (case cTS (live now s key) of None \<Rightarrow> Map.empty | Some ts \<Rightarrow> ts_at ts)"

lemma TSAdd_result:
  assumes "slot_ok (live now s key)" "\<not> list_ex (col_holds (live now s key)) (KString # ts_kinds)"
  shows "fst (Store_TSAdd key t v labels now s) = Inr ()"
    and "\<exists>ts. column (snd (Store_TSAdd key t v labels now s)) key = (live now s key)\<lparr>cTS := Some ts\<rparr> \<and> ts_wf ts \<and>
      ts_at ts = (series now s key)(if t = 0 then UnixMilli now else t \<mapsto> v)"
proof -
  define old where "old = (case cTS (live now s key) of None \<Rightarrow> NewTimeSeries | Some ts \<Rightarrow> ts)"
  define stamp where "stamp = (if t = 0 then UnixMilli now else t)"
  define ts where "ts = (TimeSeries_Add stamp v old)\<lparr>Labels := Labels (TimeSeries_Add stamp v old) ++\<^sub>f labels\<rparr>"
  have old: "ts_wf old" "ts_at old = series now s key"
    using assms(1) by (auto simp: old_def series_def slot_ok_def NewTimeSeries_def ts_wf_def ts_at_def split: option.splits)
  have ts: "ts_wf ts" "ts_at ts = (series now s key)(stamp \<mapsto> v)"
    using TimeSeries_Add [OF old(1), of stamp v] old(2) by (simp_all add: ts_def ts_wf_def ts_at_def)
  have run: "Store_TSAdd key t v labels now s =
      (Inr (), touchKeyLocked [key] now ((purge key now s)\<lparr>timeseries := fmupd key ts (timeseries (purge key now s))\<rparr>))"
    using assms(2) by (auto simp: Store_TSAdd_def locked_eqs Let_def purge_lookup ts_def stamp_def old_def split: option.split)
  then show "fst (Store_TSAdd key t v labels now s) = Inr ()" by simp
  have "column (snd (Store_TSAdd key t v labels now s)) key = (live now s key)\<lparr>cTS := Some ts\<rparr>" by (simp add: run column_purge)
  then show "\<exists>ts. column (snd (Store_TSAdd key t v labels now s)) key = (live now s key)\<lparr>cTS := Some ts\<rparr> \<and> ts_wf ts \<and>
      ts_at ts = (series now s key)(if t = 0 then UnixMilli now else t \<mapsto> v)"
    using ts by (auto simp: stamp_def)
qed

fun ts_adds :: "key \<Rightarrow> (int \<times> float64 \<times> gotime) list \<Rightarrow> store \<Rightarrow> store" where
  "ts_adds key [] s = s"
| "ts_adds key ((t, v, now) # adds) s = ts_adds key adds (snd (Store_TSAdd key t v fmempty now s))"

definition ts_ready :: "key \<Rightarrow> store \<Rightarrow> bool" where
  "ts_ready key s \<longleftrightarrow> cExp (column s key) = None \<and> slot_ok (column s key) \<and>
     \<not> list_ex (col_holds (column s key)) (KString # ts_kinds)"

lemma ts_adds_result:
  assumes "ts_ready key s" "\<forall>(t, v, now) \<in> set adds. t \<noteq> 0"
  shows "ts_ready key (ts_adds key adds s) \<and>
    series now (ts_adds key adds s) key = series now s key ++ map_of (rev (map (\<lambda>(t, v, now). (t, v)) adds))"
  using assms
proof (induction key adds s rule: ts_adds.induct)
  case (2 key t v n adds s)
  have live: "live x s key = column s key" for x using "2.prems"(1) by (simp add: live_def isExpired_column ts_ready_def)
  then obtain ts where ts: "column (snd (Store_TSAdd key t v fmempty n s)) key = (column s key)\<lparr>cTS := Some ts\<rparr>"
    "ts_wf ts" "ts_at ts = (series n s key)(t \<mapsto> v)"
    using TSAdd_result(2) [of n s key t v fmempty] "2.prems" by (auto simp: ts_ready_def)
  have ready: "ts_ready key (snd (Store_TSAdd key t v fmempty n s))"
    using "2.prems"(1) ts(1,2) by (simp add: ts_ready_def slot_ok_ts ts_kinds_def)
  have one: "series now (snd (Store_TSAdd key t v fmempty n s)) key = (series now s key)(t \<mapsto> v)"
    using ready ts(1,3) live by (simp add: series_def live_def isExpired_column ts_ready_def)
  have "ts_ready key (ts_adds key adds (snd (Store_TSAdd key t v fmempty n s)))"
    "series now (ts_adds key adds (snd (Store_TSAdd key t v fmempty n s))) key =
      series now (snd (Store_TSAdd key t v fmempty n s)) key ++ map_of (rev (map (\<lambda>(t, v, now). (t, v)) adds))"
    using "2.IH" [OF ready] "2.prems"(2) by auto
  then show ?case unfolding one ts_adds.simps by (simp add: map_add_def fun_eq_iff split: option.split)
qed simp

text \<open>A time series is a map from timestamps to values.  After any sequence of \<open>TSADD\<close>s with explicit timestamps, in any
  order and with repetitions, \<open>TSRANGE\<close> answers the samples of the interval in ascending order, one per timestamp, each
  with the value added last, and the first \<open>count\<close> of them if a count is given.\<close>

theorem ts_range_after_adds:
  assumes "ts_ready key s" "\<forall>(t, v, now) \<in> set adds. t \<noteq> 0"
  shows "Store_TSRange key start stop cnt now (ts_adds key adds s) =
    limit 0 cnt (samples_between (series now s key ++ map_of (rev (map (\<lambda>(t, v, now). (t, v)) adds))) start stop)"
proof -
  let ?u = "ts_adds key adds s"
  have u: "ts_ready key ?u" "series now ?u key = series now s key ++ map_of (rev (map (\<lambda>(t, v, now). (t, v)) adds))"
    using ts_adds_result [OF assms] by simp_all
  have "Store_TSRange key start stop cnt now ?u = limit 0 cnt (samples_between (series now ?u key) start stop)"
    using u(1) by (auto simp: Store_TSRange_def isExpired_column column_lookup series_def live_def ts_ready_def slot_ok_def
        range_content samples_between_def limit_def split: option.splits)
  then show ?thesis using u(2) by simp
qed

theorem ts_range_after_adds_witness:
  "Store_TSRange ''k'' 0 10 0 9 (ts_adds ''k'' [(7, Fin 1, 3), (5, Fin 2, 3), (7, Fin 3, 4)] Store_New) =
     [\<lparr>Timestamp = 5, Value = Fin 2\<rparr>, \<lparr>Timestamp = 7, Value = Fin 3\<rparr>]"
proof -
  have "ts_ready ''k'' Store_New" by (simp add: ts_ready_def)
  moreover have "series 9 Store_New ''k'' = Map.empty" by (simp add: series_def live_def)
  moreover have "sorted_list_of_set {7, 5::int} = [5, 7]" by simp
  ultimately show ?thesis
    using ts_range_after_adds [of "''k''" Store_New "[(7, Fin 1, 3), (5, Fin 2, 3), (7, Fin 3, 4)]" 0 10 0 9]
    by (simp add: samples_between_def insert_commute del: ts_adds.simps)
qed

section \<open>Tracking\<close>

lemma document_ops_tracked:
  "tracked {key} s (snd (Store_PFAdd key elements now s))"
  "tracked {key} s (snd (Store_JSONSet unmarshal key path raw now s))"
  "tracked {key} s (snd (Store_JSONDel key path now s))"
  "tracked {key} s (snd (Store_JSONNumIncrBy key path delta now s))"
  "tracked {key} s (snd (Store_JSONArrAppend unmarshal key path vals now s))"
  "tracked {key} s (snd (Store_TSAdd key t v labels now s))"
proof -
  show "tracked {key} s (snd (Store_PFAdd key elements now s))"
    by (auto simp: PFAdd_column Let_def intro!: tracked_edit tracked_purge)
  show "tracked {key} s (snd (Store_JSONSet unmarshal key path raw now s))"
    by (auto simp: Store_JSONSet_def locked_eqs Let_def intro!: tracked_edit tracked_purge split: sum.split option.split)
  show "tracked {key} s (snd (Store_JSONDel key path now s))"
    by (auto simp: Store_JSONDel_def locked_eqs Let_def intro!: tracked_edit tracked_purge split: sum.split option.split)
  show "tracked {key} s (snd (Store_JSONNumIncrBy key path delta now s))"
    by (auto simp: Store_JSONNumIncrBy_def locked_eqs Let_def intro!: tracked_edit tracked_purge split: sum.split option.split)
  show "tracked {key} s (snd (Store_JSONArrAppend unmarshal key path vals now s))"
    by (auto simp: Store_JSONArrAppend_def locked_eqs Let_def intro!: tracked_edit tracked_purge split: sum.split option.split)
  show "tracked {key} s (snd (Store_TSAdd key t v labels now s))"
    by (auto simp: Store_TSAdd_def locked_eqs Let_def intro!: tracked_edit tracked_purge split: option.split)
qed

text \<open>A JSON document written at the root is what every later read of the root prints, until the key's deadline.\<close>

theorem json_store_roundtrip:
  assumes "Store_JSONSet unmarshal key ''$'' raw now s = (Inr (), t)" "unmarshal raw = Inr v" "marshal v = Inr text"
    and "\<not> isExpiredRLocked key later t"
  shows "Store_JSONGet marshal key ''$'' later t = Inr (Some text)"
proof -
  have "fmlookup (jsons t) key = Some v"
    using assms(1,2) by (auto simp: Store_JSONSet_def Let_def JSONDoc_Set_def is_root_def split: if_splits option.splits prod.splits)
  then show ?thesis using assms(3,4) by (simp add: Store_JSONGet_def JSONDoc_Get_def is_root_def)
qed

end
