(* ===== verification/Vole_Queue.thy ===== *)
theory Vole_Queue
  imports Vole_Keys
begin

text \<open>
  The message queues of \<^verbatim>\<open>internal/store/queue.go\<close>: a message waits in \<open>Pending\<close>, is handed out and kept in
  \<open>Processing\<close> until it is acknowledged, goes back when it is refused or its deadline passes, and ends in
  \<open>DeadLetter\<close> after too many attempts.  \<open>Dequeue\<close> is split where it gives up the lock to wait.
\<close>

section \<open>Operations\<close>

definition Minute :: duration where
  "Minute = 60 * Second"

definition NewQueue :: Queue where
  "NewQueue = \<lparr>QPending = [], Processing = fmempty, DeadLetter = [], AckTimeout = 5 * Minute, MaxRetries = 3\<rparr>"

text \<open>The counter of Go is one \<open>uint64\<close> for the process; here it is an unbounded number of the store.\<close>

definition nextQueueID :: "gotime \<Rightarrow> store \<Rightarrow> string \<times> store" where
  "nextQueueID now s =
     (let s = s\<lparr>queueSeq := queueSeq s + 1\<rparr>
      in (FormatInt (UnixMilli now) @ ''-'' @ FormatInt (int (queueSeq s)), s))"

text \<open>\<open>q := s.queues[queueName]; if q == nil { q = NewQueue() }\<close>\<close>

definition queue_of :: "key \<Rightarrow> store \<Rightarrow> Queue" where
  "queue_of queueName s = (case fmlookup (queues s) queueName of None \<Rightarrow> NewQueue | Some q \<Rightarrow> q)"

definition queue_waiters :: "key \<Rightarrow> store \<Rightarrow> nat list" where
  "queue_waiters queueName s = (case fmlookup (queueWaits s) queueName of None \<Rightarrow> [] | Some ws \<Rightarrow> ws)"

text \<open>The first waiter of the queue is taken out and its channel closed.\<close>

definition wake_queue_waiter :: "key \<Rightarrow> store \<Rightarrow> store" where
  "wake_queue_waiter queueName s =
     (case queue_waiters queueName s of
        [] \<Rightarrow> s
      | w # ws \<Rightarrow>
          let s = (if ws = [] then s\<lparr>queueWaits := fmdrop queueName (queueWaits s)\<rparr>
                   else s\<lparr>queueWaits := fmupd queueName ws (queueWaits s)\<rparr>)
          in s\<lparr>closed := finsert w (closed s)\<rparr>)"

definition Store_Enqueue :: "key \<Rightarrow> string \<Rightarrow> duration \<Rightarrow> gotime \<Rightarrow> store \<Rightarrow> string \<times> store" where
  "Store_Enqueue queueName body delay now s =
     (let q = queue_of queueName s in
      case nextQueueID now s of (i, s) \<Rightarrow>
        let msg = \<lparr>MsgID = i, Body = body, CreatedAt = (if 0 < delay then now + delay else now),
                   Retries = 0, MaxRetry = MaxRetries q, AckDeadline = zeroTime\<rparr>;
            q = q\<lparr>QPending := QPending q @ [msg]\<rparr>;
            s = touchKeyLocked [queueName] now (s\<lparr>queues := fmupd queueName q (queues s)\<rparr>)
        in (i, wake_queue_waiter queueName s))"

text \<open>A message whose attempt failed: back to the pending messages, or to the dead letters.\<close>

definition retry_message :: "gotime \<Rightarrow> QueueMessage \<Rightarrow> Queue \<Rightarrow> Queue" where
  "retry_message now msg q =
     (let msg = msg\<lparr>Retries := Retries msg + 1\<rparr>
      in if MaxRetry msg \<le> Retries msg then q\<lparr>DeadLetter := DeadLetter q @ [msg]\<rparr>
         else q\<lparr>QPending := QPending q @ [msg\<lparr>CreatedAt := now\<rparr>]\<rparr>)"

definition requeue1 :: "gotime \<Rightarrow> string \<Rightarrow> Queue \<Rightarrow> Queue" where
  "requeue1 now i q =
     (case fmlookup (Processing q) i of
        None \<Rightarrow> q
      | Some msg \<Rightarrow>
          if AckDeadline msg < now then retry_message now msg (q\<lparr>Processing := fmdrop i (Processing q)\<rparr>) else q)"

text \<open>\<open>order\<close> is the order in which Go enumerates the map \<open>Processing\<close>.\<close>

definition requeueExpiredLocked :: "(string list \<Rightarrow> string list) \<Rightarrow> key \<Rightarrow> gotime \<Rightarrow> store \<Rightarrow> store" where
  "requeueExpiredLocked order queueName now s =
     (case fmlookup (queues s) queueName of
        None \<Rightarrow> s
      | Some q \<Rightarrow>
          let q = fold (requeue1 now) (order (sorted_keys (Processing q))) q
          in s\<lparr>queues := fmupd queueName q (queues s)\<rparr>)"

text \<open>The first message that is not delayed, and the others in their order.\<close>

fun take_ready :: "gotime \<Rightarrow> QueueMessage list \<Rightarrow> (QueueMessage \<times> QueueMessage list) option" where
  "take_ready now [] = None"
| "take_ready now (msg # msgs) =
     (if now < CreatedAt msg then map_option (\<lambda>(m, ms). (m, msg # ms)) (take_ready now msgs) else Some (msg, msgs))"

definition dequeue_try :: "(string list \<Rightarrow> string list) \<Rightarrow> key \<Rightarrow> gotime \<Rightarrow> store \<Rightarrow> QueueMessage option \<times> store" where
  "dequeue_try order queueName now s =
     (let s = requeueExpiredLocked order queueName now s in
      case fmlookup (queues s) queueName of
        None \<Rightarrow> (None, s)
      | Some q \<Rightarrow>
          (case take_ready now (QPending q) of
             None \<Rightarrow> (None, s)
           | Some (msg, msgs) \<Rightarrow>
               let msg = msg\<lparr>AckDeadline := now + AckTimeout q\<rparr>;
                   q = q\<lparr>QPending := msgs, Processing := fmupd (MsgID msg) msg (Processing q)\<rparr>
               in (Some msg, touchKeyLocked [queueName] now (s\<lparr>queues := fmupd queueName q (queues s)\<rparr>))))"

text \<open>Until the answer, or until the client blocks on a new waiter.\<close>

definition Dequeue_start ::
  "(string list \<Rightarrow> string list) \<Rightarrow> key \<Rightarrow> duration \<Rightarrow> gotime \<Rightarrow> store \<Rightarrow> (nat + QueueMessage option) \<times> store" where
  "Dequeue_start order queueName timeout now s =
     (case dequeue_try order queueName now s of
        (Some msg, s) \<Rightarrow> (Inr (Some msg), s)
      | (None, s) \<Rightarrow>
          if timeout \<le> 0 then (Inr None, s)
          else let w = nextWaiter s;
                   s = s\<lparr>nextWaiter := nextWaiter s + 1\<rparr>
               in (Inl w, s\<lparr>queueWaits := fmupd queueName (queue_waiters queueName s @ [w]) (queueWaits s)\<rparr>))"

text \<open>After the channel is closed or the time is up, the second attempt; the waiter is not taken out.\<close>

definition Dequeue_finish :: "(string list \<Rightarrow> string list) \<Rightarrow> key \<Rightarrow> gotime \<Rightarrow> store \<Rightarrow> QueueMessage option \<times> store" where
  "Dequeue_finish order queueName now s = dequeue_try order queueName now s"

definition Store_QAck :: "key \<Rightarrow> string \<Rightarrow> gotime \<Rightarrow> store \<Rightarrow> bool \<times> store" where
  "Store_QAck queueName messageID now s =
     (case fmlookup (queues s) queueName of
        None \<Rightarrow> (False, s)
      | Some q \<Rightarrow>
          if \<not> has (Processing q) messageID then (False, s)
          else let q = q\<lparr>Processing := fmdrop messageID (Processing q)\<rparr>
               in (True, touchKeyLocked [queueName] now (s\<lparr>queues := fmupd queueName q (queues s)\<rparr>)))"

definition Store_QNack :: "key \<Rightarrow> string \<Rightarrow> gotime \<Rightarrow> store \<Rightarrow> bool \<times> store" where
  "Store_QNack queueName messageID now s =
     (case fmlookup (queues s) queueName of
        None \<Rightarrow> (False, s)
      | Some q \<Rightarrow>
          (case fmlookup (Processing q) messageID of
             None \<Rightarrow> (False, s)
           | Some msg \<Rightarrow>
               let q = retry_message now msg (q\<lparr>Processing := fmdrop messageID (Processing q)\<rparr>)
               in (True, touchKeyLocked [queueName] now (s\<lparr>queues := fmupd queueName q (queues s)\<rparr>))))"

definition Store_QPeek :: "key \<Rightarrow> int \<Rightarrow> store \<Rightarrow> QueueMessage list" where
  "Store_QPeek queueName cnt s =
     (case fmlookup (queues s) queueName of
        None \<Rightarrow> []
      | Some q \<Rightarrow> let cnt = (if cnt \<le> 0 then 1 else cnt) in take (nat (min cnt (int (length (QPending q))))) (QPending q))"

definition Store_QLen :: "key \<Rightarrow> store \<Rightarrow> nat" where
  "Store_QLen queueName s = (case fmlookup (queues s) queueName of None \<Rightarrow> 0 | Some q \<Rightarrow> length (QPending q))"

definition Store_QInfo :: "key \<Rightarrow> store \<Rightarrow> nat \<times> nat \<times> nat" where
  "Store_QInfo queueName s =
     (case fmlookup (queues s) queueName of
        None \<Rightarrow> (0, 0, 0)
      | Some q \<Rightarrow> (length (QPending q), map_len (Processing q), length (DeadLetter q)))"

definition Store_QDead :: "key \<Rightarrow> int \<Rightarrow> store \<Rightarrow> QueueMessage list" where
  "Store_QDead queueName cnt s =
     (case fmlookup (queues s) queueName of
        None \<Rightarrow> []
      | Some q \<Rightarrow> let cnt = (if cnt \<le> 0 then 10 else cnt) in take (nat (min cnt (int (length (DeadLetter q))))) (DeadLetter q))"

section \<open>The ledger of a queue\<close>

text \<open>
  The specification: every message ever enqueued has an entry with its body, the number of failed attempts and
  where it stands.  The steps are the only ways an entry can change.
\<close>

datatype place = Waiting | Working | Dead | Done

datatype qevent = Enqueued string string | Delivered string string | Failed string | Acked string

type_synonym ledger = "string \<rightharpoonup> string \<times> int \<times> place"

inductive ledger_step :: "ledger \<Rightarrow> qevent \<Rightarrow> ledger \<Rightarrow> bool" where
  enqueue: "L i = None \<Longrightarrow> ledger_step L (Enqueued i b) (L(i \<mapsto> (b, 0, Waiting)))"
| deliver: "L i = Some (b, r, Waiting) \<Longrightarrow> ledger_step L (Delivered i b) (L(i \<mapsto> (b, r, Working)))"
| fail: "L i = Some (b, r, Working) \<Longrightarrow> ledger_step L (Failed i) (L(i \<mapsto> (b, r + 1, if r + 1 < 3 then Waiting else Dead)))"
| ack: "L i = Some (b, r, Working) \<Longrightarrow> ledger_step L (Acked i) (L(i \<mapsto> (b, r, Done)))"

inductive ledger_run :: "ledger \<Rightarrow> qevent list \<Rightarrow> ledger \<Rightarrow> bool" where
  start: "ledger_run L [] L"
| more: "ledger_run L tr M \<Longrightarrow> ledger_step M e N \<Longrightarrow> ledger_run L (tr @ [e]) N"

lemma ledger_run_one: "ledger_step L e M \<Longrightarrow> ledger_run L [e] M"
  using ledger_run.more [OF ledger_run.start] by fastforce

lemma ledger_run_append: "ledger_run M ts N \<Longrightarrow> ledger_run L tr M \<Longrightarrow> ledger_run L (tr @ ts) N"
proof (induction rule: ledger_run.induct)
  case (more M ts P e N)
  then have "ledger_run L ((tr @ ts) @ [e]) N" by (intro ledger_run.more) auto
  then show ?case by simp
qed simp

definition deliveries :: "string \<Rightarrow> qevent list \<Rightarrow> nat" where
  "deliveries i tr = length (filter (\<lambda>e. \<exists>b. e = Delivered i b) tr)"

text \<open>What an entry says about the history.\<close>

fun entry_history :: "qevent list \<Rightarrow> string \<Rightarrow> (string \<times> int \<times> place) option \<Rightarrow> bool" where
  "entry_history tr i None \<longleftrightarrow> (\<forall>b. Enqueued i b \<notin> set tr) \<and> Acked i \<notin> set tr \<and> deliveries i tr = 0"
| "entry_history tr i (Some (b, r, p)) \<longleftrightarrow>
     (\<forall>b'. Enqueued i b' \<in> set tr \<longleftrightarrow> b' = b) \<and> (Acked i \<in> set tr \<longleftrightarrow> p = Done) \<and>
     int (deliveries i tr) = r + (if p = Working \<or> p = Done then 1 else 0) \<and> 0 \<le> r \<and>
     (if p = Dead then r = 3 else r < 3)"

lemma ledger_history:
  assumes "ledger_run (\<lambda>_. None) tr L"
  shows "entry_history tr i (L i)"
  using assms
proof (induction "\<lambda>_::string. None :: (string \<times> int \<times> place) option" tr L rule: ledger_run.induct)
  case start
  show ?case by (simp add: deliveries_def)
next
  case (more tr M e N)
  from more(3,2) show ?case
  proof cases
    case (enqueue j b)
    with more(2) show ?thesis by (cases "M i") (auto simp: deliveries_def)
  next
    case (deliver j b r)
    with more(2) show ?thesis by (cases "M i") (auto simp: deliveries_def)
  next
    case (fail j b r)
    with more(2) show ?thesis by (cases "M i") (auto simp: deliveries_def)
  next
    case (ack j b r)
    with more(2) show ?thesis by (cases "M i") (auto simp: deliveries_def)
  qed
qed

section \<open>The queue keeps the ledger\<close>

definition holds_at :: "ledger \<Rightarrow> place \<Rightarrow> QueueMessage set \<Rightarrow> bool" where
  "holds_at L p ms \<longleftrightarrow> (\<forall>i b r. L i = Some (b, r, p) \<longleftrightarrow> (\<exists>m \<in> ms. MsgID m = i \<and> Body m = b \<and> Retries m = r))"

definition issued :: "nat \<Rightarrow> string set" where
  "issued n = {FormatInt ms @ ''-'' @ FormatInt (int k) | ms k. k \<le> n}"

definition represents :: "nat \<Rightarrow> Queue \<Rightarrow> ledger \<Rightarrow> bool" where
  "represents n q L \<longleftrightarrow> MaxRetries q = 3 \<and>
     (\<forall>i m. fmlookup (Processing q) i = Some m \<longrightarrow> MsgID m = i) \<and>
     (\<forall>m \<in> set (QPending q) \<union> fmran' (Processing q). MaxRetry m = 3) \<and>
     distinct (map MsgID (QPending q)) \<and> distinct (map MsgID (DeadLetter q)) \<and>
     holds_at L Waiting (set (QPending q)) \<and> holds_at L Working (fmran' (Processing q)) \<and>
     holds_at L Dead (set (DeadLetter q)) \<and> dom L \<subseteq> issued n"

lemma holds_at_iff: "holds_at L p ms \<Longrightarrow> m \<in> ms \<Longrightarrow> L (MsgID m) = Some (Body m, Retries m, p)"
  by (auto simp: holds_at_def)

lemma holds_at_drop: "holds_at L p ms \<Longrightarrow> p' \<noteq> p \<Longrightarrow> holds_at (L(i \<mapsto> (b, r, p'))) p {m \<in> ms. MsgID m \<noteq> i}"
  by (auto simp: holds_at_def)

lemma holds_at_keep: "holds_at L p ms \<Longrightarrow> i \<notin> MsgID ` ms \<Longrightarrow> p' \<noteq> p \<Longrightarrow> holds_at (L(i \<mapsto> (b, r, p'))) p ms"
  by (auto simp: holds_at_def image_iff)

lemma holds_at_add:
  "holds_at L p ms \<Longrightarrow> i \<notin> MsgID ` ms \<Longrightarrow> MsgID m = i \<Longrightarrow> Body m = b \<Longrightarrow> Retries m = r \<Longrightarrow>
   holds_at (L(i \<mapsto> (b, r, p))) p (insert m ms)"
  by (auto simp: holds_at_def image_iff)

lemma holds_at_none: "holds_at L p ms \<Longrightarrow> (\<And>b r. L i \<noteq> Some (b, r, p)) \<Longrightarrow> i \<notin> MsgID ` ms"
  by (auto dest!: holds_at_iff)

lemma represents_pending:
  "represents n q L \<Longrightarrow> (\<And>b r. L i \<noteq> Some (b, r, Waiting)) \<Longrightarrow> i \<notin> MsgID ` set (QPending q)"
  and represents_dead:
  "represents n q L \<Longrightarrow> (\<And>b r. L i \<noteq> Some (b, r, Dead)) \<Longrightarrow> i \<notin> MsgID ` set (DeadLetter q)"
  unfolding represents_def
  using holds_at_none [of L Waiting "set (QPending q)" i] holds_at_none [of L Dead "set (DeadLetter q)" i] by auto

lemma image_avoids: "i \<notin> f ` A \<Longrightarrow> {x \<in> A. f x \<noteq> i} = A"
  by auto

lemma fmran'_drop:
  assumes "\<And>i m. fmlookup P i = Some m \<Longrightarrow> MsgID m = i"
  shows "fmran' (fmdrop i P) = {m \<in> fmran' P. MsgID m \<noteq> i}"
  using assms by (fastforce simp: fmran'_def fmlookup_ran'_iff split: if_splits)

lemma fmran'_upd:
  assumes "\<And>i m. fmlookup P i = Some m \<Longrightarrow> MsgID m = i"
  shows "fmran' (fmupd i m P) = insert m {m \<in> fmran' P. MsgID m \<noteq> i}"
  using assms by (fastforce simp: fmlookup_ran'_iff split: if_splits)

text \<open>Identifiers with different sequence numbers are different.\<close>

lemma append_dash:
  "xs @ CHR ''-'' # ys = us @ CHR ''-'' # vs \<Longrightarrow> CHR ''-'' \<notin> set ys \<Longrightarrow> CHR ''-'' \<notin> set vs \<Longrightarrow> ys = vs"
  by (induction xs arbitrary: us) (auto simp: Cons_eq_append_conv append_eq_Cons_conv)

lemma fresh_id: "FormatInt ms @ ''-'' @ FormatInt (int (Suc n)) \<notin> issued n"
proof -
  have "FormatInt (int k) = format_nat k" for k by (simp add: FormatInt_def)
  then show ?thesis by (auto simp: issued_def simp del: of_nat_Suc dest!: append_dash)
qed

lemma represents_new:
  "represents n NewQueue (\<lambda>_. None)"
  by (auto simp: represents_def NewQueue_def holds_at_def fmlookup_ran'_iff)

lemma represents_working:
  assumes "represents n q L" "fmlookup (Processing q) i = Some m"
  shows "MsgID m = i" "MaxRetry m = 3" "L i = Some (Body m, Retries m, Working)"
proof -
  have "m \<in> fmran' (Processing q)" using assms(2) by (rule fmran'I)
  then show "MsgID m = i" "MaxRetry m = 3" "L i = Some (Body m, Retries m, Working)"
    using assms holds_at_iff [of L Working "fmran' (Processing q)" m] by (auto simp: represents_def)
qed

text \<open>A failed attempt.\<close>

lemma retry_represents:
  assumes rep: "represents n q L" and m: "fmlookup (Processing q) i = Some m"
  shows "\<exists>M. ledger_step L (Failed i) M \<and> represents n (retry_message now m (q\<lparr>Processing := fmdrop i (Processing q)\<rparr>)) M"
proof -
  have key: "\<And>i m. fmlookup (Processing q) i = Some m \<Longrightarrow> MsgID m = i" using rep by (auto simp: represents_def)
  note id = represents_working(1) [OF rep m] and max = represents_working(2) [OF rep m]
    and L = represents_working(3) [OF rep m]
  let ?p = "if Retries m + 1 < 3 then Waiting else Dead"
  let ?M = "L(i \<mapsto> (Body m, Retries m + 1, ?p))"
  have step: "ledger_step L (Failed i) ?M" using L by (rule ledger_step.fail)
  have fresh: "i \<notin> MsgID ` set (QPending q)" "i \<notin> MsgID ` set (DeadLetter q)"
    using represents_pending [OF rep, of i] represents_dead [OF rep, of i] L by auto
  define m' where "m' = m\<lparr>Retries := Retries m + 1\<rparr>"
  have m': "MsgID m' = i" "Body m' = Body m" "Retries m' = Retries m + 1" "MaxRetry m' = 3"
    using id max by (simp_all add: m'_def)
  have held: "holds_at L Waiting (set (QPending q))" "holds_at L Dead (set (DeadLetter q))" "holds_at L Working (fmran' (Processing q))"
    using rep by (simp_all add: represents_def)
  have w: "holds_at ?M Waiting (if ?p = Waiting then insert (m'\<lparr>CreatedAt := now\<rparr>) (set (QPending q)) else set (QPending q))"
    using held(1) fresh m' by (auto intro: holds_at_add holds_at_keep)
  have d: "holds_at ?M Dead (if ?p = Dead then insert m' (set (DeadLetter q)) else set (DeadLetter q))"
    using held(2) fresh m' by (auto intro: holds_at_add holds_at_keep)
  have k: "holds_at ?M Working (fmran' (fmdrop i (Processing q)))"
    using holds_at_drop [OF held(3), of ?p i] by (simp add: fmran'_drop [OF key])
  have dm: "dom ?M \<subseteq> issued n" using rep L by (auto simp: represents_def)
  have "represents n (retry_message now m (q\<lparr>Processing := fmdrop i (Processing q)\<rparr>)) ?M"
    using rep w d k dm m' fresh key
    by (auto simp: represents_def retry_message_def Let_def m'_def [symmetric] fmran'_drop)
  with step show ?thesis by blast
qed

lemma requeue_represents:
  assumes "represents n q L"
  shows "\<exists>tr M. ledger_run L tr M \<and> represents n (fold (requeue1 now) is q) M \<and> (\<forall>e \<in> set tr. \<exists>i. e = Failed i)"
  using assms
proof (induction "is" arbitrary: q L)
  case Nil
  then show ?case by (intro exI [of _ "[]"] exI [of _ L]) (simp add: ledger_run.start)
next
  case (Cons i "is")
  show ?case
  proof (cases "\<exists>m. fmlookup (Processing q) i = Some m \<and> AckDeadline m < now")
    case True
    then obtain m where m: "fmlookup (Processing q) i = Some m" "AckDeadline m < now" by blast
    from retry_represents [OF Cons.prems m(1)] obtain M where
      M: "ledger_step L (Failed i) M" "represents n (requeue1 now i q) M"
      using m by (auto simp: requeue1_def)
    from Cons.IH [OF M(2)] obtain tr N where
      N: "ledger_run M tr N" "represents n (fold (requeue1 now) is (requeue1 now i q)) N" "\<forall>e \<in> set tr. \<exists>i. e = Failed i"
      by blast
    have "ledger_run L ([Failed i] @ tr) N" by (rule ledger_run_append [OF N(1) ledger_run_one [OF M(1)]])
    with N show ?thesis by (intro exI [of _ "[Failed i] @ tr"] exI [of _ N]) auto
  next
    case False
    then have "requeue1 now i q = q" by (auto simp: requeue1_def split: option.split)
    with Cons show ?thesis by simp
  qed
qed

lemma enqueue_represents:
  assumes "represents n q L" and i_def: "i = FormatInt ms @ ''-'' @ FormatInt (int (Suc n))"
  shows "ledger_step L (Enqueued i b) (L(i \<mapsto> (b, 0, Waiting))) \<and>
    represents (Suc n) (q\<lparr>QPending := QPending q @
      [\<lparr>MsgID = i, Body = b, CreatedAt = c, Retries = 0, MaxRetry = MaxRetries q, AckDeadline = d\<rparr>]\<rparr>) (L(i \<mapsto> (b, 0, Waiting)))"
proof -
  have none: "L i = None" using assms(1) fresh_id [of ms n] unfolding represents_def i_def by blast
  have fresh: "i \<notin> MsgID ` set (QPending q)" using represents_pending [OF assms(1), of i] none by auto
  let ?m = "\<lparr>MsgID = i, Body = b, CreatedAt = c, Retries = 0, MaxRetry = MaxRetries q, AckDeadline = d\<rparr>"
  let ?M = "L(i \<mapsto> (b, 0, Waiting))"
  have "holds_at ?M Waiting (insert ?m (set (QPending q)))"
    by (rule holds_at_add) (use assms(1) fresh in \<open>auto simp: represents_def\<close>)
  moreover have "holds_at ?M p ms" if "holds_at L p ms" "p \<noteq> Waiting" for p ms
    using holds_at_keep [OF that(1), of i Waiting] holds_at_none [OF that(1), of i] that(2) none by auto
  moreover have "dom ?M \<subseteq> issued (Suc n)"
  proof -
    have "issued n \<subseteq> issued (Suc n)" by (auto simp: issued_def) (metis le_Suc_eq)
    moreover have "i \<in> issued (Suc n)" unfolding i_def issued_def by blast
    ultimately show ?thesis using assms(1) by (auto simp: represents_def)
  qed
  ultimately have "represents (Suc n) (q\<lparr>QPending := QPending q @ [?m]\<rparr>) ?M"
    using assms(1) fresh by (auto simp: represents_def)
  with none show ?thesis by (auto intro: ledger_step.enqueue)
qed

lemma take_ready_split:
  "take_ready now ms = Some (m, rest) \<Longrightarrow>
   \<exists>xs ys. ms = xs @ m # ys \<and> rest = xs @ ys \<and> (\<forall>x \<in> set xs. now < CreatedAt x) \<and> \<not> now < CreatedAt m"
proof (induction ms arbitrary: rest)
  case (Cons x ms)
  show ?case
  proof (cases "now < CreatedAt x")
    case True
    with Cons.prems obtain r where r: "take_ready now ms = Some (m, r)" "rest = x # r" by auto
    from Cons.IH [OF r(1)] obtain xs ys where "ms = xs @ m # ys" "r = xs @ ys" "\<forall>x \<in> set xs. now < CreatedAt x" "\<not> now < CreatedAt m"
      by blast
    with r True show ?thesis by (intro exI [of _ "x # xs"] exI [of _ ys]) auto
  next
    case False
    with Cons.prems show ?thesis by (intro exI [of _ "[]"] exI [of _ ms]) auto
  qed
qed simp

lemma take_ready_None: "take_ready now ms = None \<longleftrightarrow> (\<forall>m \<in> set ms. now < CreatedAt m)"
  by (induction ms) auto

lemma deliver_represents:
  assumes "represents n q L" "take_ready now (QPending q) = Some (m, rest)"
  shows "\<exists>M. ledger_step L (Delivered (MsgID m) (Body m)) M \<and>
    represents n (q\<lparr>QPending := rest, Processing := fmupd (MsgID m) (m\<lparr>AckDeadline := d\<rparr>) (Processing q)\<rparr>) M"
proof -
  from take_ready_split [OF assms(2)] obtain xs ys where q: "QPending q = xs @ m # ys" "rest = xs @ ys" by blast
  let ?i = "MsgID m"
  let ?M = "L(?i \<mapsto> (Body m, Retries m, Working))"
  have key: "\<And>i m. fmlookup (Processing q) i = Some m \<Longrightarrow> MsgID m = i" using assms(1) by (auto simp: represents_def)
  have L: "L ?i = Some (Body m, Retries m, Waiting)"
    using holds_at_iff [of L Waiting "set (QPending q)" m] assms(1) q by (auto simp: represents_def)
  have d: "distinct (map MsgID (xs @ m # ys))" using assms(1) q by (simp add: represents_def)
  then have rest: "set rest = {x \<in> set (QPending q). MsgID x \<noteq> ?i}" by (auto simp: q image_iff)
  have held: "holds_at L Waiting (set (QPending q))" "holds_at L Dead (set (DeadLetter q))" "holds_at L Working (fmran' (Processing q))"
    using assms(1) by (simp_all add: represents_def)
  have "holds_at ?M Waiting (set rest)" unfolding rest by (rule holds_at_drop [OF held(1)]) simp
  moreover have idle: "?i \<notin> MsgID ` fmran' (Processing q)" using holds_at_none [OF held(3), of ?i] L by auto
  have "holds_at ?M Working (fmran' (fmupd ?i (m\<lparr>AckDeadline := d\<rparr>) (Processing q)))"
    using holds_at_add [OF held(3) idle] by (simp add: fmran'_upd [OF key] image_avoids [OF idle])
  moreover have "holds_at ?M Dead (set (DeadLetter q))"
    by (rule holds_at_keep [OF held(2)]) (use holds_at_none [OF held(2), of ?i] L in auto)
  moreover have "dom ?M \<subseteq> issued n" using assms(1) L by (auto simp: represents_def)
  moreover have "MaxRetry m = 3" using assms(1) q by (auto simp: represents_def)
  ultimately have "represents n (q\<lparr>QPending := rest, Processing := fmupd ?i (m\<lparr>AckDeadline := d\<rparr>) (Processing q)\<rparr>) ?M"
    using assms(1) q d key by (auto simp: represents_def fmran'_upd [OF key])
  with L show ?thesis by (blast intro: ledger_step.deliver)
qed

lemma ack_represents:
  assumes rep: "represents n q L" and m: "fmlookup (Processing q) i = Some m"
  shows "\<exists>M. ledger_step L (Acked i) M \<and> represents n (q\<lparr>Processing := fmdrop i (Processing q)\<rparr>) M"
proof -
  have key: "\<And>i m. fmlookup (Processing q) i = Some m \<Longrightarrow> MsgID m = i" using rep by (auto simp: represents_def)
  note id = represents_working(1) [OF rep m] and L = represents_working(3) [OF rep m]
  let ?M = "L(i \<mapsto> (Body m, Retries m, Done))"
  have held: "holds_at L Waiting (set (QPending q))" "holds_at L Dead (set (DeadLetter q))" "holds_at L Working (fmran' (Processing q))"
    using rep by (simp_all add: represents_def)
  have "holds_at ?M Working (fmran' (fmdrop i (Processing q)))"
    using holds_at_drop [OF held(3), of Done i] by (simp add: fmran'_drop [OF key])
  moreover have "holds_at ?M Waiting (set (QPending q))"
    by (rule holds_at_keep [OF held(1)]) (use holds_at_none [OF held(1), of i] L in auto)
  moreover have "holds_at ?M Dead (set (DeadLetter q))"
    by (rule holds_at_keep [OF held(2)]) (use holds_at_none [OF held(2), of i] L in auto)
  moreover have "dom ?M \<subseteq> issued n" using rep L by (auto simp: represents_def)
  ultimately have "represents n (q\<lparr>Processing := fmdrop i (Processing q)\<rparr>) ?M"
    using rep key by (auto simp: represents_def fmran'_drop)
  with L show ?thesis by (blast intro: ledger_step.ack)
qed

section \<open>Runs of queue commands\<close>

datatype qop = OpEnqueue string duration | OpDequeue "string list \<Rightarrow> string list" | OpAck string | OpNack string

text \<open>One command on a queue at a moment; what it reports is the event it stands for.\<close>

fun queue_cmd :: "key \<Rightarrow> qop \<times> gotime \<Rightarrow> store \<Rightarrow> qevent option \<times> store" where
  "queue_cmd name (OpEnqueue b d, now) s = (case Store_Enqueue name b d now s of (i, t) \<Rightarrow> (Some (Enqueued i b), t))"
| "queue_cmd name (OpDequeue order, now) s =
     (case dequeue_try order name now s of (r, t) \<Rightarrow> (map_option (\<lambda>m. Delivered (MsgID m) (Body m)) r, t))"
| "queue_cmd name (OpAck i, now) s = (case Store_QAck name i now s of (ok, t) \<Rightarrow> (if ok then Some (Acked i) else None, t))"
| "queue_cmd name (OpNack i, now) s = (case Store_QNack name i now s of (ok, t) \<Rightarrow> (if ok then Some (Failed i) else None, t))"

definition reported :: "qevent option list \<Rightarrow> qevent list" where
  "reported outs = concat (map (\<lambda>out. case out of None \<Rightarrow> [] | Some e \<Rightarrow> [e]) outs)"

fun is_failed :: "qevent \<Rightarrow> bool" where
  "is_failed (Failed i) \<longleftrightarrow> True"
| "is_failed _ \<longleftrightarrow> False"

abbreviation shown :: "qevent list \<Rightarrow> qevent list" where
  "shown tr \<equiv> filter (\<lambda>e. \<not> is_failed e) tr"

definition queue_state :: "key \<Rightarrow> store \<Rightarrow> ledger \<Rightarrow> bool" where
  "queue_state name s L \<longleftrightarrow> represents (queueSeq s) (queue_of name s) L"

lemma wake_queue_fields [simp]:
  "queues (wake_queue_waiter name s) = queues s" "queueSeq (wake_queue_waiter name s) = queueSeq s"
  by (simp_all add: wake_queue_waiter_def Let_def split: list.split)

lemma queue_of_upd [simp]: "queue_of name (touchKeyLocked ks now (s\<lparr>queues := fmupd name q (queues s)\<rparr>)) = q"
  by (simp add: queue_of_def)

lemma queue_of_wake [simp]: "queue_of name (wake_queue_waiter name s) = queue_of name s"
  by (simp add: queue_of_def)

lemma queue_of_some: "fmlookup (queues s) name = Some q \<Longrightarrow> queue_of name s = q"
  by (simp add: queue_of_def)

lemma enqueue_sim:
  assumes "queue_state name s L" "Store_Enqueue name b d now s = (i, t)"
  shows "\<exists>M. ledger_step L (Enqueued i b) M \<and> queue_state name t M"
proof -
  have i: "i = FormatInt (UnixMilli now) @ ''-'' @ FormatInt (int (Suc (queueSeq s)))"
    using assms(2) by (simp add: Store_Enqueue_def nextQueueID_def Let_def)
  have "queueSeq t = Suc (queueSeq s)" "queue_of name t = (queue_of name s)\<lparr>QPending := QPending (queue_of name s) @
      [\<lparr>MsgID = i, Body = b, CreatedAt = (if 0 < d then now + d else now), Retries = 0,
        MaxRetry = MaxRetries (queue_of name s), AckDeadline = zeroTime\<rparr>]\<rparr>"
    using assms(2) by (auto simp: Store_Enqueue_def nextQueueID_def Let_def queue_of_def)
  then show ?thesis
    using enqueue_represents [OF assms(1) [unfolded queue_state_def] i] unfolding queue_state_def by auto
qed

lemma requeue_sim:
  assumes "queue_state name s L"
  shows "\<exists>tr M. ledger_run L tr M \<and> queue_state name (requeueExpiredLocked order name now s) M \<and> shown tr = []"
proof (cases "fmlookup (queues s) name")
  case None
  with assms show ?thesis
    by (intro exI [of _ "[]"] exI [of _ L]) (simp add: requeueExpiredLocked_def ledger_run.start)
next
  case (Some q)
  from requeue_represents [OF assms [unfolded queue_state_def], of now "order (sorted_keys (Processing q))"]
  obtain tr M where M: "ledger_run L tr M"
    "represents (queueSeq s) (fold (requeue1 now) (order (sorted_keys (Processing q))) q) M" "\<forall>e \<in> set tr. \<exists>i. e = Failed i"
    unfolding queue_of_some [OF Some] by blast
  have "shown tr = []" unfolding filter_empty_conv using M(3) by auto
  with M show ?thesis
    by (intro exI [of _ tr] exI [of _ M]) (auto simp: requeueExpiredLocked_def Some queue_state_def queue_of_def)
qed

lemma dequeue_sim:
  assumes "queue_state name s L" "dequeue_try order name now s = (r, t)"
  shows "\<exists>tr M. ledger_run L tr M \<and> queue_state name t M \<and>
    shown tr = (case r of None \<Rightarrow> [] | Some m \<Rightarrow> [Delivered (MsgID m) (Body m)])"
proof -
  let ?u = "requeueExpiredLocked order name now s"
  from requeue_sim [OF assms(1)] obtain tr M where
    M: "ledger_run L tr M" "queue_state name ?u M" "shown tr = []" by blast
  show ?thesis
  proof (cases "fmlookup (queues ?u) name")
    case None
    with assms(2) have "r = None" "t = ?u" by (simp_all add: dequeue_try_def)
    with M show ?thesis by (intro exI [of _ tr] exI [of _ M]) simp
  next
    case (Some q)
    show ?thesis
    proof (cases "take_ready now (QPending q)")
      case None
      with Some assms(2) have "r = None" "t = ?u" by (simp_all add: dequeue_try_def)
      with M show ?thesis by (intro exI [of _ tr] exI [of _ M]) simp
    next
      case ready: (Some p)
      obtain m rest where p: "p = (m, rest)" by (cases p)
      let ?m = "m\<lparr>AckDeadline := now + AckTimeout q\<rparr>"
      let ?q = "q\<lparr>QPending := rest, Processing := fmupd (MsgID m) ?m (Processing q)\<rparr>"
      have rt: "r = Some ?m" "t = touchKeyLocked [name] now (?u\<lparr>queues := fmupd name ?q (queues ?u)\<rparr>)"
        using assms(2) Some ready p by (simp_all add: dequeue_try_def Let_def)
      from deliver_represents [OF M(2) [unfolded queue_state_def queue_of_some [OF Some]] ready [unfolded p]]
      obtain N where N: "ledger_step M (Delivered (MsgID m) (Body m)) N" "represents (queueSeq ?u) ?q N" by blast
      have "ledger_run L (tr @ [Delivered (MsgID m) (Body m)]) N" using M(1) N(1) by (rule ledger_run.more)
      moreover have "queue_state name t N" using N(2) by (simp add: rt queue_state_def)
      ultimately show ?thesis using M(3) rt by (intro exI [of _ "tr @ [Delivered (MsgID m) (Body m)]"] exI [of _ N]) simp
    qed
  qed
qed

lemma queue_cmd_sim:
  assumes "queue_state name s L" "queue_cmd name c s = (out, t)"
  shows "\<exists>tr M. ledger_run L tr M \<and> queue_state name t M \<and> shown tr = shown (reported [out])"
proof -
  obtain opn now where c: "c = (opn, now)" by (cases c)
  have single: "ledger_step L e M \<Longrightarrow> queue_state name t M \<Longrightarrow> out = Some e \<Longrightarrow> ?thesis" for e M
    by (intro exI [of _ "[e]"] exI [of _ M]) (simp add: ledger_run_one reported_def)
  have idle: "t = s \<Longrightarrow> out = None \<Longrightarrow> ?thesis"
    using assms(1) by (intro exI [of _ "[]"] exI [of _ L]) (simp add: ledger_run.start reported_def)
  show ?thesis
  proof (cases opn)
    case (OpEnqueue b d)
    obtain i u where i: "Store_Enqueue name b d now s = (i, u)" by (cases "Store_Enqueue name b d now s")
    with OpEnqueue assms(2) c have out: "out = Some (Enqueued i b)" "t = u" by simp_all
    from enqueue_sim [OF assms(1) i] obtain M where "ledger_step L (Enqueued i b) M" "queue_state name u M" by blast
    with out show ?thesis by (intro single [of "Enqueued i b" M]) simp_all
  next
    case (OpDequeue order)
    obtain r u where r: "dequeue_try order name now s = (r, u)" by (cases "dequeue_try order name now s")
    with OpDequeue assms(2) c have "out = map_option (\<lambda>m. Delivered (MsgID m) (Body m)) r" "t = u" by simp_all
    with dequeue_sim [OF assms(1) r] show ?thesis by (cases r) (simp_all add: reported_def)
  next
    case (OpAck i)
    show ?thesis
    proof (cases "has (Processing (queue_of name s)) i")
      case True
      then obtain m where m: "fmlookup (Processing (queue_of name s)) i = Some m" by blast
      then obtain q where q: "fmlookup (queues s) name = Some q" by (auto simp: queue_of_def NewQueue_def split: option.splits)
      from ack_represents [OF assms(1) [unfolded queue_state_def] m] obtain M
        where M: "ledger_step L (Acked i) M" "represents (queueSeq s) ((queue_of name s)\<lparr>Processing := fmdrop i (Processing (queue_of name s))\<rparr>) M" by blast
      have "out = Some (Acked i)" "queue_state name t M"
        using OpAck assms(2) c q m M(2) by (auto simp: Store_QAck_def queue_of_some [OF q] Let_def queue_state_def)
      with M(1) show ?thesis by (intro single)
    next
      case False
      with OpAck assms(2) c have "t = s" "out = None"
        by (auto simp: Store_QAck_def queue_of_def split: option.splits)
      then show ?thesis by (rule idle)
    qed
  next
    case (OpNack i)
    show ?thesis
    proof (cases "has (Processing (queue_of name s)) i")
      case True
      then obtain m where m: "fmlookup (Processing (queue_of name s)) i = Some m" by blast
      then obtain q where q: "fmlookup (queues s) name = Some q" by (auto simp: queue_of_def NewQueue_def split: option.splits)
      from retry_represents [OF assms(1) [unfolded queue_state_def] m, of now] obtain M
        where M: "ledger_step L (Failed i) M" "represents (queueSeq s) (retry_message now m ((queue_of name s)\<lparr>Processing := fmdrop i (Processing (queue_of name s))\<rparr>)) M" by blast
      have "out = Some (Failed i)" "queue_state name t M"
        using OpNack assms(2) c q m M(2) by (auto simp: Store_QNack_def queue_of_some [OF q] Let_def queue_state_def)
      with M(1) show ?thesis by (intro single)
    next
      case False
      with OpNack assms(2) c have "t = s" "out = None"
        by (auto simp: Store_QNack_def queue_of_def split: option.splits)
      then show ?thesis by (rule idle)
    qed
  qed
qed

lemma reported_Cons: "reported (out # outs) = reported [out] @ reported outs"
  by (simp add: reported_def)

lemma queue_run_sim:
  assumes "queue_state name s L" "run_ops (queue_cmd name) cs s = (outs, t)"
  shows "\<exists>tr M. ledger_run L tr M \<and> queue_state name t M \<and> shown tr = shown (reported outs)"
  using assms
proof (induction cs arbitrary: s L outs)
  case Nil
  then show ?case by (intro exI [of _ "[]"] exI [of _ L]) (simp add: ledger_run.start reported_def)
next
  case (Cons c cs)
  obtain out u where u: "queue_cmd name c s = (out, u)" by (cases "queue_cmd name c s")
  obtain os where os: "run_ops (queue_cmd name) cs u = (os, t)" "outs = out # os"
    using Cons.prems(2) u by (auto split: prod.splits)
  from queue_cmd_sim [OF Cons.prems(1) u] obtain tr M where
    M: "ledger_run L tr M" "queue_state name u M" "shown tr = shown (reported [out])" by blast
  from Cons.IH [OF M(2) os(1)] obtain ts N where
    N: "ledger_run M ts N" "queue_state name t N" "shown ts = shown (reported os)" by blast
  have "ledger_run L (tr @ ts) N" by (rule ledger_run_append [OF N(1) M(1)])
  with M N os show ?case
    by (intro exI [of _ "tr @ ts"] exI [of _ N]) (simp add: reported_Cons [of out os])
qed

text \<open>The places of a queue where a message is.\<close>

definition places :: "Queue \<Rightarrow> string \<Rightarrow> string \<Rightarrow> place list" where
  "places q i b =
     map (\<lambda>_. Waiting) (filter (\<lambda>m. MsgID m = i \<and> Body m = b) (QPending q)) @
     (case fmlookup (Processing q) i of None \<Rightarrow> [] | Some m \<Rightarrow> if Body m = b then [Working] else []) @
     map (\<lambda>_. Dead) (filter (\<lambda>m. MsgID m = i \<and> Body m = b) (DeadLetter q))"

lemma filter_distinct_id:
  assumes "distinct (map f ms)" "m \<in> set ms" "P m" "\<And>x. P x \<Longrightarrow> f x = f m"
  shows "filter P ms = [m]"
  using assms
proof (induction ms)
  case (Cons x ms)
  show ?case
  proof (cases "x = m")
    case True
    then have "f m \<notin> f ` set ms" using Cons.prems(1) by simp
    then have "\<not> P y" if "y \<in> set ms" for y using Cons.prems(4) that by (metis image_eqI)
    then show ?thesis using True Cons.prems(3) by (simp add: filter_empty_conv)
  next
    case False
    then have "f x \<noteq> f m" using Cons.prems(1,2) by (metis image_eqI list.set_map list.simps(9) distinct.simps(2) set_ConsD)
    then have "\<not> P x" using Cons.prems(4) by blast
    moreover have "filter P ms = [m]"
      using Cons.prems(1,2) False by (intro Cons.IH Cons.prems(3,4)) simp_all
    ultimately show ?thesis by simp
  qed
qed simp

lemma filter_held:
  assumes "holds_at L p (set ms)" "distinct (map MsgID ms)"
  shows "length (filter (\<lambda>m. MsgID m = i \<and> Body m = b) ms) = (if \<exists>r. L i = Some (b, r, p) then 1 else 0)"
proof (cases "\<exists>r. L i = Some (b, r, p)")
  case True
  then obtain m where m: "m \<in> set ms" "MsgID m = i" "Body m = b" using assms(1) by (auto simp: holds_at_def)
  with filter_distinct_id [OF assms(2), of m "\<lambda>m. MsgID m = i \<and> Body m = b"] True show ?thesis by simp
next
  case False
  then have "\<not> (MsgID m = i \<and> Body m = b)" if "m \<in> set ms" for m
    using holds_at_iff [OF assms(1) that] by auto
  then have "filter (\<lambda>m. MsgID m = i \<and> Body m = b) ms = []" by (simp add: filter_empty_conv)
  then show ?thesis by (simp add: False)
qed

lemma places_length:
  assumes "represents n q L"
  shows "length (places q i b) = (case L i of None \<Rightarrow> 0 | Some (b', r, p) \<Rightarrow> if b' = b \<and> p \<noteq> Done then 1 else 0)"
proof -
  have h: "holds_at L Waiting (set (QPending q))" "holds_at L Dead (set (DeadLetter q))"
    "distinct (map MsgID (QPending q))" "distinct (map MsgID (DeadLetter q))"
    and w: "holds_at L Working (fmran' (Processing q))"
    using assms by (simp_all add: represents_def)
  have key: "\<And>m. fmlookup (Processing q) i = Some m \<Longrightarrow> L i = Some (Body m, Retries m, Working)"
    by (rule represents_working(3) [OF assms])
  have "(case fmlookup (Processing q) i of None \<Rightarrow> [] | Some m \<Rightarrow> if Body m = b then [Working] else []) =
      (if \<exists>r. L i = Some (b, r, Working) then [Working] else [])"
  proof (cases "fmlookup (Processing q) i")
    case None
    have "L i \<noteq> Some (b, r, Working)" for r
    proof
      assume "L i = Some (b, r, Working)"
      then obtain m where "m \<in> fmran' (Processing q)" "MsgID m = i" using w by (auto simp: holds_at_def)
      then obtain j where "fmlookup (Processing q) j = Some m" by (auto simp: fmlookup_ran'_iff)
      then show False using represents_working(1) [OF assms] \<open>MsgID m = i\<close> None by fastforce
    qed
    with None show ?thesis by simp
  next
    case (Some m)
    then show ?thesis using key by auto
  qed
  then show ?thesis
    unfolding places_def length_append length_map filter_held [OF h(1,3)] filter_held [OF h(2,4)]
    by (cases "L i") (auto split: place.splits, (metis place.exhaust)+)
qed

lemma shown_in:
  assumes "shown tr = shown ts" "\<not> is_failed e"
  shows "e \<in> set tr \<longleftrightarrow> e \<in> set ts"
proof -
  have "e \<in> set tr \<longleftrightarrow> e \<in> set (shown tr)" for tr using assms(2) by simp
  then show ?thesis using assms(1) by metis
qed

lemma deliveries_shown: "shown tr = shown ts \<Longrightarrow> deliveries i tr = deliveries i ts"
proof -
  have "filter (\<lambda>e. \<exists>b. e = Delivered i b) tr = filter (\<lambda>e. \<exists>b. e = Delivered i b) (shown tr)" for tr
    by (auto simp: filter_filter intro!: filter_cong)
  then show "shown tr = shown ts \<Longrightarrow> deliveries i tr = deliveries i ts" unfolding deliveries_def by metis
qed

text \<open>C7: A queue keeps its messages.  After any sequence of \<open>ENQUEUE\<close>, \<open>DEQUEUE\<close>, \<open>QACK\<close> and \<open>QNACK\<close> on a queue that did not
  exist before, with any clock readings and any enumeration orders of Go's maps, the queue represents the end of a run of
  the message life cycle \<open>ledger_step\<close> (waiting, then processed, then acknowledged, or failed and waiting again or dead after
  the third failure) whose enqueues, deliveries and acknowledgements are the ones reported; a message is in exactly one
  place (waiting, being processed, dead) if it was enqueued and not acknowledged, and nowhere otherwise; it was handed
  out at most three times, and exactly three times if it is among the dead letters.\<close>

theorem queue_keeps_messages:
  assumes "fmlookup (queues s) name = None" "run_ops (queue_cmd name) cs s = (outs, t)"
  shows "(\<exists>tr L. ledger_run (\<lambda>_. None) tr L \<and> represents (queueSeq t) (queue_of name t) L \<and> shown tr = shown (reported outs)) \<and>
    length (places (queue_of name t) i b) =
      (if Enqueued i b \<in> set (reported outs) \<and> Acked i \<notin> set (reported outs) then 1 else 0) \<and>
    deliveries i (reported outs) \<le> 3 \<and>
    (\<forall>m \<in> set (DeadLetter (queue_of name t)). deliveries (MsgID m) (reported outs) = 3)"
proof -
  have "queue_state name s (\<lambda>_. None)"
    using assms(1) represents_new by (simp add: queue_state_def queue_of_def)
  from queue_run_sim [OF this assms(2)] obtain tr L where
    run: "ledger_run (\<lambda>_. None) tr L" and rep: "represents (queueSeq t) (queue_of name t) L" and sh: "shown tr = shown (reported outs)"
    unfolding queue_state_def by blast
  note hist = ledger_history [OF run]
  have ev: "Enqueued i b \<in> set (reported outs) \<longleftrightarrow> Enqueued i b \<in> set tr" "Acked i \<in> set (reported outs) \<longleftrightarrow> Acked i \<in> set tr" for i b
    using shown_in [OF sh] by simp_all
  have del: "deliveries i (reported outs) = deliveries i tr" for i using deliveries_shown [OF sh] by simp
  have a: "length (places (queue_of name t) i b) = (if Enqueued i b \<in> set tr \<and> Acked i \<notin> set tr then 1 else 0)"
    unfolding places_length [OF rep] using hist [of i] by (cases "L i") auto
  have c: "deliveries i tr \<le> 3" using hist [of i] by (cases "L i") (auto split: if_splits)
  have d: "deliveries (MsgID m) tr = 3" if "m \<in> set (DeadLetter (queue_of name t))" for m
  proof -
    have "L (MsgID m) = Some (Body m, Retries m, Dead)"
      using rep that holds_at_iff [of L Dead "set (DeadLetter (queue_of name t))" m] by (simp add: represents_def)
    then show ?thesis using hist [of "MsgID m"] by simp
  qed
  have "\<exists>tr L. ledger_run (\<lambda>_. None) tr L \<and> represents (queueSeq t) (queue_of name t) L \<and> shown tr = shown (reported outs)"
    using run rep sh by blast
  with a c d show ?thesis unfolding ev del by blast
qed

theorem queue_keeps_messages_witness:
  "length (places (queue_of ''q'' (snd (run_ops (queue_cmd ''q'') [(OpEnqueue ''job'' 0, 5), (OpDequeue id, 6)] Store_New))) ''0-1'' ''job'') = 1"
proof -
  let ?cs = "[(OpEnqueue ''job'' 0, 5), (OpDequeue id, 6)]"
  let ?r = "run_ops (queue_cmd ''q'') ?cs Store_New"
  have none: "fmlookup (queues Store_New) ''q'' = None" by code_simp
  have outs: "fst ?r = [Some (Enqueued ''0-1'' ''job''), Some (Delivered ''0-1'' ''job'')]" by code_simp
  have r: "?r = (fst ?r, snd ?r)" by simp
  from queue_keeps_messages [OF none r, of "''0-1''" "''job''"] show ?thesis
    unfolding outs by (simp add: reported_def)
qed

section \<open>Blocked clients\<close>

lemma Enqueue_closes:
  "queue_waiters name s = w # ws \<Longrightarrow> closed (snd (Store_Enqueue name b d now s)) = finsert w (closed s)"
  by (simp add: Store_Enqueue_def nextQueueID_def wake_queue_waiter_def queue_waiters_def Let_def)

text \<open>A blocked \<open>Dequeue\<close> that times out leaves its waiter behind.  When a second client then blocks on the same
  queue, the next message wakes the first waiter, whose client is gone: the message is pending, and the second client
  is still asleep.\<close>

theorem stale_waiter_takes_wakeup:
  assumes "fmlookup (queues s) name = None" "fmlookup (queueWaits s) name = None" "0 < timeout1" "0 < timeout2"
  shows "let (r1, s1) = Dequeue_start order name timeout1 n1 s;
             (f1, s2) = Dequeue_finish order name n2 s1;
             (r2, s3) = Dequeue_start order name timeout2 n3 s2;
             (i, s4) = Store_Enqueue name b 0 n4 s3
         in r1 = Inl (nextWaiter s) \<and> f1 = None \<and> r2 = Inl (nextWaiter s + 1) \<and>
            closed s4 = finsert (nextWaiter s) (closed s) \<and> Store_QLen name s4 = 1"
  using assms
  by (simp add: Dequeue_start_def Dequeue_finish_def dequeue_try_def requeueExpiredLocked_def queue_waiters_def
      Store_Enqueue_def nextQueueID_def wake_queue_waiter_def Store_QLen_def queue_of_def NewQueue_def Let_def)

theorem stale_waiter_takes_wakeup_witness:
  "let (r1, s1) = Dequeue_start id ''q'' 10 1 Store_New;
       (f1, s2) = Dequeue_finish id ''q'' 11 s1;
       (r2, s3) = Dequeue_start id ''q'' 10 12 s2;
       (i, s4) = Store_Enqueue ''q'' ''job'' 0 13 s3
   in r2 = Inl 1 \<and> closed s4 = {|0|} \<and> Store_QLen ''q'' s4 = 1"
  using stale_waiter_takes_wakeup [of Store_New "''q''" 10 10 id 1 11 12 "''job''" 13]
  by (simp add: Store_New_def split: prod.splits)

text \<open>A queue and a value may have the same name; deleting the value deletes the queue with its messages.\<close>

lemma queue_lost_with_key: "existsRLocked name now s \<Longrightarrow> Store_QInfo name (snd (Store_Del [name] now s)) = (0, 0, 0)"
  by (simp add: Store_Del_def del_loop_Cons Store_QInfo_def deleteKeyLocked_def Let_def)

end
