(* ===== verification/Vole_Streams.thy ===== *)
theory Vole_Streams
  imports Vole_Keys
begin

text \<open>
  Streams and consumer groups of \<^verbatim>\<open>internal/store/store.go\<close>.  An entry identifier is a string \<open>ms-seq\<close> that is
  parsed whenever two identifiers are compared.
\<close>

section \<open>Identifiers\<close>

text \<open>\<open>strings.SplitN(id, "-", 2)\<close>\<close>

definition split_dash :: "string \<Rightarrow> string \<times> string option" where
  "split_dash i =
     (case dropWhile (\<lambda>c. c \<noteq> CHR ''-'') i of
        [] \<Rightarrow> (i, None)
      | _ # rest \<Rightarrow> (takeWhile (\<lambda>c. c \<noteq> CHR ''-'') i, Some rest))"

definition parseID :: "string \<Rightarrow> int \<times> int" where
  "parseID i =
     (if i = ''-'' then (0, 0)
      else if i = ''+'' \<or> i = ''$'' then (2 ^ 62 - 1, 2 ^ 62 - 1)
      else case split_dash i of (p, q) \<Rightarrow> (fst (ParseInt p), case q of None \<Rightarrow> 0 | Some q \<Rightarrow> fst (ParseInt q)))"

definition compareID :: "string \<Rightarrow> string \<Rightarrow> int" where
  "compareID a b =
     (if b = ''$'' then 1
      else case (parseID a, parseID b) of ((a0, a1), (b0, b1)) \<Rightarrow>
        if a0 \<noteq> b0 then (if a0 < b0 then -1 else 1)
        else if a1 < b1 then -1
        else if b1 < a1 then 1
        else 0)"

definition inRange :: "string \<Rightarrow> string \<Rightarrow> string \<Rightarrow> bool" where
  "inRange i start end =
     (if start \<noteq> ''-'' \<and> compareID i start < 0 then False
      else if end \<noteq> ''+'' \<and> 0 < compareID i end then False
      else True)"

definition entries_of :: "key \<Rightarrow> store \<Rightarrow> StreamEntry list" where
  "entries_of stream s = (case fmlookup (streams s) stream of None \<Rightarrow> [] | Some es \<Rightarrow> es)"

definition lastIDLocked :: "key \<Rightarrow> store \<Rightarrow> string" where
  "lastIDLocked stream s = (let es = entries_of stream s in if es = [] then ''0-0'' else EntryID (last es))"

definition last_seq :: "key \<Rightarrow> store \<Rightarrow> int" where
  "last_seq stream s = (case fmlookup (lastSeq s) stream of None \<Rightarrow> 0 | Some n \<Rightarrow> n)"

section \<open>Adding and reading\<close>

definition stream_err :: "go_error" where
  "stream_err = Err ''stream ID must be greater than previous ID''"

definition prepareStreamIDLocked :: "key \<Rightarrow> string \<Rightarrow> gotime \<Rightarrow> store \<Rightarrow> string res \<times> store" where
  "prepareStreamIDLocked stream i now s =
     (if i = ''*''
      then case parseID (lastIDLocked stream s) of (l0, l1) \<Rightarrow>
        let ms = UnixMilli now;
            (ms, s) = (if ms \<le> l0 then (l0, s\<lparr>lastSeq := fmupd stream l1 (lastSeq s)\<rparr>) else (ms, s));
            s = s\<lparr>lastSeq := fmupd stream (wrap64 (last_seq stream s + 1)) (lastSeq s)\<rparr>
        in (Inr (FormatInt ms @ ''-'' @ FormatInt (last_seq stream s)), s)
      else if compareID i (lastIDLocked stream s) \<le> 0 then (Inl stream_err, s)
      else (Inr i, s\<lparr>lastSeq := fmupd stream (snd (parseID i)) (lastSeq s)\<rparr>))"

text \<open>The waiters of the stream are taken out; their channels are closed once the lock is released.\<close>

definition addStreamEntryLocked :: "key \<Rightarrow> string \<Rightarrow> string list \<Rightarrow> gotime \<Rightarrow> store \<Rightarrow> nat list \<times> store" where
  "addStreamEntryLocked stream i flds now s =
     (let s = s\<lparr>streams := fmupd stream (entries_of stream s @ [\<lparr>EntryID = i, Fields = flds\<rparr>]) (streams s)\<rparr>;
          s = touchKeyLocked [stream] now s;
          ws = (case fmlookup (waits s) stream of None \<Rightarrow> [] | Some ws \<Rightarrow> ws)
      in (ws, s\<lparr>waits := fmdrop stream (waits s)\<rparr>))"

definition close_all :: "nat list \<Rightarrow> store \<Rightarrow> store" where
  "close_all ws s = s\<lparr>closed := fset_of_list ws |\<union>| closed s\<rparr>"

definition stream_kinds :: "kind list" where
  "stream_kinds = [KHash, KList, KSet, KZSet, KHll]"

definition bad_fields :: "string list \<Rightarrow> bool" where
  "bad_fields flds \<longleftrightarrow> length flds = 0 \<or> length flds mod 2 \<noteq> 0"

definition fields_err :: "go_error" where
  "fields_err = Err ''wrong number of stream field arguments''"

definition Store_XAdd :: "key \<Rightarrow> string \<Rightarrow> string list \<Rightarrow> gotime \<Rightarrow> store \<Rightarrow> string res \<times> store" where
  "Store_XAdd stream i flds now s =
     (if bad_fields flds then (Inl fields_err, s)
      else case expiredKeyLocked stream now s of (_, s) \<Rightarrow>
        case wrongTypeLocked stream_kinds stream now s of (wrong, s) \<Rightarrow>
          if wrong then (Inl WrongType, s)
          else case prepareStreamIDLocked stream i now s of
            (Inl err, s) \<Rightarrow> (Inl err, s)
          | (Inr i, s) \<Rightarrow>
              (case addStreamEntryLocked stream i flds now s of (ws, s) \<Rightarrow> (Inr i, close_all ws s)))"

definition Store_NextStreamID :: "key \<Rightarrow> string \<Rightarrow> gotime \<Rightarrow> store \<Rightarrow> string res \<times> store" where
  "Store_NextStreamID stream i now s =
     (case expiredKeyLocked stream now s of (_, s) \<Rightarrow>
        case wrongTypeLocked stream_kinds stream now s of (wrong, s) \<Rightarrow>
          if wrong then (Inl WrongType, s) else prepareStreamIDLocked stream i now s)"

definition Store_XAddPrepared :: "key \<Rightarrow> string \<Rightarrow> string list \<Rightarrow> gotime \<Rightarrow> store \<Rightarrow> unit res \<times> store" where
  "Store_XAddPrepared stream i flds now s =
     (if bad_fields flds then (Inl fields_err, s)
      else case expiredKeyLocked stream now s of (e, s) \<Rightarrow>
        if e then (Inl stream_err, s)
        else if compareID i (lastIDLocked stream s) \<le> 0 then (Inl stream_err, s)
        else let s = s\<lparr>lastSeq := fmupd stream (snd (parseID i)) (lastSeq s)\<rparr>
             in case addStreamEntryLocked stream i flds now s of (ws, s) \<Rightarrow> (Inr (), close_all ws s))"

definition Store_XLen :: "key \<Rightarrow> gotime \<Rightarrow> store \<Rightarrow> nat res" where
  "Store_XLen key now s =
     (if isExpiredRLocked key now s then Inr 0
      else if wrongTypeRLocked [KHash, KList, KSet, KZSet, KHll, KJson, KTimeSeries] key now s then Inl WrongType
      else Inr (length (entries_of key s)))"

definition searchStreamStart :: "StreamEntry list \<Rightarrow> string \<Rightarrow> nat" where
  "searchStreamStart ents afterID = sort_Search (length ents) (\<lambda>i. 0 < compareID (EntryID (ents ! i)) afterID)"

fun xrange_loop :: "string \<Rightarrow> int \<Rightarrow> StreamEntry list \<Rightarrow> StreamEntry list \<Rightarrow> StreamEntry list" where
  "xrange_loop end cnt out [] = out"
| "xrange_loop end cnt out (entry # es) =
     (if end \<noteq> ''+'' \<and> 0 < compareID (EntryID entry) end then out
      else let out = out @ [entry]
           in if 0 < cnt \<and> cnt \<le> int (length out) then out else xrange_loop end cnt out es)"

definition Store_XRange :: "key \<Rightarrow> string \<Rightarrow> string \<Rightarrow> int \<Rightarrow> gotime \<Rightarrow> store \<Rightarrow> StreamEntry list" where
  "Store_XRange stream start end cnt now s =
     (if isExpiredRLocked stream now s then []
      else let ents = entries_of stream s in
        if ents = [] then []
        else let begin = (if start \<noteq> ''-''
                          then sort_Search (length ents) (\<lambda>i. 0 \<le> compareID (EntryID (ents ! i)) start) else 0)
             in xrange_loop end cnt [] (drop begin ents))"

text \<open>\<open>out[stream] = append(out[stream], ...)\<close>: a stream gets an entry in the result only if something is appended.\<close>

definition append_out :: "key \<Rightarrow> StreamEntry list \<Rightarrow> StreamEntry list gomap \<Rightarrow> StreamEntry list gomap" where
  "append_out stream es out =
     (if es = [] then out
      else fmupd stream ((case fmlookup out stream of None \<Rightarrow> [] | Some xs \<Rightarrow> xs) @ es) out)"

definition xread1 :: "gotime \<Rightarrow> store \<Rightarrow> key \<times> string \<Rightarrow> StreamEntry list gomap \<Rightarrow> StreamEntry list gomap" where
  "xread1 now s = (\<lambda>(stream, i) out.
     if isExpiredRLocked stream now s then out
     else let ents = entries_of stream s in append_out stream (drop (searchStreamStart ents i) ents) out)"

definition Store_XRead :: "(key \<times> string) list \<Rightarrow> gotime \<Rightarrow> store \<Rightarrow> StreamEntry list gomap" where
  "Store_XRead queries now s = fold (xread1 now s) queries fmempty"

definition Store_LastID :: "key \<Rightarrow> gotime \<Rightarrow> store \<Rightarrow> string" where
  "Store_LastID stream now s = (if isExpiredRLocked stream now s then ''0-0'' else lastIDLocked stream s)"

text \<open>Slicing with a start beyond the end panics: a negative \<open>maxLen\<close> asks for more than there is.\<close>

definition Store_XTrim :: "key \<Rightarrow> int \<Rightarrow> gotime \<Rightarrow> store \<Rightarrow> int res \<times> store" where
  "Store_XTrim stream maxLen now s =
     (let ents = entries_of stream s in
      if int (length ents) \<le> maxLen then (Inr 0, s)
      else let trimmed = wrap64 (int (length ents) - maxLen) in
        if trimmed < 0 \<or> int (length ents) < trimmed then (Inl (Panic ''slice bounds out of range''), s)
        else (Inr trimmed,
              touchKeyLocked [stream] now (s\<lparr>streams := fmupd stream (drop (nat trimmed) ents) (streams s)\<rparr>)))"

definition Store_XInfoStream :: "key \<Rightarrow> store \<Rightarrow> nat \<times> string \<times> string \<times> nat \<times> bool" where
  "Store_XInfoStream stream s =
     (let ents = entries_of stream s;
          groups = (case fmlookup (groups s) stream of None \<Rightarrow> 0 | Some gs \<Rightarrow> map_len gs)
      in if ents = [] then (0, ''0-0'', ''0-0'', groups, has (streams s) stream)
         else (length ents, EntryID (hd ents), EntryID (last ents), groups, True))"

section \<open>Consumer groups\<close>

definition group_of :: "key \<Rightarrow> string \<Rightarrow> store \<Rightarrow> ConsumerGroup option" where
  "group_of stream g s = (case fmlookup (groups s) stream of None \<Rightarrow> None | Some gs \<Rightarrow> fmlookup gs g)"

definition groups_at :: "key \<Rightarrow> store \<Rightarrow> ConsumerGroup gomap" where
  "groups_at stream s = (case fmlookup (groups s) stream of None \<Rightarrow> fmempty | Some gs \<Rightarrow> gs)"

definition put_group :: "key \<Rightarrow> string \<Rightarrow> ConsumerGroup \<Rightarrow> store \<Rightarrow> store" where
  "put_group stream g cg s = s\<lparr>groups := fmupd stream (fmupd g cg (groups_at stream s)) (groups s)\<rparr>"

definition no_group :: go_error where
  "no_group = Err ''consumer group does not exist''"

definition Store_XGroupCreate :: "key \<Rightarrow> string \<Rightarrow> string \<Rightarrow> bool \<Rightarrow> gotime \<Rightarrow> store \<Rightarrow> unit res \<times> store" where
  "Store_XGroupCreate stream g i mkstream now s =
     (case expiredKeyLocked stream now s of (_, s) \<Rightarrow>
        case wrongTypeLocked stream_kinds stream now s of (wrong, s) \<Rightarrow>
          if wrong then (Inl WrongType, s)
          else if \<not> has (streams s) stream \<and> \<not> mkstream then (Inl (Err ''stream does not exist''), s)
          else let i = (if i = ''$'' then lastIDLocked stream s else i);
                   s = (if has (groups s) stream then s else s\<lparr>groups := fmupd stream fmempty (groups s)\<rparr>)
               in if has (groups_at stream s) g then (Inl (Err ''consumer group already exists''), s)
                  else (Inr (), touchKeyLocked [stream] now (put_group stream g \<lparr>LastID = i, Pending = fmempty\<rparr> s)))"

definition Store_XGroupExists :: "key \<Rightarrow> string \<Rightarrow> gotime \<Rightarrow> store \<Rightarrow> bool" where
  "Store_XGroupExists stream g now s = (if isExpiredRLocked stream now s then False else group_of stream g s \<noteq> None)"

text \<open>
  What one stream contributes to a read by a group: new entries for \<open>>\<close>, else the consumer's pending ones.  The
  loop appends an entry and then stops if \<open>len(out[stream]) >= count\<close>, where \<open>n\<close> entries were there before.
\<close>

definition group_entries :: "ConsumerGroup \<Rightarrow> string \<Rightarrow> string \<Rightarrow> int \<Rightarrow> nat \<Rightarrow> StreamEntry list \<Rightarrow> StreamEntry list" where
  "group_entries g consumer i cnt n ents =
     (let room = nat (max 1 (cnt - int n)) in
      if i = ''>'' then take room (drop (searchStreamStart ents (LastID g)) ents)
      else take room (filter (\<lambda>entry. case fmlookup (Pending g) (EntryID entry) of
             None \<Rightarrow> False
           | Some pending \<Rightarrow> Consumer pending = consumer \<and> 0 < compareID (EntryID entry) i) ents))"

definition out_len :: "key \<Rightarrow> StreamEntry list gomap \<Rightarrow> nat" where
  "out_len stream out = (case fmlookup out stream of None \<Rightarrow> 0 | Some xs \<Rightarrow> length xs)"

fun readgroup_loop ::
  "string \<Rightarrow> string \<Rightarrow> (key \<times> string) list \<Rightarrow> int \<Rightarrow> gotime \<Rightarrow> store \<Rightarrow> StreamEntry list gomap \<Rightarrow> StreamEntry list gomap res" where
  "readgroup_loop g consumer [] cnt now s out = Inr out"
| "readgroup_loop g consumer ((stream, i) # queries) cnt now s out =
     (if isExpiredRLocked stream now s then readgroup_loop g consumer queries cnt now s out
      else case group_of stream g s of
        None \<Rightarrow> Inl no_group
      | Some cg \<Rightarrow>
          readgroup_loop g consumer queries cnt now s
            (append_out stream (group_entries cg consumer i cnt (out_len stream out) (entries_of stream s)) out))"

definition Store_XReadGroupPlan ::
  "string \<Rightarrow> string \<Rightarrow> (key \<times> string) list \<Rightarrow> int \<Rightarrow> gotime \<Rightarrow> store \<Rightarrow> StreamEntry list gomap res" where
  "Store_XReadGroupPlan g consumer queries cnt now s =
     readgroup_loop g consumer queries (if cnt \<le> 0 then 10 else cnt) now s fmempty"

definition deliver1 :: "string \<Rightarrow> gotime \<Rightarrow> string \<Rightarrow> ConsumerGroup \<Rightarrow> ConsumerGroup" where
  "deliver1 consumer delivered i g =
     (let g = g\<lparr>Pending := fmupd i \<lparr>Consumer = consumer, Delivered = delivered\<rparr> (Pending g)\<rparr>
      in if 0 < compareID i (LastID g) then g\<lparr>LastID := i\<rparr> else g)"

definition Store_XGroupDeliver :: "key \<Rightarrow> string \<Rightarrow> string \<Rightarrow> string list \<Rightarrow> gotime \<Rightarrow> gotime \<Rightarrow> store \<Rightarrow> unit res \<times> store" where
  "Store_XGroupDeliver stream g consumer ids delivered now s =
     (case group_of stream g s of
        None \<Rightarrow> (Inl no_group, s)
      | Some cg \<Rightarrow>
          let delivered = (if IsZero delivered then now else delivered);
              cg = fold (deliver1 consumer delivered) ids cg
          in (Inr (), touchKeyLocked [stream] now (put_group stream g cg s)))"

definition ack1 :: "string \<Rightarrow> nat \<times> ConsumerGroup \<Rightarrow> nat \<times> ConsumerGroup" where
  "ack1 i = (\<lambda>(n, g). if has (Pending g) i then (n + 1, g\<lparr>Pending := fmdrop i (Pending g)\<rparr>) else (n, g))"

definition Store_XAck :: "key \<Rightarrow> string \<Rightarrow> string list \<Rightarrow> gotime \<Rightarrow> store \<Rightarrow> nat res \<times> store" where
  "Store_XAck stream g ids now s =
     (case expiredKeyLocked stream now s of (e, s) \<Rightarrow>
        if e then (Inr 0, s)
        else case group_of stream g s of
          None \<Rightarrow> (Inl no_group, s)
        | Some cg \<Rightarrow>
            (case fold ack1 ids (0, cg) of (n, cg) \<Rightarrow>
               let s = put_group stream g cg s in (Inr n, if 0 < n then touchKeyLocked [stream] now s else s)))"

text \<open>A pending entry that has been idle long enough goes to the new consumer; the entry itself is reported if the
  stream still has it.\<close>

definition claim1 ::
  "string \<Rightarrow> int \<Rightarrow> gotime \<Rightarrow> StreamEntry list \<Rightarrow> string \<Rightarrow> StreamEntry list \<times> ConsumerGroup \<Rightarrow> StreamEntry list \<times> ConsumerGroup" where
  "claim1 consumer minIdleMs now ents i = (\<lambda>(claimed, g).
     case fmlookup (Pending g) i of
       None \<Rightarrow> (claimed, g)
     | Some pending \<Rightarrow>
         if minIdleMs \<le> Milliseconds (time_Sub now (Delivered pending)) \<or> minIdleMs = 0
         then (claimed @ (case find (\<lambda>entry. EntryID entry = i) ents of None \<Rightarrow> [] | Some entry \<Rightarrow> [entry]),
               g\<lparr>Pending := fmupd i \<lparr>Consumer = consumer, Delivered = now\<rparr> (Pending g)\<rparr>)
         else (claimed, g))"

definition Store_XClaim :: "key \<Rightarrow> string \<Rightarrow> string \<Rightarrow> int \<Rightarrow> string list \<Rightarrow> gotime \<Rightarrow> store \<Rightarrow> StreamEntry list res \<times> store" where
  "Store_XClaim stream g consumer minIdleMs ids now s =
     (case group_of stream g s of
        None \<Rightarrow> (Inl no_group, s)
      | Some cg \<Rightarrow>
          (case fold (claim1 consumer minIdleMs now (entries_of stream s)) ids ([], cg) of (claimed, cg) \<Rightarrow>
             let s = put_group stream g cg s
             in (Inr claimed, if claimed \<noteq> [] then touchKeyLocked [stream] now s else s)))"

fun autoclaim_loop ::
  "string \<Rightarrow> int \<Rightarrow> int \<Rightarrow> gotime \<Rightarrow> StreamEntry list \<Rightarrow> string list \<Rightarrow> StreamEntry list \<Rightarrow> ConsumerGroup \<Rightarrow> string \<times> StreamEntry list \<times> ConsumerGroup" where
  "autoclaim_loop consumer minIdleMs cnt now ents [] claimed g = (''0-0'', claimed, g)"
| "autoclaim_loop consumer minIdleMs cnt now ents (i # ids) claimed g =
     (if cnt \<le> int (length claimed) then (i, claimed, g)
      else case claim1 consumer minIdleMs now ents i (claimed, g) of (claimed, g) \<Rightarrow>
        autoclaim_loop consumer minIdleMs cnt now ents ids claimed g)"

text \<open>\<open>order\<close> enumerates the map of pending ents; candidates with equal identifiers may come out in any order.\<close>

definition Store_XAutoClaim ::
  "(string list \<Rightarrow> string list) \<Rightarrow> key \<Rightarrow> string \<Rightarrow> string \<Rightarrow> int \<Rightarrow> string \<Rightarrow> int \<Rightarrow> gotime \<Rightarrow> store \<Rightarrow> (string \<times> StreamEntry list) res \<times> store" where
  "Store_XAutoClaim order stream g consumer minIdleMs startID cnt now s =
     (case group_of stream g s of
        None \<Rightarrow> (Inl no_group, s)
      | Some cg \<Rightarrow>
          let cnt = (if cnt \<le> 0 then 100 else cnt);
              candidates = sort_key parseID (filter (\<lambda>i. 0 \<le> compareID i startID) (order (sorted_keys (Pending cg))))
          in case autoclaim_loop consumer minIdleMs cnt now (entries_of stream s) candidates [] cg of (nextID, claimed, cg) \<Rightarrow>
            let s = put_group stream g cg s
            in (Inr (nextID, claimed), if claimed \<noteq> [] then touchKeyLocked [stream] now s else s))"

definition summary1 :: "PendingEntry gomap \<Rightarrow> string \<Rightarrow> string \<times> string \<times> nat gomap \<Rightarrow> string \<times> string \<times> nat gomap" where
  "summary1 pend i = (\<lambda>(minID, maxID, consumers).
     case fmlookup pend i of
       None \<Rightarrow> (minID, maxID, consumers)
     | Some pe \<Rightarrow>
         (if minID = [] \<or> compareID i minID < 0 then i else minID,
          if maxID = [] \<or> 0 < compareID i maxID then i else maxID,
          fmupd (Consumer pe) ((case fmlookup consumers (Consumer pe) of None \<Rightarrow> 0 | Some n \<Rightarrow> n) + 1) consumers))"

definition Store_XPendingSummary ::
  "(string list \<Rightarrow> string list) \<Rightarrow> key \<Rightarrow> string \<Rightarrow> store \<Rightarrow> nat \<times> string \<times> string \<times> nat gomap" where
  "Store_XPendingSummary order stream g s =
     (case group_of stream g s of
        None \<Rightarrow> (0, [], [], fmempty)
      | Some cg \<Rightarrow>
          if Pending cg = fmempty then (0, [], [], fmempty)
          else (map_len (Pending cg), fold (summary1 (Pending cg)) (order (sorted_keys (Pending cg))) ([], [], fmempty)))"

text \<open>Name, number of consumers, number of pending ents and last delivered identifier of each group.\<close>

definition group_info :: "string \<times> ConsumerGroup \<Rightarrow> string \<times> nat \<times> nat \<times> string" where
  "group_info = (\<lambda>(name, g). (name, card (Consumer ` fmran' (Pending g)), map_len (Pending g), LastID g))"

definition Store_XInfoGroups :: "(string list \<Rightarrow> string list) \<Rightarrow> key \<Rightarrow> store \<Rightarrow> (string \<times> nat \<times> nat \<times> string) list" where
  "Store_XInfoGroups order stream s =
     (let gs = groups_at stream s in map (\<lambda>name. group_info (name, the (fmlookup gs name))) (order (sorted_keys gs)))"

section \<open>Waiting\<close>

definition Wait_start :: "key list \<Rightarrow> store \<Rightarrow> nat \<times> store" where
  "Wait_start names s =
     (let w = nextWaiter s; s = s\<lparr>nextWaiter := nextWaiter s + 1\<rparr>
      in (w, fold (\<lambda>stream s. s\<lparr>waits := fmupd stream ((case fmlookup (waits s) stream of None \<Rightarrow> [] | Some ws \<Rightarrow> ws) @ [w]) (waits s)\<rparr>) names s))"

definition remove_stream_waiter :: "nat \<Rightarrow> key \<Rightarrow> store \<Rightarrow> store" where
  "remove_stream_waiter target stream s =
     (case fmlookup (waits s) stream of
        None \<Rightarrow> s
      | Some ws \<Rightarrow>
          let kept = filter (\<lambda>w. w \<noteq> target) ws
          in if ws = [] then s
             else if kept = [] then s\<lparr>waits := fmdrop stream (waits s)\<rparr> else s\<lparr>waits := fmupd stream kept (waits s)\<rparr>)"

definition removeWaiter :: "key list \<Rightarrow> nat \<Rightarrow> store \<Rightarrow> store" where
  "removeWaiter names target s = fold (remove_stream_waiter target) names s"

text \<open>\<open>XREAD BLOCK\<close> in the server, as the sequence of its critical sections: the first read, the registration in \<open>Wait\<close>, the
  sleep until the channel is closed or the time is up, the removal of the waiter and the second read.  Other clients run
  between two steps.\<close>

datatype xread_pc = XReading | XEmpty | XAsleep nat | XWoken | XDone "StreamEntry list gomap"

fun xread_step :: "(key \<times> string) list \<Rightarrow> bool \<Rightarrow> bool \<Rightarrow> gotime \<Rightarrow> xread_pc \<Rightarrow> store \<Rightarrow> xread_pc \<times> store" where
  "xread_step queries block timeup now XReading s =
     (let results = Store_XRead queries now s
      in if map_len results = 0 \<and> block then (XEmpty, s) else (XDone results, s))"
| "xread_step queries block timeup now XEmpty s =
     (case Wait_start (map fst queries) s of (w, s) \<Rightarrow> (XAsleep w, s))"
| "xread_step queries block timeup now (XAsleep w) s =
     (if w |\<in>| closed s \<or> timeup then (XWoken, removeWaiter (map fst queries) w s) else (XAsleep w, s))"
| "xread_step queries block timeup now XWoken s = (XDone (Store_XRead queries now s), s)"
| "xread_step queries block timeup now (XDone results) s = (XDone results, s)"

section \<open>The order of identifiers\<close>

lemma compareID_less:
  assumes "b \<noteq> ''$''"
  shows "0 < compareID a b \<longleftrightarrow> parseID b < parseID a" "0 \<le> compareID a b \<longleftrightarrow> parseID b \<le> parseID a"
    "compareID a b \<le> 0 \<longleftrightarrow> parseID a \<le> parseID b" "compareID a b < 0 \<longleftrightarrow> parseID a < parseID b"
  using assms by (auto simp: compareID_def less_prod_def less_eq_prod_def split: prod.splits)

lemma compareID_dollar [simp]: "compareID a ''$'' = 1"
  by (simp add: compareID_def)

lemma ParseInt_nonneg: "CHR ''-'' \<notin> set p \<Longrightarrow> 0 \<le> fst (ParseInt p)"
proof -
  assume "CHR ''-'' \<notin> set p"
  then have "p \<noteq> [] \<Longrightarrow> hd p \<noteq> CHR ''-''" by (cases p) auto
  then show ?thesis by (auto simp: ParseInt_def Let_def split: prod.splits option.splits num_error.splits)
qed

lemma parseID_nonneg: "0 \<le> fst (parseID i)"
proof -
  have "CHR ''-'' \<notin> set i" if "dropWhile (\<lambda>c. c \<noteq> CHR ''-'') i = []" using that by (auto simp: dropWhile_eq_Nil_conv)
  moreover have "CHR ''-'' \<notin> set (takeWhile (\<lambda>c. c \<noteq> CHR ''-'') i)" by (auto dest: set_takeWhileD)
  ultimately show ?thesis
    by (auto simp: parseID_def split_dash_def ParseInt_nonneg split: list.splits)
qed

lemma parseID_int64: "int64 (fst (parseID i)) \<and> int64 (snd (parseID i))"
proof -
  have "int64 (fst (ParseInt p))" for p using ParseInt_int64 [of p] by (cases "ParseInt p") auto
  then show ?thesis by (auto simp: parseID_def int64_def split: prod.splits option.splits)
qed

text \<open>A generated identifier is parsed back to its parts.\<close>

lemma parse_format:
  assumes "0 \<le> ms" "int64 ms" "int64 n"
  shows "parseID (FormatInt ms @ ''-'' @ FormatInt n) = (ms, n)"
proof -
  let ?i = "FormatInt ms @ ''-'' @ FormatInt n"
  have no: "CHR ''-'' \<notin> set (FormatInt ms)" using assms(1) by (simp add: FormatInt_def)
  then have "takeWhile (\<lambda>c. c \<noteq> CHR ''-'') ?i = FormatInt ms" "dropWhile (\<lambda>c. c \<noteq> CHR ''-'') ?i = CHR ''-'' # FormatInt n"
    by (auto simp: takeWhile_append dropWhile_append)
  then have split: "split_dash ?i = (FormatInt ms, Some (FormatInt n))" by (simp add: split_dash_def)
  have ne: "FormatInt ms \<noteq> []" "FormatInt n \<noteq> []" by (simp_all add: FormatInt_def)
  then have "?i \<noteq> ''-''" "?i \<noteq> ''+''" "?i \<noteq> ''$''" by (cases "FormatInt ms"; auto)+
  with split show ?thesis using assms by (simp add: parseID_def ParseInt_FormatInt)
qed

lemma parse_zero: "parseID ''0-0'' = (0, 0)"
proof -
  have "FormatInt 0 = ''0''" by code_simp
  then show ?thesis using parse_format [of 0 0] by (simp add: int64_def)
qed

section \<open>Streams stay sorted\<close>

abbreviation id_of :: "StreamEntry \<Rightarrow> int \<times> int" where
  "id_of e \<equiv> parseID (EntryID e)"

definition stream_sorted :: "StreamEntry list \<Rightarrow> bool" where
  "stream_sorted es \<longleftrightarrow> sorted_wrt (<) (map id_of es) \<and> (\<forall>e \<in> set es. EntryID e \<noteq> ''$'')"

definition streams_sorted :: "store \<Rightarrow> bool" where
  "streams_sorted s \<longleftrightarrow> (\<forall>k. stream_sorted (entries_of k s))"

lemma stream_sorted_Nil [simp]: "stream_sorted []"
  by (simp add: stream_sorted_def)

lemma stream_sorted_snoc:
  "stream_sorted es \<Longrightarrow> i \<noteq> ''$'' \<Longrightarrow> es = [] \<or> parseID (EntryID (last es)) < parseID i \<Longrightarrow>
   stream_sorted (es @ [\<lparr>EntryID = i, Fields = flds\<rparr>])"
proof (cases es rule: rev_cases)
  case (snoc xs x)
  assume "stream_sorted es" "i \<noteq> ''$''" "es = [] \<or> parseID (EntryID (last es)) < parseID i"
  with snoc show ?thesis by (fastforce simp: stream_sorted_def sorted_wrt_append)
qed (simp add: stream_sorted_def)

lemma stream_sorted_drop: "stream_sorted es \<Longrightarrow> stream_sorted (drop n es)"
  by (auto simp: stream_sorted_def sorted_wrt_drop drop_map [symmetric] dest: in_set_dropD)

lemma lastID_ne: "stream_sorted (entries_of k s) \<Longrightarrow> lastIDLocked k s \<noteq> ''$''"
  by (auto simp: lastIDLocked_def Let_def stream_sorted_def)

lemma entries_simps [simp]:
  "entries_of k (s\<lparr>lastSeq := x\<rparr>) = entries_of k s" "entries_of k (s\<lparr>waits := y\<rparr>) = entries_of k s"
  "entries_of k (s\<lparr>closed := z\<rparr>) = entries_of k s" "entries_of k (s\<lparr>groups := gs\<rparr>) = entries_of k s"
  "entries_of k (touchKeyLocked ks now s) = entries_of k s"
  "entries_of k (s\<lparr>streams := fmupd j es (streams s)\<rparr>) = (if k = j then es else entries_of k s)"
  by (simp_all add: entries_of_def)

lemma entries_column: "entries_of k s = (case cStream (column s k) of None \<Rightarrow> [] | Some es \<Rightarrow> es)"
  by (simp add: entries_of_def column_lookup)

lemma streams_sorted_frame:
  "streams_sorted s \<Longrightarrow> (\<And>k. k \<noteq> j \<Longrightarrow> column t k = column s k) \<Longrightarrow> stream_sorted (entries_of j t) \<Longrightarrow> streams_sorted t"
  unfolding streams_sorted_def by (metis entries_column)

lemma entries_purge: "entries_of k (purge j now s) = (if k = j \<and> isExpiredRLocked j now s then [] else entries_of k s)"
  by (auto simp: entries_column column_purge live_def)

lemma streams_sorted_purge: "streams_sorted s \<Longrightarrow> streams_sorted (purge k now s)"
  by (simp add: streams_sorted_def entries_purge)

lemma addStreamEntry_entries:
  "entries_of k (snd (addStreamEntryLocked stream i flds now s)) =
     (if k = stream then entries_of stream s @ [\<lparr>EntryID = i, Fields = flds\<rparr>] else entries_of k s)"
  by (simp add: addStreamEntryLocked_def Let_def)

lemma close_all_entries [simp]: "entries_of k (close_all ws s) = entries_of k s"
  by (simp add: close_all_def)

lemma greater_last:
  assumes "stream_sorted (entries_of k s)" "\<not> compareID i (lastIDLocked k s) \<le> 0"
  shows "entries_of k s = [] \<or> parseID (EntryID (last (entries_of k s))) < parseID i"
  using assms lastID_ne [OF assms(1)] by (auto simp: compareID_less lastIDLocked_def Let_def split: if_splits)

lemma prepare_entries: "entries_of k (snd (prepareStreamIDLocked stream i now s)) = entries_of k s"
  by (simp add: prepareStreamIDLocked_def Let_def split: prod.split)

lemma format_id_ne: "FormatInt ms @ ''-'' @ x \<noteq> ''$''" "FormatInt ms @ ''-'' @ x \<noteq> ''*''"
  by (cases "FormatInt ms"; auto simp: FormatInt_def split: if_splits)+

lemma prepare_greater:
  assumes "prepareStreamIDLocked stream i now s = (Inr j, t)" "stream_sorted (entries_of stream s)" "i \<noteq> ''$''"
    "0 \<le> UnixMilli now" "UnixMilli now < 2 ^ 63" "i = ''*'' \<longrightarrow> snd (parseID (lastIDLocked stream s)) < maxInt64"
  shows "j \<noteq> ''$'' \<and> parseID (lastIDLocked stream s) < parseID j"
proof (cases "i = ''*''")
  case True
  define l where "l = parseID (lastIDLocked stream s)"
  define ms where "ms = max (UnixMilli now) (fst l)"
  define q where "q = (if UnixMilli now \<le> fst l then wrap64 (snd l + 1) else wrap64 (last_seq stream s + 1))"
  have j: "j = FormatInt ms @ ''-'' @ FormatInt q"
    using assms(1) True by (auto simp: prepareStreamIDLocked_def l_def ms_def q_def last_seq_def Let_def split: prod.splits if_splits)
  have "int64 ms" "0 \<le> ms" using assms(4,5) parseID_int64 [of "lastIDLocked stream s"] by (auto simp: ms_def l_def int64_def)
  moreover have "int64 q" by (simp add: q_def)
  ultimately have pj: "parseID j = (ms, q)" unfolding j by (intro parse_format)
  have "l < (ms, q)"
  proof (cases "UnixMilli now \<le> fst l")
    case True
    have "snd l < maxInt64" "int64 (snd l)" using assms(6) \<open>i = ''*''\<close> parseID_int64 by (auto simp: l_def)
    then have "wrap64 (snd l + 1) = snd l + 1" by (intro wrap64_id) (simp add: int64_def maxInt64_def)
    with True show ?thesis by (cases l) (simp add: ms_def q_def)
  next
    case False
    then show ?thesis by (cases l) (simp add: ms_def)
  qed
  with pj j format_id_ne show ?thesis unfolding l_def by auto
next
  case False
  have ne: "lastIDLocked stream s \<noteq> ''$''" by (rule lastID_ne [OF assms(2)])
  have "\<not> compareID i (lastIDLocked stream s) \<le> 0" and j: "j = i"
    using assms(1) False by (auto simp: prepareStreamIDLocked_def split: if_splits)
  then show ?thesis using assms(3) compareID_less(3) [OF ne, of i] by simp
qed

lemma XAddPrepared_eq:
  "Store_XAddPrepared stream i flds now s =
     (if bad_fields flds then (Inl fields_err, s)
      else if isExpiredRLocked stream now s \<or> compareID i (lastIDLocked stream s) \<le> 0 then (Inl stream_err, purge stream now s)
      else (case addStreamEntryLocked stream i flds now (s\<lparr>lastSeq := fmupd stream (snd (parseID i)) (lastSeq s)\<rparr>) of
              (ws, t) \<Rightarrow> (Inr (), close_all ws t)))"
  by (auto simp: Store_XAddPrepared_def locked_eqs purge_id Let_def)

lemma XAddPrepared_entries:
  assumes "Store_XAddPrepared stream i flds now s = (Inr x, t)"
  shows "entries_of k t = (if k = stream then entries_of stream s @ [\<lparr>EntryID = i, Fields = flds\<rparr>] else entries_of k s)"
proof -
  let ?u = "s\<lparr>lastSeq := fmupd stream (snd (parseID i)) (lastSeq s)\<rparr>"
  obtain ws v where v: "addStreamEntryLocked stream i flds now ?u = (ws, v)" by (cases "addStreamEntryLocked stream i flds now ?u")
  with assms have "t = close_all ws v" by (auto simp: XAddPrepared_eq split: if_splits)
  then show ?thesis using addStreamEntry_entries [of k stream i flds now ?u] v by simp
qed

text \<open>An accepted identifier is appended.\<close>

lemma XAddPrepared_accepts:
  assumes "\<not> bad_fields flds" "\<not> isExpiredRLocked stream now s" "\<not> compareID i (lastIDLocked stream s) \<le> 0"
  shows "\<exists>t. Store_XAddPrepared stream i flds now s = (Inr (), t) \<and>
    column t stream = (column s stream)\<lparr>cStream := Some (entries_of stream s @ [\<lparr>EntryID = i, Fields = flds\<rparr>])\<rparr>"
proof -
  have w: "column (u\<lparr>waits := x\<rparr>) k = column u k" "column (u\<lparr>closed := c\<rparr>) k = column u k" for u x c k
    by (simp_all add: column_def)
  have c: "column (u\<lparr>lastSeq := x, streams := fmupd stream es y\<rparr>) stream = (column u stream)\<lparr>cStream := Some es\<rparr>" for u x es y
    by (simp add: column_def)
  show ?thesis using assms by (auto simp: XAddPrepared_eq addStreamEntryLocked_def close_all_def Let_def w c)
qed

lemma one_entry:
  assumes "s = snd (Store_XAddPrepared ''s'' ''5-1'' [''f'', ''v''] 7 Store_New)"
  shows "Store_XAddPrepared ''s'' ''5-1'' [''f'', ''v''] 7 Store_New = (Inr (), s)" "parseID ''5-1'' = (5, 1)"
    and "column s ''s'' = no_column\<lparr>cStream := Some [\<lparr>EntryID = ''5-1'', Fields = [''f'', ''v'']\<rparr>]\<rparr>"
    and "entries_of ''s'' s = [\<lparr>EntryID = ''5-1'', Fields = [''f'', ''v'']\<rparr>]"
    and "stream_sorted (entries_of ''s'' s)"
proof -
  have d: "FormatInt 5 = ''5''" "FormatInt 1 = ''1''" by code_simp+
  show p: "parseID ''5-1'' = (5, 1)" using parse_format [of 5 1] by (simp add: d int64_def)
  have e: "entries_of ''s'' Store_New = []" by (simp add: entries_column)
  then have l: "lastIDLocked ''s'' Store_New = ''0-0''" by (simp add: lastIDLocked_def)
  have "\<not> compareID ''5-1'' (lastIDLocked ''s'' Store_New) \<le> 0" by (simp add: l compareID_less p parse_zero)
  from XAddPrepared_accepts [OF _ _ this, of "[''f'', ''v'']" 7] e
  show a: "Store_XAddPrepared ''s'' ''5-1'' [''f'', ''v''] 7 Store_New = (Inr (), s)"
    and c: "column s ''s'' = no_column\<lparr>cStream := Some [\<lparr>EntryID = ''5-1'', Fields = [''f'', ''v'']\<rparr>]\<rparr>"
    unfolding assms by (auto simp: bad_fields_def isExpired_column)
  show es: "entries_of ''s'' s = [\<lparr>EntryID = ''5-1'', Fields = [''f'', ''v'']\<rparr>]" by (simp add: entries_column c)
  show "stream_sorted (entries_of ''s'' s)" by (simp add: es stream_sorted_def)
qed

lemma XAddPrepared_sorted:
  assumes "streams_sorted s" "i \<noteq> ''$''"
  shows "streams_sorted (snd (Store_XAddPrepared stream i flds now s))"
proof (cases "bad_fields flds \<or> isExpiredRLocked stream now s \<or> compareID i (lastIDLocked stream s) \<le> 0")
  case True
  with assms(1) show ?thesis by (auto simp: XAddPrepared_eq streams_sorted_purge)
next
  case False
  let ?u = "s\<lparr>lastSeq := fmupd stream (snd (parseID i)) (lastSeq s)\<rparr>"
  have ok: "stream_sorted (entries_of stream s)" using assms(1) by (simp add: streams_sorted_def)
  have "stream_sorted (entries_of stream s @ [\<lparr>EntryID = i, Fields = flds\<rparr>])"
    using False by (intro stream_sorted_snoc [OF ok assms(2)] greater_last [OF ok]) simp
  then have "stream_sorted (entries_of k (snd (addStreamEntryLocked stream i flds now ?u)))" for k
    using assms(1) by (simp add: addStreamEntry_entries streams_sorted_def)
  with False show ?thesis by (auto simp: XAddPrepared_eq streams_sorted_def split: prod.split)
qed

lemma NextStreamID_sorted: "streams_sorted s \<Longrightarrow> streams_sorted (snd (Store_NextStreamID stream i now s))"
  by (auto simp: Store_NextStreamID_def locked_eqs streams_sorted_def prepare_entries entries_purge split: if_splits)

lemma XTrim_sorted: "streams_sorted s \<Longrightarrow> streams_sorted (snd (Store_XTrim stream maxLen now s))"
  by (auto simp: Store_XTrim_def Let_def streams_sorted_def stream_sorted_drop)

text \<open>The two steps of \<open>XADD\<close> in the server: choose the identifier, then add the entry under it; the append to the log between
  them succeeds.\<close>

definition xadd_steps :: "key \<Rightarrow> string \<Rightarrow> string list \<Rightarrow> gotime \<Rightarrow> gotime \<Rightarrow> store \<Rightarrow> string res \<times> store" where
  "xadd_steps stream i flds now1 now2 s =
     (case Store_NextStreamID stream i now1 s of
        (Inl err, s) \<Rightarrow> (Inl err, s)
      | (Inr i, s) \<Rightarrow>
          (case Store_XAddPrepared stream i flds now2 s of (Inl err, s) \<Rightarrow> (Inl err, s) | (Inr _, s) \<Rightarrow> (Inr i, s)))"

text \<open>C16: Streams stay sorted.  When all streams have strictly ascending identifiers, an \<open>XADD\<close> with any identifier but \<open>$\<close>, at
  any clock readings, keeps them so, whether it succeeds or fails; when it succeeds, the new entry is the last one and
  its identifier is greater than all others, and every other stream is unchanged.\<close>

theorem xadd_keeps_order:
  assumes "streams_sorted s" "i \<noteq> ''$''"
  shows "let (r, t) = xadd_steps stream i flds now1 now2 s in streams_sorted t \<and>
    (\<forall>j. r = Inr j \<longrightarrow> entries_of stream t = entries_of stream (purge stream now1 s) @ [\<lparr>EntryID = j, Fields = flds\<rparr>] \<and>
       (\<forall>e \<in> set (entries_of stream (purge stream now1 s)). id_of e < parseID j) \<and>
       (\<forall>k. k \<noteq> stream \<longrightarrow> entries_of k t = entries_of k s))"
proof -
  obtain r1 u where n: "Store_NextStreamID stream i now1 s = (r1, u)" by (cases "Store_NextStreamID stream i now1 s")
  have u: "streams_sorted u" using NextStreamID_sorted [OF assms(1), of stream i now1] n by simp
  have eu: "entries_of k u = entries_of k (purge stream now1 s)" for k
    using n by (auto simp: Store_NextStreamID_def locked_eqs prepare_entries [of k stream i now1 "purge stream now1 s", symmetric] split: if_splits)
  show ?thesis
  proof (cases r1)
    case (Inl err)
    with n u show ?thesis by (simp add: xadd_steps_def)
  next
    case (Inr j)
    have j: "j \<noteq> ''$''"
      using n Inr assms(2) format_id_ne
      by (auto simp: Store_NextStreamID_def locked_eqs prepareStreamIDLocked_def Let_def split: if_splits prod.splits)
    obtain r2 t where a: "Store_XAddPrepared stream j flds now2 u = (r2, t)" by (cases "Store_XAddPrepared stream j flds now2 u")
    have t: "streams_sorted t" using XAddPrepared_sorted [OF u j, of stream flds now2] a by simp
    show ?thesis
    proof (cases r2)
      case (Inl err)
      with n Inr a t show ?thesis by (simp add: xadd_steps_def)
    next
      case ok: (Inr x)
      have e: "entries_of k t = (if k = stream then entries_of stream u @ [\<lparr>EntryID = j, Fields = flds\<rparr>] else entries_of k u)" for k
        using XAddPrepared_entries [OF a [unfolded ok]] .
      have "stream_sorted (entries_of stream t)" using t by (simp add: streams_sorted_def)
      then have "\<forall>x \<in> set (entries_of stream u). id_of x < parseID j"
        by (auto simp: e stream_sorted_def sorted_wrt_append)
      then show ?thesis using n Inr a ok t e eu by (auto simp: xadd_steps_def entries_purge)
    qed
  qed
qed

lemma streams_sorted_New [simp]: "streams_sorted Store_New"
  by (simp add: streams_sorted_def entries_column)

theorem xadd_keeps_order_witness:
  "streams_sorted (snd (xadd_steps ''s'' ''5-1'' [''f'', ''v''] 7 8 Store_New))"
  using xadd_keeps_order [of Store_New "''5-1''" "''s''" "[''f'', ''v'']" 7 8] by (simp add: split_def Let_def)

lemma lastID_prepare: "lastIDLocked k (snd (prepareStreamIDLocked stream i now s)) = lastIDLocked k s"
  by (simp add: lastIDLocked_def prepare_entries)

lemma NextStreamID_star:
  assumes "\<not> list_ex (col_holds (live now s stream)) (KString # stream_kinds)"
  shows "\<exists>j t. Store_NextStreamID stream ''*'' now s = (Inr j, t) \<and> prepareStreamIDLocked stream ''*'' now (purge stream now s) = (Inr j, t)"
  using assms by (auto simp: Store_NextStreamID_def locked_eqs prepareStreamIDLocked_def Let_def split: prod.split)

lemma expires_prepare: "expires (snd (prepareStreamIDLocked stream i now s)) = expires s"
  by (simp add: prepareStreamIDLocked_def Let_def split: prod.split)

text \<open>C37: \<open>XADD *\<close> succeeds.  On a key that is free or holds a stream with sorted identifiers, whose deadline does not pass
  meanwhile, and unless the last sequence number is the largest there is, the generated identifier is accepted.\<close>

theorem xadd_star_succeeds:
  assumes "streams_sorted s" "\<not> bad_fields flds" "\<not> list_ex (col_holds (live now1 s stream)) (KString # stream_kinds)"
    "\<not> isExpiredRLocked stream now2 (purge stream now1 s)" "0 \<le> UnixMilli now1" "UnixMilli now1 < 2 ^ 63"
    "snd (parseID (lastIDLocked stream (purge stream now1 s))) < maxInt64"
  shows "\<exists>j t. xadd_steps stream ''*'' flds now1 now2 s = (Inr j, t)"
proof -
  let ?p = "purge stream now1 s"
  from NextStreamID_star [OF assms(3)] obtain j u where
    j: "Store_NextStreamID stream ''*'' now1 s = (Inr j, u)" "prepareStreamIDLocked stream ''*'' now1 ?p = (Inr j, u)" by blast
  have sp: "stream_sorted (entries_of stream ?p)" using streams_sorted_purge [OF assms(1)] by (simp add: streams_sorted_def)
  have "parseID (lastIDLocked stream ?p) < parseID j"
    using prepare_greater [OF j(2) sp _ assms(5,6)] assms(7) by simp
  moreover have last: "lastIDLocked stream u = lastIDLocked stream ?p"
    using lastID_prepare [of stream stream "''*''" now1 ?p] j(2) by simp
  moreover have "lastIDLocked stream u \<noteq> ''$''" using lastID_ne [OF sp] last by simp
  ultimately have cmp: "\<not> compareID j (lastIDLocked stream u) \<le> 0" by (simp add: compareID_less)
  have "expires u = expires ?p" using expires_prepare [of stream "''*''" now1 ?p] j(2) by simp
  then have "\<not> isExpiredRLocked stream now2 u" using assms(4) by (simp add: isExpired_column column_lookup [symmetric])
  with cmp assms(2) have "\<exists>t. Store_XAddPrepared stream j flds now2 u = (Inr (), t)"
    by (simp add: XAddPrepared_eq split: prod.split)
  with j(1) show ?thesis by (auto simp: xadd_steps_def)
qed

theorem xadd_star_succeeds_witness:
  "\<exists>j t. xadd_steps ''s'' ''*'' [''f'', ''v''] 7 8 Store_New = (Inr j, t)"
proof (rule xadd_star_succeeds)
  have "entries_of ''s'' Store_New = []" by (simp add: entries_column)
  then show "snd (parseID (lastIDLocked ''s'' (purge ''s'' 7 Store_New))) < maxInt64"
    by (simp add: lastIDLocked_def entries_purge parse_zero maxInt64_def)
qed (simp_all add: bad_fields_def live_def isExpired_column column_purge UnixMilli_def)

section \<open>Reading ranges\<close>

lemma stream_sorted_ids: "stream_sorted es \<Longrightarrow> sorted (map id_of es)"
  by (simp add: stream_sorted_def strict_sorted_iff)

lemma xrange_loop:
  "cnt \<le> 0 \<or> int (length out) < cnt \<Longrightarrow> xrange_loop end cnt out es =
     out @ (let xs = takeWhile (\<lambda>e. \<not> (end \<noteq> ''+'' \<and> 0 < compareID (EntryID e) end)) es
            in if 0 < cnt then take (nat cnt - length out) xs else xs)"
proof (induction es arbitrary: out)
  case (Cons e es)
  show ?case
  proof (cases "end \<noteq> ''+'' \<and> 0 < compareID (EntryID e) end")
    case True
    then show ?thesis by (simp add: Let_def)
  next
    case False
    show ?thesis
    proof (cases "0 < cnt \<and> cnt \<le> int (length (out @ [e]))")
      case True
      then have "nat cnt - length out = 1" using Cons.prems by auto
      with True False show ?thesis by (simp add: Let_def)
    next
      case more: False
      then have "cnt \<le> 0 \<or> int (length (out @ [e])) < cnt" by auto
      from Cons.IH [OF this] have "xrange_loop end cnt (out @ [e]) es = out @ [e] @
         (let xs = takeWhile (\<lambda>e. \<not> (end \<noteq> ''+'' \<and> 0 < compareID (EntryID e) end)) es
          in if 0 < cnt then take (nat cnt - length (out @ [e])) xs else xs)" by simp
      moreover have "0 < cnt \<Longrightarrow> nat cnt - length out = Suc (nat cnt - length (out @ [e]))" using more by auto
      ultimately show ?thesis using False more by (auto simp: Let_def)
    qed
  qed
qed (simp add: Let_def)

lemma drop_begin:
  assumes "stream_sorted es"
  shows "drop (if start \<noteq> ''-'' then sort_Search (length es) (\<lambda>i. 0 \<le> compareID (EntryID (es ! i)) start) else 0) es =
    filter (\<lambda>e. start = ''-'' \<or> \<not> compareID (EntryID e) start < 0) es"
proof (cases "start = ''-'' \<or> start = ''$''")
  case True
  have "sort_Search (length es) (\<lambda>i. True) = 0" using sort_Search_split [of es "[]" es "\<lambda>_. True"] by simp
  with True show ?thesis by auto
next
  case False
  with drop_search_sorted_filter [OF stream_sorted_ids [OF assms], of "parseID start"] show ?thesis
    by (simp add: compareID_less not_less)
qed

lemma takeWhile_end:
  assumes "stream_sorted es"
  shows "takeWhile (\<lambda>e. \<not> (end \<noteq> ''+'' \<and> 0 < compareID (EntryID e) end)) es =
    filter (\<lambda>e. end = ''+'' \<or> \<not> 0 < compareID (EntryID e) end) es"
proof (cases "end = ''+'' \<or> end = ''$''")
  case True
  have "takeWhile (\<lambda>e. False) es = []" by (cases es) simp_all
  moreover have "takeWhile (\<lambda>e. True) es = es" by (simp add: takeWhile_eq_all_conv)
  ultimately show ?thesis using True by auto
next
  case False
  with takeWhile_sorted_filter [OF stream_sorted_ids [OF assms], of "parseID end"] show ?thesis
    by (simp add: compareID_less not_less)
qed

lemma stream_sorted_filter: "stream_sorted es \<Longrightarrow> stream_sorted (filter P es)"
  by (auto simp: stream_sorted_def sorted_wrt_map sorted_wrt_filter)

text \<open>C18: \<open>XRANGE\<close> answers exactly the entries between its bounds, in order, at most \<open>COUNT\<close> of them when a positive count is
  given; the binary search and the early exits lose nothing because the stream is sorted.\<close>

theorem xrange_filters:
  assumes "stream_sorted (entries_of stream s)" "\<not> isExpiredRLocked stream now s"
  shows "Store_XRange stream start end cnt now s =
    limit 0 cnt (filter (\<lambda>e. inRange (EntryID e) start end) (entries_of stream s))"
proof -
  let ?es = "entries_of stream s"
  let ?from = "filter (\<lambda>e. start = ''-'' \<or> \<not> compareID (EntryID e) start < 0) ?es"
  have "filter (\<lambda>e. end = ''+'' \<or> \<not> 0 < compareID (EntryID e) end) ?from = filter (\<lambda>e. inRange (EntryID e) start end) ?es"
    by (auto simp: inRange_def intro!: filter_cong)
  then have tw: "takeWhile (\<lambda>e. \<not> (end \<noteq> ''+'' \<and> 0 < compareID (EntryID e) end)) ?from = filter (\<lambda>e. inRange (EntryID e) start end) ?es"
    by (simp only: takeWhile_end [OF stream_sorted_filter [OF assms(1)]])
  have c: "cnt \<le> 0 \<or> int (length []) < cnt" by auto
  have "xrange_loop end cnt [] (drop (if start \<noteq> ''-'' then sort_Search (length ?es) (\<lambda>i. 0 \<le> compareID (EntryID (?es ! i)) start) else 0) ?es) =
      limit 0 cnt (filter (\<lambda>e. inRange (EntryID e) start end) ?es)"
    unfolding drop_begin [OF assms(1)] xrange_loop [OF c] tw by (simp add: limit_def Let_def)
  then show ?thesis using assms(2) by (auto simp: Store_XRange_def Let_def limit_def)
qed

theorem xrange_filters_witness:
  "Store_XRange ''s'' ''1'' ''+'' 5 7 (Store_New\<lparr>streams := fmupd ''s'' [\<lparr>EntryID = ''0-1'', Fields = []\<rparr>] fmempty\<rparr>) =
     limit 0 5 (filter (\<lambda>e. inRange (EntryID e) ''1'' ''+'') [\<lparr>EntryID = ''0-1'', Fields = []\<rparr>])"
proof -
  let ?s = "Store_New\<lparr>streams := fmupd ''s'' [\<lparr>EntryID = ''0-1'', Fields = []\<rparr>] fmempty\<rparr>"
  have e: "entries_of ''s'' ?s = [\<lparr>EntryID = ''0-1'', Fields = []\<rparr>]" by (simp add: entries_of_def)
  have "\<not> isExpiredRLocked ''s'' 7 ?s" by (simp add: isExpiredRLocked_def Store_New_def)
  then show ?thesis using xrange_filters [of "''s''" ?s 7 "''1''" "''+''" 5] by (simp add: e stream_sorted_def)
qed

lemma pair_less_int: "(a, b) < (c, d) \<longleftrightarrow> (a, b + 1) \<le> (c, d)" for a b c d :: int
  by (auto simp: less_prod_def less_eq_prod_def)

lemma drop_search_after:
  assumes "stream_sorted es" "i \<noteq> ''$''"
  shows "drop (searchStreamStart es i) es = filter (\<lambda>e. parseID i < id_of e) es"
proof -
  obtain a b where ab: "parseID i = (a, b)" by (cases "parseID i")
  have less: "parseID i < x \<longleftrightarrow> (a, b + 1) \<le> x" for x using ab pair_less_int by (cases x) simp
  show ?thesis
    using drop_search_sorted_filter [OF stream_sorted_ids [OF assms(1)], of "(a, b + 1)"]
    by (simp add: searchStreamStart_def compareID_less [OF assms(2)] less)
qed

abbreviation after :: "string \<Rightarrow> StreamEntry list \<Rightarrow> StreamEntry list" where
  "after i es \<equiv> filter (\<lambda>e. parseID i < id_of e) es"

lemma xread1_lookup:
  assumes "stream_sorted (entries_of j s)" "i \<noteq> ''$''" "fmlookup out j = None"
  shows "fmlookup (xread1 now s (j, i) out) l =
    (if l = j then if isExpiredRLocked j now s \<or> after i (entries_of j s) = [] then None else Some (after i (entries_of j s))
     else fmlookup out l)"
  unfolding xread1_def case_prod_conv Let_def drop_search_after [OF assms(1,2)] using assms(3) by (simp add: append_out_def)

lemma xread_lookup:
  assumes "\<forall>q \<in> set queries. stream_sorted (entries_of (fst q) s) \<and> snd q \<noteq> ''$''" "distinct (map fst queries)"
    "\<forall>q \<in> set queries. fmlookup out (fst q) = None"
  shows "fmlookup (fold (xread1 now s) queries out) k =
    (case map_of queries k of
       None \<Rightarrow> fmlookup out k
     | Some i \<Rightarrow> if isExpiredRLocked k now s \<or> after i (entries_of k s) = [] then None else Some (after i (entries_of k s)))"
  using assms
proof (induction queries arbitrary: out)
  case (Cons q queries)
  obtain j i where q: "q = (j, i)" by (cases q)
  have look: "fmlookup (xread1 now s q out) l =
      (if l = j then if isExpiredRLocked j now s \<or> after i (entries_of j s) = [] then None else Some (after i (entries_of j s))
       else fmlookup out l)" for l
    using Cons.prems q by (simp add: xread1_lookup)
  have none: "j \<notin> fst ` set queries" using Cons.prems(2) q by simp
  then have mo: "map_of queries j = None" by (simp add: map_of_eq_None_iff)
  have "\<forall>p \<in> set queries. fmlookup (xread1 now s q out) (fst p) = None"
    unfolding look using Cons.prems(3) none by force
  then show ?case using Cons.IH [of "xread1 now s q out"] Cons.prems q look mo by (cases "k = j"; cases "map_of queries k") simp_all
qed simp

text \<open>C19: \<open>XREAD\<close> answers for each stream the entries after the given identifier, all of them and in order; a stream that
  has none is not in the answer.\<close>

theorem xread_after:
  assumes "\<forall>q \<in> set queries. stream_sorted (entries_of (fst q) s) \<and> snd q \<noteq> ''$''" "distinct (map fst queries)"
  shows "fmlookup (Store_XRead queries now s) k =
    (case map_of queries k of
       None \<Rightarrow> None
     | Some i \<Rightarrow> if isExpiredRLocked k now s \<or> after i (entries_of k s) = [] then None else Some (after i (entries_of k s)))"
  using xread_lookup [OF assms, of fmempty now k] by (cases "map_of queries k") (simp_all add: Store_XRead_def)

theorem xread_after_witness:
  "fmlookup (Store_XRead [(''s'', ''0-0'')] 9 (snd (Store_XAddPrepared ''s'' ''5-1'' [''f'', ''v''] 7 Store_New))) ''s'' =
     Some [\<lparr>EntryID = ''5-1'', Fields = [''f'', ''v'']\<rparr>]"
proof -
  define s where "s = snd (Store_XAddPrepared ''s'' ''5-1'' [''f'', ''v''] 7 Store_New)"
  note s = one_entry [OF s_def]
  have "\<forall>q \<in> set [(''s'', ''0-0'')]. stream_sorted (entries_of (fst q) s) \<and> snd q \<noteq> ''$''" using s(5) by simp
  from xread_after [OF this, of 9 "''s''"] show ?thesis
    unfolding s_def [symmetric] by (simp add: s(2-4) isExpired_column parse_zero)
qed

section \<open>Reading by a group\<close>

text \<open>The steps of \<open>XREADGROUP\<close> without \<open>BLOCK\<close> in the server, at one reading of the clock: plan, then record the delivery stream
  by stream; the appends to the log succeed.\<close>

definition xreadgroup_steps ::
  "string \<Rightarrow> string \<Rightarrow> (key \<times> string) list \<Rightarrow> int \<Rightarrow> gotime \<Rightarrow> store \<Rightarrow> StreamEntry list gomap res \<times> store" where
  "xreadgroup_steps g consumer queries cnt now s =
     (case Store_XReadGroupPlan g consumer queries cnt now s of
        Inl err \<Rightarrow> (Inl err, s)
      | Inr results \<Rightarrow>
          (Inr results,
           fold (\<lambda>stream s. snd (Store_XGroupDeliver stream g consumer
                   (map EntryID (the (fmlookup results stream))) now now s)) (sorted_keys results) s))"

text \<open>One consumer after the other asks for new entries of one stream.\<close>

fun group_reads :: "key \<Rightarrow> string \<Rightarrow> (string \<times> int \<times> gotime) list \<Rightarrow> store \<Rightarrow> StreamEntry list list \<times> store" where
  "group_reads stream g [] s = ([], s)"
| "group_reads stream g ((consumer, cnt, now) # rs) s =
     (case xreadgroup_steps g consumer [(stream, ''>'')] cnt now s of
        (Inl err, s) \<Rightarrow> (case group_reads stream g rs s of (bs, s) \<Rightarrow> ([] # bs, s))
      | (Inr out, s) \<Rightarrow>
          (case group_reads stream g rs s of (bs, s) \<Rightarrow> ((case fmlookup out stream of None \<Rightarrow> [] | Some b \<Rightarrow> b) # bs, s)))"

lemma group_put [simp]: "group_of stream g (touchKeyLocked ks now (put_group stream g cg s)) = Some cg"
  by (simp add: group_of_def put_group_def)

lemma entries_put [simp]: "entries_of k (put_group stream g cg s) = entries_of k s"
  by (simp add: put_group_def)

lemma column_put_group [simp]: "column (put_group stream g cg s) k = column s k"
  by (simp add: put_group_def)

definition batch :: "string \<Rightarrow> int \<Rightarrow> StreamEntry list \<Rightarrow> StreamEntry list" where
  "batch lastID cnt es = take (nat (if cnt \<le> 0 then 10 else cnt)) (filter (\<lambda>e. parseID lastID < id_of e) es)"

lemma xreadgroup_one:
  assumes "group_of stream g s = Some cg" "stream_sorted (entries_of stream s)" "LastID cg \<noteq> ''$''" "\<not> isExpiredRLocked stream now s"
    and b_def: "b = batch (LastID cg) cnt (entries_of stream s)"
  shows "\<exists>out t. xreadgroup_steps g consumer [(stream, ''>'')] cnt now s = (Inr out, t) \<and>
    (case fmlookup out stream of None \<Rightarrow> [] | Some b \<Rightarrow> b) = b \<and>
    group_of stream g t = Some (fold (deliver1 consumer now) (map EntryID b) cg) \<and>
    (\<forall>k. entries_of k t = entries_of k s) \<and> (\<forall>k. column t k = column s k)"
proof -
  have room: "nat (max 1 ((if cnt \<le> 0 then 10 else cnt) - int 0)) = nat (if cnt \<le> 0 then 10 else cnt)" by auto
  have plan: "Store_XReadGroupPlan g consumer [(stream, ''>'')] cnt now s = Inr (append_out stream b fmempty)"
    using assms(1,4) drop_search_after [OF assms(2,3)]
    by (simp add: Store_XReadGroupPlan_def group_entries_def out_len_def b_def batch_def Let_def room del: One_nat_def)
  show ?thesis
  proof (cases "b = []")
    case True
    then show ?thesis using plan assms(1) by (simp add: xreadgroup_steps_def append_out_def)
  next
    case False
    have keys: "sorted_keys (append_out stream b fmempty) = [stream]"
      using False by (simp add: append_out_def)
    have look: "fmlookup (append_out stream b fmempty) stream = Some b" using False by (simp add: append_out_def)
    have z: "(if IsZero now then now else now) = now" by simp
    show ?thesis
      using plan assms(1) by (simp add: xreadgroup_steps_def keys look Store_XGroupDeliver_def Let_def z)
  qed
qed

lemma deliver1_simps [simp]:
  "Pending (deliver1 consumer now i g) = fmupd i \<lparr>Consumer = consumer, Delivered = now\<rparr> (Pending g)"
  "LastID g \<noteq> ''$'' \<Longrightarrow> LastID (deliver1 consumer now i g) = (if parseID (LastID g) < parseID i then i else LastID g)"
  by (simp_all add: deliver1_def Let_def compareID_less)

lemma fold_deliver:
  assumes "stream_sorted b" "\<forall>e \<in> set b. parseID (LastID g) < id_of e" "LastID g \<noteq> ''$''"
  shows "LastID (fold (deliver1 consumer now) (map EntryID b) g) = (if b = [] then LastID g else EntryID (last b)) \<and>
    Pending (fold (deliver1 consumer now) (map EntryID b) g) =
      fold (\<lambda>e. fmupd (EntryID e) \<lparr>Consumer = consumer, Delivered = now\<rparr>) b (Pending g)"
  using assms
proof (induction b arbitrary: g)
  case (Cons e b)
  have step: "LastID (deliver1 consumer now (EntryID e) g) = EntryID e" using Cons.prems by simp
  have "stream_sorted b" "\<forall>x \<in> set b. id_of e < id_of x" "EntryID e \<noteq> ''$''"
    using Cons.prems(1) by (auto simp: stream_sorted_def)
  with Cons.IH [of "deliver1 consumer now (EntryID e) g"] step show ?case by simp
qed simp

lemma filter_after_drop:
  assumes "stream_sorted es" "n \<le> length es" "0 < n"
  shows "after (EntryID (last (take n es))) es = drop n es"
proof -
  have s: "sorted_wrt (\<lambda>a b. id_of a < id_of b) (take n es @ drop n es)" using assms(1) by (simp add: stream_sorted_def sorted_wrt_map)
  have ne: "take n es \<noteq> []" using assms(2,3) by auto
  have "after (EntryID (last (take n es))) (take n es) = []"
  proof -
    have "\<not> id_of (last (take n es)) < id_of e" if "e \<in> set (take n es)" for e
    proof -
      have "take n es = butlast (take n es) @ [last (take n es)]" using ne by simp
      then have "e = last (take n es) \<or> id_of e < id_of (last (take n es))"
        using s that by (metis (no_types, lifting) UnE empty_iff list.set(1) list.set_intros(1) set_ConsD set_append sorted_wrt_append)
      then show ?thesis by auto
    qed
    then show ?thesis by (simp add: filter_empty_conv)
  qed
  moreover have "after (EntryID (last (take n es))) (drop n es) = drop n es"
    using s last_in_set [OF ne] unfolding sorted_wrt_append filter_id_conv by blast
  ultimately show ?thesis by (metis append_take_drop_id filter_append self_append_conv2)
qed

lemma after_batch:
  assumes "stream_sorted es"
  shows "after (if batch i cnt es = [] then i else EntryID (last (batch i cnt es))) es = drop (length (batch i cnt es)) (after i es)"
proof (cases "batch i cnt es = []")
  case False
  let ?x = "EntryID (last (batch i cnt es))"
  define n where "n = length (batch i cnt es)"
  have b: "batch i cnt es = take n (after i es)" by (simp add: n_def batch_def min_def)
  have "last (batch i cnt es) \<in> set (after i es)" using last_in_set [OF False] unfolding b by (auto dest: in_set_takeD)
  then have "parseID i < parseID ?x" by auto
  then have "after ?x es = after ?x (after i es)" by (auto simp: filter_filter intro!: filter_cong)
  also have "\<dots> = drop n (after i es)"
  proof -
    have "n \<le> length (after i es)" "0 < n" using False by (auto simp: n_def batch_def)
    from filter_after_drop [OF stream_sorted_filter [OF assms] this] show ?thesis by (simp add: b)
  qed
  finally show ?thesis using False by (simp add: n_def)
qed simp

text \<open>C17: A consumer group hands out every entry once and in order.  When the consumers of a group ask one after the other for
  new entries of a stream, with any counts, the batches they get, put together, are a prefix of the entries after the
  group's position, and together as long as the counts allow: no entry is skipped and none goes to two consumers.\<close>

theorem group_reads_partition:
  assumes "group_of stream g s = Some cg" "stream_sorted (entries_of stream s)" "LastID cg \<noteq> ''$''"
    "cExp (column s stream) = None" "\<forall>(c, cnt, now) \<in> set rs. 0 < cnt"
  shows "concat (fst (group_reads stream g rs s)) =
    take (sum_list (map (\<lambda>(c, cnt, now). nat cnt) rs)) (after (LastID cg) (entries_of stream s))"
  using assms
proof (induction rs arbitrary: s cg)
  case (Cons r rs)
  obtain c cnt now where r: "r = (c, cnt, now)" by (cases r)
  let ?es = "entries_of stream s"
  let ?b = "batch (LastID cg) cnt ?es"
  have fresh: "\<not> isExpiredRLocked stream now s" using Cons.prems(4) by (simp add: isExpired_column)
  from xreadgroup_one [OF Cons.prems(1-3) fresh refl] obtain out t where
    t: "xreadgroup_steps g c [(stream, ''>'')] cnt now s = (Inr out, t)" "(case fmlookup out stream of None \<Rightarrow> [] | Some b \<Rightarrow> b) = ?b"
    "group_of stream g t = Some (fold (deliver1 c now) (map EntryID ?b) cg)" "\<forall>k. entries_of k t = entries_of k s" "\<forall>k. column t k = column s k"
    by blast
  let ?cg = "fold (deliver1 c now) (map EntryID ?b) cg"
  have "stream_sorted ?b" unfolding batch_def using Cons.prems(2)
    by (auto simp: stream_sorted_def sorted_wrt_map sorted_wrt_filter sorted_wrt_take dest!: in_set_takeD)
  moreover have "\<forall>e \<in> set ?b. parseID (LastID cg) < id_of e" by (auto simp: batch_def dest!: in_set_takeD)
  ultimately have last: "LastID ?cg = (if ?b = [] then LastID cg else EntryID (last ?b))"
    using fold_deliver Cons.prems(3) by blast
  have "EntryID e \<noteq> ''$''" if "e \<in> set ?b" for e using that Cons.prems(2) by (auto simp: batch_def stream_sorted_def dest!: in_set_takeD)
  then have ne: "LastID ?cg \<noteq> ''$''" using last Cons.prems(3) by simp
  have "concat (fst (group_reads stream g rs t)) =
      take (sum_list (map (\<lambda>(c, cnt, now). nat cnt) rs)) (after (LastID ?cg) (entries_of stream t))"
    using Cons.IH [OF t(3)] t(4,5) Cons.prems ne by simp
  also have "after (LastID ?cg) (entries_of stream t) = drop (length ?b) (after (LastID cg) ?es)"
    using t(4) after_batch [OF Cons.prems(2)] by (simp add: last)
  finally have "concat (fst (group_reads stream g rs t)) =
      take (sum_list (map (\<lambda>(c, cnt, now). nat cnt) rs)) (drop (length ?b) (after (LastID cg) ?es))" .
  moreover have "?b = take (nat cnt) (after (LastID cg) ?es)" using Cons.prems(5) r by (simp add: batch_def)
  moreover from this have "drop (length ?b) (after (LastID cg) ?es) = drop (nat cnt) (after (LastID cg) ?es)" by (simp add: min_def)
  ultimately show ?case using t(1,2) by (simp add: r take_add split_def)
qed simp

theorem group_reads_partition_witness:
  "concat (fst (group_reads ''s'' ''g'' [(''c'', 1, 8), (''d'', 1, 9)]
     (snd (Store_XGroupCreate ''s'' ''g'' ''0-0'' True 8 (snd (Store_XAddPrepared ''s'' ''5-1'' [''f'', ''v''] 7 Store_New)))))) =
   [\<lparr>EntryID = ''5-1'', Fields = [''f'', ''v'']\<rparr>]"
proof -
  define s where "s = snd (Store_XAddPrepared ''s'' ''5-1'' [''f'', ''v''] 7 Store_New)"
  note s = one_entry [OF s_def]
  define t where "t = snd (Store_XGroupCreate ''s'' ''g'' ''0-0'' True 8 s)"
  have p: "purge ''s'' 8 s = s" "live 8 s ''s'' = column s ''s''" by (simp_all add: purge_def live_def isExpired_column s(3))
  have st: "groups s = fmempty" using s(1)
    by (auto simp: XAddPrepared_eq addStreamEntryLocked_def close_all_def Let_def Store_New_def split: if_splits)
  have "group_of ''s'' ''g'' t = Some \<lparr>LastID = ''0-0'', Pending = fmempty\<rparr> \<and> column t ''s'' = column s ''s''"
    by (simp add: t_def Store_XGroupCreate_def locked_eqs p st s(3) Let_def groups_at_def stream_kinds_def column_lookup [symmetric])
  then have g: "group_of ''s'' ''g'' t = Some \<lparr>LastID = ''0-0'', Pending = fmempty\<rparr>" and c: "column t ''s'' = column s ''s''" by simp_all
  have e: "entries_of ''s'' t = entries_of ''s'' s" by (simp add: entries_column c)
  have pre: "stream_sorted (entries_of ''s'' t)" "LastID \<lparr>LastID = ''0-0'', Pending = fmempty\<rparr> \<noteq> ''$''" "cExp (column t ''s'') = None"
    "\<forall>(c, cnt, now) \<in> set [(''c'', 1::int, 8::gotime), (''d'', 1, 9)]. 0 < cnt"
    using s(5) by (simp_all add: e c s(3))
  from group_reads_partition [OF g pre] show ?thesis
    unfolding s_def [symmetric] t_def [symmetric] by (simp add: e s(2,4) parse_zero)
qed

section \<open>What goes wrong\<close>

lemma xadd_accepts:
  assumes "\<not> bad_fields flds" "\<not> list_ex (col_holds (column s stream)) (KString # stream_kinds)" "cExp (column s stream) = None"
    and i: "i \<noteq> ''*''" "\<not> compareID i (lastIDLocked stream s) \<le> 0"
  shows "\<exists>t. xadd_steps stream i flds now1 now2 s = (Inr i, t) \<and>
    column t stream = (column s stream)\<lparr>cStream := Some (entries_of stream s @ [\<lparr>EntryID = i, Fields = flds\<rparr>])\<rparr>"
proof -
  let ?u = "s\<lparr>lastSeq := fmupd stream (snd (parseID i)) (lastSeq s)\<rparr>"
  have f: "\<not> isExpiredRLocked stream now s" for now using assms(3) by (simp add: isExpired_column)
  have c: "column ?u k = column s k" for k by (simp add: column_def)
  have e: "entries_of stream ?u = entries_of stream s" "lastIDLocked stream ?u = lastIDLocked stream s"
    by (simp_all add: entries_column lastIDLocked_def c)
  have "Store_NextStreamID stream i now1 s = (Inr i, ?u)"
    using assms f by (simp add: Store_NextStreamID_def locked_eqs purge_id live_def prepareStreamIDLocked_def)
  moreover have "\<not> isExpiredRLocked stream now2 ?u" using f by (simp add: isExpired_column c)
  ultimately show ?thesis
    using XAddPrepared_accepts [OF assms(1), of stream now2 ?u i] i(2) by (auto simp: xadd_steps_def e c)
qed

text \<open>\<open>XADD\<close> accepts \<open>$\<close> as an identifier, and after it identifiers that are not greater than the previous ones.  On a key
  that is free or holds a stream without a deadline, whose last identifier is below the value that \<open>parseID\<close> gives to \<open>$\<close>, an
  \<open>XADD\<close> of \<open>$\<close> followed by an \<open>XADD\<close> of any explicit identifier below that value succeed both, also when the second
  identifier was used before, and the identifiers of the stream are no longer ascending.\<close>

theorem xadd_dollar_breaks_order:
  assumes "\<not> bad_fields flds" "\<not> list_ex (col_holds (column s stream)) (KString # stream_kinds)" "cExp (column s stream) = None"
    and "lastIDLocked stream s \<noteq> ''$''" "parseID (lastIDLocked stream s) < parseID ''$''" "i \<noteq> ''*''" "parseID i < parseID ''$''"
  shows "let (r1, t) = xadd_steps stream ''$'' flds now1 now2 s; (r2, u) = xadd_steps stream i flds now3 now4 t in
    r1 = Inr ''$'' \<and> r2 = Inr i \<and>
    entries_of stream u = entries_of stream s @ [\<lparr>EntryID = ''$'', Fields = flds\<rparr>, \<lparr>EntryID = i, Fields = flds\<rparr>] \<and>
    \<not> sorted_wrt (<) (map id_of (entries_of stream u))"
proof -
  have c1: "\<not> compareID ''$'' (lastIDLocked stream s) \<le> 0" using assms(5) by (simp add: compareID_less(3) [OF assms(4)])
  from xadd_accepts [OF assms(1-3) _ c1, of now1 now2] obtain t where
    t: "xadd_steps stream ''$'' flds now1 now2 s = (Inr ''$'', t)"
      "column t stream = (column s stream)\<lparr>cStream := Some (entries_of stream s @ [\<lparr>EntryID = ''$'', Fields = flds\<rparr>])\<rparr>" by auto
  have e: "entries_of stream t = entries_of stream s @ [\<lparr>EntryID = ''$'', Fields = flds\<rparr>]" by (simp add: entries_column t(2))
  then have "lastIDLocked stream t = ''$''" by (simp add: lastIDLocked_def Let_def)
  then have c2: "\<not> compareID i (lastIDLocked stream t) \<le> 0" by simp
  have "\<not> list_ex (col_holds (column t stream)) (KString # stream_kinds)" "cExp (column t stream) = None"
    using assms(2,3) by (auto simp: t(2) stream_kinds_def)
  from xadd_accepts [OF assms(1) this assms(6) c2, of now3 now4] obtain u where
    u: "xadd_steps stream i flds now3 now4 t = (Inr i, u)"
      "column u stream = (column t stream)\<lparr>cStream := Some (entries_of stream t @ [\<lparr>EntryID = i, Fields = flds\<rparr>])\<rparr>" by auto
  have "entries_of stream u = entries_of stream s @ [\<lparr>EntryID = ''$'', Fields = flds\<rparr>, \<lparr>EntryID = i, Fields = flds\<rparr>]"
    by (simp add: entries_column [of stream u] u(2) e)
  moreover from this have "\<not> sorted_wrt (<) (map id_of (entries_of stream u))"
    using assms(7) by (auto simp: sorted_wrt_append)
  ultimately show ?thesis by (simp add: t(1) u(1))
qed

theorem xadd_dollar_breaks_order_witness:
  "let s = snd (Store_XAddPrepared ''s'' ''5-1'' [''f'', ''v''] 7 Store_New);
       (r1, t) = xadd_steps ''s'' ''$'' [''f'', ''v''] 8 8 s; (r2, u) = xadd_steps ''s'' ''5-1'' [''f'', ''v''] 9 9 t in
   r1 = Inr ''$'' \<and> r2 = Inr ''5-1'' \<and> map EntryID (entries_of ''s'' u) = [''5-1'', ''$'', ''5-1'']"
proof -
  define s where "s = snd (Store_XAddPrepared ''s'' ''5-1'' [''f'', ''v''] 7 Store_New)"
  note s = one_entry [OF s_def]
  have l: "lastIDLocked ''s'' s = ''5-1''" by (simp add: lastIDLocked_def s(4) Let_def)
  have d: "parseID ''$'' = (2 ^ 62 - 1, 2 ^ 62 - 1)" by (simp add: parseID_def)
  have pre: "\<not> bad_fields [''f'', ''v'']" "\<not> list_ex (col_holds (column s ''s'')) (KString # stream_kinds)" "cExp (column s ''s'') = None"
    "lastIDLocked ''s'' s \<noteq> ''$''" "parseID (lastIDLocked ''s'' s) < parseID ''$''" "''5-1'' \<noteq> ''*''" "parseID ''5-1'' < parseID ''$''"
    by (simp_all add: bad_fields_def s(2,3) stream_kinds_def l d)
  from xadd_dollar_breaks_order [OF pre, of 8 8 9 9] show ?thesis
    unfolding s_def [symmetric] by (simp add: s(4) split: prod.splits)
qed

text \<open>\<open>XTRIM\<close> with a negative length panics on every stream, also one that does not exist, and nothing in the server checks
  the length or recovers.\<close>

theorem xtrim_negative_panics:
  assumes "- (2 ^ 62) \<le> maxLen" "maxLen < 0" "int (length (entries_of stream s)) < 2 ^ 62"
  shows "fst (Store_XTrim stream maxLen now s) = Inl (Panic ''slice bounds out of range'')"
proof -
  have "wrap64 (int (length (entries_of stream s)) - maxLen) = int (length (entries_of stream s)) - maxLen"
    using assms by (intro wrap64_id) (simp add: int64_def)
  then show ?thesis using assms(2) by (simp add: Store_XTrim_def Let_def)
qed

theorem xtrim_negative_panics_witness:
  "fst (Store_XTrim ''s'' (-1) 5 Store_New) = Inl (Panic ''slice bounds out of range'')"
  by (rule xtrim_negative_panics) (simp_all add: entries_column)

text \<open>The read of one stream.\<close>

lemma XRead_one:
  assumes "stream_sorted (entries_of stream s)" "i \<noteq> ''$''"
  shows "fmlookup (Store_XRead [(stream, i)] now s) k =
    (if k \<noteq> stream \<or> isExpiredRLocked stream now s \<or> after i (entries_of stream s) = [] then None else Some (after i (entries_of stream s)))"
  using xread_lookup [of "[(stream, i)]" s fmempty now k] assms by (auto simp: Store_XRead_def)

text \<open>A blocked \<open>XREAD\<close> can miss an entry.  The server reads, and registers its waiter only afterwards, in another critical
  section.  When nobody waits for the stream and another client adds an entry between the two, the addition wakes
  nobody: the reader goes to sleep although the stream has an entry for it, and stays asleep until something
  else closes its waiter or the block time is over.\<close>

theorem xread_misses_wakeup:
  assumes "stream_sorted (entries_of stream s)" "i \<noteq> ''$''" "after i (entries_of stream s) = []"
    and "j \<noteq> ''$''" "parseID i < parseID j" "Store_XAddPrepared stream j flds now2 s = (Inr (), t)"
    and "nextWaiter s |\<notin>| closed s" "fmlookup (waits s) stream = None" "cExp (column s stream) = None"
  shows "xread_step [(stream, i)] True False now1 XReading s = (XEmpty, s) \<and>
    (\<exists>w u. xread_step [(stream, i)] True False now3 XEmpty t = (XAsleep w, u) \<and>
       (\<forall>now. xread_step [(stream, i)] True False now (XAsleep w) u = (XAsleep w, u)) \<and>
       fmlookup (Store_XRead [(stream, i)] now3 u) stream = Some [\<lparr>EntryID = j, Fields = flds\<rparr>])"
proof -
  have "Store_XRead [(stream, i)] now1 s = fmempty"
    using XRead_one [OF assms(1,2)] assms(3) by (intro fmap_ext) simp
  then have first: "xread_step [(stream, i)] True False now1 XReading s = (XEmpty, s)" by simp
  obtain ws v where v: "addStreamEntryLocked stream j flds now2 (s\<lparr>lastSeq := fmupd stream (snd (parseID j)) (lastSeq s)\<rparr>) = (ws, v)"
    "t = close_all ws v" "\<not> compareID j (lastIDLocked stream s) \<le> 0"
    using assms(6) by (auto simp: XAddPrepared_eq split: if_splits prod.splits)
  have ws: "ws = []" "closed v = closed s" "nextWaiter v = nextWaiter s" "expires v = expires s"
    using v(1) assms(8) by (auto simp: addStreamEntryLocked_def Let_def)
  have t: "closed t = closed s" "nextWaiter t = nextWaiter s" "expires t = expires s" using v(2) ws by (simp_all add: close_all_def)
  obtain w u x where u: "Wait_start [stream] t = (w, u)" and "w = nextWaiter t" "u = t\<lparr>nextWaiter := nextWaiter t + 1, waits := x\<rparr>"
    by (simp add: Wait_start_def Let_def)
  then have w: "w = nextWaiter s" "closed u = closed s" "streams u = streams t" "expires u = expires s"
    using t by simp_all
  have e: "entries_of stream u = entries_of stream s @ [\<lparr>EntryID = j, Fields = flds\<rparr>]"
    using XAddPrepared_entries [OF assms(6), of stream] w(3) by (simp add: entries_of_def)
  have "stream_sorted (entries_of stream u)"
    unfolding e using greater_last [OF assms(1) v(3)] by (intro stream_sorted_snoc assms(1,4))
  from XRead_one [OF this assms(2)] have "fmlookup (Store_XRead [(stream, i)] now3 u) stream = Some [\<lparr>EntryID = j, Fields = flds\<rparr>]"
    using assms(3,5,9) w(4) by (simp add: e isExpiredRLocked_def column_lookup)
  with first u w assms(7) show ?thesis by simp
qed

theorem xread_misses_wakeup_witness:
  "\<exists>w u. xread_step [(''s'', ''0-0'')] True False 8 XEmpty (snd (Store_XAddPrepared ''s'' ''5-1'' [''f'', ''v''] 7 Store_New)) = (XAsleep w, u) \<and>
     fmlookup (Store_XRead [(''s'', ''0-0'')] 8 u) ''s'' = Some [\<lparr>EntryID = ''5-1'', Fields = [''f'', ''v'']\<rparr>]"
proof -
  define t where "t = snd (Store_XAddPrepared ''s'' ''5-1'' [''f'', ''v''] 7 Store_New)"
  note s = one_entry [OF t_def]
  have e: "entries_of ''s'' Store_New = []" by (simp add: entries_column)
  have pre: "stream_sorted (entries_of ''s'' Store_New)" "''0-0'' \<noteq> ''$''" "after ''0-0'' (entries_of ''s'' Store_New) = []"
    "''5-1'' \<noteq> ''$''" "parseID ''0-0'' < parseID ''5-1''" by (simp_all add: e s(2) parse_zero)
  have new: "nextWaiter Store_New |\<notin>| closed Store_New" "fmlookup (waits Store_New) ''s'' = None" "cExp (column Store_New ''s'') = None"
    by (simp_all add: Store_New_def column_def)
  from xread_misses_wakeup [OF pre s(1) new, of 6 8] show ?thesis unfolding t_def by blast
qed

section \<open>Tracking and the invariant\<close>

lemma addStreamEntry_form:
  "\<exists>x. snd (addStreamEntryLocked stream i flds now s) = (touchKeyLocked [stream] now
     (s\<lparr>streams := fmupd stream (entries_of stream s @ [\<lparr>EntryID = i, Fields = flds\<rparr>]) (streams s)\<rparr>))\<lparr>waits := x\<rparr>"
  by (auto simp: addStreamEntryLocked_def Let_def)

lemma tracked_ignores [simp]:
  "tracked K s (t\<lparr>waits := x\<rparr>) = tracked K s t" "tracked K s (t\<lparr>lastSeq := y\<rparr>) = tracked K s t"
  "tracked K s (close_all ws t) = tracked K s t" "tracked K s (t\<lparr>groups := gs\<rparr>) = tracked K s t"
  by (simp_all add: tracked_def getVersion_def close_all_def)

lemma addStreamEntry_tracked: "tracked {stream} s (snd (addStreamEntryLocked stream i flds now (s\<lparr>lastSeq := x\<rparr>)))"
  using addStreamEntry_form [of stream i flds now "s\<lparr>lastSeq := x\<rparr>"] by (auto intro!: tracked_touch)

lemma prepare_form: "\<exists>x. snd (prepareStreamIDLocked stream i now s) = s\<lparr>lastSeq := x\<rparr>"
proof (cases "i \<noteq> ''*'' \<and> compareID i (lastIDLocked stream s) \<le> 0")
  case True
  then have "snd (prepareStreamIDLocked stream i now s) = s\<lparr>lastSeq := lastSeq s\<rparr>" by (simp add: prepareStreamIDLocked_def)
  then show ?thesis by (rule exI)
next
  case False
  then show ?thesis by (cases "i = ''*''") (auto simp: prepareStreamIDLocked_def Let_def split: prod.split)
qed

lemma XAddPrepared_tracked: "tracked {stream} s (snd (Store_XAddPrepared stream i flds now s))"
  using addStreamEntry_tracked [of stream s i flds now] by (simp add: XAddPrepared_eq case_prod_beta tracked_purge)

lemma NextStreamID_tracked: "tracked {stream} s (snd (Store_NextStreamID stream i now s))"
  using prepare_form [of stream i now "purge stream now s"]
  by (auto simp: Store_NextStreamID_def locked_eqs tracked_purge)

lemma XAdd_tracked: "tracked {stream} s (snd (Store_XAdd stream i flds now s))"
proof -
  let ?p = "purge stream now s"
  obtain r u where r: "prepareStreamIDLocked stream i now ?p = (r, u)" by (cases "prepareStreamIDLocked stream i now ?p")
  with prepare_form [of stream i now ?p] obtain x where u: "u = ?p\<lparr>lastSeq := x\<rparr>" by auto
  have "tracked {stream} ?p u" by (simp add: u)
  moreover have "tracked {stream} ?p (snd (addStreamEntryLocked stream j flds now u))" for j
    unfolding u by (rule addStreamEntry_tracked)
  ultimately have "tracked {stream} s u" "tracked {stream} s (snd (addStreamEntryLocked stream j flds now u))" for j
    by (auto intro: tracked_after_purge [of stream])
  then show ?thesis
    by (auto simp: Store_XAdd_def locked_eqs r case_prod_beta tracked_purge split: sum.split)
qed

lemma XTrim_tracked: "tracked {stream} s (snd (Store_XTrim stream maxLen now s))"
  by (auto simp: Store_XTrim_def Let_def intro!: tracked_touch)

lemma put_group_versions [simp]:
  "keyVersion (put_group stream g cg s) = keyVersion s" "version (put_group stream g cg s) = version s"
  by (simp_all add: put_group_def)

lemma tracked_put_group [simp]: "tracked K s (put_group stream g cg t) = tracked K s t"
  by (simp add: put_group_def)

lemma group_ops_tracked:
  "tracked {stream} s (snd (Store_XGroupCreate stream g i mk now s))"
  "tracked {stream} s (snd (Store_XGroupDeliver stream g c ids d now s))"
  "tracked {stream} s (snd (Store_XAck stream g ids now s))"
  "tracked {stream} s (snd (Store_XClaim stream g c idle ids now s))"
  "tracked {stream} s (snd (Store_XAutoClaim order stream g c idle start cnt now s))"
proof -
  show "tracked {stream} s (snd (Store_XGroupCreate stream g i mk now s))"
    by (auto simp: Store_XGroupCreate_def locked_eqs Let_def intro!: tracked_edit tracked_purge)
  show "tracked {stream} s (snd (Store_XGroupDeliver stream g c ids d now s))"
    by (auto simp: Store_XGroupDeliver_def Let_def intro!: tracked_touch split: option.split)
  show "tracked {stream} s (snd (Store_XAck stream g ids now s))"
    by (auto simp: Store_XAck_def locked_eqs Let_def intro!: tracked_edit tracked_purge split: option.split prod.split)
  show "tracked {stream} s (snd (Store_XClaim stream g c idle ids now s))"
    by (auto simp: Store_XClaim_def Let_def intro!: tracked_touch split: option.split prod.split)
  show "tracked {stream} s (snd (Store_XAutoClaim order stream g c idle start cnt now s))"
    by (auto simp: Store_XAutoClaim_def Let_def intro!: tracked_touch split: option.split prod.split)
qed

end
