(* ===== verification/Vole_Replay.thy ===== *)
theory Vole_Replay
  imports Vole_Documents Vole_Queue Vole_Streams Vole_Log Vole_Search
begin

text \<open>
  Replaying the append-only log at start-up: \<open>ReplayAOF\<close> of \<^verbatim>\<open>internal/server/aof.go\<close>.  The switch over the commands is split
  into groups that try their own commands and hand the others on, in the order of the source.  Numbers are read with \<open>fmt.Sscan\<close>
  where the source does so, which is not how the server read them when the command was executed.  The answers of the store are
  ignored, as in the source; none of the operations that a log can name panics.  \<open>unmarshal\<close> is \<open>json.Unmarshal\<close>.
\<close>

section \<open>The commands of a log\<close>

definition millis :: "int \<Rightarrow> duration" where
  "millis n = wrap64 (n * 1000000)"

definition seconds :: "int \<Rightarrow> duration" where
  "seconds n = wrap64 (n * Second)"

fun pairs_of :: "string list \<Rightarrow> (string \<times> string) list" where
  "pairs_of (a # b # xs) = (a, b) # pairs_of xs"
| "pairs_of _ = []"

fun triples_of :: "string list \<Rightarrow> (string \<times> string \<times> string) list" where
  "triples_of (a # b # c # xs) = (a, b, c) # triples_of xs"
| "triples_of _ = []"

text \<open>\<open>key=value\<close> arguments; an argument without the sign is skipped.\<close>

definition labels_of :: "string list \<Rightarrow> string gomap" where
  "labels_of xs = fold (\<lambda>x m. case SplitN2 CHR ''='' x of Some (k, v) \<Rightarrow> fmupd k v m | None \<Rightarrow> m) xs fmempty"

definition abs_time :: "string \<Rightarrow> gotime" where
  "abs_time x = (if 0 < Sscan_int x then Sscan_int x else zeroTime)"

text \<open>The value that \<open>strconv.ParseFloat\<close> returns beside an error.\<close>

definition ParseFloat_value :: "string \<Rightarrow> float64" where
  "ParseFloat_value x =
     (case ParseFloat x of Inr f \<Rightarrow> f | Inl ErrSyntax \<Rightarrow> Fin 0 | Inl ErrRange \<Rightarrow> if hd x = CHR ''-'' then NInf else PInf)"

definition replay_documents :: "(string \<Rightarrow> go_error + json) \<Rightarrow> string \<Rightarrow> string list \<Rightarrow> gotime \<Rightarrow> store \<Rightarrow> store" where
  "replay_documents unmarshal cmd args now s =
     (if cmd = ''JSON.SET'' then
        if length args = 4 then snd (Store_JSONSet unmarshal (args ! 1) (args ! 2) (args ! 3) now s) else s
      else if cmd = ''JSON.DEL'' then
        if 2 \<le> length args then snd (Store_JSONDel (args ! 1) (if length args = 3 then args ! 2 else ''$'') now s) else s
      else if cmd = ''JSON.NUMINCRBY'' then
        if length args = 4
        then snd (Store_JSONNumIncrBy (args ! 1) (args ! 2) (ParseFloat_value (args ! 3)) now s) else s
      else if cmd = ''JSON.ARRAPPEND'' then
        if 4 \<le> length args then snd (Store_JSONArrAppend unmarshal (args ! 1) (args ! 2) (drop 3 args) now s) else s
      else if cmd = ''TAG'' then
        if 3 \<le> length args then snd (Store_TagSet (args ! 1) (labels_of (drop 2 args)) now s) else s
      else if cmd = ''TAGDEL'' then
        if 3 \<le> length args then snd (Store_TagDel (args ! 1) (drop 2 args) s) else s
      else if cmd = ''TS.ADD'' then
        if 4 \<le> length args
        then let ts = (if args ! 2 \<noteq> ''*'' then Sscan_int (args ! 2) else 0);
                 labelStart = (if 4 < length args \<and> EqualFold (args ! 4) ''LABELS'' then 5 else 4)
             in snd (Store_TSAdd (args ! 1) ts (Sscan_float (args ! 3)) (labels_of (drop labelStart args)) now s)
        else s
      else s)"

definition replay_queues :: "(string \<Rightarrow> go_error + json) \<Rightarrow> string \<Rightarrow> string list \<Rightarrow> gotime \<Rightarrow> store \<Rightarrow> store" where
  "replay_queues unmarshal cmd args now s =
     (if cmd = ''SETDELAYED'' then
        if 4 \<le> length args
        then let ttl = (if 6 \<le> length args \<and> EqualFold (args ! 4) ''EX'' then seconds (Sscan_int (args ! 5)) else 0)
             in Store_SetDelayed (args ! 1) (args ! 2) (seconds (Sscan_int (args ! 3))) ttl now s
        else s
      else if cmd = ''ENQUEUE'' then
        if 3 \<le> length args
        then let delay = (if 5 \<le> length args \<and> EqualFold (args ! 3) ''DELAY'' then seconds (Sscan_int (args ! 4)) else 0)
             in snd (Store_Enqueue (args ! 1) (args ! 2) delay now s)
        else s
      else if cmd = ''QACK'' then
        if length args = 3 then snd (Store_QAck (args ! 1) (args ! 2) now s) else s
      else if cmd = ''QNACK'' then
        if length args = 3 then snd (Store_QNack (args ! 1) (args ! 2) now s) else s
      else replay_documents unmarshal cmd args now s)"

definition replay_streams :: "(string \<Rightarrow> go_error + json) \<Rightarrow> string \<Rightarrow> string list \<Rightarrow> gotime \<Rightarrow> store \<Rightarrow> store" where
  "replay_streams unmarshal cmd args now s =
     (if cmd = ''XADD'' then
        if 5 \<le> length args then snd (Store_XAdd (args ! 1) (args ! 2) (drop 3 args) now s) else s
      else if cmd = ''XGROUP'' then
        if 5 \<le> length args \<and> EqualFold (args ! 1) ''CREATE''
        then let mkstream = (length args = 6 \<and> EqualFold (args ! 5) ''MKSTREAM'')
             in snd (Store_XGroupCreate (args ! 2) (args ! 3) (args ! 4) mkstream now s)
        else s
      else if cmd = ''XGROUPDELIVER'' then
        if 6 \<le> length args
        then snd (Store_XGroupDeliver (args ! 1) (args ! 2) (args ! 3) (drop 5 args) (Sscan_int (args ! 4)) now s) else s
      else if cmd = ''XACK'' then
        if 4 \<le> length args then snd (Store_XAck (args ! 1) (args ! 2) (drop 3 args) now s) else s
      else if cmd = ''PFADD'' then
        if 2 \<le> length args then snd (Store_PFAdd (args ! 1) (drop 2 args) now s) else s
      else if cmd = ''PFMERGE'' then
        if 2 \<le> length args then snd (Store_PFMerge (args ! 1) (drop 2 args) now s) else s
      else if cmd = ''COPY'' then
        if 3 \<le> length args
        then snd (Store_Copy (args ! 1) (args ! 2) (\<exists>a \<in> set (drop 3 args). EqualFold a ''REPLACE'') now s) else s
      else replay_queues unmarshal cmd args now s)"

definition replay_counters :: "(string \<Rightarrow> go_error + json) \<Rightarrow> string \<Rightarrow> string list \<Rightarrow> gotime \<Rightarrow> store \<Rightarrow> store" where
  "replay_counters unmarshal cmd args now s =
     (if cmd = ''INCR'' then
        if length args = 2 then snd (Store_Incr (args ! 1) now s) else s
      else if cmd = ''INCRBY'' then
        if length args = 3 then snd (Store_IncrBy (args ! 1) (Sscan_int (args ! 2)) now s) else s
      else if cmd = ''DECRBY'' then
        if length args = 3 then snd (Store_DecrBy (args ! 1) (Sscan_int (args ! 2)) now s) else s
      else if cmd = ''DECR'' then
        if length args = 2 then snd (Store_IncrBy (args ! 1) (-1) now s) else s
      else if cmd = ''INCRBYFLOAT'' then
        if length args = 3 then snd (Store_IncrByFloat (args ! 1) (Sscan_float (args ! 2)) now s) else s
      else if cmd = ''HINCRBY'' then
        if length args = 4 then snd (Store_HIncrBy (args ! 1) (args ! 2) (Sscan_int (args ! 3)) now s) else s
      else if cmd = ''APPEND'' then
        if length args = 3 then snd (Store_Append (args ! 1) (args ! 2) now s) else s
      else if cmd = ''EXPIRE'' then
        if length args = 3 then snd (Store_Expire (args ! 1) (seconds (Sscan_int (args ! 2))) now s) else s
      else if cmd = ''EXPIREATABS'' then
        if length args = 3
        then let ns = Sscan_int (args ! 2) in snd (Store_ExpireAt (args ! 1) (if ns = 0 then zeroTime else ns) now s) else s
      else if cmd = ''RENAME'' then
        if length args = 3 then snd (Store_Rename (args ! 1) (args ! 2) now s) else s
      else replay_streams unmarshal cmd args now s)"

definition replay_collections :: "(string \<Rightarrow> go_error + json) \<Rightarrow> string \<Rightarrow> string list \<Rightarrow> gotime \<Rightarrow> store \<Rightarrow> store" where
  "replay_collections unmarshal cmd args now s =
     (if cmd = ''HSET'' then
        if 4 \<le> length args \<and> even (length args)
        then snd (Store_HSet (args ! 1) (map (\<lambda>(f, v). \<lparr>Field = f, FieldValue = v\<rparr>) (pairs_of (drop 2 args))) now s) else s
      else if cmd = ''HDEL'' then
        if 2 < length args then snd (Store_HDel (args ! 1) (drop 2 args) now s) else s
      else if cmd = ''LPUSH'' then
        if 2 < length args then snd (Store_LPush (args ! 1) (drop 2 args) now s) else s
      else if cmd = ''RPUSH'' then
        if 2 < length args then snd (Store_RPush (args ! 1) (drop 2 args) now s) else s
      else if cmd = ''LPOP'' then
        if length args = 2 then snd (Store_LPop (args ! 1) now s) else s
      else if cmd = ''RPOP'' then
        if length args = 2 then snd (Store_RPop (args ! 1) now s) else s
      else if cmd = ''LSET'' then
        if length args = 4 then snd (Store_LSet (args ! 1) (fst (Atoi (args ! 2))) (args ! 3) now s) else s
      else if cmd = ''LINSERT'' then
        if length args = 5 then snd (Store_LInsert (args ! 1) (EqualFold (args ! 2) ''BEFORE'') (args ! 3) (args ! 4) now s) else s
      else if cmd = ''SADD'' then
        if 2 < length args then snd (Store_SAdd (args ! 1) (drop 2 args) now s) else s
      else if cmd = ''SREM'' then
        if 2 < length args then snd (Store_SRem (args ! 1) (drop 2 args) now s) else s
      else if cmd = ''SMOVE'' then
        if length args = 4 then snd (Store_SMove (args ! 1) (args ! 2) (args ! 3) now s) else s
      else if cmd = ''LREM'' then
        if length args = 4 then snd (Store_LRem (args ! 1) (fst (Atoi (args ! 2))) (args ! 3) now s) else s
      else if cmd = ''ZADD'' then
        if 4 \<le> length args \<and> even (length args)
        then snd (Store_ZAdd (args ! 1) (map (\<lambda>(x, m). \<lparr>Member = m, Score = Sscan_float x\<rparr>) (pairs_of (drop 2 args))) now s) else s
      else if cmd = ''ZREM'' then
        if 2 < length args then snd (Store_ZRem (args ! 1) (drop 2 args) now s) else s
      else replay_counters unmarshal cmd args now s)"

definition set_deadline :: "string list \<Rightarrow> duration" where
  "set_deadline args =
     (if 5 \<le> length args
      then if ToUpper (args ! 3) = ''PX'' then millis (Sscan_int (args ! 4))
           else if ToUpper (args ! 3) = ''EX'' then seconds (Sscan_int (args ! 4)) else 0
      else 0)"

definition replay_record :: "(string \<Rightarrow> go_error + json) \<Rightarrow> string list \<Rightarrow> gotime \<Rightarrow> store \<Rightarrow> store" where
  "replay_record unmarshal args now s =
     (let cmd = ToUpper (args ! 0) in
      if cmd = ''SETABS'' then
        if length args = 4 then Store_SetAbsolute (args ! 1) (args ! 2) (abs_time (args ! 3)) now s else s
      else if cmd = ''MSETABS'' then
        if 4 \<le> length args \<and> (length args - 1) mod 3 = 0
        then fold (\<lambda>(k, v, x). Store_SetAbsolute k v (abs_time x) now) (triples_of (drop 1 args)) s else s
      else if cmd = ''SET'' then
        if 3 \<le> length args then Store_Set (args ! 1) (args ! 2) (set_deadline args) now s else s
      else if cmd = ''DEL'' then
        if 1 < length args then snd (Store_Del (drop 1 args) now s) else s
      else replay_collections unmarshal cmd args now s)"

text \<open>
  A log that exists has contents; without a path or a file there is nothing to replay.  A record is never empty: its line is split
  into at least one field.
\<close>

definition ReplayAOF :: "(string \<Rightarrow> go_error + json) \<Rightarrow> string \<Rightarrow> string option \<Rightarrow> gotime \<Rightarrow> store \<Rightarrow> go_error option \<times> store" where
  "ReplayAOF unmarshal path contents now s =
     (if path = '''' then (None, s)
      else case contents of
        None \<Rightarrow> (None, s)
      | Some bs \<Rightarrow>
          (case log_records bs of (records, e) \<Rightarrow>
             (e, fold (\<lambda>args. if args = [] then id else replay_record unmarshal args now) records s)))"

end
