(* ===== verification/Vole_Cluster.thy ===== *)
theory Vole_Cluster
  imports Vole_Log Vole_Search
begin

text \<open>
  Cluster membership and slot ownership: \<^verbatim>\<open>internal/server/cluster.go\<close>.  \<open>sort.Slice\<close> is an argument that sorts positions, since
  it may order nodes with the same identifier either way; the identifier that a remote node reports (\<open>fetchNodeID\<close>) and the outcome
  of a ping (\<open>pingNode\<close>) are arguments of the operations that ask for them.  A method holds the cluster's lock for its whole body.
\<close>

section \<open>Slots\<close>

definition slotCount :: int where
  "slotCount = 16384"

definition hash_tag :: "string \<Rightarrow> string" where
  "hash_tag key =
     (case IndexByte key CHR ''{'' of
        None \<Rightarrow> key
      | Some start \<Rightarrow>
          (case IndexByte (drop (start + 1) key) CHR ''}'' of
             Some e \<Rightarrow> if 0 < e then take e (drop (start + 1) key) else key
           | None \<Rightarrow> key))"

definition Slot :: "string \<Rightarrow> int" where
  "Slot key = int (unat (ChecksumIEEE (hash_tag key))) mod slotCount"

section \<open>Nodes\<close>

datatype NodeState = NodeOnline | NodeFailing | NodeOffline | NodeUnset

record Node =
  NodeID :: string
  Addr :: string
  Start :: int
  End :: int
  Self :: bool
  State :: NodeState
  LastPing :: gotime
  LastPong :: gotime
  JoinedAt :: gotime

record Cluster =
  nodes :: "Node list"
  self :: Node

type_synonym index_sort = "(nat \<Rightarrow> nat \<Rightarrow> bool) \<Rightarrow> nat list \<Rightarrow> nat list"

definition mapi :: "(nat \<Rightarrow> 'a \<Rightarrow> 'b) \<Rightarrow> 'a list \<Rightarrow> 'b list" where
  "mapi f xs = map (\<lambda>i. f i (xs ! i)) [0..<length xs]"

definition assignSlots :: "index_sort \<Rightarrow> Node list \<Rightarrow> Node list" where
  "assignSlots SortSlice ns =
     (let sorted = map ((!) ns) (SortSlice (\<lambda>i j. NodeID (ns ! i) < NodeID (ns ! j)) [0..<length ns]);
          width = slotCount div int (length ns)
      in mapi (\<lambda>i n. n\<lparr>Start := int i * width,
                      End := (if i = length ns - 1 then slotCount - 1 else (int i + 1) * width - 1)\<rparr>) sorted)"

fun trim_right :: "string \<Rightarrow> string" where
  "trim_right [] = []"
| "trim_right (c # s) = (if skip_space (c # s) = [] then [] else c # trim_right s)"

definition TrimSpace :: "string \<Rightarrow> string" where
  "TrimSpace s = trim_right (skip_space s)"

definition peer_node :: "gotime \<Rightarrow> string \<Rightarrow> Node option" where
  "peer_node now peer =
     (let peer = TrimSpace peer in
      if peer = '''' then None
      else
        let parts = Split CHR ''@'' peer;
            paddr = (if length parts = 2 then parts ! 1 else peer)
        in Some \<lparr>NodeID = parts ! 0, Addr = paddr, Start = 0, End = 0, Self = False, State = NodeOnline,
                 LastPing = zeroTime, LastPong = now, JoinedAt = now\<rparr>)"

text \<open>The loop that marks the local node: the last node with the local identifier becomes \<open>self\<close>.\<close>

definition mark_self :: "string \<Rightarrow> Node list \<Rightarrow> Node list" where
  "mark_self selfID ns = map (\<lambda>n. if NodeID n = selfID then n\<lparr>Self := True\<rparr> else n) ns"

definition last_with :: "string \<Rightarrow> Node list \<Rightarrow> Node \<Rightarrow> Node" where
  "last_with i ns dflt = fold (\<lambda>n s. if NodeID n = i then n else s) ns dflt"

definition NewCluster :: "index_sort \<Rightarrow> string \<Rightarrow> string \<Rightarrow> string \<Rightarrow> gotime \<Rightarrow> Cluster" where
  "NewCluster SortSlice selfID addr peers now =
     (let me = \<lparr>NodeID = selfID, Addr = addr, Start = 0, End = slotCount - 1, Self = True, State = NodeOnline,
                LastPing = zeroTime, LastPong = now, JoinedAt = now\<rparr>;
          ns = me # List.map_filter (peer_node now) (Split CHR '','' peers);
          ns = mark_self selfID (assignSlots SortSlice ns)
      in \<lparr>nodes = ns, self = last_with selfID ns me\<rparr>)"

definition Cluster_Nodes :: "index_sort \<Rightarrow> Cluster \<Rightarrow> Node list" where
  "Cluster_Nodes SortSlice c =
     map ((!) (nodes c)) (SortSlice (\<lambda>i j. Start (nodes c ! i) < Start (nodes c ! j)) [0..<length (nodes c)])"

definition Cluster_NodeCount :: "Cluster \<Rightarrow> nat" where
  "Cluster_NodeCount c = length (nodes c)"

definition owns_slot :: "Node \<Rightarrow> int \<Rightarrow> bool" where
  "owns_slot n slot \<longleftrightarrow> Start n \<le> slot \<and> slot \<le> End n"

definition Cluster_Owner :: "string \<Rightarrow> Cluster \<Rightarrow> Node" where
  "Cluster_Owner key c = (case List.find (\<lambda>n. owns_slot n (Slot key)) (nodes c) of Some n \<Rightarrow> n | None \<Rightarrow> self c)"

definition Cluster_SelfOwns :: "string \<Rightarrow> Cluster \<Rightarrow> bool" where
  "Cluster_SelfOwns key c \<longleftrightarrow> NodeID (Cluster_Owner key c) = NodeID (self c)"

section \<open>Heartbeat\<close>



section \<open>Joining and leaving\<close>







definition Cluster_Info :: "Cluster \<Rightarrow> string" where
  "Cluster_Info c =
     (let n = FormatInt (int (length (nodes c)));
          online = FormatInt (int (length (filter (\<lambda>n. State n = NodeOnline \<or> Self n) (nodes c))))
      in ''cluster_enabled:1'' @ CRLF @ ''cluster_state:ok'' @ CRLF @ ''cluster_known_nodes:'' @ n @ CRLF @ ''cluster_online_nodes:'' @ online @
         CRLF @ ''cluster_size:'' @ n @ CRLF @ ''cluster_slots_assigned:'' @ FormatInt slotCount @ CRLF @ ''cluster_self_id:'' @
         NodeID (self c) @ CRLF)"

section \<open>Slots of keys\<close>

text \<open>The slot of every key is in the range of the slot table.\<close>

theorem slot_in_range: "0 \<le> Slot key \<and> Slot key < slotCount"
  by (simp add: Slot_def slotCount_def)

text \<open>Keys with the same hash tag in braces are in the same slot, whatever surrounds it.\<close>

theorem same_tag_same_slot:
  assumes "tag \<noteq> []" "CHR ''}'' \<notin> set tag" "CHR ''{'' \<notin> set a" "CHR ''{'' \<notin> set b"
  shows "Slot (a @ CHR ''{'' # tag @ CHR ''}'' # x) = Slot (b @ CHR ''{'' # tag @ CHR ''}'' # y)"
proof -
  have "hash_tag (p @ CHR ''{'' # tag @ CHR ''}'' # q) = tag" if "CHR ''{'' \<notin> set p" for p q
    using assms(1,2) that by (simp add: hash_tag_def IndexByte_append)
  then show ?thesis using assms(3,4) by (simp add: Slot_def)
qed

theorem same_tag_same_slot_witness: "Slot ''user:{42}:name'' = Slot ''{42}:mail''"
  using same_tag_same_slot [of "''42''" "''user:''" "[]" "'':name''" "'':mail''"] by simp

section \<open>Every slot has one owner\<close>

lemma slot_bounds: "0 \<le> Slot key" "Slot key < slotCount"
  by (simp_all add: Slot_def slotCount_def)

definition index_sorter :: "index_sort \<Rightarrow> bool" where
  "index_sorter f \<longleftrightarrow>
     (\<forall>lt xs. strict_weak lt (set xs) \<longrightarrow> mset (f lt xs) = mset xs \<and> sorted_wrt (\<lambda>a b. \<not> lt b a) (f lt xs))"

lemma id_weak: "strict_weak (\<lambda>i j. NodeID (ns ! i) < NodeID (ns ! j)) A"
  unfolding strict_weak_def by fastforce

lemma index_sorter_sorts:
  assumes "index_sorter f" "ys = f (\<lambda>i j. NodeID (ns ! i) < NodeID (ns ! j)) xs"
  shows "mset ys = mset xs" "set ys = set xs" "length ys = length xs" "distinct ys \<longleftrightarrow> distinct xs"
    "sorted (map (\<lambda>i. NodeID (ns ! i)) ys)"
proof -
  have s: "mset ys = mset xs" "sorted_wrt (\<lambda>a b. \<not> NodeID (ns ! b) < NodeID (ns ! a)) ys"
    using assms id_weak unfolding index_sorter_def by blast+
  then show "mset ys = mset xs" "sorted (map (\<lambda>i. NodeID (ns ! i)) ys)" by (simp_all add: sorted_wrt_map not_less)
  show "set ys = set xs" "length ys = length xs" "distinct ys \<longleftrightarrow> distinct xs"
    using s(1) by (metis set_mset_mset, metis size_mset, metis mset_eq_imp_distinct_iff)
qed

text \<open>The ranges of the nodes: equal widths, the last one up to the end.\<close>

definition range_start :: "nat \<Rightarrow> nat \<Rightarrow> int" where
  "range_start n j = int j * (slotCount div int n)"

definition range_end :: "nat \<Rightarrow> nat \<Rightarrow> int" where
  "range_end n j = (if j = n - 1 then slotCount - 1 else (int j + 1) * (slotCount div int n) - 1)"

lemma range_unique:
  assumes "0 < n" "0 \<le> slot" "slot < slotCount"
  shows "\<exists>!j. j < n \<and> range_start n j \<le> slot \<and> slot \<le> range_end n j"
proof -
  define w where "w = slotCount div int n"
  have w: "0 \<le> w" using assms(1) by (simp add: w_def slotCount_def pos_imp_zdiv_nonneg_iff)
  define j where "j = (if w = 0 then n - 1 else min (nat (slot div w)) (n - 1))"
  have ex: "j < n \<and> range_start n j \<le> slot \<and> slot \<le> range_end n j"
  proof (cases "w = 0")
    case True
    then show ?thesis using assms by (simp add: j_def range_start_def range_end_def w_def)
  next
    case False
    then have m: "slot div w * w + slot mod w = slot" "0 \<le> slot mod w" "slot mod w < w" using w by simp_all
    then have q: "slot div w * w \<le> slot" "slot < (slot div w + 1) * w" unfolding distrib_right by linarith+
    have q0: "0 \<le> slot div w" using w False assms(2) by (simp add: pos_imp_zdiv_nonneg_iff)
    have "int j \<le> slot div w" using q0 False by (simp add: j_def)
    then have "int j * w \<le> slot div w * w" using w by (rule mult_right_mono)
    then have "range_start n j \<le> slot" using q(1) by (simp add: range_start_def w_def)
    moreover have "slot \<le> range_end n j"
    proof (cases "j = n - 1")
      case False
      then have "int j = slot div w" using \<open>w \<noteq> 0\<close> q0 by (auto simp: j_def min_def split: if_splits)
      then show ?thesis using q(2) False by (simp add: range_end_def w_def)
    qed (use assms(3) in \<open>simp add: range_end_def\<close>)
    moreover have "j < n" using assms(1) by (auto simp: j_def min_def)
    ultimately show ?thesis by blast
  qed
  have un: "i = j" if i: "i < n" "range_start n i \<le> slot" "slot \<le> range_end n i" and j: "j < n" "range_start n j \<le> slot" "slot \<le> range_end n j" for i j
  proof -
    have "\<not> a < b" if "a < n" "b < n" "slot \<le> range_end n a" "range_start n b \<le> slot" for a b
    proof
      assume "a < b"
      then have "a \<noteq> n - 1" using that(2) by simp
      then have "slot \<le> (int a + 1) * w - 1" using that(3) by (simp add: range_end_def w_def)
      moreover have "(int a + 1) * w \<le> int b * w" using \<open>a < b\<close> w by (intro mult_right_mono) auto
      ultimately show False using that(4) by (simp add: range_start_def w_def)
    qed
    then show ?thesis using i j by (meson linorder_neqE_nat)
  qed
  show ?thesis using ex un by (intro ex1I [of _ j]) auto
qed

definition slots_ok :: "Node list \<Rightarrow> bool" where
  "slots_ok ns \<longleftrightarrow> (\<forall>slot. 0 \<le> slot \<and> slot < slotCount \<longrightarrow> (\<exists>!i. i < length ns \<and> owns_slot (ns ! i) slot))"

lemma mapi_nth: "i < length xs \<Longrightarrow> mapi f xs ! i = f i (xs ! i)"
  and mapi_length [simp]: "length (mapi f xs) = length xs"
  by (simp_all add: mapi_def)

lemma assignSlots_nth:
  assumes "index_sorter S"
  shows "length (assignSlots S ns) = length ns"
    and "i < length ns \<Longrightarrow> Start (assignSlots S ns ! i) = range_start (length ns) i"
    and "i < length ns \<Longrightarrow> End (assignSlots S ns ! i) = range_end (length ns) i"
    and "mset (map NodeID (assignSlots S ns)) = mset (map NodeID ns)"
    and "sorted (map NodeID (assignSlots S ns))"
proof -
  define xs where "xs = S (\<lambda>i j. NodeID (ns ! i) < NodeID (ns ! j)) [0..<length ns]"
  note xs = index_sorter_sorts [OF assms xs_def]
  have len: "length xs = length ns" using xs(3) by simp
  have ids: "map NodeID (assignSlots S ns) = map (\<lambda>i. NodeID (ns ! i)) xs"
    using len by (auto simp: assignSlots_def Let_def xs_def [symmetric] mapi_nth intro!: nth_equalityI)
  show "length (assignSlots S ns) = length ns" using len by (simp add: assignSlots_def Let_def xs_def [symmetric])
  show "i < length ns \<Longrightarrow> Start (assignSlots S ns ! i) = range_start (length ns) i"
    "i < length ns \<Longrightarrow> End (assignSlots S ns ! i) = range_end (length ns) i"
    using len by (simp_all add: assignSlots_def Let_def xs_def [symmetric] mapi_nth range_start_def range_end_def)
  have "map NodeID ns = map (\<lambda>i. NodeID (ns ! i)) [0..<length ns]" by (rule nth_equalityI) auto
  then show "mset (map NodeID (assignSlots S ns)) = mset (map NodeID ns)" unfolding ids using xs(1) by (simp add: mset_map)
  show "sorted (map NodeID (assignSlots S ns))" unfolding ids by (rule xs(5))
qed

lemma assignSlots_ids: "index_sorter S \<Longrightarrow> NodeID ` set (assignSlots S ns) = NodeID ` set ns"
  using assignSlots_nth(4) [of S ns] by (metis set_map set_mset_mset)

lemma assignSlots_ok: "index_sorter S \<Longrightarrow> ns \<noteq> [] \<Longrightarrow> slots_ok (assignSlots S ns)"
  using range_unique [of "length ns"] assignSlots_nth [of S]
  by (simp add: slots_ok_def owns_slot_def cong: conj_cong)






section \<open>Reachable clusters\<close>



definition self_ok :: "Cluster \<Rightarrow> bool" where
  "self_ok c \<longleftrightarrow> Self (self c) \<and> (\<exists>n \<in> set (nodes c). NodeID n = NodeID (self c)) \<and>
     (\<forall>n \<in> set (nodes c). NodeID n = NodeID (self c) \<longrightarrow> Self n)"

definition cluster_inv :: "Cluster \<Rightarrow> bool" where
  "cluster_inv c \<longleftrightarrow> slots_ok (nodes c) \<and> self_ok c"




lemma slots_ok_cong:
  assumes "map (\<lambda>n. (Start n, End n)) ms = map (\<lambda>n. (Start n, End n)) ns"
  shows "slots_ok ms \<longleftrightarrow> slots_ok ns"
proof -
  have "length ms = length ns" using assms map_eq_imp_length_eq by blast
  moreover have "owns_slot (ms ! i) slot \<longleftrightarrow> owns_slot (ns ! i) slot" if "i < length ns" for i slot
    using arg_cong [OF assms, of "\<lambda>xs. xs ! i"] that calculation by (simp add: owns_slot_def)
  ultimately show ?thesis unfolding slots_ok_def by (metis (no_types, lifting))
qed

lemma last_with_keeps:
  "NodeID d = i \<Longrightarrow> NodeID (last_with i ns d) = i"
  "Self d \<Longrightarrow> (\<forall>n \<in> set ns. NodeID n = i \<longrightarrow> Self n) \<Longrightarrow> Self (last_with i ns d)"
  unfolding last_with_def by (induction ns arbitrary: d) auto





lemma mark_self_simps [simp]:
  "length (mark_self i ns) = length ns"
  "k < length ns \<Longrightarrow> Start (mark_self i ns ! k) = Start (ns ! k)"
  "k < length ns \<Longrightarrow> End (mark_self i ns ! k) = End (ns ! k)"
  "map NodeID (mark_self i ns) = map NodeID ns"
  by (auto simp: mark_self_def)

lemma mark_self_marks: "n \<in> set (mark_self i ns) \<Longrightarrow> NodeID n = i \<Longrightarrow> Self n"
  by (induction ns) (simp_all add: mark_self_def split: if_splits, force+)

lemma NewCluster_inv:
  assumes "index_sorter S"
  shows "cluster_inv (NewCluster S selfID addr peers now)"
proof -
  define me where "me = \<lparr>NodeID = selfID, Addr = addr, Start = 0, End = slotCount - 1, Self = True, State = NodeOnline,
                LastPing = zeroTime, LastPong = now, JoinedAt = now\<rparr>"
  define ns0 where "ns0 = me # List.map_filter (peer_node now) (Split CHR '','' peers)"
  define ns where "ns = mark_self selfID (assignSlots S ns0)"
  have e: "NewCluster S selfID addr peers now = \<lparr>nodes = ns, self = last_with selfID ns me\<rparr>"
    by (simp add: NewCluster_def me_def ns0_def ns_def Let_def)
  have "slots_ok (assignSlots S ns0)" using assignSlots_ok [OF assms, of ns0] by (simp add: ns0_def)
  then have sl: "slots_ok ns" unfolding ns_def mark_self_def by (subst slots_ok_cong [of _ "assignSlots S ns0"]) (auto intro: nth_equalityI)
  have "selfID \<in> NodeID ` set (assignSlots S ns0)" using assignSlots_ids [OF assms, of ns0] by (simp add: ns0_def me_def)
  moreover have "NodeID ` set ns = NodeID ` set (assignSlots S ns0)"
    using arg_cong [OF mark_self_simps(4) [of selfID "assignSlots S ns0"], of set] by (simp only: set_map ns_def)
  ultimately have "selfID \<in> NodeID ` set ns" by simp
  then have "\<exists>n \<in> set ns. NodeID n = selfID" by auto
  moreover have "\<forall>n \<in> set ns. NodeID n = selfID \<longrightarrow> Self n" unfolding ns_def using mark_self_marks by blast
  moreover have "NodeID me = selfID" "Self me" by (simp_all add: me_def)
  ultimately show ?thesis using sl last_with_keeps(1) [of me selfID ns] last_with_keeps(2) [of me ns selfID] by (simp add: e cluster_inv_def self_ok_def)
qed

lemma NewCluster_nodes:
  "\<exists>ns. ns \<noteq> [] \<and> nodes (NewCluster S selfID addr peers now) = mark_self selfID (assignSlots S ns)"
  unfolding NewCluster_def Let_def by auto

lemma NewCluster_sorted: "index_sorter S \<Longrightarrow> sorted (map NodeID (nodes (NewCluster S selfID addr peers now)))"
  using NewCluster_nodes [of S selfID addr peers now] assignSlots_nth(5) [of S] by (metis mark_self_simps(4))

lemma NewCluster_ranges:
  assumes "index_sorter S" "k < length (nodes (NewCluster S selfID addr peers now))"
  shows "Start (nodes (NewCluster S selfID addr peers now) ! k) = range_start (length (nodes (NewCluster S selfID addr peers now))) k"
    and "End (nodes (NewCluster S selfID addr peers now) ! k) = range_end (length (nodes (NewCluster S selfID addr peers now))) k"
  using NewCluster_nodes [of S selfID addr peers now] assignSlots_nth [OF assms(1)] assms(2) by auto



lemma Owner_unique:
  assumes "slots_ok (nodes c)" "i < length (nodes c)" "owns_slot (nodes c ! i) (Slot key)"
  shows "Cluster_Owner key c = nodes c ! i"
proof -
  have u: "j = i" if "j < length (nodes c)" "owns_slot (nodes c ! j) (Slot key)" for j
    using assms that slot_bounds [of key] unfolding slots_ok_def by blast
  have "List.find (\<lambda>n. owns_slot n (Slot key)) (nodes c) = Some (nodes c ! i)"
    unfolding find_Some_iff using assms(2,3) u by (metis less_trans nat_neq_iff)
  then show ?thesis by (simp add: Cluster_Owner_def)
qed



lemma insertion_index_sorter: "index_sorter insertion_sort"
  unfolding index_sorter_def using insertion_sort_sorted insertion_sort_mset by blast


text \<open>Two nodes that were started with the same identifiers in their configurations send every key to the same node, whatever the
  order in which their peers are listed.\<close>

theorem owners_agree:
  assumes "index_sorter S" "index_sorter S'"
    "mset (map NodeID (nodes (NewCluster S i addr peers now))) = mset (map NodeID (nodes (NewCluster S' i' addr' peers' now')))"
  shows "NodeID (Cluster_Owner key (NewCluster S i addr peers now)) = NodeID (Cluster_Owner key (NewCluster S' i' addr' peers' now'))"
proof -
  let ?c = "NewCluster S i addr peers now" and ?d = "NewCluster S' i' addr' peers' now'"
  have ok: "slots_ok (nodes ?c)" "slots_ok (nodes ?d)"
    using NewCluster_inv assms(1,2) by (auto simp: cluster_inv_def)
  have ids: "map NodeID (nodes ?c) = map NodeID (nodes ?d)"
    using assms(3) NewCluster_sorted assms(1,2) by (metis properties_for_sort sorted_sort_id)
  then have len: "length (nodes ?c) = length (nodes ?d)" using map_eq_imp_length_eq by blast
  obtain k where k: "k < length (nodes ?c)" "owns_slot (nodes ?c ! k) (Slot key)"
    using ok(1) slot_bounds [of key] unfolding slots_ok_def by blast
  have "owns_slot (nodes ?d ! k) (Slot key)"
    using k len NewCluster_ranges [OF assms(1), of k i addr peers now] NewCluster_ranges [OF assms(2), of k i' addr' peers' now']
    by (simp add: owns_slot_def)
  then show ?thesis
    using Owner_unique [OF ok(1) k] Owner_unique [OF ok(2)] k len ids by (metis nth_map)
qed

theorem owners_agree_witness:
  "NodeID (Cluster_Owner ''k'' (NewCluster insertion_sort ''a'' ''h1'' ''b@h2'' 0)) =
   NodeID (Cluster_Owner ''k'' (NewCluster insertion_sort ''b'' ''h2'' ''a@h1'' 5))"
proof (rule owners_agree [OF insertion_index_sorter insertion_index_sorter])
  show "mset (map NodeID (nodes (NewCluster insertion_sort ''a'' ''h1'' ''b@h2'' 0))) =
      mset (map NodeID (nodes (NewCluster insertion_sort ''b'' ''h2'' ''a@h1'' 5)))" by code_simp
qed

end
