(* ===== verification/Vole_Geo.thy ===== *)
theory Vole_Geo
  imports Vole_Search Vole_ZSets
begin

text \<open>
  Geographic points: \<^verbatim>\<open>internal/store/geo.go\<close>, the store operations built on it and the unit conversions of
  \<^verbatim>\<open>internal/server/server.go\<close>.  A point is kept in a sorted set with a 52-bit geohash as its score.  The trigonometric
  functions of Go's \<open>math\<close> package are a record argument \<open>M\<close>, \<open>sort.Slice\<close> is an argument, and \<open>conv\<close> is the value a conversion of
  a number out of the range of the integer type has, which Go leaves to the implementation.
\<close>

section \<open>Arithmetic\<close>

definition f64_neg :: "float64 \<Rightarrow> float64" where
  "f64_neg x = (case x of NaN \<Rightarrow> NaN | NInf \<Rightarrow> PInf | PInf \<Rightarrow> NInf | Fin r \<Rightarrow> Fin (- r))"

definition f64_sub :: "float64 \<Rightarrow> float64 \<Rightarrow> float64" where
  "f64_sub x y = f64_add x (f64_neg y)"

definition f64_sgn :: "float64 \<Rightarrow> rat" where
  "f64_sgn x = (case x of Fin r \<Rightarrow> sgn r | PInf \<Rightarrow> 1 | NInf \<Rightarrow> -1 | NaN \<Rightarrow> 0)"

definition f64_mul :: "float64 \<Rightarrow> float64 \<Rightarrow> float64" where
  "f64_mul x y =
     (case (x, y) of
        (Fin a, Fin b) \<Rightarrow> round64 (a * b)
      | _ \<Rightarrow> if x = NaN \<or> y = NaN then NaN
            else let s = f64_sgn x * f64_sgn y in if s = 0 then NaN else if 0 < s then PInf else NInf)"

text \<open>Division by a positive constant.\<close>

definition f64_div_const :: "float64 \<Rightarrow> rat \<Rightarrow> float64" where
  "f64_div_const x c = (case x of Fin a \<Rightarrow> round64 (a / c) | _ \<Rightarrow> x)"

definition f64_min :: "float64 \<Rightarrow> float64 \<Rightarrow> float64" where
  "f64_min x y = (if x = NInf \<or> y = NInf then NInf else if x = NaN \<or> y = NaN then NaN else if f64_lt x y then x else y)"

definition f64_max :: "float64 \<Rightarrow> float64 \<Rightarrow> float64" where
  "f64_max x y = (if x = PInf \<or> y = PInf then PInf else if x = NaN \<or> y = NaN then NaN else if f64_lt y x then x else y)"

definition uint_of :: "(float64 \<Rightarrow> nat) \<Rightarrow> nat \<Rightarrow> float64 \<Rightarrow> nat" where
  "uint_of conv w x = (case x of Fin r \<Rightarrow> if - 1 < r \<and> r < 2 ^ w then nat \<lfloor>r\<rfloor> else conv x | _ \<Rightarrow> conv x)"

section \<open>Geohashes\<close>

text \<open>A constant as the \<open>float64\<close> it becomes; differences of constants are computed exactly before.\<close>

definition geoMaxLat :: float64 where "geoMaxLat = round64 (8505112878 / 10 ^ 8)"

definition geoMinLat :: float64 where "geoMinLat = round64 (- 8505112878 / 10 ^ 8)"

definition geoLatSpan :: float64 where "geoLatSpan = round64 (17010225756 / 10 ^ 8)"

abbreviation geoMaxLon :: float64 where "geoMaxLon \<equiv> Fin 180"
abbreviation geoMinLon :: float64 where "geoMinLon \<equiv> Fin (- 180)"

abbreviation span :: "float64 \<Rightarrow> rat" where
  "span f \<equiv> (case f of Fin r \<Rightarrow> r | _ \<Rightarrow> 1)"

definition latQ :: "(float64 \<Rightarrow> nat) \<Rightarrow> float64 \<Rightarrow> nat" where
  "latQ conv lat =
     (let lat = f64_max geoMinLat (f64_min geoMaxLat lat);
          latOff = f64_div_const (f64_sub lat geoMinLat) (span geoLatSpan)
      in uint_of conv 32 (f64_mul latOff (Fin (2 ^ 26))))"

definition lonQ :: "(float64 \<Rightarrow> nat) \<Rightarrow> float64 \<Rightarrow> nat" where
  "lonQ conv lon =
     (let lon = f64_max geoMinLon (f64_min geoMaxLon lon);
          lonOff = f64_div_const (f64_sub lon geoMinLon) 360
      in uint_of conv 32 (f64_mul lonOff (Fin (2 ^ 26))))"

text \<open>The loop that interleaves the bits below position \<open>i\<close>.\<close>

fun interleave :: "nat \<Rightarrow> nat \<Rightarrow> nat \<Rightarrow> nat \<Rightarrow> nat" where
  "interleave 0 a b hash = hash"
| "interleave (Suc i) a b hash = interleave i a b ((hash * 2 + a div 2 ^ i mod 2) * 2 + b div 2 ^ i mod 2)"

definition GeoEncode :: "(float64 \<Rightarrow> nat) \<Rightarrow> float64 \<Rightarrow> float64 \<Rightarrow> float64" where
  "GeoEncode conv lon lat = Fin (of_nat (interleave 26 (lonQ conv lon) (latQ conv lat) 0))"

fun gather :: "nat \<Rightarrow> nat \<Rightarrow> nat \<Rightarrow> nat" where
  "gather 0 off h = 0"
| "gather (Suc i) off h = h div 2 ^ (2 * i + off) mod 2 * 2 ^ i + gather i off h"

definition dequant :: "nat \<Rightarrow> float64 \<Rightarrow> float64 \<Rightarrow> float64" where
  "dequant q width low = f64_add (f64_mul (f64_div_const (Fin (of_nat q)) (2 ^ 26)) width) low"

definition GeoDecode :: "(float64 \<Rightarrow> nat) \<Rightarrow> float64 \<Rightarrow> float64 \<times> float64" where
  "GeoDecode conv hash =
     (let h = uint_of conv 64 hash
      in (dequant (gather 26 1 h) (Fin 360) geoMinLon, dequant (gather 26 0 h) geoLatSpan geoMinLat))"

section \<open>Distances\<close>

record gomath =
  Sin :: "float64 \<Rightarrow> float64"
  Cos :: "float64 \<Rightarrow> float64"
  Sqrt :: "float64 \<Rightarrow> float64"
  Atan2 :: "float64 \<Rightarrow> float64 \<Rightarrow> float64"

definition Pi64 :: float64 where
  "Pi64 = Fin (884279719003555 / 2 ^ 48)"

definition GeoDistBetween :: "gomath \<Rightarrow> float64 \<Rightarrow> float64 \<Rightarrow> float64 \<Rightarrow> float64 \<Rightarrow> float64" where
  "GeoDistBetween M lon1 lat1 lon2 lat2 =
     (let lat1r = f64_div_const (f64_mul lat1 Pi64) 180;
          lat2r = f64_div_const (f64_mul lat2 Pi64) 180;
          dlat = f64_div_const (f64_mul (f64_sub lat2 lat1) Pi64) 180;
          dlon = f64_div_const (f64_mul (f64_sub lon2 lon1) Pi64) 180;
          slat = Sin M (f64_div_const dlat 2); slon = Sin M (f64_div_const dlon 2);
          a = f64_add (f64_mul slat slat) (f64_mul (f64_mul (f64_mul (Cos M lat1r) (Cos M lat2r)) slon) slon);
          c = f64_mul (Fin 2) (Atan2 M (Sqrt M a) (Sqrt M (f64_sub (Fin 1) a)))
      in f64_mul (round64 (6372797560856 / 10 ^ 6)) c)"

record GeoResult =
  GMember :: string
  Dist :: float64
  Longitude :: float64
  Latitude :: float64
  Hash :: float64

type_synonym slice_sort = "(GeoResult \<Rightarrow> GeoResult \<Rightarrow> bool) \<Rightarrow> GeoResult list \<Rightarrow> GeoResult list"

definition geo_result :: "gomath \<Rightarrow> (float64 \<Rightarrow> nat) \<Rightarrow> float64 \<Rightarrow> float64 \<Rightarrow> ZMember \<Rightarrow> GeoResult" where
  "geo_result M conv centerLon centerLat m =
     (case GeoDecode conv (Score m) of (lon, lat) \<Rightarrow>
        \<lparr>GMember = Member m, Dist = GeoDistBetween M centerLon centerLat lon lat, Longitude = lon, Latitude = lat, Hash = Score m\<rparr>)"

definition GeoSearch :: "gomath \<Rightarrow> (float64 \<Rightarrow> nat) \<Rightarrow> slice_sort \<Rightarrow> ZMember list \<Rightarrow> float64 \<Rightarrow> float64 \<Rightarrow> float64 \<Rightarrow> GeoResult list" where
  "GeoSearch M conv SortSlice members centerLon centerLat radius =
     SortSlice (\<lambda>x y. f64_lt (Dist x) (Dist y))
       (filter (\<lambda>r. f64_le (Dist r) radius) (map (geo_result M conv centerLon centerLat) members))"

section \<open>Store operations\<close>

definition Store_GeoAdd ::
  "(float64 \<Rightarrow> nat) \<Rightarrow> key \<Rightarrow> (float64 \<times> float64 \<times> string) list \<Rightarrow> gotime \<Rightarrow> store \<Rightarrow> nat res \<times> store" where
  "Store_GeoAdd conv key members now s =
     Store_ZAdd key (map (\<lambda>(lon, lat, name). \<lparr>Member = name, Score = GeoEncode conv lon lat\<rparr>) members) now s"

definition Store_GeoPos :: "(float64 \<Rightarrow> nat) \<Rightarrow> key \<Rightarrow> string list \<Rightarrow> gotime \<Rightarrow> store \<Rightarrow> (float64 \<times> float64) option list" where
  "Store_GeoPos conv key members now s =
     (if isExpiredRLocked key now s then map (\<lambda>_. None) members
      else case fmlookup (zsets s) key of
        None \<Rightarrow> map (\<lambda>_. None) members
      | Some zs \<Rightarrow> map (\<lambda>m. map_option (GeoDecode conv) (SortedSet_Score m zs)) members)"

definition Store_GeoDist :: "gomath \<Rightarrow> (float64 \<Rightarrow> nat) \<Rightarrow> key \<Rightarrow> string \<Rightarrow> string \<Rightarrow> gotime \<Rightarrow> store \<Rightarrow> float64 option" where
  "Store_GeoDist M conv key member1 member2 now s =
     (if isExpiredRLocked key now s then None
      else case fmlookup (zsets s) key of
        None \<Rightarrow> None
      | Some zs \<Rightarrow>
          (case (SortedSet_Score member1 zs, SortedSet_Score member2 zs) of
             (Some s1, Some s2) \<Rightarrow>
               (case (GeoDecode conv s1, GeoDecode conv s2) of ((lon1, lat1), (lon2, lat2)) \<Rightarrow> Some (GeoDistBetween M lon1 lat1 lon2 lat2))
           | _ \<Rightarrow> None))"

definition geo_window :: "bool \<Rightarrow> int \<Rightarrow> GeoResult list \<Rightarrow> GeoResult list" where
  "geo_window asc cnt results =
     (let results = (if asc then results else rev results)
      in if 0 < cnt \<and> cnt < int (length results) then take (nat cnt) results else results)"

definition Store_GeoSearchByRadius ::
  "gomath \<Rightarrow> (float64 \<Rightarrow> nat) \<Rightarrow> slice_sort \<Rightarrow> key \<Rightarrow> float64 \<Rightarrow> float64 \<Rightarrow> float64 \<Rightarrow> int \<Rightarrow> bool \<Rightarrow> gotime \<Rightarrow> store \<Rightarrow> GeoResult list" where
  "Store_GeoSearchByRadius M conv SortSlice key lon lat radius cnt asc now s =
     (if isExpiredRLocked key now s then []
      else case fmlookup (zsets s) key of
        None \<Rightarrow> []
      | Some zs \<Rightarrow> geo_window asc cnt (GeoSearch M conv SortSlice (SortedSet_Members zs) lon lat radius))"

definition Store_GeoSearchByMember ::
  "gomath \<Rightarrow> (float64 \<Rightarrow> nat) \<Rightarrow> slice_sort \<Rightarrow> key \<Rightarrow> string \<Rightarrow> float64 \<Rightarrow> int \<Rightarrow> bool \<Rightarrow> gotime \<Rightarrow> store \<Rightarrow> GeoResult list res" where
  "Store_GeoSearchByMember M conv SortSlice key member radius cnt asc now s =
     (if isExpiredRLocked key now s then Inr []
      else case fmlookup (zsets s) key of
        None \<Rightarrow> Inr []
      | Some zs \<Rightarrow>
          (case SortedSet_Score member zs of
             None \<Rightarrow> Inl (Err ''member not found'')
           | Some score \<Rightarrow>
               (case GeoDecode conv score of (lon, lat) \<Rightarrow>
                  Inr (geo_window asc cnt (GeoSearch M conv SortSlice (SortedSet_Members zs) lon lat radius)))))"

definition convertGeoUnit :: "float64 \<Rightarrow> string \<Rightarrow> float64" where
  "convertGeoUnit meters unit =
     (if unit = ''km'' then f64_div_const meters 1000
      else if unit = ''mi'' then f64_div_const meters (span (round64 (1609344 / 1000)))
      else if unit = ''ft'' then f64_div_const meters (span (round64 (3048 / 10000)))
      else meters)"

definition geoUnitToMeters :: "float64 \<Rightarrow> string \<Rightarrow> float64" where
  "geoUnitToMeters v unit =
     (if unit = ''km'' then f64_mul v (Fin 1000)
      else if unit = ''mi'' then f64_mul v (round64 (1609344 / 1000))
      else if unit = ''ft'' then f64_mul v (round64 (3048 / 10000))
      else v)"

section \<open>The bits of a geohash\<close>

lemma interleave_shift: "interleave n a b h = h * 4 ^ n + interleave n a b 0"
proof (induction n arbitrary: h)
  case (Suc n)
  show ?case
    unfolding interleave.simps
    by (subst Suc.IH, subst Suc.IH [of "(0 * 2 + a div 2 ^ n mod 2) * 2 + b div 2 ^ n mod 2"]) (simp add: algebra_simps)
qed simp

lemma interleave_less: "interleave n a b 0 < 4 ^ n"
proof (induction n)
  case (Suc n)
  let ?x = "a div 2 ^ n mod 2 * 2 + b div 2 ^ n mod 2"
  have "a div 2 ^ n mod 2 < 2" "b div 2 ^ n mod 2 < 2" by simp_all
  then have "?x \<le> 3" by linarith
  then have "?x * 4 ^ n \<le> 3 * 4 ^ n" by (rule mult_le_mono1)
  then have "?x * 4 ^ n + interleave n a b 0 < 4 * 4 ^ n" using Suc by linarith
  then show ?case by (simp add: interleave_shift [of n a b ?x])
qed simp

lemma gather_low: "off < 2 \<Longrightarrow> gather n off (x * 4 ^ n + y) = gather n off y"
proof -
  assume off: "off < 2"
  have "m \<le> n \<Longrightarrow> gather m off (x * 4 ^ n + y) = gather m off y" for m
  proof (induction m)
    case (Suc m)
    obtain k where k: "n = Suc m + k" using Suc.prems le_Suc_ex by blast
    have "x * 4 ^ n = x * 4 ^ k * 2 ^ (1 - off) * 2 * 2 ^ (2 * m + off)"
    proof -
      have "2 * n = 2 * k + (1 - off) + 1 + (2 * m + off)" using k off by simp
      then have "(2 :: nat) ^ (2 * n) = 2 ^ (2 * k) * 2 ^ (1 - off) * 2 * 2 ^ (2 * m + off)" by (simp only: power_add power_one_right)
      then show ?thesis by (simp add: power_mult)
    qed
    then have "(x * 4 ^ n + y) div 2 ^ (2 * m + off) mod 2 = (x * 4 ^ k * 2 ^ (1 - off) * 2 + y div 2 ^ (2 * m + off)) mod 2"
      by (simp only: div_mult_self3 power_not_zero numeral_neq_zero not_False_eq_True simp_thms)
    also have "\<dots> = y div 2 ^ (2 * m + off) mod 2" by simp
    finally show ?case using Suc by simp
  qed simp
  then show ?thesis by simp
qed

lemma mod_bits: "(q :: nat) mod 2 ^ Suc n = q div 2 ^ n mod 2 * 2 ^ n + q mod 2 ^ n"
  by (metis add.commute mod_mult2_eq mult.commute power_Suc)

lemma gather_interleave: "gather n 0 (interleave n a b 0) = b mod 2 ^ n" "gather n 1 (interleave n a b 0) = a mod 2 ^ n"
proof (induction n)
  case (Suc n)
  let ?x = "a div 2 ^ n mod 2 * 2 + b div 2 ^ n mod 2" and ?y = "interleave n a b 0"
  have e: "interleave (Suc n) a b 0 = ?x * 4 ^ n + ?y" using interleave_shift [of n a b ?x] by simp
  have d0: "(?x * 4 ^ n + ?y) div 2 ^ (2 * n) = ?x" using interleave_less [of n a b] by (simp add: power_mult)
  have d1: "(?x * 4 ^ n + ?y) div 2 ^ (2 * n + 1) = a div 2 ^ n mod 2"
    using d0 by (simp add: div_mult2_eq mult.commute [of 2])
  { case 1 show ?case using Suc.IH(1) d0 gather_low [of 0 n ?x ?y] mod_bits [of b n] unfolding e by simp }
  { case 2 show ?case using Suc.IH(2) d1 gather_low [of 1 n ?x ?y] mod_bits [of a n] unfolding e by simp }
qed simp_all

section \<open>The constants\<close>

lemma f64_Fin_arith [simp]:
  "f64_mul (Fin a) (Fin b) = round64 (a * b)" "f64_div_const (Fin a) c = round64 (a / c)" "f64_sub (Fin a) (Fin b) = round64 (a - b)"
  by (simp_all add: f64_mul_def f64_div_const_def f64_sub_def f64_neg_def)

lemma rat_exp_eq: "0 < r \<Longrightarrow> pow2 e \<le> r \<Longrightarrow> r < pow2 (e + 1) \<Longrightarrow> rat_exp r = e"
proof -
  assume r: "0 < r" "pow2 e \<le> r" "r < pow2 (e + 1)"
  then have "pow2 e < pow2 (rat_exp r + 1)" using rat_exp_bounds [of r] by simp
  then show ?thesis using rat_exp_le [OF r(1,3)] by (simp add: pow2_less)
qed

text \<open>The nearest multiple of the unit of its binade is the value of a number.\<close>

lemma round64_eval:
  assumes "pow2 e \<le> r" "r < pow2 (e + 1)" "- 1022 \<le> e" "e < 1023" "of_int n - 1 / 2 < r / pow2 (e - 52)" "r / pow2 (e - 52) < of_int n + 1 / 2"
  shows "round64 r = Fin (of_int n * pow2 (e - 52))" and "round64 (- r) = Fin (- (of_int n * pow2 (e - 52)))"
proof -
  have r: "0 < r" using assms(1) pow2_pos [of e] by linarith
  have e: "rat_exp r = e" by (rule rat_exp_eq [OF r assms(1,2)])
  define t where "t = r / pow2 (e - 52)"
  have n: "round_half_even t = n"
  proof (cases "of_int n \<le> t")
    case True
    then have "\<lfloor>t\<rfloor> = n" using assms(6) by (simp add: t_def [symmetric] floor_eq_iff)
    then show ?thesis using assms(6) by (simp add: round_half_even_def t_def [symmetric])
  next
    case False
    then have "\<lfloor>t\<rfloor> = n - 1" using assms(5) by (simp add: t_def [symmetric] floor_eq_iff)
    then show ?thesis using assms(5) by (simp add: round_half_even_def t_def [symmetric])
  qed
  have s: "pow2 (e + 1) = pow2 53 * pow2 (e - 52)" by (simp flip: pow2_add add: add.commute)
  then have "t < pow2 53" using assms(2) by (simp add: t_def pos_divide_less_eq)
  then have "t \<le> of_int (2 ^ 53)" by (simp add: pow2_def)
  then have "n \<le> 2 ^ 53" using round_half_even_le [of t "2 ^ 53"] n by simp
  then have "of_int n * pow2 (e - 52) \<le> of_int (2 ^ 53) * pow2 (e - 52)" by (intro mult_right_mono) (simp_all add: less_imp_le flip: of_int_power)
  also have "\<dots> = pow2 (e + 1)" by (simp add: s pow2_def [of 53])
  also have "\<dots> < pow2 1024" using assms(4) by (simp add: pow2_less)
  finally have b: "\<not> pow2 1024 \<le> of_int n * pow2 (e - 52)" by simp
  have m: "max (e - 52) (- 1074) = e - 52" using assms(3) by simp
  show "round64 r = Fin (of_int n * pow2 (e - 52))" "round64 (- r) = Fin (- (of_int n * pow2 (e - 52)))"
    using r b n e m by (simp_all add: round64_def Let_def t_def)
qed

definition maxLat :: rat where
  "maxLat = 5984941123141376 / 2 ^ 46"

lemma geo_constants:
  "geoMaxLat = Fin maxLat" "geoMinLat = Fin (- maxLat)" "geoLatSpan = Fin (2 * maxLat)"
  using round64_eval [of 6 "8505112878 / 10 ^ 8" 5984941123141376] round64_eval(1) [of 7 "17010225756 / 10 ^ 8" 5984941123141376]
  by (simp_all add: pow2_def maxLat_def geoMaxLat_def geoMinLat_def geoLatSpan_def)

lemma round64_maxLat: "round64 (2 * maxLat) = Fin (2 * maxLat)" "round64 (- maxLat) = Fin (- maxLat)"
  using round64_idem geo_constants unfolding geoMaxLat_def geoMinLat_def geoLatSpan_def by blast+

section \<open>Encoding and decoding\<close>

lemma interleave_52: "interleave 26 a b 0 < 2 ^ 52"
  using interleave_less [of 26 a b] by simp

lemma decode_encode:
  "GeoDecode conv (GeoEncode conv lon lat) =
     (dequant (lonQ conv lon mod 2 ^ 26) (Fin 360) geoMinLon, dequant (latQ conv lat mod 2 ^ 26) geoLatSpan geoMinLat)"
proof -
  let ?h = "interleave 26 (lonQ conv lon) (latQ conv lat) 0"
  have "(of_nat ?h :: rat) < of_nat (2 ^ 64)" using interleave_52 [of "lonQ conv lon" "latQ conv lat"] by (intro of_nat_less_iff [THEN iffD2]) simp
  then have "uint_of conv 64 (GeoEncode conv lon lat) = ?h" by (simp add: uint_of_def GeoEncode_def)
  then show ?thesis by (simp only: GeoDecode_def Let_def gather_interleave)
qed

text \<open>A position whose quantised coordinates fit 26 bits is decoded from its score as the corner of its own grid cell; the score
  is an integer below \<open>2\<^sup>5\<^sup>2\<close>, which a \<open>float64\<close> holds exactly.\<close>

theorem geo_cell_roundtrip:
  assumes "lonQ conv lon < 2 ^ 26" "latQ conv lat < 2 ^ 26"
  shows "GeoDecode conv (GeoEncode conv lon lat) =
      (dequant (lonQ conv lon) (Fin 360) geoMinLon, dequant (latQ conv lat) geoLatSpan geoMinLat) \<and>
    (\<exists>h < 2 ^ 52. GeoEncode conv lon lat = Fin (of_nat h) \<and> representable (of_nat h))"
proof -
  let ?h = "interleave 26 (lonQ conv lon) (latQ conv lat) 0"
  have "representable (of_nat ?h)"
    using round64_int [of "int ?h"] interleave_52 [of "lonQ conv lon" "latQ conv lat"] by (simp add: representable_def)
  moreover have "lonQ conv lon mod 2 ^ 26 = lonQ conv lon" "latQ conv lat mod 2 ^ 26 = latQ conv lat"
    using assms by (simp_all only: mod_less)
  ultimately show ?thesis
    unfolding decode_encode using interleave_52 by (auto simp: GeoEncode_def intro: exI [of _ ?h])
qed

lemma quantised_origin: "lonQ conv (Fin 0) = 2 ^ 25" "latQ conv (Fin 0) = 2 ^ 25"
proof -
  have half: "round64 (1 / 2) = Fin (1 / 2)" using round64_grid [of 1 "- 1"] by (simp add: pow2_def)
  have ints: "round64 180 = Fin 180" "round64 (2 ^ 25) = Fin (2 ^ 25)" using round64_int [of 180] round64_int [of "2 ^ 25"] by simp_all
  have m: "0 < maxLat" "round64 maxLat = Fin maxLat" using round64_idem geo_constants(1) unfolding geoMaxLat_def by (simp add: maxLat_def, blast)
  show "lonQ conv (Fin 0) = 2 ^ 25"
    using half ints by (simp add: lonQ_def Let_def f64_min_def f64_max_def uint_of_def)
  show "latQ conv (Fin 0) = 2 ^ 25"
    using half ints m by (simp add: latQ_def Let_def geo_constants f64_min_def f64_max_def uint_of_def)
qed

theorem geo_cell_roundtrip_witness:
  "lonQ (\<lambda>_. 0) (Fin 0) < 2 ^ 26 \<and> latQ (\<lambda>_. 0) (Fin 0) < 2 ^ 26 \<and>
   GeoDecode (\<lambda>_. 0) (GeoEncode (\<lambda>_. 0) (Fin 0) (Fin 0)) = (dequant (2 ^ 25) (Fin 360) geoMinLon, dequant (2 ^ 25) geoLatSpan geoMinLat)"
  using geo_cell_roundtrip [of "\<lambda>_. 0" "Fin 0" "Fin 0"] unfolding quantised_origin by simp

text \<open>A latitude at or beyond the northern limit is quantised to \<open>2\<^sup>2\<^sup>6\<close>, whose bit 26 the hash drops: \<open>GEOADD\<close> at the north pole stores
  the southern limit.\<close>

theorem geo_north_becomes_south:
  assumes "f64_le geoMaxLat lat"
  shows "snd (GeoDecode conv (GeoEncode conv lon lat)) = geoMinLat"
proof -
  have m: "0 < maxLat" by (simp add: maxLat_def)
  have one: "round64 1 = Fin 1" "round64 (2 ^ 26) = Fin (2 ^ 26)" using round64_int [of 1] round64_int [of "2 ^ 26"] by simp_all
  have "f64_max geoMinLat (f64_min geoMaxLat lat) = Fin maxLat"
    using assms m unfolding geo_constants
    by (cases lat) (auto simp: f64_min_def f64_max_def f64_le_def f64_lt_def less_float64_def)
  then have "latQ conv lat = 2 ^ 26"
    using m one round64_maxLat
    by (simp add: latQ_def Let_def geo_constants uint_of_def)
  then have "latQ conv lat mod 2 ^ 26 = 0" by simp
  moreover have "dequant 0 (Fin (2 * maxLat)) (Fin (- maxLat)) = Fin (- maxLat)"
    using round64_maxLat by (simp add: dequant_def round64_def [of 0])
  ultimately show ?thesis unfolding decode_encode by (simp add: geo_constants)
qed

theorem geo_north_becomes_south_witness:
  "f64_le geoMaxLat (Fin 90) \<and> snd (GeoDecode (\<lambda>_. 0) (GeoEncode (\<lambda>_. 0) (Fin 0) (Fin 90))) = geoMinLat"
proof -
  have "f64_le geoMaxLat (Fin 90)" by (simp add: geo_constants maxLat_def)
  then show ?thesis using geo_north_becomes_south [of "Fin 90" "\<lambda>_. 0" "Fin 0"] by simp
qed

section \<open>Searching\<close>

text \<open>What the library promises of \<open>sort.Slice\<close>.\<close>

definition slice_sorter :: "slice_sort \<Rightarrow> bool" where
  "slice_sorter f \<longleftrightarrow>
     (\<forall>lt xs. strict_weak lt (set xs) \<longrightarrow> mset (f lt xs) = mset xs \<and> sorted_wrt (\<lambda>a b. \<not> lt b a) (f lt xs))"

lemma dist_weak: "(\<forall>r \<in> A. Dist r \<noteq> NaN) \<Longrightarrow> strict_weak (\<lambda>x y. f64_lt (Dist x) (Dist y)) A"
  unfolding strict_weak_def by (fastforce simp: f64_lt_less)

text \<open>A search by radius answers exactly the members whose distance from the centre is at most the radius, nearest first (or
  farthest first with \<open>DESC\<close>); a count cuts the answer off.\<close>

theorem geosearch_exact:
  assumes "slice_sorter SortSlice" "\<not> isExpiredRLocked key now s" "fmlookup (zsets s) key = Some zs"
  shows "\<exists>rs. mset rs = mset (filter (\<lambda>r. f64_le (Dist r) radius) (map (geo_result M conv lon lat) (SortedSet_Members zs))) \<and>
    sorted_wrt (\<lambda>a b. f64_le (Dist a) (Dist b)) rs \<and>
    (\<forall>cnt asc. Store_GeoSearchByRadius M conv SortSlice key lon lat radius cnt asc now s =
       (if 0 < cnt then take (nat cnt) else id) ((if asc then id else rev) rs))"
proof -
  let ?xs = "filter (\<lambda>r. f64_le (Dist r) radius) (map (geo_result M conv lon lat) (SortedSet_Members zs))"
  let ?rs = "SortSlice (\<lambda>x y. f64_lt (Dist x) (Dist y)) ?xs"
  have nan: "Dist r \<noteq> NaN" if "r \<in> set ?xs" for r using that by (auto simp: f64_le_def)
  have sorted: "mset ?rs = mset ?xs \<and> sorted_wrt (\<lambda>a b. \<not> f64_lt (Dist b) (Dist a)) ?rs"
    using assms(1) dist_weak [of "set ?xs"] nan unfolding slice_sorter_def by blast
  then have "set ?rs = set ?xs" by (metis set_mset_mset)
  then have "f64_le (Dist a) (Dist b)" if "a \<in> set ?rs" "b \<in> set ?rs" "\<not> f64_lt (Dist b) (Dist a)" for a b
    using that nan [of a] nan [of b] by (metis f64_lt_less f64_le_less_eq not_less)
  then have "sorted_wrt (\<lambda>a b. f64_le (Dist a) (Dist b)) ?rs"
    by (rule sorted_wrt_mono_rel [OF _ conjunct2 [OF sorted]])
  moreover have "Store_GeoSearchByRadius M conv SortSlice key lon lat radius cnt asc now s =
       (if 0 < cnt then take (nat cnt) else id) ((if asc then id else rev) ?rs)" for cnt asc
    using assms(2,3) by (auto simp: Store_GeoSearchByRadius_def GeoSearch_def geo_window_def Let_def)
  ultimately show ?thesis using sorted by blast
qed

definition flat_math :: gomath where
  "flat_math = \<lparr>Sin = (\<lambda>_. Fin 0), Cos = (\<lambda>_. Fin 1), Sqrt = (\<lambda>x. x), Atan2 = (\<lambda>_ _. Fin 0)\<rparr>"

theorem geosearch_exact_witness:
  "slice_sorter insertion_sort \<and>
   (\<exists>rs. mset rs = mset ([] :: GeoResult list) \<and>
      Store_GeoSearchByRadius flat_math (\<lambda>_. 0) insertion_sort ''k'' (Fin 0) (Fin 0) (Fin 5) 0 True 0
        (Store_New\<lparr>zsets := fmupd ''k'' NewSortedSet fmempty\<rparr>) = rs)"
proof -
  let ?s = "Store_New\<lparr>zsets := fmupd ''k'' NewSortedSet fmempty\<rparr>"
  have srt: "slice_sorter insertion_sort" by (simp add: slice_sorter_def insertion_sort_sorted)
  have "\<not> isExpiredRLocked ''k'' 0 ?s" "fmlookup (zsets ?s) ''k'' = Some NewSortedSet"
    by (simp_all add: isExpiredRLocked_def Store_New_def)
  from geosearch_exact [OF srt this, of "Fin 5" flat_math "\<lambda>_. 0" "Fin 0" "Fin 0"] srt show ?thesis
    by (auto simp: SortedSet_Members_def NewSortedSet_def)
qed

end
