(* ===== verification/Vole_Server.thy ===== *)
theory Vole_Server
  imports Vole_Replay Vole_Cluster Vole_Services Vole_Geo
begin

text \<open>
  The server's command handlers: the state of \<^verbatim>\<open>internal/server/server.go\<close>, the parts the handlers share, and the handlers of
  strings, keys, hashes, lists, sets and sorted sets.  A handler returns the bytes that it wrote or the error that the connection
  loop reports.  Replies go to a buffer, so a write does not fail.  A command reads the clock once.  What the environment decides
  during a command is the record \<open>env\<close>: the clock, the outcome of the system calls when a record is appended to the log, the order
  in which Go visits a map, random numbers, the quoting of text in messages, the sorting functions, trigonometry, the conversion of
  a float out of range and \<open>encoding/json\<close>.
\<close>

section \<open>State\<close>

record env =
  clock :: gotime
  disk :: "string list \<Rightarrow> io"
  visit :: "string list \<Rightarrow> string list"
  rnd :: "nat \<Rightarrow> nat \<Rightarrow> nat"
  quote :: "string \<Rightarrow> string"
  sliceStable :: "(string \<Rightarrow> string \<Rightarrow> bool) \<Rightarrow> string list \<Rightarrow> string list"
  geoSort :: slice_sort
  math :: gomath
  toUint :: "float64 \<Rightarrow> nat"
  unmarshal :: "string \<Rightarrow> go_error + json"
  marshal :: "json \<Rightarrow> go_error + string"

record server =
  db :: store
  aof :: "AOF option"
  cluster :: Cluster
  schemas :: SchemaManager
  hits :: int
  misses :: int

type_synonym handler = "server \<Rightarrow> string res \<times> server"

section \<open>Parts of handlers\<close>

definition answer :: "string \<Rightarrow> handler" where
  "answer bs s = (Inr bs, s)"

definition fail :: "string \<Rightarrow> handler" where
  "fail m s = (Inl (Err m), s)"

definition wrongArgs :: "string \<Rightarrow> handler" where
  "wrongArgs cmd = fail (''wrong number of arguments for '' @ cmd)"

text \<open>\<open>if err := s.aof.Append(rec); err != nil { return err }\<close>, and the same with the error ignored.\<close>

definition append_log :: "env \<Rightarrow> string list \<Rightarrow> server \<Rightarrow> go_error option \<times> server" where
  "append_log e args s =
     (case aof s of
        None \<Rightarrow> (None, s)
      | Some a \<Rightarrow> (case AOF_Append (disk e args) args (clock e) a of (err, a) \<Rightarrow> (err, s\<lparr>aof := Some a\<rparr>)))"

definition logging :: "env \<Rightarrow> string list \<Rightarrow> handler \<Rightarrow> handler" where
  "logging e args h s = (case append_log e args s of (Some err, s) \<Rightarrow> (Inl err, s) | (None, s) \<Rightarrow> h s)"

definition logged :: "env \<Rightarrow> string list \<Rightarrow> handler \<Rightarrow> handler" where
  "logged e args h s = h (snd (append_log e args s))"

definition on_store :: "(store \<Rightarrow> 'a \<times> store) \<Rightarrow> ('a \<Rightarrow> handler) \<Rightarrow> handler" where
  "on_store f k s = (case f (db s) of (r, d) \<Rightarrow> k r (s\<lparr>db := d\<rparr>))"

definition change :: "(store \<Rightarrow> store) \<Rightarrow> handler \<Rightarrow> handler" where
  "change f h s = h (s\<lparr>db := f (db s)\<rparr>)"

definition reading :: "(store \<Rightarrow> 'a) \<Rightarrow> ('a \<Rightarrow> handler) \<Rightarrow> handler" where
  "reading f k s = k (f (db s)) s"

definition attempt :: "('a \<Rightarrow> handler) \<Rightarrow> 'a res \<Rightarrow> handler" where
  "attempt k r s = (case r of Inl e \<Rightarrow> (Inl e, s) | Inr x \<Rightarrow> k x s)"

definition with_int :: "string \<Rightarrow> (int \<Rightarrow> handler) \<Rightarrow> handler" where
  "with_int x k s = (case ParseInt x of (n, None) \<Rightarrow> k n s | (_, Some e) \<Rightarrow> (Inl (num_err e), s))"

definition with_float :: "string \<Rightarrow> (float64 \<Rightarrow> handler) \<Rightarrow> handler" where
  "with_float x k s = (case ParseFloat x of Inr f \<Rightarrow> k f s | Inl e \<Rightarrow> (Inl (num_err e), s))"

definition UnixNano :: "gotime \<Rightarrow> int" where
  "UnixNano t = wrap64 t"

section \<open>Replies\<close>

definition writeBulkStrings :: "string list \<Rightarrow> string" where
  "writeBulkStrings values = Writer_ArrayLen (int (length values)) @ concat (map Writer_Bulk values)"

definition writeHashPairs :: "HashPair list \<Rightarrow> string" where
  "writeHashPairs pairs =
     Writer_ArrayLen (int (length pairs) * 2) @ concat (map (\<lambda>p. Writer_Bulk (Field p) @ Writer_Bulk (FieldValue p)) pairs)"

definition formatScore :: "float64 \<Rightarrow> string" where
  "formatScore score = FormatFloat score"

definition bulk_or_null :: "string option \<Rightarrow> string" where
  "bulk_or_null v = (case v of None \<Rightarrow> Writer_Null | Some v \<Rightarrow> Writer_Bulk v)"

definition int_bool :: "bool \<Rightarrow> string" where
  "int_bool b = Writer_Int (if b then 1 else 0)"

abbreviation OK :: string where "OK \<equiv> Writer_Simple ''OK''"

section \<open>Ownership of keys\<close>

definition moved :: "Node \<Rightarrow> key \<Rightarrow> string" where
  "moved node key = Writer_Error (''MOVED '' @ FormatInt (Slot key) @ '' '' @ Addr node)"

text \<open>The reply when some key belongs elsewhere; \<open>None\<close> when all keys are owned.\<close>

definition ensureOwns :: "key list \<Rightarrow> Cluster \<Rightarrow> string option" where
  "ensureOwns ks c =
     (if 1 < length ks \<and> 1 < Cluster_NodeCount c \<and> (\<exists>k \<in> set (tl ks). Slot k \<noteq> Slot (hd ks))
      then Some (Writer_Error (''CROSSSLOT Keys in request don'' @ [CHR 0x27] @ ''t hash to the same slot''))
      else case List.find (\<lambda>k. \<not> Cluster_SelfOwns k c) ks of
        Some k \<Rightarrow> Some (moved (Cluster_Owner k c) k)
      | None \<Rightarrow> None)"

definition owning :: "key list \<Rightarrow> handler \<Rightarrow> handler" where
  "owning ks h s = (case ensureOwns ks (cluster s) of Some bs \<Rightarrow> (Inr bs, s) | None \<Rightarrow> h s)"

section \<open>Strings\<close>

record set_options =
  opt_ttl :: duration
  opt_delay :: duration
  useNX :: bool
  useXX :: bool

fun parse_set_options :: "string list \<Rightarrow> set_options \<Rightarrow> set_options res" where
  "parse_set_options [] opts = Inr opts"
| "parse_set_options (x # xs) opts =
     (if ToUpper x = ''NX'' then parse_set_options xs (opts\<lparr>useNX := True\<rparr>)
      else if ToUpper x = ''XX'' then parse_set_options xs (opts\<lparr>useXX := True\<rparr>)
      else if ToUpper x \<in> {''EX'', ''PX'', ''AFTER''} then
        (case xs of
           [] \<Rightarrow> Inl (Err ''wrong number of arguments for SET'')
         | v # ys \<Rightarrow>
             (case ParseInt v of
                (_, Some e) \<Rightarrow> Inl (num_err e)
              | (n, None) \<Rightarrow>
                  parse_set_options ys
                    (if ToUpper x = ''EX'' then opts\<lparr>opt_ttl := seconds n\<rparr>
                     else if ToUpper x = ''PX'' then opts\<lparr>opt_ttl := millis n\<rparr>
                     else opts\<lparr>opt_delay := seconds n\<rparr>)))
      else Inl (Err ''unsupported SET option''))"

definition setabs_record :: "env \<Rightarrow> key \<Rightarrow> string \<Rightarrow> duration \<Rightarrow> string list" where
  "setabs_record e key value ttl =
     [''SETABS'', key, value, if 0 < ttl \<and> \<not> IsZero (clock e + ttl) then FormatInt (UnixNano (clock e + ttl)) else ''0'']"

definition Server_set :: "env \<Rightarrow> string list \<Rightarrow> handler" where
  "Server_set e args =
     (if length args < 3 then wrongArgs ''SET''
      else
        let key = args ! 1; value = args ! 2 in
        attempt (\<lambda>opts.
          if useNX opts \<and> useXX opts then fail ''NX and XX options are mutually exclusive''
          else owning [key]
            (if 0 < opt_delay opts then
               logging e ([''SETDELAYED'', key, value, FormatInt (go_div (opt_delay opts) Second)] @
                   (if 0 < opt_ttl opts then [''EX'', FormatInt (go_div (opt_ttl opts) Second)] else []))
                 (change (Store_SetDelayed key value (opt_delay opts) (opt_ttl opts) (clock e)) (answer OK))
             else if useNX opts then
               on_store (Store_SetNX key value (opt_ttl opts) (clock e)) (\<lambda>ok.
                 if \<not> ok then answer Writer_Null else logging e (setabs_record e key value (opt_ttl opts)) (answer OK))
             else if useXX opts then
               on_store (Store_SetXX key value (opt_ttl opts) (clock e)) (\<lambda>ok.
                 if \<not> ok then answer Writer_Null else logging e (setabs_record e key value (opt_ttl opts)) (answer OK))
             else
               logging e (setabs_record e key value (opt_ttl opts))
                 (change (Store_SetAbsolute key value (if 0 < opt_ttl opts then clock e + opt_ttl opts else zeroTime) (clock e)) (answer OK))))
          (parse_set_options (drop 3 args) \<lparr>opt_ttl = 0, opt_delay = 0, useNX = False, useXX = False\<rparr>))"

definition Server_mset :: "env \<Rightarrow> string list \<Rightarrow> handler" where
  "Server_mset e args =
     (if length args < 3 \<or> even (length args) then wrongArgs ''MSET''
      else
        let ps = pairs_of (drop 1 args) in
        owning (map fst ps)
          (logging e (''MSETABS'' # concat (map (\<lambda>(k, v). [k, v, ''0'']) ps))
            (change (fold (\<lambda>(k, v). Store_SetAbsolute k v zeroTime (clock e)) ps) (answer OK))))"

definition count_access :: "bool \<Rightarrow> handler \<Rightarrow> handler" where
  "count_access hit h s = h (if hit then s\<lparr>hits := wrap64 (hits s + 1)\<rparr> else s\<lparr>misses := wrap64 (misses s + 1)\<rparr>)"

text \<open>\<open>SETEX\<close> and \<open>PSETEX\<close>, which differ in the unit.\<close>

definition setex :: "env \<Rightarrow> string \<Rightarrow> (int \<Rightarrow> duration) \<Rightarrow> string list \<Rightarrow> handler" where
  "setex e cmd unit args =
     (if length args \<noteq> 4 then wrongArgs cmd
      else owning [args ! 1] (with_int (args ! 2) (\<lambda>n.
        if n \<le> 0 then fail (''invalid expire time in '' @ cmd)
        else let expireAt = clock e + unit n in
          logging e [''SETABS'', args ! 1, args ! 3, FormatInt (UnixNano expireAt)]
            (change (Store_SetAbsolute (args ! 1) (args ! 3) expireAt (clock e)) (answer OK)))))"

definition exec_strings :: "env \<Rightarrow> string \<Rightarrow> string list \<Rightarrow> handler option" where
  "exec_strings e cmd args =
     (if cmd = ''PING'' then
        Some (if 1 < length args then answer (Writer_Bulk (args ! 1)) else answer (Writer_Simple ''PONG''))
      else if cmd = ''ECHO'' then
        Some (if length args \<noteq> 2 then wrongArgs cmd else answer (Writer_Bulk (args ! 1)))
      else if cmd = ''GET'' then
        Some (if length args \<noteq> 2 then wrongArgs cmd
          else owning [args ! 1] (on_store (Store_Get (args ! 1) (clock e)) (\<lambda>v.
            count_access (v \<noteq> None) (answer (bulk_or_null v)))))
      else if cmd = ''MGET'' then
        Some (if length args < 2 then wrongArgs cmd
          else owning (drop 1 args) (reading (Store_MGet (drop 1 args) (clock e)) (\<lambda>vs.
            answer (Writer_ArrayLen (int (length vs)) @ concat (map bulk_or_null vs)))))
      else if cmd = ''SET'' then Some (Server_set e args)
      else if cmd = ''SETNX'' then
        Some (if length args \<noteq> 3 then wrongArgs cmd
          else owning [args ! 1] (on_store (Store_SetNX (args ! 1) (args ! 2) 0 (clock e)) (\<lambda>ok.
            if ok then logged e [''SETABS'', args ! 1, args ! 2, ''0''] (answer (Writer_Int 1)) else answer (Writer_Int 0))))
      else if cmd = ''SETEX'' then Some (setex e cmd seconds args)
      else if cmd = ''PSETEX'' then Some (setex e cmd millis args)
      else if cmd = ''MSET'' then Some (Server_mset e args)
      else if cmd = ''EXISTS'' then
        Some (if length args < 2 then wrongArgs cmd
          else owning (drop 1 args) (reading (Store_Exists (drop 1 args) (clock e)) (\<lambda>n. answer (Writer_Int (int n)))))
      else if cmd = ''TYPE'' then
        Some (if length args \<noteq> 2 then wrongArgs cmd
          else owning [args ! 1] (reading (Store_Type (args ! 1) (clock e)) (\<lambda>t. answer (Writer_Simple t))))
      else None)"

end
