(* ===== verification/Vole_Handlers.thy ===== *)
theory Vole_Handlers
  imports Vole_Server
begin

text \<open>
  The handlers of \<^verbatim>\<open>internal/server/server.go\<close> for counters, deadlines, hashes, lists, sets and sorted sets.  Each group is a part of
  the switch of \<open>exec\<close> and answers \<open>None\<close> for the commands of other groups; the handlers with a method of their own keep its name.
\<close>

section \<open>Keys and counters\<close>

fun scan_options :: "(string \<Rightarrow> string) \<Rightarrow> string list \<Rightarrow> string \<times> int \<Rightarrow> (string \<times> int) res" where
  "scan_options qt [] pc = Inr pc"
| "scan_options qt [x] pc = Inl (Err ''wrong number of arguments for SCAN'')"
| "scan_options qt (x # v # xs) (pattern, cnt) =
     (if ToUpper x = ''MATCH'' then scan_options qt xs (v, cnt)
      else if ToUpper x = ''COUNT'' then
        (case Atoi v of (n, None) \<Rightarrow> scan_options qt xs (pattern, n) | (_, Some e) \<Rightarrow> Inl (num_err e))
      else Inl (Err (''unsupported SCAN option '' @ qt x)))"

definition Server_scan :: "env \<Rightarrow> string list \<Rightarrow> handler" where
  "Server_scan e args =
     (if length args < 2 then wrongArgs ''SCAN''
      else with_int (args ! 1) (\<lambda>cursor.
        attempt (\<lambda>(pattern, cnt). reading (Store_Scan cursor cnt pattern (clock e)) (attempt (\<lambda>(nxt, ks).
            answer (Writer_ArrayLen 2 @ Writer_Bulk (FormatInt nxt) @ writeBulkStrings ks))))
          (scan_options (quote e) (drop 2 args) (''*'', 10))))"

definition incr_by :: "env \<Rightarrow> string list \<Rightarrow> (store \<Rightarrow> int res \<times> store) \<Rightarrow> handler" where
  "incr_by e args f = logging e args (on_store f (attempt (\<lambda>n. answer (Writer_Int n))))"

definition exec_counters :: "env \<Rightarrow> string \<Rightarrow> string list \<Rightarrow> handler option" where
  "exec_counters e cmd args =
     (if cmd = ''KEYS'' then
        Some (if length args \<noteq> 2 then wrongArgs cmd
          else reading (Store_Keys (args ! 1) (clock e)) (\<lambda>ks. answer (writeBulkStrings ks)))
      else if cmd = ''SCAN'' then Some (Server_scan e args)
      else if cmd = ''DEL'' then
        Some (if length args < 2 then wrongArgs cmd
          else owning (drop 1 args) (logging e args
            (on_store (Store_Del (drop 1 args) (clock e)) (\<lambda>n. answer (Writer_Int (int n))))))
      else if cmd = ''INCR'' then
        Some (if length args \<noteq> 2 then wrongArgs cmd
          else owning [args ! 1] (on_store (Store_Get (args ! 1) (clock e)) (\<lambda>v.
            if (case v of Some x \<Rightarrow> snd (ParseInt x) \<noteq> None | None \<Rightarrow> False) then fail ''value is not an integer''
            else incr_by e args (Store_Incr (args ! 1) (clock e)))))
      else if cmd = ''INCRBY'' then
        Some (if length args \<noteq> 3 then wrongArgs cmd
          else owning [args ! 1] (with_int (args ! 2) (\<lambda>delta. incr_by e args (Store_IncrBy (args ! 1) delta (clock e)))))
      else if cmd = ''DECRBY'' then
        Some (if length args \<noteq> 3 then wrongArgs cmd
          else owning [args ! 1] (with_int (args ! 2) (\<lambda>delta. incr_by e args (Store_DecrBy (args ! 1) delta (clock e)))))
      else if cmd = ''DECR'' then
        Some (if length args \<noteq> 2 then wrongArgs cmd
          else owning [args ! 1] (incr_by e args (Store_IncrBy (args ! 1) (-1) (clock e))))
      else if cmd = ''INCRBYFLOAT'' then
        Some (if length args \<noteq> 3 then wrongArgs cmd
          else owning [args ! 1] (with_float (args ! 2) (\<lambda>delta.
            logging e args (on_store (Store_IncrByFloat (args ! 1) delta (clock e)) (attempt (\<lambda>r.
              answer (Writer_Bulk (FormatFloat r))))))))
      else None)"

text \<open>\<open>EXPIRE\<close> and \<open>PEXPIRE\<close>, which differ in the unit.\<close>

definition expire :: "env \<Rightarrow> string \<Rightarrow> (int \<Rightarrow> duration) \<Rightarrow> string list \<Rightarrow> handler" where
  "expire e cmd unit args =
     (if length args \<noteq> 3 then wrongArgs cmd
      else owning [args ! 1] (with_int (args ! 2) (\<lambda>n.
        reading (Store_TTL (args ! 1) (clock e)) (\<lambda>ttl.
          if ttl = -2 then answer (Writer_Int 0)
          else let expireAt = clock e + unit n in
            logging e [''EXPIREATABS'', args ! 1, FormatInt (UnixNano expireAt)]
              (on_store (Store_ExpireAt (args ! 1) expireAt (clock e)) (\<lambda>ok. answer (int_bool ok)))))))"

definition exec_deadlines :: "env \<Rightarrow> string \<Rightarrow> string list \<Rightarrow> handler option" where
  "exec_deadlines e cmd args =
     (if cmd = ''EXPIRE'' then Some (expire e cmd seconds args)
      else if cmd = ''PEXPIRE'' then Some (expire e cmd millis args)
      else if cmd = ''TTL'' then
        Some (if length args \<noteq> 2 then wrongArgs cmd
          else owning [args ! 1] (reading (Store_TTL (args ! 1) (clock e)) (\<lambda>n. answer (Writer_Int n))))
      else if cmd = ''PTTL'' then
        Some (if length args \<noteq> 2 then wrongArgs cmd
          else owning [args ! 1] (reading (Store_PTTL (args ! 1) (clock e)) (\<lambda>n. answer (Writer_Int n))))
      else None)"

section \<open>Hashes\<close>

definition validated :: "env \<Rightarrow> key \<Rightarrow> string gomap \<Rightarrow> handler \<Rightarrow> handler" where
  "validated e key flds h s =
     (case SchemaManager_Validate (quote e) (visit e) key flds (schemas s) of Some err \<Rightarrow> (Inl err, s) | None \<Rightarrow> h s)"

text \<open>The check of the type that handlers make before they append to the log.\<close>

definition of_type :: "env \<Rightarrow> key \<Rightarrow> string \<Rightarrow> handler \<Rightarrow> handler" where
  "of_type e key typ h = reading (Store_Type key (clock e)) (\<lambda>t. if t \<noteq> ''none'' \<and> t \<noteq> typ then fail ''wrong type'' else h)"

definition existing :: "env \<Rightarrow> key \<Rightarrow> string \<Rightarrow> string \<Rightarrow> handler \<Rightarrow> handler" where
  "existing e key typ absent h =
     reading (Store_Type key (clock e)) (\<lambda>t. if t = ''none'' then answer absent else if t \<noteq> typ then fail ''wrong type'' else h)"

definition Server_hset :: "env \<Rightarrow> string list \<Rightarrow> handler" where
  "Server_hset e args =
     (if length args < 4 \<or> odd (length args) then wrongArgs ''HSET''
      else owning [args ! 1]
        (let ps = pairs_of (drop 2 args) in
         validated e (args ! 1) (fold (\<lambda>(f, v). fmupd f v) ps fmempty) (of_type e (args ! 1) ''hash''
           (logging e (''HSET'' # args ! 1 # concat (map (\<lambda>(f, v). [f, v]) ps))
             (on_store (Store_HSet (args ! 1) (map (\<lambda>(f, v). \<lparr>Field = f, FieldValue = v\<rparr>) ps) (clock e)) (attempt (\<lambda>n.
               answer (Writer_Int (int n)))))))))"

definition Server_hdel :: "env \<Rightarrow> string list \<Rightarrow> handler" where
  "Server_hdel e args =
     (if length args < 3 then wrongArgs ''HDEL''
      else owning [args ! 1] (existing e (args ! 1) ''hash'' (Writer_Int 0)
        (logging e args (on_store (Store_HDel (args ! 1) (drop 2 args) (clock e)) (attempt (\<lambda>n. answer (Writer_Int (int n))))))))"

text \<open>The clauses of \<open>HSEARCH\<close>: conditions, offset and count.\<close>

function hsearch_clauses :: "string list \<Rightarrow> SearchCondition list \<Rightarrow> int \<Rightarrow> int \<Rightarrow> (SearchCondition list \<times> int \<times> int) res" where
  "hsearch_clauses xs conds off cnt =
     (if xs = [] then Inr (conds, off, cnt)
      else if EqualFold (hd xs) ''LIMIT'' then
        if length xs \<le> 2 then Inl (Err ''wrong number of arguments for HSEARCH'')
        else (case Atoi (xs ! 1) of
                (_, Some e) \<Rightarrow> Inl (num_err e)
              | (off, None) \<Rightarrow>
                  (case Atoi (xs ! 2) of
                     (_, Some e) \<Rightarrow> Inl (num_err e)
                   | (cnt, None) \<Rightarrow> hsearch_clauses (drop 3 xs) conds off cnt))
      else if EqualFold (hd xs) ''AND'' then hsearch_clauses (tl xs) conds off cnt
      else if length xs \<le> 2 then Inl (Err ''wrong number of arguments for HSEARCH'')
      else hsearch_clauses (drop 3 xs) (conds @ [\<lparr>CondField = xs ! 0, Op = xs ! 1, CondValue = xs ! 2\<rparr>]) off cnt)"
  by pat_completeness auto
termination by (relation "measure (\<lambda>(xs, _). length xs)") auto

definition Server_hsearch :: "env \<Rightarrow> string list \<Rightarrow> handler" where
  "Server_hsearch e args =
     (if length args < 5 \<or> \<not> EqualFold (args ! 2) ''WHERE'' then wrongArgs ''HSEARCH''
      else attempt (\<lambda>(conds, off, cnt).
        if conds = [] then wrongArgs ''HSEARCH''
        else reading (Store_HSearch (args ! 1) conds off cnt (clock e)) (\<lambda>rs.
          answer (Writer_ArrayLen (int (length rs)) @
            concat (map (\<lambda>(k, m). Writer_ArrayLen 2 @ Writer_Bulk k @
              writeBulkStrings (concat (map (\<lambda>f. [f, the (fmlookup m f)]) (sorted_keys m)))) rs))))
        (hsearch_clauses (drop 3 args) [] 0 0))"

definition exec_hashes :: "env \<Rightarrow> string \<Rightarrow> string list \<Rightarrow> handler option" where
  "exec_hashes e cmd args =
     (if cmd = ''HSET'' then Some (Server_hset e args)
      else if cmd = ''HGET'' then
        Some (if length args \<noteq> 3 then wrongArgs cmd
          else owning [args ! 1] (reading (Store_HGet (args ! 1) (args ! 2) (clock e)) (attempt (\<lambda>v. answer (bulk_or_null v)))))
      else if cmd = ''HGETALL'' then
        Some (if length args \<noteq> 2 then wrongArgs cmd
          else owning [args ! 1] (reading (Store_HGetAll (args ! 1) (clock e)) (attempt (\<lambda>ps. answer (writeHashPairs ps)))))
      else if cmd = ''HSEARCH'' then Some (Server_hsearch e args)
      else if cmd = ''HDEL'' then Some (Server_hdel e args)
      else if cmd = ''HINCRBY'' then
        Some (if length args \<noteq> 4 then wrongArgs cmd
          else owning [args ! 1] (with_int (args ! 3) (\<lambda>delta.
            validated e (args ! 1) (fmupd (args ! 2) (args ! 3) fmempty)
              (incr_by e args (Store_HIncrBy (args ! 1) (args ! 2) delta (clock e))))))
      else if cmd = ''HSETNX'' then
        Some (if length args \<noteq> 4 then wrongArgs cmd
          else owning [args ! 1] (validated e (args ! 1) (fmupd (args ! 2) (args ! 3) fmempty)
            (on_store (Store_HSetNX (args ! 1) (args ! 2) (args ! 3) (clock e)) (attempt (\<lambda>ok.
              if ok then logging e [''HSET'', args ! 1, args ! 2, args ! 3] (answer (Writer_Int 1)) else answer (Writer_Int 0))))))
      else None)"

section \<open>Lists\<close>

definition Server_listPush :: "env \<Rightarrow> bool \<Rightarrow> string list \<Rightarrow> handler" where
  "Server_listPush e left args =
     (if length args < 3 then wrongArgs (args ! 0)
      else owning [args ! 1] (of_type e (args ! 1) ''list'' (logging e args
        (on_store (if left then Store_LPush (args ! 1) (drop 2 args) (clock e) else Store_RPush (args ! 1) (drop 2 args) (clock e))
          (attempt (\<lambda>n. answer (Writer_Int (int n))))))))"

definition Server_listPop :: "env \<Rightarrow> bool \<Rightarrow> string list \<Rightarrow> handler" where
  "Server_listPop e left args =
     (if length args \<noteq> 2 then wrongArgs (args ! 0)
      else owning [args ! 1] (existing e (args ! 1) ''list'' Writer_Null (logging e args
        (on_store (if left then Store_LPop (args ! 1) (clock e) else Store_RPop (args ! 1) (clock e))
          (attempt (\<lambda>v. answer (bulk_or_null v)))))))"

definition Server_lrange :: "env \<Rightarrow> string list \<Rightarrow> handler" where
  "Server_lrange e args =
     (if length args \<noteq> 4 then wrongArgs ''LRANGE''
      else owning [args ! 1] (with_int (args ! 2) (\<lambda>start. with_int (args ! 3) (\<lambda>stop.
        reading (Store_LRange (args ! 1) start stop (clock e)) (attempt (\<lambda>vs. answer (writeBulkStrings vs)))))))"

definition exec_lists :: "env \<Rightarrow> string \<Rightarrow> string list \<Rightarrow> handler option" where
  "exec_lists e cmd args =
     (if cmd = ''LPUSH'' then Some (Server_listPush e True args)
      else if cmd = ''RPUSH'' then Some (Server_listPush e False args)
      else if cmd = ''LPOP'' then Some (Server_listPop e True args)
      else if cmd = ''RPOP'' then Some (Server_listPop e False args)
      else if cmd = ''LRANGE'' then Some (Server_lrange e args)
      else if cmd = ''LINDEX'' then
        Some (if length args \<noteq> 3 then wrongArgs cmd
          else owning [args ! 1] (with_int (args ! 2) (\<lambda>i.
            reading (Store_LIndex (args ! 1) i (clock e)) (attempt (\<lambda>v. answer (bulk_or_null v))))))
      else if cmd = ''LSET'' then
        Some (if length args \<noteq> 4 then wrongArgs cmd
          else owning [args ! 1] (with_int (args ! 2) (\<lambda>i. logging e args
            (on_store (Store_LSet (args ! 1) i (args ! 3) (clock e)) (attempt (\<lambda>_. answer OK))))))
      else if cmd = ''LINSERT'' then
        Some (if length args \<noteq> 5 then wrongArgs cmd
          else owning [args ! 1]
            (let before = EqualFold (args ! 2) ''BEFORE'' in
             if \<not> before \<and> \<not> EqualFold (args ! 2) ''AFTER'' then wrongArgs cmd
             else logging e args
               (on_store (Store_LInsert (args ! 1) before (args ! 3) (args ! 4) (clock e)) (attempt (\<lambda>n. answer (Writer_Int n))))))
      else if cmd = ''LPOS'' then
        Some (if length args \<noteq> 3 then wrongArgs cmd
          else owning [args ! 1] (reading (Store_LPos (args ! 1) (args ! 2) (clock e)) (attempt (\<lambda>p.
            answer (case p of None \<Rightarrow> Writer_Null | Some i \<Rightarrow> Writer_Int (int i))))))
      else if cmd = ''LREM'' then
        Some (if length args \<noteq> 4 then wrongArgs cmd
          else owning [args ! 1] (with_int (args ! 2) (\<lambda>cnt. logging e args
            (on_store (Store_LRem (args ! 1) cnt (args ! 3) (clock e)) (attempt (\<lambda>n. answer (Writer_Int (int n))))))))
      else None)"

section \<open>Sets\<close>

definition Server_sadd :: "env \<Rightarrow> string list \<Rightarrow> handler" where
  "Server_sadd e args =
     (if length args < 3 then wrongArgs ''SADD''
      else owning [args ! 1] (of_type e (args ! 1) ''set'' (logging e args
        (on_store (Store_SAdd (args ! 1) (drop 2 args) (clock e)) (attempt (\<lambda>n. answer (Writer_Int (int n))))))))"

definition Server_srem :: "env \<Rightarrow> string list \<Rightarrow> handler" where
  "Server_srem e args =
     (if length args < 3 then wrongArgs ''SREM''
      else owning [args ! 1] (existing e (args ! 1) ''set'' (Writer_Int 0) (logging e args
        (on_store (Store_SRem (args ! 1) (drop 2 args) (clock e)) (attempt (\<lambda>n. answer (Writer_Int (int n))))))))"

definition members_reply :: "bool \<Rightarrow> string list \<Rightarrow> string" where
  "members_reply returnArray ms =
     (if \<not> returnArray then (case ms of [] \<Rightarrow> Writer_Null | m # _ \<Rightarrow> Writer_Bulk m) else writeBulkStrings ms)"

text \<open>\<open>SRANDMEMBER\<close> and \<open>SPOP\<close> read an optional count.\<close>

definition with_count :: "string list \<Rightarrow> (int \<Rightarrow> handler) \<Rightarrow> handler" where
  "with_count args k = (if length args = 3 then with_int (args ! 2) k else k 1)"

definition set_order :: "env \<Rightarrow> key \<Rightarrow> store \<Rightarrow> string list" where
  "set_order e key d = visit e (case fmlookup (sets d) key of Some S \<Rightarrow> sorted_list_of_fset S | None \<Rightarrow> [])"

definition exec_sets :: "env \<Rightarrow> string \<Rightarrow> string list \<Rightarrow> handler option" where
  "exec_sets e cmd args =
     (if cmd = ''SADD'' then Some (Server_sadd e args)
      else if cmd = ''SREM'' then Some (Server_srem e args)
      else if cmd = ''SMEMBERS'' then
        Some (if length args \<noteq> 2 then wrongArgs cmd
          else owning [args ! 1] (reading (Store_SMembers (args ! 1) (clock e)) (attempt (\<lambda>ms. answer (writeBulkStrings ms)))))
      else if cmd = ''SISMEMBER'' then
        Some (if length args \<noteq> 3 then wrongArgs cmd
          else owning [args ! 1] (reading (Store_SIsMember (args ! 1) (args ! 2) (clock e)) (attempt (\<lambda>b. answer (int_bool b)))))
      else if cmd = ''SCARD'' then
        Some (if length args \<noteq> 2 then wrongArgs cmd
          else owning [args ! 1] (reading (Store_SCard (args ! 1) (clock e)) (attempt (\<lambda>n. answer (Writer_Int (int n))))))
      else if cmd = ''SRANDMEMBER'' then
        Some (if length args < 2 \<or> 3 < length args then wrongArgs cmd
          else owning [args ! 1] (with_count args (\<lambda>cnt.
            reading (\<lambda>d. Store_SRandMember (rnd e) (set_order e (args ! 1) d) (args ! 1) cnt (clock e) d) (attempt (\<lambda>ms.
              answer (members_reply (length args = 3) ms))))))
      else if cmd = ''SMOVE'' then
        Some (if length args \<noteq> 4 then wrongArgs cmd
          else owning [args ! 1] (owning [args ! 2] (logging e args
            (on_store (Store_SMove (args ! 1) (args ! 2) (args ! 3) (clock e)) (attempt (\<lambda>ok. answer (int_bool ok)))))))
      else if cmd = ''SPOP'' then
        Some (if length args < 2 \<or> 3 < length args then wrongArgs cmd
          else owning [args ! 1] (with_count args (\<lambda>cnt.
            on_store (\<lambda>d. Store_SPop (set_order e (args ! 1) d) (args ! 1) cnt (clock e) d) (attempt (\<lambda>ms.
              (if ms \<noteq> [] then logged e (''SREM'' # args ! 1 # ms) else id) (answer (members_reply (length args = 3) ms)))))))
      else None)"

section \<open>Sorted sets\<close>

fun parse_members :: "(string \<times> string) list \<Rightarrow> ZMember list res" where
  "parse_members [] = Inr []"
| "parse_members ((x, m) # ps) =
     (case ParseFloat x of
        Inl e \<Rightarrow> Inl (num_err e)
      | Inr f \<Rightarrow> (case parse_members ps of Inl e \<Rightarrow> Inl e | Inr ms \<Rightarrow> Inr (\<lparr>Member = m, Score = f\<rparr> # ms)))"

definition Server_zadd :: "env \<Rightarrow> string list \<Rightarrow> handler" where
  "Server_zadd e args =
     (if length args < 4 \<or> odd (length args) then wrongArgs ''ZADD''
      else owning [args ! 1] (attempt (\<lambda>ms.
        of_type e (args ! 1) ''zset'' (logging e args
          (on_store (Store_ZAdd (args ! 1) ms (clock e)) (attempt (\<lambda>n. answer (Writer_Int (int n)))))))
        (parse_members (pairs_of (drop 2 args)))))"

definition members_with_scores :: "bool \<Rightarrow> ZMember list \<Rightarrow> string" where
  "members_with_scores withScores items =
     (if \<not> withScores then writeBulkStrings (map Member items)
      else Writer_ArrayLen (int (length items) * 2) @
        concat (map (\<lambda>i. Writer_Bulk (Member i) @ Writer_Bulk (formatScore (Score i))) items))"

definition Server_zrange :: "env \<Rightarrow> string list \<Rightarrow> handler" where
  "Server_zrange e args =
     (if length args \<noteq> 4 \<and> length args \<noteq> 5 then wrongArgs ''ZRANGE''
      else owning [args ! 1] (with_int (args ! 2) (\<lambda>start. with_int (args ! 3) (\<lambda>stop.
        if length args = 5 \<and> \<not> EqualFold (args ! 4) ''WITHSCORES'' then wrongArgs ''ZRANGE''
        else reading (Store_ZRange (args ! 1) start stop (clock e)) (attempt (\<lambda>items.
          answer (members_with_scores (length args = 5) items)))))))"

definition Server_zrem :: "env \<Rightarrow> string list \<Rightarrow> handler" where
  "Server_zrem e args =
     (if length args < 3 then wrongArgs ''ZREM''
      else owning [args ! 1] (existing e (args ! 1) ''zset'' (Writer_Int 0) (logging e args
        (on_store (Store_ZRem (args ! 1) (drop 2 args) (clock e)) (attempt (\<lambda>n. answer (Writer_Int (int n))))))))"

definition exec_zsets :: "env \<Rightarrow> string \<Rightarrow> string list \<Rightarrow> handler option" where
  "exec_zsets e cmd args =
     (if cmd = ''ZADD'' then Some (Server_zadd e args)
      else if cmd = ''ZRANGE'' then Some (Server_zrange e args)
      else if cmd = ''ZREM'' then Some (Server_zrem e args)
      else if cmd = ''ZSCORE'' then
        Some (if length args \<noteq> 3 then wrongArgs cmd
          else owning [args ! 1] (reading (Store_ZScore (args ! 1) (args ! 2) (clock e)) (attempt (\<lambda>v.
            answer (bulk_or_null (map_option formatScore v))))))
      else if cmd = ''ZCARD'' then
        Some (if length args \<noteq> 2 then wrongArgs cmd
          else owning [args ! 1] (reading (Store_ZCard (args ! 1) (clock e)) (attempt (\<lambda>n. answer (Writer_Int (int n))))))
      else None)"

end
