(* ===== verification/Vole_Bitmaps.thy ===== *)
theory Vole_Bitmaps
  imports Vole_Keys
begin

unbundle bit_operations_syntax

text \<open>
  The bitmap operations of \<^verbatim>\<open>internal/store/store.go\<close>: a string read as a sequence of bits, the highest bit
  of each byte first.
\<close>

section \<open>Operations\<close>

type_synonym byte = "8 word"

definition byte_of :: "char \<Rightarrow> byte" where
  "byte_of c = of_nat (of_char c)"

definition char_of_byte :: "byte \<Rightarrow> char" where
  "char_of_byte b = char_of (unat b)"

function popcount :: "byte \<Rightarrow> nat" where
  "popcount b = (if b \<noteq> 0 then unat (b AND 1) + popcount (drop_bit 1 b) else 0)"
  by pat_completeness auto
termination
proof (relation "measure unat")
  fix b :: byte assume "b \<noteq> 0"
  then have "0 < unat b" by (simp add: unat_gt_0)
  then have "unat b div 2 < unat b" by simp
  then show "(drop_bit 1 b, b) \<in> measure unat" by (simp add: drop_bit_eq_div unat_div)
qed simp

declare popcount.simps [simp del]

text \<open>\<open>(b >> bitIndex) & 1\<close>, \<open>b |= 1 << bitIndex\<close> and \<open>b &^= 1 << bitIndex\<close>.\<close>

definition get_bit :: "byte \<Rightarrow> nat \<Rightarrow> nat" where
  "get_bit b i = unat (drop_bit i b AND 1)"

definition put_bit :: "nat \<Rightarrow> int \<Rightarrow> byte \<Rightarrow> byte" where
  "put_bit i v b = (if v = 1 then b OR push_bit i 1 else b AND NOT (push_bit i 1))"

definition string_or_empty :: "key \<Rightarrow> store \<Rightarrow> string" where
  "string_or_empty key s = (case fmlookup (kv s) key of None \<Rightarrow> [] | Some v \<Rightarrow> v)"

text \<open>\<open>make\<close> succeeds for every length here; Go panics above its allocation limit.\<close>

definition Store_SetBit :: "key \<Rightarrow> int \<Rightarrow> int \<Rightarrow> gotime \<Rightarrow> store \<Rightarrow> nat res \<times> store" where
  "Store_SetBit key offset v now s =
     (if offset < 0 then (Inl (Err ''bit offset is not an integer or out of range''), s)
      else if v \<noteq> 0 \<and> v \<noteq> 1 then (Inl (Err ''bit is not an integer or out of range''), s)
      else case expiredKeyLocked key now s of (_, s) \<Rightarrow>
        if anyOf other_kinds key s then (Inl WrongType, s)
        else let byteIndex = nat (offset div 8);
                 bitIndex = nat (7 - offset mod 8);
                 buf = string_or_empty key s;
                 buf = (if length buf \<le> byteIndex then copy_at 0 buf (zero_bytes (byteIndex + 1)) else buf);
                 oldBit = get_bit (byte_of (buf ! byteIndex)) bitIndex;
                 buf = buf[byteIndex := char_of_byte (put_bit bitIndex v (byte_of (buf ! byteIndex)))];
                 s = touchKeyLocked [key] now (s\<lparr>kv := fmupd key buf (kv s)\<rparr>)
             in (Inr oldBit, s))"

definition Store_GetBit :: "key \<Rightarrow> int \<Rightarrow> gotime \<Rightarrow> store \<Rightarrow> nat res" where
  "Store_GetBit key offset now s =
     (if offset < 0 then Inl (Err ''bit offset is not an integer or out of range'')
      else if isExpiredRLocked key now s then Inr 0
      else if anyOf other_kinds key s then Inl WrongType
      else case fmlookup (kv s) key of
        None \<Rightarrow> Inr 0
      | Some v \<Rightarrow>
          let byteIndex = nat (offset div 8); bitIndex = nat (7 - offset mod 8)
          in if length v \<le> byteIndex then Inr 0 else Inr (get_bit (byte_of (v ! byteIndex)) bitIndex))"

text \<open>The bounds of \<open>BITCOUNT\<close> and \<open>BITPOS\<close> on a string of length \<open>n\<close>.\<close>

definition bit_bounds :: "int \<Rightarrow> int \<Rightarrow> bool \<Rightarrow> int \<Rightarrow> int \<times> int" where
  "bit_bounds start end hasBounds n =
     (let (start, end) = (if hasBounds then (start, end) else (0, n - 1));
          start = (if start < 0 then n + start else start);
          end = (if end < 0 then n + end else end);
          start = (if start < 0 then 0 else start);
          end = (if n \<le> end then n - 1 else end)
      in (start, end))"

definition Store_BitCount :: "key \<Rightarrow> int \<Rightarrow> int \<Rightarrow> bool \<Rightarrow> gotime \<Rightarrow> store \<Rightarrow> nat res" where
  "Store_BitCount key start end hasBounds now s =
     (if isExpiredRLocked key now s then Inr 0
      else if anyOf other_kinds key s then Inl WrongType
      else case fmlookup (kv s) key of
        None \<Rightarrow> Inr 0
      | Some v \<Rightarrow>
          (case bit_bounds start end hasBounds (int (length v)) of (start, end) \<Rightarrow>
             if end < start then Inr 0
             else Inr (sum_list (map (\<lambda>i. popcount (byte_of (v ! nat i))) [start..end]))))"

text \<open>The loop of \<open>BITOP\<close> that reads the sources and tracks the longest; a wrong type ends it.\<close>

fun bitop_read :: "key list \<Rightarrow> string list \<Rightarrow> nat \<Rightarrow> gotime \<Rightarrow> store \<Rightarrow> (string list \<times> nat) option \<times> store" where
  "bitop_read [] bufs maxLen now s = (Some (bufs, maxLen), s)"
| "bitop_read (key # keys) bufs maxLen now s =
     (case expiredKeyLocked key now s of (_, s) \<Rightarrow>
        if anyOf other_kinds key s then (None, s)
        else let buf = string_or_empty key s
             in bitop_read keys (bufs @ [buf]) (if maxLen < length buf then length buf else maxLen) now s)"

definition and_into :: "string \<Rightarrow> byte list \<Rightarrow> byte list" where
  "and_into buf result =
     map (\<lambda>i. result ! i AND (if i < length buf then byte_of (buf ! i) else 0)) [0..<length result]"

definition or_into :: "string \<Rightarrow> byte list \<Rightarrow> byte list" where
  "or_into buf result = fold (\<lambda>i r. r[i := r ! i OR byte_of (buf ! i)]) [0..<length buf] result"

definition xor_into :: "string \<Rightarrow> byte list \<Rightarrow> byte list" where
  "xor_into buf result = fold (\<lambda>i r. r[i := r ! i XOR byte_of (buf ! i)]) [0..<length buf] result"

definition bitop_combine :: "string \<Rightarrow> string list \<Rightarrow> nat \<Rightarrow> byte list option" where
  "bitop_combine opn bufs maxLen =
     (if opn = ''AND'' then Some (fold and_into bufs (replicate maxLen 255))
      else if opn = ''OR'' then Some (fold or_into bufs (replicate maxLen 0))
      else if opn = ''XOR'' then Some (fold xor_into bufs (replicate maxLen 0))
      else if opn = ''NOT'' then Some (map (\<lambda>i. NOT (byte_of (hd bufs ! i))) [0..<maxLen])
      else None)"

text \<open>The message for an unknown operation leaves out its quoted name.\<close>

definition Store_BitOp :: "string \<Rightarrow> key \<Rightarrow> key list \<Rightarrow> gotime \<Rightarrow> store \<Rightarrow> nat res \<times> store" where
  "Store_BitOp opn destKey keys now s =
     (let opn = ToUpper opn in
      if opn = ''NOT'' \<and> length keys \<noteq> 1 then (Inl (Err ''BITOP NOT requires one and only one key''), s)
      else case bitop_read keys [] 0 now s of
        (None, s) \<Rightarrow> (Inl WrongType, s)
      | (Some (bufs, maxLen), s) \<Rightarrow>
          (case bitop_combine opn bufs maxLen of
             None \<Rightarrow> (Inl (Err ''unsupported BITOP operation''), s)
           | Some result \<Rightarrow>
               let s = deleteKeyLocked destKey now s;
                   s = s\<lparr>kv := fmupd destKey (map char_of_byte result) (kv s)\<rparr>
               in (Inr maxLen, touchKeyLocked [destKey] now s)))"

definition Store_BitPos :: "key \<Rightarrow> int \<Rightarrow> int \<Rightarrow> int \<Rightarrow> bool \<Rightarrow> gotime \<Rightarrow> store \<Rightarrow> int res" where
  "Store_BitPos key b start end hasBounds now s =
     (if isExpiredRLocked key now s then Inr (if b = 0 then 0 else -1)
      else if anyOf other_kinds key s then Inl WrongType
      else case fmlookup (kv s) key of
        None \<Rightarrow> Inr (if b = 0 then 0 else -1)
      | Some v \<Rightarrow>
          (case bit_bounds start end hasBounds (int (length v)) of (start, end) \<Rightarrow>
             if end < start then Inr (-1)
             else case find (\<lambda>(i, j). int (get_bit (byte_of (v ! nat i)) (nat j)) = b)
                         (List.product [start..end] (rev [0..7])) of
               Some (i, j) \<Rightarrow> Inr (i * 8 + (7 - j))
             | None \<Rightarrow> Inr (if b = 0 \<and> \<not> hasBounds then int (length v) * 8 else -1)))"

section \<open>Strings as bits\<close>

definition bit_at :: "string \<Rightarrow> nat \<Rightarrow> bool" where
  "bit_at v i \<longleftrightarrow> i div 8 < length v \<and> bit (byte_of (v ! (i div 8))) (7 - i mod 8)"

lemma get_bit: "get_bit b i = of_bool (bit b i)"
proof -
  have "drop_bit i b AND 1 = of_bool (bit b i)" by (rule bit_word_eqI) (auto simp: bit_simps)
  then show ?thesis by (simp add: get_bit_def)
qed

lemma bit_put_bit: "i < 8 \<Longrightarrow> bit (put_bit i v b) j = (if j = i then v = 1 else bit b j)"
  using bit_imp_le_length [of b j] by (auto simp: put_bit_def bit_simps)

lemma byte_char [simp]: "byte_of (char_of_byte b) = b"
proof -
  have "unat b < 256" using unsigned_less [of b, where 'a = nat] by simp
  then show ?thesis by (simp add: byte_of_def char_of_byte_def of_char_of)
qed

lemma byte_zero [simp]: "byte_of (char_of (0::nat)) = 0"
  by (simp add: byte_of_def)

lemma char_byte [simp]: "char_of_byte (byte_of c) = c"
proof -
  have "(of_char c :: nat) < 256" by (metis mod_less_divisor of_char_mod_256 zero_less_numeral)
  then show ?thesis by (simp add: byte_of_def char_of_byte_def unat_of_nat)
qed

text \<open>Padding with zero bytes changes no bit.\<close>

lemma bit_at_pad: "bit_at (copy_at 0 v (zero_bytes n)) i = bit_at v i" if "length v \<le> n"
proof -
  have "copy_at 0 v (zero_bytes n) = v @ zero_bytes (n - length v)"
    using that by (simp add: copy_at_def zero_bytes_def)
  then show ?thesis by (auto simp: bit_at_def nth_append zero_bytes_def)
qed

lemma bit_at_put:
  assumes "k < length v" "j < 8"
  shows "bit_at (v[k := char_of_byte (put_bit (7 - j) x (byte_of (v ! k)))]) i = (if i = 8 * k + j then x = 1 else bit_at v i)"
proof (cases "i div 8 = k")
  case True
  have "i = 8 * k + j \<longleftrightarrow> i mod 8 = j" using True assms(2) by (metis add.commute div_mult_mod_eq mult.commute add_left_cancel)
  moreover have "i mod 8 = j \<longleftrightarrow> 7 - i mod 8 = 7 - j" using assms(2) mod_less_divisor [of 8 i] by linarith
  ultimately show ?thesis using True assms by (auto simp: bit_at_def bit_put_bit)
next
  case False
  then have "i \<noteq> 8 * k + j" using assms(2) by auto
  with False show ?thesis by (simp add: bit_at_def)
qed

lemma SetBit_eq:
  assumes "0 \<le> off" "v = 0 \<or> v = 1" "\<not> list_ex (col_holds (live now s key)) other_kinds"
  defines "u \<equiv> (case cKV (live now s key) of None \<Rightarrow> [] | Some u \<Rightarrow> u)"
  shows "\<exists>w. Store_SetBit key off v now s =
      (Inr (of_bool (bit_at u (nat off))), touchKeyLocked [key] now ((purge key now s)\<lparr>kv := fmupd key w (kv (purge key now s))\<rparr>)) \<and>
    length w = max (length u) (nat off div 8 + 1) \<and> (\<forall>i. bit_at w i = (if i = nat off then v = 1 else bit_at u i))"
proof -
  define k j where "k = nat off div 8" and "j = nat off mod 8"
  have idx: "nat (off div 8) = k" "nat (7 - off mod 8) = 7 - j" "j < 8" "nat off = 8 * k + j"
    using assms(1) by (simp_all add: k_def j_def nat_div_distrib nat_mod_distrib nat_diff_distrib)
  define b where "b = (if length u \<le> k then copy_at 0 u (zero_bytes (k + 1)) else u)"
  have len: "length b = max (length u) (k + 1)" by (simp add: b_def copy_at_def zero_bytes_def)
  have same: "bit_at b i = bit_at u i" for i by (simp add: b_def bit_at_pad)
  define w where "w = b[k := char_of_byte (put_bit (7 - j) v (byte_of (b ! k)))]"
  have k: "k < length b" by (simp add: len)
  have "get_bit (byte_of (b ! k)) (7 - j) = of_bool (bit_at u (nat off))"
    using same [of "nat off"] k by (simp add: get_bit bit_at_def k_def j_def)
  moreover have "string_or_empty key (purge key now s) = u" by (simp add: string_or_empty_def u_def purge_lookup)
  ultimately have "Store_SetBit key off v now s =
      (Inr (of_bool (bit_at u (nat off))), touchKeyLocked [key] now ((purge key now s)\<lparr>kv := fmupd key w (kv (purge key now s))\<rparr>))"
    using assms(1-3) by (auto simp: Store_SetBit_def locked_eqs Let_def idx(1,2) b_def [symmetric] w_def)
  moreover have "bit_at w i = (if i = nat off then v = 1 else bit_at u i)" for i
    unfolding w_def bit_at_put [OF k idx(3)] idx(4) same ..
  moreover have "length w = max (length u) (nat off div 8 + 1)" by (simp add: w_def len k_def)
  ultimately show ?thesis by blast
qed

lemma SetBit_tracked: "tracked {key} s (snd (Store_SetBit key off v now s))"
  by (auto simp: Store_SetBit_def locked_eqs Let_def intro!: tracked_edit tracked_purge)

lemma SetBit_slot: "store_wf s \<Longrightarrow> slot_ok (column (snd (Store_SetBit key off v now s)) key)"
  by (auto simp: Store_SetBit_def locked_eqs Let_def column_purge string_put slot_ok_live store_wf_def)

lemma GetBit_eq:
  assumes "0 \<le> off" "\<not> isExpiredRLocked key now s" "\<not> list_ex (col_holds (column s key)) other_kinds"
  shows "Store_GetBit key off now s = Inr (of_bool (bit_at (case cKV (column s key) of None \<Rightarrow> [] | Some u \<Rightarrow> u) (nat off)))"
proof -
  have "nat (off div 8) = nat off div 8" "nat (7 - off mod 8) = 7 - nat off mod 8"
    using assms(1) by (simp_all add: nat_div_distrib nat_mod_distrib nat_diff_distrib)
  then show ?thesis
    using assms by (auto simp: Store_GetBit_def anyOf_column column_lookup get_bit bit_at_def Let_def split: option.split)
qed

text \<open>C30: A bitmap is an array of bits.  \<open>SETBIT\<close> answers the old bit; afterwards \<open>GETBIT\<close> answers the new bit at that
  offset and the old bit at every other one, beyond the end of the string included; the deadline stays.\<close>

theorem setbit_getbit:
  assumes "0 \<le> off" "v = 0 \<or> v = 1" "\<not> list_ex (col_holds (live now s key)) other_kinds" "0 \<le> i"
  shows "let u = (case cKV (live now s key) of None \<Rightarrow> [] | Some u \<Rightarrow> u); (r, t) = Store_SetBit key off v now s in
    r = Inr (of_bool (bit_at u (nat off))) \<and>
    Store_GetBit key i now t = Inr (if i = off then nat v else of_bool (bit_at u (nat i))) \<and>
    cExp (column t key) = cExp (live now s key)"
proof -
  define u where "u = (case cKV (live now s key) of None \<Rightarrow> [] | Some u \<Rightarrow> u)"
  from SetBit_eq [OF assms(1-3)] obtain w where w: "Store_SetBit key off v now s =
      (Inr (of_bool (bit_at u (nat off))), touchKeyLocked [key] now ((purge key now s)\<lparr>kv := fmupd key w (kv (purge key now s))\<rparr>))" (is "_ = (_, ?t)")
    "\<And>i. bit_at w i = (if i = nat off then v = 1 else bit_at u i)" unfolding u_def by blast
  have t: "column ?t key = (live now s key)\<lparr>cKV := Some w\<rparr>" by (simp add: column_purge)
  have "\<not> isExpiredRLocked key now ?t" using isExpired_purge [of key now key s] by (simp add: isExpired_column column_purge)
  moreover have "\<not> list_ex (col_holds (column ?t key)) other_kinds" using assms(3) by (simp add: column_purge other_kinds_def)
  ultimately have "Store_GetBit key i now ?t = Inr (of_bool (bit_at w (nat i)))"
    using GetBit_eq [OF assms(4)] by (simp add: column_purge)
  then show ?thesis using assms(1,2,4) t by (auto simp: w u_def [symmetric] Let_def)
qed

theorem setbit_getbit_witness:
  "Store_GetBit ''k'' 100 7 (snd (Store_SetBit ''k'' 100 1 7 Store_New)) = Inr 1"
proof -
  have o: "\<not> list_ex (col_holds (live 7 Store_New ''k'')) other_kinds" by (simp add: live_def)
  from setbit_getbit [OF _ _ o, of 100 1 100] show ?thesis by (simp add: Let_def split: prod.splits)
qed

section \<open>Counting\<close>

lemma bit_lt_8: "bit (b :: byte) i \<Longrightarrow> i < 8"
  using bit_imp_le_length [of b i] by simp

lemma finite_bits: "finite {i. bit (b :: byte) i}"
  by (rule finite_subset [of _ "{..<8}"]) (auto dest: bit_lt_8)

lemma popcount_card: "popcount b = card {i. bit b i}"
proof (induction b rule: popcount.induct)
  case (1 b)
  show ?case
  proof (cases "b = 0")
    case False
    have "{i. bit b i} = (if bit b 0 then {0} else {}) \<union> Suc ` {i. bit b (Suc i)}"
    proof -
      have "i \<in> {i. bit b i} \<longleftrightarrow> i \<in> (if bit b 0 then {0} else {}) \<union> Suc ` {i. bit b (Suc i)}" for i
        by (cases i) auto
      then show ?thesis by blast
    qed
    moreover have "{i. bit b (Suc i)} = {i. bit (drop_bit 1 b) i}" by (simp add: bit_simps)
    moreover have "card (Suc ` {i. bit (drop_bit 1 b) i}) = card {i. bit (drop_bit 1 b) i}" by (rule card_image) simp
    moreover have "finite (Suc ` {i. bit (drop_bit 1 b) i})" using finite_bits by blast
    ultimately have "card {i. bit b i} = of_bool (bit b 0) + card {i. bit (drop_bit 1 b) i}" by auto
    moreover have "unat (b AND 1) = of_bool (bit b 0)"
      using get_bit [of b 0] by (simp add: get_bit_def)
    ultimately show ?thesis using 1 [OF False] False by (subst popcount.simps) simp
  qed (simp add: popcount.simps [of 0])
qed

lemma byte_bits_card:
  assumes "k < length v"
  shows "card {p. bit_at v p \<and> p div 8 = k} = popcount (byte_of (v ! k))"
proof -
  have "bij_betw (\<lambda>p. 7 - p mod 8) {p. bit_at v p \<and> p div 8 = k} {i. bit (byte_of (v ! k)) i}"
  proof (rule bij_betw_byWitness [where f' = "\<lambda>i. 8 * k + (7 - i)"])
    show "\<forall>p \<in> {p. bit_at v p \<and> p div 8 = k}. 8 * k + (7 - (7 - p mod 8)) = p"
    proof
      fix p assume "p \<in> {p. bit_at v p \<and> p div 8 = k}"
      moreover have "p mod 8 < 8" by simp
      ultimately show "8 * k + (7 - (7 - p mod 8)) = p" using div_mult_mod_eq [of p 8] by auto
    qed
    show "\<forall>i \<in> {i. bit (byte_of (v ! k)) i}. 7 - (8 * k + (7 - i)) mod 8 = i" by (auto dest: bit_lt_8)
    show "(\<lambda>p. 7 - p mod 8) ` {p. bit_at v p \<and> p div 8 = k} \<subseteq> {i. bit (byte_of (v ! k)) i}"
      by (auto simp: bit_at_def)
    show "(\<lambda>i. 8 * k + (7 - i)) ` {i. bit (byte_of (v ! k)) i} \<subseteq> {p. bit_at v p \<and> p div 8 = k}"
    proof clarify
      fix i assume i: "bit (byte_of (v ! k)) i"
      define j where "j = 7 - i"
      have "i = 7 - j" "j < 8" using bit_lt_8 [OF i] by (simp_all add: j_def)
      with i assms show "bit_at v (8 * k + (7 - i)) \<and> (8 * k + (7 - i)) div 8 = k"
        unfolding j_def [symmetric] by (simp add: bit_at_def)
    qed
  qed
  from bij_betw_same_card [OF this] show ?thesis by (simp add: popcount_card)
qed

lemma sum_popcount:
  "b \<le> length v \<Longrightarrow> (\<Sum>k = a..<b. popcount (byte_of (v ! k))) = card {p. bit_at v p \<and> a \<le> p div 8 \<and> p div 8 < b}"
proof (induction b)
  case (Suc b)
  let ?S = "\<lambda>b. {p. bit_at v p \<and> a \<le> p div 8 \<and> p div 8 < b}"
  have fin: "finite (?S b)" for b
  proof (rule finite_subset)
    show "?S b \<subseteq> {..< 8 * b}"
    proof
      fix p assume "p \<in> ?S b"
      then have "p div 8 < b" by simp
      then show "p \<in> {..< 8 * b}" by auto
    qed
  qed simp
  show ?case
  proof (cases "a \<le> b")
    case True
    have "?S (Suc b) = ?S b \<union> {p. bit_at v p \<and> p div 8 = b}" using True by auto
    moreover have "finite {p. bit_at v p \<and> p div 8 = b}" by (rule finite_subset [OF _ fin [of "Suc b"]]) (use True in auto)
    moreover have "?S b \<inter> {p. bit_at v p \<and> p div 8 = b} = {}" by auto
    ultimately have "card (?S (Suc b)) = card (?S b) + popcount (byte_of (v ! b))"
      using Suc.prems by (simp add: card_Un_disjoint fin byte_bits_card)
    then show ?thesis using Suc True by simp
  next
    case False
    then have none: "?S (Suc b) = {}" by auto
    show ?thesis unfolding none using False by simp
  qed
qed simp

lemma bit_bounds_range:
  "bit_bounds start end h (int n) = (a, b) \<Longrightarrow> 0 \<le> a \<and> b < int n"
  by (auto simp: bit_bounds_def Let_def split: if_splits)

lemma sum_upto: "m \<le> n \<Longrightarrow> sum_list (map (\<lambda>i. f (nat i)) [int m..int n]) = (\<Sum>k = m..<Suc n. f k :: nat)"
proof (induction n rule: nat_induct_at_least)
  case (Suc n)
  have "[int m..int (Suc n)] = [int m..int n] @ [int (Suc n)]" using Suc.hyps by (simp add: upto_rec2)
  then show ?case using Suc by (simp del: of_nat_Suc)
qed simp

text \<open>C32: \<open>BITCOUNT\<close> answers the number of set bits in the bytes of the normalised range, that is in the whole string
  when no range is given.\<close>

theorem bitcount_counts:
  assumes "\<not> isExpiredRLocked key now s" "\<not> list_ex (col_holds (column s key)) other_kinds" "cKV (column s key) = Some v"
    and "bit_bounds start end h (int (length v)) = (lo, hi)"
  shows "Store_BitCount key start end h now s = Inr (card {p. bit_at v p \<and> lo \<le> int (p div 8) \<and> int (p div 8) \<le> hi}) \<and>
    Store_BitCount key start end False now s = Inr (card {p. bit_at v p})"
proof -
  have count: "Store_BitCount key start end h now s = Inr (card {p. bit_at v p \<and> lo \<le> int (p div 8) \<and> int (p div 8) \<le> hi})"
    if b: "bit_bounds start end h (int (length v)) = (lo, hi)" for h lo hi
  proof (cases "hi < lo")
    case True
    then have none: "{p. bit_at v p \<and> lo \<le> int (p div 8) \<and> int (p div 8) \<le> hi} = {}" by auto
    show ?thesis unfolding none using True assms(1-3) b by (simp add: Store_BitCount_def anyOf_column column_lookup)
  next
    case False
    have r: "0 \<le> lo" "hi < int (length v)" using bit_bounds_range [OF b] by auto
    have "{p. bit_at v p \<and> nat lo \<le> p div 8 \<and> p div 8 < Suc (nat hi)} = {p. bit_at v p \<and> lo \<le> int (p div 8) \<and> int (p div 8) \<le> hi}"
      using r False by auto
    moreover have "sum_list (map (\<lambda>i. popcount (byte_of (v ! nat i))) [lo..hi]) = card {p. bit_at v p \<and> nat lo \<le> p div 8 \<and> p div 8 < Suc (nat hi)}"
      using r False sum_upto [of "nat lo" "nat hi" "\<lambda>k. popcount (byte_of (v ! k))"] sum_popcount [of "Suc (nat hi)" v "nat lo"] by simp
    ultimately show ?thesis
      using assms(1-3) b False by (simp add: Store_BitCount_def anyOf_column column_lookup)
  qed
  obtain lo' hi' where b': "bit_bounds start end False (int (length v)) = (lo', hi')" by fastforce
  then have "{p. bit_at v p \<and> lo' \<le> int (p div 8) \<and> int (p div 8) \<le> hi'} = {p. bit_at v p}"
    by (auto simp: bit_bounds_def bit_at_def Let_def split: if_splits)
  with count [OF b'] count [OF assms(4)] show ?thesis by simp
qed

theorem bitcount_counts_witness:
  "Store_BitCount ''k'' 0 0 False 7 (Store_Set ''k'' ''ab'' 0 7 Store_New) = Inr (card {p. bit_at ''ab'' p})"
proof -
  let ?s = "Store_Set ''k'' ''ab'' 0 7 Store_New"
  have "\<not> isExpiredRLocked ''k'' 7 ?s" by code_simp
  moreover have "\<not> list_ex (col_holds (column ?s ''k'')) other_kinds" "cKV (column ?s ''k'') = Some ''ab''"
    by (simp_all add: Set_column string_column_def other_kinds_def)
  moreover have "bit_bounds 0 0 False (int (length ''ab'')) = (0, 1)" by (simp add: bit_bounds_def)
  ultimately show ?thesis using bitcount_counts by blast
qed

section \<open>Combining\<close>

abbreviation string_at :: "column \<Rightarrow> string" where
  "string_at c \<equiv> case cKV c of None \<Rightarrow> [] | Some v \<Rightarrow> v"

lemma bitop_read:
  assumes "\<forall>k \<in> set keys. \<not> list_ex (col_holds (live now s k)) other_kinds"
  shows "\<exists>t. bitop_read keys bufs m now s =
      (Some (bufs @ map (\<lambda>k. string_at (live now s k)) keys, fold (\<lambda>k. max (length (string_at (live now s k)))) keys m), t) \<and>
    tracked (set keys) s t \<and> (\<forall>k. live now t k = live now s k)"
  using assms
proof (induction keys arbitrary: bufs m s)
  case (Cons k keys)
  let ?s = "purge k now s"
  let ?b = "string_at (live now s k)"
  have b: "string_or_empty k ?s = ?b" by (simp add: string_or_empty_def purge_lookup)
  have ok: "\<not> anyOf other_kinds k ?s" using Cons.prems by simp
  have mx: "(if m < length ?b then length ?b else m) = max (length ?b) m" by auto
  have "\<forall>k \<in> set keys. \<not> list_ex (col_holds (live now ?s k)) other_kinds" using Cons.prems by simp
  from Cons.IH [OF this, of "bufs @ [?b]" "max (length ?b) m"] obtain t where
    t: "bitop_read keys (bufs @ [?b]) (max (length ?b) m) now ?s =
      (Some (bufs @ [?b] @ map (\<lambda>k. string_at (live now s k)) keys, fold (\<lambda>k. max (length (string_at (live now s k)))) keys (max (length ?b) m)), t)"
    "tracked (set keys) ?s t" "\<forall>k. live now t k = live now s k" by auto
  have "tracked (set (k # keys)) s t"
    by (rule tracked_after_purge [of k]) (use tracked_mono [OF t(2)] in auto)
  moreover have "bitop_read (k # keys) bufs m now s = bitop_read keys (bufs @ [?b]) (max (length ?b) m) now ?s"
    using ok by (simp add: locked_eqs b mx Let_def)
  ultimately show ?case using t by auto
qed simp

lemma fold_modify:
  "n \<le> length r \<Longrightarrow> fold (\<lambda>i r. r[i := g i (r ! i)]) [0..<n] r = map (\<lambda>i. g i (r ! i)) [0..<n] @ drop n r"
proof (induction n)
  case (Suc n)
  then have "drop n r = r ! n # drop (Suc n) r" by (simp add: Cons_nth_drop_Suc)
  with Suc show ?case by (simp add: list_update_append nth_append)
qed simp

definition bit_in :: "string \<Rightarrow> nat \<Rightarrow> nat \<Rightarrow> bool" where
  "bit_in buf k j \<longleftrightarrow> k < length buf \<and> bit (byte_of (buf ! k)) j"

lemma length_modify: "length (fold (\<lambda>i r. r[i := g i (r ! i)]) is r) = length r"
  by (induction "is" arbitrary: r) simp_all

lemma length_into [simp]:
  "length (and_into b r) = length r" "length (or_into b r) = length r" "length (xor_into b r) = length r"
  using length_modify [of "\<lambda>i x. x OR byte_of (b ! i)"] length_modify [of "\<lambda>i x. x XOR byte_of (b ! i)"]
  by (simp_all add: and_into_def or_into_def xor_into_def)

lemma length_fold_into [simp]:
  "length (fold and_into bufs r) = length r" "length (fold or_into bufs r) = length r" "length (fold xor_into bufs r) = length r"
  by (induction bufs arbitrary: r) simp_all

lemma fold_and:
  "k < length r \<Longrightarrow> bit (fold and_into bufs r ! k) j \<longleftrightarrow> bit (r ! k) j \<and> (\<forall>b \<in> set bufs. bit_in b k j)"
proof (induction bufs arbitrary: r)
  case (Cons b bufs)
  have "bit (and_into b r ! k) j \<longleftrightarrow> bit (r ! k) j \<and> bit_in b k j"
    using Cons.prems by (auto simp: and_into_def bit_in_def bit_simps)
  then show ?case using Cons by simp
qed simp

lemma fold_or:
  "k < length r \<Longrightarrow> \<forall>b \<in> set bufs. length b \<le> length r \<Longrightarrow>
   bit (fold or_into bufs r ! k) j \<longleftrightarrow> bit (r ! k) j \<or> (\<exists>b \<in> set bufs. bit_in b k j)"
proof (induction bufs arbitrary: r)
  case (Cons b bufs)
  have "or_into b r = map (\<lambda>i. r ! i OR byte_of (b ! i)) [0..<length b] @ drop (length b) r"
    unfolding or_into_def using Cons.prems by (intro fold_modify) simp
  then have "bit (or_into b r ! k) j \<longleftrightarrow> bit (r ! k) j \<or> bit_in b k j"
    using Cons.prems by (auto simp: bit_in_def bit_simps nth_append)
  then show ?case using Cons by auto
qed simp

lemma fold_xor:
  "k < length r \<Longrightarrow> \<forall>b \<in> set bufs. length b \<le> length r \<Longrightarrow>
   bit (fold xor_into bufs r ! k) j \<longleftrightarrow> (bit (r ! k) j \<noteq> odd (length (filter (\<lambda>b. bit_in b k j) bufs)))"
proof (induction bufs arbitrary: r)
  case (Cons b bufs)
  have "xor_into b r = map (\<lambda>i. r ! i XOR byte_of (b ! i)) [0..<length b] @ drop (length b) r"
    unfolding xor_into_def using Cons.prems by (intro fold_modify) simp
  then have "bit (xor_into b r ! k) j \<longleftrightarrow> (bit (r ! k) j \<noteq> bit_in b k j)"
    using Cons.prems by (auto simp: bit_in_def bit_simps nth_append)
  then show ?case using Cons by auto
qed simp

text \<open>What a combination makes of the bits of the sources at one position.\<close>

definition combine_bits :: "string \<Rightarrow> bool list \<Rightarrow> bool" where
  "combine_bits opn bs =
     (if opn = ''AND'' then list_all id bs
      else if opn = ''OR'' then list_ex id bs
      else if opn = ''XOR'' then odd (length (filter id bs))
      else \<not> hd bs)"

lemma bitop_combine:
  assumes "opn \<in> {''AND'', ''OR'', ''XOR'', ''NOT''}" "bufs \<noteq> []" "\<forall>b \<in> set bufs. length b \<le> n" "opn = ''NOT'' \<longrightarrow> length (hd bufs) = n"
  shows "\<exists>r. bitop_combine opn bufs n = Some r \<and> length r = n \<and>
    (\<forall>i < 8 * n. bit (r ! (i div 8)) (7 - i mod 8) = combine_bits opn (map (\<lambda>b. bit_at b i) bufs))"
proof -
  have at: "bit_at b i = bit_in b (i div 8) (7 - i mod 8)" for b i by (simp add: bit_at_def bit_in_def)
  have len: "i div 8 < n" if "i < 8 * n" for i using that by auto
  have ones: "bit (255 :: byte) j \<longleftrightarrow> j < 8" for j
  proof -
    have "(255 :: byte) = - 1" by simp
    then show ?thesis by (simp only: bit_minus_1_iff) simp
  qed
  consider "opn = ''AND''" | "opn = ''OR''" | "opn = ''XOR''" | "opn = ''NOT''" using assms(1) by auto
  then show ?thesis
  proof cases
    case 1
    have "bit (fold and_into bufs (replicate n 255) ! (i div 8)) (7 - i mod 8) \<longleftrightarrow> (\<forall>b \<in> set bufs. bit_in b (i div 8) (7 - i mod 8))"
      if "i < 8 * n" for i
    proof -
      have "bit (replicate n (255 :: byte) ! (i div 8)) (7 - i mod 8)"
        unfolding nth_replicate [OF len [OF that]] ones by simp
      then show ?thesis using fold_and [of "i div 8" "replicate n 255" bufs "7 - i mod 8"] len [OF that] by (metis length_replicate)
    qed
    with 1 show ?thesis by (simp add: bitop_combine_def combine_bits_def at list_all_iff)
  next
    case 2
    then show ?thesis
      using fold_or [of _ "replicate n 0" bufs] len assms(3)
      by (simp add: bitop_combine_def combine_bits_def at list_ex_iff)
  next
    case 3
    then show ?thesis
      using fold_xor [of _ "replicate n 0" bufs] len assms(3)
      by (simp add: bitop_combine_def combine_bits_def at filter_map comp_def)
  next
    case 4
    have "7 - i mod 8 < LENGTH(8)" for i by simp
    then show ?thesis
      using 4 len assms(2,4) by (auto simp: bitop_combine_def combine_bits_def at bit_in_def bit_simps hd_map)
  qed
qed

lemma fold_max: "ks \<noteq> [] \<Longrightarrow> fold (\<lambda>k. max (f k)) ks 0 = Max (f ` set ks)" for f :: "'a \<Rightarrow> nat"
proof -
  assume "ks \<noteq> []"
  then show ?thesis using Max.set_eq_fold [of 0 "map f ks"] by (simp add: fold_map comp_def)
qed

lemma bit_at_result: "i < 8 * length r \<Longrightarrow> bit_at (map char_of_byte r) i = bit (r ! (i div 8)) (7 - i mod 8)"
proof -
  assume "i < 8 * length r"
  then have "i div 8 < length r" by auto
  then show ?thesis by (simp add: bit_at_def)
qed

text \<open>C31: \<open>BITOP\<close> combines bit by bit.  It answers the length of the longest source; the destination becomes a string of that
  length whose bit at every position is the conjunction, disjunction, parity or complement of the sources' bits there
  (a source that is too short or absent counts as zeros), and it loses its deadline and any other value.\<close>

theorem bitop_bits:
  assumes "ToUpper opn \<in> {''AND'', ''OR'', ''XOR'', ''NOT''}" "keys \<noteq> []" "ToUpper opn = ''NOT'' \<longrightarrow> length keys = 1"
    "\<forall>k \<in> set keys. \<not> list_ex (col_holds (live now s k)) other_kinds"
  shows "let src = (\<lambda>k. string_at (live now s k)); n = Max ((\<lambda>k. length (src k)) ` set keys);
             (r, t) = Store_BitOp opn dest keys now s in
    r = Inr n \<and> tracked (insert dest (set keys)) s t \<and>
    (\<exists>w. column t dest = no_column\<lparr>cKV := Some w\<rparr> \<and> length w = n \<and>
       (\<forall>i < 8 * n. bit_at w i = combine_bits (ToUpper opn) (map (\<lambda>k. bit_at (src k) i) keys)))"
proof -
  define src where "src = (\<lambda>k. string_at (live now s k))"
  define n where "n = Max ((\<lambda>k. length (src k)) ` set keys)"
  from bitop_read [OF assms(4), of "[]" 0] obtain u where
    u: "bitop_read keys [] 0 now s = (Some (map src keys, n), u)" "tracked (set keys) s u"
    using fold_max [OF assms(2), of "\<lambda>k. length (src k)"] by (auto simp: src_def n_def)
  have "\<exists>r. bitop_combine (ToUpper opn) (map src keys) n = Some r \<and> length r = n \<and>
    (\<forall>i < 8 * n. bit (r ! (i div 8)) (7 - i mod 8) = combine_bits (ToUpper opn) (map (\<lambda>b. bit_at b i) (map src keys)))"
  proof (rule bitop_combine [OF assms(1)])
    show "\<forall>b \<in> set (map src keys). length b \<le> n" by (auto simp: n_def)
    show "ToUpper opn = ''NOT'' \<longrightarrow> length (hd (map src keys)) = n"
      using assms(2,3) by (cases keys) (auto simp: n_def)
  qed (use assms(2) in simp)
  then obtain r where r: "bitop_combine (ToUpper opn) (map src keys) n = Some r" "length r = n"
    "\<forall>i < 8 * n. bit (r ! (i div 8)) (7 - i mod 8) = combine_bits (ToUpper opn) (map (\<lambda>k. bit_at (src k) i) keys)"
    by (auto simp: comp_def)
  let ?d = "deleteKeyLocked dest now u"
  let ?t = "touchKeyLocked [dest] now (?d\<lparr>kv := fmupd dest (map char_of_byte r) (kv ?d)\<rparr>)"
  have call: "Store_BitOp opn dest keys now s = (Inr n, ?t)"
    using assms(3) by (simp add: Store_BitOp_def Let_def u r)
  have "tracked (insert dest (set keys)) s ?d"
    using tracked_trans [OF tracked_mono [OF u(2)] tracked_delete, of "insert dest (set keys)" dest now] by auto
  moreover have "tracked (insert dest (set keys)) ?d ?t" by (rule tracked_touch) auto
  ultimately have "tracked (insert dest (set keys)) s ?t" by (rule tracked_trans)
  moreover have "column ?t dest = no_column\<lparr>cKV := Some (map char_of_byte r)\<rparr>" by (simp add: column_delete)
  ultimately show ?thesis
    using r by (auto simp: call Let_def src_def [symmetric] n_def [symmetric] bit_at_result intro!: exI [of _ "map char_of_byte r"])
qed

theorem bitop_bits_witness:
  "fst (Store_BitOp ''or'' ''d'' [''a'', ''b''] 7 (Store_Set ''a'' ''xyz'' 0 7 Store_New)) = Inr 3"
proof -
  let ?s = "Store_Set ''a'' ''xyz'' 0 7 Store_New"
  have a: "live 7 ?s ''a'' = string_column ''xyz'' None no_column"
    by (simp add: live_def isExpired_column Set_column) (simp add: string_column_def)
  have "column ?s ''b'' = no_column" by (subst tracked_frame [OF Set_tracked]) simp_all
  then have b: "live 7 ?s ''b'' = no_column" by (simp add: live_def)
  have "\<forall>k \<in> set [''a'', ''b'']. \<not> list_ex (col_holds (live 7 ?s k)) other_kinds"
    by (simp add: a b string_column_def other_kinds_def)
  moreover have "ToUpper ''or'' = ''OR''" by code_simp
  ultimately show ?thesis
    using bitop_bits [of "''or''" "[''a'', ''b'']" 7 ?s "''d''"]
    by (simp add: a b string_column_def Let_def split: prod.splits)
qed

section \<open>Searching\<close>

lemma find_map: "find P (map f xs) = map_option f (find (P \<circ> f) xs)"
  by (induction xs) auto

lemma byte_bits: "map (\<lambda>(i, j). i * 8 + (7 - j)) (List.product [int m] (rev [0..7])) = map int [8 * m..<8 * Suc m]"
proof -
  have "rev [0..7] = [7, 6, 5, 4, 3, 2, 1, 0 :: int]" by code_simp
  then show ?thesis by (simp add: upt_rec)
qed

lemma product_append: "List.product (xs @ ys) zs = List.product xs zs @ List.product ys zs"
  by (induction xs) simp_all

lemma bytes_bits:
  "m \<le> n \<Longrightarrow> map (\<lambda>(i, j). i * 8 + (7 - j)) (List.product [int m..int n] (rev [0..7])) = map int [8 * m..<8 * Suc n]"
proof (induction n rule: nat_induct_at_least)
  case base
  show ?case using byte_bits [of m] by simp
next
  case (Suc n)
  have 1: "[int m..int (Suc n)] = [int m..int n] @ [int (Suc n)]" using Suc.hyps by (simp add: upto_rec2)
  have 2: "[8 * m..<8 * Suc (Suc n)] = [8 * m..<8 * Suc n] @ [8 * Suc n..<8 * Suc (Suc n)]"
    using upt_add_eq_append [of "8 * m" "8 * Suc n" 8] Suc.hyps by simp
  show ?case unfolding 1 2 product_append map_append Suc.IH byte_bits ..
qed

lemma find_cong_set: "(\<And>x. x \<in> set xs \<Longrightarrow> P x = Q x) \<Longrightarrow> find P xs = find Q xs"
  by (induction xs) auto

lemma bitpos_find:
  assumes "0 \<le> lo" "lo \<le> hi" "hi < int (length v)"
  shows "map_option (\<lambda>(i, j). i * 8 + (7 - j))
      (find (\<lambda>(i, j). int (get_bit (byte_of (v ! nat i)) (nat j)) = b) (List.product [lo..hi] (rev [0..7]))) =
    map_option int (find (\<lambda>p. of_bool (bit_at v p) = b) [8 * nat lo..<8 * Suc (nat hi)])"
proof -
  let ?h = "\<lambda>(i, j). i * 8 + (7 - j) :: int"
  let ?P = "\<lambda>p. of_bool (bit_at v (nat p)) = b"
  have "int (get_bit (byte_of (v ! nat i)) (nat j)) = of_bool (bit_at v (nat (i * 8 + (7 - j))))"
    if "lo \<le> i" "i \<le> hi" "0 \<le> j" "j \<le> 7" for i j
  proof -
    define l where "l = 7 - nat j"
    have "l < 8" "nat j = 7 - l" "nat (i * 8 + (7 - j)) = 8 * nat i + l"
      unfolding l_def using that assms by linarith+
    moreover have "nat i < length v" using that assms by auto
    ultimately show ?thesis by (simp add: get_bit bit_at_def)
  qed
  then have "find (\<lambda>(i, j). int (get_bit (byte_of (v ! nat i)) (nat j)) = b) (List.product [lo..hi] (rev [0..7])) =
      find (?P \<circ> ?h) (List.product [lo..hi] (rev [0..7]))"
    by (intro find_cong_set) auto
  then have "map_option ?h (find (\<lambda>(i, j). int (get_bit (byte_of (v ! nat i)) (nat j)) = b) (List.product [lo..hi] (rev [0..7]))) =
      find ?P (map ?h (List.product [lo..hi] (rev [0..7])))"
    by (simp only: find_map)
  also have "map ?h (List.product [lo..hi] (rev [0..7])) = map int [8 * nat lo..<8 * Suc (nat hi)]"
    using bytes_bits [of "nat lo" "nat hi"] assms by simp
  finally show ?thesis by (simp only: find_map comp_def nat_int)
qed

text \<open>C33: \<open>BITPOS\<close> answers the first position in the bytes of the normalised range that has the bit looked for; if there is
  none, the position after the string when a 0 is looked for in the whole string, and \<open>-1\<close> otherwise.\<close>

theorem bitpos_first:
  assumes "\<not> isExpiredRLocked key now s" "\<not> list_ex (col_holds (column s key)) other_kinds" "cKV (column s key) = Some v"
    and "bit_bounds start end h (int (length v)) = (lo, hi)" "lo \<le> hi"
  shows "Store_BitPos key b start end h now s = Inr
    (case find (\<lambda>p. of_bool (bit_at v p) = b) [8 * nat lo..<8 * Suc (nat hi)] of
       Some p \<Rightarrow> int p
     | None \<Rightarrow> if b = 0 \<and> \<not> h then 8 * int (length v) else -1)"
proof -
  have r: "0 \<le> lo" "hi < int (length v)" using bit_bounds_range [OF assms(4)] by auto
  let ?f = "find (\<lambda>(i, j). int (get_bit (byte_of (v ! nat i)) (nat j)) = b) (List.product [lo..hi] (rev [0..7]))"
  have "Store_BitPos key b start end h now s = (case map_option (\<lambda>(i, j). i * 8 + (7 - j)) ?f of
      Some p \<Rightarrow> Inr p | None \<Rightarrow> Inr (if b = 0 \<and> \<not> h then int (length v) * 8 else -1))"
    using assms by (auto simp: Store_BitPos_def anyOf_column column_lookup split: option.split)
  then show ?thesis unfolding bitpos_find [OF r(1) assms(5) r(2)] by (simp split: option.split)
qed

theorem bitpos_first_witness:
  "Store_BitPos ''k'' 1 0 0 False 7 (Store_Set ''k'' ''a'' 0 7 Store_New) = Inr 1"
proof -
  let ?s = "Store_Set ''k'' ''a'' 0 7 Store_New"
  have "\<not> isExpiredRLocked ''k'' 7 ?s" by code_simp
  moreover have "\<not> list_ex (col_holds (column ?s ''k'')) other_kinds" "cKV (column ?s ''k'') = Some ''a''"
    by (simp_all add: Set_column string_column_def other_kinds_def)
  moreover have "bit_bounds 0 0 False (int (length ''a'')) = (0, 0)" by (simp add: bit_bounds_def)
  ultimately have "Store_BitPos ''k'' 1 0 0 False 7 ?s = Inr
    (case find (\<lambda>p. of_bool (bit_at ''a'' p) = (1::int)) [8 * nat 0..<8 * Suc (nat 0)] of
       Some p \<Rightarrow> int p | None \<Rightarrow> if 1 = (0::int) \<and> \<not> False then 8 * int (length ''a'') else -1)"
    by (rule bitpos_first) simp
  also have "find (\<lambda>p. of_bool (bit_at ''a'' p) = (1::int)) [8 * nat 0..<8 * Suc (nat 0)] = Some 1" by code_simp
  finally show ?thesis by simp
qed

end
