(* ===== verification/Vole_Values.thy ===== *)
theory Vole_Values
  imports Vole_Handlers Vole_Bitmaps
begin

text \<open>
  The second half of the data commands of \<open>exec\<close> in \<^verbatim>\<open>internal/server/server.go\<close>: bitmaps and substrings, the other sorted set,
  hash and set commands, geographic searches, sorting and moving.
\<close>

section \<open>Numbers as text\<close>

text \<open>\<open>math.Nextafter\<close> towards positive and negative infinity.\<close>

definition ulp :: "rat \<Rightarrow> rat" where
  "ulp x = pow2 (max (rat_exp x - 52) (-1074))"

definition next_up :: "rat \<Rightarrow> float64" where
  "next_up r =
     (if r = 0 then Fin (pow2 (-1074))
      else if 0 < r then round64 (r + ulp r)
      else let x = - r in
        if x = pow2 (rat_exp x) \<and> -1022 < rat_exp x then Fin (- (x - ulp x / 2)) else Fin (- (x - ulp x)))"

definition maxFloat64 :: rat where
  "maxFloat64 = pow2 1024 - pow2 971"

definition Nextafter_up :: "float64 \<Rightarrow> float64" where
  "Nextafter_up f = (case f of Fin r \<Rightarrow> next_up r | NInf \<Rightarrow> Fin (- maxFloat64) | _ \<Rightarrow> f)"

definition Nextafter_down :: "float64 \<Rightarrow> float64" where
  "Nextafter_down f = (case f of Fin r \<Rightarrow> f64_neg (next_up (- r)) | PInf \<Rightarrow> Fin maxFloat64 | _ \<Rightarrow> f)"

definition score_bound :: "string \<Rightarrow> string \<Rightarrow> float64 \<Rightarrow> (float64 \<Rightarrow> float64) \<Rightarrow> float64 res" where
  "score_bound x unlimited dflt nxt =
     (if x = unlimited then Inr dflt
      else let exclusive = HasPrefix x ''(''; y = (if exclusive then tl x else x) in
        case ParseFloat y of Inl e \<Rightarrow> Inl (num_err e) | Inr v \<Rightarrow> Inr (if exclusive then nxt v else v))"

definition parseScoreRange :: "string \<Rightarrow> string \<Rightarrow> (float64 \<times> float64) res" where
  "parseScoreRange minStr maxStr =
     (case score_bound minStr ''-inf'' NInf Nextafter_up of
        Inl e \<Rightarrow> Inl e
      | Inr lo \<Rightarrow> (case score_bound maxStr ''+inf'' PInf Nextafter_down of Inl e \<Rightarrow> Inl e | Inr hi \<Rightarrow> Inr (lo, hi)))"

text \<open>\<open>strconv.FormatFloat(f, 'f', 4, 64)\<close>.\<close>

definition FormatFloat4 :: "float64 \<Rightarrow> string" where
  "FormatFloat4 f =
     (case f of
        Fin r \<Rightarrow> (if r < 0 then ''-'' else '''') @ decimal_text (nat (round_half_even (\<bar>r\<bar> * 10000))) (-4)
      | NaN \<Rightarrow> ''NaN'' | PInf \<Rightarrow> ''+Inf'' | NInf \<Rightarrow> ''-Inf'')"

section \<open>Bitmaps and substrings\<close>

text \<open>The record that restores a string after a command changed part of it, with its remaining time to live.\<close>

definition log_value :: "env \<Rightarrow> key \<Rightarrow> bool \<Rightarrow> handler \<Rightarrow> handler" where
  "log_value e key dated h =
     on_store (Store_Get key (clock e)) (\<lambda>v. reading (Store_PTTL key (clock e)) (\<lambda>pttl.
       logging e [''SETABS'', key, case v of Some x \<Rightarrow> x | None \<Rightarrow> '''',
           if dated \<and> 0 < pttl then FormatInt (UnixNano (clock e + millis pttl)) else ''0''] h))"

definition exec_bytes :: "env \<Rightarrow> string \<Rightarrow> string list \<Rightarrow> handler option" where
  "exec_bytes e cmd args =
     (if cmd = ''STRLEN'' then
        Some (if length args \<noteq> 2 then wrongArgs cmd
          else owning [args ! 1] (reading (Store_Strlen (args ! 1) (clock e)) (attempt (\<lambda>n. answer (Writer_Int (int n))))))
      else if cmd = ''APPEND'' then
        Some (if length args \<noteq> 3 then wrongArgs cmd
          else owning [args ! 1] (on_store (Store_Append (args ! 1) (args ! 2) (clock e)) (attempt (\<lambda>n.
            logging e [''APPEND'', args ! 1, args ! 2] (answer (Writer_Int (int n)))))))
      else if cmd = ''GETDEL'' then
        Some (if length args \<noteq> 2 then wrongArgs cmd
          else owning [args ! 1] (on_store (Store_GetDel (args ! 1) (clock e)) (\<lambda>v.
            case v of None \<Rightarrow> answer Writer_Null | Some x \<Rightarrow> logging e [''DEL'', args ! 1] (answer (Writer_Bulk x)))))
      else None)"

definition exec_bits :: "env \<Rightarrow> string \<Rightarrow> string list \<Rightarrow> handler option" where
  "exec_bits e cmd args =
     (if cmd = ''SETBIT'' then
        Some (if length args \<noteq> 4 then wrongArgs cmd
          else owning [args ! 1] (with_int (args ! 2) (\<lambda>off. with_int (args ! 3) (\<lambda>v.
            on_store (Store_SetBit (args ! 1) off v (clock e)) (attempt (\<lambda>old.
              log_value e (args ! 1) True (answer (Writer_Int (int old)))))))))
      else if cmd = ''GETBIT'' then
        Some (if length args \<noteq> 3 then wrongArgs cmd
          else owning [args ! 1] (with_int (args ! 2) (\<lambda>off.
            reading (Store_GetBit (args ! 1) off (clock e)) (attempt (\<lambda>b. answer (Writer_Int (int b)))))))
      else if cmd = ''BITCOUNT'' then
        Some (if length args \<noteq> 2 \<and> length args \<noteq> 4 then wrongArgs cmd
          else owning [args ! 1]
            (if length args = 4
             then with_int (args ! 2) (\<lambda>a. with_int (args ! 3) (\<lambda>b.
               reading (Store_BitCount (args ! 1) a b True (clock e)) (attempt (\<lambda>n. answer (Writer_Int (int n))))))
             else reading (Store_BitCount (args ! 1) 0 0 False (clock e)) (attempt (\<lambda>n. answer (Writer_Int (int n))))))
      else if cmd = ''BITOP'' then
        Some (if length args < 4 then wrongArgs cmd
          else owning (drop 2 args) (on_store (Store_BitOp (args ! 1) (args ! 2) (drop 3 args) (clock e)) (attempt (\<lambda>n.
            log_value e (args ! 2) False (answer (Writer_Int (int n)))))))
      else if cmd = ''BITPOS'' then
        Some (if length args < 3 \<or> 5 < length args then wrongArgs cmd
          else owning [args ! 1] (with_int (args ! 2) (\<lambda>bit.
            let k = (\<lambda>a b hasBounds. reading (Store_BitPos (args ! 1) bit a b hasBounds (clock e)) (attempt (\<lambda>p. answer (Writer_Int p)))) in
            if length args = 3 then k 0 0 False
            else with_int (args ! 3) (\<lambda>a. if length args = 5 then with_int (args ! 4) (\<lambda>b. k a b True) else k a (-1) True))))
      else None)"

section \<open>More hash, list and set commands\<close>

definition exec_sizes :: "env \<Rightarrow> string \<Rightarrow> string list \<Rightarrow> handler option" where
  "exec_sizes e cmd args =
     (if cmd = ''LLEN'' then
        Some (if length args \<noteq> 2 then wrongArgs cmd
          else owning [args ! 1] (reading (Store_LLen (args ! 1) (clock e)) (attempt (\<lambda>n. answer (Writer_Int (int n))))))
      else if cmd = ''HLEN'' then
        Some (if length args \<noteq> 2 then wrongArgs cmd
          else owning [args ! 1] (reading (Store_HLen (args ! 1) (clock e)) (attempt (\<lambda>n. answer (Writer_Int (int n))))))
      else if cmd = ''HEXISTS'' then
        Some (if length args \<noteq> 3 then wrongArgs cmd
          else owning [args ! 1] (reading (Store_HExists (args ! 1) (args ! 2) (clock e)) (attempt (\<lambda>b. answer (int_bool b)))))
      else if cmd = ''SINTER'' then
        Some (if length args < 2 then wrongArgs cmd
          else owning (drop 1 args) (reading (Store_SInter (drop 1 args) (clock e)) (attempt (\<lambda>ms. answer (writeBulkStrings ms)))))
      else if cmd = ''SUNION'' then
        Some (if length args < 2 then wrongArgs cmd
          else owning (drop 1 args) (reading (Store_SUnion (drop 1 args) (clock e)) (attempt (\<lambda>ms. answer (writeBulkStrings ms)))))
      else if cmd = ''SDIFF'' then
        Some (if length args < 2 then wrongArgs cmd
          else owning (drop 1 args) (reading (Store_SDiff (drop 1 args) (clock e)) (attempt (\<lambda>ms. answer (writeBulkStrings ms)))))
      else None)"

section \<open>Sorted sets by score, rank and name\<close>

fun zrange_options :: "string \<Rightarrow> bool \<Rightarrow> string list \<Rightarrow> bool \<times> int \<times> int \<Rightarrow> (bool \<times> int \<times> int) res" where
  "zrange_options cmd allowed [] opts = Inr opts"
| "zrange_options cmd allowed (x # xs) (ws, off, cnt) =
     (if allowed \<and> ToUpper x = ''WITHSCORES'' then zrange_options cmd allowed xs (True, off, cnt)
      else if ToUpper x = ''LIMIT'' then
        (case xs of
           a # b # ys \<Rightarrow>
             (case Atoi a of
                (_, Some e) \<Rightarrow> Inl (num_err e)
              | (off, None) \<Rightarrow>
                  (case Atoi b of
                     (_, Some e) \<Rightarrow> Inl (num_err e)
                   | (cnt, None) \<Rightarrow> zrange_options cmd allowed ys (ws, off, cnt)))
         | _ \<Rightarrow> Inl (Err (''wrong number of arguments for '' @ cmd)))
      else zrange_options cmd allowed xs (ws, off, cnt))"

definition exec_zranges :: "env \<Rightarrow> string \<Rightarrow> string list \<Rightarrow> handler option" where
  "exec_zranges e cmd args =
     (if cmd = ''ZRANGEBYSCORE'' then
        Some (if length args < 4 then wrongArgs cmd
          else owning [args ! 1] (attempt (\<lambda>(lo, hi). attempt (\<lambda>(ws, off, cnt).
              reading (Store_ZRangeByScore (args ! 1) lo hi off cnt (clock e)) (attempt (\<lambda>items.
                answer (members_with_scores ws items))))
              (zrange_options cmd True (drop 4 args) (False, 0, 0)))
            (parseScoreRange (args ! 2) (args ! 3))))
      else if cmd = ''ZREVRANGE'' then
        Some (if length args \<noteq> 4 \<and> length args \<noteq> 5 then wrongArgs cmd
          else owning [args ! 1] (with_int (args ! 2) (\<lambda>start. with_int (args ! 3) (\<lambda>stop.
            if length args = 5 \<and> \<not> EqualFold (args ! 4) ''WITHSCORES'' then wrongArgs cmd
            else reading (Store_ZRevRange (args ! 1) start stop (clock e)) (attempt (\<lambda>items.
              answer (members_with_scores (length args = 5) items)))))))
      else if cmd = ''ZRANK'' then
        Some (if length args \<noteq> 3 then wrongArgs cmd
          else owning [args ! 1] (reading (Store_ZRank (args ! 1) (args ! 2) (clock e)) (attempt (\<lambda>r.
            answer (case r of None \<Rightarrow> Writer_Null | Some i \<Rightarrow> Writer_Int (int i))))))
      else if cmd = ''ZREVRANK'' then
        Some (if length args \<noteq> 3 then wrongArgs cmd
          else owning [args ! 1] (reading (Store_ZRevRank (args ! 1) (args ! 2) (clock e)) (attempt (\<lambda>r.
            answer (case r of None \<Rightarrow> Writer_Null | Some i \<Rightarrow> Writer_Int i)))))
      else None)"

definition exec_zchanges :: "env \<Rightarrow> string \<Rightarrow> string list \<Rightarrow> handler option" where
  "exec_zchanges e cmd args =
     (if cmd = ''ZCOUNT'' then
        Some (if length args \<noteq> 4 then wrongArgs cmd
          else owning [args ! 1] (attempt (\<lambda>(lo, hi).
              reading (Store_ZCount (args ! 1) lo hi (clock e)) (attempt (\<lambda>n. answer (Writer_Int (int n)))))
            (parseScoreRange (args ! 2) (args ! 3))))
      else if cmd = ''ZPOPMIN'' \<or> cmd = ''ZPOPMAX'' then
        Some (if length args < 2 \<or> 3 < length args then wrongArgs cmd
          else owning [args ! 1] (with_count args (\<lambda>cnt.
            on_store ((if cmd = ''ZPOPMIN'' then Store_ZPopMin else Store_ZPopMax) (args ! 1) cnt (clock e)) (attempt (\<lambda>items.
              (if items \<noteq> [] then logged e (''ZREM'' # args ! 1 # map Member items) else id)
                (answer (members_with_scores True items)))))))
      else if cmd = ''ZINCRBY'' then
        Some (if length args \<noteq> 4 then wrongArgs cmd
          else owning [args ! 1] (with_float (args ! 2) (\<lambda>incr.
            on_store (Store_ZIncrBy (args ! 1) incr (args ! 3) (clock e)) (attempt (\<lambda>score.
              logged e [''ZADD'', args ! 1, formatScore score, args ! 3] (answer (Writer_Bulk (formatScore score))))))))
      else if cmd = ''ZRANGEBYLEX'' then
        Some (if length args < 4 then wrongArgs cmd
          else owning [args ! 1] (attempt (\<lambda>(_, off, cnt).
              reading (Store_ZRangeByLex (args ! 1) (args ! 2) (args ! 3) off cnt (clock e)) (attempt (\<lambda>items.
                answer (writeBulkStrings (map Member items)))))
            (zrange_options cmd False (drop 4 args) (False, 0, 0))))
      else None)"

section \<open>Geographic searches\<close>

fun parse_points :: "(string \<times> string \<times> string) list \<Rightarrow> (float64 \<times> float64 \<times> string) list res" where
  "parse_points [] = Inr []"
| "parse_points ((x, y, m) # ps) =
     (case ParseFloat x of
        Inl e \<Rightarrow> Inl (num_err e)
      | Inr lon \<Rightarrow>
          (case ParseFloat y of
             Inl e \<Rightarrow> Inl (num_err e)
           | Inr lat \<Rightarrow> (case parse_points ps of Inl e \<Rightarrow> Inl e | Inr ms \<Rightarrow> Inr ((lon, lat, m) # ms))))"

record geo_query =
  centerLon :: float64
  centerLat :: float64
  fromMember :: string
  radius :: float64
  asc :: bool
  gcount :: int
  withCoord :: bool
  withDist :: bool

abbreviation geo_arity :: go_error where "geo_arity \<equiv> Err ''wrong number of arguments for GEOSEARCH''"

function geo_options :: "string list \<Rightarrow> geo_query \<Rightarrow> geo_query res" where
  "geo_options xs q =
     (if xs = [] then Inr q
      else let c = ToUpper (hd xs) in
        if c = ''FROMMEMBER'' then
          if length xs \<le> 1 then Inl geo_arity else geo_options (drop 2 xs) (q\<lparr>fromMember := xs ! 1\<rparr>)
        else if c = ''FROMLONLAT'' then
          if length xs \<le> 2 then Inl geo_arity
          else (case ParseFloat (xs ! 1) of
                  Inl e \<Rightarrow> Inl (num_err e)
                | Inr lon \<Rightarrow>
                    (case ParseFloat (xs ! 2) of
                       Inl e \<Rightarrow> Inl (num_err e)
                     | Inr lat \<Rightarrow> geo_options (drop 3 xs) (q\<lparr>centerLon := lon, centerLat := lat\<rparr>)))
        else if c = ''BYRADIUS'' then
          if length xs \<le> 2 then Inl geo_arity
          else (case ParseFloat (xs ! 1) of
                  Inl e \<Rightarrow> Inl (num_err e)
                | Inr r \<Rightarrow> geo_options (drop 3 xs) (q\<lparr>radius := geoUnitToMeters r (ToLower (xs ! 2))\<rparr>))
        else if c = ''ASC'' then geo_options (tl xs) (q\<lparr>asc := True\<rparr>)
        else if c = ''DESC'' then geo_options (tl xs) (q\<lparr>asc := False\<rparr>)
        else if c = ''COUNT'' then
          if length xs \<le> 1 then Inl geo_arity
          else (case Atoi (xs ! 1) of
                  (_, Some e) \<Rightarrow> Inl (num_err e)
                | (n, None) \<Rightarrow> geo_options (drop 2 xs) (q\<lparr>gcount := n\<rparr>))
        else if c = ''WITHCOORD'' then geo_options (tl xs) (q\<lparr>withCoord := True\<rparr>)
        else if c = ''WITHDIST'' then geo_options (tl xs) (q\<lparr>withDist := True\<rparr>)
        else geo_options (tl xs) q)"
  by pat_completeness auto
termination by (relation "measure (\<lambda>(xs, _). length xs)") auto

declare geo_options.simps [simp del]

definition geo_reply :: "geo_query \<Rightarrow> GeoResult \<Rightarrow> string" where
  "geo_reply q r =
     (let extras = (if withDist q then 1 else 0) + (if withCoord q then 1 else 0) in
      if extras = 0 then Writer_Bulk (GMember r)
      else Writer_ArrayLen (1 + extras) @ Writer_Bulk (GMember r) @
        (if withDist q then Writer_Bulk (FormatFloat4 (Dist r)) else []) @
        (if withCoord q then Writer_ArrayLen 2 @ Writer_Bulk (FormatFloat (Longitude r)) @ Writer_Bulk (FormatFloat (Latitude r)) else []))"

definition Server_geoSearch :: "env \<Rightarrow> string list \<Rightarrow> handler" where
  "Server_geoSearch e args =
     (if length args < 6 then wrongArgs ''GEOSEARCH''
      else owning [args ! 1] (attempt (\<lambda>q.
        let write = (\<lambda>rs. answer (Writer_ArrayLen (int (length rs)) @ concat (map (geo_reply q) rs))) in
        if fromMember q \<noteq> ''''
        then reading (Store_GeoSearchByMember (math e) (toUint e) (geoSort e) (args ! 1) (fromMember q) (radius q) (gcount q) (asc q) (clock e))
               (attempt write)
        else reading (Store_GeoSearchByRadius (math e) (toUint e) (geoSort e) (args ! 1) (centerLon q) (centerLat q) (radius q) (gcount q)
               (asc q) (clock e)) write)
        (geo_options (drop 2 args) \<lparr>centerLon = Fin 0, centerLat = Fin 0, fromMember = '''', radius = Fin 0, asc = True, gcount = 0,
           withCoord = False, withDist = False\<rparr>)))"

definition exec_geo :: "env \<Rightarrow> string \<Rightarrow> string list \<Rightarrow> handler option" where
  "exec_geo e cmd args =
     (if cmd = ''GEOADD'' then
        Some (if length args < 5 then wrongArgs cmd
          else owning [args ! 1]
            (if (length args - 2) mod 3 \<noteq> 0 then wrongArgs cmd
             else attempt (\<lambda>ms.
               logging e (''ZADD'' # args ! 1 # concat (map (\<lambda>(lon, lat, m). [FormatFloat (GeoEncode (toUint e) lon lat), m]) ms))
                 (on_store (Store_GeoAdd (toUint e) (args ! 1) ms (clock e)) (attempt (\<lambda>n. answer (Writer_Int (int n))))))
               (parse_points (triples_of (drop 2 args)))))
      else if cmd = ''GEOPOS'' then
        Some (if length args < 3 then wrongArgs cmd
          else owning [args ! 1] (reading (Store_GeoPos (toUint e) (args ! 1) (drop 2 args) (clock e)) (\<lambda>ps.
            answer (Writer_ArrayLen (int (length ps)) @
              concat (map (\<lambda>p. case p of None \<Rightarrow> Writer_NullArray
                | Some (lon, lat) \<Rightarrow> Writer_ArrayLen 2 @ Writer_Bulk (FormatFloat lon) @ Writer_Bulk (FormatFloat lat)) ps)))))
      else if cmd = ''GEODIST'' then
        Some (if length args < 4 \<or> 5 < length args then wrongArgs cmd
          else owning [args ! 1] (reading (Store_GeoDist (math e) (toUint e) (args ! 1) (args ! 2) (args ! 3) (clock e)) (\<lambda>d.
            answer (case d of None \<Rightarrow> Writer_Null
              | Some d \<Rightarrow> Writer_Bulk (FormatFloat4 (convertGeoUnit d (if length args = 5 then ToLower (args ! 4) else ''m'')))))))
      else if cmd = ''GEOSEARCH'' then Some (Server_geoSearch e args)
      else None)"

end
