(* ===== verification/Vole_Limits.thy ===== *)
theory Vole_Limits
  imports Vole_Keys
begin

text \<open>
  Rate limiting and the memory limit of \<^verbatim>\<open>internal/store/store.go\<close>.  A rate limiter keeps the times of the requests it
  granted and counts those inside a sliding window.  Before a write the server compares an estimate of the
  memory in use with the limit and evicts keys by the configured policy until the estimate is below it.
\<close>

section \<open>Rate limiting\<close>

text \<open>The timestamps after \<open>now.Add(-window)\<close>.\<close>

definition within_window :: "duration \<Rightarrow> gotime \<Rightarrow> gotime list \<Rightarrow> gotime list" where
  "within_window window now ts = filter (\<lambda>t. now + wrap64 (- window) < t) ts"

definition limiter_of :: "key \<Rightarrow> int \<Rightarrow> duration \<Rightarrow> store \<Rightarrow> RateLimiter" where
  "limiter_of key maxReq window s =
     (case fmlookup (rateLimiters s) key of
        None \<Rightarrow> \<lparr>Window = window, MaxRequests = maxReq, Requests = []\<rparr>
      | Some rl \<Rightarrow> rl)"

text \<open>The answer is \<open>(allowed, remaining, retryAfterMs, resetAtMs)\<close>.  A maximum of zero or less refuses a request although
  there is no timestamp, and reading the first one panics.\<close>

definition Store_RateLimit :: "key \<Rightarrow> int \<Rightarrow> duration \<Rightarrow> gotime \<Rightarrow> store \<Rightarrow> (bool \<times> int \<times> int \<times> int) res \<times> store" where
  "Store_RateLimit key maxReq window now s =
     (let rl = (limiter_of key maxReq window s)\<lparr>Window := window, MaxRequests := maxReq\<rparr>;
          rl = rl\<lparr>Requests := within_window window now (Requests rl)\<rparr>;
          s = s\<lparr>rateLimiters := fmupd key rl (rateLimiters s)\<rparr>;
          resetAtMs = (case Requests rl of [] \<Rightarrow> UnixMilli (now + window) | t # _ \<Rightarrow> UnixMilli (t + window))
      in if maxReq \<le> int (length (Requests rl))
         then (case Requests rl of
                 [] \<Rightarrow> (Inl (Panic ''index out of range''), s)
               | t # _ \<Rightarrow>
                   let retryAfter = time_Sub (t + window) now;
                       retryAfter = (if retryAfter < 0 then 0 else retryAfter)
                   in (Inr (False, 0, Milliseconds retryAfter, resetAtMs), s))
         else let rl = rl\<lparr>Requests := Requests rl @ [now]\<rparr>;
                  s = s\<lparr>rateLimiters := fmupd key rl (rateLimiters s)\<rparr>
              in (Inr (True, maxReq - int (length (Requests rl)), 0, resetAtMs), touchKeyLocked [key] now s))"

definition Store_RateLimitPeek :: "key \<Rightarrow> gotime \<Rightarrow> store \<Rightarrow> int \<times> int" where
  "Store_RateLimitPeek key now s =
     (case fmlookup (rateLimiters s) key of
        None \<Rightarrow> (-1, 0)
      | Some rl \<Rightarrow>
          (wrap64 (MaxRequests rl - int (length (within_window (Window rl) now (Requests rl)))),
           case Requests rl of [] \<Rightarrow> 0 | t # _ \<Rightarrow> UnixMilli (t + Window rl)))"

definition Store_RateLimitReset :: "key \<Rightarrow> store \<Rightarrow> bool \<times> store" where
  "Store_RateLimitReset key s =
     (if has (rateLimiters s) key then (True, s\<lparr>rateLimiters := fmdrop key (rateLimiters s)\<rparr>) else (False, s))"

section \<open>Memory limit\<close>

definition Store_SetMaxMemory :: "int \<Rightarrow> store \<Rightarrow> store" where
  "Store_SetMaxMemory bytes s = s\<lparr>maxMemory := bytes, memEstimate := 0, opsSinceEstimate := 0\<rparr>"

definition Store_SetEvictPolicy :: "string \<Rightarrow> store \<Rightarrow> store" where
  "Store_SetEvictPolicy policy s = s\<lparr>evictPolicy := policy\<rparr>"

definition Store_GetMaxMemory :: "store \<Rightarrow> int" where
  "Store_GetMaxMemory s = maxMemory s"

definition Store_GetEvictPolicy :: "store \<Rightarrow> string" where
  "Store_GetEvictPolicy s = (if evictPolicy s = '''' then ''noeviction'' else evictPolicy s)"

definition Store_NeedsEviction :: "store \<Rightarrow> bool" where
  "Store_NeedsEviction s \<longleftrightarrow> 0 < maxMemory s"

text \<open>The estimate of one map: the sum over its keys.\<close>

definition map_mem :: "(string \<Rightarrow> 'v \<Rightarrow> int) \<Rightarrow> 'v gomap \<Rightarrow> int" where
  "map_mem f m = sum_list (map (\<lambda>k. f k (the (fmlookup m k))) (sorted_keys m))"

abbreviation len :: "'a list \<Rightarrow> int" where
  "len xs \<equiv> int (length xs)"

definition entry_mem :: "StreamEntry \<Rightarrow> int" where
  "entry_mem e = len (EntryID e) + 48 + sum_list (map (\<lambda>f. len f + 16) (Fields e))"

definition estimate_total :: "store \<Rightarrow> int" where
  "estimate_total s =
     map_mem (\<lambda>k v. len k + len v + 64) (kv s) +
     map_mem (\<lambda>k h. len k + 64 + map_mem (\<lambda>f v. len f + len v + 32) h) (hashes s) +
     map_mem (\<lambda>k d. len k + 64 + int (Deque_Len d) * 48) (lists s) +
     map_mem (\<lambda>k S. len k + 64 + int (fcard S) * 48) (sets s) +
     map_mem (\<lambda>k z. len k + 64 + int (SortedSet_Len z) * 64) (zsets s) +
     map_mem (\<lambda>k es. len k + 64 + sum_list (map entry_mem es)) (streams s) +
     map_mem (\<lambda>k _. len k + int hllRegisters + 64) (hlls s)"

definition estimateMemoryLocked :: "store \<Rightarrow> int \<times> store" where
  "estimateMemoryLocked s =
     (let s = s\<lparr>opsSinceEstimate := opsSinceEstimate s + 1\<rparr>
      in if opsSinceEstimate s < 1000 \<and> 0 < memEstimate s then (memEstimate s, s)
         else let mem = estimate_total s in (mem, s\<lparr>opsSinceEstimate := 0, memEstimate := mem\<rparr>))"

definition Store_ApproxMemory :: "store \<Rightarrow> int \<times> store" where
  "Store_ApproxMemory s = estimateMemoryLocked s"

section \<open>Eviction\<close>

text \<open>\<open>order\<close> is the order in which Go enumerates a map; the loops that return in their first iteration see its head.\<close>

definition first_key :: "(string list \<Rightarrow> string list) \<Rightarrow> 'v gomap \<Rightarrow> key option" where
  "first_key order m = (case order (sorted_keys m) of [] \<Rightarrow> None | k # _ \<Rightarrow> Some k)"

definition evict_key :: "key \<Rightarrow> gotime \<Rightarrow> store \<Rightarrow> store" where
  "evict_key key now s = (deleteKeyLocked key now s)\<lparr>memEstimate := 0\<rparr>"

definition some_key :: "(string list \<Rightarrow> string list) \<Rightarrow> store \<Rightarrow> key option" where
  "some_key order s =
     (case first_key order (kv s) of Some k \<Rightarrow> Some k | None \<Rightarrow>
      case first_key order (hashes s) of Some k \<Rightarrow> Some k | None \<Rightarrow>
      case first_key order (lists s) of Some k \<Rightarrow> Some k | None \<Rightarrow>
      case first_key order (sets s) of Some k \<Rightarrow> Some k | None \<Rightarrow>
      case first_key order (zsets s) of Some k \<Rightarrow> Some k | None \<Rightarrow>
      case first_key order (streams s) of Some k \<Rightarrow> Some k | None \<Rightarrow>
      first_key order (hlls s))"

definition evictRandomKeyLocked :: "(string list \<Rightarrow> string list) \<Rightarrow> bool \<Rightarrow> gotime \<Rightarrow> store \<Rightarrow> bool \<times> store" where
  "evictRandomKeyLocked order onlyVolatile now s =
     (case (if onlyVolatile then first_key order (expires s) else some_key order s) of
        None \<Rightarrow> (False, s)
      | Some key \<Rightarrow> (True, evict_key key now s))"

text \<open>The oldest of the first five keys with an access time.\<close>

definition sample_oldest :: "(string list \<Rightarrow> string list) \<Rightarrow> store \<Rightarrow> string" where
  "sample_oldest order s =
     fst (fold (\<lambda>key (oldest, oldestTime).
            let t = the (fmlookup (accessTime s) key) in if t < oldestTime then (key, t) else (oldest, oldestTime))
          (take 5 (order (sorted_keys (accessTime s)))) ('''', maxInt64))"

definition evictLRUKeyLocked :: "(string list \<Rightarrow> string list) \<Rightarrow> gotime \<Rightarrow> store \<Rightarrow> bool \<times> store" where
  "evictLRUKeyLocked order now s =
     (let oldest = sample_oldest order s
      in if oldest = '''' then evictRandomKeyLocked order False now s
         else let s = deleteKeyLocked oldest now s;
                  s = s\<lparr>accessTime := fmdrop oldest (accessTime s)\<rparr>
              in (True, s\<lparr>memEstimate := 0\<rparr>))"

definition oom :: go_error where
  "oom = Err (''OOM command not allowed when used memory > '' @ [CHR 0x27] @ ''maxmemory'' @ [CHR 0x27])"

text \<open>One round of the loop of \<open>EvictIfNeeded\<close>: it ends with an answer or evicts a key and goes on.\<close>

definition evict_round :: "(string list \<Rightarrow> string list) \<Rightarrow> gotime \<Rightarrow> store \<Rightarrow> unit res option \<times> store" where
  "evict_round order now s =
     (case estimateMemoryLocked s of (mem, s) \<Rightarrow>
      if \<not> maxMemory s < mem then (Some (Inr ()), s)
      else if evictPolicy s = ''noeviction'' \<or> evictPolicy s = '''' then (Some (Inl oom), s)
      else if evictPolicy s = ''allkeys-random''
      then (case evictRandomKeyLocked order False now s of (ok, s) \<Rightarrow> (if \<not> ok then Some (Inr ()) else None, s))
      else if evictPolicy s = ''volatile-random''
      then (case evictRandomKeyLocked order True now s of (ok, s) \<Rightarrow> (if \<not> ok then Some (Inl oom) else None, s))
      else if evictPolicy s = ''allkeys-lru''
      then (case evictLRUKeyLocked order now s of (ok, s) \<Rightarrow> (if \<not> ok then Some (Inr ()) else None, s))
      else (Some (Inr ()), s))"

text \<open>\<open>order n\<close> is the enumeration order in round \<open>n\<close>.\<close>

partial_function (option) evict_loop ::
  "(nat \<Rightarrow> string list \<Rightarrow> string list) \<Rightarrow> nat \<Rightarrow> gotime \<Rightarrow> store \<Rightarrow> (unit res \<times> store) option" where
  "evict_loop order n now s =
     (case evict_round (order n) now s of
        (Some r, s) \<Rightarrow> Some (r, s)
      | (None, s) \<Rightarrow> evict_loop order (n + 1) now s)"

definition Store_EvictIfNeeded ::
  "(nat \<Rightarrow> string list \<Rightarrow> string list) \<Rightarrow> gotime \<Rightarrow> store \<Rightarrow> (unit res \<times> store) option" where
  "Store_EvictIfNeeded order now s = (if maxMemory s \<le> 0 then Some (Inr (), s) else evict_loop order 0 now s)"

section \<open>The limiter is a sliding window\<close>

text \<open>The specification keeps all granted times: a request is granted if fewer than \<open>m\<close> of them lie in the window
  that ends with it.\<close>

fun sliding_log :: "nat \<Rightarrow> duration \<Rightarrow> gotime list \<Rightarrow> gotime list \<Rightarrow> bool list" where
  "sliding_log m w g [] = []"
| "sliding_log m w g (t # ts) =
     (let ok = length (filter (\<lambda>u. t - w < u) g) < m in ok # sliding_log m w (if ok then g @ [t] else g) ts)"

definition allowed :: "(bool \<times> int \<times> int \<times> int) res \<Rightarrow> bool" where
  "allowed r = (case r of Inr (b, _) \<Rightarrow> b | Inl _ \<Rightarrow> False)"

fun rate_answers :: "key \<Rightarrow> int \<Rightarrow> duration \<Rightarrow> gotime list \<Rightarrow> store \<Rightarrow> bool list" where
  "rate_answers key m w [] s = []"
| "rate_answers key m w (t # ts) s =
     (case Store_RateLimit key m w t s of (r, s) \<Rightarrow> allowed r # rate_answers key m w ts s)"

definition granted :: "gotime list \<Rightarrow> bool list \<Rightarrow> gotime list" where
  "granted ts bs = map fst (filter snd (zip ts bs))"

lemma window_wrap: "int64 w \<Longrightarrow> 0 < w \<Longrightarrow> wrap64 (- w) = - w"
  by (rule wrap64_id) (simp add: int64_def)

lemma limiter_of_simps [simp]:
  "limiter_of key m w (s\<lparr>rateLimiters := fmupd key rl x\<rparr>) = rl"
  "limiter_of key m w (touchKeyLocked ks now s) = limiter_of key m w s"
  by (simp_all add: limiter_of_def)

lemma RateLimit_step:
  assumes "0 < m" "0 < w" "int64 w" and rs: "rs = filter (\<lambda>u. t - w < u) (Requests (limiter_of key m w s))"
  shows "allowed (fst (Store_RateLimit key m w t s)) \<longleftrightarrow> length rs < nat m"
    and "Requests (limiter_of key m w (snd (Store_RateLimit key m w t s))) = (if length rs < nat m then rs @ [t] else rs)"
proof -
  have rs': "within_window w t (Requests (limiter_of key m w s)) = rs"
    using assms by (simp add: within_window_def window_wrap)
  show "allowed (fst (Store_RateLimit key m w t s)) \<longleftrightarrow> length rs < nat m"
    using assms(1) by (cases rs) (auto simp: Store_RateLimit_def Let_def rs' allowed_def)
  show "Requests (limiter_of key m w (snd (Store_RateLimit key m w t s))) = (if length rs < nat m then rs @ [t] else rs)"
    using assms(1) by (cases rs) (auto simp: Store_RateLimit_def Let_def rs')
qed

lemma filter_window: "t' \<le> t \<Longrightarrow> filter (\<lambda>u. t - w < u) (filter (\<lambda>u. t' - w < u) g) = filter (\<lambda>u. t - w < (u::int)) g"
  by (induction g) auto

lemma rate_answers_log:
  assumes "0 < m" "0 < w" "int64 w" "sorted ts" "\<forall>t \<in> set ts. t0 \<le> t"
    and "Requests (limiter_of key m w s) = filter (\<lambda>u. t0 - w < u) g"
  shows "rate_answers key m w ts s = sliding_log (nat m) w g ts"
  using assms(4-)
proof (induction ts arbitrary: s g t0)
  case (Cons t ts)
  define rs where "rs = filter (\<lambda>u. t - w < u) (Requests (limiter_of key m w s))"
  have rs: "rs = filter (\<lambda>u. t - w < u) g" unfolding rs_def Cons.prems(3) by (rule filter_window) (use Cons.prems(2) in simp)
  define g' where "g' = (if length rs < nat m then g @ [t] else g)"
  obtain r s' where r: "Store_RateLimit key m w t s = (r, s')" by force
  have "Requests (limiter_of key m w s') = filter (\<lambda>u. t - w < u) g'" "allowed r \<longleftrightarrow> length rs < nat m"
    using RateLimit_step [OF assms(1-3) rs_def] assms(2) r by (simp_all add: g'_def rs)
  moreover from this(1) have "rate_answers key m w ts s' = sliding_log (nat m) w g' ts"
    using Cons.prems by (intro Cons.IH) auto
  ultimately show ?case by (simp add: r g'_def rs Let_def)
qed simp

text \<open>In the specification no window holds more than \<open>m\<close> granted times.\<close>

lemma sliding_log_bound:
  assumes "sorted ts" "\<forall>t \<in> set ts. \<forall>u \<in> set g. u \<le> t" "0 < m"
    and "\<And>x. length (filter (\<lambda>u. x - w < u \<and> u \<le> x) g) \<le> m"
  shows "length (filter (\<lambda>u. x - w < u \<and> u \<le> x) (g @ granted ts (sliding_log m w g ts))) \<le> m"
  using assms
proof (induction ts arbitrary: g)
  case (Cons t ts)
  let ?ok = "length (filter (\<lambda>u. t - w < u) g) < m"
  define g' where "g' = (if ?ok then g @ [t] else g)"
  have one: "length (filter (\<lambda>u. y - w < u \<and> u \<le> y) (g @ [t])) \<le> m" if ok: ?ok for y
  proof (cases "t \<le> y")
    case True
    then have "length (filter (\<lambda>u. y - w < u \<and> u \<le> y) g) \<le> length (filter (\<lambda>u. t - w < u) g)"
      unfolding length_filter_conv_card by (intro card_mono) auto
    with ok show ?thesis by simp
  next
    case False
    then show ?thesis using Cons.prems(4) [of y] by simp
  qed
  have "length (filter (\<lambda>u. x - w < u \<and> u \<le> x) (g' @ granted ts (sliding_log m w g' ts))) \<le> m"
    using Cons.prems one by (intro Cons.IH) (auto simp: g'_def)
  moreover have "g @ granted (t # ts) (sliding_log m w g (t # ts)) = g' @ granted ts (sliding_log m w g' ts)"
    by (simp add: granted_def g'_def Let_def)
  ultimately show ?case by simp
qed (simp add: granted_def)

text \<open>The limiter is exact.  For requests at non-decreasing times on a key without a limiter, a request is granted
  if and only if fewer than \<open>m\<close> requests were granted in the window that ends with it, and so no window of the
  given length, wherever it lies, contains more than \<open>m\<close> granted requests.\<close>

theorem rate_limit_exact:
  assumes "0 < m" "0 < w" "int64 w" "sorted ts" "fmlookup (rateLimiters s) key = None"
  shows "rate_answers key m w ts s = sliding_log (nat m) w [] ts \<and>
    length (filter (\<lambda>u. x - w < u \<and> u \<le> x) (granted ts (rate_answers key m w ts s))) \<le> nat m"
proof -
  have "rate_answers key m w ts s = sliding_log (nat m) w [] ts"
    by (rule rate_answers_log [OF assms(1-4), of "hd ts"]) (use assms(4,5) in \<open>cases ts; auto simp: limiter_of_def\<close>)+
  then show ?thesis using sliding_log_bound [of ts "[]" "nat m" w x] assms by simp
qed

theorem rate_limit_exact_witness:
  "rate_answers ''u'' 2 10 [0, 3, 5, 11, 12] Store_New = [True, True, False, True, False] \<and>
   length (filter (\<lambda>u. 1 < u \<and> u \<le> 11) (granted [0, 3, 5, 11, 12] (rate_answers ''u'' 2 10 [0, 3, 5, 11, 12] Store_New))) \<le> 2"
proof -
  have "fmlookup (rateLimiters Store_New) ''u'' = None" by (simp add: Store_New_def)
  then show ?thesis
    using rate_limit_exact [of 2 10 "[0, 3, 5, 11, 12]" Store_New "''u''" 11] by (simp add: int64_def granted_def del: rate_answers.simps)
qed

text \<open>The waiting time in a refusal is right.  Whoever is refused and asks again one millisecond after the answered
  delay, with no request in between, is granted.\<close>

theorem retry_after_suffices:
  assumes "Store_RateLimit key m w now s = (Inr (False, remaining, retry, reset), s')" "0 < w" "int64 w"
    and "sorted (Requests (limiter_of key m w s))" "\<forall>t \<in> set (Requests (limiter_of key m w s)). t \<le> now"
    and "int (length (Requests (limiter_of key m w s))) \<le> m" "now + (retry + 1) * 1000000 \<le> later"
  shows "\<exists>remaining reset. fst (Store_RateLimit key m w later s') = Inr (True, remaining, 0, reset) \<and> 0 \<le> remaining \<and> remaining < m"
proof -
  let ?rs = "filter (\<lambda>u. now - w < u) (Requests (limiter_of key m w s))"
  have win: "within_window w x = filter (\<lambda>u. x - w < u)" for x
    using assms(2,3) by (simp add: within_window_def fun_eq_iff window_wrap)
  obtain t ts where rs: "?rs = t # ts" and full: "m \<le> len ?rs"
    and retry: "retry = Milliseconds (let d = time_Sub (t + w) now in if d < 0 then 0 else d)"
    and s': "s' = s\<lparr>rateLimiters := fmupd key ((limiter_of key m w s)\<lparr>Window := w, MaxRequests := m, Requests := ?rs\<rparr>) (rateLimiters s)\<rparr>"
    using assms(1) by (cases ?rs) (auto simp: Store_RateLimit_def Let_def win split: if_splits)
  have "t \<in> set ?rs" unfolding rs by simp
  then have t: "now - w < t" "t \<le> now" using assms(5) by auto
  then have "time_Sub (t + w) now = t + w - now" using assms(2,3) by (simp add: time_Sub_def minDuration_def maxDuration_def int64_def)
  then have "t + w - now < (retry + 1) * 1000000" using t by (simp add: retry Milliseconds_def)
  with assms(7) have "t \<le> later - w" by simp
  then have drop: "filter (\<lambda>u. later - w < u) ?rs = filter (\<lambda>u. later - w < u) ts" unfolding rs by simp
  have "Requests (limiter_of key m w s') = ?rs" by (simp add: s')
  then have lim: "filter (\<lambda>u. later - w < u) (Requests (limiter_of key m w s')) = filter (\<lambda>u. later - w < u) ts"
    unfolding drop [symmetric] by (rule arg_cong)
  have "length ?rs = Suc (length ts)" unfolding rs by simp
  then have "Suc (length ts) \<le> length (Requests (limiter_of key m w s))" by (metis length_filter_le)
  then have "len (filter (\<lambda>u. later - w < u) ts) < m"
    using assms(6) length_filter_le [of "\<lambda>u. later - w < u" ts] by linarith
  then show ?thesis by (simp add: Store_RateLimit_def Let_def win lim)
qed

theorem retry_after_suffices_witness:
  "\<exists>remaining reset. fst (Store_RateLimit ''u'' 1 5000000 8000000
     (snd (Store_RateLimit ''u'' 1 5000000 3000000 (snd (Store_RateLimit ''u'' 1 5000000 2000000 Store_New)))))
     = Inr (True, remaining, 0, reset) \<and> 0 \<le> remaining \<and> remaining < 1"
proof -
  let ?s = "snd (Store_RateLimit ''u'' 1 5000000 2000000 Store_New)"
  have w: "wrap64 (- 5000000) = - 5000000" by (simp add: wrap64_def)
  have lim: "Requests (limiter_of ''u'' 1 5000000 ?s) = [2000000]"
    by (simp add: Store_RateLimit_def Let_def limiter_of_def within_window_def w Store_New_def)
  have "Store_RateLimit ''u'' 1 5000000 3000000 ?s = (Inr (False, 0, 4, 7), snd (Store_RateLimit ''u'' 1 5000000 3000000 ?s))"
    by (simp add: Store_RateLimit_def [of _ _ _ _ ?s] Let_def lim within_window_def w time_Sub_def minDuration_def maxDuration_def
      Milliseconds_def UnixMilli_def)
  from retry_after_suffices [OF this, of 8000000] show ?thesis unfolding lim by (simp add: int64_def)
qed

text \<open>\<open>RATELIMIT\<close> with a maximum of zero or less, which neither the command nor the HTTP handler excludes, panics on a
  key with no request in the window.\<close>

theorem rate_limit_zero_panics:
  assumes "m \<le> 0" "fmlookup (rateLimiters s) key = None"
  shows "fst (Store_RateLimit key m w now s) = Inl (Panic ''index out of range'')"
  using assms by (simp add: Store_RateLimit_def Let_def limiter_of_def within_window_def)

theorem rate_limit_zero_panics_witness:
  "fst (Store_RateLimit ''u'' 0 Second 5 Store_New) = Inl (Panic ''index out of range'')"
  by (rule rate_limit_zero_panics) (simp_all add: Store_New_def)

section \<open>Eviction ends\<close>

definition enumerates :: "(string list \<Rightarrow> string list) \<Rightarrow> bool" where
  "enumerates order \<longleftrightarrow> (\<forall>xs. set (order xs) = set xs)"

definition core_keys :: "store \<Rightarrow> string fset" where
  "core_keys s = fmdom (kv s) |\<union>| fmdom (hashes s) |\<union>| fmdom (lists s) |\<union>| fmdom (sets s) |\<union>| fmdom (zsets s) |\<union>|
     fmdom (streams s) |\<union>| fmdom (hlls s)"

definition evict_measure :: "store \<Rightarrow> nat" where
  "evict_measure s = 2 * (fcard (core_keys s) + map_len (expires s)) + map_len (accessTime s)"

lemma first_key_set:
  assumes "enumerates order"
  shows "first_key order m = None \<longleftrightarrow> m = fmempty" "first_key order m = Some k \<Longrightarrow> has m k"
proof -
  have *: "set (order (sorted_keys m)) = fmdom' m" using assms by (simp add: enumerates_def)
  then show "first_key order m = None \<longleftrightarrow> m = fmempty"
    by (auto simp: first_key_def fmdom'_empty [symmetric] split: list.splits)
  assume "first_key order m = Some k"
  then have "k \<in> fmdom' m" unfolding * [symmetric] by (auto simp: first_key_def split: list.splits)
  then show "has m k" by (simp only: has_fmdom')
qed

lemma map_mem_empty [simp]: "map_mem f (fmempty :: 'v gomap) = 0"
  by (simp add: map_mem_def)

lemma some_key_None: "enumerates order \<Longrightarrow> some_key order s = None \<Longrightarrow> estimate_total s = 0"
  by (auto simp: some_key_def first_key_set estimate_total_def split: option.splits)

lemma some_key_Some: "enumerates order \<Longrightarrow> some_key order s = Some k \<Longrightarrow> k |\<in>| core_keys s"
  by (auto simp: some_key_def core_keys_def split: option.splits dest!: first_key_set(2) intro: fmdomI)

text \<open>Deleting a key: the data shrinks, while the access times may gain the key.\<close>

lemma core_keys_delete: "core_keys (deleteKeyLocked k now s) = core_keys s |-| {|k|}"
  by (auto simp: core_keys_def deleteKeyLocked_def Let_def)

lemma expires_delete: "expires (deleteKeyLocked k now s) = fmdrop k (expires s)"
  by (simp add: deleteKeyLocked_def Let_def)

lemma limits_delete [simp]:
  "maxMemory (deleteKeyLocked k now s) = maxMemory s" "evictPolicy (deleteKeyLocked k now s) = evictPolicy s"
  by (simp_all add: deleteKeyLocked_def Let_def)

lemma accessTime_delete:
  "accessTime (deleteKeyLocked k now s) =
     (if 0 < maxMemory s then fmupd k now (fmdrop k (accessTime s)) else fmdrop k (accessTime s))"
  by (simp add: deleteKeyLocked_def touchKeyLockedNoEvent_def record_access_def bump_version_def send_event_def Let_def)

lemma fcard_minus: "k |\<in>| A \<Longrightarrow> fcard A = Suc (fcard (A |-| {|k|}))"
  by (metis fcard_Suc_fminus1)

lemma measure_evict:
  assumes "k |\<in>| core_keys s \<or> has (expires s) k"
  shows "evict_measure (evict_key k now s) < evict_measure s"
proof -
  let ?t = "evict_key k now s"
  have eqs: "core_keys ?t = core_keys s |-| {|k|}" "expires ?t = fmdrop k (expires s)"
    using core_keys_delete [of k now s] by (simp_all add: evict_key_def expires_delete core_keys_def)
  have "fcard (core_keys ?t) \<le> fcard (core_keys s)" "k |\<in>| core_keys s \<Longrightarrow> fcard (core_keys ?t) < fcard (core_keys s)"
    unfolding eqs by (rule fcard_mono, blast) (metis fcard_minus lessI)
  moreover have "map_len (expires ?t) \<le> map_len (expires s)" "has (expires s) k \<Longrightarrow> map_len (expires ?t) < map_len (expires s)"
    using map_len_pos [of "expires s" k] by (auto simp: eqs map_len_drop)
  moreover have "map_len (accessTime ?t) \<le> Suc (map_len (accessTime s))"
    by (simp add: evict_key_def accessTime_delete map_len_upd map_len_drop le_SucI)
  ultimately show ?thesis using assms by (auto simp: evict_measure_def)
qed

text \<open>What an eviction step may do to the data.\<close>

definition evicted :: "bool \<Rightarrow> store \<Rightarrow> store \<Rightarrow> bool" where
  "evicted onlyVolatile s t \<longleftrightarrow> tracked UNIV s t \<and> maxMemory t = maxMemory s \<and> evictPolicy t = evictPolicy s \<and>
     (\<forall>k. column t k = column s k \<or> column t k = no_column \<and> (onlyVolatile \<longrightarrow> cExp (column s k) \<noteq> None))"

lemma evicted_refl: "evicted v s s"
  by (simp add: evicted_def)

lemma evicted_trans: "evicted v s t \<Longrightarrow> evicted v t u \<Longrightarrow> evicted v s u"
  unfolding evicted_def by (metis tracked_trans Un_UNIV_left no_column_simps)

lemma evicted_delete: "(v \<Longrightarrow> has (expires s) k) \<Longrightarrow> evicted v s (deleteKeyLocked k now s)"
  by (auto simp: evicted_def tracked_delete column_delete column_lookup)

lemma evicted_same: "evicted v s (t\<lparr>memEstimate := m\<rparr>) = evicted v s t" "evicted v s (t\<lparr>accessTime := x\<rparr>) = evicted v s t"
  by (simp_all add: evicted_def tracked_def getVersion_def)

lemma evict_random:
  assumes "enumerates order"
  shows "case evictRandomKeyLocked order v now s of (ok, t) \<Rightarrow>
    if ok then evicted v s t \<and> memEstimate t = 0 \<and> evict_measure t < evict_measure s
    else t = s \<and> (if v then expires s = fmempty else estimate_total s = 0)"
proof (cases "if v then first_key order (expires s) else some_key order s")
  case None
  then show ?thesis using assms by (auto simp: evictRandomKeyLocked_def first_key_set some_key_None split: if_splits)
next
  case (Some k)
  then have "if v then has (expires s) k else k |\<in>| core_keys s"
    using assms by (auto dest: some_key_Some first_key_set(2) split: if_splits)
  then have "evict_measure (evict_key k now s) < evict_measure s" "v \<Longrightarrow> has (expires s) k"
    by (auto intro: measure_evict split: if_splits)
  moreover from this(2) have "evicted v s (evict_key k now s)" "memEstimate (evict_key k now s) = 0"
    by (simp_all add: evict_key_def evicted_same evicted_delete)
  ultimately show ?thesis by (simp add: evictRandomKeyLocked_def Some)
qed

lemma fold_pick:
  "fst (fold (\<lambda>key (oldest, oldestTime). let t = f key in if t < oldestTime then (key, t) else (oldest, oldestTime)) xs (o1, t1))
     \<in> insert o1 (set xs)"
proof (induction xs arbitrary: o1 t1)
  case (Cons x xs)
  then show ?case using Cons [of x "f x"] Cons [of o1 t1] by (auto simp: Let_def)
qed simp

lemma sample_oldest_key: "enumerates order \<Longrightarrow> sample_oldest order s \<noteq> '''' \<Longrightarrow> has (accessTime s) (sample_oldest order s)"
  using fold_pick [of "\<lambda>key. the (fmlookup (accessTime s) key)" "take 5 (order (sorted_keys (accessTime s)))" "''''" maxInt64]
    set_take_subset [of 5 "order (sorted_keys (accessTime s))"]
  unfolding sample_oldest_def enumerates_def has_fmdom' by auto

lemma evict_lru:
  assumes "enumerates order"
  shows "case evictLRUKeyLocked order now s of (ok, t) \<Rightarrow>
    if ok then evicted False s t \<and> memEstimate t = 0 \<and> evict_measure t < evict_measure s
    else t = s \<and> estimate_total s = 0"
proof (cases "sample_oldest order s = ''''")
  case True
  then show ?thesis using evict_random [OF assms, of False s now] by (auto simp: evictLRUKeyLocked_def split: prod.splits)
next
  case False
  define k where "k = sample_oldest order s"
  define t where "t = (deleteKeyLocked k now s)\<lparr>accessTime := fmdrop k (accessTime (deleteKeyLocked k now s)), memEstimate := 0\<rparr>"
  have k: "has (accessTime s) k" using sample_oldest_key [OF assms False] by (simp add: k_def)
  have eqs: "core_keys t = core_keys s |-| {|k|}" "expires t = fmdrop k (expires s)" "accessTime t = fmdrop k (accessTime s)"
    using core_keys_delete [of k now s] by (simp_all add: t_def core_keys_def expires_delete accessTime_delete)
  have "fcard (core_keys t) \<le> fcard (core_keys s)" unfolding eqs by (rule fcard_mono) blast
  moreover have "map_len (expires t) \<le> map_len (expires s)" by (simp add: eqs map_len_drop)
  moreover have "map_len (accessTime t) < map_len (accessTime s)" using map_len_pos [OF k] k by (simp add: eqs map_len_drop)
  ultimately have "evict_measure t < evict_measure s" by (simp add: evict_measure_def)
  moreover have "evicted False s t" by (simp add: t_def evicted_same evicted_delete)
  moreover have "evictLRUKeyLocked order now s = (True, t)"
    using False by (simp add: evictLRUKeyLocked_def Let_def t_def k_def)
  ultimately show ?thesis by (simp add: t_def)
qed

lemma estimate_step:
  "case estimateMemoryLocked s of (mem, t) \<Rightarrow>
    (memEstimate s = 0 \<longrightarrow> mem = estimate_total s) \<and> estimate_total t = estimate_total s \<and> evict_measure t = evict_measure s \<and>
    expires t = expires s \<and> evicted v s t \<and> (\<forall>k. column t k = column s k) \<and> maxMemory t = maxMemory s \<and> evictPolicy t = evictPolicy s"
  by (auto simp: estimateMemoryLocked_def Let_def estimate_total_def evict_measure_def core_keys_def evicted_def tracked_def getVersion_def)

definition evict_policies :: "string set" where
  "evict_policies = {''noeviction'', '''', ''allkeys-random'', ''volatile-random'', ''allkeys-lru''}"

abbreviation volatile :: "store \<Rightarrow> bool" where
  "volatile s \<equiv> evictPolicy s = ''volatile-random''"

lemma evict_round_result:
  assumes "enumerates order" "0 < maxMemory s" "evict_round order now s = (r, t)"
  shows "evicted (volatile s) s t"
    and "r = None \<Longrightarrow> evict_measure t < evict_measure s \<and> memEstimate t = 0"
    and "r = Some a \<Longrightarrow> \<forall>k. column t k = column s k"
    and "r = Some (Inr ()) \<Longrightarrow> memEstimate s = 0 \<Longrightarrow> evictPolicy s \<in> evict_policies \<Longrightarrow> estimate_total t \<le> maxMemory s"
    and "r = Some (Inl e) \<Longrightarrow> e = oom \<and> (evictPolicy s \<in> {''noeviction'', ''''} \<or> volatile s \<and> expires t = fmempty)"
proof -
  obtain mem u where u: "estimateMemoryLocked s = (mem, u)" by force
  note est = estimate_step [of s "volatile s", unfolded u prod.case]
  note steps = evict_random [OF assms(1), of True u now] evict_random [OF assms(1), of False u now] evict_lru [OF assms(1), of u now]
  note run = assms(3) [unfolded evict_round_def u prod.case]
  show "evicted (volatile s) s t"
    using run est steps by (auto split: if_splits prod.splits intro: evicted_trans)
  show "r = None \<Longrightarrow> evict_measure t < evict_measure s \<and> memEstimate t = 0"
    using run est steps by (auto split: if_splits prod.splits)
  show "r = Some a \<Longrightarrow> \<forall>k. column t k = column s k"
    using run est steps by (auto split: if_splits prod.splits)
  show "r = Some (Inr ()) \<Longrightarrow> memEstimate s = 0 \<Longrightarrow> evictPolicy s \<in> evict_policies \<Longrightarrow> estimate_total t \<le> maxMemory s"
    using run est steps assms(2) by (auto simp: evict_policies_def split: if_splits prod.splits)
  show "r = Some (Inl e) \<Longrightarrow> e = oom \<and> (evictPolicy s \<in> {''noeviction'', ''''} \<or> volatile s \<and> expires t = fmempty)"
    using run est steps by (auto split: if_splits prod.splits)
qed

text \<open>After a round that evicts the estimate is recomputed, so the loop ends below the limit or with nothing changed.\<close>

lemma evict_loop_result:
  assumes "\<And>n. enumerates (order n)" "0 < maxMemory s" "evictPolicy s \<in> evict_policies"
  shows "\<exists>r t. evict_loop order n now s = Some (r, t) \<and> evicted (volatile s) s t \<and>
    (r = Inr () \<longrightarrow> memEstimate s = 0 \<or> \<not> (\<forall>k. column t k = column s k) \<longrightarrow> estimate_total t \<le> maxMemory s) \<and>
    (\<forall>e. r = Inl e \<longrightarrow> e = oom \<and> (evictPolicy s \<in> {''noeviction'', ''''} \<or> volatile s \<and> expires t = fmempty))"
  using assms(2,3)
proof (induction "evict_measure s" arbitrary: s n rule: less_induct)
  case less
  obtain a u where u: "evict_round (order n) now s = (a, u)" by force
  note round = evict_round_result [OF assms(1) less.prems(1) u]
  show ?case
  proof (cases a)
    case None
    have keep: "evictPolicy u = evictPolicy s" "maxMemory u = maxMemory s" using round(1) by (simp_all add: evicted_def)
    have "evict_measure u < evict_measure s" "memEstimate u = 0" using round(2) None by simp_all
    with less.hyps [of u "n + 1"] less.prems keep obtain r t where t: "evict_loop order (n + 1) now u = Some (r, t)"
      "evicted (volatile s) u t" "r = Inr () \<Longrightarrow> estimate_total t \<le> maxMemory s"
      "\<forall>e. r = Inl e \<longrightarrow> e = oom \<and> (evictPolicy s \<in> {''noeviction'', ''''} \<or> volatile s \<and> expires t = fmempty)"
      by auto
    moreover have "evict_loop order n now s = Some (r, t)" using t(1) by (simp add: evict_loop.simps [of order n] u None)
    ultimately show ?thesis using evicted_trans [OF round(1)] by blast
  next
    case (Some r)
    then have "evict_loop order n now s = Some (r, u)" by (simp add: evict_loop.simps [of order n] u)
    moreover have "\<forall>k. column u k = column s k" using round(3) [of r] Some by simp
    ultimately show ?thesis using round(1,4,5) less.prems(2) Some by blast
  qed
qed

text \<open>Eviction ends and does what its policy says.  Whatever the enumeration order of Go's maps, \<open>EvictIfNeeded\<close> with
  one of the documented policies returns.  It removes whole keys and nothing else, under \<open>volatile-random\<close> only keys
  that have a deadline, and every removal is seen by \<open>WATCH\<close>.  When it answers without an error after removing anything,
  the estimated memory is within the limit; an error is the out-of-memory error and arises only without eviction or
  when no key with a deadline is left.\<close>

theorem evict_ends:
  assumes "\<And>n. enumerates (order n)" "evictPolicy s \<in> evict_policies"
  shows "\<exists>r t. Store_EvictIfNeeded order now s = Some (r, t) \<and> tracked UNIV s t \<and>
    (\<forall>k. column t k = column s k \<or> column t k = no_column \<and> (volatile s \<longrightarrow> cExp (column s k) \<noteq> None)) \<and>
    (r = Inr () \<longrightarrow> (\<forall>k. column t k = column s k) \<or> estimate_total t \<le> maxMemory s) \<and>
    (\<forall>e. r = Inl e \<longrightarrow> e = oom \<and> (evictPolicy s \<in> {''noeviction'', ''''} \<or> volatile s \<and> expires t = fmempty))"
proof (cases "maxMemory s \<le> 0")
  case True
  then show ?thesis by (simp add: Store_EvictIfNeeded_def)
next
  case False
  then obtain r t where t: "evict_loop order 0 now s = Some (r, t)" "evicted (volatile s) s t"
    "r = Inr () \<longrightarrow> memEstimate s = 0 \<or> \<not> (\<forall>k. column t k = column s k) \<longrightarrow> estimate_total t \<le> maxMemory s"
    "\<forall>e. r = Inl e \<longrightarrow> e = oom \<and> (evictPolicy s \<in> {''noeviction'', ''''} \<or> volatile s \<and> expires t = fmempty)"
    using evict_loop_result [of order s 0 now] assms by auto
  have "Store_EvictIfNeeded order now s = Some (r, t)" using False t(1) by (simp add: Store_EvictIfNeeded_def)
  then show ?thesis using t(2-4) unfolding evicted_def by blast
qed

theorem evict_ends_witness:
  "\<exists>r t. Store_EvictIfNeeded (\<lambda>_ xs. rev xs) 5
       (Store_New\<lparr>maxMemory := 10, evictPolicy := ''allkeys-lru'', kv := fmupd ''a'' ''b'' fmempty\<rparr>) = Some (r, t) \<and>
     (r = Inr () \<longrightarrow> (\<forall>k. column t k = column
         (Store_New\<lparr>maxMemory := 10, evictPolicy := ''allkeys-lru'', kv := fmupd ''a'' ''b'' fmempty\<rparr>) k) \<or> estimate_total t \<le> 10)"
  using evict_ends [of "\<lambda>_ xs. rev xs"
      "Store_New\<lparr>maxMemory := 10, evictPolicy := ''allkeys-lru'', kv := fmupd ''a'' ''b'' fmempty\<rparr>" 5]
  by (auto simp: enumerates_def evict_policies_def)

section \<open>Tracking\<close>

lemma rateLimit_tracked: "tracked {key} s (snd (Store_RateLimit key m w now s))"
proof -
  have "tracked {key} s (s\<lparr>rateLimiters := x\<rparr>)" for x by (simp add: tracked_def getVersion_def)
  moreover have "tracked {key} s (touchKeyLocked [key] now (s\<lparr>rateLimiters := x\<rparr>))" for x by (rule tracked_touch) simp_all
  ultimately show ?thesis by (auto simp: Store_RateLimit_def Let_def split: list.split)
qed

end
