(* ===== verification/Vole_Moves.thy ===== *)
theory Vole_Moves
  imports Vole_Values Vole_Limits
begin

text \<open>
  Handlers of \<^verbatim>\<open>internal/server/server.go\<close> that copy, sort, combine and move values, and the commands on the key space as a whole.
\<close>

section \<open>Copies and replacements\<close>

fun getex_options :: "string list \<Rightarrow> duration \<times> bool \<Rightarrow> (duration \<times> bool) res" where
  "getex_options [] opts = Inr opts"
| "getex_options (x # xs) (ttl, persist) =
     (if ToUpper x = ''EX'' \<or> ToUpper x = ''PX'' then
        (case xs of
           [] \<Rightarrow> Inl (Err ''wrong number of arguments for GETEX'')
         | v # ys \<Rightarrow>
             (case ParseInt v of
                (_, Some e) \<Rightarrow> Inl (num_err e)
              | (n, None) \<Rightarrow> getex_options ys (if ToUpper x = ''EX'' then seconds n else millis n, persist)))
      else if ToUpper x = ''PERSIST'' then getex_options xs (ttl, True)
      else Inl (Err ''wrong number of arguments for GETEX''))"

definition getrange :: "env \<Rightarrow> string \<Rightarrow> string list \<Rightarrow> handler" where
  "getrange e cmd args =
     (if length args \<noteq> 4 then wrongArgs cmd
      else owning [args ! 1] (with_int (args ! 2) (\<lambda>a. with_int (args ! 3) (\<lambda>b.
        reading (Store_GetRange (args ! 1) a b (clock e)) (attempt (\<lambda>v. answer (Writer_Bulk v)))))))"

definition exec_copies :: "env \<Rightarrow> string \<Rightarrow> string list \<Rightarrow> handler option" where
  "exec_copies e cmd args =
     (if cmd = ''COPY'' then
        Some (if length args < 3 \<or> 5 < length args then wrongArgs cmd
          else owning [args ! 1, args ! 2]
            (on_store (Store_Copy (args ! 1) (args ! 2) (\<exists>a \<in> set (drop 3 args). EqualFold a ''REPLACE'') (clock e)) (\<lambda>ok.
              if \<not> ok then answer (Writer_Int 0) else logging e args (answer (Writer_Int 1)))))
      else if cmd = ''GETSET'' then
        Some (if length args \<noteq> 3 then wrongArgs cmd
          else owning [args ! 1] (on_store (Store_GetSet (args ! 1) (args ! 2) (clock e)) (attempt (\<lambda>old.
            logging e [''SETABS'', args ! 1, args ! 2, ''0''] (answer (bulk_or_null old))))))
      else if cmd = ''GETEX'' then
        Some (if length args < 2 then wrongArgs cmd
          else owning [args ! 1] (attempt (\<lambda>(ttl, persist).
              on_store (Store_GetEx (args ! 1) ttl persist (clock e)) (\<lambda>v.
                case v of
                  None \<Rightarrow> answer Writer_Null
                | Some x \<Rightarrow>
                    (if persist then logged e [''EXPIREATABS'', args ! 1, ''0'']
                     else if 0 < ttl then logged e [''EXPIREATABS'', args ! 1, FormatInt (UnixNano (clock e + ttl))]
                     else id) (answer (Writer_Bulk x))))
            (getex_options (drop 2 args) (0, False))))
      else None)"

definition exec_ranges :: "env \<Rightarrow> string \<Rightarrow> string list \<Rightarrow> handler option" where
  "exec_ranges e cmd args =
     (if cmd = ''SETRANGE'' then
        Some (if length args \<noteq> 4 then wrongArgs cmd
          else owning [args ! 1] (with_int (args ! 2) (\<lambda>off.
            on_store (Store_SetRange (args ! 1) off (args ! 3) (clock e)) (attempt (\<lambda>n.
              log_value e (args ! 1) True (answer (Writer_Int (int n))))))))
      else if cmd = ''GETRANGE'' \<or> cmd = ''SUBSTR'' then Some (getrange e cmd args)
      else if cmd = ''MSETNX'' then
        Some (if length args < 3 \<or> even (length args) then wrongArgs cmd
          else let ps = pairs_of (drop 1 args) in
            owning (map fst ps) (on_store (Store_MSetNX (map fst ps) (map snd ps) (clock e)) (attempt (\<lambda>ok.
              if \<not> ok then answer (Writer_Int 0)
              else logging e (''MSETABS'' # concat (map (\<lambda>(k, v). [k, v, ''0'']) ps)) (answer (Writer_Int 1))))))
      else None)"

section \<open>Sorting\<close>

record sort_query =
  sAlpha :: bool
  sDesc :: bool
  sOffset :: int
  sCount :: int
  storeKey :: key

fun sort_options :: "(string \<Rightarrow> string) \<Rightarrow> string list \<Rightarrow> sort_query \<Rightarrow> sort_query res" where
  "sort_options qt [] q = Inr q"
| "sort_options qt (x # xs) q =
     (if ToUpper x = ''ALPHA'' then sort_options qt xs (q\<lparr>sAlpha := True\<rparr>)
      else if ToUpper x = ''ASC'' then sort_options qt xs (q\<lparr>sDesc := False\<rparr>)
      else if ToUpper x = ''DESC'' then sort_options qt xs (q\<lparr>sDesc := True\<rparr>)
      else if ToUpper x = ''LIMIT'' then
        (case xs of
           a # b # ys \<Rightarrow>
             (case Atoi a of
                (_, Some e) \<Rightarrow> Inl (num_err e)
              | (off, None) \<Rightarrow>
                  (case Atoi b of
                     (_, Some e) \<Rightarrow> Inl (num_err e)
                   | (cnt, None) \<Rightarrow> sort_options qt ys (q\<lparr>sOffset := off, sCount := cnt\<rparr>)))
         | _ \<Rightarrow> Inl (Err ''wrong number of arguments for SORT''))
      else if ToUpper x = ''STORE'' then
        (case xs of [] \<Rightarrow> Inl (Err ''wrong number of arguments for SORT'') | k # ys \<Rightarrow> sort_options qt ys (q\<lparr>storeKey := k\<rparr>))
      else Inl (Err (''unsupported SORT option '' @ qt x)))"

text \<open>The members of the set at the key in the order in which Go visits them.\<close>

definition run_sort :: "env \<Rightarrow> key \<Rightarrow> sort_query \<Rightarrow> store \<Rightarrow> string list res \<times> store" where
  "run_sort e key q = Store_Sort (visit e) (sliceStable e) key (sAlpha q) (sDesc q) (sOffset q) (sCount q) (storeKey q) (clock e)"

definition exec_sorting :: "env \<Rightarrow> string \<Rightarrow> string list \<Rightarrow> handler option" where
  "exec_sorting e cmd args =
     (if cmd = ''SORT'' then
        Some (if length args < 2 then wrongArgs cmd
          else owning [args ! 1] (attempt (\<lambda>q.
              (if storeKey q \<noteq> '''' then owning [storeKey q] else id)
                (on_store (run_sort e (args ! 1) q) (attempt (\<lambda>result.
                  if storeKey q \<noteq> ''''
                  then (if result \<noteq> []
                        then logged e [''DEL'', storeKey q] \<circ> logged e (''RPUSH'' # storeKey q # result)
                        else id) (answer (Writer_Int (int (length result))))
                  else answer (writeBulkStrings result)))))
            (sort_options (quote e) (drop 2 args) \<lparr>sAlpha = False, sDesc = False, sOffset = 0, sCount = 0, storeKey = ''''\<rparr>)))
      else if cmd = ''TOUCH'' then
        Some (if length args < 2 then wrongArgs cmd
          else owning (drop 1 args) (reading (Store_Exists (drop 1 args) (clock e)) (\<lambda>n. answer (Writer_Int (int n)))))
      else if cmd = ''UNLINK'' then
        Some (if length args < 2 then wrongArgs cmd
          else owning (drop 1 args) (logging e (''DEL'' # drop 1 args)
            (on_store (Store_Del (drop 1 args) (clock e)) (\<lambda>n. answer (Writer_Int (int n))))))
      else None)"

section \<open>Combining sets\<close>

text \<open>\<open>SINTERSTORE\<close>, \<open>SUNIONSTORE\<close> and \<open>SDIFFSTORE\<close>, which differ in the operation.\<close>

definition set_store :: "env \<Rightarrow> string \<Rightarrow> (key list \<Rightarrow> gotime \<Rightarrow> store \<Rightarrow> string list res) \<Rightarrow> string list \<Rightarrow> handler" where
  "set_store e cmd f args =
     (if length args < 3 then wrongArgs cmd
      else let dest = args ! 1 in
        owning (drop 1 args) (reading (f (drop 2 args) (clock e)) (attempt (\<lambda>ms.
          change (\<lambda>d. let d = snd (Store_Del [dest] (clock e) d) in if ms \<noteq> [] then snd (Store_SAdd dest ms (clock e) d) else d)
            (logged e [''DEL'', dest]
              ((if ms \<noteq> [] then logged e (''SADD'' # dest # ms) else id) (answer (Writer_Int (int (length ms))))))))))"

text \<open>The sums of lengths of \<open>SINTERCARD\<close> are taken in \<open>int64\<close>; a slice up to a negative bound panics.\<close>

definition sintercard :: "env \<Rightarrow> string list \<Rightarrow> handler" where
  "sintercard e args =
     (if length args < 3 then wrongArgs ''SINTERCARD''
      else with_int (args ! 1) (\<lambda>numkeys.
        let n = wrap64 (2 + numkeys) in
        if numkeys < 1 \<or> int (length args) < n then wrongArgs ''SINTERCARD''
        else if n < 2 then (\<lambda>s. (Inl (Panic ''slice bounds out of range''), s))
        else
          let ks = take (nat numkeys) (drop 2 args);
              lim = (if n < int (length args) \<and> ToUpper (args ! nat n) = ''LIMIT'' \<and> wrap64 (3 + numkeys) < int (length args)
                     then fst (Atoi (args ! nat (n + 1))) else 0)
          in owning ks (reading (Store_SInter ks (clock e)) (attempt (\<lambda>ms.
               answer (Writer_Int (if 0 < lim \<and> lim < int (length ms) then lim else int (length ms))))))))"

definition exec_setops :: "env \<Rightarrow> string \<Rightarrow> string list \<Rightarrow> handler option" where
  "exec_setops e cmd args =
     (if cmd = ''SINTERCARD'' then Some (sintercard e args)
      else if cmd = ''SINTERSTORE'' then Some (set_store e cmd Store_SInter args)
      else if cmd = ''SUNIONSTORE'' then Some (set_store e cmd Store_SUnion args)
      else if cmd = ''SDIFFSTORE'' then Some (set_store e cmd Store_SDiff args)
      else None)"

section \<open>Fields and moves\<close>

definition hash_order :: "env \<Rightarrow> key \<Rightarrow> store \<Rightarrow> string list" where
  "hash_order e key d = visit e (case fmlookup (hashes d) key of Some h \<Rightarrow> sorted_keys h | None \<Rightarrow> [])"

definition exec_fields :: "env \<Rightarrow> string \<Rightarrow> string list \<Rightarrow> handler option" where
  "exec_fields e cmd args =
     (if cmd = ''EXPIRETIME'' then
        Some (if length args \<noteq> 2 then wrongArgs cmd
          else owning [args ! 1] (reading (Store_ExpireTime (args ! 1) (clock e)) (\<lambda>n. answer (Writer_Int n))))
      else if cmd = ''PEXPIRETIME'' then
        Some (if length args \<noteq> 2 then wrongArgs cmd
          else owning [args ! 1] (reading (Store_PExpireTime (args ! 1) (clock e)) (\<lambda>n. answer (Writer_Int n))))
      else if cmd = ''HVALS'' then
        Some (if length args \<noteq> 2 then wrongArgs cmd
          else owning [args ! 1] (reading (Store_HVals (args ! 1) (clock e)) (attempt (\<lambda>vs. answer (writeBulkStrings vs)))))
      else if cmd = ''HKEYS'' then
        Some (if length args \<noteq> 2 then wrongArgs cmd
          else owning [args ! 1] (reading (Store_HKeys (args ! 1) (clock e)) (attempt (\<lambda>ks. answer (writeBulkStrings ks)))))
      else if cmd = ''HRANDFIELD'' then
        Some (if length args < 2 \<or> 3 < length args then wrongArgs cmd
          else owning [args ! 1] (with_count args (\<lambda>cnt.
            reading (\<lambda>d. Store_HRandField (rnd e) (hash_order e (args ! 1) d) (args ! 1) cnt (clock e) d) (attempt (\<lambda>fs.
              answer (members_reply (length args = 3) fs))))))
      else if cmd = ''RPOPLPUSH'' then
        Some (if length args \<noteq> 3 then wrongArgs cmd
          else owning [args ! 1, args ! 2] (on_store (Store_LMove (args ! 1) (args ! 2) False True (clock e)) (attempt (\<lambda>v.
            case v of
              None \<Rightarrow> answer Writer_Null
            | Some x \<Rightarrow> logged e [''RPOP'', args ! 1] (logged e [''LPUSH'', args ! 2, x] (answer (Writer_Bulk x)))))))
      else if cmd = ''LMOVE'' then
        Some (if length args \<noteq> 5 then wrongArgs cmd
          else owning [args ! 1, args ! 2]
            (let srcLeft = EqualFold (args ! 3) ''LEFT''; dstLeft = EqualFold (args ! 4) ''LEFT'' in
             if \<not> srcLeft \<and> \<not> EqualFold (args ! 3) ''RIGHT'' then wrongArgs cmd
             else if \<not> dstLeft \<and> \<not> EqualFold (args ! 4) ''RIGHT'' then wrongArgs cmd
             else on_store (Store_LMove (args ! 1) (args ! 2) srcLeft dstLeft (clock e)) (attempt (\<lambda>v.
               case v of
                 None \<Rightarrow> answer Writer_Null
               | Some x \<Rightarrow>
                   logged e [if srcLeft then ''LPOP'' else ''RPOP'', args ! 1]
                     (logged e [if dstLeft then ''LPUSH'' else ''RPUSH'', args ! 2, x] (answer (Writer_Bulk x)))))))
      else None)"

section \<open>The key space\<close>

definition object_encoding :: "string \<Rightarrow> string option" where
  "object_encoding typ =
     map_of [(''string'', ''embstr''), (''hash'', ''hashtable''), (''list'', ''listpack''), (''set'', ''hashtable''), (''zset'', ''skiplist''),
             (''stream'', ''stream''), (''json'', ''json'')] typ"

definition exec_object :: "env \<Rightarrow> string list \<Rightarrow> handler" where
  "exec_object e args =
     (if length args < 2 then wrongArgs ''OBJECT''
      else let sub = ToUpper (args ! 1) in
        if sub = ''ENCODING'' then
          if length args \<noteq> 3 then wrongArgs ''OBJECT''
          else reading (Store_Type (args ! 2) (clock e)) (\<lambda>t. answer (bulk_or_null (object_encoding t)))
        else if sub \<in> {''REFCOUNT'', ''IDLETIME'', ''FREQ''} then
          if length args \<noteq> 3 then wrongArgs ''OBJECT''
          else reading (Store_Type (args ! 2) (clock e)) (\<lambda>t.
            answer (if t = ''none'' then Writer_Null else Writer_Int (if sub = ''REFCOUNT'' then 1 else 0)))
        else if sub = ''HELP'' then
          answer (writeBulkStrings
            [''OBJECT ENCODING <key> - Return the encoding of a key.'', ''OBJECT REFCOUNT <key> - Return the reference count of a key.'',
             ''OBJECT IDLETIME <key> - Return the idle time of a key.'', ''OBJECT FREQ <key> - Return the access frequency of a key.'',
             ''OBJECT HELP - Return this help text.''])
        else fail (''unsupported OBJECT subcommand '' @ quote e (args ! 1)))"

fun config_set :: "(string \<times> string) list \<Rightarrow> handler" where
  "config_set [] = answer OK"
| "config_set ((p, v) # ps) =
     (if ToLower p = ''maxmemory'' then
        (case ParseInt v of
           (n, None) \<Rightarrow> change (Store_SetMaxMemory n) (config_set ps)
         | (_, Some _) \<Rightarrow> fail (''invalid maxmemory value: '' @ v))
      else if ToLower p = ''maxmemory-policy'' then
        if v \<in> {''noeviction'', ''allkeys-random'', ''volatile-random'', ''allkeys-lru''}
        then change (Store_SetEvictPolicy v) (config_set ps)
        else fail (''unsupported maxmemory-policy: '' @ v)
      else config_set ps)"

definition exec_config :: "env \<Rightarrow> string list \<Rightarrow> handler" where
  "exec_config e args =
     (if length args < 2 then wrongArgs ''CONFIG''
      else if ToUpper (args ! 1) = ''GET'' then
        if length args \<noteq> 3 then wrongArgs ''CONFIG''
        else let p = ToLower (args ! 2) in
          reading (\<lambda>d. (if p = ''maxmemory'' \<or> p = ''*'' then [''maxmemory'', FormatInt (Store_GetMaxMemory d)] else []) @
                       (if p = ''maxmemory-policy'' \<or> p = ''*'' then [''maxmemory-policy'', Store_GetEvictPolicy d] else []))
            (\<lambda>ps. answer (writeBulkStrings ps))
      else if ToUpper (args ! 1) = ''SET'' then
        if length args < 4 \<or> odd (length args) then wrongArgs ''CONFIG'' else config_set (pairs_of (drop 2 args))
      else fail (''unsupported CONFIG subcommand '' @ quote e (args ! 1)))"

text \<open>\<open>FLUSHDB\<close> empties the store and the log; the outcome of the system calls is that of the empty record.\<close>

definition reset_log :: "env \<Rightarrow> handler \<Rightarrow> handler" where
  "reset_log e h s =
     (case aof s of
        None \<Rightarrow> h s
      | Some a \<Rightarrow>
          (case AOF_Reset (disk e []) (clock e) a of
             (Some err, a) \<Rightarrow> (Inl err, s\<lparr>aof := Some a\<rparr>)
           | (None, a) \<Rightarrow> h (s\<lparr>aof := Some a\<rparr>)))"

definition exec_keyspace :: "env \<Rightarrow> string \<Rightarrow> string list \<Rightarrow> handler option" where
  "exec_keyspace e cmd args =
     (if cmd = ''PERSIST'' then
        Some (if length args \<noteq> 2 then wrongArgs cmd
          else owning [args ! 1] (on_store (Store_Persist (args ! 1) (clock e)) (\<lambda>ok.
            if \<not> ok then answer (Writer_Int 0) else logging e [''EXPIREATABS'', args ! 1, ''0''] (answer (Writer_Int 1)))))
      else if cmd = ''PEXPIREAT'' then
        Some (if length args \<noteq> 3 then wrongArgs cmd
          else owning [args ! 1] (with_int (args ! 2) (\<lambda>ms.
            let expireAt = millis ms in
            logging e [''EXPIREATABS'', args ! 1, FormatInt (UnixNano expireAt)]
              (on_store (Store_ExpireAt (args ! 1) expireAt (clock e)) (\<lambda>ok. answer (int_bool ok))))))
      else if cmd = ''DBSIZE'' then
        Some (if length args \<noteq> 1 then wrongArgs cmd else reading (Store_DBSize (clock e)) (\<lambda>n. answer (Writer_Int (int n))))
      else if cmd = ''RENAME'' then
        Some (if length args \<noteq> 3 then wrongArgs cmd
          else owning [args ! 1, args ! 2] (logging e args
            (on_store (Store_Rename (args ! 1) (args ! 2) (clock e)) (attempt (\<lambda>_. answer OK)))))
      else if cmd = ''FLUSHDB'' \<or> cmd = ''FLUSHALL'' then Some (change Store_FlushDB (reset_log e (answer OK)))
      else if cmd = ''RANDOMKEY'' then
        Some (if length args \<noteq> 1 then wrongArgs cmd
          else reading (Store_RandomKey (visit e) (clock e)) (\<lambda>k. answer (bulk_or_null k)))
      else if cmd = ''OBJECT'' then Some (exec_object e args)
      else if cmd = ''CONFIG'' then Some (exec_config e args)
      else if cmd = ''WAIT'' then Some (if length args \<noteq> 3 then wrongArgs cmd else answer (Writer_Int 0))
      else None)"

end
