(* ===== verification/Vole_Extras.thy ===== *)
theory Vole_Extras
  imports Vole_Moves
begin

text \<open>
  Handlers of \<^verbatim>\<open>internal/server/server.go\<close> for streams, sketches, rate limits, delayed keys, queues, JSON documents, tags and time
  series.  Commands that wait (\<open>XREAD BLOCK\<close>, \<open>XREADGROUP BLOCK\<close>, \<open>DEQUEUE TIMEOUT\<close>) are not in these groups: their critical
  sections are operations of the store.  The messages of document errors omit the Go type and the index.
\<close>

section \<open>Streams\<close>

definition writeEntries :: "StreamEntry list \<Rightarrow> string" where
  "writeEntries xs =
     Writer_ArrayLen (int (length xs)) @
     concat (map (\<lambda>x. Writer_ArrayLen 2 @ Writer_Bulk (EntryID x) @ Writer_ArrayLen (int (length (StreamEntry.Fields x))) @
                     concat (map Writer_Bulk (StreamEntry.Fields x))) xs)"

definition writeStreamReadResults :: "StreamEntry list gomap \<Rightarrow> string" where
  "writeStreamReadResults results =
     (let names = sorted_keys results in
      Writer_ArrayLen (int (length names)) @
      concat (map (\<lambda>n. Writer_ArrayLen 2 @ Writer_Bulk n @ writeEntries (the (fmlookup results n))) names))"

definition Server_xadd :: "env \<Rightarrow> string list \<Rightarrow> handler" where
  "Server_xadd e args =
     (if length args < 5 then wrongArgs ''XADD''
      else owning [args ! 1] (on_store (Store_NextStreamID (args ! 1) (args ! 2) (clock e)) (attempt (\<lambda>i.
        logging e (''XADD'' # args ! 1 # i # drop 3 args)
          (on_store (Store_XAddPrepared (args ! 1) i (drop 3 args) (clock e)) (attempt (\<lambda>_. answer (Writer_Bulk i))))))))"

definition Server_xrange :: "env \<Rightarrow> string list \<Rightarrow> handler" where
  "Server_xrange e args =
     (if length args \<noteq> 4 \<and> length args \<noteq> 6 then wrongArgs ''XRANGE''
      else owning [args ! 1]
        (let k = (\<lambda>cnt. reading (Store_XRange (args ! 1) (args ! 2) (args ! 3) cnt (clock e)) (\<lambda>es. answer (writeEntries es))) in
         if length args = 6
         then if ToUpper (args ! 4) \<noteq> ''COUNT'' then wrongArgs ''XRANGE'' else with_int (args ! 5) k
         else k 0))"

text \<open>\<open>XREAD STREAMS\<close> without \<open>BLOCK\<close>.\<close>

definition Server_xread :: "env \<Rightarrow> string list \<Rightarrow> handler" where
  "Server_xread e args =
     (if length args \<le> 1 \<or> ToUpper (args ! 1) \<noteq> ''STREAMS'' then wrongArgs ''XREAD''
      else let parts = drop 2 args; half = length parts div 2 in
        if parts = [] \<or> odd (length parts) then wrongArgs ''XREAD''
        else let streams = take half parts; ids = drop half parts in
          owning streams (reading
            (\<lambda>d. Store_XRead (map (\<lambda>(n, i). (n, if i = ''$'' then Store_LastID n (clock e) d else i)) (zip streams ids)) (clock e) d)
            (\<lambda>rs. answer (if map_len rs = 0 then Writer_NullArray else writeStreamReadResults rs))))"

definition Server_xgroup :: "env \<Rightarrow> string list \<Rightarrow> handler" where
  "Server_xgroup e args =
     (if length args \<noteq> 5 \<and> length args \<noteq> 6 then wrongArgs ''XGROUP''
      else if \<not> EqualFold (args ! 1) ''CREATE'' then fail (''unsupported XGROUP subcommand '' @ quote e (args ! 1))
      else if length args = 6 \<and> \<not> EqualFold (args ! 5) ''MKSTREAM'' then wrongArgs ''XGROUP''
      else let mkstream = (length args = 6) in
        owning [args ! 2] (reading (Store_Type (args ! 2) (clock e)) (\<lambda>t.
          if t \<noteq> ''none'' \<and> t \<noteq> ''stream'' then fail ''wrong type''
          else if t = ''none'' \<and> \<not> mkstream then fail ''stream does not exist''
          else reading (Store_XGroupExists (args ! 2) (args ! 3) (clock e)) (\<lambda>ex.
            if ex then fail ''consumer group already exists''
            else logging e args
              (on_store (Store_XGroupCreate (args ! 2) (args ! 3) (args ! 4) mkstream (clock e)) (attempt (\<lambda>_. answer OK)))))))"

text \<open>The options of \<open>XREADGROUP\<close> before \<open>STREAMS\<close>: the count and the rest; \<open>BLOCK\<close> is not handled here.\<close>

fun readgroup_options :: "(string \<Rightarrow> string) \<Rightarrow> string list \<Rightarrow> int \<Rightarrow> (int \<times> string list) res" where
  "readgroup_options qt [] cnt = Inl (Err ''wrong number of arguments for XREADGROUP'')"
| "readgroup_options qt (x # xs) cnt =
     (if EqualFold x ''STREAMS'' then Inr (cnt, xs)
      else case xs of
        [] \<Rightarrow> Inl (Err ''wrong number of arguments for XREADGROUP'')
      | v # ys \<Rightarrow>
          if ToUpper x = ''COUNT'' then
            (case Atoi v of (_, Some err) \<Rightarrow> Inl (num_err err) | (n, None) \<Rightarrow> readgroup_options qt ys n)
          else Inl (Err (''unsupported XREADGROUP option '' @ qt x)))"

fun deliver_all :: "env \<Rightarrow> string \<Rightarrow> string \<Rightarrow> StreamEntry list gomap \<Rightarrow> string list \<Rightarrow> handler \<Rightarrow> handler" where
  "deliver_all e g consumer rs [] h = h"
| "deliver_all e g consumer rs (n # ns) h =
     (let ids = map EntryID (the (fmlookup rs n)) in
      logging e ([''XGROUPDELIVER'', n, g, consumer, FormatInt (UnixNano (clock e))] @ ids)
        (on_store (Store_XGroupDeliver n g consumer ids (clock e) (clock e)) (attempt (\<lambda>_. deliver_all e g consumer rs ns h))))"

definition Server_xreadgroup :: "env \<Rightarrow> string list \<Rightarrow> handler" where
  "Server_xreadgroup e args =
     (if length args < 7 \<or> \<not> EqualFold (args ! 1) ''GROUP'' then wrongArgs ''XREADGROUP''
      else attempt (\<lambda>(cnt, parts).
        let half = length parts div 2 in
        if parts = [] \<or> odd (length parts) then wrongArgs ''XREADGROUP''
        else owning (take half parts) (reading
          (Store_XReadGroupPlan (args ! 2) (args ! 3) (zip (take half parts) (drop half parts)) cnt (clock e)) (attempt (\<lambda>rs.
            if map_len rs = 0 then answer Writer_NullArray
            else deliver_all e (args ! 2) (args ! 3) rs (sorted_keys rs) (answer (writeStreamReadResults rs))))))
        (readgroup_options (quote e) (drop 4 args) 10))"

definition Server_xack :: "env \<Rightarrow> string list \<Rightarrow> handler" where
  "Server_xack e args =
     (if length args < 4 then wrongArgs ''XACK''
      else owning [args ! 1] (reading (Store_XGroupExists (args ! 1) (args ! 2) (clock e)) (\<lambda>ex.
        if \<not> ex then fail ''consumer group does not exist''
        else logging e args
          (on_store (Store_XAck (args ! 1) (args ! 2) (drop 3 args) (clock e)) (attempt (\<lambda>n. answer (Writer_Int (int n))))))))"

definition waits :: "string \<Rightarrow> string list \<Rightarrow> bool" where
  "waits cmd args \<longleftrightarrow>
     (cmd = ''XREAD'' \<and> 1 < length args \<and> ToUpper (args ! 1) = ''BLOCK'') \<or>
     (cmd = ''XREADGROUP'' \<and> (\<exists>a \<in> set (drop 4 args). ToUpper a = ''BLOCK'')) \<or>
     (cmd = ''DEQUEUE'' \<and> 4 \<le> length args \<and> EqualFold (args ! 2) ''TIMEOUT'')"

definition exec_streams :: "env \<Rightarrow> string \<Rightarrow> string list \<Rightarrow> handler option" where
  "exec_streams e cmd args =
     (if waits cmd args then None
      else if cmd = ''XADD'' then Some (Server_xadd e args)
      else if cmd = ''XRANGE'' then Some (Server_xrange e args)
      else if cmd = ''XREAD'' then Some (Server_xread e args)
      else if cmd = ''XGROUP'' then Some (Server_xgroup e args)
      else if cmd = ''XREADGROUP'' then Some (Server_xreadgroup e args)
      else if cmd = ''XACK'' then Some (Server_xack e args)
      else if cmd = ''XLEN'' then
        Some (if length args \<noteq> 2 then wrongArgs cmd
          else owning [args ! 1] (reading (Store_XLen (args ! 1) (clock e)) (attempt (\<lambda>n. answer (Writer_Int (int n))))))
      else if cmd = ''PFADD'' then
        Some (if length args < 2 then wrongArgs cmd
          else owning [args ! 1] (on_store (Store_PFAdd (args ! 1) (drop 2 args) (clock e)) (attempt (\<lambda>changed.
            logging e args (answer (int_bool changed))))))
      else if cmd = ''PFMERGE'' then
        Some (if length args < 2 then wrongArgs cmd
          else owning (drop 1 args) (logging e args
            (on_store (Store_PFMerge (args ! 1) (drop 2 args) (clock e)) (attempt (\<lambda>_. answer OK)))))
      else None)"

section \<open>Limits, delays and queues\<close>

definition exec_limits :: "env \<Rightarrow> string \<Rightarrow> string list \<Rightarrow> handler option" where
  "exec_limits e cmd args =
     (if cmd = ''RATELIMIT'' then
        Some (if length args \<noteq> 4 then wrongArgs cmd
          else owning [args ! 1] (with_int (args ! 2) (\<lambda>mx. with_int (args ! 3) (\<lambda>w.
            on_store (Store_RateLimit (args ! 1) mx (seconds w) (clock e)) (attempt (\<lambda>(allowed, remaining, retry, reset).
              answer (Writer_ArrayLen 4 @ int_bool allowed @ Writer_Int remaining @ Writer_Int retry @ Writer_Int reset)))))))
      else if cmd = ''RATELIMIT.PEEK'' then
        Some (if length args \<noteq> 2 then wrongArgs cmd
          else owning [args ! 1] (reading (Store_RateLimitPeek (args ! 1) (clock e)) (\<lambda>(remaining, reset).
            answer (Writer_ArrayLen 2 @ Writer_Int remaining @ Writer_Int reset))))
      else if cmd = ''RATELIMIT.RESET'' then
        Some (if length args \<noteq> 2 then wrongArgs cmd
          else owning [args ! 1] (on_store (Store_RateLimitReset (args ! 1)) (\<lambda>ok. answer (int_bool ok))))
      else if cmd = ''SETDELAYED'' then
        Some (if length args < 4 then wrongArgs cmd
          else owning [args ! 1] (with_int (args ! 3) (\<lambda>d.
            let k = (\<lambda>ttl. logging e args (change (Store_SetDelayed (args ! 1) (args ! 2) (seconds d) ttl (clock e)) (answer OK))) in
            if 6 \<le> length args \<and> EqualFold (args ! 4) ''EX'' then with_int (args ! 5) (\<lambda>n. k (seconds n)) else k 0)))
      else None)"

definition processing_order :: "env \<Rightarrow> string list \<Rightarrow> string list" where
  "processing_order e = visit e"

definition exec_queues :: "env \<Rightarrow> string \<Rightarrow> string list \<Rightarrow> handler option" where
  "exec_queues e cmd args =
     (if waits cmd args then None
      else if cmd = ''ENQUEUE'' then
        Some (if length args < 3 then wrongArgs cmd
          else owning [args ! 1]
            (let k = (\<lambda>delay. on_store (Store_Enqueue (args ! 1) (args ! 2) delay (clock e)) (\<lambda>i.
                 logging e args (answer (Writer_Bulk i)))) in
             if 5 \<le> length args \<and> EqualFold (args ! 3) ''DELAY'' then with_int (args ! 4) (\<lambda>n. k (seconds n)) else k 0))
      else if cmd = ''DEQUEUE'' then
        Some (if length args < 2 then wrongArgs cmd
          else owning [args ! 1] (on_store (Dequeue_start (processing_order e) (args ! 1) 0 (clock e)) (\<lambda>r.
            case r of
              Inr (Some msg) \<Rightarrow>
                answer (Writer_ArrayLen 3 @ Writer_Bulk (MsgID msg) @ Writer_Bulk (Body msg) @ Writer_Int (Retries msg))
            | _ \<Rightarrow> answer Writer_NullArray)))
      else if cmd = ''QACK'' then
        Some (if length args \<noteq> 3 then wrongArgs cmd
          else owning [args ! 1] (logging e args
            (on_store (Store_QAck (args ! 1) (args ! 2) (clock e)) (\<lambda>ok. answer (int_bool ok)))))
      else if cmd = ''QNACK'' then
        Some (if length args \<noteq> 3 then wrongArgs cmd
          else owning [args ! 1] (logging e args
            (on_store (Store_QNack (args ! 1) (args ! 2) (clock e)) (\<lambda>ok. answer (int_bool ok)))))
      else if cmd = ''QLEN'' then
        Some (if length args \<noteq> 2 then wrongArgs cmd
          else owning [args ! 1] (reading (Store_QLen (args ! 1)) (\<lambda>n. answer (Writer_Int (int n)))))
      else if cmd = ''QINFO'' then
        Some (if length args \<noteq> 2 then wrongArgs cmd
          else owning [args ! 1] (reading (Store_QInfo (args ! 1)) (\<lambda>(pending, processing, dead).
            answer (Writer_ArrayLen 6 @ Writer_Bulk ''pending'' @ Writer_Int (int pending) @ Writer_Bulk ''processing'' @
              Writer_Int (int processing) @ Writer_Bulk ''dead_letter'' @ Writer_Int (int dead)))))
      else None)"

section \<open>Documents, tags and series\<close>

definition json_message :: "(string \<Rightarrow> string) \<Rightarrow> json_error \<Rightarrow> string" where
  "json_message qt err =
     (case err of
        KeyNotFound k \<Rightarrow> ''key '' @ qt k @ '' not found''
      | InvalidIndex i \<Rightarrow> ''invalid array index '' @ qt i
      | OutOfRange _ \<Rightarrow> ''index out of range''
      | CannotNavigate \<Rightarrow> ''cannot navigate into this type''
      | CannotSet \<Rightarrow> ''cannot set on this type''
      | CannotDelete \<Rightarrow> ''cannot delete from this type''
      | ParentKind \<Rightarrow> ''parent is not an object or array''
      | NotNumber \<Rightarrow> ''not a number''
      | NotArray \<Rightarrow> ''not an array''
      | NotObject \<Rightarrow> ''not an object'')"

definition attempt_doc :: "env \<Rightarrow> ('a \<Rightarrow> handler) \<Rightarrow> 'a doc_res \<Rightarrow> handler" where
  "attempt_doc e k r s =
     (case r of Inl (Inl err) \<Rightarrow> (Inl err, s) | Inl (Inr err) \<Rightarrow> (Inl (Err (json_message (quote e) err)), s) | Inr x \<Rightarrow> k x s)"

definition doc_path :: "string list \<Rightarrow> string" where
  "doc_path args = (if length args = 3 then args ! 2 else ''$'')"

definition exec_json :: "env \<Rightarrow> string \<Rightarrow> string list \<Rightarrow> handler option" where
  "exec_json e cmd args =
     (if cmd = ''JSON.SET'' then
        Some (if length args \<noteq> 4 then wrongArgs cmd
          else owning [args ! 1] (logging e args
            (on_store (Store_JSONSet (unmarshal e) (args ! 1) (args ! 2) (args ! 3) (clock e)) (attempt_doc e (\<lambda>_. answer OK)))))
      else if cmd = ''JSON.GET'' then
        Some (if length args < 2 \<or> 3 < length args then wrongArgs cmd
          else owning [args ! 1] (reading (Store_JSONGet (marshal e) (args ! 1) (doc_path args) (clock e))
            (attempt_doc e (\<lambda>v. answer (bulk_or_null v)))))
      else if cmd = ''JSON.DEL'' then
        Some (if length args < 2 \<or> 3 < length args then wrongArgs cmd
          else owning [args ! 1] (logging e args
            (on_store (Store_JSONDel (args ! 1) (doc_path args) (clock e)) (attempt_doc e (\<lambda>b. answer (int_bool b))))))
      else if cmd = ''JSON.TYPE'' then
        Some (if length args < 2 \<or> 3 < length args then wrongArgs cmd
          else owning [args ! 1] (reading (Store_JSONType (args ! 1) (doc_path args) (clock e)) (\<lambda>t. answer (Writer_Bulk t))))
      else if cmd = ''JSON.NUMINCRBY'' then
        Some (if length args \<noteq> 4 then wrongArgs cmd
          else owning [args ! 1] (with_float (args ! 3) (\<lambda>delta. logging e args
            (on_store (Store_JSONNumIncrBy (args ! 1) (args ! 2) delta (clock e)) (attempt_doc e (\<lambda>r.
              answer (Writer_Bulk (FormatFloat r))))))))
      else if cmd = ''JSON.ARRAPPEND'' then
        Some (if length args < 4 then wrongArgs cmd
          else owning [args ! 1] (logging e args
            (on_store (Store_JSONArrAppend (unmarshal e) (args ! 1) (args ! 2) (drop 3 args) (clock e)) (attempt_doc e (\<lambda>n.
              answer (Writer_Int (int n)))))))
      else if cmd = ''JSON.ARRLEN'' then
        Some (if length args < 2 \<or> 3 < length args then wrongArgs cmd
          else owning [args ! 1] (reading (Store_JSONArrLen (args ! 1) (doc_path args) (clock e)) (attempt_doc e (\<lambda>n.
            answer (Writer_Int (int n))))))
      else if cmd = ''JSON.KEYS'' then
        Some (if length args < 2 \<or> 3 < length args then wrongArgs cmd
          else owning [args ! 1] (reading (Store_JSONKeys (args ! 1) (doc_path args) (clock e)) (attempt_doc e (\<lambda>ks.
            answer (writeBulkStrings ks)))))
      else None)"

fun parse_tags :: "(string \<Rightarrow> string) \<Rightarrow> string list \<Rightarrow> string gomap \<Rightarrow> string gomap res" where
  "parse_tags qt [] m = Inr m"
| "parse_tags qt (x # xs) m =
     (case SplitN2 CHR ''='' x of
        None \<Rightarrow> Inl (Err (''invalid tag format: '' @ qt x @ '' (use key=value)''))
      | Some (k, v) \<Rightarrow> parse_tags qt xs (fmupd k v m))"

fun tag_criteria :: "string list \<Rightarrow> string gomap \<Rightarrow> int \<Rightarrow> string gomap \<times> int" where
  "tag_criteria [] m lim = (m, lim)"
| "tag_criteria (x # xs) m lim =
     (if EqualFold x ''AND'' then tag_criteria xs m lim
      else if EqualFold x ''LIMIT'' then (case xs of [] \<Rightarrow> (m, lim) | v # ys \<Rightarrow> tag_criteria ys m (fst (Atoi v)))
      else case SplitN2 CHR ''='' x of Some (k, v) \<Rightarrow> tag_criteria xs (fmupd k v m) lim | None \<Rightarrow> tag_criteria xs m lim)"

definition exec_tags :: "env \<Rightarrow> string \<Rightarrow> string list \<Rightarrow> handler option" where
  "exec_tags e cmd args =
     (if cmd = ''TAG'' then
        Some (if length args < 3 then wrongArgs cmd
          else owning [args ! 1] (attempt (\<lambda>tags.
              logging e args (on_store (Store_TagSet (args ! 1) tags (clock e)) (attempt (\<lambda>_. answer OK))))
            (parse_tags (quote e) (drop 2 args) fmempty)))
      else if cmd = ''TAGGET'' then
        Some (if length args \<noteq> 2 then wrongArgs cmd
          else owning [args ! 1] (reading (Store_TagGet (args ! 1) (clock e)) (\<lambda>tags.
            answer (case tags of None \<Rightarrow> Writer_NullArray
              | Some m \<Rightarrow> writeBulkStrings (concat (map (\<lambda>k. [k, the (fmlookup m k)]) (sorted_keys m)))))))
      else if cmd = ''TAGDEL'' then
        Some (if length args < 3 then wrongArgs cmd
          else owning [args ! 1] (logging e args
            (on_store (Store_TagDel (args ! 1) (drop 2 args)) (\<lambda>n. answer (Writer_Int (int n))))))
      else if cmd = ''TAGQUERY'' then
        Some (if length args < 2 then wrongArgs cmd
          else case tag_criteria (drop 1 args) fmempty 100 of (criteria, lim) \<Rightarrow>
            reading (Store_TagQuery (visit e) criteria lim (clock e)) (\<lambda>ks. answer (writeBulkStrings ks)))
      else None)"

definition sample_reply :: "TSSample \<Rightarrow> string" where
  "sample_reply x = Writer_ArrayLen 2 @ Writer_Int (Timestamp x) @ Writer_Bulk (FormatFloat (Value x))"

definition exec_series :: "env \<Rightarrow> string \<Rightarrow> string list \<Rightarrow> handler option" where
  "exec_series e cmd args =
     (if cmd = ''TS.ADD'' then
        Some (if length args < 4 then wrongArgs cmd
          else owning [args ! 1]
            (let k = (\<lambda>ts. with_float (args ! 3) (\<lambda>v.
                 let labels = labels_of (drop (if 4 < length args \<and> EqualFold (args ! 4) ''LABELS'' then 5 else 4) args) in
                 logging e args (on_store (Store_TSAdd (args ! 1) ts v labels (clock e)) (attempt (\<lambda>_. answer OK))))) in
             if args ! 2 = ''*'' then k 0 else with_int (args ! 2) k))
      else if cmd = ''TS.RANGE'' then
        Some (if length args < 4 then wrongArgs cmd
          else owning [args ! 1]
            (let from = (if args ! 2 = ''-'' then 0 else fst (ParseInt (args ! 2)));
                 to = (if args ! 3 = ''+'' then 2 ^ 62 else fst (ParseInt (args ! 3)));
                 cnt = (if 6 \<le> length args \<and> EqualFold (args ! 4) ''COUNT'' then fst (Atoi (args ! 5)) else 0)
             in reading (Store_TSRange (args ! 1) from to cnt (clock e)) (\<lambda>xs.
               answer (Writer_ArrayLen (int (length xs)) @ concat (map sample_reply xs)))))
      else if cmd = ''TS.GET'' then
        Some (if length args \<noteq> 2 then wrongArgs cmd
          else owning [args ! 1] (reading (Store_TSGet (args ! 1) (clock e)) (\<lambda>x.
            answer (case x of None \<Rightarrow> Writer_NullArray | Some x \<Rightarrow> sample_reply x))))
      else if cmd = ''TS.INFO'' then
        Some (if length args \<noteq> 2 then wrongArgs cmd
          else owning [args ! 1] (reading (Store_TSInfo (args ! 1) (clock e)) (attempt (\<lambda>(n, labels, a, b).
            answer (Writer_ArrayLen 10 @ Writer_Bulk ''total_samples'' @ Writer_Int (int n) @ Writer_Bulk ''first_timestamp'' @ Writer_Int a @
              Writer_Bulk ''last_timestamp'' @ Writer_Int b @ Writer_Bulk ''labels'' @
              writeBulkStrings (concat (map (\<lambda>k. [k, the (fmlookup labels k)]) (visit e (sorted_keys labels)))) @
              Writer_Bulk ''retention'' @ Writer_Int 0)))))
      else None)"

end
