(* ===== verification/Vole_Namespace.thy ===== *)
theory Vole_Namespace
  imports Vole_Search
begin

text \<open>
  Namespaces: \<^verbatim>\<open>internal/server/namespace.go\<close>.  A connection in the namespace \<open>n\<close> works on the keys of the one store that begin
  with \<open>n:\<close>; \<open>prefixKeyArgs\<close> puts the prefix before the arguments that are keys.  The manager's own stores are created with each
  namespace and never used by a command.
\<close>

section \<open>The table of namespaces\<close>

record Namespace =
  NsName :: string
  NsStore :: store
  NsCreated :: gotime

type_synonym NamespaceManager = "Namespace gomap"

definition NewNamespaceManager :: "store \<Rightarrow> gotime \<Rightarrow> NamespaceManager" where
  "NewNamespaceManager s now = fmupd ''default'' \<lparr>NsName = ''default'', NsStore = s, NsCreated = now\<rparr> fmempty"

definition NamespaceManager_Create :: "string \<Rightarrow> gotime \<Rightarrow> NamespaceManager \<Rightarrow> go_error option \<times> NamespaceManager" where
  "NamespaceManager_Create name now nm =
     (if name = '''' then (Some (Err ''namespace name cannot be empty''), nm)
      else if Contains name '':'' then (Some (Err (''namespace name cannot contain '' @ [CHR 0x27, CHR '':'', CHR 0x27])), nm)
      else if has nm name then (Some (Err ''namespace already exists''), nm)
      else (None, fmupd name \<lparr>NsName = name, NsStore = Store_New, NsCreated = now\<rparr> nm))"

definition NamespaceManager_Drop :: "string \<Rightarrow> NamespaceManager \<Rightarrow> go_error option \<times> NamespaceManager" where
  "NamespaceManager_Drop name nm =
     (if name = ''default'' then (Some (Err ''cannot drop default namespace''), nm)
      else if \<not> has nm name then (Some (Err ''namespace does not exist''), nm)
      else (None, fmdrop name nm))"

definition NamespaceManager_List :: "NamespaceManager \<Rightarrow> string list" where
  "NamespaceManager_List nm = sorted_keys nm"

section \<open>Key arguments\<close>

definition first_key_commands :: "string list" where
  "first_key_commands =
     [''GET'', ''SET'', ''SETNX'', ''SETEX'', ''PSETEX'', ''TYPE'', ''TTL'', ''PTTL'',
      ''EXPIRE'', ''PEXPIRE'', ''EXPIREAT'', ''PEXPIREAT'',
      ''PERSIST'', ''INCR'', ''INCRBY'', ''DECR'', ''DECRBY'', ''INCRBYFLOAT'',
      ''STRLEN'', ''APPEND'', ''GETDEL'', ''GETSET'', ''GETEX'', ''GETRANGE'', ''SETRANGE'',
      ''RATELIMIT'', ''RATELIMIT.PEEK'', ''RATELIMIT.RESET'', ''SETDELAYED'',
      ''HSET'', ''HGET'', ''HGETALL'', ''HDEL'', ''HLEN'', ''HEXISTS'', ''HKEYS'', ''HVALS'',
      ''HINCRBY'', ''HINCRBYFLOAT'', ''HSETNX'', ''HMSET'', ''HMGET'',
      ''LPUSH'', ''RPUSH'', ''LPUSHX'', ''RPUSHX'', ''LPOP'', ''RPOP'',
      ''LRANGE'', ''LLEN'', ''LINDEX'', ''LSET'', ''LINSERT'', ''LPOS'',
      ''SADD'', ''SREM'', ''SMEMBERS'', ''SISMEMBER'', ''SCARD'', ''SRANDMEMBER'', ''SPOP'',
      ''ZADD'', ''ZRANGE'', ''ZRANGEBYSCORE'', ''ZREVRANGEBYSCORE'', ''ZREVRANGE'',
      ''ZREM'', ''ZSCORE'', ''ZCARD'', ''ZRANK'', ''ZREVRANK'', ''ZCOUNT'',
      ''ZINCRBY'', ''ZLEXCOUNT'', ''ZRANGEBYLEX'',
      ''XADD'', ''XRANGE'', ''XREVRANGE'', ''XLEN'', ''XREAD'',
      ''SETBIT'', ''GETBIT'', ''BITCOUNT'', ''BITPOS'',
      ''PFADD'', ''PFCOUNT'',
      ''GEOADD'', ''GEOPOS'', ''GEODIST'', ''GEOSEARCH'',
      ''OBJECT'', ''EXPIRETIME'', ''PEXPIRETIME'', ''TOUCH'', ''UNLINK'',
      ''SORT'', ''DUMP'', ''RESTORE'', ''DEBUG'']"

definition all_key_commands :: "string list" where
  "all_key_commands =
     [''DEL'', ''EXISTS'', ''MGET'', ''SINTER'', ''SUNION'', ''SDIFF'', ''SINTERSTORE'', ''SUNIONSTORE'', ''SDIFFSTORE'', ''PFMERGE'']"

definition two_key_commands :: "string list" where
  "two_key_commands = [''RENAME'', ''RENAMENX'', ''COPY'', ''RPOPLPUSH'', ''LMOVE'', ''SMOVE'']"

text \<open>The positions of the arguments that are given the prefix.\<close>

definition key_position :: "string \<Rightarrow> nat \<Rightarrow> nat \<Rightarrow> bool" where
  "key_position cmd n i \<longleftrightarrow>
     (if cmd \<in> set first_key_commands \<or> cmd = ''KEYS'' then i = 1
      else if cmd \<in> set all_key_commands then 1 \<le> i
      else if cmd = ''MSET'' \<or> cmd = ''MSETNX'' then odd i
      else if cmd \<in> set two_key_commands then i = 1 \<or> i = 2
      else if cmd = ''BLPOP'' \<or> cmd = ''BRPOP'' then 1 \<le> i \<and> i + 1 < n
      else if cmd = ''BITOP'' then 2 \<le> i
      else False)"

definition prefixKeyArgs :: "string list \<Rightarrow> string \<Rightarrow> string list" where
  "prefixKeyArgs args prefix =
     (if prefix = '''' then args
      else let cmd = ToUpper (args ! 0) in
        map (\<lambda>i. if key_position cmd (length args) i then prefix @ args ! i else args ! i) [0..<length args])"

definition stripKeyPrefix :: "string \<Rightarrow> string \<Rightarrow> string" where
  "stripKeyPrefix key prefix = (if prefix = '''' then key else TrimPrefix key prefix)"

definition ns_prefix :: "string \<Rightarrow> string" where
  "ns_prefix name = (if name = ''default'' then '''' else name @ '':'')"

section \<open>Isolation\<close>

lemma length_prefixKeyArgs [simp]: "length (prefixKeyArgs args prefix) = length args"
  by (simp add: prefixKeyArgs_def Let_def)

lemma prefixKeyArgs_nth:
  "i < length args \<Longrightarrow> prefix \<noteq> [] \<Longrightarrow>
   prefixKeyArgs args prefix ! i = (if key_position (ToUpper (args ! 0)) (length args) i then prefix @ args ! i else args ! i)"
  by (simp add: prefixKeyArgs_def Let_def)

lemma colon_unique: "a @ CHR '':'' # x = b @ CHR '':'' # y \<Longrightarrow> CHR '':'' \<notin> set a \<Longrightarrow> CHR '':'' \<notin> set b \<Longrightarrow> a = b"
proof (induction a arbitrary: b)
  case Nil
  then show ?case by (cases b) auto
next
  case (Cons c a)
  then show ?case by (cases b) auto
qed

lemma Contains_colon: "Contains name [c] \<longleftrightarrow> c \<in> set name"
  by (induction name) (auto simp: HasPrefix_def)

lemma created_no_colon: "fst (NamespaceManager_Create name now nm) = None \<Longrightarrow> CHR '':'' \<notin> set name \<and> name \<noteq> []"
  by (auto simp: NamespaceManager_Create_def Contains_colon split: if_splits)

text \<open>Two connections in different namespaces that were created never name the same key with a key argument of a command that
  \<open>prefixKeyArgs\<close> knows, whatever the two commands and keys are.\<close>

theorem namespaces_disjoint:
  assumes "fst (NamespaceManager_Create a t nm) = None" "fst (NamespaceManager_Create b u nm') = None" "a \<noteq> b" "a \<noteq> ''default''" "b \<noteq> ''default''"
    and "i < length args" "key_position (ToUpper (args ! 0)) (length args) i"
    and "j < length args'" "key_position (ToUpper (args' ! 0)) (length args') j"
  shows "prefixKeyArgs args (ns_prefix a) ! i \<noteq> prefixKeyArgs args' (ns_prefix b) ! j"
  using colon_unique [of a "args ! i" b "args' ! j"] created_no_colon [OF assms(1)] created_no_colon [OF assms(2)] assms(3-)
  by (auto simp: prefixKeyArgs_nth ns_prefix_def)

theorem namespaces_disjoint_witness:
  "prefixKeyArgs [''get'', ''k''] (ns_prefix ''a'') ! 1 \<noteq> prefixKeyArgs [''SMOVE'', ''s'', ''k'', ''m''] (ns_prefix ''b'') ! 2"
proof (rule namespaces_disjoint)
  show "fst (NamespaceManager_Create ''a'' 0 fmempty) = None" "fst (NamespaceManager_Create ''b'' 0 fmempty) = None"
    by (simp_all add: NamespaceManager_Create_def HasPrefix_def)
  show "key_position (ToUpper ([''get'', ''k''] ! 0)) (length [''get'', ''k'']) 1" by code_simp
  show "key_position (ToUpper ([''SMOVE'', ''s'', ''k'', ''m''] ! 0)) (length [''SMOVE'', ''s'', ''k'', ''m'']) 2" by code_simp
qed simp_all

definition listed_commands :: "string list" where
  "listed_commands =
     first_key_commands @ all_key_commands @ two_key_commands @ [''KEYS'', ''MSET'', ''MSETNX'', ''BLPOP'', ''BRPOP'', ''BITOP'']"

definition unlisted_commands :: "string list" where
  "unlisted_commands =
     [''LREM'', ''ENQUEUE'', ''DEQUEUE'', ''QACK'', ''QNACK'', ''JSON.SET'', ''JSON.GET'', ''JSON.DEL'', ''TAG'',
      ''TAGDEL'', ''TS.ADD'', ''TS.RANGE'', ''WATCH'', ''XACK'', ''XGROUP'', ''XREADGROUP'', ''ZPOPMIN'', ''ZPOPMAX'', ''HSEARCH'', ''XTRIM'',
      ''XCLAIM'', ''SINTERCARD'', ''HRANDFIELD'', ''FLUSHDB'']"

text \<open>Commands that \<open>prefixKeyArgs\<close> does not list reach the keys of the default namespace from every namespace: \<open>LREM\<close>, the
  queue commands, \<open>JSON.SET\<close>, \<open>TAG\<close>, \<open>TS.ADD\<close>, \<open>WATCH\<close>, \<open>XACK\<close>, \<open>ZPOPMIN\<close> and \<open>HSEARCH\<close> keep their key arguments unchanged.\<close>

theorem unprefixed_commands:
  assumes "cmd \<in> set unlisted_commands"
  shows "prefixKeyArgs (cmd # args) prefix = cmd # args"
proof -
  have "list_all (\<lambda>c. ToUpper c \<notin> set listed_commands) unlisted_commands" by code_simp
  then have "ToUpper cmd \<notin> set listed_commands" using assms by (simp add: list_all_iff)
  then have "\<not> key_position (ToUpper cmd) n i" for n i
    by (simp add: key_position_def listed_commands_def)
  moreover have "map ((!) (cmd # args)) [0..<Suc (length args)] = cmd # args" using map_nth [of "cmd # args"] by (simp only: length_Cons)
  ultimately show ?thesis by (simp add: prefixKeyArgs_def Let_def del: upt_Suc)
qed

theorem unprefixed_commands_witness: "prefixKeyArgs [''LREM'', ''k'', ''0'', ''v''] ''tenant:'' = [''LREM'', ''k'', ''0'', ''v'']"
  by (rule unprefixed_commands) (simp add: unlisted_commands_def)

end
