(* ===== verification/Vole_Exec.thy ===== *)
theory Vole_Exec
  imports Vole_Extras Vole_Namespace
begin

text \<open>
  The dispatcher \<open>exec\<close>, transactions and the connection loop of \<^verbatim>\<open>internal/server/server.go\<close>.  The commands that are not modelled
  (administration, scripts, replication and commands that wait) are the argument \<open>other\<close> of the dispatcher.  One step of the loop takes
  one command and returns the reply, or that the process panicked, or that the command leaves the loop of the model: it takes
  over the connection (\<open>SUBSCRIBE\<close>, \<open>PSUBSCRIBE\<close>, \<open>REPLSYNC\<close>, \<open>REPLPEER\<close>), is one of \<open>CLIENT\<close>, or an eviction does not end.
\<close>

section \<open>Dispatch\<close>

definition exec_misc :: "env \<Rightarrow> string \<Rightarrow> string list \<Rightarrow> handler option" where
  "exec_misc e cmd args =
     (if cmd = ''MEMORY'' then
        Some (if length args < 2 then wrongArgs cmd
          else let sub = ToUpper (args ! 1) in
            if sub = ''USAGE'' then
              if length args \<noteq> 3 then wrongArgs ''MEMORY''
              else reading (Store_Type (args ! 2) (clock e)) (\<lambda>t. answer (if t = ''none'' then Writer_Null else Writer_Int 64))
            else if sub = ''DOCTOR'' then answer (Writer_Bulk ''Sam, I have no memory problems'')
            else if sub = ''HELP'' then answer (writeBulkStrings [''MEMORY USAGE <key>'', ''MEMORY DOCTOR'', ''MEMORY HELP''])
            else fail (''unsupported MEMORY subcommand '' @ quote e (args ! 1)))
      else if cmd = ''DEBUG'' then
        Some (if length args < 2 then wrongArgs cmd
          else let sub = ToUpper (args ! 1) in
            if sub = ''SLEEP'' then
              if length args \<noteq> 3 then wrongArgs ''DEBUG'' else with_float (args ! 2) (\<lambda>_. answer OK)
            else if sub = ''SET-ACTIVE-EXPIRE'' then answer OK
            else fail (''unsupported DEBUG subcommand '' @ quote e (args ! 1)))
      else if cmd = ''HELLO'' then
        Some (answer (Writer_ArrayLen 14 @
          concat (map Writer_Bulk [''server'', ''vole'', ''version'', ''0.1.0'', ''proto'', ''2'', ''id'', ''1'', ''mode'', ''standalone'',
            ''role'', ''master'', ''modules'']) @ Writer_ArrayLen 0))
      else None)"

fun first_handler :: "handler option list \<Rightarrow> handler \<Rightarrow> handler" where
  "first_handler [] h = h"
| "first_handler (Some g # gs) h = g"
| "first_handler (None # gs) h = first_handler gs h"

type_synonym dispatch = "env \<Rightarrow> string list \<Rightarrow> handler"

definition exec :: "dispatch \<Rightarrow> dispatch" where
  "exec other e args =
     (let cmd = ToUpper (args ! 0) in
      first_handler
        [exec_strings e cmd args, exec_counters e cmd args, exec_deadlines e cmd args, exec_hashes e cmd args, exec_lists e cmd args,
         exec_sets e cmd args, exec_zsets e cmd args, exec_keyspace e cmd args, exec_bytes e cmd args, exec_bits e cmd args, exec_sizes e cmd args,
         exec_zranges e cmd args, exec_zchanges e cmd args, exec_geo e cmd args, exec_copies e cmd args, exec_ranges e cmd args, exec_sorting e cmd args, exec_setops e cmd args,
         exec_fields e cmd args, exec_misc e cmd args, exec_streams e cmd args, exec_limits e cmd args, exec_queues e cmd args,
         exec_json e cmd args, exec_tags e cmd args, exec_series e cmd args]
        (other e args))"

definition write_commands :: "string list" where
  "write_commands =
     [''SET'', ''SETNX'', ''SETEX'', ''PSETEX'', ''MSET'', ''MSETNX'', ''APPEND'',
      ''INCR'', ''INCRBY'', ''INCRBYFLOAT'', ''DECR'', ''DECRBY'',
      ''DEL'', ''RENAME'', ''COPY'', ''EXPIRE'', ''EXPIREAT'', ''PEXPIRE'', ''PEXPIREAT'', ''PERSIST'',
      ''HSET'', ''HSETNX'', ''HMSET'', ''HINCRBY'', ''HINCRBYFLOAT'', ''HDEL'',
      ''LPUSH'', ''RPUSH'', ''LPUSHX'', ''RPUSHX'', ''LPOP'', ''RPOP'', ''LSET'', ''LINSERT'', ''LREM'',
      ''SADD'', ''SREM'', ''SMOVE'', ''SPOP'', ''SUNIONSTORE'', ''SINTERSTORE'', ''SDIFFSTORE'',
      ''ZADD'', ''ZREM'', ''ZINCRBY'', ''ZPOPMIN'', ''ZPOPMAX'', ''ZUNIONSTORE'', ''ZINTERSTORE'',
      ''XADD'', ''XGROUP'', ''XACK'',
      ''PFADD'', ''PFMERGE'',
      ''SETBIT'', ''SETRANGE'',
      ''GETSET'', ''GETDEL'',
      ''RATELIMIT'', ''RATELIMIT.RESET'', ''SETDELAYED'',
      ''ENQUEUE'', ''QACK'', ''QNACK'',
      ''JSON.SET'', ''JSON.DEL'', ''JSON.NUMINCRBY'', ''JSON.ARRAPPEND'',
      ''TAG'', ''TAGDEL'',
      ''TS.ADD'', ''TS.DOWNSAMPLE'']"

definition isWriteCommand :: "string \<Rightarrow> bool" where
  "isWriteCommand cmd \<longleftrightarrow> cmd \<in> set write_commands"

section \<open>Transactions\<close>

text \<open>An error becomes an error reply; a panic ends the process.\<close>

definition error_reply :: "go_error \<Rightarrow> string + string" where
  "error_reply err = (case err of Err m \<Rightarrow> Inr (Writer_Error (''ERR '' @ m)) | Panic m \<Rightarrow> Inl m)"

fun run_queue :: "dispatch \<Rightarrow> env \<Rightarrow> string list list \<Rightarrow> server \<Rightarrow> (string + string list) \<times> server" where
  "run_queue other e [] s = (Inr [], s)"
| "run_queue other e (args # cs) s =
     (case exec other e args s of (r, s) \<Rightarrow>
      case (case r of Inr bs \<Rightarrow> Inr bs | Inl err \<Rightarrow> error_reply err) of
        Inl m \<Rightarrow> (Inl m, s)
      | Inr bs \<Rightarrow> (case run_queue other e cs s of (Inl m, s) \<Rightarrow> (Inl m, s) | (Inr rs, s) \<Rightarrow> (Inr (bs # rs), s)))"

definition execTransaction :: "dispatch \<Rightarrow> env \<Rightarrow> string list list \<Rightarrow> server \<Rightarrow> (string + string) \<times> server" where
  "execTransaction other e commands s =
     (if commands = [] then (Inr (Writer_ArrayLen 0), s)
      else case run_queue other e commands s of
        (Inl m, s) \<Rightarrow> (Inl m, s)
      | (Inr rs, s) \<Rightarrow> (Inr (Writer_ArrayLen (int (length commands)) @ concat (map Writer_WriteRaw rs)), s))"

section \<open>Connections\<close>

record connTx =
  active :: bool
  queue :: "string list list"
  watched :: "nat gomap option"

record conn =
  tx :: connTx
  authenticated :: bool
  currentNS :: string
  nsPrefix :: string
  remote :: string
  conn_closed :: bool

record node =
  srv :: server
  audit :: AuditLog
  slowlog :: SlowLog
  namespaces :: NamespaceManager
  password :: string
  replica :: bool
  multiMaster :: bool
  processed :: int
  propagated :: "string list list"

datatype outcome = Replied string conn node | Crashed string | LeftOut

record conn_env =
  cenv :: env
  elapsed :: duration
  evictOrder :: "nat \<Rightarrow> string list \<Rightarrow> string list"

definition new_conn :: "string \<Rightarrow> node \<Rightarrow> conn" where
  "new_conn addr n =
     \<lparr>tx = \<lparr>active = False, queue = [], watched = None\<rparr>, authenticated = (password n = ''''), currentNS = ''default'', nsPrefix = '''',
      remote = addr, conn_closed = False\<rparr>"

definition handle_auth :: "string list \<Rightarrow> conn \<Rightarrow> node \<Rightarrow> outcome" where
  "handle_auth args c n =
     (if password n = '''' then Replied (Writer_Error ''ERR Client sent AUTH, but no password is set'') c n
      else if length args \<noteq> 2 \<and> length args \<noteq> 3
      then Replied (Writer_Error (''ERR wrong number of arguments for '' @ [CHR 0x27] @ ''auth'' @ [CHR 0x27] @ '' command'')) c n
      else if (if length args = 2 then args ! 1 else args ! 2) = password n
      then Replied OK (c\<lparr>authenticated := True\<rparr>) n
      else Replied (Writer_Error ''WRONGPASS invalid password'') c n)"

definition handle_namespace :: "gotime \<Rightarrow> string list \<Rightarrow> conn \<Rightarrow> node \<Rightarrow> outcome" where
  "handle_namespace now args c n =
     (if length args < 2 then Replied (Writer_Error ''ERR wrong number of arguments for NAMESPACE'') c n
      else let sub = ToUpper (args ! 1) in
        if sub \<in> {''CREATE'', ''USE'', ''DROP''} \<and> length args \<noteq> 3
        then Replied (Writer_Error (''ERR wrong number of arguments for NAMESPACE '' @ sub)) c n
        else if sub = ''CREATE'' then
          (case NamespaceManager_Create (args ! 2) now (namespaces n) of
             (Some (Err m), _) \<Rightarrow> Replied (Writer_Error (''ERR '' @ m)) c n
           | (Some (Panic m), _) \<Rightarrow> Crashed m
           | (None, nm) \<Rightarrow> Replied OK c (n\<lparr>namespaces := nm\<rparr>))
        else if sub = ''USE'' then
          if args ! 2 = ''default'' then Replied OK (c\<lparr>nsPrefix := '''', currentNS := ''default''\<rparr>) n
          else if has (namespaces n) (args ! 2)
          then Replied OK (c\<lparr>nsPrefix := args ! 2 @ '':'', currentNS := args ! 2\<rparr>) n
          else Replied (Writer_Error ''ERR namespace does not exist'') c n
        else if sub = ''LIST'' then Replied (writeBulkStrings (NamespaceManager_List (namespaces n))) c n
        else if sub = ''DROP'' then
          if args ! 2 = currentNS c then Replied (Writer_Error ''ERR cannot drop the currently active namespace'') c n
          else (case NamespaceManager_Drop (args ! 2) (namespaces n) of
                  (Some (Err m), _) \<Rightarrow> Replied (Writer_Error (''ERR '' @ m)) c n
                | (Some (Panic m), _) \<Rightarrow> Crashed m
                | (None, nm) \<Rightarrow> Replied OK c (n\<lparr>namespaces := nm\<rparr>))
        else if sub = ''CURRENT'' then Replied (Writer_Bulk (currentNS c)) c n
        else Replied (Writer_Error (''ERR unknown NAMESPACE subcommand '' @ [CHR 0x27] @ args ! 1 @ [CHR 0x27])) c n)"

text \<open>A command outside a transaction: the checks before a write, the handler, and what follows a success.\<close>

definition after_success :: "conn_env \<Rightarrow> string \<Rightarrow> string list \<Rightarrow> conn \<Rightarrow> node \<Rightarrow> node" where
  "after_success ce cmd args c n =
     (if isWriteCommand cmd
      then n\<lparr>propagated := propagated n @ (if \<not> replica n then [args] else []) @ (if multiMaster n then [args] else []),
             audit := AuditLog_Record (if 1 < length args then args ! 1 else '''') cmd (remote c) args (clock (cenv ce)) (audit n)\<rparr>
      else n)"

definition run_command :: "dispatch \<Rightarrow> conn_env \<Rightarrow> string \<Rightarrow> string list \<Rightarrow> conn \<Rightarrow> node \<Rightarrow> outcome" where
  "run_command other ce cmd args c n =
     (let finish = (\<lambda>n. n\<lparr>slowlog := SlowLog_Record (elapsed ce) args (remote c) (clock (cenv ce)) (slowlog n), processed := wrap64 (processed n + 1)\<rparr>)
      in case exec other (cenv ce) args (srv n) of
           (Inr bs, s) \<Rightarrow> Replied bs c (finish (after_success ce cmd args c (n\<lparr>srv := s\<rparr>)))
         | (Inl err, s) \<Rightarrow>
             (case error_reply err of
                Inl m \<Rightarrow> Crashed m
              | Inr bs \<Rightarrow> Replied bs c (finish (n\<lparr>srv := s\<rparr>))))"

definition handle_default :: "dispatch \<Rightarrow> conn_env \<Rightarrow> string \<Rightarrow> string list \<Rightarrow> conn \<Rightarrow> node \<Rightarrow> outcome" where
  "handle_default other ce cmd args c n =
     (if active (tx c) then Replied (Writer_Simple ''QUEUED'') (c\<lparr>tx := (tx c)\<lparr>queue := queue (tx c) @ [args]\<rparr>\<rparr>) n
      else if isWriteCommand cmd then
        if replica n \<and> \<not> multiMaster n
        then Replied (Writer_Error (''READONLY You can'' @ [CHR 0x27] @ ''t write against a read only replica'')) c n
        else (case Store_EvictIfNeeded (evictOrder ce) (clock (cenv ce)) (db (srv n)) of
                None \<Rightarrow> LeftOut
              | Some (Inl (Err m), d) \<Rightarrow> Replied (Writer_Error (''OOM '' @ m)) c (n\<lparr>srv := (srv n)\<lparr>db := d\<rparr>\<rparr>)
              | Some (Inl (Panic m), d) \<Rightarrow> Crashed m
              | Some (Inr _, d) \<Rightarrow> run_command other ce cmd args c (n\<lparr>srv := (srv n)\<lparr>db := d\<rparr>\<rparr>))
      else run_command other ce cmd args c n)"

definition handle_tx :: "dispatch \<Rightarrow> conn_env \<Rightarrow> string \<Rightarrow> string list \<Rightarrow> conn \<Rightarrow> node \<Rightarrow> outcome" where
  "handle_tx other ce cmd args c n =
     (let idle = \<lparr>active = False, queue = [], watched = None\<rparr> in
      if cmd = ''MULTI'' then
        if active (tx c) then Replied (Writer_Error ''ERR MULTI calls can not be nested'') c n
        else Replied OK (c\<lparr>tx := (tx c)\<lparr>active := True, queue := []\<rparr>\<rparr>) n
      else if cmd = ''EXEC'' then
        if \<not> active (tx c) then Replied (Writer_Error ''ERR EXEC without MULTI'') c n
        else if (case watched (tx c) of None \<Rightarrow> False | Some w \<Rightarrow> Store_KeysModifiedSince w (db (srv n)))
        then Replied Writer_NullArray (c\<lparr>tx := idle\<rparr>) n
        else (case execTransaction other (cenv ce) (queue (tx c)) (srv n) of
                (Inl m, s) \<Rightarrow> Crashed m
              | (Inr bs, s) \<Rightarrow> Replied bs (c\<lparr>tx := idle\<rparr>) (n\<lparr>srv := s\<rparr>))
      else if cmd = ''DISCARD'' then
        if \<not> active (tx c) then Replied (Writer_Error ''ERR DISCARD without MULTI'') c n
        else Replied OK (c\<lparr>tx := idle\<rparr>) n
      else if cmd = ''WATCH'' then
        if active (tx c) then Replied (Writer_Error ''ERR WATCH inside MULTI is not allowed'') c n
        else if length args < 2 then Replied (Writer_Error ''ERR wrong number of arguments for WATCH'') c n
        else Replied OK (c\<lparr>tx := (tx c)\<lparr>watched :=
               Some ((case watched (tx c) of None \<Rightarrow> fmempty | Some w \<Rightarrow> w) ++\<^sub>f Store_KeyVersions (drop 1 args) (db (srv n)))\<rparr>\<rparr>) n
      else if cmd = ''UNWATCH'' then Replied OK (c\<lparr>tx := (tx c)\<lparr>watched := None\<rparr>\<rparr>) n
      else handle_default other ce cmd args c n)"

text \<open>\<open>KEYS\<close>, \<open>RANDOMKEY\<close> and \<open>SCAN\<close> of a connection in a namespace; the arguments already carry the prefix.\<close>

fun ns_scan_options :: "string list \<Rightarrow> string \<times> int \<Rightarrow> string + (string \<times> int)" where
  "ns_scan_options [] pc = Inr pc"
| "ns_scan_options [x] pc = Inl ''ERR syntax error''"
| "ns_scan_options (x # v # xs) (pattern, cnt) =
     (if ToUpper x = ''MATCH'' then ns_scan_options xs (v, cnt)
      else if ToUpper x = ''COUNT'' then
        (case Atoi v of (n, None) \<Rightarrow> ns_scan_options xs (pattern, n) | (_, Some _) \<Rightarrow> Inl ''ERR value is not an integer or out of range'')
      else ns_scan_options xs (pattern, cnt))"

definition quoted_arity :: "string \<Rightarrow> string" where
  "quoted_arity name = Writer_Error (''ERR wrong number of arguments for '' @ [CHR 0x27] @ name @ [CHR 0x27] @ '' command'')"

definition handle_ns_keys :: "gotime \<Rightarrow> string \<Rightarrow> string list \<Rightarrow> conn \<Rightarrow> node \<Rightarrow> outcome" where
  "handle_ns_keys now cmd args c n =
     (let d = db (srv n); strip = (\<lambda>k. stripKeyPrefix k (nsPrefix c)) in
      if cmd = ''KEYS'' then
        if length args \<noteq> 2 then Replied (quoted_arity ''keys'') c n
        else Replied (writeBulkStrings (map strip (Store_Keys (args ! 1) now d))) c n
      else if cmd = ''RANDOMKEY'' then
        if length args \<noteq> 1 then Replied (quoted_arity ''randomkey'') c n
        else Replied (case Store_Keys (nsPrefix c @ ''*'') now d of [] \<Rightarrow> Writer_Null | k # _ \<Rightarrow> Writer_Bulk (strip k)) c n
      else if length args < 2 then Replied (quoted_arity ''scan'') c n
      else case Atoi (args ! 1) of
        (_, Some _) \<Rightarrow> Replied (Writer_Error ''ERR invalid cursor'') c n
      | (cursor, None) \<Rightarrow>
          (case ns_scan_options (drop 2 args) (''*'', 10) of
             Inl m \<Rightarrow> Replied (Writer_Error m) c n
           | Inr (pattern, cnt) \<Rightarrow>
               (case Store_Scan cursor cnt pattern now d of
                  Inl (Panic m) \<Rightarrow> Crashed m
                | Inl (Err m) \<Rightarrow> Replied (Writer_Error m) c n
                | Inr (nxt, ks) \<Rightarrow> Replied (Writer_ArrayLen 2 @ Writer_Bulk (FormatInt nxt) @ writeBulkStrings (map strip ks)) c n)))"

definition unsubscribed :: "string \<Rightarrow> string list \<Rightarrow> string" where
  "unsubscribed name args = Writer_ArrayLen 3 @ Writer_Bulk name @ Writer_Bulk (if 1 < length args then args ! 1 else '''') @ Writer_Int 0"

definition handle :: "dispatch \<Rightarrow> conn_env \<Rightarrow> string list \<Rightarrow> conn \<Rightarrow> node \<Rightarrow> outcome" where
  "handle other ce args c n =
     (let cmd = ToUpper (args ! 0) in
      if \<not> authenticated c \<and> cmd \<noteq> ''AUTH'' \<and> cmd \<noteq> ''PING'' \<and> cmd \<noteq> ''HELLO''
      then Replied (Writer_Error ''NOAUTH Authentication required.'') c n
      else if cmd = ''AUTH'' then handle_auth args c n
      else if cmd \<in> {''SUBSCRIBE'', ''PSUBSCRIBE'', ''REPLSYNC'', ''CLIENT''} \<or> cmd = ''REPLPEER'' \<and> length args = 3 then LeftOut
      else if cmd = ''UNSUBSCRIBE'' then Replied (unsubscribed ''unsubscribe'' args) c n
      else if cmd = ''PUNSUBSCRIBE'' then Replied (unsubscribed ''punsubscribe'' args) c n
      else if cmd = ''QUIT'' then Replied OK (c\<lparr>conn_closed := True\<rparr>) n
      else if cmd = ''NAMESPACE'' then handle_namespace (clock (cenv ce)) args c n
      else
        let args = prefixKeyArgs args (nsPrefix c) in
        if nsPrefix c \<noteq> '''' \<and> cmd \<in> {''KEYS'', ''RANDOMKEY'', ''SCAN''} then handle_ns_keys (clock (cenv ce)) cmd args c n
        else handle_tx other ce cmd args c n)"

end
