(* ===== verification/Vole_Journal.thy ===== *)
theory Vole_Journal
  imports Vole_Exec
begin

text \<open>
  The contract between the handlers and the log.  An operation of the store is \<^emph>\<open>durable\<close> if, on a store without deadlines, delayed
  keys and blocked clients, its effect on the data does not depend on the moment at which it runs: then replaying it later has the
  same effect.  The locale states the contract; it is interpreted on the operations that the handlers log.
\<close>

section \<open>Stores without time\<close>

definition calm :: "store \<Rightarrow> bool" where
  "calm s \<longleftrightarrow> notBefore s = fmempty \<and> (\<forall>k. waiters_of k s = [])"

definition timeless :: "store \<Rightarrow> bool" where
  "timeless s \<longleftrightarrow> store_wf s \<and> (\<forall>k. cExp (column s k) = None) \<and> calm s"

lemma timeless_New: "timeless Store_New"
  unfolding timeless_def calm_def using store_wf_New by (simp add: waiters_of_def Store_New_def column_def)

lemma timeless_fresh: "timeless s \<Longrightarrow> \<not> isExpiredRLocked k now s"
  by (simp add: timeless_def isExpired_column)

lemma timeless_simps:
  assumes "timeless s"
  shows "purge k now s = s" "live now s k = column s k" "slot_ok (column s k)" "cExp (column s k) = None"
  using timeless_fresh [OF assms] assms by (simp_all add: purge_id live_def timeless_def store_wf_def)

lemma timeless_wf: "timeless s \<Longrightarrow> store_wf s"
  by (simp add: timeless_def)

locale durable_op =
  fixes f :: "gotime \<Rightarrow> store \<Rightarrow> store"
  assumes stays: "timeless s \<Longrightarrow> timeless (f now s)"
    and agrees: "timeless s \<Longrightarrow> timeless t \<Longrightarrow> column s = column t \<Longrightarrow> column (f now s) = column (f later t)"

lemma durable_op_key:
  assumes col: "\<And>now s. timeless s \<Longrightarrow> column (f now s) key = F (column s key)"
    and frame: "\<And>now s j. timeless s \<Longrightarrow> j \<noteq> key \<Longrightarrow> column (f now s) j = column s j"
    and ok: "\<And>now s. timeless s \<Longrightarrow> slot_ok (column (f now s) key) \<and> cExp (F (column s key)) = None"
    and versions: "\<And>now s. timeless s \<Longrightarrow> versions_ok (f now s)"
    and calm: "\<And>now s. timeless s \<Longrightarrow> calm (f now s)"
  shows "durable_op f"
proof
  fix s now assume s: "timeless s"
  have "slot_ok (column (f now s) j) \<and> cExp (column (f now s) j) = None" for j
  proof (cases "j = key")
    case True
    then show ?thesis using ok [OF s, of now] col [OF s, of now] by simp
  next
    case False
    then show ?thesis using frame [OF s] timeless_simps(3,4) [OF s] by simp
  qed
  then show "timeless (f now s)" using versions [OF s] calm [OF s] by (simp add: timeless_def store_wf_def)
next
  fix s t now later assume st: "timeless s" "timeless t" "column s = column t"
  show "column (f now s) = column (f later t)"
  proof
    fix j
    show "column (f now s) j = column (f later t) j"
      using col [OF st(1), of now] col [OF st(2), of later] frame [OF st(1), of j now] frame [OF st(2), of j later] st(3) by (cases "j = key") auto
  qed
qed

section \<open>The operations that are logged\<close>

lemma calm_same: "calm s \<Longrightarrow> notBefore t = notBefore s \<Longrightarrow> listWaits t = listWaits s \<Longrightarrow> calm t"
  by (simp add: calm_def waiters_of_def)

lemma timeless_versions: "timeless s \<Longrightarrow> tracked K s t \<Longrightarrow> versions_ok t"
  using tracked_versions_ok by (simp add: timeless_def store_wf_def)

lemma durable_op_tracked:
  assumes tr: "\<And>now s. timeless s \<Longrightarrow> tracked {key} s (f now s)"
    and col: "\<And>now s. timeless s \<Longrightarrow> column (f now s) key = F (column s key)"
    and slot: "\<And>now s. store_wf s \<Longrightarrow> slot_ok (column (f now s) key)"
    and undated: "\<And>c. cExp c = None \<Longrightarrow> cExp (F c) = None"
    and calm: "\<And>now s. timeless s \<Longrightarrow> calm (f now s)"
  shows "durable_op f"
proof (rule durable_op_key [where key = key and F = F])
  fix now s j assume s: "timeless s"
  show "column (f now s) key = F (column s key)" by (rule col [OF s])
  show "j \<noteq> key \<Longrightarrow> column (f now s) j = column s j" using tracked_frame [OF tr [OF s]] by blast
  show "slot_ok (column (f now s) key) \<and> cExp (F (column s key)) = None"
    using slot undated timeless_simps(4) [OF s] s by (simp add: timeless_def)
  show "versions_ok (f now s)" by (rule timeless_versions [OF s tr [OF s]])
  show "calm (f now s)" by (rule calm [OF s])
qed

lemma timeless_calm: "timeless s \<Longrightarrow> calm s"
  by (simp add: timeless_def)

interpretation setabs: durable_op "Store_SetAbsolute key v zeroTime" for key v
proof (rule durable_op_tracked [where key = key and F = "string_column v None"])
  fix now s k
  show "tracked {key} s (Store_SetAbsolute key v zeroTime now s)" by (rule SetAbsolute_tracked)
  show "column (Store_SetAbsolute key v zeroTime now s) key = string_column v None (column s key)"
    by (simp add: SetAbsolute_column IsZero_def)
  show "slot_ok (column (Store_SetAbsolute key v zeroTime now s) key)" if "store_wf s"
    using that by (simp add: SetAbsolute_column slot_ok_string store_wf_def)
  show "calm (Store_SetAbsolute key v zeroTime now s)" if "timeless s"
    by (rule calm_same [OF timeless_calm [OF that]]) (simp_all add: Store_SetAbsolute_def clear_other_kinds_def Let_def)
qed (simp add: string_column_def)

lemma Append_slot: "store_wf s \<Longrightarrow> slot_ok (column (snd (Store_Append key v now s)) key)"
  by (auto simp: Append_column Let_def slot_ok_live string_put)

lemma IncrBy_calm: "timeless s \<Longrightarrow> calm (snd (Store_IncrBy key d now s))"
  by (rule calm_same [OF timeless_calm, of s]) (auto simp: IncrBy_eq Let_def split_def timeless_simps split: option.split prod.split)

interpretation incrby: durable_op "\<lambda>now s. snd (Store_IncrBy key d now s)" for key d
  by (rule durable_op_tracked [OF IncrBy_tracked _ IncrBy_slot _ IncrBy_calm, where F = "\<lambda>c.
        if list_ex (col_holds c) other_kinds then c
        else case cKV c of None \<Rightarrow> c\<lparr>cKV := Some (FormatInt (wrap64 d))\<rparr>
        | Some v \<Rightarrow> (case ParseInt v of (n, Some e) \<Rightarrow> c | (n, None) \<Rightarrow> c\<lparr>cKV := Some (FormatInt (wrap64 (n + d)))\<rparr>)"])
    (auto simp: IncrBy_eq Let_def timeless_simps split: option.split prod.split)

lemma Append_calm: "timeless s \<Longrightarrow> calm (snd (Store_Append key v now s))"
  by (rule calm_same [OF timeless_calm, of s]) (auto simp: Store_Append_def locked_eqs Let_def split_def timeless_simps split: option.split prod.split)

interpretation append: durable_op "\<lambda>now s. snd (Store_Append key v now s)" for key v
  by (rule durable_op_tracked [OF Append_tracked _ Append_slot _ Append_calm, where F = "\<lambda>c.
        if list_ex (col_holds c) other_kinds then c else c\<lparr>cKV := Some ((case cKV c of None \<Rightarrow> [] | Some u \<Rightarrow> u) @ v)\<rparr>"])
    (auto simp: Append_column Let_def timeless_simps split: option.split prod.split)

lemma HSet_calm: "timeless s \<Longrightarrow> calm (snd (Store_HSet key ps now s))"
  by (rule calm_same [OF timeless_calm, of s]) (auto simp: Store_HSet_def make_hash_def locked_eqs Let_def split_def timeless_simps split: option.split prod.split)

interpretation hset: durable_op "\<lambda>now s. snd (Store_HSet key ps now s)" for key ps
  by (rule durable_op_tracked [OF HSet_tracked _ HSet_slot _ HSet_calm, where F = "\<lambda>c.
        if ps = [] \<or> list_ex (col_holds c) (KString # hash_kinds) then c else c\<lparr>cHash := Some (put_pairs ps (hash_at c))\<rparr>"])
    (auto simp: HSet_column Let_def timeless_simps split: option.split prod.split)

lemma HDel_calm: "timeless s \<Longrightarrow> calm (snd (Store_HDel key fs now s))"
  by (rule calm_same [OF timeless_calm, of s]) (auto simp: HDel_eq Let_def split_def timeless_simps split: option.split prod.split)

interpretation hdel: durable_op "\<lambda>now s. snd (Store_HDel key fs now s)" for key fs
  by (rule durable_op_tracked [OF HDel_tracked [OF timeless_wf] _ HDel_slot _ HDel_calm, where F = "\<lambda>c.
        if list_ex (col_holds c) (KString # hash_kinds) then c
        else case cHash c of None \<Rightarrow> c
        | Some h \<Rightarrow> if fold fmdrop fs h = fmempty then c\<lparr>cHash := None, cExp := None\<rparr> else c\<lparr>cHash := Some (fold fmdrop fs h)\<rparr>"])
    (auto simp: HDel_column Let_def timeless_simps split: option.split prod.split)

lemma SAdd_calm: "timeless s \<Longrightarrow> calm (snd (Store_SAdd key ms now s))"
  by (rule calm_same [OF timeless_calm, of s]) (auto simp: Store_SAdd_def locked_eqs Let_def split_def timeless_simps split: option.split prod.split)

interpretation sadd: durable_op "\<lambda>now s. snd (Store_SAdd key ms now s)" for key ms
  by (rule durable_op_tracked [OF SAdd_tracked _ SAdd_slot _ SAdd_calm, where F = "\<lambda>c.
        if ms = [] \<or> list_ex (col_holds c) (KString # set_kinds) then c else c\<lparr>cSet := Some (set_at c |\<union>| fset_of_list ms)\<rparr>"])
    (auto simp: SAdd_column Let_def timeless_simps split: option.split prod.split)

lemma SRem_calm: "timeless s \<Longrightarrow> calm (snd (Store_SRem key ms now s))"
  by (rule calm_same [OF timeless_calm, of s]) (auto simp: SRem_eq Let_def timeless_simps)

interpretation srem: durable_op "\<lambda>now s. snd (Store_SRem key ms now s)" for key ms
proof (rule durable_op_key [where key = key and F = "\<lambda>c. let S = set_at c |-| fset_of_list ms in
      if list_ex (col_holds c) (KString # set_kinds) \<or> set_at c = {||} then c
      else if S = {||} then c\<lparr>cSet := None, cExp := None\<rparr> else c\<lparr>cSet := Some S\<rparr>"])
  fix now s j assume s: "timeless s"
  show "versions_ok (snd (Store_SRem key ms now s))" using SRem_versions timeless_wf [OF s] by (simp add: store_wf_def)
  show "calm (snd (Store_SRem key ms now s))" by (rule SRem_calm [OF s])
  show "j \<noteq> key \<Longrightarrow> column (snd (Store_SRem key ms now s)) j = column s j" by (rule SRem_frame)
qed (simp_all add: SRem_slot timeless_wf, simp_all add: SRem_column Let_def timeless_simps)

lemma durable_op_result:
  assumes run: "\<And>now s. timeless s \<Longrightarrow> \<exists>r. key_result key now s r (F (column s key)) (g now s)"
    and slot: "\<And>s. timeless s \<Longrightarrow> slot_ok (F (column s key)) \<and> cExp (F (column s key)) = None"
  shows "durable_op (\<lambda>now s. snd (g now s))"
proof (rule durable_op_key [where key = key and F = F])
  fix now s j assume s: "timeless s"
  then obtain x where r: "key_result key now s x (F (column s key)) (g now s)" using run by blast
  note r = r [unfolded key_result_def]
  show "column (snd (g now s)) key = F (column s key)" using r by blast
  show "j \<noteq> key \<Longrightarrow> column (snd (g now s)) j = column s j" using r tracked_frame by blast
  show "slot_ok (column (snd (g now s)) key) \<and> cExp (F (column s key)) = None" using r slot [OF s] by simp
  show "versions_ok (snd (g now s))" using r timeless_versions [OF s] by blast
  show "calm (snd (g now s))" using r by (intro calm_same [OF timeless_calm [OF s]]) (simp_all add: timeless_simps [OF s])
qed

lemma slot_put_list:
  assumes "timeless s" "\<not> list_wrong (column s key)"
  shows "slot_ok (put_list xs (column s key))" "cExp (put_list xs (column s key)) = None"
  using list_edit_slot [OF timeless_wf, of s undefined key xs] assms by (simp_all add: timeless_simps put_list_def)

interpretation pop: durable_op "\<lambda>now s. snd (popList key left now s)" for key left
proof (rule durable_op_result [where key = key and F = "\<lambda>c. let xs = list_at c in
      if list_wrong c \<or> xs = [] then c else put_list (snd (take_end left xs)) c"])
  fix now s assume s: "timeless s"
  have "slot_ok (live now s key)" by (simp add: timeless_simps [OF s])
  from popList_run [OF this] show "\<exists>r. key_result key now s r (let xs = list_at (column s key) in
      if list_wrong (column s key) \<or> xs = [] then column s key else put_list (snd (take_end left xs)) (column s key)) (popList key left now s)"
    unfolding timeless_simps(2) [OF s] Let_def by blast
next
  fix s assume s: "timeless s"
  show "slot_ok (let xs = list_at (column s key) in if list_wrong (column s key) \<or> xs = [] then column s key else put_list (snd (take_end left xs)) (column s key)) \<and>
      cExp (let xs = list_at (column s key) in if list_wrong (column s key) \<or> xs = [] then column s key else put_list (snd (take_end left xs)) (column s key)) = None"
    using slot_put_list [OF s, of key] timeless_simps(3,4) [OF s, of key] by (simp add: Let_def)
qed

lemma push_timeless:
  assumes s: "timeless s"
  shows "column (snd (pushList key left vs now s)) key =
      (if vs = [] \<or> list_wrong (column s key) then column s key else put_list (put_end left vs (list_at (column s key))) (column s key))"
    and "calm (snd (pushList key left vs now s))"
proof -
  have live: "live now s key = column s key" and p: "purge key now s = s" by (simp_all add: timeless_simps [OF s])
  have none: "waiters_of k s = []" for k using timeless_calm [OF s] by (simp add: calm_def)
  have "column (snd (pushList key left vs now s)) key = put_list (put_end left vs (list_at (column s key))) (column s key) \<and>
      calm (snd (pushList key left vs now s))" if "vs \<noteq> []" "\<not> list_wrong (column s key)"
  proof -
    have sv: "serve (waiters_of key s) (put_end left vs (list_at (live now s key))) = ([], [], put_end left vs (list_at (live now s key)))"
      by (simp add: none)
    note run = pushList_run [OF _ that(1) that(2) [folded live] sv]
    have ok: "slot_ok (live now s key)" by (simp add: timeless_simps [OF s])
    have "waiters_of j (snd (pushList key left vs now s)) = []" for j
      using run(3,7) [OF ok] none by (cases "j = key") simp_all
    then show ?thesis using run(2,5) [OF ok] timeless_calm [OF s] by (simp add: live p calm_def)
  qed
  moreover have "snd (pushList key left vs now s) = s" if "vs = [] \<or> list_wrong (column s key)"
    using that pushList_wrong [of vs now s key left] live p by (cases "vs = []") (auto simp: pushList_def)
  ultimately show "column (snd (pushList key left vs now s)) key =
      (if vs = [] \<or> list_wrong (column s key) then column s key else put_list (put_end left vs (list_at (column s key))) (column s key))"
    and "calm (snd (pushList key left vs now s))"
    using timeless_calm [OF s] by (metis, metis)
qed

interpretation push: durable_op "\<lambda>now s. snd (pushList key left vs now s)" for key left vs
proof (rule durable_op_key [where key = key and F = "\<lambda>c. if vs = [] \<or> list_wrong c then c else put_list (put_end left vs (list_at c)) c"])
  fix now s j assume s: "timeless s"
  have tr: "tracked {key} s (snd (pushList key left vs now s))" by (rule pushList_tracked [OF timeless_wf [OF s]])
  show "column (snd (pushList key left vs now s)) key =
      (if vs = [] \<or> list_wrong (column s key) then column s key else put_list (put_end left vs (list_at (column s key))) (column s key))"
    by (rule push_timeless(1) [OF s])
  show "j \<noteq> key \<Longrightarrow> column (snd (pushList key left vs now s)) j = column s j" using tracked_frame [OF tr] by blast
  show "versions_ok (snd (pushList key left vs now s))" by (rule timeless_versions [OF s tr])
  show "calm (snd (pushList key left vs now s))" by (rule push_timeless(2) [OF s])
  show "slot_ok (column (snd (pushList key left vs now s)) key) \<and>
      cExp (if vs = [] \<or> list_wrong (column s key) then column s key else put_list (put_end left vs (list_at (column s key))) (column s key)) = None"
    using pushList_slot [OF timeless_wf [OF s]] slot_put_list(2) [OF s] timeless_simps(4) [OF s] by simp
qed

text \<open>Sequences of durable operations are durable.\<close>

lemma durable_op_id: "durable_op (\<lambda>now s. s)"
  by unfold_locales

lemma durable_op_comp: "durable_op f \<Longrightarrow> durable_op g \<Longrightarrow> durable_op (\<lambda>now s. g now (f now s))"
  unfolding durable_op_def by blast

lemma durable_op_fold: "(\<And>x. x \<in> set xs \<Longrightarrow> durable_op (f x)) \<Longrightarrow> durable_op (\<lambda>now. fold (\<lambda>x. f x now) xs)"
proof (induction xs)
  case Nil
  then show ?case using durable_op_id by simp
next
  case (Cons x xs)
  then show ?case using durable_op_comp [of "f x" "\<lambda>now. fold (\<lambda>x. f x now) xs"] by (simp add: comp_def)
qed

lemma del1_durable: "durable_op (\<lambda>now s. if existsRLocked k now s then deleteKeyLocked k now s else purge k now s)"
proof (rule durable_op_tracked [where key = k and F = "\<lambda>c. if \<exists>x. col_holds c x then no_column else c"])
  fix now s assume s: "timeless s"
  have ex: "existsRLocked k now s \<longleftrightarrow> (\<exists>x. col_holds (column s k) x)"
    using timeless_calm [OF s] by (simp add: exists_live timeless_simps [OF s] delayed_def calm_def)
  show "column (if existsRLocked k now s then deleteKeyLocked k now s else purge k now s) k = (if \<exists>x. col_holds (column s k) x then no_column else column s k)"
    by (simp add: ex column_delete timeless_simps [OF s])
  show "calm (if existsRLocked k now s then deleteKeyLocked k now s else purge k now s)"
    using timeless_calm [OF s] by (simp add: calm_def waiters_of_def timeless_simps [OF s])
next
  fix now s assume "store_wf s"
  then show "slot_ok (column (if existsRLocked k now s then deleteKeyLocked k now s else purge k now s) k)"
    using slot_ok_live [of s now k] by (simp add: column_delete column_purge)
qed (simp_all add: tracked_delete tracked_purge no_column_def)

lemma del_loop_count: "snd (del_loop ks n now s) = snd (del_loop ks 0 now s)"
proof (induction ks arbitrary: n s)
  case (Cons k ks)
  have "snd (del_loop ks m now t) = snd (del_loop ks m' now t)" for m m' t using Cons.IH [of m t] Cons.IH [of m' t] by simp
  then show ?case by (simp add: del_loop_Cons)
qed simp

lemma del_loop_durable: "durable_op (\<lambda>now s. snd (del_loop ks n now s))"
proof (induction ks arbitrary: n)
  case Nil
  then show ?case using durable_op_id by simp
next
  case (Cons k ks)
  have eq: "snd (del_loop (k # ks) n now s) =
      snd (del_loop ks 0 now (if existsRLocked k now s then deleteKeyLocked k now s else purge k now s))" for now s
    using del_loop_count [of ks] by (simp add: del_loop_Cons)
  show ?case unfolding eq by (rule durable_op_comp [OF del1_durable Cons.IH])
qed

interpretation del: durable_op "\<lambda>now s. snd (Store_Del ks now s)" for ks
  unfolding Store_Del_def by (rule del_loop_durable)

end
