(* ===== verification/Vole_Recovery.thy ===== *)
theory Vole_Recovery
  imports Vole_Journal
begin

text \<open>
  The handlers of \<^verbatim>\<open>server.go\<close> and the log of \<^verbatim>\<open>aof.go\<close> together: what a handler changes in the store is explained by the
  records that it appends.  The contract \<open>journals\<close> follows the structure of the handlers; it gives that a store rebuilt from the log
  has the same data.
\<close>

section \<open>Records that explain a change\<close>

definition loggable :: "string list \<Rightarrow> bool" where
  "loggable args \<longleftrightarrow> args \<noteq> [] \<and> list_all (plain False) args \<and> length (log_line args) < 65536"

definition replay_all :: "(string \<Rightarrow> go_error + json) \<Rightarrow> string list list \<Rightarrow> gotime \<Rightarrow> store \<Rightarrow> store" where
  "replay_all u rs now = fold (\<lambda>args. replay_record u args now) rs"

definition explains :: "(string \<Rightarrow> go_error + json) \<Rightarrow> string list list \<Rightarrow> store \<Rightarrow> store \<Rightarrow> bool" where
  "explains u rs d d' \<longleftrightarrow> list_all loggable rs \<and> timeless d' \<and>
     (\<forall>t later. timeless t \<longrightarrow> column t = column d \<longrightarrow>
        timeless (replay_all u rs later t) \<and> column (replay_all u rs later t) = column d')"

lemma explains_nothing: "timeless d' \<Longrightarrow> column d' = column d \<Longrightarrow> explains u [] d d'"
  by (simp add: explains_def replay_all_def)

lemma explains_append: "explains u rs d d1 \<Longrightarrow> explains u rs' d1 d2 \<Longrightarrow> explains u (rs @ rs') d d2"
  by (simp add: explains_def replay_all_def)

lemma explains_one:
  assumes "durable_op f" "loggable args" "\<And>now t. replay_record u args now t = f now t"
    and "timeless d" "timeless d'" "column d' = column (f now d)"
  shows "explains u [args] d d'"
  using assms durable_op.stays [OF assms(1)] durable_op.agrees [OF assms(1)]
  by (auto simp: explains_def replay_all_def)

section \<open>The contract of handlers\<close>

definition log_lines :: "string list list \<Rightarrow> string" where
  "log_lines rs = concat (map (\<lambda>args. log_line args @ [NL]) rs)"

lemma log_lines_append [simp]: "log_lines (rs @ rs') = log_lines rs @ log_lines rs'" "log_lines [] = []"
  by (simp_all add: log_lines_def)

definition journaled_step :: "(string \<Rightarrow> go_error + json) \<Rightarrow> server \<Rightarrow> server \<Rightarrow> bool" where
  "journaled_step u s s' \<longleftrightarrow>
     (\<exists>a a' rs. aof s = Some a \<and> aof s' = Some a' \<and> aof_file a' = aof_file a @ log_lines rs \<and> explains u rs (db s) (db s'))"

definition journals :: "(string \<Rightarrow> go_error + json) \<Rightarrow> handler \<Rightarrow> bool" where
  "journals u h \<longleftrightarrow> (\<forall>s. timeless (db s) \<longrightarrow> aof s \<noteq> None \<longrightarrow> journaled_step u s (snd (h s)))"

lemma journaled_step_same: "timeless (db s') \<Longrightarrow> aof s \<noteq> None \<Longrightarrow> column (db s') = column (db s) \<Longrightarrow> aof s' = aof s \<Longrightarrow> journaled_step u s s'"
  unfolding journaled_step_def using explains_nothing [of "db s'" "db s" u] log_lines_append(2) by (metis append_Nil2 not_None_eq)

lemma journaled_step_trans: "journaled_step u s s1 \<Longrightarrow> journaled_step u s1 s2 \<Longrightarrow> journaled_step u s s2"
  unfolding journaled_step_def by (metis append_assoc explains_append log_lines_append(1) option.inject)

lemma journaled_step_ready: "journaled_step u s s' \<Longrightarrow> timeless (db s') \<and> aof s' \<noteq> None"
  by (auto simp: journaled_step_def explains_def)

text \<open>A handler that continues another one.\<close>

lemma journals_then: "journaled_step u s s1 \<Longrightarrow> journals u h \<Longrightarrow> journaled_step u s (snd (h s1))"
  using journaled_step_trans journaled_step_ready unfolding journals_def by blast

named_theorems journal_rules

lemma journals_answer [journal_rules]: "journals u (answer bs)"
  by (auto simp: journals_def answer_def intro: journaled_step_same)

lemma journals_fail [journal_rules]: "journals u (fail m)" "journals u (wrongArgs cmd)"
  by (auto simp: journals_def fail_def wrongArgs_def intro: journaled_step_same)

lemma journals_attempt [journal_rules]: "(\<And>x. r = Inr x \<Longrightarrow> journals u (k x)) \<Longrightarrow> journals u (attempt k r)"
  by (cases r) (auto simp: journals_def attempt_def intro: journaled_step_same)

lemma journals_with_int [journal_rules]: "(\<And>n. ParseInt x = (n, None) \<Longrightarrow> journals u (k n)) \<Longrightarrow> journals u (with_int x k)"
  by (auto simp: journals_def with_int_def intro: journaled_step_same split: prod.split option.split)

lemma journals_reading [journal_rules]: "(\<And>x. journals u (k x)) \<Longrightarrow> journals u (reading f k)"
  by (auto simp: journals_def reading_def)

lemma journals_owning [journal_rules]: "journals u h \<Longrightarrow> journals u (owning ks h)"
  by (auto simp: journals_def owning_def intro: journaled_step_same split: option.split)

lemma journals_validated [journal_rules]: "journals u h \<Longrightarrow> journals u (validated e key flds h)"
  by (auto simp: journals_def validated_def intro: journaled_step_same split: option.split)

lemma journals_of_type [journal_rules]: "journals u h \<Longrightarrow> journals u (of_type e key typ h)" "journals u h \<Longrightarrow> journals u (existing e key typ bs h)"
  by (auto simp: of_type_def existing_def intro!: journal_rules)

lemma journals_count [journal_rules]: "journals u h \<Longrightarrow> journals u (count_access hit h)"
proof -
  assume h: "journals u h"
  have "journaled_step u s (snd (count_access hit h s))" if "timeless (db s)" "aof s \<noteq> None" for s
    unfolding count_access_def using that by (intro journals_then [OF _ h] journaled_step_same) simp_all
  then show ?thesis by (simp add: journals_def)
qed

lemma journals_if [journal_rules]: "(b \<Longrightarrow> journals u h) \<Longrightarrow> (\<not> b \<Longrightarrow> journals u g) \<Longrightarrow> journals u (if b then h else g)"
  by simp

text \<open>An operation that changes no data needs no record.\<close>

lemma journals_silent:
  assumes "\<And>d. timeless d \<Longrightarrow> timeless (snd (f d)) \<and> column (snd (f d)) = column d" "\<And>x. journals u (k x)"
  shows "journals u (on_store f k)"
proof -
  have "journaled_step u s (snd (on_store f k s))" if "timeless (db s)" "aof s \<noteq> None" for s
    using that assms(1) [of "db s"] unfolding on_store_def split_def
    by (intro journals_then [OF _ assms(2)] journaled_step_same) simp_all
  then show ?thesis by (simp add: journals_def)
qed

section \<open>Appending records\<close>

definition sound_disk :: "env \<Rightarrow> bool" where
  "sound_disk e \<longleftrightarrow> (\<forall>args. disk e args = io_ok)"

lemma append_ok: "fst (AOF_Append io_ok args now a) = None"
  by (simp add: AOF_Append_def io_ok_def file_Sync_def Let_def)

lemma append_log_ok:
  assumes "sound_disk e" "aof s = Some a"
  shows "append_log e args s = (None, s\<lparr>aof := Some (snd (AOF_Append io_ok args (clock e) a))\<rparr>)"
  using assms append_ok [of args "clock e" a] by (simp add: append_log_def sound_disk_def split_def)

text \<open>The record is written first and the operation follows; or the operation is applied first and recorded when it had an effect.\<close>

lemma journals_log_first:
  assumes e: "sound_disk e" and args: "loggable args" and f: "durable_op f" "\<And>now t. replay_record u args now t = f now t"
    and g: "\<And>d. snd (g d) = f (clock e) d" and k: "\<And>x. journals u (k x)"
  shows "journals u (logging e args (on_store g k))"
proof -
  have "journaled_step u s (snd (logging e args (on_store g k) s))" if s: "timeless (db s)" "aof s \<noteq> None" for s
  proof -
    obtain a where a: "aof s = Some a" using s(2) by blast
    let ?s = "s\<lparr>aof := Some (snd (AOF_Append io_ok args (clock e) a)), db := snd (g (db s))\<rparr>"
    have "explains u [args] (db s) (snd (g (db s)))"
      unfolding g by (rule explains_one [OF f(1) args f(2) s(1) durable_op.stays [OF f(1) s(1)] refl])
    then have "journaled_step u s ?s"
      unfolding journaled_step_def using a by (auto simp: append_file log_lines_def intro!: exI [of _ "[args]"])
    then have "journaled_step u s (snd (k (fst (g (db s))) ?s))" by (rule journals_then [OF _ k])
    then show ?thesis by (simp add: logging_def append_log_ok [OF e a] on_store_def split_def)
  qed
  then show ?thesis by (simp add: journals_def)
qed

lemma journals_log_after:
  assumes e: "sound_disk e"
    and eff: "\<And>d. timeless d \<Longrightarrow> timeless (snd (g d)) \<and>
      (column (snd (g d)) = column d \<and> journals u (k (fst (g d))) \<or>
       (\<exists>args f h. (\<forall>s. aof s \<noteq> None \<longrightarrow> snd (k (fst (g d)) s) = snd (h (snd (append_log e args s)))) \<and> journals u h \<and> loggable args \<and> durable_op f \<and>
          (\<forall>now t. replay_record u args now t = f now t) \<and> column (snd (g d)) = column (f (clock e) d)))"
  shows "journals u (on_store g k)"
proof -
  have "journaled_step u s (snd (on_store g k s))" if s: "timeless (db s)" "aof s \<noteq> None" for s
  proof -
    obtain a where a: "aof s = Some a" using s(2) by blast
    have d: "timeless (snd (g (db s)))" using eff [OF s(1)] by blast
    consider (same) "column (snd (g (db s))) = column (db s)" "journals u (k (fst (g (db s))))"
      | (rec) args f h where "\<And>s'. aof s' \<noteq> None \<Longrightarrow> snd (k (fst (g (db s))) s') = snd (h (snd (append_log e args s')))" "journals u h" "loggable args" "durable_op f"
          "\<And>now t. replay_record u args now t = f now t" "column (snd (g (db s))) = column (f (clock e) (db s))"
      using eff [OF s(1)] by blast
    then show ?thesis
    proof cases
      case same
      show ?thesis unfolding on_store_def split_def
        by (intro journals_then [OF _ same(2)] journaled_step_same) (simp_all add: d same a)
    next
      case rec
      let ?s = "s\<lparr>db := snd (g (db s)), aof := Some (snd (AOF_Append io_ok args (clock e) a))\<rparr>"
      have "explains u [args] (db s) (snd (g (db s)))" by (rule explains_one [OF rec(4,3,5) s(1) d rec(6)])
      then have "journaled_step u s ?s"
        unfolding journaled_step_def using a by (auto simp: append_file log_lines_def intro!: exI [of _ "[args]"])
      then have "journaled_step u s (snd (h ?s))" by (rule journals_then [OF _ rec(2)])
      moreover have "snd (on_store g k s) = snd (h ?s)"
        using rec(1) [of "s\<lparr>db := snd (g (db s))\<rparr>"] append_log_ok [OF e, of "s\<lparr>db := snd (g (db s))\<rparr>" a args] a by (simp add: on_store_def split_def)
      ultimately show ?thesis by simp
    qed
  qed
  then show ?thesis by (simp add: journals_def)
qed

lemma journals_log_change:
  assumes "sound_disk e" "loggable args" "durable_op f" "\<And>now t. replay_record u args now t = f now t" "journals u h"
  shows "journals u (logging e args (change (f (clock e)) h))"
proof -
  have "change (f (clock e)) h = on_store (\<lambda>d. ((), f (clock e) d)) (\<lambda>_. h)" by (simp add: fun_eq_iff change_def on_store_def)
  then show ?thesis using journals_log_first [OF assms(1-4), of "\<lambda>d. ((), f (clock e) d)" "\<lambda>_. h"] assms(5) by simp
qed

lemma logging_appends:
  assumes "sound_disk e" "aof s \<noteq> None"
  shows "snd (logging e args h s) = snd (h (snd (append_log e args s)))" "snd (logged e args h s) = snd (h (snd (append_log e args s)))"
  using assms append_log_ok [OF assms(1), of s] by (auto simp: logging_def logged_def)

section \<open>The commands\<close>

lemma command_names:
  "ToUpper ''SETABS'' = ''SETABS''" "ToUpper ''MSETABS'' = ''MSETABS''" "ToUpper ''HSET'' = ''HSET''" "ToUpper ''DEL'' = ''DEL''"
  by code_simp+

lemma Sscan_0: "Sscan_int ''0'' = 0"
proof -
  have "space_len ''0'' = 0" by code_simp
  then have "skip_space ''0'' = ''0''" by (subst skip_space.simps) simp
  moreover have "drop_sign ''0'' = ''0''" by code_simp
  moreover have "scan_number ''0'' = Some ''0''" by code_simp
  moreover have "ParseUint_0 ''0'' = Some 0" by (simp add: ParseUint_0_def)
  ultimately show ?thesis by (simp add: Sscan_int_def ParseInt_0_def)
qed

lemma abs_time_0 [simp]: "abs_time ''0'' = zeroTime"
  by (simp add: abs_time_def Sscan_0)

lemma replay_setabs: "replay_record u [''SETABS'', key, v, ''0''] now t = Store_SetAbsolute key v zeroTime now t"
  by (simp add: replay_record_def command_names)

lemma set_journals:
  assumes "sound_disk e" "length args = 3" "loggable [''SETABS'', args ! 1, args ! 2, ''0'']"
  shows "journals u (Server_set e args)"
  using assms setabs.durable_op_axioms
  by (auto simp: Server_set_def Let_def setabs_record_def replay_setabs intro!: journal_rules journals_log_change)

lemma string_over_nothing:
  assumes "\<And>x. \<not> col_holds c x" "cExp c = None"
  shows "c\<lparr>cKV := Some v\<rparr> = string_column v None c"
proof -
  have "cHash c = None" "cList c = None" "cSet c = None" "cZSet c = None" "cStream c = None" "cHll c = None"
    using assms(1) by (metis col_holds.simps)+
  then show ?thesis using assms(2) by (cases c) (simp add: string_column_def)
qed

lemma setnx_effect:
  assumes "timeless d" "\<not> existsRLocked key now d"
  shows "column (snd (Store_SetNX key v 0 now d)) = column (Store_SetAbsolute key v zeroTime now d)"
proof
  fix j
  show "column (snd (Store_SetNX key v 0 now d)) j = column (Store_SetAbsolute key v zeroTime now d) j"
  proof (cases "j = key")
    case False
    then show ?thesis using tracked_frame [OF SetNX_tracked] tracked_frame [OF SetAbsolute_tracked] by simp
  next
    case True
    have "\<not> delayed key now d" using timeless_calm [OF assms(1)] by (simp add: calm_def delayed_def)
    then have "\<not> col_holds (column d key) x" for x using assms(2) by (simp add: exists_live timeless_simps [OF assms(1)])
    then have "(column d key)\<lparr>cKV := Some v\<rparr> = string_column v None (column d key)"
      by (rule string_over_nothing) (rule timeless_simps(4) [OF assms(1)])
    then show ?thesis using True assms(2) by (simp add: SetNX_column SetAbsolute_column IsZero_def timeless_simps [OF assms(1)])
  qed
qed

lemma SetNX_timeless:
  assumes "timeless d"
  shows "timeless (snd (Store_SetNX key v 0 now d))"
proof (cases "existsRLocked key now d")
  case True
  then show ?thesis using assms by (simp add: SetNX_eq timeless_simps)
next
  case False
  have "calm (snd (Store_SetNX key v 0 now d))"
    by (rule calm_same [OF timeless_calm [OF assms]]) (auto simp: SetNX_eq Let_def timeless_simps [OF assms])
  moreover have "cExp (column (snd (Store_SetNX key v 0 now d)) k) = None" for k
    using setnx_effect [OF assms False] setabs.stays [OF assms] by (simp add: timeless_def)
  moreover have "\<not> delayed key now d" using timeless_calm [OF assms] by (simp add: calm_def delayed_def)
  then have "store_wf (snd (Store_SetNX key v 0 now d))"
    by (intro store_wf_step [OF timeless_wf [OF assms] SetNX_tracked]) (use SetNX_slot [OF timeless_wf [OF assms]] in auto)
  ultimately show ?thesis by (simp add: timeless_def)
qed

lemma setnx_journals:
  assumes "sound_disk e" "loggable [''SETABS'', key, v, ''0'']" "journals u h" "journals u g"
  shows "journals u (on_store (Store_SetNX key v 0 (clock e)) (\<lambda>ok. if ok then logged e [''SETABS'', key, v, ''0''] h else g))"
proof (rule journals_log_after [OF assms(1)])
  fix d assume d: "timeless d"
  let ?r = "Store_SetNX key v 0 (clock e) d"
  show "timeless (snd ?r) \<and>
      (column (snd ?r) = column d \<and> journals u (if fst ?r then logged e [''SETABS'', key, v, ''0''] h else g) \<or>
       (\<exists>args f h'. (\<forall>s. aof s \<noteq> None \<longrightarrow> snd ((if fst ?r then logged e [''SETABS'', key, v, ''0''] h else g) s) = snd (h' (snd (append_log e args s)))) \<and>
          journals u h' \<and> loggable args \<and> durable_op f \<and> (\<forall>now t. replay_record u args now t = f now t) \<and> column (snd ?r) = column (f (clock e) d)))"
  proof (cases "existsRLocked key (clock e) d")
    case True
    then show ?thesis using d assms(4) by (simp add: SetNX_eq timeless_simps)
  next
    case False
    then have "fst ?r" by (simp add: SetNX_eq)
    then show ?thesis
      using SetNX_timeless [OF d] setnx_effect [OF d False] assms(2,3) logging_appends(2) [OF assms(1)]
        setabs.durable_op_axioms [of key v] replay_setabs [of u key v]
      by (intro conjI disjI2 exI [of _ "[''SETABS'', key, v, ''0'']"] exI [of _ "Store_SetAbsolute key v zeroTime"] exI [of _ h]) auto
  qed
qed

lemma triples_of_zeros: "triples_of (concat (map (\<lambda>(k, v). [k, v, ''0'']) ps)) = map (\<lambda>(k, v). (k, v, ''0'')) ps"
  by (induction ps) auto

lemma mset_journals:
  assumes "sound_disk e" "loggable (''MSETABS'' # concat (map (\<lambda>(k, v). [k, v, ''0'']) (pairs_of (drop 1 args))))"
  shows "journals u (Server_mset e args)"
proof (cases "length args < 3 \<or> even (length args)")
  case True
  then show ?thesis by (auto simp: Server_mset_def intro: journal_rules)
next
  case False
  define ps where "ps = pairs_of (drop 1 args)"
  have "pairs_of (drop 1 args) \<noteq> []" using False by (cases args; cases "tl args"; cases "tl (tl args)") auto
  then have n: "0 < length ps" by (simp add: ps_def)
  have len: "length (concat (map (\<lambda>(k, v). [k, v, ''0'']) ps)) = 3 * length ps" by (induction ps) auto
  define f where "f = (\<lambda>now. fold (\<lambda>(k, v). Store_SetAbsolute k v zeroTime now) ps)"
  have "durable_op (\<lambda>now. fold (\<lambda>p. (\<lambda>(k, v). Store_SetAbsolute k v zeroTime) p now) ps)"
    by (rule durable_op_fold) (auto intro: setabs.durable_op_axioms)
  then have f: "durable_op f" by (simp add: f_def split_def)
  have "replay_record u (''MSETABS'' # concat (map (\<lambda>(k, v). [k, v, ''0'']) ps)) now t = f now t" for now t
    using n len by (auto simp: replay_record_def command_names triples_of_zeros [unfolded split_def] f_def fold_map comp_def split_def Suc_le_eq)
  then have "journals u (logging e (''MSETABS'' # concat (map (\<lambda>(k, v). [k, v, ''0'']) ps)) (change (f (clock e)) (answer OK)))"
    using assms by (intro journals_log_change f journals_answer) (simp_all add: ps_def)
  then show ?thesis using False by (simp add: Server_mset_def Let_def ps_def f_def journals_owning)
qed

text \<open>The handlers that log their arguments and apply one operation.\<close>

lemma replay_args:
  assumes "ToUpper (args ! 0) = cmd"
  shows "cmd = ''DEL'' \<Longrightarrow> 1 < length args \<Longrightarrow> replay_record u args now t = snd (Store_Del (drop 1 args) now t)"
    and "cmd = ''INCR'' \<Longrightarrow> length args = 2 \<Longrightarrow> replay_record u args now t = snd (Store_Incr (args ! 1) now t)"
    and "cmd = ''DECR'' \<Longrightarrow> length args = 2 \<Longrightarrow> replay_record u args now t = snd (Store_IncrBy (args ! 1) (- 1) now t)"
    and "cmd = ''APPEND'' \<Longrightarrow> length args = 3 \<Longrightarrow> replay_record u args now t = snd (Store_Append (args ! 1) (args ! 2) now t)"
    and "cmd = ''HDEL'' \<Longrightarrow> 2 < length args \<Longrightarrow> replay_record u args now t = snd (Store_HDel (args ! 1) (drop 2 args) now t)"
    and "cmd = ''LPUSH'' \<Longrightarrow> 2 < length args \<Longrightarrow> replay_record u args now t = snd (Store_LPush (args ! 1) (drop 2 args) now t)"
    and "cmd = ''RPUSH'' \<Longrightarrow> 2 < length args \<Longrightarrow> replay_record u args now t = snd (Store_RPush (args ! 1) (drop 2 args) now t)"
    and "cmd = ''LPOP'' \<Longrightarrow> length args = 2 \<Longrightarrow> replay_record u args now t = snd (Store_LPop (args ! 1) now t)"
    and "cmd = ''RPOP'' \<Longrightarrow> length args = 2 \<Longrightarrow> replay_record u args now t = snd (Store_RPop (args ! 1) now t)"
    and "cmd = ''SADD'' \<Longrightarrow> 2 < length args \<Longrightarrow> replay_record u args now t = snd (Store_SAdd (args ! 1) (drop 2 args) now t)"
    and "cmd = ''SREM'' \<Longrightarrow> 2 < length args \<Longrightarrow> replay_record u args now t = snd (Store_SRem (args ! 1) (drop 2 args) now t)"
  using assms by (simp_all add: replay_record_def replay_collections_def replay_counters_def)

lemma concat_pairs: "even (length xs) \<Longrightarrow> concat (map (\<lambda>(f, v). [f, v]) (pairs_of xs)) = xs"
  by (induction xs rule: pairs_of.induct) auto

lemma replay_hset:
  assumes "4 \<le> length args" "even (length args)"
  shows "replay_record u (''HSET'' # drop 1 args) now t =
    snd (Store_HSet (args ! 1) (map (\<lambda>(f, v). \<lparr>Field = f, FieldValue = v\<rparr>) (pairs_of (drop 2 args))) now t)"
  using assms by (cases args) (auto simp: replay_record_def replay_collections_def command_names Let_def)

lemma hset_journals:
  assumes "sound_disk e" "loggable (''HSET'' # drop 1 args)"
  shows "journals u (Server_hset e args)"
proof (cases "length args < 4 \<or> odd (length args)")
  case True
  then show ?thesis by (auto simp: Server_hset_def intro: journal_rules)
next
  case False
  then have r: "''HSET'' # args ! 1 # concat (map (\<lambda>(f, v). [f, v]) (pairs_of (drop 2 args))) = ''HSET'' # drop 1 args"
    using Cons_nth_drop_Suc [of 1 args] by (simp add: concat_pairs numeral_2_eq_2)
  have "journals u (logging e (''HSET'' # drop 1 args) (on_store
      (Store_HSet (args ! 1) (map (\<lambda>(f, v). \<lparr>Field = f, FieldValue = v\<rparr>) (pairs_of (drop 2 args))) (clock e)) (attempt (\<lambda>n. answer (Writer_Int (int n))))))"
    by (rule journals_log_first [OF assms hset.durable_op_axioms replay_hset]) (use False in \<open>auto intro: journal_rules\<close>)
  then show ?thesis using False unfolding Server_hset_def Let_def r by (auto intro!: journal_rules)
qed

lemma args_journals:
  assumes e: "sound_disk e" and args: "loggable args" and cmd: "ToUpper (args ! 0) = cmd"
  shows "cmd = ''HDEL'' \<Longrightarrow> journals u (Server_hdel e args)"
    and "cmd = ''LPUSH'' \<Longrightarrow> journals u (Server_listPush e True args)"
    and "cmd = ''RPUSH'' \<Longrightarrow> journals u (Server_listPush e False args)"
    and "cmd = ''LPOP'' \<Longrightarrow> journals u (Server_listPop e True args)"
    and "cmd = ''RPOP'' \<Longrightarrow> journals u (Server_listPop e False args)"
    and "cmd = ''SADD'' \<Longrightarrow> journals u (Server_sadd e args)"
    and "cmd = ''SREM'' \<Longrightarrow> journals u (Server_srem e args)"
proof -
  note run = journals_log_first [OF e args]
  note def = Server_hdel_def Server_listPush_def Server_listPop_def Server_sadd_def Server_srem_def
  note ops = Store_LPush_def Store_RPush_def Store_LPop_def Store_RPop_def
  show "cmd = ''HDEL'' \<Longrightarrow> journals u (Server_hdel e args)"
    unfolding def by (intro journal_rules run [OF hdel.durable_op_axioms replay_args(5) [OF cmd]]) auto
  show "cmd = ''LPUSH'' \<Longrightarrow> journals u (Server_listPush e True args)"
    unfolding def by (intro journal_rules run [OF push.durable_op_axioms replay_args(6) [OF cmd, unfolded ops]]) (auto simp: ops)
  show "cmd = ''RPUSH'' \<Longrightarrow> journals u (Server_listPush e False args)"
    unfolding def by (intro journal_rules run [OF push.durable_op_axioms replay_args(7) [OF cmd, unfolded ops]]) (auto simp: ops)
  show "cmd = ''LPOP'' \<Longrightarrow> journals u (Server_listPop e True args)"
    unfolding def by (intro journal_rules run [OF pop.durable_op_axioms replay_args(8) [OF cmd, unfolded ops]]) (auto simp: ops)
  show "cmd = ''RPOP'' \<Longrightarrow> journals u (Server_listPop e False args)"
    unfolding def by (intro journal_rules run [OF pop.durable_op_axioms replay_args(9) [OF cmd, unfolded ops]]) (auto simp: ops)
  show "cmd = ''SADD'' \<Longrightarrow> journals u (Server_sadd e args)"
    unfolding def by (intro journal_rules run [OF sadd.durable_op_axioms replay_args(10) [OF cmd]]) auto
  show "cmd = ''SREM'' \<Longrightarrow> journals u (Server_srem e args)"
    unfolding def by (intro journal_rules run [OF srem.durable_op_axioms replay_args(11) [OF cmd]]) auto
qed

lemma getdel_journals:
  assumes "sound_disk e" "loggable [''DEL'', key]"
  shows "journals u (on_store (Store_GetDel key (clock e)) (\<lambda>v. case v of None \<Rightarrow> answer Writer_Null | Some x \<Rightarrow> logging e [''DEL'', key] (answer (Writer_Bulk x))))"
    (is "journals u (on_store ?g ?k)")
proof (rule journals_log_after [OF assms(1)])
  fix d assume d: "timeless d"
  show "timeless (snd (?g d)) \<and> (column (snd (?g d)) = column d \<and> journals u (?k (fst (?g d))) \<or>
      (\<exists>args f h. (\<forall>s. aof s \<noteq> None \<longrightarrow> snd (?k (fst (?g d)) s) = snd (h (snd (append_log e args s)))) \<and> journals u h \<and> loggable args \<and>
        durable_op f \<and> (\<forall>now t. replay_record u args now t = f now t) \<and> column (snd (?g d)) = column (f (clock e) d)))"
  proof (cases "fmlookup (kv d) key")
    case None
    then have "?g d = (None, d)" by (simp add: Store_GetDel_def locked_eqs timeless_fresh [OF d] timeless_simps [OF d])
    then show ?thesis using d journals_answer by simp
  next
    case (Some v)
    have "col_holds (column d key) KString" using Some by (simp add: column_def)
    moreover have "\<not> delayed key (clock e) d" using timeless_calm [OF d] by (simp add: calm_def delayed_def)
    ultimately have "existsRLocked key (clock e) d" using exists_live timeless_simps(2) [OF d] by metis
    then have del: "snd (Store_Del [key] (clock e) d) = deleteKeyLocked key (clock e) d" by (simp add: Store_Del_def del_loop_Cons)
    have g: "?g d = (Some v, deleteKeyLocked key (clock e) d)"
      using Some by (simp add: Store_GetDel_def locked_eqs timeless_fresh [OF d] timeless_simps [OF d])
    show ?thesis
      unfolding g fst_conv snd_conv option.case del [symmetric]
      using del.stays [OF d] logging_appends(1) [OF assms(1)] journals_answer assms(2) del.durable_op_axioms [of "[key]"]
        replay_args(1) [of "[''DEL'', key]", OF _ refl] command_names(4)
      by (intro conjI disjI2 exI [of _ "[''DEL'', key]"] exI [of _ "\<lambda>now s. snd (Store_Del [key] now s)"] exI [of _ "answer (Writer_Bulk v)"]) auto
  qed
qed

lemma append_journals:
  assumes "sound_disk e" "loggable [''APPEND'', key, v]"
  shows "journals u (on_store (Store_Append key v (clock e)) (attempt (\<lambda>n. logging e [''APPEND'', key, v] (answer (Writer_Int (int n))))))"
    (is "journals u (on_store ?g ?k)")
proof (rule journals_log_after [OF assms(1)])
  fix d assume d: "timeless d"
  show "timeless (snd (?g d)) \<and> (column (snd (?g d)) = column d \<and> journals u (?k (fst (?g d))) \<or>
      (\<exists>args f h. (\<forall>s. aof s \<noteq> None \<longrightarrow> snd (?k (fst (?g d)) s) = snd (h (snd (append_log e args s)))) \<and> journals u h \<and> loggable args \<and>
        durable_op f \<and> (\<forall>now t. replay_record u args now t = f now t) \<and> column (snd (?g d)) = column (f (clock e) d)))"
  proof (cases "fst (?g d)")
    case (Inl err)
    have "snd (?g d) = d" using Inl by (auto simp: Store_Append_def locked_eqs Let_def timeless_simps [OF d] split: if_splits)
    moreover have "journals u (?k (Inl err))" by (rule journals_attempt) simp
    ultimately show ?thesis using d Inl by simp
  next
    case (Inr n)
    have up: "ToUpper ''APPEND'' = ''APPEND''" by code_simp
    have "snd (?k (Inr n) s) = snd (answer (Writer_Int (int n)) (snd (append_log e [''APPEND'', key, v] s)))" if "aof s \<noteq> None" for s
      using logging_appends(1) [OF assms(1) that] by (simp add: attempt_def)
    then show ?thesis
      using append.stays [OF d] Inr journals_answer assms(2) append.durable_op_axioms [of key v]
        replay_args(4) [of "[''APPEND'', key, v]", OF _ refl] up
      by (intro conjI disjI2 exI [of _ "[''APPEND'', key, v]"] exI [of _ "\<lambda>now s. snd (Store_Append key v now s)"] exI [of _ "answer (Writer_Int (int n))"]) auto
  qed
qed

lemma del_journals:
  assumes "sound_disk e" "loggable args" "ToUpper (args ! 0) = ''DEL''" "2 \<le> length args"
  shows "journals u (logging e args (on_store (Store_Del (drop 1 args) (clock e)) (\<lambda>n. answer (Writer_Int (int n)))))"
  by (rule journals_log_first [OF assms(1,2) del.durable_op_axioms replay_args(1) [OF assms(3)]]) (use assms(4) in \<open>auto intro: journal_rules\<close>)

lemma incr_journals:
  assumes "sound_disk e" "loggable args" "length args = 2"
  shows "ToUpper (args ! 0) = ''INCR'' \<Longrightarrow> journals u (incr_by e args (Store_Incr (args ! 1) (clock e)))"
    and "ToUpper (args ! 0) = ''DECR'' \<Longrightarrow> journals u (incr_by e args (Store_IncrBy (args ! 1) (- 1) (clock e)))"
proof -
  note run = journals_log_first [OF assms(1,2) incrby.durable_op_axioms]
  show "journals u (incr_by e args (Store_Incr (args ! 1) (clock e)))" if "ToUpper (args ! 0) = ''INCR''"
    unfolding incr_by_def by (rule run [of u "args ! 1" 1]) (use replay_args(2) [OF that] assms(3) in \<open>auto simp: Store_Incr_def intro: journal_rules\<close>)
  show "journals u (incr_by e args (Store_IncrBy (args ! 1) (- 1) (clock e)))" if "ToUpper (args ! 0) = ''DECR''"
    unfolding incr_by_def by (rule run [of u "args ! 1" "- 1"]) (use replay_args(3) [OF that] assms(3) in \<open>auto intro: journal_rules\<close>)
qed

lemma get_journals: "(\<And>v. journals u (k v)) \<Longrightarrow> journals u (on_store (Store_Get key now) k)"
proof (rule journals_silent)
  fix d assume d: "timeless d"
  have c: "column (snd (Store_Get key now d)) = column d" using tracked_frame [OF Get_tracked] by blast
  have "calm (snd (Store_Get key now d))"
    by (rule calm_same [OF timeless_calm [OF d]]) (auto simp: Store_Get_def record_access_def split: option.split)
  moreover have "versions_ok (snd (Store_Get key now d))" by (rule timeless_versions [OF d Get_tracked])
  ultimately show "timeless (snd (Store_Get key now d)) \<and> column (snd (Store_Get key now d)) = column d"
    using d c by (simp add: timeless_def store_wf_def)
qed

section \<open>Commands covered by the log\<close>

definition reading_commands :: "string list" where
  "reading_commands =
     [''PING'', ''ECHO'', ''GET'', ''MGET'', ''EXISTS'', ''TYPE'', ''KEYS'', ''HGET'', ''HGETALL'', ''LRANGE'', ''SMEMBERS'', ''SISMEMBER'', ''SCARD'',
      ''STRLEN'', ''LLEN'', ''HLEN'', ''HEXISTS'', ''SINTER'', ''SUNION'', ''SDIFF'']"

definition logged_commands :: "string list" where
  "logged_commands =
     [''SET'', ''SETNX'', ''MSET'', ''DEL'', ''INCR'', ''DECR'', ''APPEND'', ''GETDEL'', ''HSET'', ''HDEL'', ''LPUSH'', ''RPUSH'', ''LPOP'', ''RPOP'',
      ''SADD'', ''SREM'']"

text \<open>The record that a command of the second list appends, and the condition that it can be read back; \<open>SET\<close> without options.\<close>

definition record_of :: "string list \<Rightarrow> string list" where
  "record_of args =
     (let cmd = ToUpper (args ! 0) in
      if cmd = ''SET'' \<or> cmd = ''SETNX'' then [''SETABS'', args ! 1, args ! 2, ''0'']
      else if cmd = ''MSET'' then ''MSETABS'' # concat (map (\<lambda>(k, v). [k, v, ''0'']) (pairs_of (drop 1 args)))
      else if cmd = ''HSET'' then ''HSET'' # drop 1 args
      else if cmd = ''APPEND'' then [''APPEND'', args ! 1, args ! 2]
      else if cmd = ''GETDEL'' then [''DEL'', args ! 1]
      else args)"

definition journaled :: "string list \<Rightarrow> bool" where
  "journaled args \<longleftrightarrow>
     (let cmd = ToUpper (args ! 0) in
      cmd \<in> set reading_commands \<or> cmd \<in> set logged_commands \<and> loggable (record_of args) \<and> (cmd = ''SET'' \<longrightarrow> length args = 3))"

lemmas journaled_eqs = journaled_def reading_commands_def logged_commands_def record_of_def Let_def

lemma strings_journal:
  assumes "sound_disk e" "journaled args" "exec_strings e (ToUpper (args ! 0)) args = Some h"
  shows "journals u h"
  using assms(3,2)
  by (auto simp: exec_strings_def journaled_eqs simp del: One_nat_def split: if_split_asm
      intro!: journal_rules get_journals setnx_journals [OF assms(1)] mset_journals [OF assms(1)] set_journals [OF assms(1)])

lemma counters_journal:
  assumes "sound_disk e" "journaled args" "exec_counters e (ToUpper (args ! 0)) args = Some h"
  shows "journals u h"
  using assms(3,2)
  by (auto simp: exec_counters_def journaled_eqs simp del: One_nat_def split: if_split_asm
      intro!: journal_rules get_journals del_journals [OF assms(1)] incr_journals [OF assms(1)])

lemma hashes_journal:
  assumes "sound_disk e" "journaled args" "exec_hashes e (ToUpper (args ! 0)) args = Some h"
  shows "journals u h"
  using assms(3,2)
  by (auto simp: exec_hashes_def journaled_eqs simp del: One_nat_def split: if_split_asm
      intro!: journal_rules hset_journals [OF assms(1)] args_journals [OF assms(1)])

lemma lists_journal:
  assumes "sound_disk e" "journaled args" "exec_lists e (ToUpper (args ! 0)) args = Some h"
  shows "journals u h"
  using assms(3,2)
  by (auto simp: exec_lists_def journaled_eqs Server_lrange_def simp del: One_nat_def split: if_split_asm intro!: journal_rules args_journals [OF assms(1)])

lemma sets_journal:
  assumes "sound_disk e" "journaled args" "exec_sets e (ToUpper (args ! 0)) args = Some h"
  shows "journals u h"
  using assms(3,2)
  by (auto simp: exec_sets_def journaled_eqs simp del: One_nat_def split: if_split_asm intro!: journal_rules args_journals [OF assms(1)])

lemma bytes_journal:
  assumes "sound_disk e" "journaled args" "exec_bytes e (ToUpper (args ! 0)) args = Some h"
  shows "journals u h"
  using assms(3,2)
  by (auto simp: exec_bytes_def journaled_eqs simp del: One_nat_def split: if_split_asm
      intro!: journal_rules getdel_journals [OF assms(1)] append_journals [OF assms(1)])

lemma sizes_journal:
  assumes "exec_sizes e (ToUpper (args ! 0)) args = Some h"
  shows "journals u h"
  using assms by (auto simp: exec_sizes_def split: if_split_asm intro!: journal_rules)

text \<open>The dispatcher takes the first group that knows the command; seven groups hold the commands that are considered here.\<close>

lemma first_handler_early: "\<exists>x \<in> set xs. x \<noteq> None \<Longrightarrow> Some (first_handler (xs @ ys) h) \<in> set xs"
proof (induction xs)
  case (Cons x xs)
  then show ?case by (cases x) auto
qed simp

lemma inside_groups:
  "cmd \<in> {''PING'', ''ECHO'', ''GET'', ''MGET'', ''EXISTS'', ''TYPE'', ''SET'', ''SETNX'', ''MSET'', ''SETEX'', ''PSETEX''} \<Longrightarrow> exec_strings e cmd args \<noteq> None"
  "cmd \<in> {''KEYS'', ''DEL'', ''INCR'', ''DECR'', ''INCRBY'', ''DECRBY''} \<Longrightarrow> exec_counters e cmd args \<noteq> None"
  "cmd \<in> {''HGET'', ''HGETALL'', ''HSET'', ''HDEL''} \<Longrightarrow> exec_hashes e cmd args \<noteq> None"
  "cmd \<in> {''LRANGE'', ''LPUSH'', ''RPUSH'', ''LPOP'', ''RPOP''} \<Longrightarrow> exec_lists e cmd args \<noteq> None"
  "cmd \<in> {''SMEMBERS'', ''SISMEMBER'', ''SCARD'', ''SADD'', ''SREM''} \<Longrightarrow> exec_sets e cmd args \<noteq> None"
  "cmd \<in> {''STRLEN'', ''APPEND'', ''GETDEL''} \<Longrightarrow> exec_bytes e cmd args \<noteq> None"
  "cmd \<in> {''LLEN'', ''HLEN'', ''HEXISTS'', ''SINTER'', ''SUNION'', ''SDIFF''} \<Longrightarrow> exec_sizes e cmd args \<noteq> None"
  by (auto simp: exec_strings_def exec_counters_def exec_hashes_def exec_lists_def exec_sets_def exec_bytes_def exec_sizes_def)

lemma outside_groups:
  "cmd \<notin> {''EXPIRE'', ''PEXPIRE'', ''TTL'', ''PTTL''} \<Longrightarrow> exec_deadlines e cmd args = None"
  "cmd \<notin> {''ZADD'', ''ZRANGE'', ''ZREM'', ''ZSCORE'', ''ZCARD''} \<Longrightarrow> exec_zsets e cmd args = None"
  "cmd \<notin> {''PERSIST'', ''PEXPIREAT'', ''DBSIZE'', ''RENAME'', ''FLUSHDB'', ''FLUSHALL'', ''RANDOMKEY'', ''OBJECT'', ''CONFIG'', ''WAIT''} \<Longrightarrow>
     exec_keyspace e cmd args = None"
  "cmd \<notin> {''SETBIT'', ''GETBIT'', ''BITCOUNT'', ''BITOP'', ''BITPOS''} \<Longrightarrow> exec_bits e cmd args = None"
  by (simp_all add: exec_deadlines_def exec_zsets_def exec_keyspace_def exec_bits_def)

definition early_commands :: "string set" where
  "early_commands =
    {''PING'', ''ECHO'', ''GET'', ''MGET'', ''EXISTS'', ''TYPE'', ''SET'', ''SETNX'', ''MSET'', ''SETEX'', ''PSETEX''} \<union>
    {''KEYS'', ''DEL'', ''INCR'', ''DECR'', ''INCRBY'', ''DECRBY''} \<union>
    {''HGET'', ''HGETALL'', ''HSET'', ''HDEL''} \<union> {''LRANGE'', ''LPUSH'', ''RPUSH'', ''LPOP'', ''RPOP''} \<union>
    {''SMEMBERS'', ''SISMEMBER'', ''SCARD'', ''SADD'', ''SREM''} \<union> {''STRLEN'', ''APPEND'', ''GETDEL''} \<union>
    {''LLEN'', ''HLEN'', ''HEXISTS'', ''SINTER'', ''SUNION'', ''SDIFF''}"

lemma other_groups:
  assumes "cmd \<in> early_commands"
  shows "exec_deadlines e cmd args = None" "exec_zsets e cmd args = None" "exec_keyspace e cmd args = None" "exec_bits e cmd args = None"
  by (rule outside_groups; use assms in \<open>auto simp: early_commands_def\<close>)+

lemma exec_early:
  assumes cmd: "ToUpper (args ! 0) \<in> early_commands"
    and "\<And>h. exec_strings e (ToUpper (args ! 0)) args = Some h \<Longrightarrow> P h" "\<And>h. exec_counters e (ToUpper (args ! 0)) args = Some h \<Longrightarrow> P h"
    and "\<And>h. exec_hashes e (ToUpper (args ! 0)) args = Some h \<Longrightarrow> P h" "\<And>h. exec_lists e (ToUpper (args ! 0)) args = Some h \<Longrightarrow> P h"
    and "\<And>h. exec_sets e (ToUpper (args ! 0)) args = Some h \<Longrightarrow> P h" "\<And>h. exec_bytes e (ToUpper (args ! 0)) args = Some h \<Longrightarrow> P h"
    and "\<And>h. exec_sizes e (ToUpper (args ! 0)) args = Some h \<Longrightarrow> P h"
  shows "P (exec other e args)"
proof -
  let ?c = "ToUpper (args ! 0)"
  let ?early = "[exec_strings e ?c args, exec_counters e ?c args, exec_deadlines e ?c args, exec_hashes e ?c args, exec_lists e ?c args,
     exec_sets e ?c args, exec_zsets e ?c args, exec_keyspace e ?c args, exec_bytes e ?c args, exec_bits e ?c args, exec_sizes e ?c args]"
  have "exec_strings e ?c args \<noteq> None \<or> exec_counters e ?c args \<noteq> None \<or> exec_hashes e ?c args \<noteq> None \<or> exec_lists e ?c args \<noteq> None \<or>
      exec_sets e ?c args \<noteq> None \<or> exec_bytes e ?c args \<noteq> None \<or> exec_sizes e ?c args \<noteq> None"
    using cmd inside_groups [of ?c e args] unfolding early_commands_def by blast
  then have "\<exists>x \<in> set ?early. x \<noteq> None" by (simp only: list.set bex_simps) blast
  moreover obtain rest where "exec other e args = first_handler (?early @ rest) (other e args)"
    unfolding exec_def Let_def by (simp only: append.simps that)
  ultimately have "Some (exec other e args) \<in> set ?early" using first_handler_early [of ?early] by metis
  then consider "exec_strings e ?c args = Some (exec other e args)" | "exec_counters e ?c args = Some (exec other e args)"
    | "exec_hashes e ?c args = Some (exec other e args)" | "exec_lists e ?c args = Some (exec other e args)"
    | "exec_sets e ?c args = Some (exec other e args)" | "exec_bytes e ?c args = Some (exec other e args)"
    | "exec_sizes e ?c args = Some (exec other e args)"
    using other_groups [OF cmd, of e args] by (simp only: list.set insert_iff empty_iff option.distinct) metis
  then show ?thesis using assms(2-) by cases blast+
qed

lemma exec_journals:
  assumes "sound_disk e" "journaled args"
  shows "journals u (exec other e args)"
proof (rule exec_early [where P = "journals u"])
  show "ToUpper (args ! 0) \<in> early_commands" using assms(2) by (auto simp: journaled_eqs early_commands_def)
qed (use strings_journal [OF assms] counters_journal [OF assms] hashes_journal [OF assms] lists_journal [OF assms]
      sets_journal [OF assms] bytes_journal [OF assms] sizes_journal in blast)+

section \<open>Recovery\<close>

fun run_commands :: "dispatch \<Rightarrow> (env \<times> string list) list \<Rightarrow> server \<Rightarrow> server" where
  "run_commands other [] s = s"
| "run_commands other ((e, args) # cs) s = run_commands other cs (snd (exec other e args s))"

lemma run_commands_journal:
  assumes "\<forall>(e, args) \<in> set cs. sound_disk e \<and> journaled args" "timeless (db s)" "aof s \<noteq> None"
  shows "journaled_step u s (run_commands other cs s)"
  using assms
proof (induction cs arbitrary: s)
  case Nil
  then show ?case by (simp add: journaled_step_same)
next
  case (Cons c cs)
  obtain e args where c: "c = (e, args)" by fastforce
  have step: "journaled_step u s (snd (exec other e args s))"
    using Cons.prems exec_journals [of e args u other] unfolding c journals_def by simp
  then show ?case using Cons.IH [of "snd (exec other e args s)"] Cons.prems journaled_step_ready [OF step] journaled_step_trans [OF step]
    by (simp add: c)
qed

lemma log_records_lines: "list_all loggable rs \<Longrightarrow> log_records (log_lines rs) = (rs, None)"
proof -
  assume rs: "list_all loggable rs"
  let ?a = "\<lparr>aof_file = [], synced = 0, fsync = FsyncAlways, lastSync = 0\<rparr>"
  have "aof_file (appends (map (\<lambda>r. (r, 0)) rs) ?a) = log_lines rs" by (simp add: appends_file log_lines_def comp_def)
  moreover have "log_records (aof_file (appends (map (\<lambda>r. (r, 0)) rs) ?a)) = (map (\<lambda>(args, now). map (mangle False) args) (map (\<lambda>r. (r, 0 :: gotime)) rs), None)"
    by (rule log_records_appends) (use rs in \<open>auto simp: loggable_def list_all_iff\<close>)
  moreover have "map (mangle False) r = r" if "r \<in> set rs" for r
    using rs that by (auto simp: loggable_def list_all_iff mangle_plain intro!: map_idI)
  then have "map (\<lambda>(args, now). map (mangle False) args) (map (\<lambda>r. (r, 0 :: gotime)) rs) = rs"
    by (simp add: comp_def) (simp add: map_idI)
  ultimately show ?thesis by simp
qed

lemma ReplayAOF_lines:
  assumes "list_all loggable rs" "path \<noteq> []"
  shows "ReplayAOF u path (Some (log_lines rs)) later s = (None, replay_all u rs later s)"
proof -
  have "fold (\<lambda>args. if args = [] then id else replay_record u args later) rs s = replay_all u rs later s"
    unfolding replay_all_def using assms(1) by (intro fold_cong refl) (auto simp: loggable_def list_all_iff fun_eq_iff)
  then show ?thesis using assms by (simp add: ReplayAOF_def log_records_lines)
qed

text \<open>C8: A server that ran any sequence of the covered commands on an empty store, with a log on a disk that works, leaves a log from
  which a replay on an empty store, at any later moment, rebuilds exactly the data: every key has the same value of the same kind.
  The commands are those of \<open>reading_commands\<close> and \<open>logged_commands\<close>, with arguments whose record can be read back.\<close>

theorem replay_restores_data:
  assumes "\<forall>(e, args) \<in> set cs. sound_disk e \<and> journaled args" "path \<noteq> []" "db s = Store_New" "aof s = Some a" "aof_file a = []"
  shows "\<exists>a' t. aof (run_commands other cs s) = Some a' \<and> ReplayAOF u path (Some (aof_file a')) later Store_New = (None, t) \<and>
    column t = column (db (run_commands other cs s))"
proof -
  have "journaled_step u s (run_commands other cs s)"
    by (rule run_commands_journal [OF assms(1)]) (simp_all add: assms timeless_New)
  then obtain a' rs where a': "aof (run_commands other cs s) = Some a'" "aof_file a' = log_lines rs"
      "explains u rs Store_New (db (run_commands other cs s))"
    using assms by (auto simp: journaled_step_def)
  have rs: "list_all loggable rs" using a'(3) by (simp add: explains_def)
  then have "ReplayAOF u path (Some (aof_file a')) later Store_New = (None, replay_all u rs later Store_New)"
    unfolding a'(2) using assms(2) by (rule ReplayAOF_lines)
  moreover have "column (replay_all u rs later Store_New) = column (db (run_commands other cs s))"
    using a'(3) timeless_New by (simp add: explains_def)
  ultimately show ?thesis using a'(1) by blast
qed

text \<open>A server with an empty store and an empty log, alone in its cluster, and an environment in which nothing fails.\<close>

definition calm_env :: env where
  "calm_env = \<lparr>clock = 1000, disk = (\<lambda>_. io_ok), visit = id, rnd = (\<lambda>_ _. 0), quote = id, sliceStable = insertion_sort, geoSort = insertion_sort,
     math = flat_math, toUint = (\<lambda>_. 0), unmarshal = (\<lambda>_. Inl (Err ''invalid'')), marshal = (\<lambda>_. Inl (Err ''invalid''))\<rparr>"

definition fresh_server :: server where
  "fresh_server = \<lparr>db = Store_New, aof = OpenAOF ''vole.aof'' FsyncAlways [], cluster = NewCluster insertion_sort ''n1'' ''localhost:7001'' [] 0,
     schemas = [], hits = 0, misses = 0\<rparr>"

lemma sound_calm_env: "sound_disk calm_env"
  by (simp add: sound_disk_def calm_env_def)

lemmas loggable_eqs = loggable_def log_line_def line_content_def escape_concat esc_def

theorem replay_restores_data_witness:
  "\<exists>a' t. aof (run_commands (\<lambda>_ _. fail ''unknown command'') [(calm_env, [''SET'', ''a'', ''1'']), (calm_env, [''rpush'', ''l'', ''x'', ''y'']), (calm_env, [''LPOP'', ''l''])] fresh_server) = Some a' \<and>
     ReplayAOF (\<lambda>_. Inl (Err ''invalid'')) ''vole.aof'' (Some (aof_file a')) 5000 Store_New = (None, t) \<and>
     column t = column (db (run_commands (\<lambda>_ _. fail ''unknown command'') [(calm_env, [''SET'', ''a'', ''1'']), (calm_env, [''rpush'', ''l'', ''x'', ''y'']), (calm_env, [''LPOP'', ''l''])] fresh_server))"
proof -
  have up: "ToUpper ''SET'' = ''SET''" "ToUpper ''rpush'' = ''RPUSH''" "ToUpper ''LPOP'' = ''LPOP''" by code_simp+
  have "journaled [''SET'', ''a'', ''1'']" "journaled [''rpush'', ''l'', ''x'', ''y'']" "journaled [''LPOP'', ''l'']"
    by (simp_all add: journaled_eqs up loggable_eqs)
  then show ?thesis
    by (intro replay_restores_data [where a = "\<lparr>aof_file = [], synced = 0, fsync = FsyncAlways, lastSync = zeroTime\<rparr>"])
      (simp_all add: sound_calm_env fresh_server_def OpenAOF_def)
qed

end
