(* ===== verification/Vole_Gaps.thy ===== *)
theory Vole_Gaps
  imports Vole_Recovery
begin

text \<open>What a replay of the log does not restore: numbers that the two parsers read differently, and messages of queues.\<close>

section \<open>Numbers with a leading zero\<close>

lemma parse_010: "ParseInt ''010'' = (10, None)"
  by (simp add: ParseInt_def ParseUint_def is_digit_def digit_val_def maxUint64_def)

lemma format_numbers: "FormatInt 10 = ''10''" "FormatInt 8 = ''8''"
  by code_simp+

lemma Sscan_010: "Sscan_int ''010'' = 8"
proof -
  have "space_len ''010'' = 0" by code_simp
  then have "skip_space ''010'' = ''010''" by (subst skip_space.simps) simp
  moreover have "drop_sign ''010'' = ''010''" by code_simp
  moreover have "scan_number ''010'' = Some ''010''" by code_simp
  moreover have "base_prefix ''010'' = None" "lower_digit CHR ''1'' = Some 1" "lower_digit CHR ''0'' = Some 0" by code_simp+
  then have "ParseUint_0 ''010'' = Some 8" by (simp add: ParseUint_0_def maxUint64_def)
  ultimately show ?thesis by (simp add: Sscan_int_def ParseInt_0_def)
qed

lemma live_New: "live now Store_New key = no_column"
proof -
  have "column Store_New key = no_column" by (simp add: column_def Store_New_def no_column_def)
  then show ?thesis by (simp add: timeless_simps(2) [OF timeless_New])
qed

lemma IncrBy_empty: "column (snd (Store_IncrBy key d now Store_New)) key = no_column\<lparr>cKV := Some (FormatInt (wrap64 d))\<rparr>"
  by (simp add: IncrBy_eq Let_def live_New column_purge)

text \<open>\<open>INCRBY k 010\<close> on an absent key answers and stores 10, because the handler reads decimal numbers; the record in the log is replayed
  by a scanner that takes a leading zero for base 8, so that after a restart the value is 8.\<close>

theorem incrby_replays_octal:
  assumes "sound_disk e" "db s = Store_New" "aof s = Some a" "aof_file a = []" "ensureOwns [key] (cluster s) = None"
    and "loggable [''INCRBY'', key, ''010'']" "path \<noteq> []"
  shows "let s' = snd (exec other e [''INCRBY'', key, ''010''] s) in
    fst (exec other e [''INCRBY'', key, ''010''] s) = Inr (Writer_Int 10) \<and> cKV (column (db s') key) = Some ''10'' \<and>
    (\<exists>a' t. aof s' = Some a' \<and> ReplayAOF u path (Some (aof_file a')) later Store_New = (None, t) \<and> cKV (column t key) = Some ''8'')"
proof -
  let ?args = "[''INCRBY'', key, ''010'']"
  have up: "ToUpper ''INCRBY'' = ''INCRBY''" by code_simp
  have "exec_strings e ''INCRBY'' ?args = None" by (simp add: exec_strings_def)
  moreover have "exec_counters e ''INCRBY'' ?args = Some (owning [key] (with_int ''010'' (\<lambda>delta. incr_by e ?args (Store_IncrBy key delta (clock e)))))"
    by (simp add: exec_counters_def)
  ultimately have x: "exec other e ?args = owning [key] (with_int ''010'' (\<lambda>delta. incr_by e ?args (Store_IncrBy key delta (clock e))))"
    unfolding exec_def Let_def by (simp only: nth_Cons_0 up first_handler.simps)
  define a' where "a' = snd (AOF_Append io_ok ?args (clock e) a)"
  have r: "fst (Store_IncrBy key 10 (clock e) Store_New) = Inr 10" by (simp add: IncrBy_eq Let_def live_New wrap64_def)
  have run: "exec other e ?args s = (Inr (Writer_Int 10), s\<lparr>aof := Some a', db := snd (Store_IncrBy key 10 (clock e) Store_New)\<rparr>)"
    using r by (simp add: x owning_def assms(2,5) with_int_def parse_010 incr_by_def logging_def append_log_ok [OF assms(1,3)] on_store_def
        split_def attempt_def answer_def a'_def)
  have "replay_record u ?args now t = snd (Store_IncrBy key 8 now t)" for now t
    by (simp add: replay_record_def replay_collections_def replay_counters_def up Sscan_010)
  then have "ReplayAOF u path (Some (log_lines [?args])) later Store_New = (None, snd (Store_IncrBy key 8 later Store_New))"
    using assms(6,7) ReplayAOF_lines [of "[?args]"] by (simp add: replay_all_def)
  moreover have "aof_file a' = log_lines [?args]" by (simp add: a'_def append_file assms(4) log_lines_def)
  ultimately show ?thesis unfolding Let_def run by (simp add: IncrBy_empty wrap64_def format_numbers)
qed

lemma fresh_server_owns: "ensureOwns [key] (cluster fresh_server) = None"
proof -
  define c where "c = NewCluster insertion_sort ''n1'' ''localhost:7001'' [] 0"
  have "map NodeID (nodes (NewCluster insertion_sort ''n1'' ''localhost:7001'' [] 0)) = [''n1'']"
    "NodeID (self (NewCluster insertion_sort ''n1'' ''localhost:7001'' [] 0)) = ''n1''" by code_simp+
  then have ids: "map NodeID (nodes c) = [''n1'']" "NodeID (self c) = ''n1''" by (simp_all only: c_def)
  have "NodeID (Cluster_Owner key c) = ''n1''" using ids by (cases "nodes c") (auto simp: Cluster_Owner_def)
  then have "ensureOwns [key] c = None" using ids(2) by (simp add: ensureOwns_def Cluster_SelfOwns_def)
  then show ?thesis by (simp only: c_def fresh_server_def server.simps)
qed

theorem incrby_replays_octal_witness:
  "let s' = snd (exec (\<lambda>_ _. fail ''unknown command'') calm_env [''INCRBY'', ''k'', ''010''] fresh_server) in
   fst (exec (\<lambda>_ _. fail ''unknown command'') calm_env [''INCRBY'', ''k'', ''010''] fresh_server) = Inr (Writer_Int 10) \<and> cKV (column (db s') ''k'') = Some ''10'' \<and>
   (\<exists>a' t. aof s' = Some a' \<and> ReplayAOF (\<lambda>_. Inl (Err ''invalid'')) ''vole.aof'' (Some (aof_file a')) 5000 Store_New = (None, t) \<and> cKV (column t ''k'') = Some ''8'')"
proof (rule incrby_replays_octal [OF sound_calm_env, where a = "\<lparr>aof_file = [], synced = 0, fsync = FsyncAlways, lastSync = zeroTime\<rparr>"])
  show "ensureOwns [''k''] (cluster fresh_server) = None" by (rule fresh_server_owns)
  show "loggable [''INCRBY'', ''k'', ''010'']" by (simp add: loggable_eqs)
qed (simp_all add: fresh_server_def OpenAOF_def)

section \<open>Queues\<close>

definition queue_record :: "string list \<Rightarrow> bool" where
  "queue_record r \<longleftrightarrow> ToUpper (r ! 0) = ''ENQUEUE'' \<and> 3 \<le> length r \<or> ToUpper (r ! 0) = ''QACK'' \<or> ToUpper (r ! 0) = ''QNACK''"

definition enqueues :: "key \<Rightarrow> string list \<Rightarrow> bool" where
  "enqueues name r \<longleftrightarrow> ToUpper (r ! 0) = ''ENQUEUE'' \<and> r ! 1 = name"

lemma Enqueue_queue:
  "queue_of name (snd (Store_Enqueue q body delay now s)) =
     (if name = q then (queue_of q s)\<lparr>QPending := QPending (queue_of q s) @ [\<lparr>MsgID = fst (nextQueueID now s), Body = body,
        CreatedAt = (if 0 < delay then now + delay else now), Retries = 0, MaxRetry = MaxRetries (queue_of q s), AckDeadline = zeroTime\<rparr>]\<rparr>
      else queue_of name s)"
  by (simp add: Store_Enqueue_def queue_of_def nextQueueID_def Let_def)

lemma replay_queue_commands:
  "ToUpper (r ! 0) = ''ENQUEUE'' \<Longrightarrow> 3 \<le> length r \<Longrightarrow> \<exists>d. replay_record u r now t = snd (Store_Enqueue (r ! 1) (r ! 2) d now t)"
  "ToUpper (r ! 0) = ''QACK'' \<Longrightarrow> replay_record u r now t = (if length r = 3 then snd (Store_QAck (r ! 1) (r ! 2) now t) else t)"
  "ToUpper (r ! 0) = ''QNACK'' \<Longrightarrow> replay_record u r now t = (if length r = 3 then snd (Store_QNack (r ! 1) (r ! 2) now t) else t)"
  by (simp_all add: replay_record_def replay_collections_def replay_counters_def replay_streams_def replay_queues_def Let_def) blast?

lemma replay_queue_record:
  assumes "queue_record r" "\<And>q. Processing (queue_of q t) = fmempty"
  shows "Processing (queue_of q (replay_record u r now t)) = fmempty"
    and "map Body (QPending (queue_of q (replay_record u r now t))) = map Body (QPending (queue_of q t)) @ (if enqueues q r then [r ! 2] else [])"
proof -
  have idle: "snd (Store_QAck (r ! 1) (r ! 2) now t) = t" "snd (Store_QNack (r ! 1) (r ! 2) now t) = t"
    using assms(2) [of "r ! 1"] by (auto simp: Store_QAck_def Store_QNack_def queue_of_def split: option.split)
  have "(\<exists>d. replay_record u r now t = snd (Store_Enqueue (r ! 1) (r ! 2) d now t)) \<and> ToUpper (r ! 0) = ''ENQUEUE'' \<or>
      replay_record u r now t = t \<and> ToUpper (r ! 0) \<noteq> ''ENQUEUE''"
    using assms(1) idle replay_queue_commands [of r] by (auto simp: queue_record_def)
  then show "Processing (queue_of q (replay_record u r now t)) = fmempty"
    and "map Body (QPending (queue_of q (replay_record u r now t))) = map Body (QPending (queue_of q t)) @ (if enqueues q r then [r ! 2] else [])"
    using assms(2) by (auto simp: Enqueue_queue enqueues_def)
qed

lemma replay_queue_records:
  assumes "list_all queue_record rs" "\<And>q. Processing (queue_of q t) = fmempty"
  shows "Processing (queue_of q (replay_all u rs now t)) = fmempty \<and>
    map Body (QPending (queue_of q (replay_all u rs now t))) = map Body (QPending (queue_of q t)) @ map (\<lambda>r. r ! 2) (filter (enqueues q) rs)"
  using assms
proof (induction rs arbitrary: t)
  case (Cons r rs)
  show ?case
    using Cons.IH [of "replay_record u r now t"] Cons.prems replay_queue_record [of r t _ u now] by (simp add: replay_all_def)
qed (simp add: replay_all_def)

text \<open>A replay makes every message that was ever enqueued pending again.  The log has no record of a dequeue, so the records of
  acknowledgements and refusals find no message in progress: whatever the server acknowledged before, the queue holds the bodies of all
  its \<open>ENQUEUE\<close> records, in their order.\<close>

theorem replay_requeues_all:
  assumes "list_all loggable rs" "list_all queue_record rs" "path \<noteq> []"
  shows "\<exists>t. ReplayAOF u path (Some (log_lines rs)) later Store_New = (None, t) \<and>
    map Body (QPending (queue_of name t)) = map (\<lambda>r. r ! 2) (filter (enqueues name) rs) \<and> Processing (queue_of name t) = fmempty"
proof -
  have "queue_of q Store_New = NewQueue" for q by (simp add: queue_of_def Store_New_def)
  then show ?thesis
    using replay_queue_records [OF assms(2), of Store_New name u later] by (simp add: ReplayAOF_lines [OF assms(1,3)] NewQueue_def)
qed

theorem replay_requeues_all_witness:
  "\<exists>t. ReplayAOF (\<lambda>_. Inl (Err ''invalid'')) ''vole.aof'' (Some (log_lines [[''ENQUEUE'', ''jobs'', ''pay''], [''QACK'', ''jobs'', ''1-1'']])) 5 Store_New = (None, t) \<and>
     map Body (QPending (queue_of ''jobs'' t)) = [''pay''] \<and> Processing (queue_of ''jobs'' t) = fmempty"
proof -
  have up: "ToUpper ''ENQUEUE'' = ''ENQUEUE''" "ToUpper ''QACK'' = ''QACK''" by code_simp+
  show ?thesis
    using replay_requeues_all [of "[[''ENQUEUE'', ''jobs'', ''pay''], [''QACK'', ''jobs'', ''1-1'']]" "''vole.aof''" "\<lambda>_. Inl (Err ''invalid'')" 5 "''jobs''"]
    by (simp add: loggable_eqs queue_record_def enqueues_def up)
qed

end
