(* ===== verification/Vole_Tracking.thy ===== *)
theory Vole_Tracking
  imports Vole_Gaps
begin

text \<open>
  The contract of the handlers on the store: every operation keeps the store well formed and gives each key that it changes a new
  version.  The types of values survive every sequence of commands, and a transaction is refused when a watched key has changed.
\<close>

section \<open>Operations that keep the store well formed and are seen by WATCH\<close>

locale safe_op =
  fixes f :: "store \<Rightarrow> store"
  assumes wf: "store_wf s \<Longrightarrow> store_wf (f s)"
    and seen: "store_wf s \<Longrightarrow> tracked UNIV s (f s)"

lemma safe_op_key:
  assumes "\<And>s. store_wf s \<Longrightarrow> tracked {key} s (f s)" "\<And>s. store_wf s \<Longrightarrow> slot_ok (column (f s) key)"
  shows "safe_op f"
proof
  fix s assume s: "store_wf s"
  show "store_wf (f s)" by (rule store_wf_step [OF s assms(1) [OF s]]) (use assms(2) [OF s] in auto)
  show "tracked UNIV s (f s)" by (rule tracked_mono [OF assms(1) [OF s]]) simp
qed

lemma safe_op_comp: "safe_op f \<Longrightarrow> safe_op g \<Longrightarrow> safe_op (\<lambda>s. g (f s))"
  unfolding safe_op_def using tracked_trans by blast

lemma safe_op_id: "safe_op (\<lambda>s. s)"
  by unfold_locales (simp_all add: tracked_refl)

lemma safe_op_fold: "(\<And>x. x \<in> set xs \<Longrightarrow> safe_op (f x)) \<Longrightarrow> safe_op (fold f xs)"
proof (induction xs)
  case Nil
  then show ?case using safe_op_id by simp
next
  case (Cons x xs)
  then show ?case using safe_op_comp [of "f x" "fold f xs"] by (simp add: comp_def)
qed

interpretation setabs_safe: safe_op "Store_SetAbsolute key v at now" for key v at now
  by (rule safe_op_key [OF SetAbsolute_tracked]) (simp add: SetAbsolute_column slot_ok_string store_wf_def)

interpretation incrby_safe: safe_op "\<lambda>s. snd (Store_IncrBy key d now s)" for key d now
  by (rule safe_op_key [OF IncrBy_tracked IncrBy_slot])

interpretation append_safe: safe_op "\<lambda>s. snd (Store_Append key v now s)" for key v now
  by (rule safe_op_key [OF Append_tracked Append_slot])

interpretation getdel_safe: safe_op "\<lambda>s. snd (Store_GetDel key now s)" for key now
  by (rule safe_op_key [OF GetDel_tracked GetDel_slot])

interpretation hset_safe: safe_op "\<lambda>s. snd (Store_HSet key ps now s)" for key ps now
  by (rule safe_op_key [OF HSet_tracked HSet_slot])

interpretation hdel_safe: safe_op "\<lambda>s. snd (Store_HDel key fs now s)" for key fs now
  by (rule safe_op_key [OF HDel_tracked HDel_slot])

interpretation sadd_safe: safe_op "\<lambda>s. snd (Store_SAdd key ms now s)" for key ms now
  by (rule safe_op_key [OF SAdd_tracked SAdd_slot])

interpretation push_safe: safe_op "\<lambda>s. snd (pushList key left vs now s)" for key left vs now
  by (rule safe_op_key [OF pushList_tracked pushList_slot])

interpretation pop_safe: safe_op "\<lambda>s. snd (popList key left now s)" for key left now
proof (rule safe_op_key)
  fix s assume s: "store_wf s"
  have ok: "slot_ok (live now s key)" by (rule slot_ok_live [OF s])
  note run = popList_run [OF ok, of left, unfolded key_result_def]
  show "tracked {key} s (snd (popList key left now s))" using run by blast
  have "slot_ok (let c = live now s key; xs = list_at c in if list_wrong c \<or> xs = [] then c else put_list (snd (take_end left xs)) c)"
    using ok list_edit_slot [OF s] by (simp add: Let_def)
  then show "slot_ok (column (snd (popList key left now s)) key)" using run by simp
qed

interpretation get_safe: safe_op "\<lambda>s. snd (Store_Get key now s)" for key now
  by (rule safe_op_key [where key = key])
    (use tracked_mono [OF Get_tracked] tracked_frame [OF Get_tracked] in \<open>auto simp: store_wf_def\<close>)

interpretation del_safe: safe_op "\<lambda>s. snd (Store_Del ks now s)" for ks now
proof -
  have one: "safe_op (\<lambda>s. if existsRLocked k now s then deleteKeyLocked k now s else purge k now s)" for k
  proof (rule safe_op_key [where key = k])
    fix s assume "store_wf s"
    then show "slot_ok (column (if existsRLocked k now s then deleteKeyLocked k now s else purge k now s) k)"
      using slot_ok_live [of s now k] by (simp add: column_delete column_purge)
  qed (simp_all add: tracked_delete tracked_purge)
  have "safe_op (\<lambda>s. snd (del_loop ks n now s))" for n
  proof (induction ks arbitrary: n)
    case (Cons k ks)
    have "snd (del_loop (k # ks) n now s) = snd (del_loop ks 0 now (if existsRLocked k now s then deleteKeyLocked k now s else purge k now s))" for s
      using del_loop_count [of ks] by (simp add: del_loop_Cons)
    then show ?case using safe_op_comp [OF one Cons.IH] by simp
  qed (use safe_op_id in simp)
  then show "safe_op (\<lambda>s. snd (Store_Del ks now s))" by (simp add: Store_Del_def)
qed

section \<open>Handlers\<close>

definition safe :: "handler \<Rightarrow> bool" where
  "safe h \<longleftrightarrow> (\<forall>s. store_wf (db s) \<longrightarrow> store_wf (db (snd (h s))) \<and> tracked UNIV (db s) (db (snd (h s))))"

named_theorems safe_rules

lemma safe_then: "store_wf d \<Longrightarrow> tracked UNIV d (db s) \<Longrightarrow> store_wf (db s) \<Longrightarrow> safe h \<Longrightarrow> store_wf (db (snd (h s))) \<and> tracked UNIV d (db (snd (h s)))"
  unfolding safe_def using tracked_trans by blast

lemma safe_simple [safe_rules]: "safe (answer bs)" "safe (fail m)" "safe (wrongArgs cmd)"
  by (simp_all add: safe_def answer_def fail_def wrongArgs_def)

lemma safe_if [safe_rules]: "(b \<Longrightarrow> safe h) \<Longrightarrow> (\<not> b \<Longrightarrow> safe g) \<Longrightarrow> safe (if b then h else g)"
  by simp

lemma safe_attempt [safe_rules]: "(\<And>x. r = Inr x \<Longrightarrow> safe (k x)) \<Longrightarrow> safe (attempt k r)"
  by (cases r) (simp_all add: safe_def attempt_def)

lemma safe_with_int [safe_rules]: "(\<And>n. safe (k n)) \<Longrightarrow> safe (with_int x k)"
  by (auto simp: safe_def with_int_def split: prod.split option.split)

lemma safe_reading [safe_rules]: "(\<And>x. safe (k x)) \<Longrightarrow> safe (reading f k)"
  by (simp add: safe_def reading_def)

lemma safe_owning [safe_rules]: "safe h \<Longrightarrow> safe (owning ks h)"
  by (auto simp: safe_def owning_def split: option.split)

lemma safe_validated [safe_rules]: "safe h \<Longrightarrow> safe (validated e key flds h)"
  by (auto simp: safe_def validated_def split: option.split)

lemma safe_of_type [safe_rules]: "safe h \<Longrightarrow> safe (of_type e key typ h)" "safe h \<Longrightarrow> safe (existing e key typ bs h)"
  by (auto simp: of_type_def existing_def intro!: safe_rules)

lemma safe_count [safe_rules]: "safe h \<Longrightarrow> safe (count_access hit h)"
proof -
  assume h: "safe h"
  have "store_wf (db (snd (count_access hit h s))) \<and> tracked UNIV (db s) (db (snd (count_access hit h s)))" if s: "store_wf (db s)" for s
    unfolding count_access_def by (rule safe_then [OF s _ _ h]) (use s in simp_all)
  then show ?thesis by (simp add: safe_def)
qed

lemma append_log_db [simp]: "db (snd (append_log e args s)) = db s"
  by (auto simp: append_log_def split: option.split prod.split)

lemma safe_logging [safe_rules]: "safe h \<Longrightarrow> safe (logging e args h)"
proof -
  assume h: "safe h"
  have "store_wf (db (snd (logging e args h s))) \<and> tracked UNIV (db s) (db (snd (logging e args h s)))" if "store_wf (db s)" for s
  proof (cases "append_log e args s")
    case (Pair err s')
    have "db s' = db s" using append_log_db [of e args s] Pair by simp
    then show ?thesis using that h Pair by (auto simp: logging_def safe_def split: option.split) metis+
  qed
  then show ?thesis by (simp add: safe_def)
qed

lemma safe_on_store: "safe_op (\<lambda>d. snd (f d)) \<Longrightarrow> (\<And>x. safe (k x)) \<Longrightarrow> safe (on_store f k)"
proof -
  assume f: "safe_op (\<lambda>d. snd (f d))" and k: "\<And>x. safe (k x)"
  have "store_wf (db (snd (on_store f k s))) \<and> tracked UNIV (db s) (db (snd (on_store f k s)))" if s: "store_wf (db s)" for s
    unfolding on_store_def split_def
    by (rule safe_then [OF s _ _ k]) (use safe_op.wf [OF f s] safe_op.seen [OF f s] in simp_all)
  then show ?thesis by (simp add: safe_def)
qed

lemma safe_change: "safe_op f \<Longrightarrow> safe h \<Longrightarrow> safe (change f h)"
proof -
  assume f: "safe_op f" and h: "safe h"
  have "store_wf (db (snd (change f h s))) \<and> tracked UNIV (db s) (db (snd (change f h s)))" if s: "store_wf (db s)" for s
    unfolding change_def
    by (rule safe_then [OF s _ _ h]) (use safe_op.wf [OF f s] safe_op.seen [OF f s] in simp_all)
  then show ?thesis by (simp add: safe_def)
qed

lemmas safe_ops =
  safe_on_store [OF incrby_safe.safe_op_axioms] safe_on_store [OF append_safe.safe_op_axioms] safe_on_store [OF getdel_safe.safe_op_axioms]
  safe_on_store [OF hset_safe.safe_op_axioms] safe_on_store [OF hdel_safe.safe_op_axioms] safe_on_store [OF sadd_safe.safe_op_axioms]
  safe_on_store [OF get_safe.safe_op_axioms]
  safe_on_store [OF del_safe.safe_op_axioms] safe_change [OF setabs_safe.safe_op_axioms]

lemma push_pop_safe:
  "(\<And>x. safe (k x)) \<Longrightarrow> safe (on_store (Store_LPush key vs now) k)" "(\<And>x. safe (k x)) \<Longrightarrow> safe (on_store (Store_RPush key vs now) k)"
  "(\<And>x. safe (h x)) \<Longrightarrow> safe (on_store (Store_LPop key now) h)" "(\<And>x. safe (h x)) \<Longrightarrow> safe (on_store (Store_RPop key now) h)"
  using push_safe.safe_op_axioms pop_safe.safe_op_axioms
  by (auto simp: Store_LPush_def Store_RPush_def Store_LPop_def Store_RPop_def intro!: safe_on_store)

lemma counter_safe: "safe (incr_by e args (Store_IncrBy key d now))" "safe (incr_by e args (Store_Incr key now))"
    "safe (incr_by e args (Store_DecrBy key d now))"
  unfolding incr_by_def using incrby_safe.safe_op_axioms
  by (auto simp: Store_Incr_def Store_DecrBy_def intro!: safe_on_store safe_rules)

lemma handlers_safe:
  "safe (Server_mset e args)" "safe (setex e cmd unit args)" "safe (Server_hset e args)" "safe (Server_hdel e args)"
  "safe (Server_listPush e left args)" "safe (Server_listPop e left args)" "safe (Server_lrange e args)" "safe (Server_sadd e args)"
proof -
  have "safe_op (fold (\<lambda>(k, v). Store_SetAbsolute k v zeroTime now) ps)" for ps now
    by (rule safe_op_fold) (auto intro: setabs_safe.safe_op_axioms)
  then show "safe (Server_mset e args)" unfolding Server_mset_def Let_def by (intro safe_rules safe_change)
  show "safe (setex e cmd unit args)" unfolding setex_def Let_def by (intro safe_rules safe_ops)
  show "safe (Server_hset e args)" unfolding Server_hset_def Let_def by (intro safe_rules safe_ops)
  show "safe (Server_hdel e args)" unfolding Server_hdel_def by (intro safe_rules safe_ops)
  show "safe (Server_listPush e left args)" unfolding Server_listPush_def
    by (cases left) (simp_all only: if_True if_False, (intro safe_rules push_pop_safe)+)
  show "safe (Server_listPop e left args)" unfolding Server_listPop_def
    by (cases left) (simp_all only: if_True if_False, (intro safe_rules push_pop_safe)+)
  show "safe (Server_lrange e args)" unfolding Server_lrange_def by (intro safe_rules)
  show "safe (Server_sadd e args)" unfolding Server_sadd_def by (intro safe_rules safe_ops)
qed

lemma set_safe: "length args = 3 \<Longrightarrow> safe (Server_set e args)"
  by (auto simp: Server_set_def Let_def intro!: safe_rules safe_ops)

section \<open>Commands\<close>

definition tracked_commands :: "string list" where
  "tracked_commands =
     [''SETEX'', ''PSETEX'', ''MSET'', ''DEL'', ''INCR'', ''INCRBY'', ''DECR'', ''DECRBY'', ''APPEND'', ''GETDEL'', ''HSET'', ''HDEL'', ''LPUSH'', ''RPUSH'',
      ''LPOP'', ''RPOP'', ''SADD'']"

definition well_tracked :: "string list \<Rightarrow> bool" where
  "well_tracked args \<longleftrightarrow>
     (let cmd = ToUpper (args ! 0) in
      cmd \<in> set reading_commands \<or> cmd \<in> set tracked_commands \<or> cmd = ''SET'' \<and> length args = 3)"

lemmas well_tracked_eqs = well_tracked_def reading_commands_def tracked_commands_def Let_def

lemma group_safe:
  assumes "well_tracked args"
  shows "exec_strings e (ToUpper (args ! 0)) args = Some h \<Longrightarrow> safe h"
    and "exec_counters e (ToUpper (args ! 0)) args = Some h \<Longrightarrow> safe h"
    and "exec_hashes e (ToUpper (args ! 0)) args = Some h \<Longrightarrow> safe h"
    and "exec_lists e (ToUpper (args ! 0)) args = Some h \<Longrightarrow> safe h"
    and "exec_sets e (ToUpper (args ! 0)) args = Some h \<Longrightarrow> safe h"
    and "exec_bytes e (ToUpper (args ! 0)) args = Some h \<Longrightarrow> safe h"
    and "exec_sizes e (ToUpper (args ! 0)) args = Some h \<Longrightarrow> safe h"
proof -
  show "safe h" if "exec_strings e (ToUpper (args ! 0)) args = Some h"
    using that assms by (auto simp: exec_strings_def well_tracked_eqs simp del: One_nat_def split: if_split_asm
        intro!: safe_rules safe_ops handlers_safe set_safe)
  show "safe h" if "exec_counters e (ToUpper (args ! 0)) args = Some h"
    using that assms by (auto simp: exec_counters_def well_tracked_eqs simp del: One_nat_def split: if_split_asm
        intro!: safe_rules safe_ops counter_safe)
  show "safe h" if "exec_hashes e (ToUpper (args ! 0)) args = Some h"
    using that assms by (auto simp: exec_hashes_def well_tracked_eqs simp del: One_nat_def split: if_split_asm intro!: safe_rules handlers_safe)
  show "safe h" if "exec_lists e (ToUpper (args ! 0)) args = Some h"
    using that assms by (auto simp: exec_lists_def well_tracked_eqs simp del: One_nat_def split: if_split_asm intro!: safe_rules handlers_safe)
  show "safe h" if "exec_sets e (ToUpper (args ! 0)) args = Some h"
    using that assms by (auto simp: exec_sets_def well_tracked_eqs simp del: One_nat_def split: if_split_asm intro!: safe_rules handlers_safe)
  show "safe h" if "exec_bytes e (ToUpper (args ! 0)) args = Some h"
    using that assms by (auto simp: exec_bytes_def well_tracked_eqs simp del: One_nat_def split: if_split_asm option.split
        intro!: safe_rules safe_ops)
  show "safe h" if "exec_sizes e (ToUpper (args ! 0)) args = Some h"
    using that by (auto simp: exec_sizes_def split: if_split_asm intro!: safe_rules)
qed

lemma exec_safe:
  assumes "well_tracked args"
  shows "safe (exec other e args)"
proof (rule exec_early [where P = safe])
  show "ToUpper (args ! 0) \<in> early_commands" using assms by (auto simp: well_tracked_eqs early_commands_def)
qed (use group_safe [OF assms] in blast)+

lemma run_commands_safe:
  assumes "\<forall>(e, args) \<in> set cs. well_tracked args" "store_wf (db s)"
  shows "store_wf (db (run_commands other cs s)) \<and> tracked UNIV (db s) (db (run_commands other cs s))"
  using assms
proof (induction cs arbitrary: s)
  case (Cons c cs)
  obtain e args where c: "c = (e, args)" by fastforce
  have step: "store_wf (db (snd (exec other e args s)))" "tracked UNIV (db s) (db (snd (exec other e args s)))"
    using exec_safe [of args other e] Cons.prems by (simp_all add: safe_def c)
  show ?case using Cons.IH [OF _ step(1)] Cons.prems(1) tracked_trans [OF step(2)] by (simp add: c)
qed simp

text \<open>C10: Types of values: whatever sequence of the commands of \<open>well_tracked\<close> (string, counter, hash, list and set commands) the server runs, on a store in which deadlines
  may pass and clients may be blocked, every key keeps a well-formed value: one kind among string, hash, list, set, sorted set, stream
  and sketch, no empty container, and lists and sorted sets whose representation is consistent.\<close>

theorem commands_keep_types:
  assumes "\<forall>(e, args) \<in> set cs. well_tracked args" "store_wf (db s)"
  shows "store_wf (db (run_commands other cs s))"
  using run_commands_safe [OF assms] by blast

theorem commands_keep_types_witness:
  "store_wf (db (run_commands (\<lambda>_ _. fail ''unknown command'') [(calm_env, [''rpush'', ''k'', ''x'']), (calm_env, [''HSET'', ''k'', ''f'', ''v''])] fresh_server))"
proof -
  have up: "ToUpper ''rpush'' = ''RPUSH''" "ToUpper ''HSET'' = ''HSET''" by code_simp+
  have "well_tracked [''rpush'', ''k'', ''x'']" "well_tracked [''HSET'', ''k'', ''f'', ''v'']" by (simp_all add: well_tracked_eqs up)
  then show ?thesis by (intro commands_keep_types) (simp_all add: fresh_server_def)
qed

section \<open>Optimistic transactions\<close>

lemma handle_plain:
  assumes "authenticated c" "nsPrefix c = []" "cmd = ToUpper (args ! 0)"
    and "cmd \<notin> {''AUTH'', ''SUBSCRIBE'', ''PSUBSCRIBE'', ''REPLSYNC'', ''CLIENT'', ''REPLPEER'', ''UNSUBSCRIBE'', ''PUNSUBSCRIBE'', ''QUIT'', ''NAMESPACE''}"
  shows "handle other ce args c n = handle_tx other ce cmd args c n"
  using assms by (simp add: handle_def Let_def prefixKeyArgs_def)

text \<open>C9: A client of the default namespace that watches nothing yet watches keys, the server then runs commands of \<open>well_tracked\<close> on a well-formed
  store, and the data of a watched key is different afterwards: \<open>EXEC\<close> answers
  the null array, runs no command of the transaction and leaves the node as it is.\<close>

theorem exec_aborts_on_change:
  assumes "authenticated c" "nsPrefix c = []" "\<not> active (tx c)" "watched (tx c) = None" "ks \<noteq> []"
    and "handle other ce (''WATCH'' # ks) c n = Replied r c1 n1"
    and "store_wf (db (srv n))" "\<forall>(e, args) \<in> set cs. well_tracked args" "srv n' = run_commands other cs (srv n)"
    and "k \<in> set ks" "column (db (srv n')) k \<noteq> column (db (srv n)) k"
    and "authenticated c2" "nsPrefix c2 = []" "active (tx c2)" "watched (tx c2) = watched (tx c1)"
  shows "handle other ce' [''EXEC''] c2 n' = Replied Writer_NullArray (c2\<lparr>tx := \<lparr>active = False, queue = [], watched = None\<rparr>\<rparr>) n'"
proof -
  have up: "ToUpper ''WATCH'' = ''WATCH''" "ToUpper ''EXEC'' = ''EXEC''" by code_simp+
  have "handle other ce (''WATCH'' # ks) c n = Replied OK (c\<lparr>tx := (tx c)\<lparr>watched := Some (Store_KeyVersions ks (db (srv n)))\<rparr>\<rparr>) n"
    using assms(3-5) by (subst handle_plain [OF assms(1,2) refl]) (simp_all add: up handle_tx_def Let_def)
  then have w: "watched (tx c2) = Some (Store_KeyVersions ks (db (srv n)))" using assms(6,15) by auto
  have "versions_ok (db (srv n))" using assms(7) by (simp add: store_wf_def)
  from tracked_detects [OF _ this assms(11)] have "getVersion k (db (srv n')) \<noteq> getVersion k (db (srv n))"
    using run_commands_safe [OF assms(8,7)] unfolding assms(9) by blast
  then have "Store_KeysModifiedSince (Store_KeyVersions ks (db (srv n))) (db (srv n'))" using assms(10) KeysModified_iff by blast
  then show ?thesis using assms(14) w by (subst handle_plain [OF assms(12,13) refl]) (simp_all add: up handle_tx_def Let_def)
qed

lemma exec_set: "ToUpper (args ! 0) = ''SET'' \<Longrightarrow> exec other e args = Server_set e args"
proof -
  assume up: "ToUpper (args ! 0) = ''SET''"
  have "exec_strings e ''SET'' args = Some (Server_set e args)" by (simp add: exec_strings_def)
  then show ?thesis unfolding exec_def Let_def by (simp only: up first_handler.simps)
qed

definition quiet_node :: node where
  "quiet_node = \<lparr>srv = fresh_server, audit = NewAuditLog 10, slowlog = NewSlowLog 10000000 128, namespaces = NewNamespaceManager Store_New 0,
     password = [], replica = False, multiMaster = False, processed = 0, propagated = []\<rparr>"

definition calm_conn_env :: conn_env where
  "calm_conn_env = \<lparr>cenv = calm_env, elapsed = 0, evictOrder = (\<lambda>_ xs. xs)\<rparr>"

lemma set_on_fresh:
  "db (snd (Server_set calm_env [''SET'', ''k'', ''v''] fresh_server)) = Store_SetAbsolute ''k'' ''v'' zeroTime 1000 Store_New"
proof -
  have a: "aof fresh_server = Some \<lparr>aof_file = [], synced = 0, fsync = FsyncAlways, lastSync = zeroTime\<rparr>" by (simp add: fresh_server_def OpenAOF_def)
  have d: "db fresh_server = Store_New" "clock calm_env = 1000" by (simp_all add: fresh_server_def calm_env_def)
  show ?thesis
    by (simp add: Server_set_def Let_def attempt_def owning_def fresh_server_owns logging_def append_log_ok [OF sound_calm_env a] change_def answer_def d)
qed

theorem exec_aborts_on_change_witness:
  "let c = new_conn ''peer'' quiet_node;
       c2 = c\<lparr>tx := \<lparr>active = True, queue = [[''DEL'', ''k'']], watched = Some (Store_KeyVersions [''k''] Store_New)\<rparr>\<rparr>;
       n' = quiet_node\<lparr>srv := run_commands (\<lambda>_ _. fail ''unknown command'') [(calm_env, [''SET'', ''k'', ''v''])] fresh_server\<rparr>
   in handle (\<lambda>_ _. fail ''unknown command'') calm_conn_env [''EXEC''] c2 n' =
        Replied Writer_NullArray (c2\<lparr>tx := \<lparr>active = False, queue = [], watched = None\<rparr>\<rparr>) n'"
proof -
  let ?o = "\<lambda>_ _. fail ''unknown command''" and ?c = "new_conn ''peer'' quiet_node"
  have up: "ToUpper ''WATCH'' = ''WATCH''" "ToUpper ''SET'' = ''SET''" by code_simp+
  have c: "authenticated ?c" "nsPrefix ?c = []" "\<not> active (tx ?c)" "watched (tx ?c) = None" by (simp_all add: new_conn_def quiet_node_def)
  have n: "srv quiet_node = fresh_server" "db fresh_server = Store_New" by (simp_all add: quiet_node_def fresh_server_def)
  have w: "handle ?o calm_conn_env [''WATCH'', ''k''] ?c quiet_node =
      Replied OK (?c\<lparr>tx := (tx ?c)\<lparr>watched := Some (Store_KeyVersions [''k''] Store_New)\<rparr>\<rparr>) quiet_node"
    using c by (subst handle_plain [OF c(1,2) refl]) (simp_all add: up handle_tx_def Let_def n)
  have t: "well_tracked [''SET'', ''k'', ''v'']" by (simp add: well_tracked_eqs up)
  define u where "u = run_commands ?o [(calm_env, [''SET'', ''k'', ''v''])] fresh_server"
  have kv: "cKV (column (db u) ''k'') = Some ''v''"
    unfolding u_def using set_on_fresh by (simp add: exec_set up SetAbsolute_column string_column_def)
  have "column (db (srv (quiet_node\<lparr>srv := u\<rparr>))) ''k'' \<noteq> column (db (srv quiet_node)) ''k''"
  proof
    assume "column (db (srv (quiet_node\<lparr>srv := u\<rparr>))) ''k'' = column (db (srv quiet_node)) ''k''"
    then have "column (db u) ''k'' = no_column" by (simp add: n)
    with kv show False by simp
  qed
  note ne = this
  have run: "srv (quiet_node\<lparr>srv := u\<rparr>) = run_commands ?o [(calm_env, [''SET'', ''k'', ''v''])] (srv quiet_node)"
    unfolding n(1) u_def [symmetric] by simp
  have wf: "store_wf (db (srv quiet_node))" by (simp add: n store_wf_New)
  have tr: "\<forall>(e, args) \<in> set [(calm_env, [''SET'', ''k'', ''v''])]. well_tracked args" using t by simp
  let ?c2 = "?c\<lparr>tx := \<lparr>active = True, queue = [[''DEL'', ''k'']], watched = Some (Store_KeyVersions [''k''] Store_New)\<rparr>\<rparr>"
  have c2: "authenticated ?c2" "nsPrefix ?c2 = []" "active (tx ?c2)"
    "watched (tx ?c2) = watched (tx (?c\<lparr>tx := (tx ?c)\<lparr>watched := Some (Store_KeyVersions [''k''] Store_New)\<rparr>\<rparr>))"
    using c by simp_all
  have k: "[''k''] \<noteq> []" "''k'' \<in> set [''k'']" by simp_all
  show ?thesis
    unfolding Let_def u_def [symmetric] by (rule exec_aborts_on_change [OF c k(1) w wf tr run k(2) ne c2])
qed

end
