(* ===== verification/Vole_Access.thy ===== *)
theory Vole_Access
  imports Vole_Tracking
begin

text \<open>
  The command loop of \<open>handleConn\<close> (\<^verbatim>\<open>server.go\<close>) as a whole: what a client that has not given the password can reach, and what the
  read-only check of a replica covers.
\<close>

section \<open>Sessions\<close>

text \<open>The answers to the commands of one client, with the connection and the node afterwards; \<open>None\<close> when a command ends the process
  or belongs to the parts that are left out.\<close>

fun session :: "dispatch \<Rightarrow> (conn_env \<times> string list) list \<Rightarrow> conn \<Rightarrow> node \<Rightarrow> (string list \<times> conn \<times> node) option" where
  "session other [] c n = Some ([], c, n)"
| "session other ((ce, args) # cs) c n =
     (case handle other ce args c n of
        Replied r c n \<Rightarrow> map_option (\<lambda>(rs, c, n). (r # rs, c, n)) (session other cs c n)
      | _ \<Rightarrow> None)"

text \<open>\<open>AUTH\<close> with the password as its last argument.\<close>

definition gives_password :: "string \<Rightarrow> string list \<Rightarrow> bool" where
  "gives_password pw args \<longleftrightarrow> ToUpper (args ! 0) = ''AUTH'' \<and> (length args = 2 \<or> length args = 3) \<and> last args = pw"

section \<open>Before authentication\<close>

lemma not_hello [simp]:
  "exec_strings e ''HELLO'' args = None" "exec_counters e ''HELLO'' args = None" "exec_deadlines e ''HELLO'' args = None"
  "exec_hashes e ''HELLO'' args = None" "exec_lists e ''HELLO'' args = None" "exec_sets e ''HELLO'' args = None"
  "exec_zsets e ''HELLO'' args = None" "exec_keyspace e ''HELLO'' args = None" "exec_bytes e ''HELLO'' args = None"
  "exec_bits e ''HELLO'' args = None" "exec_sizes e ''HELLO'' args = None" "exec_zranges e ''HELLO'' args = None"
  "exec_zchanges e ''HELLO'' args = None" "exec_geo e ''HELLO'' args = None" "exec_copies e ''HELLO'' args = None"
  "exec_ranges e ''HELLO'' args = None" "exec_sorting e ''HELLO'' args = None" "exec_setops e ''HELLO'' args = None"
  "exec_fields e ''HELLO'' args = None"
  by (simp_all add: exec_strings_def exec_counters_def exec_deadlines_def exec_hashes_def exec_lists_def exec_sets_def
      exec_zsets_def exec_keyspace_def exec_bytes_def exec_bits_def exec_sizes_def exec_zranges_def exec_zchanges_def exec_geo_def
      exec_copies_def exec_ranges_def exec_sorting_def exec_setops_def exec_fields_def del: One_nat_def)

lemma exec_hello: "ToUpper (args ! 0) = ''HELLO'' \<Longrightarrow> \<exists>bs. exec other e args s = (Inr bs, s)"
  unfolding exec_def Let_def by (simp add: exec_misc_def answer_def)

lemma exec_ping: "ToUpper (args ! 0) = ''PING'' \<Longrightarrow> \<exists>bs. exec other e args s = (Inr bs, s)"
proof -
  assume up: "ToUpper (args ! 0) = ''PING''"
  have "exec_strings e ''PING'' args = Some (if 1 < length args then answer (Writer_Bulk (args ! 1)) else answer (Writer_Simple ''PONG''))"
    by (simp add: exec_strings_def)
  then show ?thesis unfolding exec_def Let_def up by (simp add: answer_def del: One_nat_def)
qed

text \<open>A client outside the default state of a new connection has got there by a command it may not use yet.\<close>

definition outsider :: "conn \<Rightarrow> bool" where
  "outsider c \<longleftrightarrow> \<not> authenticated c \<and> \<not> active (tx c) \<and> nsPrefix c = []"

definition same_node :: "node \<Rightarrow> node \<Rightarrow> bool" where
  "same_node n m \<longleftrightarrow> srv m = srv n \<and> password m = password n \<and> namespaces m = namespaces n \<and> audit m = audit n \<and> propagated m = propagated n"

lemma handle_outsider:
  assumes "outsider c" "password n \<noteq> []" "\<not> gives_password (password n) args"
  shows "\<exists>r m. handle other ce args c n = Replied r c m \<and> same_node n m"
proof -
  let ?cmd = "ToUpper (args ! 0)"
  consider "?cmd \<noteq> ''AUTH''" "?cmd \<noteq> ''PING''" "?cmd \<noteq> ''HELLO''" | "?cmd = ''AUTH''" | "?cmd = ''PING'' \<or> ?cmd = ''HELLO''" by blast
  then show ?thesis
  proof cases
    case 1
    with assms(1) show ?thesis by (simp add: handle_def outsider_def same_node_def)
  next
    case 2
    have "last args = (if length args = 2 then args ! 1 else args ! 2)" if "length args = 2 \<or> length args = 3"
      using that last_conv_nth [of args] by (cases "args = []") auto
    with 2 assms(2,3) show ?thesis
      by (auto simp: handle_def handle_auth_def gives_password_def same_node_def Let_def split: if_splits)
  next
    case 3
    obtain bs where x: "exec other (cenv ce) args (srv n) = (Inr bs, srv n)" using 3 exec_hello exec_ping by blast
    have w: "\<not> isWriteCommand ?cmd" using 3 by (auto simp: isWriteCommand_def write_commands_def)
    have "handle other ce args c n = run_command other ce ?cmd args c n"
      using 3 w assms(1) by (auto simp: handle_def outsider_def prefixKeyArgs_def handle_tx_def handle_default_def Let_def)
    then show ?thesis using w by (simp add: run_command_def x after_success_def same_node_def Let_def)
  qed
qed

text \<open>C11: The password protects the node.  On a node with a password, whatever commands a client sends on a new connection, as long
  as none of them is \<open>AUTH\<close> with the password, every command is answered, the connection stays unauthenticated, and the
  data, the log, the namespaces, the audit log and what is sent to replicas are as they were.\<close>

theorem locked_out:
  assumes "password n \<noteq> []" "\<forall>(ce, args) \<in> set cs. \<not> gives_password (password n) args"
  shows "\<exists>rs m. session other cs (new_conn addr n) n = Some (rs, new_conn addr n, m) \<and> length rs = length cs \<and>
    srv m = srv n \<and> namespaces m = namespaces n \<and> audit m = audit n \<and> propagated m = propagated n"
proof -
  have "\<exists>rs m. session other cs c n0 = Some (rs, c, m) \<and> length rs = length cs \<and> same_node n m" if "outsider c" "same_node n n0" for c n0
    using that assms(2)
  proof (induction cs arbitrary: n0)
    case (Cons a cs)
    obtain ce args where a: "a = (ce, args)" by (cases a)
    have g: "password n0 \<noteq> []" "\<not> gives_password (password n0) args" using Cons.prems(2,3) assms(1) a by (simp_all add: same_node_def)
    obtain r n1 where h: "handle other ce args c n0 = Replied r c n1" "same_node n0 n1"
      using handle_outsider [OF Cons.prems(1) g] by blast
    have "same_node n n1" using h(2) Cons.prems(2) by (simp add: same_node_def)
    from Cons.IH [OF Cons.prems(1) this] Cons.prems(3) obtain rs m where
      "session other cs c n1 = Some (rs, c, m)" "length rs = length cs" "same_node n m" by auto
    then show ?case by (simp add: a h(1))
  qed simp
  moreover have "outsider (new_conn addr n)" "same_node n n" using assms(1) by (simp_all add: outsider_def new_conn_def same_node_def)
  ultimately show ?thesis by (force simp: same_node_def)
qed

theorem locked_out_witness:
  "let n = quiet_node\<lparr>password := ''pw''\<rparr>;
       cs = [(calm_conn_env, [''SET'', ''k'', ''v'']), (calm_conn_env, [''AUTH'', ''no'']), (calm_conn_env, [''PING''])] in
   (\<exists>rs m. session (\<lambda>_ _. fail ''unknown command'') cs (new_conn ''peer'' n) n = Some (rs, new_conn ''peer'' n, m) \<and> length rs = 3 \<and> srv m = srv n)"
proof -
  define n where "n = quiet_node\<lparr>password := ''pw''\<rparr>"
  define cs where "cs = [(calm_conn_env, [''SET'', ''k'', ''v'']), (calm_conn_env, [''AUTH'', ''no'']), (calm_conn_env, [''PING''])]"
  have up: "ToUpper ''SET'' = ''SET''" "ToUpper ''AUTH'' = ''AUTH''" "ToUpper ''PING'' = ''PING''" by code_simp+
  have pw: "password n = ''pw''" by (simp add: n_def)
  have ok: "password n \<noteq> []" "\<forall>(ce, args) \<in> set cs. \<not> gives_password (password n) args"
    by (simp_all add: pw cs_def gives_password_def up)
  have "length cs = 3" by (simp add: cs_def)
  with locked_out [OF ok, of "\<lambda>_ _. fail ''unknown command''" "''peer''"] show ?thesis
    unfolding n_def [symmetric] cs_def [symmetric] Let_def by auto
qed

section \<open>Read-only replicas\<close>

text \<open>A replica refuses a write command, but not inside a transaction: \<open>EXEC\<close> runs the queued commands without the check.\<close>

theorem exec_writes_on_replica:
  assumes "authenticated c" "nsPrefix c = []" "replica n" "\<not> multiMaster n" "isWriteCommand (ToUpper (args ! 0))"
    and "ToUpper (args ! 0) \<notin> {''AUTH'', ''SUBSCRIBE'', ''PSUBSCRIBE'', ''REPLSYNC'', ''CLIENT'', ''REPLPEER'', ''UNSUBSCRIBE'', ''PUNSUBSCRIBE'', ''QUIT'',
      ''NAMESPACE'', ''MULTI'', ''EXEC'', ''DISCARD'', ''WATCH'', ''UNWATCH''}"
    and "tx c = \<lparr>active = False, queue = [], watched = None\<rparr>" "execTransaction other (cenv ce) [args] (srv n) = (Inr bs, s)"
  shows "handle other ce args c n = Replied (Writer_Error (''READONLY You can'' @ [CHR 0x27] @ ''t write against a read only replica'')) c n \<and>
    (\<exists>c1 c2. handle other ce [''MULTI''] c n = Replied OK c1 n \<and> handle other ce args c1 n = Replied (Writer_Simple ''QUEUED'') c2 n \<and>
       handle other ce [''EXEC''] c2 n = Replied bs c (n\<lparr>srv := s\<rparr>))"
proof -
  have up: "ToUpper ''MULTI'' = ''MULTI''" "ToUpper ''EXEC'' = ''EXEC''" by code_simp+
  let ?c1 = "c\<lparr>tx := \<lparr>active = True, queue = [], watched = None\<rparr>\<rparr>"
  let ?c2 = "c\<lparr>tx := \<lparr>active = True, queue = [args], watched = None\<rparr>\<rparr>"
  have c: "c\<lparr>tx := \<lparr>active = False, queue = [], watched = None\<rparr>\<rparr> = c" using assms(7) by (cases c) simp
  have refused: "handle other ce args c n = Replied (Writer_Error (''READONLY You can'' @ [CHR 0x27] @ ''t write against a read only replica'')) c n"
    by (subst handle_plain [OF assms(1,2) refl]) (use assms in \<open>simp_all add: handle_tx_def handle_default_def Let_def\<close>)
  have "handle other ce [''MULTI''] c n = Replied OK ?c1 n"
    by (subst handle_plain [OF assms(1,2) refl]) (use assms(7) in \<open>simp_all add: up handle_tx_def Let_def\<close>)
  moreover have "handle other ce args ?c1 n = Replied (Writer_Simple ''QUEUED'') ?c2 n"
    by (subst handle_plain [OF _ _ refl]) (use assms in \<open>simp_all add: handle_tx_def handle_default_def Let_def\<close>)
  moreover have "handle other ce [''EXEC''] ?c2 n = Replied bs c (n\<lparr>srv := s\<rparr>)"
    by (subst handle_plain [OF _ _ refl]) (use assms(1,2,8) c in \<open>simp_all add: up handle_tx_def Let_def\<close>)
  ultimately show ?thesis using refused by blast
qed

end
