(* ===== verification/Spec2Isabelle.thy ===== *)
theory Spec2Isabelle
  imports Vole_Snapshot Vole_Cron Vole_Access
begin

text \<open>
  Verification of vole, an in-memory data store with a Redis-like protocol, written in Go.

  \<^bold>\<open>The program.\<close>  All data is in one \<open>Store\<close> (\<^verbatim>\<open>src/internal/store\<close>): a struct of maps from keys to values, one map per kind of value,
  with deadlines, delays, versions, waiters and access times beside them, guarded by one lock.  The containers (ring buffer, sorted
  set, time series, sketch, JSON document, message queue) have files of their own.  The server (\<^verbatim>\<open>src/internal/server\<close>) reads commands from
  connections (\<^verbatim>\<open>src/internal/resp\<close>), checks authentication, namespace, transaction state, cluster slot and replica role, dispatches the
  command in \<open>exec\<close>, appends a record to the log (\<^verbatim>\<open>aof.go\<close>) and calls the method of the store.  At start-up the log is replayed.

  \<^bold>\<open>How the model corresponds to the code.\<close>  A struct is a record with the fields of the source; a method \<open>T.M\<close> is a function \<open>T_M\<close> that takes
  the arguments, then the clock reading \<open>now\<close> if the method reads the clock, then the state, and returns the result with the new state.
  A method of the store holds the lock for its whole body, so it is one step; a method that gives up the lock to wait is split there
  (\<open>BPop_start\<close> and \<open>BPop_finish\<close>, \<open>Dequeue_start\<close> and \<open>Dequeue_finish\<close>, \<open>Wait_start\<close> and \<open>removeWaiter\<close>), and statements about interleavings put
  steps of other clients in between.  Errors and panics are values of \<open>go_error\<close>.  An \<open>int\<close> or \<open>int64\<close> is an integer with \<open>wrap64\<close> wherever the
  code can overflow; hashes and bits are words.

  \<^bold>\<open>Language and library.\<close>
  \<^item> \<open>Vole_Prelude\<close>: maps, errors, time, \<open>int64\<close>, \<open>sort.Search\<close>, and the locale \<open>guarded_simulation\<close> (with \<open>simulation\<close>): a step function whose
    steps agree with those of an abstract machine gives the same outputs on every run.
  \<^item> \<open>Vole_Strconv\<close>, \<open>Vole_Text\<close>, \<open>Vole_Float\<close>: number parsing and printing, string functions, \<open>float64\<close> with rounding to nearest.  The two zeros
    are one value.
  \<^item> \<open>Vole_Glob\<close>: \<open>MatchGlob\<close> of \<^verbatim>\<open>store.go\<close>; it accepts exactly the language of the pattern.
  \<^item> \<open>Vole_Resp\<close>: \<^verbatim>\<open>resp.go\<close>; what \<open>Writer.Command\<close> writes, \<open>ReadCommand\<close> reads back.

  \<^bold>\<open>Containers.\<close>
  \<^item> \<open>Vole_Deque\<close> (\<^verbatim>\<open>deque.go\<close>): the locale \<open>deque_spec\<close> is what the store relies on; every run equals the run on a list.
  \<^item> \<open>Vole_SortedSet\<close> (\<^verbatim>\<open>sortedset.go\<close>): the locale \<open>sorted_set_spec\<close>; every run without NaN equals the run on a table of scores.
  \<^item> \<open>Vole_TimeSeries\<close> (\<^verbatim>\<open>timeseries.go\<close>): insertion, ranges, what downsampling returns and exactly when its loop returns.
  \<^item> \<open>Vole_HyperLogLog\<close> (\<^verbatim>\<open>hyperloglog.go\<close>): registers depend on the set of elements only; merging is union.
  \<^item> \<open>Vole_JSON\<close> (\<^verbatim>\<open>jsonstore.go\<close>): paths, reading, editing; read-after-write and frame.

  \<^bold>\<open>The store.\<close>
  \<^item> \<open>Vole_Store\<close> (\<^verbatim>\<open>store.go\<close>): the state, versions, lazy expiry.  \<open>column s k\<close> is everything stored under a key and \<open>live now s k\<close> what is left of
    it at a moment.  \<open>store_wf\<close> is the invariant: one core kind per key, no empty container, consistent lists and sorted sets, versions
    below the counter.  \<open>tracked K s t\<close> says that only keys of \<open>K\<close> changed and that each change got a new version.
  \<^item> \<open>Vole_Strings\<close>, \<open>Vole_Hashes\<close>, \<open>Vole_Sets\<close>, \<open>Vole_Lists\<close>, \<open>Vole_ZSets\<close>, \<open>Vole_Bitmaps\<close>, \<open>Vole_Streams\<close>, \<open>Vole_Documents\<close>, \<open>Vole_Limits\<close>, \<open>Vole_Search\<close>,
    \<open>Vole_Geo\<close> (with \<^verbatim>\<open>geo.go\<close>), \<open>Vole_Queue\<close> (\<^verbatim>\<open>queue.go\<close>), \<open>Vole_Keys\<close>, \<open>Vole_Snapshot\<close>: the operations by kind of value.  Each operation has a lemma for the
    column it leaves, one for \<open>tracked\<close>, and the invariant is kept.  Runs of hash, set, list and sorted set commands on a key are simulated by
    runs on a map, a set, a list and a table (interpretations of \<open>simulation\<close>); runs of queue commands by a life cycle of messages
    (\<open>ledger_step\<close>).  Blocked clients are served in order, from the end they asked for; the cases in which a wake-up or a value is lost are
    theorems as well.

  \<^bold>\<open>The server.\<close>
  \<^item> \<open>Vole_Log\<close>, \<open>Vole_Replay\<close> (\<^verbatim>\<open>aof.go\<close>): escaping, checksums, appending under the three \<open>fsync\<close> policies, and the effect of every record.
  \<^item> \<open>Vole_Cluster\<close> (\<^verbatim>\<open>cluster.go\<close>), \<open>Vole_Services\<close> (\<^verbatim>\<open>schema.go\<close>, \<^verbatim>\<open>slowlog.go\<close>, \<^verbatim>\<open>audit.go\<close>), \<open>Vole_Namespace\<close> (\<^verbatim>\<open>namespace.go\<close>), \<open>Vole_Cron\<close> (\<^verbatim>\<open>cron.go\<close>).
  \<^item> \<open>Vole_Server\<close>, \<open>Vole_Handlers\<close>, \<open>Vole_Values\<close>, \<open>Vole_Moves\<close>, \<open>Vole_Extras\<close> (\<^verbatim>\<open>server.go\<close>): the handlers, in the groups in which the switch of \<open>exec\<close> has
    them.  \<open>Vole_Exec\<close>: the dispatcher, transactions and one iteration of the loop of \<open>handleConn\<close>.

  \<^bold>\<open>Properties that span components.\<close>
  \<^item> \<open>Vole_Journal\<close>, \<open>Vole_Recovery\<close>: the locale \<open>durable_op\<close> is the contract between an operation and the log, interpreted on the operations that
    handlers log; a handler that \<open>journals\<close> explains its change by the records it appends; so a replay restores the data.  \<open>Vole_Gaps\<close>: what it
    does not restore.
  \<^item> \<open>Vole_Tracking\<close>: the locale \<open>safe_op\<close> is the contract between an operation and \<open>WATCH\<close>; commands keep the types of values, and \<open>EXEC\<close> refuses a
    transaction when a watched key has changed.
  \<^item> \<open>Vole_Access\<close>: a client without the password changes nothing; \<open>EXEC\<close> on a replica writes.

  \<^bold>\<open>Bounds.\<close>  Loops over data are recursions on it.  A client that follows the cursors of \<open>SCAN\<close> takes fuel; one more than the number of keys is
  enough, and that is part of the theorem.  The bucket loop of \<open>Downsample\<close>, the loop over a range in \<^verbatim>\<open>cron.go\<close> and the eviction loop are
  partial functions, since they need not end: not returning is \<open>None\<close>.

  \<^bold>\<open>Idealisations.\<close>  All clock readings of one critical section are one.  Memory allocation succeeds.  The counter of queue messages is an
  unbounded number of the store.  The order in which Go enumerates a map, random numbers, \<open>sort.Slice\<close> and \<open>sort.SliceStable\<close>, trigonometry, the
  conversion of a float out of range, \<open>encoding/json\<close>, the quoting of \<open>%q\<close> and the outcomes of file operations are arguments; a theorem that
  depends on one of them names what it relies on.

  \<^bold>\<open>Not modelled.\<close>  Network, files and goroutines: \<^verbatim>\<open>http.go\<close>, \<^verbatim>\<open>replication.go\<close>, \<^verbatim>\<open>multimaster.go\<close>, \<^verbatim>\<open>pubsub.go\<close>, \<^verbatim>\<open>webhooks.go\<close>, \<^verbatim>\<open>clients.go\<close>, \<^verbatim>\<open>metrics.go\<close>,
  the file of \<^verbatim>\<open>snapshot.go\<close>, \<^verbatim>\<open>config.go\<close> and the two programs under \<^verbatim>\<open>src/cmd\<close>.  Scripts (\<^verbatim>\<open>scripting.go\<close>), administration and the handlers of waiting
  commands are the argument \<open>other\<close> of the dispatcher.  The estimate of \<open>PFCOUNT\<close> (logarithms of floats).
\<close>

end
